(* ===== verification/Prelude.thy ===== *)
theory Prelude
  imports Main "HOL-Library.AList" "HOL-Library.List_Lexorder" "HOL-Library.Char_ord"
begin

text \<open>
  Shared vocabulary of the development.
  \<^item> The exceptions of the manager and supervisor packages: \<open>exn_class\<close> lists the classes,
    \<open>exn_parent\<close> their bases, and \<open>catches\<close> decides which handler of an
    \<^verbatim>\<open>except\<close> clause takes an error. A call that may raise returns a sum, \<open>Inl\<close> for the
    exception and \<open>Inr\<close> for the value; a call that also changes state returns the pair of that
    sum and the new state, because Python keeps what was written before the raise.
  \<^item> \<open>res_map\<close>, the list comprehension whose element may raise, and \<open>fromkeys\<close>, Python's
    ordered de-duplication \<^verbatim>\<open>dict.fromkeys\<close>.
  \<^item> \<open>hash_order\<close>, the iteration order of a Python set of strings. Python leaves it open (string
    hashing is seeded per process), so it is an argument of every definition that iterates over a
    set, and every theorem holds for all of its values.
  \<^item> The collections \<open>res_simps\<close> and \<open>order_intros\<close> that the component theories fill.
\<close>

named_theorems res_simps \<open>rewriting calls that may raise\<close>
named_theorems order_intros \<open>facts about dependency orders\<close>

section \<open>Exceptions\<close>

datatype exn_class =
    PyException | PyRuntimeError | PyValueError | PyKeyError | PyTypeError | PyOSError
  | PyAttributeError | PyIndexError | PyAssertionError
  | PyTimeoutError | IntegrityError | OperationalError
  | RegistryError | PlatformProfileError
  | OperationError | InvalidOperation | DependencyBlocked | OperationConflict
  | OperationNotFound | PreflightBlocked | ExistingInstallation | StepTimedOut | StepCancelled
  | AuthorizationError | ApprovalUnavailable
  | HeartbeatError | RecordStoreError
  | RemoteActionError | RemoteActionUnavailable
  | RecoveryError | IncompatibleBackup | IncompleteArtifact
  | UpgradeError | StaleUpgradePlan | UpgradeExecutionError
  | SecretWorkflowError | InvalidSecretRequest | SecretUpdateConflict | SecretUpdateNotFound
  | MigrationError | ClusterUnavailable
  | AutonomyPolicyError | SupervisorError

fun exn_parent :: "exn_class \<Rightarrow> exn_class option" where
  "exn_parent PyException = None"
| "exn_parent PyTimeoutError = Some PyOSError"
| "exn_parent RegistryError = Some PyValueError"
| "exn_parent PlatformProfileError = Some PyValueError"
| "exn_parent OperationError = Some PyRuntimeError"
| "exn_parent InvalidOperation = Some OperationError"
| "exn_parent DependencyBlocked = Some OperationError"
| "exn_parent OperationConflict = Some OperationError"
| "exn_parent OperationNotFound = Some OperationError"
| "exn_parent PreflightBlocked = Some OperationError"
| "exn_parent ExistingInstallation = Some OperationError"
| "exn_parent StepTimedOut = Some OperationError"
| "exn_parent StepCancelled = Some OperationError"
| "exn_parent AuthorizationError = Some PyRuntimeError"
| "exn_parent ApprovalUnavailable = Some AuthorizationError"
| "exn_parent HeartbeatError = Some PyRuntimeError"
| "exn_parent RecordStoreError = Some PyRuntimeError"
| "exn_parent RemoteActionError = Some PyRuntimeError"
| "exn_parent RemoteActionUnavailable = Some RemoteActionError"
| "exn_parent RecoveryError = Some PyRuntimeError"
| "exn_parent IncompatibleBackup = Some RecoveryError"
| "exn_parent IncompleteArtifact = Some RecoveryError"
| "exn_parent UpgradeError = Some PyRuntimeError"
| "exn_parent StaleUpgradePlan = Some UpgradeError"
| "exn_parent UpgradeExecutionError = Some UpgradeError"
| "exn_parent SecretWorkflowError = Some PyRuntimeError"
| "exn_parent InvalidSecretRequest = Some SecretWorkflowError"
| "exn_parent SecretUpdateConflict = Some SecretWorkflowError"
| "exn_parent SecretUpdateNotFound = Some SecretWorkflowError"
| "exn_parent MigrationError = Some PyRuntimeError"
| "exn_parent ClusterUnavailable = Some PyRuntimeError"
| "exn_parent AutonomyPolicyError = Some PyRuntimeError"
| "exn_parent SupervisorError = Some PyRuntimeError"
| "exn_parent c = Some PyException"

text \<open>The class hierarchy is at most four levels deep, so three steps up reach every base.\<close>

definition is_subclass :: "exn_class \<Rightarrow> exn_class \<Rightarrow> bool" where
  "is_subclass c d \<longleftrightarrow>
     c = d \<or> exn_parent c = Some d
     \<or> Option.bind (exn_parent c) exn_parent = Some d
     \<or> Option.bind (Option.bind (exn_parent c) exn_parent) exn_parent = Some d"

datatype exn = Exn (exn_cls: exn_class) (exn_msg: string)

definition catches :: "exn_class list \<Rightarrow> exn \<Rightarrow> bool" where
  "catches cs e \<longleftrightarrow> (\<exists>c\<in>set cs. is_subclass (exn_cls e) c)"

lemma catches_Exception [simp]: "catches [PyException] e"
  by (cases e; rename_tac c m; case_tac c) (auto simp: catches_def is_subclass_def)

section \<open>Calls that may raise\<close>

type_synonym 'a result = "exn + 'a"

abbreviation raise :: "exn_class \<Rightarrow> string \<Rightarrow> 'a result" where
  "raise c m \<equiv> Inl (Exn c m)"

fun res_map :: "('a \<Rightarrow> 'b result) \<Rightarrow> 'a list \<Rightarrow> 'b list result" where
  "res_map f [] = Inr []"
| "res_map f (x # xs) =
     (case f x of
        Inl e \<Rightarrow> Inl e
      | Inr y \<Rightarrow> (case res_map f xs of Inl e \<Rightarrow> Inl e | Inr ys \<Rightarrow> Inr (y # ys)))"

lemma res_map_Inr_iff [res_simps]:
  "res_map f xs = Inr ys \<longleftrightarrow> list_all2 (\<lambda>x y. f x = Inr y) xs ys"
proof (induction xs arbitrary: ys)
  case (Cons x xs)
  show ?case
  proof (cases "f x")
    case (Inr y)
    with Cons show ?thesis
      by (cases "res_map f xs") (auto simp: list_all2_Cons1)
  qed (simp add: list_all2_Cons1)
qed auto

lemma res_map_total:
  assumes "\<And>x. x \<in> set xs \<Longrightarrow> \<exists>y. f x = Inr y"
  shows "\<exists>ys. res_map f xs = Inr ys"
  using assms by (induction xs) (fastforce split: sum.splits)+

lemma res_map_Inl:
  assumes "res_map f xs = Inl e"
  shows "\<exists>x\<in>set xs. f x = Inl e"
  using assms by (induction xs) (auto split: sum.splits)

lemma res_map_map:
  assumes "res_map f xs = Inr ys" and "\<And>x y. f x = Inr y \<Longrightarrow> g y = x"
  shows "map g ys = xs"
  using assms by (induction xs arbitrary: ys) (auto split: sum.splits)

fun res_filter :: "('a \<Rightarrow> bool result) \<Rightarrow> 'a list \<Rightarrow> 'a list result" where
  "res_filter p [] = Inr []"
| "res_filter p (x # xs) =
     (case p x of
        Inl e \<Rightarrow> Inl e
      | Inr b \<Rightarrow> (case res_filter p xs of
           Inl e \<Rightarrow> Inl e | Inr ys \<Rightarrow> Inr (if b then x # ys else ys)))"

lemma res_filter_Inr:
  "res_filter p xs = Inr ys \<Longrightarrow>
     (\<forall>x\<in>set xs. \<exists>b. p x = Inr b) \<and> ys = filter (\<lambda>x. p x = Inr True) xs"
  by (induction xs arbitrary: ys) (auto split: sum.splits)

lemma res_filter_Inl: "res_filter p xs = Inl e \<Longrightarrow> \<exists>x\<in>set xs. p x = Inl e"
  by (induction xs) (auto split: sum.splits)

lemma res_map_mem: "res_map f xs = Inr ys \<Longrightarrow> y \<in> set ys \<Longrightarrow> \<exists>x\<in>set xs. f x = Inr y"
  by (induction xs arbitrary: ys) (auto split: sum.splits)

lemma res_map_length: "res_map f xs = Inr ys \<Longrightarrow> length ys = length xs"
  by (simp add: res_simps list_all2_lengthD)

section \<open>Ordered de-duplication\<close>

text \<open>\<^verbatim>\<open>tuple(dict.fromkeys(xs))\<close>: the first occurrence of every element, in order.\<close>

fun fromkeys :: "'a list \<Rightarrow> 'a list" where
  "fromkeys [] = []"
| "fromkeys (x # xs) = x # removeAll x (fromkeys xs)"

lemma set_fromkeys [simp]: "set (fromkeys xs) = set xs"
  by (induction xs) auto

lemma distinct_fromkeys [simp]: "distinct (fromkeys xs)"
  by (induction xs) (auto simp: distinct_removeAll)

lemma fromkeys_Nil_iff [simp]: "fromkeys xs = [] \<longleftrightarrow> xs = []"
  by (cases xs) auto

lemma fromkeys_distinct: "distinct xs \<Longrightarrow> fromkeys xs = xs"
  by (induction xs) (auto simp: removeAll_id)

lemma fromkeys_idem [simp]: "fromkeys (fromkeys xs) = fromkeys xs"
  by (simp add: fromkeys_distinct)

lemma hd_fromkeys: "xs \<noteq> [] \<Longrightarrow> hd (fromkeys xs) = hd xs"
  by (cases xs) auto

section \<open>The iteration order of a set\<close>

typedef hash_order =
  "{f :: string list \<Rightarrow> string list. \<forall>xs. distinct (f xs) \<and> set (f xs) = set xs}"
  by (rule exI [where x = remdups]) simp

setup_lifting type_definition_hash_order

text \<open>\<open>set_iter h xs\<close>: the elements of the set built by adding \<open>xs\<close> in order, as iterated.\<close>

lift_definition set_iter :: "hash_order \<Rightarrow> string list \<Rightarrow> string list" is "\<lambda>f. f" .

lift_definition insertion_order :: hash_order is fromkeys
  by simp

lift_definition alphabetical_order :: hash_order is "\<lambda>xs. sort (fromkeys xs)"
  by simp

lemma set_set_iter [simp]: "set (set_iter h xs) = set xs"
  by transfer simp

lemma distinct_set_iter [simp]: "distinct (set_iter h xs)"
  by transfer simp

lemma set_iter_insertion_order [simp]: "set_iter insertion_order xs = fromkeys xs"
  by transfer simp

lemma set_iter_alphabetical_order [simp]: "set_iter alphabetical_order xs = sort (fromkeys xs)"
  by transfer simp

lemma length_set_iter: "distinct xs \<Longrightarrow> length (set_iter h xs) = length xs"
  by (metis distinct_card distinct_set_iter set_set_iter)

section \<open>Lists\<close>

lemma in_take_iff: "x \<in> set (take i xs) \<longleftrightarrow> (\<exists>j<i. j < length xs \<and> xs ! j = x)"
  by (auto simp: in_set_conv_nth)

lemma count_list_filter: "count_list (filter P xs) x = (if P x then count_list xs x else 0)"
  by (induction xs) auto

lemma length_filter_insert:
  "length (filter (\<lambda>d. d \<notin> insert y A) xs)
     = length (filter (\<lambda>d. d \<notin> A) xs) - (if y \<in> A then 0 else count_list xs y)"
proof (induction xs)
  case (Cons x xs)
  have "y \<notin> A \<Longrightarrow> count_list xs y \<le> length (filter (\<lambda>d. d \<notin> A) xs)"
    by (induction xs) auto
  with Cons show ?case by auto
qed simp

lemma count_list_replicate: "count_list (replicate n x) y = (if x = y then n else 0)"
  by (induction n) auto

lemma count_list_le_length_filter:
  "P y \<Longrightarrow> count_list xs y \<le> length (filter P xs)"
  by (induction xs) auto

lemma filter_split:
  "filter P xs = us @ c # vs \<Longrightarrow> \<exists>ys zs. xs = ys @ c # zs \<and> filter P ys = us \<and> filter P zs = vs"
proof (induction xs arbitrary: us)
  case (Cons x xs)
  show ?case
  proof (cases "P x \<and> us = []")
    case True
    with Cons.prems have "x # xs = [] @ c # xs \<and> filter P [] = us \<and> filter P xs = vs" by simp
    then show ?thesis by blast
  next
    case False
    then obtain us' where us': "us = (if P x then [x] else []) @ us'" and "filter P xs = us' @ c # vs"
      using Cons.prems by (cases us) (auto split: if_splits)
    with Cons.IH[of us'] obtain ys zs where "xs = ys @ c # zs" "filter P ys = us'" "filter P zs = vs"
      by blast
    then have "x # xs = (x # ys) @ c # zs \<and> filter P (x # ys) = us \<and> filter P zs = vs"
      using us' by simp
    then show ?thesis by blast
  qed
qed simp

text \<open>\<^verbatim>\<open>sep.join(xs)\<close>.\<close>

fun join :: "string \<Rightarrow> string list \<Rightarrow> string" where
  "join sep [] = []"
| "join sep [x] = x"
| "join sep (x # y # xs) = x @ sep @ join sep (y # xs)"

lemma nth_take_split:
  "i < length xs \<Longrightarrow> xs = take i xs @ xs ! i # drop (Suc i) xs"
  by (rule id_take_nth_drop)

end
