(* ===== verification/Registry.thy ===== *)
theory Registry
  imports Prelude "HOL-Library.While_Combinator"
begin

text \<open>
  The component registry, \<^verbatim>\<open>manager/component_registry.py\<close>: the read-only component definitions
  and \<open>dependency_order\<close>, the topological sort that the lifecycle engine and the health engine
  run on. A component is a record of the fields of \<^verbatim>\<open>registry/components.json\<close> that the consumers
  read. The theorems show that the order is a permutation of the dependency closure of the request,
  that dependencies come first, and that it fails only for an unknown component or a real cycle.
\<close>

section \<open>The document\<close>

record operation_spec =
  op_id :: string
  op_adapter :: string
  op_timeout :: int
  op_verify :: "string list"
  op_idempotent :: bool

record check_def =
  chk_id :: string
  chk_type :: string
  chk_target :: string
  chk_timeout :: int
  chk_required :: bool

record component =
  comp_id :: string
  comp_name :: string
  comp_web :: "string option"
  comp_deps :: "string list"
  comp_operations :: "operation_spec list"
  comp_checks :: "check_def list"

text \<open>
  \<^verbatim>\<open>ComponentRegistry.__init__\<close> builds the dict \<^verbatim>\<open>_components\<close> by a comprehension: insertion
  ordered, a later entry with the same id replaces the value in place, as \<open>AList.update\<close> does.
\<close>

type_synonym registry = "(string \<times> component) list"

definition mk_registry :: "component list \<Rightarrow> registry" where
  "mk_registry cs = foldl (\<lambda>d c. AList.update (comp_id c) c d) [] cs"

definition component_ids :: "registry \<Rightarrow> string list" where
  "component_ids reg = map fst reg"

definition reg_component :: "registry \<Rightarrow> string \<Rightarrow> component result" where
  "reg_component reg c =
     (case map_of reg c of
        None \<Rightarrow> raise RegistryError (''unknown component: '' @ c)
      | Some co \<Rightarrow> Inr co)"

definition lifecycle_operations :: "registry \<Rightarrow> string \<Rightarrow> operation_spec list result" where
  "lifecycle_operations reg c =
     (case reg_component reg c of Inl e \<Rightarrow> Inl e | Inr co \<Rightarrow> Inr (comp_operations co))"

definition monitoring_checks :: "registry \<Rightarrow> string \<Rightarrow> check_def list result" where
  "monitoring_checks reg c =
     (case reg_component reg c of Inl e \<Rightarrow> Inl e | Inr co \<Rightarrow> Inr (comp_checks co))"

text \<open>The dependency ids of a component; an unknown id has none.\<close>

definition deps_of :: "registry \<Rightarrow> string \<Rightarrow> string list" where
  "deps_of reg c = (case map_of reg c of None \<Rightarrow> [] | Some co \<Rightarrow> comp_deps co)"

lemma deps_of_Some [simp]: "map_of reg c = Some co \<Longrightarrow> deps_of reg c = comp_deps co"
  by (simp add: deps_of_def)

definition known :: "registry \<Rightarrow> string \<Rightarrow> bool" where
  "known reg c \<longleftrightarrow> c \<in> set (component_ids reg)"

lemma known_iff: "known reg c \<longleftrightarrow> map_of reg c \<noteq> None"
  by (simp add: known_def component_ids_def map_of_eq_None_iff)

lemma reg_component_Inr_iff [res_simps]:
  "reg_component reg c = Inr co \<longleftrightarrow> map_of reg c = Some co"
  by (simp add: reg_component_def split: option.splits)

lemma reg_component_Inl_iff [res_simps]:
  "reg_component reg c = Inl e \<longleftrightarrow>
     \<not> known reg c \<and> e = Exn RegistryError (''unknown component: '' @ c)"
  by (auto simp: reg_component_def known_iff split: option.splits)

lemma reg_component_known: "known reg c \<Longrightarrow> \<exists>co. reg_component reg c = Inr co"
  by (auto simp: known_iff res_simps)

lemma distinct_foldl_update:
  "distinct (map fst d) \<Longrightarrow> distinct (map fst (foldl (\<lambda>d c. AList.update (k c) c d) d cs))"
  by (induction cs arbitrary: d) (auto simp: distinct_update)

lemma distinct_mk_registry: "distinct (component_ids (mk_registry cs))"
  by (simp add: component_ids_def mk_registry_def distinct_foldl_update)

section \<open>The dependency closure\<close>

text \<open>
  The nested function \<^verbatim>\<open>include\<close> visits a component and then, in order, its dependencies. Its
  recursion is the pre-order walk of a work list: the dependencies of the component just added are
  visited before what was left. \<open>cl\<close> is the set \<^verbatim>\<open>closure\<close> in insertion order.
\<close>

function include_deps :: "registry \<Rightarrow> string list \<Rightarrow> string list \<Rightarrow> string list result" where
  "include_deps reg [] cl = Inr cl"
| "include_deps reg (c # cs) cl =
     (case map_of reg c of
        None \<Rightarrow> raise RegistryError (''unknown component: '' @ c)
      | Some co \<Rightarrow>
          if c \<in> set cl then include_deps reg cs cl
          else include_deps reg (comp_deps co @ cs) (cl @ [c]))"
  by pat_completeness auto
termination
proof (relation "measures [\<lambda>(reg, cs, cl). card (fst ` set reg - set cl), \<lambda>(reg, cs, cl). length cs]")
  fix reg :: registry and c co cs and cl :: "string list"
  assume "map_of reg c = Some co" and "c \<notin> set cl"
  then have "c \<in> fst ` set reg - set cl"
    by (metis DiffI map_of_SomeD fst_conv image_eqI)
  then have "card (fst ` set reg - set (cl @ [c])) < card (fst ` set reg - set cl)"
    by (intro psubset_card_mono) auto
  then show "((reg, comp_deps co @ cs, cl @ [c]), (reg, c # cs, cl))
     \<in> measures [\<lambda>(reg, cs, cl). card (fst ` set reg - set cl), \<lambda>(reg, cs, cl). length cs]"
    by simp
qed auto

text \<open>The components a request reaches along dependencies.\<close>

definition dep_rel :: "registry \<Rightarrow> (string \<times> string) set" where
  "dep_rel reg = {(c, d). d \<in> set (deps_of reg c)}"

definition reach :: "registry \<Rightarrow> string set \<Rightarrow> string set" where
  "reach reg S = (dep_rel reg)\<^sup>* `` S"

definition dep_closed :: "registry \<Rightarrow> string set \<Rightarrow> bool" where
  "dep_closed reg S \<longleftrightarrow> (\<forall>c\<in>S. set (deps_of reg c) \<subseteq> S)"

lemma dep_closedD: "dep_closed reg S \<Longrightarrow> c \<in> S \<Longrightarrow> set (deps_of reg c) \<subseteq> S"
  by (simp add: dep_closed_def)

lemma subset_reach: "S \<subseteq> reach reg S"
  by (auto simp: reach_def)

lemma reach_mono: "S \<subseteq> T \<Longrightarrow> reach reg S \<subseteq> reach reg T"
  by (auto simp: reach_def)

lemma reach_dep: "c \<in> reach reg S \<Longrightarrow> d \<in> set (deps_of reg c) \<Longrightarrow> d \<in> reach reg S"
  by (auto simp: reach_def dep_rel_def intro: rtrancl_into_rtrancl)

lemma reach_least: "dep_closed reg T \<Longrightarrow> S \<subseteq> T \<Longrightarrow> reach reg S \<subseteq> T"
proof
  fix x assume *: "dep_closed reg T" "S \<subseteq> T" "x \<in> reach reg S"
  then obtain s where "s \<in> T" and path: "(s, x) \<in> (dep_rel reg)\<^sup>*"
    by (auto simp: reach_def)
  from path \<open>s \<in> T\<close> show "x \<in> T"
    by (induction rule: rtrancl_induct) (use * in \<open>auto simp: dep_closed_def dep_rel_def\<close>)
qed

lemma include_facts:
  assumes "include_deps reg cs cl = Inr res" and "distinct cl" and "set cl \<subseteq> set (component_ids reg)"
    and "\<forall>c\<in>set cl. set (deps_of reg c) \<subseteq> set cl \<union> set cs"
  shows "distinct res \<and> set cl \<union> set cs \<subseteq> set res \<and> set res \<subseteq> set (component_ids reg)
     \<and> dep_closed reg (set res)"
  using assms
proof (induction reg cs cl rule: include_deps.induct)
  case (2 reg c cs cl)
  from "2.prems"(1) obtain co where c: "map_of reg c = Some co"
    by (auto split: option.splits)
  then have kc: "c \<in> set (component_ids reg)"
    using known_iff[of reg c] by (simp add: known_def)
  show ?case
  proof (cases "c \<in> set cl")
    case True
    with "2.IH"(1)[OF c True] "2.prems" c show ?thesis by auto
  next
    case False
    have "\<forall>x\<in>set (cl @ [c]). set (deps_of reg x) \<subseteq> set (cl @ [c]) \<union> set (comp_deps co @ cs)"
      using "2.prems"(4) c by (auto simp: deps_of_def)
    with "2.IH"(2)[OF c False] "2.prems" c False kc show ?thesis by auto
  qed
qed (auto simp: dep_closed_def)

lemma include_subset:
  assumes "include_deps reg cs cl = Inr res" and "dep_closed reg T" and "set cs \<union> set cl \<subseteq> T"
  shows "set res \<subseteq> T"
  using assms
proof (induction reg cs cl rule: include_deps.induct)
  case (2 reg c cs cl)
  from "2.prems"(1) obtain co where c: "map_of reg c = Some co"
    by (auto split: option.splits)
  moreover have "set (comp_deps co) \<subseteq> T"
    using dep_closedD[OF "2.prems"(2), of c] "2.prems"(3) c by simp
  ultimately show ?case
    using "2.IH" "2.prems" by (cases "c \<in> set cl") auto
qed auto

lemma include_closure:
  assumes "include_deps reg cs [] = Inr res"
  shows "distinct res" and "set res = reach reg (set cs)"
    and "set res \<subseteq> set (component_ids reg)" and "dep_closed reg (set res)"
proof -
  have *: "distinct res \<and> set cs \<subseteq> set res \<and> set res \<subseteq> set (component_ids reg)
     \<and> dep_closed reg (set res)"
    using include_facts[OF assms] by simp
  have "dep_closed reg (reach reg (set cs))"
    by (auto simp: dep_closed_def intro: reach_dep)
  then have "set res \<subseteq> reach reg (set cs)"
    using include_subset[OF assms] subset_reach[of "set cs" reg] by auto
  with * reach_least[of reg "set res" "set cs"] show "set res = reach reg (set cs)" by auto
  from * show "distinct res" and "set res \<subseteq> set (component_ids reg)"
    and "dep_closed reg (set res)" by auto
qed

lemma include_total:
  assumes "dep_closed reg T" and "T \<subseteq> set (component_ids reg)" and "set cs \<subseteq> T"
  shows "\<exists>res. include_deps reg cs cl = Inr res"
  using assms
proof (induction reg cs cl rule: include_deps.induct)
  case (2 reg c cs cl)
  then have "known reg c" by (auto simp: known_def)
  then obtain co where c: "map_of reg c = Some co" by (auto simp: known_iff)
  then have "set (comp_deps co) \<subseteq> T"
    using dep_closedD[OF "2.prems"(1), of c] "2.prems"(3) by simp
  with 2 c show ?case by (cases "c \<in> set cl") auto
qed simp

lemma include_Inl:
  assumes "include_deps reg cs cl = Inl e"
  shows "\<exists>c. e = Exn RegistryError (''unknown component: '' @ c) \<and> \<not> known reg c
     \<and> c \<in> reach reg (set cs)"
  using assms
proof (induction reg cs cl rule: include_deps.induct)
  case (2 reg c cs cl)
  show ?case
  proof (cases "map_of reg c")
    case None
    with 2 subset_reach[of "set (c # cs)" reg] show ?thesis by (auto simp: known_iff)
  next
    case (Some co)
    have cs: "reach reg (set cs) \<subseteq> reach reg (set (c # cs))"
      by (rule reach_mono) auto
    have "set (comp_deps co @ cs) \<subseteq> reach reg (set (c # cs))"
      using Some subset_reach[of "set (c # cs)" reg] reach_dep[of c reg "set (c # cs)"]
      by (auto simp: deps_of_def)
    then have "reach reg (set (comp_deps co @ cs)) \<subseteq> reach reg (set (c # cs))"
      by (intro reach_least) (auto simp: dep_closed_def intro: reach_dep)
    with cs 2 Some show ?thesis by (cases "c \<in> set cl") (auto split: if_splits)
  qed
qed simp

section \<open>Kahn's algorithm\<close>

text \<open>The loop that counts the in-edges and collects the consumers of every component.\<close>

definition count_edge ::
    "string \<Rightarrow> (string \<Rightarrow> int) \<times> (string \<Rightarrow> string list) \<Rightarrow> string
       \<Rightarrow> (string \<Rightarrow> int) \<times> (string \<Rightarrow> string list)" where
  "count_edge c = (\<lambda>(ind, cons) d. (ind(c := ind c + 1), cons(d := cons d @ [c])))"

definition edges ::
    "registry \<Rightarrow> string list \<Rightarrow> (string \<Rightarrow> int) \<times> (string \<Rightarrow> string list)" where
  "edges reg cl =
     foldl (\<lambda>acc c. foldl (count_edge c) acc (deps_of reg c)) ((\<lambda>_. 0), (\<lambda>_. [])) cl"

record kahn =
  k_ready :: "string list"
  k_indeg :: "string \<Rightarrow> int"
  k_ordered :: "string list"

text \<open>The inner loop: every consumer loses an in-edge and is queued when it has none left.\<close>

fun release ::
    "string list \<Rightarrow> (string \<Rightarrow> int) \<Rightarrow> string list \<Rightarrow> (string \<Rightarrow> int) \<times> string list" where
  "release [] ind ready = (ind, ready)"
| "release (k # ks) ind ready =
     (let ind' = ind(k := ind k - 1)
      in release ks ind' (if ind' k = 0 then ready @ [k] else ready))"

definition kahn_step :: "(string \<Rightarrow> string list) \<Rightarrow> kahn \<Rightarrow> kahn" where
  "kahn_step cons st =
     (case k_ready st of
        [] \<Rightarrow> st
      | d # rest \<Rightarrow>
          (case release (cons d) (k_indeg st) rest of
             (ind, ready) \<Rightarrow>
               \<lparr>k_ready = ready, k_indeg = ind, k_ordered = k_ordered st @ [d]\<rparr>))"

text \<open>\<open>None\<close> would be a loop that never ends; \<open>kahn_run_terminates\<close> excludes it.\<close>

definition kahn_run :: "(string \<Rightarrow> string list) \<Rightarrow> kahn \<Rightarrow> kahn option" where
  "kahn_run cons st = while_option (\<lambda>st. k_ready st \<noteq> []) (kahn_step cons) st"

definition kahn_start :: "hash_order \<Rightarrow> registry \<Rightarrow> string list \<Rightarrow> kahn" where
  "kahn_start h reg cl =
     (let ind = fst (edges reg (set_iter h cl))
      in \<lparr>k_ready = filter (\<lambda>c. c \<in> set cl \<and> ind c = 0) (component_ids reg),
          k_indeg = ind, k_ordered = []\<rparr>)"

definition order_closure :: "hash_order \<Rightarrow> registry \<Rightarrow> string list \<Rightarrow> string list result" where
  "order_closure h reg cl =
     (let st = the (kahn_run (snd (edges reg (set_iter h cl))) (kahn_start h reg cl))
      in if length (k_ordered st) \<noteq> length cl
         then raise RegistryError
                (''dependency cycle involves: ''
                 @ join '', '' (sort (filter (\<lambda>c. k_indeg st c \<noteq> 0) cl)))
         else Inr (k_ordered st))"

text \<open>\<^verbatim>\<open>set(selected or self._components)\<close>: an empty selection, like none, means every component.\<close>

definition dependency_order ::
    "hash_order \<Rightarrow> registry \<Rightarrow> string list option \<Rightarrow> string list result" where
  "dependency_order h reg sel =
     (let selected = (case sel of None \<Rightarrow> [] | Some xs \<Rightarrow> xs);
          requested = (if selected = [] then component_ids reg else selected)
      in case include_deps reg (set_iter h requested) [] of
           Inl e \<Rightarrow> Inl e
         | Inr cl \<Rightarrow> order_closure h reg cl)"

subsection \<open>Counting the edges\<close>

lemma foldl_count_edge:
  "foldl (count_edge c) (ind, cons) ds =
     (ind(c := ind c + int (length ds)), \<lambda>d. cons d @ replicate (count_list ds d) c)"
proof (induction ds arbitrary: ind cons)
  case (Cons x xs)
  then show ?case
    by (auto simp: count_edge_def fun_eq_iff replicate_append_same[symmetric])
qed auto

lemma foldl_edges:
  "distinct cl \<Longrightarrow>
   foldl (\<lambda>acc c. foldl (count_edge c) acc (deps_of reg c)) (ind, cons) cl =
     (\<lambda>c. ind c + (if c \<in> set cl then int (length (deps_of reg c)) else 0),
      \<lambda>d. cons d @ concat (map (\<lambda>c. replicate (count_list (deps_of reg c) d) c) cl))"
  by (induction cl arbitrary: ind cons) (auto simp: foldl_count_edge fun_eq_iff)

lemma fst_edges:
  "distinct cl \<Longrightarrow> c \<in> set cl \<Longrightarrow> fst (edges reg cl) c = int (length (deps_of reg c))"
  by (simp add: edges_def foldl_edges)

lemma count_list_concat_replicate:
  "distinct cl \<Longrightarrow>
   count_list (concat (map (\<lambda>c. replicate (f c) c) cl)) x = (if x \<in> set cl then f x else 0)"
  by (induction cl) (auto simp: count_list_append count_list_replicate)

lemma count_consumers:
  "distinct cl \<Longrightarrow>
   count_list (snd (edges reg cl) d) c =
     (if c \<in> set cl then count_list (deps_of reg c) d else 0)"
  by (simp add: edges_def foldl_edges count_list_concat_replicate)

lemma release_spec:
  assumes "release ks ind ready = (ind', ready')" and "\<And>k. k \<in> set ks \<Longrightarrow> int (count_list ks k) \<le> ind k"
  shows "ind' = (\<lambda>k. ind k - int (count_list ks k))
     \<and> (\<exists>new. ready' = ready @ new \<and> distinct new
          \<and> set new = {k \<in> set ks. ind k = int (count_list ks k)})"
  using assms
proof (induction ks arbitrary: ind ready)
  case (Cons k ks)
  let ?ind = "ind(k := ind k - 1)" and ?ready = "if ind k = 1 then ready @ [k] else ready"
  have le: "int (count_list ks j) \<le> ?ind j" if "j \<in> set ks" for j
    using Cons.prems(2)[of j] that by auto
  have k: "k \<in> set ks \<Longrightarrow> ind k > 1"
    using Cons.prems(2)[of k] count_list_0_iff[of ks k] by auto
  from Cons.prems(1) have "release ks ?ind ?ready = (ind', ready')" by simp
  from Cons.IH[OF this le] obtain new where
    ind': "ind' = (\<lambda>j. ?ind j - int (count_list ks j))" and "ready' = ?ready @ new"
    and dn: "distinct new" and new: "set new = {j \<in> set ks. ?ind j = int (count_list ks j)}"
    by auto
  let ?new = "if ind k = 1 then k # new else new"
  have "ready' = ready @ ?new" using \<open>ready' = ?ready @ new\<close> by simp
  moreover have "distinct ?new" using dn k new by auto
  moreover have "x \<in> set ?new \<longleftrightarrow> x \<in> set (k # ks) \<and> ind x = int (count_list (k # ks) x)" for x
  proof (cases "x = k")
    case True
    then show ?thesis using k new count_list_0_iff[of ks k] by (cases "k \<in> set ks") auto
  next
    case False
    then show ?thesis using new by simp
  qed
  then have "set ?new = {j \<in> set (k # ks). ind j = int (count_list (k # ks) j)}"
    by blast
  ultimately have ex: "ready' = ready @ ?new \<and> distinct ?new
      \<and> set ?new = {j \<in> set (k # ks). ind j = int (count_list (k # ks) j)}"
    by blast
  then have ex: "\<exists>new. ready' = ready @ new \<and> distinct new
      \<and> set new = {j \<in> set (k # ks). ind j = int (count_list (k # ks) j)}"
    by (rule exI)
  have "ind' = (\<lambda>j. ind j - int (count_list (k # ks) j))"
    unfolding ind' by (rule ext) simp
  with ex show ?case by (rule conjI[rotated])
qed auto

subsection \<open>The loop invariant\<close>

definition unmet :: "registry \<Rightarrow> string list \<Rightarrow> string \<Rightarrow> nat" where
  "unmet reg done c = length (filter (\<lambda>d. d \<notin> set done) (deps_of reg c))"

definition deps_before :: "registry \<Rightarrow> string list \<Rightarrow> bool" where
  "deps_before reg xs \<longleftrightarrow>
     (\<forall>i<length xs. set (deps_of reg (xs ! i)) \<subseteq> set (take i xs))"

definition kahn_inv :: "registry \<Rightarrow> string list \<Rightarrow> kahn \<Rightarrow> bool" where
  "kahn_inv reg cl st \<longleftrightarrow>
     distinct (k_ordered st @ k_ready st) \<and> set (k_ordered st @ k_ready st) \<subseteq> set cl
   \<and> (\<forall>c\<in>set cl. k_indeg st c = int (unmet reg (k_ordered st) c))
   \<and> (\<forall>c\<in>set cl. c \<in> set (k_ordered st @ k_ready st) \<longleftrightarrow> k_indeg st c = 0)
   \<and> deps_before reg (k_ordered st)"

lemma unmet_0_iff: "unmet reg done c = 0 \<longleftrightarrow> set (deps_of reg c) \<subseteq> set done"
  by (auto simp: unmet_def filter_empty_conv)

lemma unmet_snoc:
  "d \<notin> set done \<Longrightarrow> unmet reg (done @ [d]) c = unmet reg done c - count_list (deps_of reg c) d"
  using length_filter_insert[of d "set done" "deps_of reg c"] by (simp add: unmet_def)

lemma count_le_unmet: "d \<notin> set done \<Longrightarrow> count_list (deps_of reg c) d \<le> unmet reg done c"
  by (simp add: unmet_def count_list_le_length_filter)

lemma deps_before_snoc:
  "deps_before reg (xs @ [x]) \<longleftrightarrow> deps_before reg xs \<and> set (deps_of reg x) \<subseteq> set xs"
  by (fastforce simp: deps_before_def nth_append less_Suc_eq)

lemma deps_beforeD:
  "deps_before reg xs \<Longrightarrow> i < length xs \<Longrightarrow> d \<in> set (deps_of reg (xs ! i)) \<Longrightarrow> \<exists>j<i. xs ! j = d"
  by (auto simp: deps_before_def in_take_iff subset_iff)

lemma kahn_inv_start:
  assumes "distinct (component_ids reg)" and "set cl \<subseteq> set (component_ids reg)"
  shows "kahn_inv reg cl (kahn_start h reg cl)"
  using assms
  by (auto simp: kahn_inv_def kahn_start_def Let_def fst_edges unmet_def deps_before_def)

lemma kahn_inv_step:
  assumes inv: "kahn_inv reg cl st" and ready: "k_ready st \<noteq> []"
  shows "kahn_inv reg cl (kahn_step (snd (edges reg (set_iter h cl))) st)"
proof -
  let ?cons = "snd (edges reg (set_iter h cl))" and ?done = "k_ordered st" and ?ind = "k_indeg st"
  obtain d rest where r: "k_ready st = d # rest" using ready by (cases "k_ready st") auto
  obtain ind' ready' where rel: "release (?cons d) ?ind rest = (ind', ready')" by fastforce
  have cnt: "count_list (?cons d) c = (if c \<in> set cl then count_list (deps_of reg c) d else 0)" for c
    by (simp add: count_consumers)
  have in_cl: "k \<in> set (?cons d) \<Longrightarrow> k \<in> set cl" for k
    using cnt[of k] count_list_0_iff[of "?cons d" k] by (auto split: if_splits)
  have dd: "d \<notin> set ?done" and dcl: "d \<in> set cl"
    using inv r by (auto simp: kahn_inv_def)
  have ind: "c \<in> set cl \<Longrightarrow> ?ind c = int (unmet reg ?done c)" for c
    using inv by (auto simp: kahn_inv_def)
  have "int (count_list (?cons d) k) \<le> ?ind k" if "k \<in> set (?cons d)" for k
    using in_cl[OF that] ind cnt count_le_unmet[OF dd, of reg k] by simp
  from release_spec[OF rel this] obtain new where
    ind': "ind' = (\<lambda>k. ?ind k - int (count_list (?cons d) k))" and ready': "ready' = rest @ new"
    and dn: "distinct new" and new: "set new = {k \<in> set (?cons d). ?ind k = int (count_list (?cons d) k)}"
    by auto
  have old: "c \<in> set cl \<Longrightarrow> c \<in> set (?done @ d # rest) \<longleftrightarrow> ?ind c = 0" for c
    using inv r by (auto simp: kahn_inv_def)
  have pos: "k \<in> set new \<Longrightarrow> k \<in> set cl \<and> ?ind k > 0" for k
    using new in_cl count_list_0_iff[of "?cons d" k] by auto
  have disj: "set new \<inter> set (?done @ d # rest) = {}"
    using pos old by fastforce
  have unmet': "c \<in> set cl \<Longrightarrow> ind' c = int (unmet reg (?done @ [d]) c)" for c
    using ind cnt count_le_unmet[OF dd, of reg c] unmet_snoc[OF dd, of reg c] by (simp add: ind')
  have queued: "c \<in> set (?done @ d # rest @ new) \<longleftrightarrow> ind' c = 0" if "c \<in> set cl" for c
  proof (cases "?ind c = 0")
    case True
    then show ?thesis
      using old[OF that] unmet'[OF that] ind[OF that] unmet_snoc[OF dd, of reg c] by auto
  next
    case False
    moreover have "c \<in> set new \<longleftrightarrow> ind' c = 0"
      using False by (auto simp: new ind' count_list_0_iff)
    ultimately show ?thesis using old[OF that] by auto
  qed
  have "set (deps_of reg d) \<subseteq> set ?done"
    using old[OF dcl] ind[OF dcl] by (simp add: unmet_0_iff)
  moreover have "distinct (?done @ d # rest @ new)" and "set (?done @ d # rest @ new) \<subseteq> set cl"
    using inv r dn disj pos by (auto simp: kahn_inv_def)
  ultimately have "kahn_inv reg cl \<lparr>k_ready = ready', k_indeg = ind', k_ordered = ?done @ [d]\<rparr>"
    using inv unmet' queued by (simp add: kahn_inv_def ready' deps_before_snoc)
  then show ?thesis by (simp add: kahn_step_def r rel)
qed

subsection \<open>The loop ends\<close>

lemma kahn_inv_room:
  assumes "kahn_inv reg cl st" and "k_ready st \<noteq> []"
  shows "length (k_ordered st) < card (set cl)"
proof -
  have "length (k_ordered st @ k_ready st) = card (set (k_ordered st @ k_ready st))"
    using assms(1) by (metis distinct_card kahn_inv_def)
  also have "\<dots> \<le> card (set cl)"
    using assms(1) by (intro card_mono) (auto simp: kahn_inv_def)
  finally show ?thesis using assms(2) by (cases "k_ready st") auto
qed

lemma length_kahn_step:
  "k_ready st \<noteq> [] \<Longrightarrow> length (k_ordered (kahn_step cons st)) = Suc (length (k_ordered st))"
  by (cases "k_ready st") (auto simp: kahn_step_def split: prod.splits)

lemma kahn_run_terminates:
  assumes "kahn_inv reg cl st"
  shows "\<exists>st'. kahn_run (snd (edges reg (set_iter h cl))) st = Some st'
     \<and> kahn_inv reg cl st' \<and> k_ready st' = []"
proof -
  let ?step = "kahn_step (snd (edges reg (set_iter h cl)))"
  have "\<exists>st'. while_option (\<lambda>st. k_ready st \<noteq> []) ?step st = Some st'"
  proof (rule measure_while_option_Some[where P = "kahn_inv reg cl"
        and f = "\<lambda>st. card (set cl) - length (k_ordered st)"])
    fix s assume "kahn_inv reg cl s" and "k_ready s \<noteq> []"
    then show "kahn_inv reg cl (?step s)
        \<and> card (set cl) - length (k_ordered (?step s)) < card (set cl) - length (k_ordered s)"
      using kahn_inv_step[of reg cl s h] kahn_inv_room[of reg cl s] by (simp add: length_kahn_step)
  qed (rule assms)
  then obtain st' where st': "while_option (\<lambda>st. k_ready st \<noteq> []) ?step st = Some st'" by blast
  moreover have "kahn_inv reg cl st'"
    by (rule while_option_rule[OF _ st', where P = "kahn_inv reg cl"])
      (use assms kahn_inv_step in auto)
  moreover have "k_ready st' = []"
    using while_option_stop[OF st'] by simp
  ultimately show ?thesis by (auto simp: kahn_run_def)
qed

lemma no_sink_cyclic:
  assumes "finite S" and "S \<noteq> {}" and step: "\<And>c. c \<in> S \<Longrightarrow> \<exists>d\<in>S. (c, d) \<in> r"
  shows "\<exists>c\<in>S. (c, c) \<in> r\<^sup>+"
proof (rule ccontr)
  assume no: "\<not> (\<exists>c\<in>S. (c, c) \<in> r\<^sup>+)"
  let ?r = "(r \<inter> S \<times> S)\<inverse>"
  have "acyclic (r \<inter> S \<times> S)"
  proof (rule acyclicI, intro allI notI)
    fix x assume x: "(x, x) \<in> (r \<inter> S \<times> S)\<^sup>+"
    then have "x \<in> S" by (auto dest: tranclD)
    moreover have "(x, x) \<in> r\<^sup>+" using x by (rule trancl_mono) auto
    ultimately show False using no by auto
  qed
  then have "wf ?r"
    using assms(1) by (intro finite_acyclic_wf_converse) auto
  moreover obtain s where "s \<in> S" using assms(2) by auto
  ultimately obtain c where "c \<in> S" and min: "\<And>d. (d, c) \<in> ?r \<Longrightarrow> d \<notin> S"
    by (rule wfE_min) blast
  obtain d where "d \<in> S" and "(c, d) \<in> r" using step[OF \<open>c \<in> S\<close>] by auto
  with min[of d] \<open>c \<in> S\<close> show False by simp
qed

lemma deps_before_acyclic:
  assumes "deps_before reg xs" and "distinct xs" and "c \<in> set xs"
  shows "(c, c) \<notin> (dep_rel reg)\<^sup>+"
proof
  have index: "\<exists>j<i. xs ! j = d" if path: "(a, d) \<in> (dep_rel reg)\<^sup>+" and "a = xs ! i" "i < length xs"
    for a d i
    using path
  proof (induction rule: trancl_induct)
    case (base y)
    then show ?case using deps_beforeD[OF assms(1)] that by (auto simp: dep_rel_def)
  next
    case (step y z)
    then obtain j where "j < i" and "xs ! j = y" by auto
    moreover have "\<exists>k<j. xs ! k = z"
      using deps_beforeD[OF assms(1), of j z] step(2) calculation that by (auto simp: dep_rel_def)
    ultimately show ?case using order.strict_trans by blast
  qed
  obtain i where i: "i < length xs" "xs ! i = c"
    using assms(3) by (auto simp: in_set_conv_nth)
  assume "(c, c) \<in> (dep_rel reg)\<^sup>+"
  then obtain j where "j < i" and "xs ! j = c"
    using index[OF _ i(2)[symmetric] i(1)] by blast
  then show False
    using nth_eq_iff_index_eq[OF assms(2) order.strict_trans[OF \<open>j < i\<close> i(1)] i(1)] i(2) by simp
qed

lemma order_closure_cases:
  assumes "distinct (component_ids reg)" and "distinct cl" and "set cl \<subseteq> set (component_ids reg)"
    and closed: "dep_closed reg (set cl)"
  shows "(\<exists>xs. order_closure h reg cl = Inr xs \<and> distinct xs \<and> set xs = set cl \<and> deps_before reg xs)
     \<or> ((\<exists>e. order_closure h reg cl = Inl e \<and> exn_cls e = RegistryError)
         \<and> (\<exists>c\<in>set cl. (c, c) \<in> (dep_rel reg)\<^sup>+))"
proof -
  obtain st where run: "kahn_run (snd (edges reg (set_iter h cl))) (kahn_start h reg cl) = Some st"
    and inv: "kahn_inv reg cl st" and stop: "k_ready st = []"
    using kahn_run_terminates[OF kahn_inv_start[OF assms(1,3)]] by blast
  have ord: "distinct (k_ordered st)" "set (k_ordered st) \<subseteq> set cl" "deps_before reg (k_ordered st)"
    using inv stop by (auto simp: kahn_inv_def)
  show ?thesis
  proof (cases "length (k_ordered st) = length cl")
    case True
    then have "set (k_ordered st) = set cl"
      using ord assms(2) by (metis card_subset_eq distinct_card finite_set)
    with True run ord show ?thesis by (simp add: order_closure_def)
  next
    case False
    let ?S = "set cl - set (k_ordered st)"
    have "?S \<noteq> {}"
      using False ord assms(2) by (metis Diff_eq_empty_iff distinct_card subset_antisym)
    moreover have "\<exists>d\<in>?S. (c, d) \<in> dep_rel reg" if "c \<in> ?S" for c
    proof -
      have "unmet reg (k_ordered st) c \<noteq> 0"
        using inv stop that by (auto simp: kahn_inv_def)
      then obtain d where "d \<in> set (deps_of reg c)" and "d \<notin> set (k_ordered st)"
        by (auto simp: unmet_0_iff)
      then show ?thesis using dep_closedD[OF closed, of c] that by (auto simp: dep_rel_def)
    qed
    ultimately have "\<exists>c\<in>?S. (c, c) \<in> (dep_rel reg)\<^sup>+"
      by (intro no_sink_cyclic) auto
    with False run show ?thesis by (auto simp: order_closure_def)
  qed
qed

section \<open>The interface the engines rely on\<close>

text \<open>\<open>selection ids sel\<close>: the components a request stands for.\<close>

definition selection :: "'c list \<Rightarrow> 'c list option \<Rightarrow> 'c list" where
  "selection ids sel = (case sel of None \<Rightarrow> ids | Some xs \<Rightarrow> if xs = [] then ids else xs)"

text \<open>
  What a consumer of \<^verbatim>\<open>dependency_order\<close> may rely on: a successful answer lists every component
  once, every dependency before its consumers, and exactly the closure of the request.
\<close>

locale dependency_source =
  fixes ids :: "'c list"
    and deps :: "'c \<Rightarrow> 'c list"
    and order :: "'c list option \<Rightarrow> 'c list result"
  assumes order_distinct: "order sel = Inr xs \<Longrightarrow> distinct xs"
    and order_before: "order sel = Inr xs \<Longrightarrow> i < length xs \<Longrightarrow>
        set (deps (xs ! i)) \<subseteq> set (take i xs)"
    and order_includes: "order sel = Inr xs \<Longrightarrow> set (selection ids sel) \<subseteq> set xs"
    and order_least: "order sel = Inr xs \<Longrightarrow> set (selection ids sel) \<subseteq> T \<Longrightarrow>
        (\<forall>c\<in>T. set (deps c) \<subseteq> T) \<Longrightarrow> set xs \<subseteq> T"
    and order_known: "order sel = Inr xs \<Longrightarrow> set xs \<subseteq> set ids"
begin

lemma order_split_before:
  assumes "order sel = Inr (as @ c # bs)"
  shows "set (deps c) \<subseteq> set as"
  using order_before[OF assms, of "length as"] by simp

lemma order_closed:
  assumes "order sel = Inr xs" and "c \<in> set xs"
  shows "set (deps c) \<subseteq> set xs"
proof -
  from assms(2) obtain as bs where "xs = as @ c # bs" by (meson split_list)
  with order_split_before[of sel as c bs] assms(1) show ?thesis by auto
qed

text \<open>Reversing the order and keeping a selection stops consumers before their dependencies.\<close>

lemma reverse_selected:
  assumes "order sel = Inr xs" and "filter P (rev xs) = as @ c # bs"
    and "d \<in> set (deps c)" and "P d"
  shows "d \<in> set bs"
proof -
  have *: "filter P xs = rev bs @ c # rev as"
    using arg_cong[OF assms(2), of rev] by (simp add: rev_filter)
  obtain us vs where xs: "xs = us @ c # vs" and us: "filter P us = rev bs"
    using filter_split[OF *] by auto
  have "d \<in> set us"
    using order_split_before[of sel us c vs] assms(1,3) xs by auto
  then have "d \<in> set (filter P us)" using assms(4) by simp
  then show ?thesis by (simp add: us)
qed

lemma order_single_includes:
  assumes "order (Some [c]) = Inr xs"
  shows "c \<in> set xs"
  using order_includes[OF assms] by (simp add: selection_def)

end

lemma dependency_order_selection:
  "dependency_order h reg sel =
     (case include_deps reg (set_iter h (selection (component_ids reg) sel)) [] of
        Inl e \<Rightarrow> Inl e | Inr cl \<Rightarrow> order_closure h reg cl)"
  by (simp add: dependency_order_def selection_def split: option.splits)

lemma dependency_order_Inr:
  assumes "dependency_order h reg sel = Inr xs" and "distinct (component_ids reg)"
  shows "distinct xs" and "set xs = reach reg (set (selection (component_ids reg) sel))"
    and "deps_before reg xs" and "set xs \<subseteq> set (component_ids reg)"
proof -
  from assms(1) obtain cl where
    cl: "include_deps reg (set_iter h (selection (component_ids reg) sel)) [] = Inr cl"
    and ord: "order_closure h reg cl = Inr xs"
    by (auto simp: dependency_order_selection split: sum.splits)
  note c = include_closure[OF cl]
  from order_closure_cases[OF assms(2) c(1,3,4), of h] ord c(2,3)
  show "distinct xs" and "set xs = reach reg (set (selection (component_ids reg) sel))"
    and "deps_before reg xs" and "set xs \<subseteq> set (component_ids reg)" by auto
qed

text \<open>
  The interface holds of the modelled registry for every iteration order. \<^verbatim>\<open>__init__\<close> makes the
  ids distinct, so a registry is given as the component list it is built from.
\<close>

interpretation reg: dependency_source
  "component_ids (mk_registry cs)" "deps_of (mk_registry cs)" "dependency_order h (mk_registry cs)"
  for cs h
proof
  fix sel xs assume *: "dependency_order h (mk_registry cs) sel = Inr xs"
  note facts = dependency_order_Inr[OF * distinct_mk_registry]
  show "distinct xs" by (rule facts)
  show "set (deps_of (mk_registry cs) (xs ! i)) \<subseteq> set (take i xs)" if "i < length xs" for i
    using facts(3) that by (auto simp: deps_before_def)
  show "set (selection (component_ids (mk_registry cs)) sel) \<subseteq> set xs"
    using facts(2) subset_reach by metis
  show "set xs \<subseteq> T" if "set (selection (component_ids (mk_registry cs)) sel) \<subseteq> T"
      and "\<forall>c\<in>T. set (deps_of (mk_registry cs) c) \<subseteq> T" for T
    using facts(2) reach_least[of "mk_registry cs" T] that by (auto simp: dep_closed_def)
  show "set xs \<subseteq> set (component_ids (mk_registry cs))" by (rule facts)
qed

section \<open>When an order exists\<close>

definition orderable :: "registry \<Rightarrow> string set \<Rightarrow> bool" where
  "orderable reg S \<longleftrightarrow>
     reach reg S \<subseteq> set (component_ids reg) \<and> (\<forall>c\<in>reach reg S. (c, c) \<notin> (dep_rel reg)\<^sup>+)"

definition ordered_closure :: "registry \<Rightarrow> string set \<Rightarrow> string list \<Rightarrow> bool" where
  "ordered_closure reg S xs \<longleftrightarrow> distinct xs \<and> set xs = reach reg S \<and> deps_before reg xs"

lemma dependency_order_Inl:
  assumes "dependency_order h reg sel = Inl e" and "distinct (component_ids reg)"
  shows "exn_cls e = RegistryError \<and> \<not> orderable reg (set (selection (component_ids reg) sel))"
proof -
  let ?S = "selection (component_ids reg) sel"
  show ?thesis
  proof (cases "include_deps reg (set_iter h ?S) []")
    case (Inl e')
    then have "e = e'" using assms(1) by (simp add: dependency_order_selection)
    moreover obtain c where "e' = Exn RegistryError (''unknown component: '' @ c)"
      and "\<not> known reg c" and "c \<in> reach reg (set ?S)"
      using include_Inl[OF Inl] by auto
    ultimately show ?thesis by (auto simp: orderable_def known_def)
  next
    case (Inr cl)
    note c = include_closure[OF Inr]
    from assms(1) Inr have "order_closure h reg cl = Inl e"
      by (simp add: dependency_order_selection)
    with order_closure_cases[OF assms(2) c(1,3,4), of h] c(2) show ?thesis
      by (auto simp: orderable_def)
  qed
qed

lemma ordered_closure_orderable:
  assumes "ordered_closure reg S xs" and "set xs \<subseteq> set (component_ids reg)"
  shows "orderable reg S"
  using assms deps_before_acyclic[of reg xs] by (auto simp: ordered_closure_def orderable_def)

lemma dependency_order_cases:
  "case dependency_order h (mk_registry cs) sel of
     Inr xs \<Rightarrow>
       ordered_closure (mk_registry cs) (set (selection (component_ids (mk_registry cs)) sel)) xs
       \<and> orderable (mk_registry cs) (set (selection (component_ids (mk_registry cs)) sel))
   | Inl e \<Rightarrow>
       exn_cls e = RegistryError
       \<and> \<not> orderable (mk_registry cs) (set (selection (component_ids (mk_registry cs)) sel))"
proof (cases "dependency_order h (mk_registry cs) sel")
  case (Inl e)
  with dependency_order_Inl[OF Inl distinct_mk_registry] show ?thesis by simp
next
  case (Inr xs)
  note facts = dependency_order_Inr[OF Inr distinct_mk_registry]
  then have "ordered_closure (mk_registry cs)
      (set (selection (component_ids (mk_registry cs)) sel)) xs"
    by (simp add: ordered_closure_def)
  with Inr facts(4) ordered_closure_orderable show ?thesis by simp
qed

text \<open>
  C1. For every component list, request and set iteration order, \<^verbatim>\<open>dependency_order\<close> returns: either
  a duplicate-free enumeration of exactly the dependency closure of the request in which every
  dependency precedes its consumers, and then the closure is made of known components without a
  dependency cycle; or a \<^verbatim>\<open>RegistryError\<close>, and then an unknown component or a real cycle is reachable
  from the request.
\<close>

theorem dependency_order_correct:
  "case dependency_order h (mk_registry cs) sel of
     Inr xs \<Rightarrow>
       ordered_closure (mk_registry cs) (set (selection (component_ids (mk_registry cs)) sel)) xs
       \<and> orderable (mk_registry cs) (set (selection (component_ids (mk_registry cs)) sel))
   | Inl e \<Rightarrow>
       exn_cls e = RegistryError
       \<and> \<not> orderable (mk_registry cs) (set (selection (component_ids (mk_registry cs)) sel))"
  by (rule dependency_order_cases)

section \<open>The order is not a function of the registry\<close>

text \<open>
  The consumers of a component are listed in the iteration order of a set, so two components that
  become ready together come out in either order.
\<close>

definition bare :: "string \<Rightarrow> string list \<Rightarrow> component" where
  "bare c ds = \<lparr>comp_id = c, comp_name = c, comp_web = None, comp_deps = ds,
                comp_operations = [], comp_checks = []\<rparr>"

definition two_consumers :: registry where
  "two_consumers =
     mk_registry [bare ''ssc'' [], bare ''sast'' [''ssc''], bare ''dast'' [''ssc'']]"

lemma kahn_run_stop: "k_ready st = [] \<Longrightarrow> kahn_run cons st = Some st"
  by (simp add: kahn_run_def while_option_unfold)

lemma kahn_run_step: "k_ready st \<noteq> [] \<Longrightarrow> kahn_run cons st = kahn_run cons (kahn_step cons st)"
  unfolding kahn_run_def by (subst while_option_unfold) simp

lemmas order_eval = kahn_run_stop kahn_run_step kahn_step_def kahn_start_def order_closure_def
  dependency_order_def edges_def count_edge_def deps_of_def component_ids_def two_consumers_def
  mk_registry_def bare_def

lemma two_orders:
  "dependency_order insertion_order two_consumers None = Inr [''ssc'', ''sast'', ''dast'']"
  "dependency_order alphabetical_order two_consumers None = Inr [''ssc'', ''dast'', ''sast'']"
  by (simp_all add: order_eval)

text \<open>
  The order is not a function of the registry and the request: for three valid components, two
  iteration orders of a Python set give two different (both correct) orders. A plan digest binds the
  ordered targets, so an approval requested under one order is refused under the other.
\<close>

theorem order_depends_on_set_iteration:
  "dependency_order insertion_order two_consumers None
     \<noteq> dependency_order alphabetical_order two_consumers None"
  by (simp add: two_orders)

end
