(* ===== verification/Planner.thy ===== *)
theory Planner
  imports Registry
begin

text \<open>
  The planning half of \<^verbatim>\<open>manager/operation_engine.py\<close>: how a lifecycle request over components becomes
  an ordered list of bounded steps. \<open>plan_env\<close> holds the fields of \<^verbatim>\<open>OperationEngine\<close> that planning
  reads. Timeouts are whole seconds, as the registry declares them; \<^verbatim>\<open>max_step_timeout\<close> is an integer.
\<close>

section \<open>Operations, recovery classes, steps\<close>

datatype recovery = Reversible | Compensating | RestoreRequired | Irreversible

definition START_OPERATIONS :: "string list" where
  "START_OPERATIONS = [''install'', ''configure'', ''start'', ''upgrade'']"

definition STOP_OPERATIONS :: "string list" where
  "STOP_OPERATIONS = [''stop'', ''uninstall'', ''delete-data'']"

definition REQUEST_OPERATIONS :: "string list" where
  "REQUEST_OPERATIONS = START_OPERATIONS @ STOP_OPERATIONS @ [''restart'']"

definition LAB_ACTIONS :: "(string \<times> string) list" where
  "LAB_ACTIONS = [(''deploy'', ''install''), (''start'', ''start''), (''suspend'', ''stop'')]"

definition RECOVERY_CLASS_BY_OPERATION :: "(string \<times> recovery) list" where
  "RECOVERY_CLASS_BY_OPERATION =
     [(''install'', Compensating), (''configure'', Reversible), (''start'', Reversible),
      (''stop'', Reversible), (''restart'', Reversible), (''upgrade'', RestoreRequired),
      (''uninstall'', Compensating), (''delete-data'', Irreversible)]"

text \<open>\<^verbatim>\<open>IDENTIFIER.fullmatch\<close> for \<^verbatim>\<open>^[a-z][a-z0-9-]{0,63}$\<close>.\<close>

definition lower :: "char \<Rightarrow> bool" where
  "lower c \<longleftrightarrow> CHR ''a'' \<le> c \<and> c \<le> CHR ''z''"

definition identifier_ok :: "string \<Rightarrow> bool" where
  "identifier_ok s =
     (case s of
        [] \<Rightarrow> False
      | c # cs \<Rightarrow> lower c \<and> length cs \<le> 63
          \<and> list_all (\<lambda>d. lower d \<or> (CHR ''0'' \<le> d \<and> d \<le> CHR ''9'') \<or> d = CHR ''-'') cs)"

record step =
  st_component :: string
  st_operation :: string
  st_adapter :: string
  st_timeout :: int
  st_verify :: "string list"
  st_max_attempts :: int
  st_recovery :: recovery

record plan_env =
  pe_hash :: hash_order
  pe_components :: "component list"
  pe_profile :: string
  pe_max_attempts :: int
  pe_max_timeout :: int

abbreviation pe_registry :: "plan_env \<Rightarrow> registry" where
  "pe_registry env \<equiv> mk_registry (pe_components env)"

abbreviation pe_order :: "plan_env \<Rightarrow> string list option \<Rightarrow> string list result" where
  "pe_order env \<equiv> dependency_order (pe_hash env) (pe_registry env)"

text \<open>The guard of \<^verbatim>\<open>OperationEngine.__init__\<close>.\<close>

definition bounds_ok :: "plan_env \<Rightarrow> bool" where
  "bounds_ok env \<longleftrightarrow> \<not> (pe_max_attempts env < 1 \<or> pe_max_timeout env \<le> 0)"

section \<open>Steps\<close>

definition mk_step :: "plan_env \<Rightarrow> string \<Rightarrow> string \<Rightarrow> step result" where
  "mk_step env component_id operation =
     (case lifecycle_operations (pe_registry env) component_id of
        Inl e \<Rightarrow> Inl e
      | Inr ops \<Rightarrow>
          (case map_of (rev (map (\<lambda>op. (op_id op, op)) ops)) operation of
             None \<Rightarrow> raise InvalidOperation
                       (component_id @ '' does not declare the requested operation'')
           | Some capability \<Rightarrow>
               let timeout = min (op_timeout capability) (pe_max_timeout env)
               in if timeout \<le> 0 then raise RegistryError ''operation timeout is not bounded''
                  else case map_of RECOVERY_CLASS_BY_OPERATION operation of
                    None \<Rightarrow> raise PyKeyError operation
                  | Some rc \<Rightarrow> Inr
                      \<lparr>st_component = component_id, st_operation = operation,
                       st_adapter = op_adapter capability, st_timeout = timeout,
                       st_verify = op_verify capability,
                       st_max_attempts =
                         (if op_idempotent capability then pe_max_attempts env else 1),
                       st_recovery = rc\<rparr>))"

text \<open>The set \<^verbatim>\<open>_transitive_dependencies\<close>, as a list without duplicates.\<close>

definition transitive_dependencies :: "plan_env \<Rightarrow> string \<Rightarrow> string list result" where
  "transitive_dependencies env component_id =
     (case pe_order env (Some [component_id]) of
        Inl e \<Rightarrow> Inl e
      | Inr xs \<Rightarrow> Inr (removeAll component_id xs))"

text \<open>
  The two tests on transitive dependencies: a consumer outside the selection that depends on it
  (\<open>left_behind\<close>), and a consumer of one component (\<open>consumer_of\<close>).
\<close>

definition left_behind :: "plan_env \<Rightarrow> string list \<Rightarrow> string \<Rightarrow> bool result" where
  "left_behind env selected component_id =
     (if component_id \<in> set selected then Inr False
      else case transitive_dependencies env component_id of
        Inl e \<Rightarrow> Inl e
      | Inr ds \<Rightarrow> Inr (set selected \<inter> set ds \<noteq> {}))"

definition consumer_of :: "plan_env \<Rightarrow> string \<Rightarrow> string \<Rightarrow> bool result" where
  "consumer_of env component_id candidate =
     (case transitive_dependencies env candidate of
        Inl e \<Rightarrow> Inl e
      | Inr ds \<Rightarrow> Inr (component_id \<in> set ds))"

definition ordered_steps :: "plan_env \<Rightarrow> string \<Rightarrow> string list \<Rightarrow> bool \<Rightarrow> step list result" where
  "ordered_steps env operation requested include_dependencies =
     (if include_dependencies
      then case pe_order env (Some requested) of
        Inl e \<Rightarrow> Inl e
      | Inr ordered \<Rightarrow> res_map (\<lambda>c. mk_step env c operation) ordered
      else case res_filter (left_behind env requested) (component_ids (pe_registry env)) of
        Inl e \<Rightarrow> Inl e
      | Inr missing \<Rightarrow>
          if missing \<noteq> []
          then raise DependencyBlocked ''dependent components must be included before this operation''
          else case pe_order env (Some requested) of
            Inl e \<Rightarrow> Inl e
          | Inr xs \<Rightarrow>
              res_map (\<lambda>c. mk_step env c operation) (filter (\<lambda>c. c \<in> set requested) (rev xs)))"

definition plan_steps :: "plan_env \<Rightarrow> string \<Rightarrow> string list \<Rightarrow> step list result" where
  "plan_steps env operation requested =
     (case res_map (reg_component (pe_registry env)) requested of
        Inl e \<Rightarrow> Inl e
      | Inr _ \<Rightarrow>
          if operation = ''restart''
          then (case ordered_steps env ''stop'' requested False of
             Inl e \<Rightarrow> Inl e
           | Inr stop \<Rightarrow> (case ordered_steps env ''start'' requested True of
               Inl e \<Rightarrow> Inl e | Inr start \<Rightarrow> Inr (stop @ start)))
          else ordered_steps env operation requested (operation \<in> set START_OPERATIONS))"

section \<open>Descriptions\<close>

record plan_step =
  ps_number :: nat
  ps_component :: string
  ps_operation :: string
  ps_timeout :: int
  ps_max_attempts :: int
  ps_verify :: "string list"
  ps_recovery :: recovery

record plan_doc =
  pd_operation :: string
  pd_requested :: "string list"
  pd_components :: "string list"
  pd_steps :: "plan_step list"

definition affected :: "step list \<Rightarrow> string list" where
  "affected steps = fromkeys (map st_component steps)"

definition describe_step :: "nat \<times> step \<Rightarrow> plan_step" where
  "describe_step = (\<lambda>(n, st).
     \<lparr>ps_number = n, ps_component = st_component st, ps_operation = st_operation st,
      ps_timeout = st_timeout st, ps_max_attempts = st_max_attempts st,
      ps_verify = st_verify st, ps_recovery = st_recovery st\<rparr>)"

definition describe_plan :: "string \<Rightarrow> string list \<Rightarrow> step list \<Rightarrow> plan_doc" where
  "describe_plan operation components steps =
     \<lparr>pd_operation = operation, pd_requested = components, pd_components = affected steps,
      pd_steps = map describe_step (enumerate 1 steps)\<rparr>"

definition plan_request :: "plan_env \<Rightarrow> string \<Rightarrow> string list \<Rightarrow> plan_doc result" where
  "plan_request env operation ids =
     (if operation \<notin> set REQUEST_OPERATIONS
      then raise InvalidOperation ''operation is not an allowed lifecycle action''
      else let components = fromkeys ids
        in if components = [] \<or> \<not> list_all identifier_ok components
           then raise InvalidOperation ''components are required''
           else case plan_steps env operation components of
             Inl e \<Rightarrow> Inl e
           | Inr steps \<Rightarrow> Inr (describe_plan operation components steps))"

fun precedence :: "recovery \<Rightarrow> nat" where
  "precedence Reversible = 0"
| "precedence Compensating = 1"
| "precedence RestoreRequired = 2"
| "precedence Irreversible = 3"

text \<open>\<^verbatim>\<open>max(..., key=...)\<close> keeps the first maximum and raises \<^verbatim>\<open>ValueError\<close> on no steps.\<close>

definition plan_recovery_boundary :: "step list \<Rightarrow> recovery result" where
  "plan_recovery_boundary steps =
     (case map st_recovery steps of
        [] \<Rightarrow> raise PyValueError ''max() iterable argument is empty''
      | r # rs \<Rightarrow> Inr (foldl (\<lambda>m x. if precedence m < precedence x then x else m) r rs))"

section \<open>Lab transitions\<close>

definition lab_requested :: "plan_env \<Rightarrow> string option \<Rightarrow> string list result" where
  "lab_requested env component_id =
     (case component_id of
        Some c \<Rightarrow>
          if \<not> identifier_ok c then raise InvalidOperation ''selected component is invalid''
          else (case reg_component (pe_registry env) c of Inl e \<Rightarrow> Inl e | Inr _ \<Rightarrow> Inr [c])
      | None \<Rightarrow> pe_order env None)"

definition suspend_selection :: "plan_env \<Rightarrow> string list \<Rightarrow> string option \<Rightarrow> string list result" where
  "suspend_selection env requested component_id =
     (case component_id of
        None \<Rightarrow> Inr requested
      | Some c \<Rightarrow>
          (case res_filter (consumer_of env c) (component_ids (pe_registry env)) of
             Inl e \<Rightarrow> Inl e | Inr extra \<Rightarrow> Inr (requested @ extra)))"

definition suspend_steps ::
    "plan_env \<Rightarrow> string \<Rightarrow> string list \<Rightarrow> string option \<Rightarrow> step list result" where
  "suspend_steps env operation requested component_id =
     (case suspend_selection env requested component_id of
        Inl e \<Rightarrow> Inl e
      | Inr selected \<Rightarrow>
          (case pe_order env None of
             Inl e \<Rightarrow> Inl e
           | Inr xs \<Rightarrow>
               res_map (\<lambda>c. mk_step env c operation) (filter (\<lambda>c. c \<in> set selected) (rev xs))))"

definition lab_steps ::
    "plan_env \<Rightarrow> string \<Rightarrow> string option \<Rightarrow> (string \<times> string list \<times> step list) result" where
  "lab_steps env action component_id =
     (case map_of LAB_ACTIONS action of
        None \<Rightarrow> raise InvalidOperation ''lab action is not supported''
      | Some operation \<Rightarrow>
          (case lab_requested env component_id of
             Inl e \<Rightarrow> Inl e
           | Inr requested \<Rightarrow>
               (case (if action = ''suspend''
                      then suspend_steps env operation requested component_id
                      else ordered_steps env operation requested True) of
                  Inl e \<Rightarrow> Inl e
                | Inr steps \<Rightarrow> Inr (operation, requested, steps))))"

section \<open>Orders, transitively\<close>

text \<open>
  Every transitive consumer of an element stands before it: the order in which components are
  stopped, the mirror image of \<open>deps_before\<close>.
\<close>

definition consumers_first :: "registry \<Rightarrow> string list \<Rightarrow> bool" where
  "consumers_first reg xs \<longleftrightarrow>
     (\<forall>i<length xs. \<forall>k. (k, xs ! i) \<in> (dep_rel reg)\<^sup>+ \<longrightarrow> k \<in> set (take i xs))"

lemma consumers_firstI:
  assumes "\<And>as c bs k. xs = as @ c # bs \<Longrightarrow> (k, c) \<in> (dep_rel reg)\<^sup>+ \<Longrightarrow> k \<in> set as"
  shows "consumers_first reg xs"
  unfolding consumers_first_def using assms[OF nth_take_split] by blast

context dependency_source
begin

lemma order_trans_before:
  assumes "order sel = Inr (us @ k # vs)" and "(k, c) \<in> {(a, b). b \<in> set (deps a)}\<^sup>+"
  shows "c \<in> set us"
  using assms(2)
proof (induction rule: trancl_induct)
  case (base y)
  then show ?case using order_split_before[OF assms(1)] by auto
next
  case (step y z)
  then obtain u1 u2 where "us = u1 @ y # u2" by (meson split_list)
  with order_split_before[of sel u1 y "u2 @ k # vs"] assms(1) step(2) show ?case by auto
qed

lemma order_acyclic:
  assumes "order sel = Inr xs" and "c \<in> set xs"
  shows "(c, c) \<notin> {(a, b). b \<in> set (deps a)}\<^sup>+"
proof
  obtain us vs where xs: "xs = us @ c # vs" using assms(2) by (meson split_list)
  assume "(c, c) \<in> {(a, b). b \<in> set (deps a)}\<^sup>+"
  then have "c \<in> set us" using order_trans_before assms(1) xs by blast
  then show False using order_distinct[OF assms(1)] xs by auto
qed

lemma reverse_consumer_before:
  assumes "order sel = Inr xs" and "filter P (rev xs) = as @ c # bs"
    and "(k, c) \<in> {(a, b). b \<in> set (deps a)}\<^sup>+" and "k \<in> set xs" and "P k"
  shows "k \<in> set as"
proof -
  have *: "filter P xs = rev bs @ c # rev as"
    using arg_cong[OF assms(2), of rev] by (simp add: rev_filter)
  obtain us vs where xs: "xs = us @ c # vs" and us: "filter P us = rev bs" and vs: "filter P vs = rev as"
    using filter_split[OF *] by auto
  have "k \<noteq> c" using order_acyclic[OF assms(1,4)] assms(3) by auto
  moreover have "k \<notin> set us"
  proof
    assume "k \<in> set us"
    then obtain u1 u2 where "us = u1 @ k # u2" by (meson split_list)
    then have "c \<in> set u1" using order_trans_before[of sel u1 k "u2 @ c # vs" c] assms(1,3) xs by simp
    then show False using order_distinct[OF assms(1)] xs \<open>us = u1 @ k # u2\<close> by auto
  qed
  ultimately have "k \<in> set (filter P vs)" using assms(4,5) xs by auto
  then show ?thesis by (simp add: vs)
qed

end

section \<open>What a plan consists of\<close>

lemma mk_step_Inr:
  assumes "mk_step env c op = Inr st"
  shows "st_component st = c" and "st_operation st = op"
    and "0 < st_timeout st" and "st_timeout st \<le> pe_max_timeout env"
    and "map_of RECOVERY_CLASS_BY_OPERATION op = Some (st_recovery st)"
    and "\<exists>co cap. map_of (pe_registry env) c = Some co \<and> cap \<in> set (comp_operations co)
           \<and> op_id cap = op \<and> st_adapter st = op_adapter cap \<and> st_verify st = op_verify cap
           \<and> st_timeout st \<le> op_timeout cap
           \<and> st_max_attempts st = (if op_idempotent cap then pe_max_attempts env else 1)"
proof -
  let ?caps = "\<lambda>co. map_of (rev (map (\<lambda>o'. (op_id o', o')) (comp_operations co))) op"
  obtain co where co: "map_of (pe_registry env) c = Some co"
    using assms by (cases "map_of (pe_registry env) c")
      (simp_all add: mk_step_def lifecycle_operations_def reg_component_def)
  then have ops: "lifecycle_operations (pe_registry env) c = Inr (comp_operations co)"
    by (simp add: lifecycle_operations_def reg_component_def)
  obtain cap where cap: "?caps co = Some cap"
    using assms by (cases "?caps co") (simp_all add: mk_step_def ops)
  have pos: "0 < min (op_timeout cap) (pe_max_timeout env)"
  proof (rule ccontr)
    assume "\<not> 0 < min (op_timeout cap) (pe_max_timeout env)"
    then have "min (op_timeout cap) (pe_max_timeout env) \<le> 0" by (simp only: not_less)
    then show False
      using assms unfolding mk_step_def ops sum.case cap option.case Let_def by (simp only: if_True) simp
  qed
  obtain rc where rc: "map_of RECOVERY_CLASS_BY_OPERATION op = Some rc"
    using assms pos unfolding mk_step_def ops sum.case cap option.case Let_def
    by (cases "map_of RECOVERY_CLASS_BY_OPERATION op") simp_all
  have st: "st = \<lparr>st_component = c, st_operation = op, st_adapter = op_adapter cap,
        st_timeout = min (op_timeout cap) (pe_max_timeout env), st_verify = op_verify cap,
        st_max_attempts = (if op_idempotent cap then pe_max_attempts env else 1),
        st_recovery = rc\<rparr>"
    using assms pos unfolding mk_step_def ops sum.case cap rc option.case Let_def by simp
  have mem: "cap \<in> set (comp_operations co)" "op_id cap = op"
    using map_of_SomeD[OF cap] by auto
  show "st_component st = c" and "st_operation st = op" and "st_timeout st \<le> pe_max_timeout env"
    by (simp_all add: st)
  show "0 < st_timeout st" using pos by (simp only: st step.simps)
  show "map_of RECOVERY_CLASS_BY_OPERATION op = Some (st_recovery st)"
    by (simp only: st rc step.simps)
  show "\<exists>co cap. map_of (pe_registry env) c = Some co \<and> cap \<in> set (comp_operations co)
           \<and> op_id cap = op \<and> st_adapter st = op_adapter cap \<and> st_verify st = op_verify cap
           \<and> st_timeout st \<le> op_timeout cap
           \<and> st_max_attempts st = (if op_idempotent cap then pe_max_attempts env else 1)"
    by (rule exI[of _ co], rule exI[of _ cap]) (simp add: st co mem)
qed

lemma steps_of:
  assumes "res_map (\<lambda>c. mk_step env c op) xs = Inr steps"
  shows "map st_component steps = xs" and "\<forall>s\<in>set steps. mk_step env (st_component s) op = Inr s"
proof -
  show xs: "map st_component steps = xs"
    using res_map_map[OF assms, of st_component] mk_step_Inr(1) by blast
  have "list_all2 (\<lambda>c s. mk_step env c op = Inr s) xs steps"
    using assms by (simp add: res_map_Inr_iff)
  then show "\<forall>s\<in>set steps. mk_step env (st_component s) op = Inr s"
    using mk_step_Inr(1) by (fastforce simp: list_all2_conv_all_nth in_set_conv_nth)
qed

lemma transitive_dependencies_Inr:
  assumes "transitive_dependencies env c = Inr ds"
  shows "set ds = reach (pe_registry env) {c} - {c}"
proof -
  from assms obtain xs where "pe_order env (Some [c]) = Inr xs" and ds: "ds = removeAll c xs"
    by (auto simp: transitive_dependencies_def split: sum.splits)
  from dependency_order_Inr(2)[OF this(1) distinct_mk_registry] ds show ?thesis
    by (simp add: selection_def)
qed

lemma reach_single: "d \<in> reach reg {c} \<longleftrightarrow> d = c \<or> (c, d) \<in> (dep_rel reg)\<^sup>+"
  by (auto simp: reach_def rtrancl_eq_or_trancl)

lemma consumer_known: "(k, c) \<in> (dep_rel reg)\<^sup>+ \<Longrightarrow> k \<in> set (component_ids reg)"
proof (induction rule: trancl_induct)
  case (base y)
  then show ?case
    by (cases "map_of reg k") (auto simp: dep_rel_def deps_of_def component_ids_def dest: map_of_SomeD
        intro: rev_image_eqI)
qed

lemma left_behind_Inr:
  assumes "left_behind env req k = Inr b"
  shows "b \<longleftrightarrow> k \<notin> set req \<and> (\<exists>c\<in>set req. (k, c) \<in> (dep_rel (pe_registry env))\<^sup>+)"
proof (cases "k \<in> set req")
  case False
  then obtain ds where "transitive_dependencies env k = Inr ds" and "b = (set req \<inter> set ds \<noteq> {})"
    using assms by (auto simp: left_behind_def split: sum.splits)
  with transitive_dependencies_Inr[of env k ds] False show ?thesis
    by (auto simp: reach_single)
qed (use assms in \<open>simp add: left_behind_def\<close>)

lemma ordered_steps_start:
  assumes "ordered_steps env op req True = Inr steps" and "req \<noteq> []"
  shows "ordered_closure (pe_registry env) (set req) (map st_component steps)"
    and "\<forall>s\<in>set steps. mk_step env (st_component s) op = Inr s"
proof -
  from assms obtain xs where ord: "pe_order env (Some req) = Inr xs"
    and st: "res_map (\<lambda>c. mk_step env c op) xs = Inr steps"
    by (auto simp: ordered_steps_def split: sum.splits)
  show "ordered_closure (pe_registry env) (set req) (map st_component steps)"
    using dependency_order_Inr[OF ord distinct_mk_registry] steps_of(1)[OF st] assms(2)
    by (simp add: ordered_closure_def selection_def)
  show "\<forall>s\<in>set steps. mk_step env (st_component s) op = Inr s" by (rule steps_of[OF st])
qed

text \<open>The shape that stop plans and suspend plans share: a consumer-closed part of a full order.\<close>

lemma reversed_part:
  assumes ord: "pe_order env sel = Inr xs" and sub: "A \<subseteq> set xs"
    and closed: "\<And>k c. c \<in> A \<Longrightarrow> (k, c) \<in> (dep_rel (pe_registry env))\<^sup>+ \<Longrightarrow> k \<in> A"
  shows "distinct (filter (\<lambda>c. c \<in> A) (rev xs))" and "set (filter (\<lambda>c. c \<in> A) (rev xs)) = A"
    and "consumers_first (pe_registry env) (filter (\<lambda>c. c \<in> A) (rev xs))"
proof -
  show "distinct (filter (\<lambda>c. c \<in> A) (rev xs))"
    using reg.order_distinct[OF ord] by simp
  show "set (filter (\<lambda>c. c \<in> A) (rev xs)) = A" using sub by auto
  show "consumers_first (pe_registry env) (filter (\<lambda>c. c \<in> A) (rev xs))"
  proof (rule consumers_firstI)
    fix as c bs k
    assume f: "filter (\<lambda>c. c \<in> A) (rev xs) = as @ c # bs"
      and path: "(k, c) \<in> (dep_rel (pe_registry env))\<^sup>+"
    have "c \<in> set (filter (\<lambda>c. c \<in> A) (rev xs))" using f by simp
    then have "c \<in> A" by simp
    then have "k \<in> A" using closed path by blast
    then show "k \<in> set as"
      using reg.reverse_consumer_before[OF ord f path[unfolded dep_rel_def]] sub by blast
  qed
qed

lemma ordered_steps_stop:
  assumes run: "ordered_steps env op req False = Inr steps" and "req \<noteq> []"
  shows "distinct (map st_component steps)" and "set (map st_component steps) = set req"
    and "consumers_first (pe_registry env) (map st_component steps)"
    and "\<forall>s\<in>set steps. mk_step env (st_component s) op = Inr s"
proof -
  from run obtain missing xs where
    miss: "res_filter (left_behind env req) (component_ids (pe_registry env)) = Inr missing"
    and none: "missing = []" and ord: "pe_order env (Some req) = Inr xs"
    and st: "res_map (\<lambda>c. mk_step env c op) (filter (\<lambda>c. c \<in> set req) (rev xs)) = Inr steps"
    unfolding ordered_steps_def by (simp split: sum.splits if_splits)
  have closed: "k \<in> set req" if "c \<in> set req" "(k, c) \<in> (dep_rel (pe_registry env))\<^sup>+" for k c
  proof (rule ccontr)
    assume "k \<notin> set req"
    have "k \<in> set (component_ids (pe_registry env))" using consumer_known that(2) by blast
    moreover from this res_filter_Inr[OF miss] obtain b where "left_behind env req k = Inr b" by blast
    ultimately have "k \<in> set missing"
      using res_filter_Inr[OF miss] left_behind_Inr that \<open>k \<notin> set req\<close> by fastforce
    then show False using none by simp
  qed
  have sub: "set req \<subseteq> set xs"
    using reg.order_includes[OF ord] assms(2) by (simp add: selection_def)
  note part = reversed_part[OF ord sub closed]
  from part steps_of(1)[OF st] show "distinct (map st_component steps)"
    and "set (map st_component steps) = set req"
    and "consumers_first (pe_registry env) (map st_component steps)" by simp_all
  show "\<forall>s\<in>set steps. mk_step env (st_component s) op = Inr s" by (rule steps_of[OF st])
qed

lemma plan_steps_cases:
  assumes "plan_steps env op req = Inr steps"
  shows "op = ''restart'' \<Longrightarrow> \<exists>stop start. steps = stop @ start
      \<and> ordered_steps env ''stop'' req False = Inr stop
      \<and> ordered_steps env ''start'' req True = Inr start"
    and "op \<noteq> ''restart'' \<Longrightarrow> ordered_steps env op req (op \<in> set START_OPERATIONS) = Inr steps"
    and "set req \<subseteq> set (component_ids (pe_registry env))"
proof -
  obtain cos where cos: "res_map (reg_component (pe_registry env)) req = Inr cos"
    using assms by (cases "res_map (reg_component (pe_registry env)) req") (simp_all add: plan_steps_def)
  have "x \<in> set (component_ids (pe_registry env))" if x: "x \<in> set req" for x
  proof -
    obtain i where "i < length req" and "req ! i = x" using x by (auto simp: in_set_conv_nth)
    then have "reg_component (pe_registry env) x = Inr (cos ! i)"
      using cos by (auto simp: res_map_Inr_iff list_all2_conv_all_nth)
    then show ?thesis
      by (cases "map_of (pe_registry env) x")
        (auto simp: reg_component_def component_ids_def intro: rev_image_eqI dest: map_of_SomeD)
  qed
  then show "set req \<subseteq> set (component_ids (pe_registry env))" by blast
  show "op = ''restart'' \<Longrightarrow> \<exists>stop start. steps = stop @ start
      \<and> ordered_steps env ''stop'' req False = Inr stop
      \<and> ordered_steps env ''start'' req True = Inr start"
    using assms cos unfolding plan_steps_def by (simp split: sum.splits)
  show "op \<noteq> ''restart'' \<Longrightarrow> ordered_steps env op req (op \<in> set START_OPERATIONS) = Inr steps"
    using assms cos unfolding plan_steps_def by simp
qed

lemma start_stop_disjoint: "op \<in> set STOP_OPERATIONS \<Longrightarrow> op \<noteq> ''restart'' \<and> op \<notin> set START_OPERATIONS"
  by (auto simp: START_OPERATIONS_def STOP_OPERATIONS_def)

lemma start_not_restart: "op \<in> set START_OPERATIONS \<Longrightarrow> op \<noteq> ''restart''"
  by (auto simp: START_OPERATIONS_def)

lemma recovery_fold:
  "foldl (\<lambda>m x. if precedence m < precedence x then x else m) r rs = m \<Longrightarrow>
     m \<in> set (r # rs) \<and> (\<forall>x\<in>set (r # rs). precedence x \<le> precedence m)"
proof (induction rs arbitrary: r)
  case (Cons x xs)
  then show ?case
    using Cons.IH[of "if precedence r < precedence x then x else r"] by (fastforce split: if_splits)
qed simp

lemma plan_recovery_boundary_max:
  "plan_recovery_boundary steps = Inr m \<longleftrightarrow>
     steps \<noteq> [] \<and> foldl (\<lambda>m x. if precedence m < precedence x then x else m)
       (st_recovery (hd steps)) (map st_recovery (tl steps)) = m"
  by (cases steps) (auto simp: plan_recovery_boundary_def)

section \<open>Suspending\<close>

lemma suspend_steps_Inr:
  assumes run: "suspend_steps env op req sel = Inr steps"
    and req: "sel = None \<Longrightarrow> set req = set (component_ids (pe_registry env))"
      "\<And>c. sel = Some c \<Longrightarrow> req = [c] \<and> c \<in> set (component_ids (pe_registry env))"
  shows "distinct (map st_component steps)"
    and "consumers_first (pe_registry env) (map st_component steps)"
    and "set (map st_component steps) =
       (case sel of None \<Rightarrow> set (component_ids (pe_registry env))
        | Some c \<Rightarrow> insert c {k. (k, c) \<in> (dep_rel (pe_registry env))\<^sup>+})"
    and "\<forall>s\<in>set steps. mk_step env (st_component s) op = Inr s"
proof -
  let ?ids = "component_ids (pe_registry env)"
  let ?A = "case sel of None \<Rightarrow> set ?ids
     | Some c \<Rightarrow> insert c {k. (k, c) \<in> (dep_rel (pe_registry env))\<^sup>+}"
  obtain selected xs where sus: "suspend_selection env req sel = Inr selected"
    and ord: "pe_order env None = Inr xs"
    and st: "res_map (\<lambda>c. mk_step env c op) (filter (\<lambda>c. c \<in> set selected) (rev xs)) = Inr steps"
    using run unfolding suspend_steps_def by (simp split: sum.splits)
  have xs: "set xs = set ?ids"
    using reg.order_includes[OF ord] reg.order_known[OF ord] by (simp add: selection_def)
  have acyc: "(c, c) \<notin> (dep_rel (pe_registry env))\<^sup>+" if "c \<in> set ?ids" for c
    using reg.order_acyclic[OF ord, of c] that xs by (simp add: dep_rel_def)
  have sel: "set selected = ?A"
  proof (cases sel)
    case None
    then show ?thesis using sus req(1) by (simp add: suspend_selection_def)
  next
    case (Some c)
    then obtain extra where fil: "res_filter (consumer_of env c) ?ids = Inr extra"
      and sel': "selected = req @ extra"
      using sus by (auto simp: suspend_selection_def split: sum.splits)
    have "k \<in> set extra \<longleftrightarrow> k \<in> set ?ids \<and> c \<in> reach (pe_registry env) {k} - {k}" for k
    proof -
      have "(consumer_of env c k = Inr True) = (c \<in> reach (pe_registry env) {k} - {k})"
        if "k \<in> set ?ids"
        using res_filter_Inr[OF fil] that transitive_dependencies_Inr[of env k]
        by (cases "transitive_dependencies env k") (auto simp: consumer_of_def)
      then show ?thesis using res_filter_Inr[OF fil] by auto
    qed
    then have "set extra = {k. (k, c) \<in> (dep_rel (pe_registry env))\<^sup>+}"
      using consumer_known acyc by (fastforce simp: reach_single)
    then show ?thesis using req(2)[OF Some] Some sel' by simp
  qed
  have closed: "k \<in> set selected" if "c \<in> set selected" "(k, c) \<in> (dep_rel (pe_registry env))\<^sup>+"
    for k c
    using that sel consumer_known[OF that(2)] by (cases sel) (auto intro: trancl_trans)
  have sub: "set selected \<subseteq> set xs"
    using sel xs req(2) consumer_known by (cases sel) auto
  note part = reversed_part[OF ord sub closed]
  from part steps_of(1)[OF st] sel show "distinct (map st_component steps)"
    and "consumers_first (pe_registry env) (map st_component steps)"
    and "set (map st_component steps) = ?A" by simp_all
  show "\<forall>s\<in>set steps. mk_step env (st_component s) op = Inr s" by (rule steps_of[OF st])
qed

section \<open>When a stop is refused\<close>

lemma order_total:
  assumes "orderable (pe_registry env) (set (component_ids (pe_registry env)))"
    and "set (selection (component_ids (pe_registry env)) sel) \<subseteq> set (component_ids (pe_registry env))"
  shows "\<exists>xs. pe_order env sel = Inr xs"
proof (cases "pe_order env sel")
  case (Inl e)
  have "reach (pe_registry env) (set (selection (component_ids (pe_registry env)) sel))
      \<subseteq> reach (pe_registry env) (set (component_ids (pe_registry env)))"
    using assms(2) by (rule reach_mono)
  then have "orderable (pe_registry env) (set (selection (component_ids (pe_registry env)) sel))"
    using assms(1) by (auto simp: orderable_def)
  with dependency_order_Inl[OF Inl distinct_mk_registry] show ?thesis by simp
qed auto

lemma left_behind_total:
  assumes "orderable (pe_registry env) (set (component_ids (pe_registry env)))"
    and "k \<in> set (component_ids (pe_registry env))"
  shows "\<exists>b. left_behind env req k = Inr b"
proof -
  obtain xs where "pe_order env (Some [k]) = Inr xs"
    using order_total[OF assms(1), of "Some [k]"] assms(2) by (auto simp: selection_def)
  then show ?thesis
    by (cases "k \<in> set req") (auto simp: left_behind_def transitive_dependencies_def intro: exI[of _ False])
qed

lemma missing_consumers:
  assumes "orderable (pe_registry env) (set (component_ids (pe_registry env)))"
  shows "\<exists>missing. res_filter (left_behind env req) (component_ids (pe_registry env)) = Inr missing
    \<and> set missing = {k. k \<notin> set req \<and> (\<exists>c\<in>set req. (k, c) \<in> (dep_rel (pe_registry env))\<^sup>+)}"
proof (cases "res_filter (left_behind env req) (component_ids (pe_registry env))")
  case (Inl e)
  then obtain x where "x \<in> set (component_ids (pe_registry env))" and "left_behind env req x = Inl e"
    using res_filter_Inl by blast
  with left_behind_total[OF assms, of x req] show ?thesis by simp
next
  case (Inr missing)
  note facts = res_filter_Inr[OF Inr]
  have "k \<in> set missing \<longleftrightarrow>
      k \<notin> set req \<and> (\<exists>c\<in>set req. (k, c) \<in> (dep_rel (pe_registry env))\<^sup>+)" for k
  proof (cases "k \<in> set (component_ids (pe_registry env))")
    case True
    then obtain b where "left_behind env req k = Inr b" using left_behind_total[OF assms] by blast
    with facts True left_behind_Inr[OF this] show ?thesis by auto
  next
    case False
    with facts consumer_known show ?thesis by auto
  qed
  with Inr show ?thesis by auto
qed

lemma mk_step_Inl:
  assumes "mk_step env c op = Inl e"
  shows "exn_cls e \<in> {RegistryError, InvalidOperation, PyKeyError}"
  using assms unfolding mk_step_def lifecycle_operations_def reg_component_def Let_def
  by (simp split: option.splits if_splits) auto

lemma order_Inl_class: "pe_order env sel = Inl e \<Longrightarrow> exn_cls e = RegistryError"
  using dependency_order_Inl distinct_mk_registry by blast

lemma ordered_steps_blocked:
  assumes ok: "orderable (pe_registry env) (set (component_ids (pe_registry env)))"
  shows "(\<exists>m. ordered_steps env op req False = raise DependencyBlocked m) \<longleftrightarrow>
    (\<exists>c\<in>set req. \<exists>k. k \<notin> set req \<and> (k, c) \<in> (dep_rel (pe_registry env))\<^sup>+)"
proof -
  obtain missing where
    fil: "res_filter (left_behind env req) (component_ids (pe_registry env)) = Inr missing"
    and set: "set missing
      = {k. k \<notin> set req \<and> (\<exists>c\<in>set req. (k, c) \<in> (dep_rel (pe_registry env))\<^sup>+)}"
    using missing_consumers[OF ok] by blast
  show ?thesis
  proof (cases "missing = []")
    case True
    have "ordered_steps env op req False \<noteq> raise DependencyBlocked m" for m
    proof
      assume "ordered_steps env op req False = raise DependencyBlocked m"
      then consider "pe_order env (Some req) = raise DependencyBlocked m"
        | xs where "res_map (\<lambda>c. mk_step env c op) xs = raise DependencyBlocked m"
        using fil True unfolding ordered_steps_def by (auto split: sum.splits)
      then show False
      proof cases
        case 1
        then show ?thesis using order_Inl_class by force
      next
        case (2 xs)
        then show ?thesis using res_map_Inl[OF 2] mk_step_Inl by force
      qed
    qed
    with True set show ?thesis by auto
  next
    case False
    then have "ordered_steps env op req False = raise DependencyBlocked
        ''dependent components must be included before this operation''"
      using fil by (simp add: ordered_steps_def)
    moreover have "set missing \<noteq> {}" using False by simp
    ultimately show ?thesis using set by auto
  qed
qed

lemma plan_steps_known:
  assumes "set req \<subseteq> set (component_ids (pe_registry env))" and "op \<in> set STOP_OPERATIONS"
  shows "plan_steps env op req = ordered_steps env op req False"
proof -
  have "\<exists>co. reg_component (pe_registry env) x = Inr co" if "x \<in> set req" for x
    using assms(1) that by (intro reg_component_known) (auto simp: known_def)
  then obtain cos where "res_map (reg_component (pe_registry env)) req = Inr cos"
    using res_map_total[of req] by blast
  then show ?thesis
    using start_stop_disjoint[OF assms(2)] by (simp add: plan_steps_def)
qed

section \<open>Properties\<close>

definition demo_op :: "string \<Rightarrow> bool \<Rightarrow> operation_spec" where
  "demo_op op idem = \<lparr>op_id = op, op_adapter = ''helm'', op_timeout = 7200, op_verify = [''up''],
                      op_idempotent = idem\<rparr>"

definition demo_comp :: "string \<Rightarrow> string list \<Rightarrow> component" where
  "demo_comp c ds = \<lparr>comp_id = c, comp_name = c, comp_web = None, comp_deps = ds,
     comp_operations = [demo_op ''start'' True, demo_op ''stop'' False], comp_checks = []\<rparr>"

definition demo_planner :: plan_env where
  "demo_planner = \<lparr>pe_hash = insertion_order,
     pe_components = [demo_comp ''db'' [], demo_comp ''ui'' [''db'']],
     pe_profile = ''lab'', pe_max_attempts = 2, pe_max_timeout = 3600\<rparr>"

definition demo_step :: "string \<Rightarrow> string \<Rightarrow> int \<Rightarrow> step" where
  "demo_step c op n = \<lparr>st_component = c, st_operation = op, st_adapter = ''helm'',
     st_timeout = 3600, st_verify = [''up''], st_max_attempts = n, st_recovery = Reversible\<rparr>"

lemmas plan_eval = order_eval demo_planner_def demo_comp_def demo_op_def demo_step_def
  plan_steps_def ordered_steps_def left_behind_def transitive_dependencies_def mk_step_def
  lifecycle_operations_def reg_component_def RECOVERY_CLASS_BY_OPERATION_def START_OPERATIONS_def
  STOP_OPERATIONS_def suspend_steps_def suspend_selection_def consumer_of_def lab_steps_def
  lab_requested_def LAB_ACTIONS_def

lemma demo_plans:
  "plan_steps demo_planner ''start'' [''ui'']
     = Inr [demo_step ''db'' ''start'' 2, demo_step ''ui'' ''start'' 2]"
  "plan_steps demo_planner ''stop'' [''db'', ''ui'']
     = Inr [demo_step ''ui'' ''stop'' 1, demo_step ''db'' ''stop'' 1]"
  "suspend_steps demo_planner ''stop'' [''db''] (Some ''db'')
     = Inr [demo_step ''ui'' ''stop'' 1, demo_step ''db'' ''stop'' 1]"
  by (simp_all add: plan_eval)

text \<open>
  C6. The plan of a start-like operation (install, configure, start, upgrade) has exactly one step for
  every component of the dependency closure of the request, in an order in which every dependency
  comes before its consumers, and every step runs the requested operation.
\<close>

theorem start_plan_correct:
  assumes "plan_steps env op req = Inr steps" and "op \<in> set START_OPERATIONS" and "req \<noteq> []"
  shows "ordered_closure (pe_registry env) (set req) (map st_component steps)
    \<and> set (map st_operation steps) = {op}"
proof -
  have run: "ordered_steps env op req True = Inr steps"
    using plan_steps_cases(2)[OF assms(1) start_not_restart[OF assms(2)]] assms(2) by simp
  note facts = ordered_steps_start[OF run assms(3)]
  have "set (map st_component steps) \<noteq> {}"
    using facts(1) assms(3) subset_reach[of "set req" "pe_registry env"]
    by (auto simp: ordered_closure_def)
  then have "steps \<noteq> []" by auto
  moreover have "\<forall>s\<in>set steps. st_operation s = op" using facts(2) mk_step_Inr(2) by blast
  ultimately have "set (map st_operation steps) = {op}" by (cases steps) auto
  with facts(1) show ?thesis by blast
qed

theorem start_plan_correct_witness:
  "ordered_closure (pe_registry demo_planner) (set [''ui''])
      (map st_component [demo_step ''db'' ''start'' 2, demo_step ''ui'' ''start'' 2])
    \<and> set (map st_operation [demo_step ''db'' ''start'' 2, demo_step ''ui'' ''start'' 2]) = {''start''}"
  by (rule start_plan_correct[OF demo_plans(1)]) (simp_all add: START_OPERATIONS_def)

text \<open>
  C7. The plan of a stop-like operation (stop, uninstall, delete-data) has exactly one step per
  requested component and none besides, and every component of the registry that depends on one of
  them, directly or through others, is itself in the plan and stands before it.
\<close>

theorem stop_plan_correct:
  assumes "plan_steps env op req = Inr steps" and "op \<in> set STOP_OPERATIONS" and "req \<noteq> []"
  shows "distinct (map st_component steps) \<and> set (map st_component steps) = set req
    \<and> consumers_first (pe_registry env) (map st_component steps)"
proof -
  have run: "ordered_steps env op req False = Inr steps"
    using plan_steps_cases(2)[OF assms(1)] start_stop_disjoint[OF assms(2)] by simp
  from ordered_steps_stop[OF run assms(3)] show ?thesis by blast
qed

theorem stop_plan_correct_witness:
  "distinct (map st_component [demo_step ''ui'' ''stop'' 1, demo_step ''db'' ''stop'' 1])
    \<and> set (map st_component [demo_step ''ui'' ''stop'' 1, demo_step ''db'' ''stop'' 1])
        = set [''db'', ''ui'']
    \<and> consumers_first (pe_registry demo_planner)
        (map st_component [demo_step ''ui'' ''stop'' 1, demo_step ''db'' ''stop'' 1])"
  by (rule stop_plan_correct[OF demo_plans(2)]) (simp_all add: STOP_OPERATIONS_def)

text \<open>
  A stop is refused exactly when it would strand a consumer: in a registry whose components can be
  ordered, stopping known components raises \<^verbatim>\<open>DependencyBlocked\<close> if and only if some component outside
  the request depends, directly or transitively, on one inside it.
\<close>

theorem stop_blocked_iff:
  assumes "orderable (pe_registry env) (set (component_ids (pe_registry env)))"
    and "set req \<subseteq> set (component_ids (pe_registry env))" and "op \<in> set STOP_OPERATIONS"
  shows "(\<exists>m. plan_steps env op req = raise DependencyBlocked m) \<longleftrightarrow>
    (\<exists>c\<in>set req. \<exists>k. k \<notin> set req \<and> (k, c) \<in> (dep_rel (pe_registry env))\<^sup>+)"
  unfolding plan_steps_known[OF assms(2,3)] by (rule ordered_steps_blocked[OF assms(1)])

lemma demo_orderable: "orderable (pe_registry demo_planner) (set (component_ids (pe_registry demo_planner)))"
proof -
  have "pe_order demo_planner None = Inr [''db'', ''ui'']" by (simp add: plan_eval)
  with dependency_order_cases[where h = insertion_order and cs = "pe_components demo_planner" and sel = None] show ?thesis
    by (simp add: demo_planner_def selection_def)
qed

theorem stop_blocked_iff_witness:
  "(\<exists>m. plan_steps demo_planner ''stop'' [''db''] = raise DependencyBlocked m) \<longleftrightarrow>
    (\<exists>c\<in>set [''db'']. \<exists>k. k \<notin> set [''db''] \<and> (k, c) \<in> (dep_rel (pe_registry demo_planner))\<^sup>+)"
  by (rule stop_blocked_iff[OF demo_orderable])
    (simp_all add: STOP_OPERATIONS_def component_ids_def demo_planner_def mk_registry_def demo_comp_def)

text \<open>
  Every step of every plan is bounded and declared: its timeout is positive, at most the engine's
  maximum and at most what the registry declares for it, its adapter and its verification checks are
  those of a capability the component declares for that operation, it is retried at most the
  configured number of times, and only once unless the capability is declared idempotent.
\<close>

theorem plan_steps_bounded:
  assumes "plan_steps env op req = Inr steps" and "bounds_ok env" and "s \<in> set steps" and "req \<noteq> []"
  shows "0 < st_timeout s \<and> st_timeout s \<le> pe_max_timeout env
    \<and> 1 \<le> st_max_attempts s \<and> st_max_attempts s \<le> pe_max_attempts env
    \<and> (\<exists>co cap. map_of (pe_registry env) (st_component s) = Some co \<and> cap \<in> set (comp_operations co)
         \<and> op_id cap = st_operation s \<and> st_adapter s = op_adapter cap \<and> st_verify s = op_verify cap
         \<and> st_timeout s \<le> op_timeout cap \<and> (st_max_attempts s = 1 \<or> op_idempotent cap))"
proof -
  have "\<exists>op'. mk_step env (st_component s) op' = Inr s"
  proof (cases "op = ''restart''")
    case True
    from plan_steps_cases(1)[OF assms(1) True] assms(3,4) show ?thesis
      using ordered_steps_stop(4) ordered_steps_start(2) by fastforce
  next
    case False
    from plan_steps_cases(2)[OF assms(1) False] assms(3,4) show ?thesis
      using ordered_steps_stop(4) ordered_steps_start(2) by (cases "op \<in> set START_OPERATIONS") fastforce+
  qed
  then obtain op' where st: "mk_step env (st_component s) op' = Inr s" by blast
  from mk_step_Inr(6)[OF st] obtain co cap where
    "map_of (pe_registry env) (st_component s) = Some co" "cap \<in> set (comp_operations co)"
    "op_id cap = op'" "st_adapter s = op_adapter cap" "st_verify s = op_verify cap"
    "st_timeout s \<le> op_timeout cap"
    "st_max_attempts s = (if op_idempotent cap then pe_max_attempts env else 1)" by blast
  with mk_step_Inr(2-4)[OF st] assms(2) show ?thesis by (auto simp: bounds_ok_def)
qed

theorem plan_steps_bounded_witness:
  "0 < st_timeout (demo_step ''ui'' ''stop'' 1)
    \<and> st_timeout (demo_step ''ui'' ''stop'' 1) \<le> pe_max_timeout demo_planner
    \<and> 1 \<le> st_max_attempts (demo_step ''ui'' ''stop'' 1)
    \<and> st_max_attempts (demo_step ''ui'' ''stop'' 1) \<le> pe_max_attempts demo_planner
    \<and> (\<exists>co cap. map_of (pe_registry demo_planner) (st_component (demo_step ''ui'' ''stop'' 1)) = Some co
         \<and> cap \<in> set (comp_operations co)
         \<and> op_id cap = st_operation (demo_step ''ui'' ''stop'' 1)
         \<and> st_adapter (demo_step ''ui'' ''stop'' 1) = op_adapter cap
         \<and> st_verify (demo_step ''ui'' ''stop'' 1) = op_verify cap
         \<and> st_timeout (demo_step ''ui'' ''stop'' 1) \<le> op_timeout cap
         \<and> (st_max_attempts (demo_step ''ui'' ''stop'' 1) = 1 \<or> op_idempotent cap))"
  by (rule plan_steps_bounded[OF demo_plans(2)]) (simp_all add: bounds_ok_def demo_planner_def)

text \<open>
  The recovery boundary of a plan is the most severe recovery class among its steps, and a plan of
  one operation carries the class of that operation.
\<close>

theorem recovery_boundary_most_severe:
  assumes "plan_recovery_boundary steps = Inr r"
  shows "r \<in> set (map st_recovery steps)
    \<and> list_all (\<lambda>s. precedence (st_recovery s) \<le> precedence r) steps"
proof (cases steps)
  case (Cons s ss)
  then show ?thesis
    using assms recovery_fold[of "st_recovery s" "map st_recovery ss" r]
    by (auto simp: plan_recovery_boundary_max list_all_iff)
qed (use assms in \<open>simp add: plan_recovery_boundary_def\<close>)

theorem recovery_boundary_most_severe_witness:
  "RestoreRequired \<in> set (map st_recovery
      [demo_step ''ui'' ''stop'' 1, (demo_step ''db'' ''upgrade'' 1)\<lparr>st_recovery := RestoreRequired\<rparr>])
   \<and> list_all (\<lambda>s. precedence (st_recovery s) \<le> precedence RestoreRequired)
        [demo_step ''ui'' ''stop'' 1, (demo_step ''db'' ''upgrade'' 1)\<lparr>st_recovery := RestoreRequired\<rparr>]"
  by (rule recovery_boundary_most_severe) (simp add: plan_recovery_boundary_def demo_step_def)

text \<open>
  Suspending the lab from one component stops that component and exactly the components that
  depend on it, directly or through others, each once and every consumer before what it depends on;
  suspending the whole profile stops every component that way.
\<close>

theorem suspend_plan_correct:
  assumes "lab_steps env ''suspend'' sel = Inr (op, req, steps)"
  shows "op = ''stop'' \<and> distinct (map st_component steps)
    \<and> consumers_first (pe_registry env) (map st_component steps)
    \<and> set (map st_component steps) =
        (case sel of None \<Rightarrow> set (component_ids (pe_registry env))
         | Some c \<Rightarrow> insert c {k. (k, c) \<in> (dep_rel (pe_registry env))\<^sup>+})"
proof -
  have op: "map_of LAB_ACTIONS ''suspend'' = Some ''stop''" by (simp add: LAB_ACTIONS_def)
  obtain req' where req: "lab_requested env sel = Inr req'"
    using assms by (cases "lab_requested env sel") (simp_all add: lab_steps_def op)
  with assms have r: "req' = req" "op = ''stop''" and run: "suspend_steps env op req sel = Inr steps"
    by (cases "suspend_steps env ''stop'' req' sel"; simp add: lab_steps_def op)+
  have none: "sel = None \<Longrightarrow> set req = set (component_ids (pe_registry env))"
    using req r reg.order_includes[of "pe_hash env" "pe_components env" None]
      reg.order_known[of "pe_hash env" "pe_components env" None]
    by (auto simp: lab_requested_def selection_def)
  have some: "sel = Some c \<Longrightarrow> req = [c] \<and> c \<in> set (component_ids (pe_registry env))" for c
    using req r by (auto simp: lab_requested_def known_def reg_component_Inr_iff component_ids_def
        split: if_splits sum.splits intro: rev_image_eqI dest: map_of_SomeD)
  from suspend_steps_Inr[OF run none some] r show ?thesis by blast
qed

theorem suspend_plan_correct_witness:
  "''stop'' = ''stop''
    \<and> distinct (map st_component [demo_step ''ui'' ''stop'' 1, demo_step ''db'' ''stop'' 1])
    \<and> consumers_first (pe_registry demo_planner)
        (map st_component [demo_step ''ui'' ''stop'' 1, demo_step ''db'' ''stop'' 1])
    \<and> set (map st_component [demo_step ''ui'' ''stop'' 1, demo_step ''db'' ''stop'' 1]) =
        (case Some ''db'' of None \<Rightarrow> set (component_ids (pe_registry demo_planner))
         | Some c \<Rightarrow> insert c {k. (k, c) \<in> (dep_rel (pe_registry demo_planner))\<^sup>+})"
proof (rule suspend_plan_correct)
  show "lab_steps demo_planner ''suspend'' (Some ''db'')
    = Inr (''stop'', [''db''], [demo_step ''ui'' ''stop'' 1, demo_step ''db'' ''stop'' 1])"
    using demo_plans(3)
    by (simp add: lab_steps_def lab_requested_def LAB_ACTIONS_def identifier_ok_def lower_def
        reg_component_def demo_planner_def mk_registry_def demo_comp_def)
qed

end
