(* ===== verification/Json.thy ===== *)
theory Json
  imports Prelude
begin

text \<open>
  \<^verbatim>\<open>json.dumps(document, sort_keys=True, separators=(",", ":"))\<close>, the canonical text that the
  manager stores and hashes. Strings are escaped as \<^verbatim>\<open>ensure_ascii\<close> does, objects are written with
  sorted keys. Characters are the code points 0 to 255. The theorem of this theory is that the text
  determines the document up to the order of the keys, so a digest of it binds the whole document.
\<close>

datatype json =
    JNull
  | JBool bool
  | JInt int
  | JStr string
  | JList "json list"
  | JObj "(string \<times> json) list"

section \<open>Strings and numbers\<close>

definition hex_digit :: "nat \<Rightarrow> char" where
  "hex_digit n = ''0123456789abcdef'' ! n"

definition escape_char :: "char \<Rightarrow> string" where
  "escape_char c =
     (if c = CHR 0x22 then [CHR 0x5C, CHR 0x22]
      else if c = CHR 0x5C then [CHR 0x5C, CHR 0x5C]
      else if c = CHR 0x0A then [CHR 0x5C, CHR ''n'']
      else if c = CHR 0x0D then [CHR 0x5C, CHR ''r'']
      else if c = CHR 0x09 then [CHR 0x5C, CHR ''t'']
      else if c = CHR 0x0C then [CHR 0x5C, CHR ''f'']
      else if c = CHR 0x08 then [CHR 0x5C, CHR ''b'']
      else if of_char c < (32::nat) \<or> of_char c > (126::nat)
        then [CHR 0x5C, CHR ''u'', CHR ''0'', CHR ''0'',
              hex_digit (of_char c div 16), hex_digit (of_char c mod 16)]
      else [c])"

definition emit_string :: "string \<Rightarrow> string" where
  "emit_string s = [CHR 0x22] @ concat (map escape_char s) @ [CHR 0x22]"

definition dec_digit :: "nat \<Rightarrow> char" where
  "dec_digit n = ''0123456789'' ! n"

fun emit_nat :: "nat \<Rightarrow> string" where
  "emit_nat n = (if n < 10 then [dec_digit n] else emit_nat (n div 10) @ [dec_digit (n mod 10)])"

declare emit_nat.simps [simp del]

definition emit_int :: "int \<Rightarrow> string" where
  "emit_int i = (if i < 0 then CHR ''-'' # emit_nat (nat (- i)) else emit_nat (nat i))"

section \<open>Documents\<close>

fun emit :: "json \<Rightarrow> string"
  and emit_items :: "json list \<Rightarrow> string"
  and emit_members :: "(string \<times> json) list \<Rightarrow> string" where
  "emit JNull = ''null''"
| "emit (JBool b) = (if b then ''true'' else ''false'')"
| "emit (JInt i) = emit_int i"
| "emit (JStr s) = emit_string s"
| "emit (JList xs) = (case xs of [] \<Rightarrow> ''[]'' | y # ys \<Rightarrow> ''['' @ emit y @ emit_items ys)"
| "emit (JObj ms) =
     (case ms of [] \<Rightarrow> ''{}''
      | (k, v) # ns \<Rightarrow> ''{'' @ emit_string k @ '':'' @ emit v @ emit_members ns)"
| "emit_items [] = '']''"
| "emit_items (x # xs) = '','' @ emit x @ emit_items xs"
| "emit_members [] = ''}''"
| "emit_members ((k, v) # ms) = '','' @ emit_string k @ '':'' @ emit v @ emit_members ms"

fun sort_keys :: "json \<Rightarrow> json" where
  "sort_keys (JList xs) = JList (map sort_keys xs)"
| "sort_keys (JObj ms) = JObj (sort_key fst (map (\<lambda>(k, v). (k, sort_keys v)) ms))"
| "sort_keys v = v"

definition dumps :: "json \<Rightarrow> string" where
  "dumps v = emit (sort_keys v)"

lemma dumps_example:
  "dumps (JObj [(''b'', JList [JInt (-12), JBool True]), (''a'', JStr ''x y'')])
     = ''{'' @ [CHR 0x22] @ ''a'' @ [CHR 0x22] @ '':'' @ [CHR 0x22] @ ''x y'' @ [CHR 0x22]
       @ '','' @ [CHR 0x22] @ ''b'' @ [CHR 0x22] @ '':[-12,true]}''"
  by code_simp

section \<open>The text determines the document\<close>

lemma hex_digit_inj:
  assumes "m < 16" and "n < 16" and "hex_digit m = hex_digit n"
  shows "m = n"
proof -
  have "distinct ''0123456789abcdef''" by simp
  moreover have "length ''0123456789abcdef'' = 16" by simp
  ultimately show ?thesis
    using assms nth_eq_iff_index_eq[of "''0123456789abcdef''" m n] by (simp add: hex_digit_def)
qed

lemma of_char_less: "of_char c < (256::nat)"
  by (rule nat_of_char_less_256)

lemma of_char_nat_inj: "(of_char c :: nat) = of_char d \<Longrightarrow> c = d"
  by (metis of_char_eq_iff)

lemma hex_pair_inj:
  assumes "hex_digit (of_char c div 16) = hex_digit (of_char d div 16)"
    and "hex_digit (of_char c mod 16) = hex_digit (of_char d mod 16)"
  shows "c = d"
proof -
  have "(of_char c :: nat) div 16 < 16" and "(of_char d :: nat) div 16 < 16"
    using of_char_less[of c] of_char_less[of d] by (auto simp: less_mult_imp_div_less)
  then have "(of_char c :: nat) div 16 = of_char d div 16"
    using assms(1) hex_digit_inj by blast
  moreover have "(of_char c :: nat) mod 16 = of_char d mod 16"
    using assms(2) by (intro hex_digit_inj) simp_all
  ultimately have "(of_char c :: nat) = of_char d"
    by (metis div_mult_mod_eq)
  then show ?thesis by (rule of_char_nat_inj)
qed

lemma escape_char_prefix_free:
  "escape_char c @ x = escape_char d @ y \<Longrightarrow> c = d \<and> x = y"
  by (auto simp: escape_char_def dest: hex_pair_inj split: if_splits)

lemma escape_char_no_quote: "escape_char c @ x \<noteq> CHR 0x22 # y"
  by (auto simp: escape_char_def)

lemma escapes_prefix_free:
  "concat (map escape_char s) @ CHR 0x22 # x = concat (map escape_char t) @ CHR 0x22 # y \<Longrightarrow>
   s = t \<and> x = y"
proof (induction s arbitrary: t)
  case Nil
  then show ?case
  proof (cases t)
    case (Cons d t')
    with Nil show ?thesis
      using escape_char_no_quote[of d "concat (map escape_char t') @ CHR 0x22 # y" x] by simp
  qed simp
next
  case (Cons c s)
  show ?case
  proof (cases t)
    case Nil
    with Cons.prems show ?thesis
      using escape_char_no_quote[of c "concat (map escape_char s) @ CHR 0x22 # x" y] by simp
  next
    case (Cons d t')
    with Cons.prems escape_char_prefix_free[of c _ d] have "c = d"
      and "concat (map escape_char s) @ CHR 0x22 # x = concat (map escape_char t') @ CHR 0x22 # y"
      by auto
    with Cons.IH[of t'] Cons show ?thesis by simp
  qed
qed

lemma emit_string_prefix_free:
  "emit_string s @ x = emit_string t @ y \<Longrightarrow> s = t \<and> x = y"
  using escapes_prefix_free[of s x t y] by (simp add: emit_string_def)

definition is_digit :: "char \<Rightarrow> bool" where
  "is_digit c \<longleftrightarrow> c \<in> set ''0123456789''"

lemma is_digit_dec_digit [simp]: "n < 10 \<Longrightarrow> is_digit (dec_digit n)"
  using nth_mem[of n "''0123456789''"] by (simp add: is_digit_def dec_digit_def)

lemma dec_digit_inj:
  assumes "m < 10" and "n < 10" and "dec_digit m = dec_digit n"
  shows "m = n"
proof -
  have "distinct ''0123456789''" and "length ''0123456789'' = 10" by simp_all
  then show ?thesis
    using assms nth_eq_iff_index_eq[of "''0123456789''" m n] by (simp add: dec_digit_def)
qed

lemma emit_nat_digits: "c \<in> set (emit_nat n) \<Longrightarrow> is_digit c"
proof (induction n rule: emit_nat.induct)
  case (1 n)
  then show ?case by (subst (asm) emit_nat.simps) (auto split: if_splits)
qed

lemma emit_nat_nonempty [simp]: "emit_nat n \<noteq> []"
  by (subst emit_nat.simps) simp

lemma emit_nat_inj: "emit_nat m = emit_nat n \<Longrightarrow> m = n"
proof (induction m arbitrary: n rule: emit_nat.induct)
  case (1 m)
  note eq = "1.prems"[unfolded emit_nat.simps[of m] emit_nat.simps[of n]]
  show ?case
  proof (cases "m < 10 \<or> n < 10")
    case True
    with eq show ?thesis by (auto dest: dec_digit_inj dest!: sym[of "[]"] split: if_splits)
  next
    case False
    with eq have "emit_nat (m div 10) = emit_nat (n div 10)" and "dec_digit (m mod 10) = dec_digit (n mod 10)"
      by auto
    then have "m div 10 = n div 10" and "m mod 10 = n mod 10"
      using "1.IH" False by (auto intro: dec_digit_inj)
    then show ?thesis by (metis div_mult_mod_eq)
  qed
qed

definition delimited :: "string \<Rightarrow> bool" where
  "delimited x \<longleftrightarrow> (case x of [] \<Rightarrow> True | c # _ \<Rightarrow> \<not> is_digit c)"

lemma takeWhile_emit_nat:
  "delimited x \<Longrightarrow> takeWhile is_digit (emit_nat n @ x) = emit_nat n"
  by (auto simp: takeWhile_append2 emit_nat_digits delimited_def split: list.splits)

lemma emit_nat_prefix_free:
  assumes "emit_nat m @ x = emit_nat n @ y" and "delimited x" and "delimited y"
  shows "m = n \<and> x = y"
proof -
  have "emit_nat m = emit_nat n"
    using assms takeWhile_emit_nat by metis
  with assms(1) emit_nat_inj show ?thesis by auto
qed

lemma not_digit [simp]:
  "\<not> is_digit CHR ''-''" "\<not> is_digit CHR '']''" "\<not> is_digit CHR ''}''" "\<not> is_digit CHR '',''"
  by (simp_all add: is_digit_def)

lemma emit_nat_head: "\<exists>c cs. emit_nat n = c # cs \<and> is_digit c"
  using emit_nat_digits[of "hd (emit_nat n)" n] by (cases "emit_nat n") auto

lemma emit_int_head: "\<exists>c cs. emit_int i = c # cs \<and> (is_digit c \<or> c = CHR ''-'')"
  using emit_nat_head[of "nat i"] by (auto simp: emit_int_def)

lemma emit_int_prefix_free:
  assumes eq: "emit_int i @ x = emit_int j @ y" and "delimited x" and "delimited y"
  shows "i = j \<and> x = y"
proof -
  obtain c cs d ds where heads: "emit_nat (nat i) = c # cs" "emit_nat (nat j) = d # ds"
    and digits: "is_digit c" "is_digit d"
    using emit_nat_head by metis
  then have "c \<noteq> CHR ''-''" and "d \<noteq> CHR ''-''" by auto
  consider "i < 0" "j < 0" | "i \<ge> 0" "j \<ge> 0" | "i < 0" "j \<ge> 0" | "i \<ge> 0" "j < 0" by linarith
  then show ?thesis
  proof cases
    case 1
    then have "emit_nat (nat (- i)) @ x = emit_nat (nat (- j)) @ y" using eq by (simp add: emit_int_def)
    from emit_nat_prefix_free[OF this assms(2,3)] 1 show ?thesis by (simp add: nat_eq_iff)
  next
    case 2
    then have "emit_nat (nat i) @ x = emit_nat (nat j) @ y" using eq by (simp add: emit_int_def)
    from emit_nat_prefix_free[OF this assms(2,3)] 2 show ?thesis by (simp add: nat_eq_iff)
  next
    case 3
    then show ?thesis using eq heads \<open>d \<noteq> CHR ''-''\<close> by (simp add: emit_int_def)
  next
    case 4
    then show ?thesis using eq heads \<open>c \<noteq> CHR ''-''\<close> by (simp add: emit_int_def)
  qed
qed

text \<open>What the first character of a text says about the document.\<close>

fun head_of :: "json \<Rightarrow> nat" where
  "head_of JNull = 0"
| "head_of (JBool b) = (if b then 1 else 2)"
| "head_of (JInt i) = 3"
| "head_of (JStr s) = 4"
| "head_of (JList xs) = 5"
| "head_of (JObj ms) = 6"

definition classify :: "char \<Rightarrow> nat" where
  "classify c =
     (if c = CHR ''n'' then 0 else if c = CHR ''t'' then 1 else if c = CHR ''f'' then 2
      else if c = CHR 0x22 then 4 else if c = CHR ''['' then 5 else if c = CHR ''{'' then 6
      else 3)"

lemma classify_simps [simp]:
  "classify CHR ''n'' = 0" "classify CHR ''t'' = 1" "classify CHR ''f'' = 2"
  "classify CHR 0x22 = 4" "classify CHR ''['' = 5" "classify CHR ''{'' = 6"
  "classify CHR ''-'' = 3" "classify CHR '']'' = 3" "classify CHR ''}'' = 3"
  by (simp_all add: classify_def)

lemma is_digit_classify: "is_digit c \<Longrightarrow> classify c = 3"
  unfolding is_digit_def by (simp, elim disjE) (simp_all add: classify_def)

lemma emit_head: "\<exists>c cs. emit v = c # cs \<and> classify c = head_of v"
proof (cases v)
  case (JInt i)
  obtain c cs where "emit_int i = c # cs" and "is_digit c \<or> c = CHR ''-''"
    using emit_int_head by blast
  then have "emit v = c # cs" and "classify c = head_of v"
    using JInt is_digit_classify by auto
  then show ?thesis by blast
next
  case (JList xs)
  then show ?thesis by (cases xs) simp_all
next
  case (JObj ms)
  then show ?thesis by (cases ms) (simp_all split: prod.splits)
qed (simp_all add: emit_string_def)

lemma same_head: "emit v @ x = emit w @ y \<Longrightarrow> head_of v = head_of w"
  by (metis append_Cons emit_head list.inject)

lemma emit_no_bracket:
  assumes "emit v = c # cs"
  shows "c \<noteq> CHR '']''" and "c \<noteq> CHR ''}''"
proof -
  have *: "c = d \<Longrightarrow> classify d = 3 \<Longrightarrow> is_digit d \<or> d = CHR ''-''" for d
  proof -
    assume "c = d" and "classify d = 3"
    then have "head_of v = 3" using assms emit_head[of v] by auto
    then obtain i where "v = JInt i" by (cases v) (auto split: if_splits)
    then show ?thesis using assms emit_int_head[of i] \<open>c = d\<close> by auto
  qed
  from *[of "CHR '']''"] *[of "CHR ''}''"] show "c \<noteq> CHR '']''" and "c \<noteq> CHR ''}''" by auto
qed

lemma emit_nonempty_bracket: "emit v @ x \<noteq> CHR '']'' # y"
  using emit_head[of v] emit_no_bracket[of v] by force

lemma delimited_tail [simp]:
  "delimited (emit_items xs @ x)" "delimited (emit_members ms @ x)" "delimited []"
  by (cases xs; cases ms; auto simp: delimited_def is_digit_def)+

lemma head_of_inv:
  "head_of w = 0 \<Longrightarrow> w = JNull"
  "head_of w = 1 \<Longrightarrow> w = JBool True"
  "head_of w = 2 \<Longrightarrow> w = JBool False"
  "head_of w = 3 \<Longrightarrow> \<exists>i. w = JInt i"
  "head_of w = 4 \<Longrightarrow> \<exists>s. w = JStr s"
  "head_of w = 5 \<Longrightarrow> \<exists>xs. w = JList xs"
  "head_of w = 6 \<Longrightarrow> \<exists>ms. w = JObj ms"
  by (cases w; simp split: if_splits)+

lemma emit_prefix_free:
  shows "emit v @ x = emit w @ y \<Longrightarrow> delimited x \<Longrightarrow> delimited y \<Longrightarrow> v = w \<and> x = y"
    and "emit_items xs @ x = emit_items ys @ y \<Longrightarrow> xs = ys \<and> x = y"
    and "emit_members ms @ x = emit_members ns @ y \<Longrightarrow> ms = ns \<and> x = y"
proof (induction v and xs and ms arbitrary: w x y and ys x y and ns x y
    rule: emit_emit_items_emit_members.induct)
  case 1
  have w: "w = JNull" using same_head[OF "1.prems"(1)] head_of_inv(1)[of w] by simp
  show ?case using "1.prems" unfolding w by simp
next
  case (2 b)
  have "head_of w = (if b then 1 else 2)" using same_head[OF "2.prems"(1)] by simp
  then have w: "w = JBool b" using head_of_inv(2,3)[of w] by (metis (full_types))
  show ?case using "2.prems" unfolding w by simp
next
  case (3 i)
  obtain j where w: "w = JInt j"
    using same_head[OF "3.prems"(1)] head_of_inv(4)[of w] by auto
  show ?case using "3.prems" emit_int_prefix_free[of i x j y] unfolding w by simp
next
  case (4 s)
  obtain t where w: "w = JStr t"
    using same_head[OF "4.prems"(1)] head_of_inv(5)[of w] by auto
  show ?case using "4.prems" emit_string_prefix_free[of s x t y] unfolding w by simp
next
  case (5 xs)
  obtain ys where w: "w = JList ys"
    using same_head[OF "5.prems"(1)] head_of_inv(6)[of w] by auto
  show ?case
  proof (cases xs; cases ys)
    fix a as b bs assume eqs: "xs = a # as" "ys = b # bs"
    have e: "emit a @ emit_items as @ x = emit b @ emit_items bs @ y"
      using "5.prems"(1) w eqs by simp
    note ab = "5.IH"(1)[OF eqs(1) e delimited_tail(1) delimited_tail(1)]
    have "as = bs \<and> x = y" using "5.IH"(2)[OF eqs(1), of x bs y] ab by blast
    then show ?thesis using ab w eqs by simp
  qed (use "5.prems"(1) w emit_nonempty_bracket emit_nonempty_bracket[symmetric] in simp_all)
next
  case (6 ms)
  obtain ns where w: "w = JObj ns"
    using same_head[OF "6.prems"(1)] head_of_inv(7)[of w] by auto
  show ?case
  proof (cases ms; cases ns)
    fix a as b bs assume eqs: "ms = a # as" "ns = b # bs"
    obtain k v l u where kv: "a = (k, v)" "b = (l, u)" by (cases a; cases b)
    have e: "emit_string k @ CHR '':'' # emit v @ emit_members as @ x
        = emit_string l @ CHR '':'' # emit u @ emit_members bs @ y"
      using "6.prems"(1) w eqs kv by simp
    from emit_string_prefix_free[OF e] have "k = l"
      and e': "emit v @ emit_members as @ x = emit u @ emit_members bs @ y" by simp_all
    note vu = "6.IH"(1)[OF eqs(1) kv(1)[symmetric] e' delimited_tail(2) delimited_tail(2)]
    have "as = bs \<and> x = y" using "6.IH"(2)[OF eqs(1) kv(1)[symmetric], of x bs y] vu by blast
    then show ?thesis using vu w eqs kv \<open>k = l\<close> by simp
  qed (use "6.prems"(1) w in \<open>simp_all add: emit_string_def split: prod.splits\<close>)
next
  case 7
  show ?case using "7.prems" by (cases ys) simp_all
next
  case (8 v xs)
  show ?case
  proof (cases ys)
    case (Cons b bs)
    have e: "emit v @ emit_items xs @ x = emit b @ emit_items bs @ y"
      using "8.prems"(1) Cons by simp
    note vb = "8.IH"(1)[OF e delimited_tail(1) delimited_tail(1)]
    have "xs = bs \<and> x = y" using "8.IH"(2)[of x bs y] vb by blast
    then show ?thesis using vb Cons by simp
  qed (use "8.prems"(1) in simp_all)
next
  case 9
  show ?case using "9.prems" by (cases ns rule: list.exhaust; cases "hd ns") simp_all
next
  case (10 k v ms)
  show ?case
  proof (cases ns)
    case (Cons b bs)
    obtain l u where b: "b = (l, u)" by (cases b)
    have e: "emit_string k @ CHR '':'' # emit v @ emit_members ms @ x
        = emit_string l @ CHR '':'' # emit u @ emit_members bs @ y"
      using "10.prems"(1) Cons b by simp
    from emit_string_prefix_free[OF e] have "k = l"
      and e': "emit v @ emit_members ms @ x = emit u @ emit_members bs @ y" by simp_all
    note vu = "10.IH"(1)[OF e' delimited_tail(2) delimited_tail(2)]
    have "ms = bs \<and> x = y" using "10.IH"(2)[of x bs y] vu by blast
    then show ?thesis using vu Cons b \<open>k = l\<close> by simp
  qed (use "10.prems"(1) in simp_all)
qed

lemma emit_inj: "emit v = emit w \<Longrightarrow> v = w"
  using emit_prefix_free(1)[of v "[]" w "[]"] by simp

lemma dumps_inj: "dumps v = dumps w \<longleftrightarrow> sort_keys v = sort_keys w"
  using emit_inj by (auto simp: dumps_def)

section \<open>Reading a document\<close>

text \<open>
  \<^verbatim>\<open>int(payload.get(key, -1))\<close> and \<^verbatim>\<open>str(payload.get(key))\<close>; of the texts that \<^verbatim>\<open>int\<close> reads, the
  plain digits.
\<close>

definition json_get :: "json \<Rightarrow> string \<Rightarrow> json option" where
  "json_get v k = (case v of JObj ms \<Rightarrow> map_of ms k | _ \<Rightarrow> None)"

definition digits_value :: "string \<Rightarrow> nat" where
  "digits_value s = foldl (\<lambda>n c. 10 * n + (of_char c - 48)) 0 s"

definition py_int :: "json option \<Rightarrow> int \<Rightarrow> int result" where
  "py_int v fallback =
     (case v of
        None \<Rightarrow> Inr fallback
      | Some (JInt i) \<Rightarrow> Inr i
      | Some (JBool b) \<Rightarrow> Inr (if b then 1 else 0)
      | Some (JStr s) \<Rightarrow>
          if s \<noteq> [] \<and> list_all is_digit s then Inr (int (digits_value s))
          else raise PyValueError ''invalid literal for int() with base 10''
      | Some _ \<Rightarrow> raise PyTypeError ''int() argument must be a string or a real number'')"

definition text_of :: "json option \<Rightarrow> string" where
  "text_of v = (case v of None \<Rightarrow> ''None'' | Some JNull \<Rightarrow> ''None'' | Some (JStr s) \<Rightarrow> s
     | Some (JInt i) \<Rightarrow> emit_int i | Some (JBool b) \<Rightarrow> if b then ''True'' else ''False''
     | Some w \<Rightarrow> dumps w)"

text \<open>\<^verbatim>\<open>str(value)\<close> of a hashable value, and its truth.\<close>

fun py_str :: "json \<Rightarrow> string" where
  "py_str JNull = ''None''"
| "py_str (JBool b) = (if b then ''True'' else ''False'')"
| "py_str (JInt i) = emit_int i"
| "py_str (JStr s) = s"
| "py_str v = dumps v"

fun truthy :: "json \<Rightarrow> bool" where
  "truthy JNull \<longleftrightarrow> False"
| "truthy (JBool b) \<longleftrightarrow> b"
| "truthy (JInt i) \<longleftrightarrow> i \<noteq> 0"
| "truthy (JStr s) \<longleftrightarrow> s \<noteq> []"
| "truthy (JList xs) \<longleftrightarrow> xs \<noteq> []"
| "truthy (JObj ms) \<longleftrightarrow> ms \<noteq> []"

end
