(* ===== verification/Sanitize.thy ===== *)
theory Sanitize
  imports Json
begin

text \<open>
  Redaction, \<^verbatim>\<open>_redact_text\<close> and \<^verbatim>\<open>sanitize_record\<close> of \<^verbatim>\<open>manager/record_store.py\<close> with the patterns
  \<^verbatim>\<open>SENSITIVE_TEXT\<close> and \<^verbatim>\<open>SENSITIVE_KEY\<close>. Python's \<^verbatim>\<open>re\<close> is modelled by a backtracking matcher over
  the constructs the two patterns use; a match is the first success in the order in which Python
  explores the alternatives. Characters are code points below 256, on which case-insensitive matching
  is the one of ASCII letters.
\<close>

section \<open>A backtracking matcher\<close>

datatype rx =
    Eps
  | One "char \<Rightarrow> bool"
  | Many "char \<Rightarrow> bool"
  | ManyLazy "char \<Rightarrow> bool"
  | NotBehind "char \<Rightarrow> bool"
  | Seq rx rx
  | Alt rx rx
  | Group1 rx

definition before :: "char option \<Rightarrow> string \<Rightarrow> nat \<Rightarrow> char option" where
  "before prev s n = (if n = 0 then prev else Some (s ! (n - 1)))"

text \<open>
  All matches at the start of \<open>s\<close>, in exploration order: the number of characters consumed and the
  text of group 1. \<open>prev\<close> is the character before \<open>s\<close>.
\<close>

fun matches :: "rx \<Rightarrow> char option \<Rightarrow> string \<Rightarrow> (nat \<times> string option) list" where
  "matches Eps prev s = [(0, None)]"
| "matches (One p) prev s = (case s of [] \<Rightarrow> [] | c # cs \<Rightarrow> if p c then [(1, None)] else [])"
| "matches (Many p) prev s = map (\<lambda>n. (n, None)) (rev [0..<Suc (length (takeWhile p s))])"
| "matches (ManyLazy p) prev s = map (\<lambda>n. (n, None)) [0..<Suc (length (takeWhile p s))]"
| "matches (NotBehind p) prev s =
     (case prev of None \<Rightarrow> [(0, None)] | Some c \<Rightarrow> if p c then [] else [(0, None)])"
| "matches (Seq r t) prev s =
     concat (map (\<lambda>(n, g). map (\<lambda>(k, h). (n + k, case h of None \<Rightarrow> g | Some _ \<Rightarrow> h))
                             (matches t (before prev s n) (drop n s)))
       (matches r prev s))"
| "matches (Alt r t) prev s = matches r prev s @ matches t prev s"
| "matches (Group1 r) prev s = map (\<lambda>(n, _). (n, Some (take n s))) (matches r prev s)"

definition re_match :: "rx \<Rightarrow> char option \<Rightarrow> string \<Rightarrow> (nat \<times> string option) option" where
  "re_match r prev s = (case matches r prev s of [] \<Rightarrow> None | m # _ \<Rightarrow> Some m)"

lemma matches_bound: "(n, g) \<in> set (matches r prev s) \<Longrightarrow> n \<le> length s"
proof (induction r arbitrary: prev s n g)
  case (Seq r t)
  then obtain k h m g' where "(k, g') \<in> set (matches r prev s)"
    and "(m, h) \<in> set (matches t (before prev s k) (drop k s))" and "n = k + m" by auto
  with Seq.IH(1)[of k g' prev s] Seq.IH(2)[of m h "before prev s k" "drop k s"] show ?case by auto
next
  case (Many p)
  then show ?case using length_takeWhile_le[of p s] by auto
next
  case (ManyLazy p)
  then show ?case using length_takeWhile_le[of p s] by auto
qed (auto split: list.splits if_splits option.splits)

text \<open>\<^verbatim>\<open>pattern.search(s) is not None\<close>.\<close>

fun re_search :: "rx \<Rightarrow> char option \<Rightarrow> string \<Rightarrow> bool" where
  "re_search r prev [] = (re_match r prev [] \<noteq> None)"
| "re_search r prev (c # cs) = (re_match r prev (c # cs) \<noteq> None \<or> re_search r (Some c) cs)"

text \<open>
  \<^verbatim>\<open>pattern.sub(f, s)\<close> for a pattern whose matches are not empty: the leftmost match is replaced and
  the scan goes on behind it.
\<close>

function re_sub :: "rx \<Rightarrow> (string option \<Rightarrow> string) \<Rightarrow> char option \<Rightarrow> string \<Rightarrow> string" where
  "re_sub r f prev [] = []"
| "re_sub r f prev (c # cs) =
     (case re_match r prev (c # cs) of
        None \<Rightarrow> c # re_sub r f (Some c) cs
      | Some (n, g) \<Rightarrow>
          if n = 0 then c # re_sub r f (Some c) cs
          else f g @ re_sub r f (before prev (c # cs) n) (drop n (c # cs)))"
  by pat_completeness auto
termination by (relation "measure (\<lambda>(r, f, prev, s). length s)") auto

section \<open>The patterns\<close>

definition code :: "char \<Rightarrow> nat" where
  "code c = of_char c"

definition to_lower :: "char \<Rightarrow> char" where
  "to_lower c = (if 65 \<le> code c \<and> code c \<le> 90 then char_of (code c + 32) else c)"

definition is_lower :: "char \<Rightarrow> bool" where
  "is_lower c \<longleftrightarrow> 97 \<le> code c \<and> code c \<le> 122"

definition is_num :: "char \<Rightarrow> bool" where
  "is_num c \<longleftrightarrow> 48 \<le> code c \<and> code c \<le> 57"

text \<open>\<^verbatim>\<open>\s\<close> on code points below 256.\<close>

definition is_space :: "char \<Rightarrow> bool" where
  "is_space c \<longleftrightarrow> 9 \<le> code c \<and> code c \<le> 13 \<or> 28 \<le> code c \<and> code c \<le> 32
     \<or> code c = 133 \<or> code c = 160"

fun lit :: "string \<Rightarrow> rx" where
  "lit [] = Eps"
| "lit (c # cs) = Seq (One (\<lambda>d. to_lower d = to_lower c)) (lit cs)"

text \<open>A literal that respects case, and \<^verbatim>\<open>re.fullmatch(...) is not None\<close>.\<close>

fun exact :: "string \<Rightarrow> rx" where
  "exact [] = Eps"
| "exact (c # cs) = Seq (One (\<lambda>d. d = c)) (exact cs)"

definition re_full :: "rx \<Rightarrow> string \<Rightarrow> bool" where
  "re_full r s \<longleftrightarrow> list_ex (\<lambda>(n, g). n = length s) (matches r None s)"

fun alts :: "rx list \<Rightarrow> rx" where
  "alts [] = One (\<lambda>_. False)"
| "alts [r] = r"
| "alts (r # rs) = Alt r (alts rs)"

abbreviation opt :: "rx \<Rightarrow> rx" where
  "opt r \<equiv> Alt r Eps"

abbreviation some1 :: "(char \<Rightarrow> bool) \<Rightarrow> rx" where
  "some1 p \<equiv> Seq (One p) (Many p)"

definition bearer_char :: "char \<Rightarrow> bool" where
  "bearer_char c \<longleftrightarrow> is_lower (to_lower c) \<or> is_num c \<or> c \<in> set ''._~+/=-''"

definition path_char :: "char \<Rightarrow> bool" where
  "path_char c \<longleftrightarrow> is_lower (to_lower c) \<or> is_num c \<or> c \<in> set ''._-''"

definition key_kind :: rx where
  "key_kind = opt (alts [lit ''RSA '', lit ''EC '', lit ''OPENSSH ''])"

definition SENSITIVE_TEXT :: rx where
  "SENSITIVE_TEXT = alts
     [Seq (opt (Seq (lit ''authorization'') (Seq (Many is_space) (Seq (lit '':'') (Many is_space)))))
        (Seq (Group1 (Seq (lit ''bearer'') (some1 is_space))) (some1 bearer_char)),
      Seq (alts [lit ''password'', lit ''passwd'', lit ''secret'', lit ''token'', lit ''credential'',
                 lit ''authorization''])
        (Seq (Many is_space) (Seq (One (\<lambda>c. c \<in> set ''=:''))
          (Seq (Many is_space) (some1 (\<lambda>c. \<not> is_space c))))),
      Seq (lit ''-----BEGIN '') (Seq key_kind (Seq (lit ''PRIVATE KEY-----'') (Seq (ManyLazy (\<lambda>_. True))
        (Seq (lit ''-----END '') (Seq key_kind (lit ''PRIVATE KEY-----'')))))),
      Seq (NotBehind path_char) (Seq (lit ''/'')
        (Seq (alts [lit ''etc'', lit ''root'', lit ''home'', lit ''var/snap/microk8s/credentials''])
          (opt (Seq (lit ''/'') (Many (\<lambda>c. \<not> is_space c \<and> c \<notin> set '',;''))))))]"

definition SENSITIVE_KEY :: rx where
  "SENSITIVE_KEY = alts
     [lit ''password'', lit ''passwd'', lit ''secret'', lit ''token'', lit ''credential'',
      lit ''license'',
      Seq (lit ''private'') (Seq (opt (One (\<lambda>c. code c \<noteq> 10))) (lit ''key'')),
      lit ''authorization'', lit ''cookie'']"

section \<open>Redaction\<close>

definition REDACTED :: string where
  "REDACTED = ''[REDACTED]''"

definition redact_text :: "string \<Rightarrow> string" where
  "redact_text s =
     re_sub SENSITIVE_TEXT (\<lambda>g. (case g of None \<Rightarrow> [] | Some t \<Rightarrow> t) @ REDACTED) None s"

definition sensitive_key :: "string \<Rightarrow> bool" where
  "sensitive_key k = re_search SENSITIVE_KEY None k"

text \<open>
  \<open>walk\<close> returns the clean copy and the redaction classes it has added to the set.
\<close>

fun walk :: "json \<Rightarrow> json \<times> string list"
  and walk_items :: "json list \<Rightarrow> json list \<times> string list"
  and walk_members :: "(string \<times> json) list \<Rightarrow> (string \<times> json) list \<times> string list" where
  "walk (JObj ms) = (case walk_members ms of (cs, rs) \<Rightarrow> (JObj cs, rs))"
| "walk (JList xs) = (case walk_items xs of (cs, rs) \<Rightarrow> (JList cs, rs))"
| "walk (JStr s) =
     (let clean = redact_text s
      in (JStr clean, if clean \<noteq> s then [''credential'', ''path''] else []))"
| "walk v = (v, [])"
| "walk_items [] = ([], [])"
| "walk_items (x # xs) =
     (case walk x of (c, r) \<Rightarrow> case walk_items xs of (cs, rs) \<Rightarrow> (c # cs, r @ rs))"
| "walk_members [] = ([], [])"
| "walk_members ((k, v) # ms) =
     (if sensitive_key k
      then (case walk_members ms of (cs, rs) \<Rightarrow> (cs, ''credential'' # rs))
      else case walk v of (c, r) \<Rightarrow> case walk_members ms of (cs, rs) \<Rightarrow> ((k, c) # cs, r @ rs))"

fun json_text :: "json \<Rightarrow> string result" where
  "json_text (JStr s) = Inr s"
| "json_text v = raise PyTypeError ''unhashable or unorderable redaction''"

text \<open>
  \<^verbatim>\<open>set(document.get("redactions", []))\<close>, for a document whose field is absent or a list of texts, as
  the record schemas require; anything else is refused here, as \<^verbatim>\<open>set\<close> or \<^verbatim>\<open>sorted\<close> refuse most of it.
\<close>

definition declared_redactions :: "(string \<times> json) list \<Rightarrow> string list result" where
  "declared_redactions ms =
     (case map_of ms ''redactions'' of
        None \<Rightarrow> Inr []
      | Some (JList xs) \<Rightarrow> res_map json_text xs
      | Some _ \<Rightarrow> raise PyTypeError ''redactions are not a list of texts'')"

definition sanitize_record :: "(string \<times> json) list \<Rightarrow> (string \<times> json) list result" where
  "sanitize_record document =
     (case declared_redactions document of
        Inl e \<Rightarrow> Inl e
      | Inr declared \<Rightarrow>
          (case walk_members document of
             (clean, added) \<Rightarrow>
               if map_of clean ''kind'' = Some (JStr ''SanitizedTrace'')
               then Inr (AList.update ''redactions''
                           (JList (map JStr (sort (remdups (declared @ added)))))
                           (AList.update ''sanitized'' (JBool True) clean))
               else Inr clean))"

section \<open>What is left\<close>

fun keys_clean :: "json \<Rightarrow> bool" where
  "keys_clean (JObj ms) = (\<forall>(k, v)\<in>set ms. \<not> sensitive_key k \<and> keys_clean v)"
| "keys_clean (JList xs) = (\<forall>x\<in>set xs. keys_clean x)"
| "keys_clean v = True"

lemma walk_keys_clean:
  "keys_clean (fst (walk v))"
  "\<forall>x\<in>set (fst (walk_items xs)). keys_clean x"
  "\<forall>(k, v)\<in>set (fst (walk_members ms)). \<not> sensitive_key k \<and> keys_clean v"
  by (induction v and xs and ms rule: walk_walk_items_walk_members.induct)
    (auto simp: Let_def split: prod.splits)

lemma set_update_subset: "set (AList.update k v xs) \<subseteq> insert (k, v) (set xs)"
  by (induction xs) auto

lemma own_keys: "\<not> sensitive_key ''sanitized''" "\<not> sensitive_key ''redactions''"
  by code_simp+

text \<open>
  A sanitized record has no sensitive key at any depth (no object key in which the pattern for
  passwords, secrets, tokens, credentials, licenses, private keys, authorization or cookies is found,
  in any case), and a sanitized trace says that it is sanitized.
\<close>

theorem sanitize_record_keys:
  assumes "sanitize_record document = Inr clean"
  shows "keys_clean (JObj clean)
    \<and> (if map_of clean ''kind'' = Some (JStr ''SanitizedTrace'')
       then map_of clean ''sanitized'' = Some (JBool True) else True)"
proof -
  obtain cs rs where w: "walk_members document = (cs, rs)" by fastforce
  have cs: "\<forall>(k, v)\<in>set cs. \<not> sensitive_key k \<and> keys_clean v"
    using walk_keys_clean(3)[of document] w by simp
  obtain declared where d: "declared_redactions document = Inr declared"
    using assms by (cases "declared_redactions document") (simp_all add: sanitize_record_def)
  let ?flags = "\<lambda>x. AList.update ''redactions'' x (AList.update ''sanitized'' (JBool True) cs)"
  have keys: "keys_clean (JObj (?flags (JList (map JStr ys))))" for ys
  proof -
    have "set (?flags (JList (map JStr ys)))
        \<subseteq> insert (''redactions'', JList (map JStr ys)) (insert (''sanitized'', JBool True) (set cs))"
      using set_update_subset by (meson insert_mono order_trans)
    then show ?thesis using cs own_keys by (simp only: keys_clean.simps) auto
  qed
  show ?thesis
  proof (cases "map_of cs ''kind'' = Some (JStr ''SanitizedTrace'')")
    case True
    then have "clean = ?flags (JList (map JStr (sort (remdups (declared @ rs)))))"
      using assms d w by (simp add: sanitize_record_def)
    with keys show ?thesis by (simp add: AList.update_conv)
  next
    case False
    then have "clean = cs" using assms d w by (simp add: sanitize_record_def)
    with cs False show ?thesis by simp
  qed
qed

theorem sanitize_record_keys_witness:
  "keys_clean (JObj [(''a'', JList [JObj []]), (''n'', JInt 1)])
    \<and> (if map_of [(''a'', JList [JObj []]), (''n'', JInt 1)] ''kind'' = Some (JStr ''SanitizedTrace'')
       then map_of [(''a'', JList [JObj []]), (''n'', JInt 1)] ''sanitized'' = Some (JBool True) else True)"
proof (rule sanitize_record_keys)
  show "sanitize_record [(''a'', JList [JObj [(''apiToken'', JStr ''t'')]]), (''n'', JInt 1)]
    = Inr [(''a'', JList [JObj []]), (''n'', JInt 1)]"
    by code_simp
qed

end
