(* ===== verification/Effects.thy ===== *)
theory Effects
  imports Prelude
begin

text \<open>
  Calls that change state and may raise: \<open>('s, 'a) proc\<close> takes a state and returns the outcome and
  the state after it. What was written before an exception stays written, as in Python. The
  collection \<open>keeps\<close> holds the rules by which an invariant is carried through a composed call, and
  \<open>runs\<close> the inversion rules for an outcome that is known.
  Time is read through \<open>read_clock\<close>: the n-th reading of the injected clock is \<open>clk n\<close>, an instant
  in microseconds since the epoch or, for a clock without timezone, a naive value that the services
  refuse. ISO texts of aware UTC instants are modelled by the instants they denote.
\<close>

named_theorems keeps \<open>invariants carried through composed calls\<close>
named_theorems runs \<open>inversion of composed calls\<close>

type_synonym ('s, 'a) proc = "'s \<Rightarrow> 'a result \<times> 's"

definition ret :: "'a \<Rightarrow> ('s, 'a) proc" where
  "ret x = (\<lambda>s. (Inr x, s))"

definition fail :: "exn_class \<Rightarrow> string \<Rightarrow> ('s, 'a) proc" where
  "fail c m = (\<lambda>s. (raise c m, s))"

definition throw :: "exn \<Rightarrow> ('s, 'a) proc" where
  "throw e = (\<lambda>s. (Inl e, s))"

definition lift :: "'a result \<Rightarrow> ('s, 'a) proc" where
  "lift r = (\<lambda>s. (r, s))"

definition bindS :: "('s, 'a) proc \<Rightarrow> ('a \<Rightarrow> ('s, 'b) proc) \<Rightarrow> ('s, 'b) proc" where
  "bindS m f = (\<lambda>s. case m s of (Inl e, s') \<Rightarrow> (Inl e, s') | (Inr x, s') \<Rightarrow> f x s')"

abbreviation thenS :: "('s, 'a) proc \<Rightarrow> ('s, 'b) proc \<Rightarrow> ('s, 'b) proc" where
  "thenS m n \<equiv> bindS m (\<lambda>_. n)"

definition gets :: "('s \<Rightarrow> 'a) \<Rightarrow> ('s, 'a) proc" where
  "gets f = (\<lambda>s. (Inr (f s), s))"

definition modify :: "('s \<Rightarrow> 's) \<Rightarrow> ('s, unit) proc" where
  "modify f = (\<lambda>s. (Inr (), f s))"

definition handle :: "('s, 'a) proc \<Rightarrow> (exn \<Rightarrow> ('s, 'a) proc) \<Rightarrow> ('s, 'a) proc" where
  "handle m h = (\<lambda>s. case m s of (Inl e, s') \<Rightarrow> h e s' | (Inr x, s') \<Rightarrow> (Inr x, s'))"

text \<open>\<^verbatim>\<open>try: m finally: f\<close>, for a final action that does not raise.\<close>

definition finally_do :: "('s, 'a) proc \<Rightarrow> ('s \<Rightarrow> 's) \<Rightarrow> ('s, 'a) proc" where
  "finally_do m f = (\<lambda>s. case m s of (r, s') \<Rightarrow> (r, f s'))"

fun for_each :: "'x list \<Rightarrow> ('x \<Rightarrow> ('s, unit) proc) \<Rightarrow> ('s, unit) proc" where
  "for_each [] body = ret ()"
| "for_each (x # xs) body = thenS (body x) (for_each xs body)"

section \<open>Running\<close>

lemma ret_run [simp]: "ret x s = (Inr x, s)"
  by (simp add: ret_def)

lemma fail_run [simp]: "fail c m s = (raise c m, s)"
  by (simp add: fail_def)

lemma throw_run [simp]: "throw e s = (Inl e, s)"
  by (simp add: throw_def)

lemma lift_run [simp]: "lift r s = (r, s)"
  by (simp add: lift_def)

lemma gets_run [simp]: "gets f s = (Inr (f s), s)"
  by (simp add: gets_def)

lemma modify_run [simp]: "modify f s = (Inr (), f s)"
  by (simp add: modify_def)

lemma bindS_Inr [simp]: "m s = (Inr x, s') \<Longrightarrow> bindS m f s = f x s'"
  by (simp add: bindS_def)

lemma bindS_Inl [simp]: "m s = (Inl e, s') \<Longrightarrow> bindS m f s = (Inl e, s')"
  by (simp add: bindS_def)

lemma handle_Inr [simp]: "m s = (Inr x, s') \<Longrightarrow> handle m h s = (Inr x, s')"
  by (simp add: handle_def)

lemma handle_Inl [simp]: "m s = (Inl e, s') \<Longrightarrow> handle m h s = h e s'"
  by (simp add: handle_def)

lemma finally_do_run [simp]: "m s = (r, s') \<Longrightarrow> finally_do m f s = (r, f s')"
  by (simp add: finally_do_def)

lemma bindS_assoc: "bindS (bindS m f) g = bindS m (\<lambda>x. bindS (f x) g)"
  by (rule ext) (simp add: bindS_def split: prod.splits sum.splits)

lemma bindS_Inr_iff [runs]:
  "bindS m f s = (Inr y, s') \<longleftrightarrow> (\<exists>x t. m s = (Inr x, t) \<and> f x t = (Inr y, s'))"
  by (auto simp: bindS_def split: prod.splits sum.splits)

lemma bindS_Inl_iff [runs]:
  "bindS m f s = (Inl e, s') \<longleftrightarrow>
     m s = (Inl e, s') \<or> (\<exists>x t. m s = (Inr x, t) \<and> f x t = (Inl e, s'))"
  by (auto simp: bindS_def split: prod.splits sum.splits)

lemma handle_Inr_iff [runs]:
  "handle m h s = (Inr y, s') \<longleftrightarrow>
     m s = (Inr y, s') \<or> (\<exists>e t. m s = (Inl e, t) \<and> h e t = (Inr y, s'))"
  by (auto simp: handle_def split: prod.splits sum.splits)

lemma handle_Inl_iff [runs]:
  "handle m h s = (Inl e, s') \<longleftrightarrow> (\<exists>e' t. m s = (Inl e', t) \<and> h e' t = (Inl e, s'))"
  by (auto simp: handle_def split: prod.splits sum.splits)

lemma if_proc_iff [runs]:
  "(if b then m else n) s = r \<longleftrightarrow> (b \<and> m s = r) \<or> (\<not> b \<and> n s = r)"
  by auto

section \<open>Invariants\<close>

definition keeps_inv :: "('s \<Rightarrow> bool) \<Rightarrow> ('s, 'a) proc \<Rightarrow> bool" where
  "keeps_inv I m \<longleftrightarrow> (\<forall>s. I s \<longrightarrow> I (snd (m s)))"

lemma keeps_invD: "keeps_inv I m \<Longrightarrow> I s \<Longrightarrow> m s = (r, s') \<Longrightarrow> I s'"
  by (metis keeps_inv_def snd_conv)

lemma keeps_invI: "(\<And>s r s'. I s \<Longrightarrow> m s = (r, s') \<Longrightarrow> I s') \<Longrightarrow> keeps_inv I m"
  by (auto simp: keeps_inv_def) (metis prod.collapse)

lemma keeps_ret [keeps]: "keeps_inv I (ret x)"
  by (simp add: keeps_inv_def)

lemma keeps_fail [keeps]: "keeps_inv I (fail c m)"
  by (simp add: keeps_inv_def)

lemma keeps_throw [keeps]: "keeps_inv I (throw e)"
  by (simp add: keeps_inv_def)

lemma keeps_lift [keeps]: "keeps_inv I (lift r)"
  by (simp add: keeps_inv_def)

lemma keeps_gets [keeps]: "keeps_inv I (gets f)"
  by (simp add: keeps_inv_def)

lemma keeps_modify [keeps]: "(\<And>s. I s \<Longrightarrow> I (f s)) \<Longrightarrow> keeps_inv I (modify f)"
  by (simp add: keeps_inv_def)

lemma keeps_bindS [keeps]:
  "keeps_inv I m \<Longrightarrow> (\<And>x. keeps_inv I (f x)) \<Longrightarrow> keeps_inv I (bindS m f)"
  unfolding keeps_inv_def bindS_def by (auto split: prod.splits sum.splits)

lemma keeps_handle [keeps]:
  "keeps_inv I m \<Longrightarrow> (\<And>e. keeps_inv I (h e)) \<Longrightarrow> keeps_inv I (handle m h)"
  unfolding keeps_inv_def handle_def by (auto split: prod.splits sum.splits)

lemma keeps_finally [keeps]:
  "keeps_inv I m \<Longrightarrow> (\<And>s. I s \<Longrightarrow> I (f s)) \<Longrightarrow> keeps_inv I (finally_do m f)"
  unfolding keeps_inv_def finally_do_def by (auto split: prod.splits)

lemma keeps_if [keeps]:
  "(b \<Longrightarrow> keeps_inv I m) \<Longrightarrow> (\<not> b \<Longrightarrow> keeps_inv I n) \<Longrightarrow> keeps_inv I (if b then m else n)"
  by simp

lemma keeps_case_option [keeps]:
  "(x = None \<Longrightarrow> keeps_inv I m) \<Longrightarrow> (\<And>y. x = Some y \<Longrightarrow> keeps_inv I (f y)) \<Longrightarrow>
   keeps_inv I (case x of None \<Rightarrow> m | Some y \<Rightarrow> f y)"
  by (cases x) auto

lemma keeps_case_sum [keeps]:
  "(\<And>e. x = Inl e \<Longrightarrow> keeps_inv I (f e)) \<Longrightarrow> (\<And>y. x = Inr y \<Longrightarrow> keeps_inv I (g y)) \<Longrightarrow>
   keeps_inv I (case x of Inl e \<Rightarrow> f e | Inr y \<Rightarrow> g y)"
  by (cases x) auto

lemma keeps_for_each [keeps]:
  "(\<And>x. x \<in> set xs \<Longrightarrow> keeps_inv I (body x)) \<Longrightarrow> keeps_inv I (for_each xs body)"
  by (induction xs) (auto intro!: keeps)

section \<open>Evolution of a state\<close>

text \<open>
  \<open>evolves R m\<close>: every run of \<open>m\<close>, raising or not, takes the state along \<open>R\<close>. For a preorder this
  composes; histories that only grow and ledgers that only move forward are instances.
\<close>

definition evolves :: "('s \<Rightarrow> 's \<Rightarrow> bool) \<Rightarrow> ('s, 'a) proc \<Rightarrow> bool" where
  "evolves R m \<longleftrightarrow> (\<forall>s. R s (snd (m s)))"

lemma evolvesD: "evolves R m \<Longrightarrow> m s = (r, s') \<Longrightarrow> R s s'"
  by (metis evolves_def snd_conv)

locale evolution =
  fixes R :: "'s \<Rightarrow> 's \<Rightarrow> bool"
  assumes R_refl: "R s s"
    and R_trans: "R s t \<Longrightarrow> R t u \<Longrightarrow> R s u"
begin

lemma ev_pure: "evolves R (ret x)" "evolves R (fail c m)" "evolves R (throw e)" "evolves R (lift r)"
    "evolves R (gets f)"
  by (simp_all add: evolves_def R_refl)

lemma ev_modify: "(\<And>s. R s (f s)) \<Longrightarrow> evolves R (modify f)"
  by (simp add: evolves_def)

lemma ev_bindS: "evolves R m \<Longrightarrow> (\<And>x. evolves R (f x)) \<Longrightarrow> evolves R (bindS m f)"
  unfolding evolves_def bindS_def
  by (auto split: prod.splits sum.splits) (metis R_trans snd_conv)+

lemma ev_handle: "evolves R m \<Longrightarrow> (\<And>e. evolves R (h e)) \<Longrightarrow> evolves R (handle m h)"
  unfolding evolves_def handle_def
  by (auto split: prod.splits sum.splits) (metis R_trans snd_conv)+

lemma ev_finally: "evolves R m \<Longrightarrow> (\<And>s. R s (f s)) \<Longrightarrow> evolves R (finally_do m f)"
  unfolding evolves_def finally_do_def
  by (auto split: prod.splits) (metis R_trans snd_conv)

lemma ev_if: "(b \<Longrightarrow> evolves R m) \<Longrightarrow> (\<not> b \<Longrightarrow> evolves R n) \<Longrightarrow> evolves R (if b then m else n)"
  by simp

lemma ev_case_option:
  "(x = None \<Longrightarrow> evolves R m) \<Longrightarrow> (\<And>y. x = Some y \<Longrightarrow> evolves R (f y)) \<Longrightarrow>
   evolves R (case x of None \<Rightarrow> m | Some y \<Rightarrow> f y)"
  by (cases x) auto

lemma ev_case_sum:
  "(\<And>e. x = Inl e \<Longrightarrow> evolves R (f e)) \<Longrightarrow> (\<And>y. x = Inr y \<Longrightarrow> evolves R (g y)) \<Longrightarrow>
   evolves R (case x of Inl e \<Rightarrow> f e | Inr y \<Rightarrow> g y)"
  by (cases x) auto

lemma ev_for_each:
  "(\<And>x. x \<in> set xs \<Longrightarrow> evolves R (body x)) \<Longrightarrow> evolves R (for_each xs body)"
  by (induction xs) (auto intro!: ev_pure ev_bindS)

lemmas ev_rules = ev_pure ev_bindS ev_handle ev_if ev_case_option ev_case_sum ev_for_each

end

section \<open>Clocks\<close>

type_synonym instant = int

datatype py_datetime = Aware instant | Naive int

text \<open>Whole seconds as a span of microseconds, \<^verbatim>\<open>timedelta(seconds=n)\<close>.\<close>

definition seconds :: "int \<Rightarrow> int" where
  "seconds n = n * 1000000"

definition minutes :: "int \<Rightarrow> int" where
  "minutes n = seconds (60 * n)"

text \<open>
  \<open>aware\<close> is the guard of the services' \<^verbatim>\<open>_now\<close>: a clock without timezone is refused.
\<close>

definition aware :: "string \<Rightarrow> py_datetime \<Rightarrow> instant result" where
  "aware message t = (case t of Aware i \<Rightarrow> Inr i | Naive _ \<Rightarrow> raise PyValueError message)"

lemma aware_Aware [simp]: "aware m (Aware i) = Inr i"
  by (simp add: aware_def)

end
