(* ===== verification/OpStore.thy ===== *)
theory OpStore
  imports Planner Sanitize Effects
begin

text \<open>
  \<^verbatim>\<open>OperationStore\<close> of \<^verbatim>\<open>manager/operation_engine.py\<close>: the durable lifecycle operations and their
  events. The table \<^verbatim>\<open>lifecycle_operations\<close> is the list of its rows in rowid order, each a key, the
  state column and the payload document; \<^verbatim>\<open>lifecycle_events\<close> is the list of its rows. \<open>payload\<close> is
  \<^verbatim>\<open>_payload\<close>: of the fields of a document only the caller-supplied actor is free text (ids are uuids,
  components match the identifier pattern, the other texts are literals of the program that contain
  nothing sensitive), so it is the only field that sanitizing can change.
\<close>

datatype op_state =
  Queued | Running | Cancelling | Succeeded | Failed | TimedOut | Cancelled | Interrupted

definition TERMINAL_STATES :: "op_state list" where
  "TERMINAL_STATES = [Succeeded, Failed, TimedOut, Cancelled, Interrupted]"

definition active :: "op_state \<Rightarrow> bool" where
  "active st \<longleftrightarrow> st \<in> {Queued, Running, Cancelling}"

record current_step =
  cu_number :: nat
  cu_component :: string
  cu_operation :: string
  cu_attempt :: int

record op_doc =
  od_id :: string
  od_operation :: string
  od_components :: "string list"
  od_requested :: "string list"
  od_actor :: string
  od_state :: op_state
  od_created :: instant
  od_updated :: instant
  od_current :: "current_step option"
  od_completed :: nat
  od_total :: nat
  od_retry_of :: "string option"
  od_error :: "string option"
  od_rec_required :: bool
  od_rec_boundary :: recovery
  od_rec_next :: "string option"
  od_workflow :: "string option"
  od_profile :: "string option"
  od_lab_action :: "string option"
  od_selected :: "string option"

datatype op_event =
    StepSucceeded string string int instant
  | AttemptFailed string string int bool instant
  | StepResumed string string instant
  | CancellationRequested string instant
  | ManagerRestarted instant

record op_store =
  os_rows :: "(string \<times> op_state \<times> op_doc) list"
  os_events :: "(string \<times> op_event) list"

definition payload :: "op_doc \<Rightarrow> op_doc" where
  "payload d = d\<lparr>od_actor := redact_text (od_actor d)\<rparr>"

fun event_payload :: "op_event \<Rightarrow> op_event" where
  "event_payload (CancellationRequested actor at) = CancellationRequested (redact_text actor) at"
| "event_payload e = e"

section \<open>Statements\<close>

definition st_create :: "op_doc \<Rightarrow> op_store \<Rightarrow> op_store result" where
  "st_create d st =
     (if od_id d \<in> fst ` set (os_rows st)
      then raise IntegrityError ''UNIQUE constraint failed: lifecycle_operations.id''
      else Inr (st\<lparr>os_rows := os_rows st @ [(od_id d, od_state d, payload d)]\<rparr>))"

definition upd_row :: "'k \<Rightarrow> 'v \<Rightarrow> 'k \<times> 'v \<Rightarrow> 'k \<times> 'v" where
  "upd_row i v r = (if fst r = i then (i, v) else r)"

definition st_update :: "op_doc \<Rightarrow> op_store \<Rightarrow> op_store" where
  "st_update d st =
     st\<lparr>os_rows := map (upd_row (od_id d) (od_state d, payload d)) (os_rows st)\<rparr>"

definition st_get :: "string \<Rightarrow> op_store \<Rightarrow> op_doc result" where
  "st_get k st =
     (case map_of (os_rows st) k of
        None \<Rightarrow> raise OperationNotFound ''operation was not found''
      | Some (c, p) \<Rightarrow> Inr p)"

definition st_events :: "string \<Rightarrow> op_store \<Rightarrow> op_event list" where
  "st_events k st = map snd (filter (\<lambda>(i, e). i = k) (os_events st))"

definition st_event :: "string \<Rightarrow> op_event \<Rightarrow> op_store \<Rightarrow> op_store" where
  "st_event k e st = st\<lparr>os_events := os_events st @ [(k, event_payload e)]\<rparr>"

definition active_components :: "op_store \<Rightarrow> string list" where
  "active_components st =
     concat (map (\<lambda>(k, c, p). if active c then od_components p else []) (os_rows st))"

text \<open>
  \<^verbatim>\<open>ORDER BY json_extract(payload, '$.updatedAt')\<close> compares the texts of \<^verbatim>\<open>isoformat\<close>, which writes no
  fraction when the microseconds are zero: within a second, the text \<^verbatim>\<open>...05Z\<close> comes after every
  \<^verbatim>\<open>...05.dddddd\<close>\<^verbatim>\<open>Z\<close>, because a dot sorts before the letter.
\<close>

definition text_rank :: "instant \<Rightarrow> int" where
  "text_rank t = (if t mod 1000000 = 0 then t + 999999 else t - 1)"

definition recent :: "int \<Rightarrow> op_store \<Rightarrow> op_doc list" where
  "recent limit st =
     take (nat (max 0 (min limit 100)))
       (sort_key (\<lambda>p. - text_rank (od_updated p)) (map (\<lambda>(k, c, p). p) (os_rows st)))"

section \<open>Restart\<close>

definition interrupted_recovery :: "op_doc \<Rightarrow> op_doc" where
  "interrupted_recovery d =
     (let operation = (case od_current d of None \<Rightarrow> od_operation d | Some cu \<Rightarrow> cu_operation cu);
          boundary = (case map_of RECOVERY_CLASS_BY_OPERATION operation of
                        None \<Rightarrow> Irreversible | Some r \<Rightarrow> r)
      in d\<lparr>od_rec_required := True, od_rec_boundary := boundary,
           od_rec_next := Some (''Review retained evidence and authoritative health before retrying; ''
             @ ''a Manager restart does not prove rollback.'')\<rparr>)"

fun interrupt_row :: "instant \<Rightarrow> string \<times> op_state \<times> op_doc \<Rightarrow> string \<times> op_state \<times> op_doc" where
  "interrupt_row now (k, c, p) =
     (if active c
      then (k, Interrupted, p\<lparr>od_state := Interrupted,
              od_error := Some ''Manager restarted before the operation completed'',
              od_updated := now\<rparr>)
      else (k, c, p))"

fun needs_recovery :: "string \<times> op_state \<times> op_doc \<Rightarrow> bool" where
  "needs_recovery (k, c, p) \<longleftrightarrow> c = Interrupted \<and> \<not> od_rec_required p"

fun recover_row :: "string \<times> op_state \<times> op_doc \<Rightarrow> string \<times> op_state \<times> op_doc" where
  "recover_row (k, c, p) = (k, c, payload (interrupted_recovery p))"

definition startup :: "instant \<Rightarrow> op_store \<Rightarrow> op_store" where
  "startup now st =
     (let rows = map (interrupt_row now) (os_rows st)
      in \<lparr>os_rows = map (\<lambda>r. if needs_recovery r then recover_row r else r) rows,
          os_events = os_events st
            @ map (\<lambda>(k, c, p). (k, ManagerRestarted (od_updated p))) (filter needs_recovery rows)\<rparr>)"

section \<open>Lemmas\<close>

definition rows_ok :: "op_store \<Rightarrow> bool" where
  "rows_ok st \<longleftrightarrow> distinct (map fst (os_rows st))
     \<and> (\<forall>(k, c, p)\<in>set (os_rows st). od_id p = k \<and> od_state p = c)"

lemma payload_simps [simp]:
  "od_id (payload d) = od_id d" "od_state (payload d) = od_state d"
  "od_components (payload d) = od_components d" "od_completed (payload d) = od_completed d"
  "od_rec_required (payload d) = od_rec_required d" "od_updated (payload d) = od_updated d"
  "od_rec_boundary (payload d) = od_rec_boundary d" "od_error (payload d) = od_error d"
  "od_current (payload d) = od_current d" "od_operation (payload d) = od_operation d"
  "od_requested (payload d) = od_requested d" "od_workflow (payload d) = od_workflow d"
  by (simp_all add: payload_def)

lemma interrupted_simps [simp]:
  "od_id (interrupted_recovery d) = od_id d" "od_state (interrupted_recovery d) = od_state d"
  "od_rec_required (interrupted_recovery d)"
  "od_components (interrupted_recovery d) = od_components d"
  "od_updated (interrupted_recovery d) = od_updated d"
  "od_error (interrupted_recovery d) = od_error d"
  "od_completed (interrupted_recovery d) = od_completed d"
  by (simp_all add: interrupted_recovery_def Let_def)

lemma keys_update [simp]: "map fst (os_rows (st_update d st)) = map fst (os_rows st)"
  by (simp add: st_update_def upd_row_def)

lemma map_of_upd_row:
  "map_of (map (upd_row i v) rows) k =
     (if k = i \<and> map_of rows k \<noteq> None then Some v else map_of rows k)"
  by (induction rows) (auto simp: upd_row_def)

lemma st_get_update:
  "st_get k (st_update d st) =
     (if k = od_id d \<and> map_of (os_rows st) k \<noteq> None then Inr (payload d) else st_get k st)"
  by (simp add: st_get_def st_update_def map_of_upd_row split: option.splits)

lemma st_get_create:
  "st_create d st = Inr st' \<Longrightarrow> st_get k st' = (if k = od_id d then Inr (payload d) else st_get k st)"
proof -
  assume "st_create d st = Inr st'"
  then have new: "od_id d \<notin> fst ` set (os_rows st)"
    and st': "st' = st\<lparr>os_rows := os_rows st @ [(od_id d, od_state d, payload d)]\<rparr>"
    by (auto simp: st_create_def split: if_splits)
  from new have "map_of (os_rows st) (od_id d) = None" by (simp add: map_of_eq_None_iff)
  then show ?thesis by (auto simp: st_get_def st' map_add_def split: option.splits)
qed

lemma rows_ok_update: "rows_ok st \<Longrightarrow> rows_ok (st_update d st)"
proof -
  assume ok: "rows_ok st"
  then have "distinct (map fst (os_rows (st_update d st)))" by (simp add: rows_ok_def)
  moreover have "\<forall>(k, c, p)\<in>set (os_rows (st_update d st)). od_id p = k \<and> od_state p = c"
    using ok by (auto simp: rows_ok_def st_update_def upd_row_def split: if_splits)
  ultimately show ?thesis by (simp add: rows_ok_def)
qed

lemma rows_ok_create: "rows_ok st \<Longrightarrow> st_create d st = Inr st' \<Longrightarrow> rows_ok st'"
  by (auto simp: rows_ok_def st_create_def split: if_splits)

lemma rows_ok_event [simp]: "rows_ok (st_event k e st) = rows_ok st"
  by (simp add: rows_ok_def st_event_def)

text \<open>One row before and after a restart.\<close>

definition restart_row :: "instant \<Rightarrow> string \<times> op_state \<times> op_doc \<Rightarrow> string \<times> op_state \<times> op_doc" where
  "restart_row now r =
     (if needs_recovery (interrupt_row now r) then recover_row (interrupt_row now r)
      else interrupt_row now r)"

lemma rows_startup: "os_rows (startup now st) = map (restart_row now) (os_rows st)"
  by (simp add: startup_def restart_row_def Let_def comp_def)

lemma restart_row_cases:
  "\<not> active c \<Longrightarrow> c \<noteq> Interrupted \<or> od_rec_required p \<Longrightarrow> restart_row now (k, c, p) = (k, c, p)"
  "\<not> active c \<Longrightarrow> c = Interrupted \<Longrightarrow> \<not> od_rec_required p \<Longrightarrow>
     restart_row now (k, c, p) = (k, c, payload (interrupted_recovery p))"
  "active c \<Longrightarrow> \<exists>p'. restart_row now (k, c, p) = (k, Interrupted, p') \<and> od_id p' = od_id p
     \<and> od_state p' = Interrupted \<and> od_rec_required p' \<and> od_updated p' = now
     \<and> od_error p' = Some ''Manager restarted before the operation completed''
     \<and> od_components p' = od_components p \<and> od_completed p' = od_completed p"
  by (auto simp: restart_row_def active_def)

lemma restart_row_id: "od_id p = k \<and> od_state p = c \<Longrightarrow> restart_row now (k, c, p) = (k', c', p') \<Longrightarrow>
    k' = k \<and> od_id p' = k' \<and> od_state p' = c'"
  using restart_row_cases[where c = c and p = p and now = now and k = k] by (cases "active c"; cases "c = Interrupted"; cases "od_rec_required p")
    auto

lemma restart_row_key: "fst (restart_row now r) = fst r"
  by (cases r) (simp add: restart_row_def)

lemma rows_ok_startup: "rows_ok st \<Longrightarrow> rows_ok (startup now st)"
proof -
  assume ok: "rows_ok st"
  have "map fst (os_rows (startup now st)) = map fst (os_rows st)"
    by (simp add: rows_startup restart_row_key)
  moreover have "od_id p' = k' \<and> od_state p' = c'"
    if row: "(k', c', p') \<in> set (os_rows (startup now st))" for k' c' p'
  proof -
    from row obtain r where r: "r \<in> set (os_rows st)" "restart_row now r = (k', c', p')"
      unfolding rows_startup by (auto simp del: split_paired_All)
    obtain k c p where "r = (k, c, p)" by (cases r)
    with r ok restart_row_id[where p = p and k = k and c = c and now = now and k' = k' and c' = c' and p' = p'] show ?thesis by (auto simp: rows_ok_def)
  qed
  ultimately show ?thesis using ok by (auto simp: rows_ok_def)
qed

section \<open>Properties\<close>

definition restarted ::
    "instant \<Rightarrow> string \<times> op_state \<times> op_doc \<Rightarrow> string \<times> op_state \<times> op_doc \<Rightarrow> bool" where
  "restarted now = (\<lambda>(k, c, p) (k', c', p').
     k' = k \<and> \<not> active c'
     \<and> (if active c
        then c' = Interrupted \<and> od_rec_required p' \<and> od_updated p' = now
          \<and> od_error p' = Some ''Manager restarted before the operation completed''
          \<and> od_components p' = od_components p \<and> od_completed p' = od_completed p
        else c' = c \<and> (if c = Interrupted then od_rec_required p' else p' = p)))"

text \<open>
  After a restart nothing is left running: every operation that was queued, running or cancelling
  is interrupted, with the fixed error, its progress kept and recovery marked as required; every row
  that had ended in another way is unchanged; and a second restart changes nothing at all.
\<close>

theorem startup_interrupts:
  "list_all2 (restarted now) (os_rows st) (os_rows (startup now st))
    \<and> startup later (startup now st) = startup now st"
proof -
  have row: "restarted now (k, c, p) (restart_row now (k, c, p))" for k c p
    using restart_row_cases[where c = c and p = p and now = now and k = k]
    by (cases "active c"; cases "c = Interrupted"; cases "od_rec_required p")
      (auto simp: restarted_def active_def)
  have fix_row: "interrupt_row later (restart_row now (k, c, p)) = restart_row now (k, c, p)
      \<and> \<not> needs_recovery (restart_row now (k, c, p))" for k c p
    using restart_row_cases[where c = c and p = p and now = now and k = k]
    by (cases "active c"; cases "c = Interrupted"; cases "od_rec_required p")
      (auto simp: active_def)
  have same: "map (interrupt_row later) (os_rows (startup now st)) = os_rows (startup now st)"
    using fix_row by (auto simp: rows_startup)
  moreover have none: "filter needs_recovery (os_rows (startup now st)) = []"
    using fix_row by (auto simp: rows_startup filter_empty_conv)
  moreover have "map (\<lambda>r. if needs_recovery r then recover_row r else r) (os_rows (startup now st))
      = os_rows (startup now st)"
    using none by (intro map_idI) (simp add: filter_empty_conv)
  ultimately have "startup later (startup now st) = startup now st"
    unfolding startup_def[of later] Let_def by (simp only: same none) simp
  moreover have "list_all2 (restarted now) (os_rows st) (os_rows (startup now st))"
    using row by (auto simp: rows_startup list_all2_map2 intro!: list_all2_same[THEN iffD2])
  ultimately show ?thesis by blast
qed

text \<open>
  \<^verbatim>\<open>recent\<close> can list an older operation before a newer one: two operations updated half a second
  apart, the first exactly on a second, come out with the older one first, because the stored texts
  are compared and the text without a fraction is the greater one.
\<close>

theorem recent_orders_by_text:
  assumes "od_updated old = seconds n" and "od_updated new = seconds n + 500000"
    and "od_id old \<noteq> od_id new"
  shows "recent 2 \<lparr>os_rows = [(od_id new, Queued, new), (od_id old, Queued, old)], os_events = []\<rparr>
    = [old, new]"
  using assms by (simp add: recent_def text_rank_def seconds_def)

definition demo_doc :: "string \<Rightarrow> instant \<Rightarrow> op_doc" where
  "demo_doc k t = \<lparr>od_id = k, od_operation = ''start'', od_components = [''db''],
     od_requested = [''db''], od_actor = ''op'', od_state = Queued, od_created = t, od_updated = t,
     od_current = None, od_completed = 0, od_total = 1, od_retry_of = None, od_error = None,
     od_rec_required = False, od_rec_boundary = Reversible, od_rec_next = None, od_workflow = None,
     od_profile = None, od_lab_action = None, od_selected = None\<rparr>"

theorem recent_orders_by_text_witness:
  "recent 2 \<lparr>os_rows = [(od_id (demo_doc ''b'' (seconds 7 + 500000)), Queued,
                          demo_doc ''b'' (seconds 7 + 500000)),
                        (od_id (demo_doc ''a'' (seconds 7)), Queued, demo_doc ''a'' (seconds 7))],
             os_events = []\<rparr>
    = [demo_doc ''a'' (seconds 7), demo_doc ''b'' (seconds 7 + 500000)]"
  by (rule recent_orders_by_text) (simp_all add: demo_doc_def)

end
