(* ===== verification/Ledger.thy ===== *)
theory Ledger
  imports Effects
begin

text \<open>
  The contract of a single-use ledger: a table of tokens (approvals, callbacks, upgrade plans) from
  which each token can be spent at most once, whatever the interleaving of the calls. The stores
  promise three laws: spending burns the token, a burnt token stays burnt under every event, and a
  burnt token is not spent. Every store of the manager that hands out single-use authority
  interprets the locale on its own atomic store calls.
\<close>

fun run_events :: "('e \<Rightarrow> 's \<Rightarrow> 's) \<Rightarrow> 'e list \<Rightarrow> 's \<Rightarrow> 's" where
  "run_events step [] s = s"
| "run_events step (e # es) s = run_events step es (step e s)"

fun spend_count ::
    "('e \<Rightarrow> 's \<Rightarrow> 's) \<Rightarrow> ('e \<Rightarrow> 's \<Rightarrow> 'k \<Rightarrow> bool) \<Rightarrow> 'e list \<Rightarrow> 's \<Rightarrow> 'k \<Rightarrow> nat" where
  "spend_count step spends [] s k = 0"
| "spend_count step spends (e # es) s k =
     (if spends e s k then 1 else 0) + spend_count step spends es (step e s) k"

lemma run_events_append: "run_events step (es @ fs) s = run_events step fs (run_events step es s)"
  by (induction es arbitrary: s) auto

lemma spend_count_append:
  "spend_count step spends (es @ fs) s k =
     spend_count step spends es s k + spend_count step spends fs (run_events step es s) k"
  by (induction es arbitrary: s) auto

locale single_use_ledger =
  fixes step :: "'e \<Rightarrow> 's \<Rightarrow> 's"
    and legal :: "'e \<Rightarrow> bool"
    and spends :: "'e \<Rightarrow> 's \<Rightarrow> 'k \<Rightarrow> bool"
    and burnt :: "'s \<Rightarrow> 'k \<Rightarrow> bool"
  assumes spend_burns: "legal e \<Longrightarrow> spends e s k \<Longrightarrow> burnt (step e s) k"
    and burnt_stays: "legal e \<Longrightarrow> burnt s k \<Longrightarrow> burnt (step e s) k"
    and burnt_unspendable: "legal e \<Longrightarrow> burnt s k \<Longrightarrow> \<not> spends e s k"
begin

lemma burnt_run: "list_all legal es \<Longrightarrow> burnt s k \<Longrightarrow> burnt (run_events step es s) k"
  by (induction es arbitrary: s) (auto intro: burnt_stays)

lemma burnt_count: "list_all legal es \<Longrightarrow> burnt s k \<Longrightarrow> spend_count step spends es s k = 0"
  by (induction es arbitrary: s) (auto dest: burnt_unspendable burnt_stays)

lemma spent_at_most_once: "list_all legal es \<Longrightarrow> spend_count step spends es s k \<le> 1"
proof (induction es arbitrary: s)
  case (Cons e es)
  then show ?case
    using spend_burns[of e s k] burnt_count[of es "step e s" k] by auto
qed simp

lemma spent_then_burnt:
  "list_all legal es \<Longrightarrow> spend_count step spends es s k = 1 \<Longrightarrow> burnt (run_events step es s) k"
proof (induction es arbitrary: s)
  case (Cons e es)
  then show ?case
    using spend_burns[of e s k] burnt_run[of es "step e s" k] by (auto split: if_splits)
qed simp

end

end
