(* ===== verification/Authorization.thy ===== *)
theory Authorization
  imports Ledger Json
begin

text \<open>
  Risk-based single-use approvals, \<^verbatim>\<open>manager/authorization.py\<close>: identities, plans with their digest,
  the approval store with its audit history, and the service that requests, approves, revokes and
  consumes approvals. The SQLite table \<^verbatim>\<open>operation_approvals\<close> is a map from ids to rows of a state
  column and a payload document. \<open>hashlib.sha256\<close> and \<open>uuid.uuid4\<close> are fields of the environment
  \<open>auth_env\<close>, like the injected clock.
\<close>

section \<open>Risk, identities, plans\<close>

datatype risk = Routine | Disruptive | High

fun risk_text :: "risk \<Rightarrow> string" where
  "risk_text Routine = ''routine''"
| "risk_text Disruptive = ''disruptive''"
| "risk_text High = ''high''"

definition RISK_BY_OPERATION :: "(string \<times> risk) list" where
  "RISK_BY_OPERATION =
     [(''install'', Routine), (''configure'', Routine), (''start'', Routine),
      (''stop'', Disruptive), (''restart'', Disruptive),
      (''upgrade'', High), (''uninstall'', High), (''delete-data'', High),
      (''replace-secret'', High)]"

definition approval_required :: "risk \<Rightarrow> bool" where
  "approval_required r \<longleftrightarrow> r \<in> {Disruptive, High}"

definition HIGH_RISK_SOURCES :: "string list" where
  "HIGH_RISK_SOURCES = [''local-cli'', ''web'']"

definition HIGH_RISK_CONFIRMATION :: string where
  "HIGH_RISK_CONFIRMATION = ''AUTHORIZE HIGH-RISK OPERATION''"

record identity =
  id_actor :: string
  id_source :: string
  id_session :: string
  id_authenticated :: instant

definition mk_identity :: "string \<Rightarrow> string \<Rightarrow> string \<Rightarrow> py_datetime \<Rightarrow> identity result" where
  "mk_identity actor source session at =
     (if actor = [] \<or> length actor > 128
         \<or> source \<notin> set [''local-cli'', ''web'', ''telegram'']
         \<or> session = [] \<or> length session > 128
      then raise PyValueError ''identity is incomplete or unsupported''
      else case aware ''identity is incomplete or unsupported'' at of
             Inl e \<Rightarrow> Inl e
           | Inr t \<Rightarrow> Inr \<lparr>id_actor = actor, id_source = source, id_session = session,
                           id_authenticated = t\<rparr>)"

record op_plan =
  pl_operation :: string
  pl_targets :: "string list"
  pl_state :: "(string \<times> string) list"

definition plan_risk :: "op_plan \<Rightarrow> risk result" where
  "plan_risk p =
     (case map_of RISK_BY_OPERATION (pl_operation p) of
        None \<Rightarrow> raise AuthorizationError ''operation has no authorization policy''
      | Some r \<Rightarrow> Inr r)"

definition plan_document :: "op_plan \<Rightarrow> json" where
  "plan_document p =
     JObj [(''operation'', JStr (pl_operation p)),
           (''targets'', JList (map JStr (pl_targets p))),
           (''currentState'', JObj (map (\<lambda>(k, v). (k, JStr v)) (sort_key fst (pl_state p))))]"

definition plan_digest :: "(string \<Rightarrow> string) \<Rightarrow> op_plan \<Rightarrow> string" where
  "plan_digest sha256 p = ''sha256:'' @ sha256 (dumps (plan_document p))"

section \<open>The approval store\<close>

datatype approval_state = Pending | Approved | Consumed | Revoked

record approval =
  ap_id :: string
  ap_state :: approval_state
  ap_actor :: string
  ap_source :: string
  ap_session :: string
  ap_risk :: risk
  ap_operation :: string
  ap_targets :: "string list"
  ap_digest :: string
  ap_created :: instant
  ap_expires :: instant
  ap_decided :: "instant option"
  ap_consumed :: "instant option"
  ap_revoked :: "instant option"

record audit_row =
  au_at :: instant
  au_approval :: "string option"
  au_action :: string
  au_actor :: string
  au_outcome :: string
  au_reason :: string

type_synonym approval_table = "string \<rightharpoonup> approval_state \<times> approval"

record auth_state =
  approvals :: approval_table
  audit :: "audit_row list"
  clock_reads :: nat
  ids_drawn :: nat

record auth_env =
  ae_clock :: "nat \<Rightarrow> py_datetime"
  ae_uuid :: "nat \<Rightarrow> string"
  ae_sha256 :: "string \<Rightarrow> string"
  ae_ttl :: int
  ae_reauth_age :: int

text \<open>The defaults of \<^verbatim>\<open>AuthorizationService.__init__\<close>.\<close>

definition default_env ::
    "(nat \<Rightarrow> py_datetime) \<Rightarrow> (nat \<Rightarrow> string) \<Rightarrow> (string \<Rightarrow> string) \<Rightarrow> auth_env" where
  "default_env clock uuid sha =
     \<lparr>ae_clock = clock, ae_uuid = uuid, ae_sha256 = sha,
      ae_ttl = minutes 10, ae_reauth_age = minutes 5\<rparr>"

text \<open>\<^verbatim>\<open>UPDATE ... WHERE id = ? AND state = ?\<close>: the table after it, and whether it changed a row.\<close>

definition cas_row ::
    "string \<Rightarrow> approval_state \<Rightarrow> approval_state \<Rightarrow> approval \<Rightarrow> approval_table
       \<Rightarrow> approval_table \<times> bool" where
  "cas_row aid expected new doc tab =
     (case tab aid of
        Some (col, _) \<Rightarrow> if col = expected then (tab(aid \<mapsto> (new, doc)), True) else (tab, False)
      | None \<Rightarrow> (tab, False))"

definition store_approval :: "string \<Rightarrow> (auth_state, approval) proc" where
  "store_approval aid =
     (\<lambda>s. case approvals s aid of
            None \<Rightarrow> (raise AuthorizationError ''approval was not found'', s)
          | Some (_, doc) \<Rightarrow> (Inr doc, s))"

definition store_insert :: "approval \<Rightarrow> (auth_state, unit) proc" where
  "store_insert doc =
     (\<lambda>s. if approvals s (ap_id doc) \<noteq> None
          then (raise IntegrityError ''UNIQUE constraint failed: operation_approvals.id'', s)
          else (Inr (), s\<lparr>approvals := (approvals s)(ap_id doc \<mapsto> (ap_state doc, doc))\<rparr>))"

definition store_transition ::
    "string \<Rightarrow> approval_state \<Rightarrow> approval_state \<Rightarrow> approval \<Rightarrow> (auth_state, bool) proc" where
  "store_transition aid expected new doc =
     (\<lambda>s. case cas_row aid expected new doc (approvals s) of
            (tab, changed) \<Rightarrow> (Inr changed, s\<lparr>approvals := tab\<rparr>))"

definition store_record :: "audit_row \<Rightarrow> (auth_state, unit) proc" where
  "store_record row = modify (\<lambda>s. s\<lparr>audit := audit s @ [row]\<rparr>)"

section \<open>The service\<close>

definition now_utc :: "auth_env \<Rightarrow> (auth_state, instant) proc" where
  "now_utc env =
     (\<lambda>s. (aware ''authorization clock must be timezone-aware'' (ae_clock env (clock_reads s)),
           s\<lparr>clock_reads := Suc (clock_reads s)\<rparr>))"

definition draw_uuid :: "auth_env \<Rightarrow> (auth_state, string) proc" where
  "draw_uuid env = (\<lambda>s. (Inr (ae_uuid env (ids_drawn s)), s\<lparr>ids_drawn := Suc (ids_drawn s)\<rparr>))"

definition audit_event ::
    "auth_env \<Rightarrow> string option \<Rightarrow> string \<Rightarrow> string \<Rightarrow> string \<Rightarrow> string \<Rightarrow> (auth_state, unit) proc"
    where
  "audit_event env aid action actor outcome reason =
     bindS (now_utc env) (\<lambda>t.
       store_record \<lparr>au_at = t, au_approval = aid, au_action = action, au_actor = actor,
                     au_outcome = outcome, au_reason = reason\<rparr>)"

definition request :: "auth_env \<Rightarrow> op_plan \<Rightarrow> identity \<Rightarrow> (auth_state, approval) proc" where
  "request env plan idn =
     bindS (now_utc env) (\<lambda>now.
     bindS (draw_uuid env) (\<lambda>aid.
     bindS (lift (plan_risk plan)) (\<lambda>risk.
       let doc = \<lparr>ap_id = aid, ap_state = Pending, ap_actor = id_actor idn,
                  ap_source = id_source idn, ap_session = id_session idn, ap_risk = risk,
                  ap_operation = pl_operation plan, ap_targets = pl_targets plan,
                  ap_digest = plan_digest (ae_sha256 env) plan, ap_created = now,
                  ap_expires = now + ae_ttl env, ap_decided = None, ap_consumed = None,
                  ap_revoked = None\<rparr>
       in thenS (store_insert doc)
         (thenS (audit_event env (Some aid) ''request'' (id_actor idn) ''accepted'' (risk_text risk))
           (ret doc)))))"

definition decision_reason ::
    "auth_env \<Rightarrow> approval \<Rightarrow> identity \<Rightarrow> instant \<Rightarrow> string option \<Rightarrow> string option" where
  "decision_reason env doc idn now confirmation =
     (if ap_state doc \<noteq> Pending then Some ''approval is no longer pending''
      else if now \<ge> ap_expires doc then Some ''approval has expired''
      else if ap_actor doc \<noteq> id_actor idn \<or> ap_session doc \<noteq> id_session idn
        then Some ''approval actor or session does not match''
      else if ap_risk doc = High then
        (if id_source idn \<notin> set HIGH_RISK_SOURCES
           then Some ''high-risk approval requires local CLI or Web UI''
         else if now - id_authenticated idn > ae_reauth_age env
           then Some ''high-risk approval requires fresh authentication''
         else if confirmation \<noteq> Some HIGH_RISK_CONFIRMATION
           then Some ''high-risk confirmation did not match''
         else None)
      else None)"

definition consumption_reason ::
    "auth_env \<Rightarrow> approval \<Rightarrow> op_plan \<Rightarrow> identity \<Rightarrow> instant \<Rightarrow> string option" where
  "consumption_reason env doc plan idn now =
     (if ap_state doc \<noteq> Approved then Some ''approval is not approved''
      else if now \<ge> ap_expires doc then Some ''approval has expired''
      else if ap_actor doc \<noteq> id_actor idn \<or> ap_session doc \<noteq> id_session idn
        then Some ''approval actor or session does not match''
      else if ap_source doc \<noteq> id_source idn then Some ''approval source does not match''
      else if ap_digest doc \<noteq> plan_digest (ae_sha256 env) plan
        then Some ''operation plan or current state changed''
      else None)"

definition approve ::
    "auth_env \<Rightarrow> string \<Rightarrow> identity \<Rightarrow> string option \<Rightarrow> (auth_state, approval) proc" where
  "approve env aid idn confirmation =
     bindS (store_approval aid) (\<lambda>doc.
     bindS (now_utc env) (\<lambda>now.
       case decision_reason env doc idn now confirmation of
         Some reason \<Rightarrow>
           thenS (audit_event env (Some aid) ''approve'' (id_actor idn) ''denied'' reason)
             (fail AuthorizationError reason)
       | None \<Rightarrow>
           (let doc' = doc\<lparr>ap_state := Approved, ap_decided := Some now\<rparr>
            in bindS (store_transition aid Pending Approved doc') (\<lambda>changed.
                 if \<not> changed
                 then thenS (audit_event env (Some aid) ''approve'' (id_actor idn) ''denied''
                               ''not pending'')
                        (fail AuthorizationError ''approval is no longer pending'')
                 else thenS (audit_event env (Some aid) ''approve'' (id_actor idn) ''accepted''
                               (risk_text (ap_risk doc)))
                        (ret doc')))))"

definition revoke :: "auth_env \<Rightarrow> string \<Rightarrow> identity \<Rightarrow> (auth_state, approval) proc" where
  "revoke env aid idn =
     bindS (store_approval aid) (\<lambda>doc.
       if ap_actor doc \<noteq> id_actor idn
       then thenS (audit_event env (Some aid) ''revoke'' (id_actor idn) ''denied'' ''actor mismatch'')
              (fail AuthorizationError ''approval actor does not match'')
       else if ap_state doc \<notin> {Pending, Approved}
       then fail AuthorizationError ''approval can no longer be revoked''
       else bindS (now_utc env) (\<lambda>now.
         let doc' = doc\<lparr>ap_state := Revoked, ap_revoked := Some now\<rparr>
         in bindS (store_transition aid (ap_state doc) Revoked doc') (\<lambda>changed.
              if \<not> changed
              then fail AuthorizationError ''approval state changed concurrently''
              else thenS (audit_event env (Some aid) ''revoke'' (id_actor idn) ''accepted'' ''revoked'')
                     (ret doc'))))"

text \<open>
  \<open>authorize\<close> with an approval: the state is observed again (\<open>provider\<close> is the outcome of the
  caller's state provider, \<open>None\<close> when there is none), the approval is checked against the plan with
  that state (\<open>authorize_checked\<close>), and the row is moved from approved to consumed by a
  conditional update (\<open>authorize_commit\<close>).
\<close>

definition authorize_commit ::
    "auth_env \<Rightarrow> string \<Rightarrow> approval \<Rightarrow> identity \<Rightarrow> risk \<Rightarrow> (auth_state, unit) proc" where
  "authorize_commit env aid doc idn risk =
     bindS (now_utc env) (\<lambda>at.
     bindS (store_transition aid Approved Consumed
              (doc\<lparr>ap_state := Consumed, ap_consumed := Some at\<rparr>)) (\<lambda>changed.
       if \<not> changed
       then thenS (audit_event env (Some aid) ''authorize'' (id_actor idn) ''denied'' ''replay'')
              (fail AuthorizationError ''approval was already consumed or changed'')
       else audit_event env (Some aid) ''authorize'' (id_actor idn) ''accepted'' (risk_text risk)))"

definition authorize_checked ::
    "auth_env \<Rightarrow> string \<Rightarrow> approval \<Rightarrow> op_plan \<Rightarrow> identity \<Rightarrow> risk \<Rightarrow> (auth_state, unit) proc" where
  "authorize_checked env aid doc plan idn risk =
     bindS (now_utc env) (\<lambda>now.
       case consumption_reason env doc plan idn now of
         Some reason \<Rightarrow>
           thenS (audit_event env (Some aid) ''authorize'' (id_actor idn) ''denied'' reason)
             (fail AuthorizationError reason)
       | None \<Rightarrow> authorize_commit env aid doc idn risk)"

definition observed :: "op_plan \<Rightarrow> (string \<times> string) list result option
    \<Rightarrow> (string \<times> string) list result" where
  "observed plan provider = (case provider of None \<Rightarrow> Inr (pl_state plan) | Some r \<Rightarrow> r)"

definition authorize ::
    "auth_env \<Rightarrow> op_plan \<Rightarrow> identity \<Rightarrow> string option \<Rightarrow> (string \<times> string) list result option
       \<Rightarrow> (auth_state, unit) proc" where
  "authorize env plan idn approval_id provider =
     bindS (lift (plan_risk plan)) (\<lambda>risk.
       if \<not> approval_required risk
       then audit_event env None ''authorize'' (id_actor idn) ''accepted'' (risk_text risk)
       else case approval_id of
         None \<Rightarrow>
           thenS (audit_event env None ''authorize'' (id_actor idn) ''denied'' ''approval required'')
             (fail AuthorizationError ''operation requires approval'')
       | Some aid \<Rightarrow>
           bindS (store_approval aid) (\<lambda>doc.
             case observed plan provider of
               Inl _ \<Rightarrow>
                 thenS (audit_event env (Some aid) ''authorize'' (id_actor idn) ''denied''
                          ''state unavailable'')
                   (fail ApprovalUnavailable ''current target state is unavailable'')
             | Inr current \<Rightarrow>
                 authorize_checked env aid doc (plan\<lparr>pl_state := current\<rparr>) idn risk))"

section \<open>The ledger\<close>

text \<open>
  Every change of the table is one of two atomic store calls, an insert or a conditional update. The
  service only uses the legal ones: it inserts pending documents and moves rows forward.
\<close>

datatype store_event =
    Insert approval
  | Transition string approval_state approval_state approval

fun store_step :: "store_event \<Rightarrow> approval_table \<Rightarrow> approval_table" where
  "store_step (Insert doc) tab =
     (if tab (ap_id doc) = None then tab(ap_id doc \<mapsto> (ap_state doc, doc)) else tab)"
| "store_step (Transition aid expected new doc) tab = fst (cas_row aid expected new doc tab)"

fun legal_event :: "store_event \<Rightarrow> bool" where
  "legal_event (Insert doc) \<longleftrightarrow> ap_state doc = Pending"
| "legal_event (Transition aid expected new doc) \<longleftrightarrow>
     (expected, new) \<in> {(Pending, Approved), (Pending, Revoked), (Approved, Revoked),
                        (Approved, Consumed)}"

fun consumes :: "store_event \<Rightarrow> approval_table \<Rightarrow> string \<Rightarrow> bool" where
  "consumes (Insert doc) tab k \<longleftrightarrow> False"
| "consumes (Transition aid expected new doc) tab k \<longleftrightarrow>
     aid = k \<and> new = Consumed \<and> snd (cas_row aid expected new doc tab)"

definition closed_row :: "approval_table \<Rightarrow> string \<Rightarrow> bool" where
  "closed_row tab k \<longleftrightarrow> (case tab k of None \<Rightarrow> False | Some (col, _) \<Rightarrow> col \<in> {Consumed, Revoked})"

interpretation approvals: single_use_ledger store_step legal_event consumes closed_row
proof
  fix e tab k assume legal: "legal_event e"
  show "consumes e tab k \<Longrightarrow> closed_row (store_step e tab) k"
    using legal by (cases e) (auto simp: cas_row_def closed_row_def split: option.splits if_splits)
  show "closed_row tab k \<Longrightarrow> closed_row (store_step e tab) k"
    using legal by (cases e) (auto simp: cas_row_def closed_row_def split: option.splits if_splits)
  show "closed_row tab k \<Longrightarrow> \<not> consumes e tab k"
    using legal by (cases e) (auto simp: cas_row_def closed_row_def split: option.splits if_splits)
qed

definition ledger_moves :: "auth_state \<Rightarrow> auth_state \<Rightarrow> bool" where
  "ledger_moves s s' \<longleftrightarrow>
     (\<exists>es. list_all legal_event es \<and> approvals s' = run_events store_step es (approvals s))"

interpretation ledger: evolution ledger_moves
proof
  show "ledger_moves s s" for s
    by (auto simp: ledger_moves_def intro!: exI[of _ "[]"])
  show "ledger_moves s u" if "ledger_moves s t" "ledger_moves t u" for s t u
  proof -
    from that obtain es fs where "list_all legal_event (es @ fs)"
      and "approvals u = run_events store_step (es @ fs) (approvals s)"
      by (auto simp: ledger_moves_def run_events_append)
    then show ?thesis unfolding ledger_moves_def by blast
  qed
qed

definition audit_grows :: "auth_state \<Rightarrow> auth_state \<Rightarrow> bool" where
  "audit_grows s s' \<longleftrightarrow> (\<exists>rows. audit s' = audit s @ rows)"

interpretation history: evolution audit_grows
  by unfold_locales (auto simp: audit_grows_def)

lemma moves_insert: "ap_state doc = Pending \<Longrightarrow> evolves ledger_moves (store_insert doc)"
  unfolding evolves_def ledger_moves_def store_insert_def
  by (auto intro: exI[of _ "[]"] exI[of _ "[Insert doc]"])

lemma moves_transition:
  "legal_event (Transition aid e n doc) \<Longrightarrow> evolves ledger_moves (store_transition aid e n doc)"
  unfolding evolves_def ledger_moves_def store_transition_def
  by (auto split: prod.splits intro!: exI[of _ "[Transition aid e n doc]"])

lemma moves_silent:
  "evolves ledger_moves (now_utc env)" "evolves ledger_moves (draw_uuid env)"
  "evolves ledger_moves (store_approval aid)" "evolves ledger_moves (store_record row)"
  by (auto simp: evolves_def ledger_moves_def now_utc_def draw_uuid_def store_approval_def
      store_record_def intro!: exI[of _ "[]"] split: option.splits)

lemma moves_audit: "evolves ledger_moves (audit_event env aid act actor out why)"
  unfolding audit_event_def by (intro ledger.ev_rules moves_silent)

lemmas moves = ledger.ev_rules moves_silent moves_audit moves_insert moves_transition

lemma moves_request: "evolves ledger_moves (request env plan idn)"
  unfolding request_def Let_def by (intro moves) simp

lemma moves_approve: "evolves ledger_moves (approve env aid idn conf)"
  unfolding approve_def Let_def by (intro moves) simp

lemma moves_revoke: "evolves ledger_moves (revoke env aid idn)"
  unfolding revoke_def Let_def by (intro moves) auto

lemma moves_authorize: "evolves ledger_moves (authorize env plan idn aid provider)"
  unfolding authorize_def authorize_checked_def authorize_commit_def by (intro moves) simp

lemma grows_silent:
  "evolves audit_grows (now_utc env)" "evolves audit_grows (draw_uuid env)"
  "evolves audit_grows (store_approval aid)" "evolves audit_grows (store_record row)"
  "evolves audit_grows (store_insert doc)" "evolves audit_grows (store_transition aid e n doc)"
  by (auto simp: evolves_def audit_grows_def now_utc_def draw_uuid_def store_approval_def
      store_record_def store_insert_def store_transition_def split: option.splits prod.splits)

lemma grows_audit: "evolves audit_grows (audit_event env aid act actor out why)"
  unfolding audit_event_def by (intro history.ev_rules grows_silent)

lemmas grows = history.ev_rules grows_silent grows_audit

lemma grows_calls:
  "evolves audit_grows (request env plan idn)" "evolves audit_grows (approve env aid idn conf)"
  "evolves audit_grows (revoke env aid idn)" "evolves audit_grows (authorize env plan idn ao provider)"
  unfolding request_def approve_def revoke_def authorize_def authorize_checked_def
    authorize_commit_def Let_def by (intro grows)+

section \<open>The row invariant\<close>

text \<open>
  The state column agrees with the payload, the key with the id, the risk with the operation, and
  the decision times with the state.
\<close>

fun times_fit :: "approval \<Rightarrow> bool" where
  "times_fit doc \<longleftrightarrow>
     (case ap_state doc of
        Pending \<Rightarrow> ap_decided doc = None \<and> ap_consumed doc = None \<and> ap_revoked doc = None
      | Approved \<Rightarrow> ap_decided doc \<noteq> None \<and> ap_consumed doc = None \<and> ap_revoked doc = None
      | Consumed \<Rightarrow> ap_decided doc \<noteq> None \<and> ap_consumed doc \<noteq> None \<and> ap_revoked doc = None
      | Revoked \<Rightarrow> ap_consumed doc = None \<and> ap_revoked doc \<noteq> None)"

definition row_ok :: "string \<Rightarrow> approval_state \<times> approval \<Rightarrow> bool" where
  "row_ok k row \<longleftrightarrow>
     ap_id (snd row) = k \<and> ap_state (snd row) = fst row \<and> times_fit (snd row)
   \<and> map_of RISK_BY_OPERATION (ap_operation (snd row)) = Some (ap_risk (snd row))"

definition table_ok :: "auth_state \<Rightarrow> bool" where
  "table_ok s \<longleftrightarrow> (\<forall>k row. approvals s k = Some row \<longrightarrow> row_ok k row)"

lemma table_ok_upd:
  "table_ok s \<Longrightarrow> row_ok k row \<Longrightarrow> table_ok (s\<lparr>approvals := (approvals s)(k \<mapsto> row)\<rparr>)"
  by (auto simp: table_ok_def)

lemma ok_silent [keeps]:
  "keeps_inv table_ok (now_utc env)" "keeps_inv table_ok (draw_uuid env)"
  "keeps_inv table_ok (store_approval aid)" "keeps_inv table_ok (store_record row)"
  by (auto simp: keeps_inv_def table_ok_def now_utc_def draw_uuid_def store_approval_def
      store_record_def split: option.splits)

lemma ok_audit [keeps]: "keeps_inv table_ok (audit_event env aid act actor out why)"
  unfolding audit_event_def by (intro keeps)

lemma ok_insert: "row_ok (ap_id doc) (ap_state doc, doc) \<Longrightarrow> keeps_inv table_ok (store_insert doc)"
  by (auto simp: keeps_inv_def store_insert_def table_ok_upd)

lemma ok_transition: "row_ok aid (n, doc) \<Longrightarrow> keeps_inv table_ok (store_transition aid e n doc)"
  by (auto simp: keeps_inv_def store_transition_def cas_row_def table_ok_upd split: option.splits)

lemma plan_risk_Inr: "plan_risk p = Inr r \<longleftrightarrow> map_of RISK_BY_OPERATION (pl_operation p) = Some r"
  by (simp add: plan_risk_def split: option.splits)

lemma store_approval_runs [runs]:
  "store_approval aid s = (Inr doc, s') \<longleftrightarrow> s' = s \<and> (\<exists>col. approvals s aid = Some (col, doc))"
  "store_approval aid s = (Inl e, s') \<longleftrightarrow>
     s' = s \<and> approvals s aid = None \<and> e = Exn AuthorizationError ''approval was not found''"
  by (auto simp: store_approval_def split: option.splits)

text \<open>Reading a document and going on with it: the document is the one of a good row.\<close>

lemma ok_with_approval:
  assumes "\<And>doc. row_ok aid (ap_state doc, doc) \<Longrightarrow> keeps_inv table_ok (f doc)"
  shows "keeps_inv table_ok (bindS (store_approval aid) f)"
proof (rule keeps_invI)
  fix s r s' assume ok: "table_ok s" and run: "bindS (store_approval aid) f s = (r, s')"
  show "table_ok s'"
  proof (cases "approvals s aid")
    case (Some row)
    then have "row_ok aid row" using ok unfolding table_ok_def by blast
    then have "row_ok aid (ap_state (snd row), snd row)"
      by (cases row) (auto simp only: row_ok_def fst_conv snd_conv)
    moreover have "f (snd row) s = (r, s')"
      using run Some by (cases row) (simp add: bindS_def store_approval_def)
    ultimately show ?thesis using keeps_invD[OF assms ok] by blast
  qed (use ok run in \<open>auto simp: bindS_def store_approval_def\<close>)
qed

lemma ok_lift_risk:
  assumes "\<And>r. map_of RISK_BY_OPERATION (pl_operation p) = Some r \<Longrightarrow> keeps_inv table_ok (f r)"
  shows "keeps_inv table_ok (bindS (lift (plan_risk p)) f)"
  using assms by (cases "plan_risk p") (auto simp: keeps_inv_def plan_risk_Inr)

lemma decision_reason_None:
  "decision_reason env doc idn now conf = None \<Longrightarrow> ap_state doc = Pending"
  by (auto simp: decision_reason_def split: if_splits)

lemma consumption_reason_None:
  "consumption_reason env doc plan idn now = None \<Longrightarrow> ap_state doc = Approved"
  by (auto simp: consumption_reason_def split: if_splits)

lemma ok_request: "keeps_inv table_ok (request env plan idn)"
  unfolding request_def Let_def
  by (intro keeps ok_lift_risk ok_insert) (simp add: row_ok_def)

lemma ok_approve: "keeps_inv table_ok (approve env aid idn conf)"
  unfolding approve_def Let_def
  by (intro ok_with_approval keeps ok_transition)
    (auto simp: row_ok_def dest: decision_reason_None)

lemma ok_revoke: "keeps_inv table_ok (revoke env aid idn)"
  unfolding revoke_def Let_def
  by (intro ok_with_approval keeps ok_transition)
    (auto simp: row_ok_def split: approval_state.splits)

lemma ok_authorize: "keeps_inv table_ok (authorize env plan idn ao provider)"
  unfolding authorize_def authorize_checked_def authorize_commit_def
  by (intro ok_with_approval keeps ok_transition)
    (auto simp: row_ok_def dest: consumption_reason_None)

section \<open>What a successful call has checked\<close>

lemma now_utc_runs [runs]:
  "now_utc env s = (Inr t, s') \<longleftrightarrow>
     ae_clock env (clock_reads s) = Aware t \<and> s' = s\<lparr>clock_reads := Suc (clock_reads s)\<rparr>"
  "now_utc env s = (Inl e, s') \<longleftrightarrow>
     (\<exists>n. ae_clock env (clock_reads s) = Naive n)
     \<and> e = Exn PyValueError ''authorization clock must be timezone-aware''
     \<and> s' = s\<lparr>clock_reads := Suc (clock_reads s)\<rparr>"
  by (auto simp: now_utc_def aware_def split: py_datetime.splits)

lemma store_transition_runs [runs]:
  "store_transition aid e n doc s = (Inr b, s') \<longleftrightarrow>
     cas_row aid e n doc (approvals s) = (approvals s', b) \<and> s' = s\<lparr>approvals := approvals s'\<rparr>"
  "store_transition aid e n doc s \<noteq> (Inl x, s')"
  by (auto simp: store_transition_def split: prod.splits)

lemma store_transition_total:
  "\<exists>b t. store_transition aid e n doc s = (Inr b, t)
     \<and> cas_row aid e n doc (approvals s) = (approvals t, b) \<and> audit t = audit s"
  by (auto simp: store_transition_def split: prod.splits)

lemma cas_row_True:
  "cas_row aid e n doc tab = (tab', True) \<longleftrightarrow>
     (\<exists>old. tab aid = Some (e, old)) \<and> tab' = tab(aid \<mapsto> (n, doc))"
  by (auto simp: cas_row_def split: option.splits if_splits)

lemma cas_row_False: "cas_row aid e n doc tab = (tab', False) \<Longrightarrow> tab' = tab"
  by (auto simp: cas_row_def split: option.splits if_splits)

lemma store_record_runs [runs]:
  "store_record row s = (Inr u, s') \<longleftrightarrow> s' = s\<lparr>audit := audit s @ [row]\<rparr>"
  "store_record row s \<noteq> (Inl e, s')"
  by (auto simp: store_record_def)

lemma audit_event_runs:
  "audit_event env aid act actor out why s = (Inr u, s') \<Longrightarrow>
     approvals s' = approvals s \<and> (\<exists>row. audit s' = audit s @ [row] \<and> au_approval row = aid
       \<and> au_action row = act \<and> au_actor row = actor \<and> au_outcome row = out \<and> au_reason row = why)"
  "audit_event env aid act actor out why s = (Inl e, s') \<Longrightarrow>
     approvals s' = approvals s \<and> exn_cls e = PyValueError"
  by (auto simp: audit_event_def runs)

lemma consumption_ok_iff:
  "consumption_reason env doc plan idn now = None \<longleftrightarrow>
     ap_state doc = Approved \<and> now < ap_expires doc \<and> ap_actor doc = id_actor idn
   \<and> ap_session doc = id_session idn \<and> ap_source doc = id_source idn
   \<and> ap_digest doc = plan_digest (ae_sha256 env) plan"
  by (auto simp: consumption_reason_def)

lemma decision_ok_iff:
  "decision_reason env doc idn now conf = None \<longleftrightarrow>
     ap_state doc = Pending \<and> now < ap_expires doc \<and> ap_actor doc = id_actor idn
   \<and> ap_session doc = id_session idn
   \<and> (ap_risk doc = High \<longrightarrow> id_source idn \<in> set HIGH_RISK_SOURCES
        \<and> now - id_authenticated idn \<le> ae_reauth_age env
        \<and> conf = Some HIGH_RISK_CONFIRMATION)"
  by (auto simp: decision_reason_def)

text \<open>The runs of the pieces of \<open>authorize\<close>, accepted and refused.\<close>

lemma authorize_commit_Inr:
  assumes "authorize_commit env aid doc idn risk s = (Inr (), s')"
  shows "\<exists>at old. approvals s aid = Some (Approved, old)
    \<and> ae_clock env (clock_reads s) = Aware at
    \<and> approvals s' = (approvals s)
        (aid \<mapsto> (Consumed, doc\<lparr>ap_state := Consumed, ap_consumed := Some at\<rparr>))
    \<and> (\<exists>row. audit s' = audit s @ [row] \<and> au_approval row = Some aid \<and> au_outcome row = ''accepted'')"
proof -
  obtain at b t where at: "ae_clock env (clock_reads s) = Aware at"
    and tr: "store_transition aid Approved Consumed
        (doc\<lparr>ap_state := Consumed, ap_consumed := Some at\<rparr>)
        (s\<lparr>clock_reads := Suc (clock_reads s)\<rparr>) = (Inr b, t)"
    and fin: "(if \<not> b
       then thenS (audit_event env (Some aid) ''authorize'' (id_actor idn) ''denied'' ''replay'')
              (fail AuthorizationError ''approval was already consumed or changed'')
       else audit_event env (Some aid) ''authorize'' (id_actor idn) ''accepted'' (risk_text risk))
       t = (Inr (), s')"
    using assms unfolding authorize_commit_def bindS_Inr_iff now_utc_runs by blast
  have b: "b" using fin by (cases b) (simp_all add: runs)
  from tr b obtain old where "approvals s aid = Some (Approved, old)"
    and "approvals t = (approvals s)
        (aid \<mapsto> (Consumed, doc\<lparr>ap_state := Consumed, ap_consumed := Some at\<rparr>))"
    and "audit t = audit s"
    by (auto simp: store_transition_def cas_row_True split: prod.splits)
  moreover from fin b have "audit_event env (Some aid) ''authorize'' (id_actor idn) ''accepted''
      (risk_text risk) t = (Inr (), s')" by simp
  note audit_event_runs(1)[OF this]
  ultimately show ?thesis using at by auto
qed

lemma authorize_commit_Inl:
  assumes "authorize_commit env aid doc idn risk s = (Inl e, s')" and "exn_cls e \<noteq> PyValueError"
  shows "approvals s' = approvals s"
  using assms unfolding authorize_commit_def
  by (auto simp: runs dest!: audit_event_runs cas_row_False)

lemma authorize_checked_Inr:
  assumes "authorize_checked env aid doc plan idn risk s = (Inr (), s')"
  shows "\<exists>now. ae_clock env (clock_reads s) = Aware now
    \<and> consumption_reason env doc plan idn now = None
    \<and> authorize_commit env aid doc idn risk (s\<lparr>clock_reads := Suc (clock_reads s)\<rparr>) = (Inr (), s')"
  using assms unfolding authorize_checked_def
  by (auto simp: runs split: option.splits)

lemma authorize_checked_Inl:
  assumes "authorize_checked env aid doc plan idn risk s = (Inl e, s')"
    and "exn_cls e \<noteq> PyValueError"
  shows "approvals s' = approvals s"
  using assms unfolding authorize_checked_def
  by (auto simp: runs dest!: audit_event_runs authorize_commit_Inl split: option.splits)

lemma authorize_success:
  assumes run: "authorize env plan idn ao provider s = (Inr (), s')"
    and risk: "plan_risk plan = Inr risk" "approval_required risk"
  shows "\<exists>aid col doc current. ao = Some aid \<and> approvals s aid = Some (col, doc)
    \<and> observed plan provider = Inr current
    \<and> authorize_checked env aid doc (plan\<lparr>pl_state := current\<rparr>) idn risk s = (Inr (), s')"
proof (cases ao)
  case None
  then show ?thesis using assms by (simp add: authorize_def runs)
next
  case (Some aid)
  then obtain doc where doc: "store_approval aid s = (Inr doc, s)"
    and rest: "(case observed plan provider of
        Inl _ \<Rightarrow> thenS (audit_event env (Some aid) ''authorize'' (id_actor idn) ''denied''
                          ''state unavailable'')
                   (fail ApprovalUnavailable ''current target state is unavailable'')
      | Inr current \<Rightarrow> authorize_checked env aid doc (plan\<lparr>pl_state := current\<rparr>) idn risk) s
      = (Inr (), s')"
    using run risk by (auto simp: authorize_def bindS_Inr_iff store_approval_runs)
  from rest obtain current where "observed plan provider = Inr current"
    and "authorize_checked env aid doc (plan\<lparr>pl_state := current\<rparr>) idn risk s = (Inr (), s')"
    by (cases "observed plan provider") (simp_all add: runs)
  with doc Some show ?thesis by (auto simp: store_approval_runs)
qed

lemma authorize_denied_frame:
  assumes "authorize env plan idn ao provider s = (Inl e, s')" and "exn_cls e \<noteq> PyValueError"
  shows "approvals s' = approvals s"
proof (cases "plan_risk plan")
  case (Inr risk)
  with assms show ?thesis
    by (cases "observed plan provider")
      (auto simp: authorize_def runs dest!: audit_event_runs authorize_checked_Inl
        split: option.splits if_splits)
qed (use assms in \<open>simp add: authorize_def\<close>)

section \<open>Histories of service calls\<close>

datatype auth_call =
    CRequest op_plan identity
  | CApprove string identity "string option"
  | CRevoke string identity
  | CAuthorize op_plan identity "string option" "(string \<times> string) list result option"

text \<open>One call of the service, its answer dropped, and whether it granted \<open>aid\<close>.\<close>

fun run_call :: "auth_env \<Rightarrow> auth_call \<Rightarrow> auth_state \<Rightarrow> auth_state" where
  "run_call env (CRequest plan idn) s = snd (request env plan idn s)"
| "run_call env (CApprove aid idn conf) s = snd (approve env aid idn conf s)"
| "run_call env (CRevoke aid idn) s = snd (revoke env aid idn s)"
| "run_call env (CAuthorize plan idn ao provider) s = snd (authorize env plan idn ao provider s)"

fun grants :: "auth_env \<Rightarrow> auth_call \<Rightarrow> auth_state \<Rightarrow> string \<Rightarrow> bool" where
  "grants env (CAuthorize plan idn ao provider) s aid \<longleftrightarrow>
     ao = Some aid \<and> (case plan_risk plan of Inl _ \<Rightarrow> False | Inr r \<Rightarrow> approval_required r)
     \<and> fst (authorize env plan idn ao provider s) = Inr ()"
| "grants env c s aid \<longleftrightarrow> False"

lemma run_call_moves: "ledger_moves s (run_call env c s)"
  using moves_request moves_approve moves_revoke moves_authorize
  by (cases c) (auto simp: evolves_def)

lemma run_call_ok: "table_ok s \<Longrightarrow> table_ok (run_call env c s)"
  using ok_request ok_approve ok_revoke ok_authorize
  by (cases c) (auto simp: keeps_inv_def)

lemma run_call_audit: "audit_grows s (run_call env c s)"
  using grows_calls by (cases c) (auto simp: evolves_def)

lemma authorize_grant:
  assumes run: "authorize env plan idn ao provider s = (Inr (), s')"
    and risk: "plan_risk plan = Inr risk" "approval_required risk"
  shows "\<exists>aid doc current now at. ao = Some aid \<and> approvals s aid = Some (Approved, doc)
    \<and> observed plan provider = Inr current
    \<and> ae_clock env (clock_reads s) = Aware now
    \<and> consumption_reason env doc (plan\<lparr>pl_state := current\<rparr>) idn now = None
    \<and> approvals s' = (approvals s)
        (aid \<mapsto> (Consumed, doc\<lparr>ap_state := Consumed, ap_consumed := Some at\<rparr>))
    \<and> (\<exists>row. audit s' = audit s @ [row] \<and> au_approval row = Some aid \<and> au_outcome row = ''accepted'')"
proof -
  obtain aid col doc current where ao: "ao = Some aid" and row: "approvals s aid = Some (col, doc)"
    and obs: "observed plan provider = Inr current"
    and chk: "authorize_checked env aid doc (plan\<lparr>pl_state := current\<rparr>) idn risk s = (Inr (), s')"
    using authorize_success[OF assms] by blast
  from authorize_checked_Inr[OF chk] obtain now where now: "ae_clock env (clock_reads s) = Aware now"
    and why: "consumption_reason env doc (plan\<lparr>pl_state := current\<rparr>) idn now = None"
    and com: "authorize_commit env aid doc idn risk (s\<lparr>clock_reads := Suc (clock_reads s)\<rparr>)
        = (Inr (), s')" by blast
  from authorize_commit_Inr[OF com] row have "col = Approved" by auto
  with authorize_commit_Inr[OF com] ao row obs now why show ?thesis by auto
qed

lemma grants_moves:
  assumes "grants env c s aid"
  shows "closed_row (approvals (run_call env c s)) aid \<and> \<not> closed_row (approvals s) aid"
proof (cases c)
  case (CAuthorize plan idn ao provider)
  then obtain risk where risk: "plan_risk plan = Inr risk" "approval_required risk"
    and ao: "ao = Some aid" and run: "fst (authorize env plan idn ao provider s) = Inr ()"
    using assms by (auto split: sum.splits)
  from run have "authorize env plan idn ao provider s
      = (Inr (), snd (authorize env plan idn ao provider s))"
    by (metis prod.collapse)
  from authorize_grant[OF this risk] ao CAuthorize show ?thesis
    by (auto simp: closed_row_def)
qed (use assms in auto)

text \<open>The service calls as a ledger of their own: the store's laws lift to whole calls.\<close>

lemma moves_closed:
  assumes "ledger_moves s s'" and "closed_row (approvals s) k"
  shows "closed_row (approvals s') k"
  using assms approvals.burnt_run by (auto simp: ledger_moves_def)

interpretation calls: single_use_ledger
  "run_call env" "\<lambda>_. True" "grants env" "\<lambda>s. closed_row (approvals s)" for env
proof
  fix c s aid
  show "grants env c s aid \<Longrightarrow> closed_row (approvals (run_call env c s)) aid"
    by (simp add: grants_moves)
  show "closed_row (approvals s) aid \<Longrightarrow> closed_row (approvals (run_call env c s)) aid"
    by (rule moves_closed[OF run_call_moves])
  show "closed_row (approvals s) aid \<Longrightarrow> \<not> grants env c s aid"
    using grants_moves by blast
qed

lemma run_calls_ok: "table_ok s \<Longrightarrow> table_ok (run_events (run_call env) cs s)"
  by (induction cs arbitrary: s) (auto intro: run_call_ok)

lemma run_calls_audit: "audit_grows s (run_events (run_call env) cs s)"
  by (induction cs arbitrary: s) (auto intro: history.R_refl history.R_trans run_call_audit)

section \<open>What an approval is bound to\<close>

definition binding :: "approval \<Rightarrow> string \<times> string \<times> string \<times> string \<times> risk \<times> instant" where
  "binding doc = (ap_digest doc, ap_actor doc, ap_session doc, ap_source doc, ap_risk doc,
                  ap_expires doc)"

definition bound :: "string \<Rightarrow> string \<times> string \<times> string \<times> string \<times> risk \<times> instant
    \<Rightarrow> auth_state \<Rightarrow> bool" where
  "bound aid b s \<longleftrightarrow> (\<exists>col doc. approvals s aid = Some (col, doc) \<and> binding doc = b)"

lemma bound_silent:
  "keeps_inv (bound aid b) (now_utc env)" "keeps_inv (bound aid b) (draw_uuid env)"
  "keeps_inv (bound aid b) (store_approval k)" "keeps_inv (bound aid b) (store_record row)"
  "keeps_inv (bound aid b) (store_insert doc)"
  by (auto simp: keeps_inv_def bound_def now_utc_def draw_uuid_def store_approval_def
      store_record_def store_insert_def split: option.splits)

lemma bound_audit: "keeps_inv (bound aid b) (audit_event env k act actor out why)"
  unfolding audit_event_def by (intro keeps bound_silent)

lemma bound_transition:
  "(k = aid \<Longrightarrow> binding doc = b) \<Longrightarrow> keeps_inv (bound aid b) (store_transition k e n doc)"
  by (auto simp: keeps_inv_def bound_def store_transition_def cas_row_def split: option.splits)

lemma bound_with_approval:
  assumes "\<And>doc. (k = aid \<Longrightarrow> binding doc = b) \<Longrightarrow> keeps_inv (bound aid b) (f doc)"
  shows "keeps_inv (bound aid b) (bindS (store_approval k) f)"
proof (rule keeps_invI)
  fix s r s' assume B: "bound aid b s" and run: "bindS (store_approval k) f s = (r, s')"
  show "bound aid b s'"
  proof (cases "approvals s k")
    case (Some row)
    then have "f (snd row) s = (r, s')"
      using run by (cases row) (simp add: bindS_def store_approval_def)
    moreover have "k = aid \<Longrightarrow> binding (snd row) = b"
      using B Some by (auto simp: bound_def)
    ultimately show ?thesis using keeps_invD[OF assms B] by blast
  qed (use B run in \<open>auto simp: bindS_def store_approval_def\<close>)
qed

lemmas bound_rules = bound_with_approval bound_silent bound_audit bound_transition keeps

lemma bound_run_call: "bound aid b s \<Longrightarrow> bound aid b (run_call env c s)"
proof -
  have "keeps_inv (bound aid b) (request env plan idn)" for plan idn
    unfolding request_def Let_def by (intro bound_rules)
  moreover have "keeps_inv (bound aid b) (approve env k idn conf)" for k idn conf
    unfolding approve_def Let_def by (intro bound_rules) (simp add: binding_def)
  moreover have "keeps_inv (bound aid b) (revoke env k idn)" for k idn
    unfolding revoke_def Let_def by (intro bound_rules) (simp add: binding_def)
  moreover have "keeps_inv (bound aid b) (authorize env plan idn ao provider)" for plan idn ao provider
    unfolding authorize_def authorize_checked_def authorize_commit_def
    by (intro bound_rules) (simp add: binding_def)
  ultimately show "bound aid b s \<Longrightarrow> bound aid b (run_call env c s)"
    by (cases c) (auto simp: keeps_inv_def)
qed

lemma bound_run_calls: "bound aid b s \<Longrightarrow> bound aid b (run_events (run_call env) cs s)"
  by (induction cs arbitrary: s) (auto intro: bound_run_call)

lemma request_binds:
  assumes "request env plan idn s = (Inr doc, s')"
  shows "bound (ap_id doc) (binding doc) s' \<and> approvals s (ap_id doc) = None
    \<and> ap_state doc = Pending \<and> plan_risk plan = Inr (ap_risk doc)
    \<and> binding doc = (plan_digest (ae_sha256 env) plan, id_actor idn, id_session idn, id_source idn,
                     ap_risk doc, ap_created doc + ae_ttl env)"
proof -
  have none: "(\<forall>a b. x \<noteq> Some (a, b)) \<longleftrightarrow> x = None" for x :: "(approval_state \<times> approval) option"
    by (cases x) auto
  from assms show ?thesis
    unfolding request_def Let_def
    by (auto simp: runs draw_uuid_def store_insert_def binding_def bound_def none
        dest!: audit_event_runs split: if_splits)
qed

lemma sort_plan_members:
  "sort_key fst [(''operation'', a), (''targets'', b), (''currentState'', c)]
     = [(''currentState'', c), (''operation'', a), (''targets'', b)]"
proof -
  have "''operation'' \<le> ''targets''" "\<not> ''operation'' \<le> ''currentState''"
    "''targets'' > ''currentState''" "\<not> ''targets'' \<le> ''currentState''"
    by code_simp+
  then show ?thesis by (simp only: sort_key_def foldr.simps insort_key.simps fst_conv if_True
        if_False o_def id_def)
qed

lemma sort_keys_plan_document:
  "sort_keys (plan_document p) =
     JObj [(''currentState'', JObj (map (\<lambda>(k, v). (k, JStr v)) (sort_key fst (pl_state p)))),
           (''operation'', JStr (pl_operation p)),
           (''targets'', JList (map JStr (pl_targets p)))]"
proof -
  let ?ms = "map (\<lambda>(k, v). (k, JStr v)) (sort_key fst (pl_state p))"
  have "map (\<lambda>(k, v). (k, sort_keys v)) ?ms = ?ms"
    by (auto simp: comp_def split_def)
  moreover have "sort_key fst ?ms = ?ms"
  proof (rule sort_key_id_if_sorted)
    have "map fst ?ms = map fst (sort_key fst (pl_state p))" by (simp add: split_def)
    moreover have "sorted (map fst (sort_key fst (pl_state p)))" by (rule sorted_sort_key)
    ultimately show "sorted (map fst ?ms)" by (simp only:)
  qed
  ultimately have "sort_keys (JObj ?ms) = JObj ?ms" by (simp only: sort_keys.simps)
  moreover have "map sort_keys (map JStr ts) = map JStr ts" for ts by simp
  ultimately show ?thesis
    unfolding plan_document_def sort_keys.simps list.map prod.case sort_plan_members by simp
qed

lemma map_JStr_inj:
  "map JStr us = map JStr vs \<longleftrightarrow> us = vs"
  "map (\<lambda>(k, v). (k, JStr v)) xs = map (\<lambda>(k, v). (k, JStr v)) ys \<longleftrightarrow> xs = ys"
proof -
  show "map JStr us = map JStr vs \<longleftrightarrow> us = vs"
    by (rule inj_map_eq_map) (simp add: inj_def)
  show "map (\<lambda>(k, v). (k, JStr v)) xs = map (\<lambda>(k, v). (k, JStr v)) ys \<longleftrightarrow> xs = ys"
    by (rule inj_map_eq_map) (auto simp: inj_def)
qed

lemma plan_digest_inj:
  assumes "plan_digest sha p = plan_digest sha q"
    and "inj_on sha {dumps (plan_document p), dumps (plan_document q)}"
  shows "pl_operation p = pl_operation q" and "pl_targets p = pl_targets q"
    and "sort_key fst (pl_state p) = sort_key fst (pl_state q)"
proof -
  have "dumps (plan_document p) = dumps (plan_document q)"
    by (rule inj_onD[OF assms(2)]) (use assms(1) in \<open>simp_all add: plan_digest_def\<close>)
  then have "sort_keys (plan_document p) = sort_keys (plan_document q)"
    by (simp only: dumps_inj)
  then have eq: "sort_key fst (pl_state p) = sort_key fst (pl_state q)
      \<and> pl_operation p = pl_operation q \<and> pl_targets p = pl_targets q"
    by (simp only: sort_keys_plan_document json.inject list.inject prod.inject map_JStr_inj)
  show "pl_operation p = pl_operation q" and "pl_targets p = pl_targets q"
    and "sort_key fst (pl_state p) = sort_key fst (pl_state q)"
    using eq by blast+
qed

lemma denied_pair:
  assumes "thenS (audit_event env k act actor ''denied'' why) (fail c m) s = (Inl e, s')"
    and "exn_cls e \<noteq> PyValueError"
  shows "approvals s' = approvals s \<and> (\<exists>row. audit s' = audit s @ [row]
      \<and> au_approval row = k \<and> au_actor row = actor \<and> au_outcome row = ''denied'')"
  using assms by (auto simp: runs dest!: audit_event_runs)

lemma commit_denied:
  assumes "authorize_commit env aid doc idn risk s = (Inl e, s')" and "exn_cls e \<noteq> PyValueError"
  shows "\<exists>row. audit s' = audit s @ [row] \<and> au_actor row = id_actor idn \<and> au_outcome row = ''denied''"
proof -
  obtain at where at: "ae_clock env (clock_reads s) = Aware at"
    using assms by (cases "ae_clock env (clock_reads s)")
      (auto simp: authorize_commit_def now_utc_def aware_def bindS_def)
  let ?s = "s\<lparr>clock_reads := Suc (clock_reads s)\<rparr>"
  obtain b t where tr: "store_transition aid Approved Consumed
        (doc\<lparr>ap_state := Consumed, ap_consumed := Some at\<rparr>) ?s = (Inr b, t)"
    and au: "audit t = audit ?s"
    using store_transition_total by blast
  have "now_utc env s = (Inr at, ?s)" using at by (simp add: now_utc_runs)
  with assms(1) tr have fin: "(if \<not> b
       then thenS (audit_event env (Some aid) ''authorize'' (id_actor idn) ''denied'' ''replay'')
              (fail AuthorizationError ''approval was already consumed or changed'')
       else audit_event env (Some aid) ''authorize'' (id_actor idn) ''accepted'' (risk_text risk))
       t = (Inl e, s')" unfolding authorize_commit_def by (simp only: bindS_Inr)
  have b: "\<not> b" using fin assms(2) by (cases b) (auto dest!: audit_event_runs)
  have "audit t = audit s" using au by simp
  with fin b denied_pair[OF _ assms(2)] show ?thesis by fastforce
qed

lemma checked_denied:
  assumes "authorize_checked env aid doc plan idn risk s = (Inl e, s')"
    and "exn_cls e \<noteq> PyValueError"
  shows "\<exists>row. audit s' = audit s @ [row] \<and> au_actor row = id_actor idn \<and> au_outcome row = ''denied''"
proof -
  obtain now where fin: "(case consumption_reason env doc plan idn now of
        Some reason \<Rightarrow> thenS (audit_event env (Some aid) ''authorize'' (id_actor idn) ''denied'' reason)
             (fail AuthorizationError reason)
       | None \<Rightarrow> authorize_commit env aid doc idn risk) (s\<lparr>clock_reads := Suc (clock_reads s)\<rparr>)
       = (Inl e, s')"
    using assms unfolding authorize_checked_def bindS_Inl_iff now_utc_runs by auto
  show ?thesis
  proof (cases "consumption_reason env doc plan idn now")
    case None
    with fin commit_denied[OF _ assms(2)] show ?thesis by fastforce
  next
    case (Some reason)
    with fin denied_pair[OF _ assms(2)] show ?thesis by fastforce
  qed
qed

section \<open>Properties\<close>

definition demo_env :: auth_env where
  "demo_env = default_env (\<lambda>n. Aware (int n)) (\<lambda>n. ''id'' @ replicate n CHR ''x'') (\<lambda>s. s)"

definition demo_plan :: op_plan where
  "demo_plan = \<lparr>pl_operation = ''stop'', pl_targets = [''ssc'', ''mysql''],
                pl_state = [(''ssc'', ''running''), (''mysql'', ''running'')]\<rparr>"

definition demo_identity :: identity where
  "demo_identity = \<lparr>id_actor = ''op'', id_source = ''web'', id_session = ''s1'', id_authenticated = 0\<rparr>"

definition demo_start :: auth_state where
  "demo_start = \<lparr>approvals = Map.empty, audit = [], clock_reads = 0, ids_drawn = 0\<rparr>"

text \<open>
  C2. An approval authorises what was requested, and nothing else. When an approval that was obtained
  for one plan is later accepted by \<^verbatim>\<open>authorize\<close> for a plan that needs approval, after any calls of
  the service in between, then that plan has the same operation, the same ordered targets and, key by
  key, the same observed state as the requested one, the caller is the requesting actor in the same
  session and source, and the approval has not expired. The hash is only required not to collide on
  the two plan texts.
\<close>

theorem approval_authorizes_its_plan:
  assumes "request env plan0 idn0 s0 = (Inr doc0, s1)"
    and "authorize env plan idn (Some (ap_id doc0)) provider (run_events (run_call env) cs s1)
           = (Inr (), s2)"
    and "plan_risk plan = Inr risk" and "approval_required risk"
    and "observed plan provider = Inr current"
    and "inj_on (ae_sha256 env)
           {dumps (plan_document plan0), dumps (plan_document (plan\<lparr>pl_state := current\<rparr>))}"
  shows "pl_operation plan = pl_operation plan0 \<and> pl_targets plan = pl_targets plan0
    \<and> sort_key fst current = sort_key fst (pl_state plan0)
    \<and> id_actor idn = id_actor idn0 \<and> id_session idn = id_session idn0
    \<and> id_source idn = id_source idn0
    \<and> (\<exists>now. ae_clock env (clock_reads (run_events (run_call env) cs s1)) = Aware now
          \<and> now < ap_created doc0 + ae_ttl env)"
proof -
  let ?s = "run_events (run_call env) cs s1"
  note req = request_binds[OF assms(1)]
  then obtain col0 doc' where row: "approvals ?s (ap_id doc0) = Some (col0, doc')"
    and bind: "binding doc' = binding doc0"
    using bound_run_calls unfolding bound_def by metis
  obtain doc now where row2: "approvals ?s (ap_id doc0) = Some (Approved, doc)"
    and now: "ae_clock env (clock_reads ?s) = Aware now"
    and ok: "consumption_reason env doc (plan\<lparr>pl_state := current\<rparr>) idn now = None"
    using authorize_grant[OF assms(2-4)] assms(5) by auto
  from row row2 have "doc' = doc" by simp
  with bind req ok have eq: "plan_digest (ae_sha256 env) plan0
        = plan_digest (ae_sha256 env) (plan\<lparr>pl_state := current\<rparr>)"
    and who: "id_actor idn = id_actor idn0" "id_session idn = id_session idn0"
      "id_source idn = id_source idn0" "now < ap_created doc0 + ae_ttl env"
    by (auto simp: consumption_ok_iff binding_def)
  from plan_digest_inj[OF eq assms(6)] who now show ?thesis by simp
qed

theorem approval_authorizes_its_plan_witness:
  "pl_operation demo_plan = pl_operation demo_plan \<and> pl_targets demo_plan = pl_targets demo_plan
    \<and> sort_key fst (pl_state demo_plan) = sort_key fst (pl_state demo_plan)
    \<and> id_actor demo_identity = id_actor demo_identity
    \<and> id_session demo_identity = id_session demo_identity
    \<and> id_source demo_identity = id_source demo_identity
    \<and> (\<exists>now. ae_clock demo_env (clock_reads (run_events (run_call demo_env)
            [CApprove ''id'' demo_identity None]
            (snd (request demo_env demo_plan demo_identity demo_start)))) = Aware now
          \<and> now < ap_created (projr (fst (request demo_env demo_plan demo_identity demo_start)))
                  + ae_ttl demo_env)"
proof (rule approval_authorizes_its_plan
    [where provider = None and risk = Disruptive and ?s2.0 = "snd (authorize demo_env demo_plan
       demo_identity (Some ''id'') None (run_events (run_call demo_env)
         [CApprove ''id'' demo_identity None]
         (snd (request demo_env demo_plan demo_identity demo_start))))"])
  let ?r = "request demo_env demo_plan demo_identity demo_start"
  show "?r = (Inr (projr (fst ?r)), snd ?r)"
    by (rule prod_eqI; simp) code_simp
  have "ap_id (projr (fst ?r)) = ''id''" by code_simp
  moreover have "fst (authorize demo_env demo_plan demo_identity (Some ''id'') None
      (run_events (run_call demo_env) [CApprove ''id'' demo_identity None] (snd ?r))) = Inr ()"
    by code_simp
  ultimately show "authorize demo_env demo_plan demo_identity (Some (ap_id (projr (fst ?r)))) None
      (run_events (run_call demo_env) [CApprove ''id'' demo_identity None] (snd ?r))
      = (Inr (), snd (authorize demo_env demo_plan demo_identity (Some ''id'') None
      (run_events (run_call demo_env) [CApprove ''id'' demo_identity None] (snd ?r))))"
    by (simp add: prod_eq_iff)
  show "plan_risk demo_plan = Inr Disruptive" by code_simp
  show "approval_required Disruptive" by (simp add: approval_required_def)
  show "observed demo_plan None = Inr (pl_state demo_plan)" by (simp add: observed_def)
qed (simp add: demo_env_def default_env_def)

text \<open>
  C3. An approval is granted at most once. In every history of service calls, accepted or refused, by
  any callers, at most one \<^verbatim>\<open>authorize\<close> of an operation that needs approval is accepted for a given
  approval id.
\<close>

theorem approval_granted_at_most_once:
  "spend_count (run_call env) (grants env) calls s aid \<le> 1"
  by (rule calls.spent_at_most_once) (simp add: list_all_iff)

text \<open>
  C4. Single use does not depend on how concurrent callers interleave. Whatever the sequence of the
  store's atomic statements (inserts of pending documents, conditional updates along the arrows
  pending-approved-consumed and pending/approved-revoked), the row of an approval is moved to consumed
  at most once.
\<close>

theorem approval_consumed_at_most_once:
  "list_all legal_event es \<Longrightarrow> spend_count store_step consumes es tab aid \<le> 1"
  by (rule approvals.spent_at_most_once)

theorem approval_consumed_at_most_once_witness:
  "spend_count store_step consumes
     (replicate 2 (Transition ''a'' Approved Consumed
        (projr (fst (request demo_env demo_plan demo_identity demo_start)))))
     [''a'' \<mapsto> (Approved, projr (fst (request demo_env demo_plan demo_identity demo_start)))] ''a'' \<le> 1"
  by (rule approval_consumed_at_most_once) (simp add: numeral_2_eq_2)

text \<open>
  What an accepted \<^verbatim>\<open>approve\<close> has checked: the approval was pending, unexpired and of the same
  actor and session; for a high-risk operation the source is the local CLI or the Web UI, the
  authentication is fresh and the typed confirmation is exact. The row becomes approved, and nothing
  else in the table changes.
\<close>

theorem approve_checks:
  assumes "approve env aid idn conf s = (Inr doc', s')"
  shows "\<exists>doc now. approvals s aid = Some (Pending, doc) \<and> ap_state doc = Pending
    \<and> ae_clock env (clock_reads s) = Aware now \<and> now < ap_expires doc
    \<and> ap_actor doc = id_actor idn \<and> ap_session doc = id_session idn
    \<and> (ap_risk doc = High \<longrightarrow> id_source idn \<in> {''local-cli'', ''web''}
         \<and> now - id_authenticated idn \<le> ae_reauth_age env
         \<and> conf = Some ''AUTHORIZE HIGH-RISK OPERATION'')
    \<and> doc' = doc\<lparr>ap_state := Approved, ap_decided := Some now\<rparr>
    \<and> approvals s' = (approvals s)(aid \<mapsto> (Approved, doc'))"
proof -
  let ?t = "s\<lparr>clock_reads := Suc (clock_reads s)\<rparr>"
  obtain col doc now where row: "approvals s aid = Some (col, doc)"
    and now: "ae_clock env (clock_reads s) = Aware now"
    and rest: "(case decision_reason env doc idn now conf of
         Some reason \<Rightarrow> thenS (audit_event env (Some aid) ''approve'' (id_actor idn) ''denied'' reason)
             (fail AuthorizationError reason)
       | None \<Rightarrow> (let doc' = doc\<lparr>ap_state := Approved, ap_decided := Some now\<rparr>
            in bindS (store_transition aid Pending Approved doc') (\<lambda>changed.
                 if \<not> changed
                 then thenS (audit_event env (Some aid) ''approve'' (id_actor idn) ''denied''
                               ''not pending'')
                        (fail AuthorizationError ''approval is no longer pending'')
                 else thenS (audit_event env (Some aid) ''approve'' (id_actor idn) ''accepted''
                               (risk_text (ap_risk doc)))
                        (ret doc')))) ?t = (Inr doc', s')"
    using assms unfolding approve_def bindS_Inr_iff now_utc_runs store_approval_runs by blast
  have why: "decision_reason env doc idn now conf = None"
    using rest by (cases "decision_reason env doc idn now conf") (simp_all add: runs)
  define new where "new = doc\<lparr>ap_state := Approved, ap_decided := Some now\<rparr>"
  obtain b u where tr: "store_transition aid Pending Approved new ?t = (Inr b, u)"
    and cas: "cas_row aid Pending Approved new (approvals ?t) = (approvals u, b)"
    using store_transition_total by blast
  from rest[folded new_def] why tr have
    fin: "(if \<not> b
       then thenS (audit_event env (Some aid) ''approve'' (id_actor idn) ''denied'' ''not pending'')
              (fail AuthorizationError ''approval is no longer pending'')
       else thenS (audit_event env (Some aid) ''approve'' (id_actor idn) ''accepted''
              (risk_text (ap_risk doc))) (ret new)) u = (Inr doc', s')"
    by (simp add: Let_def)
  have b: b using fin by (cases b) (simp_all add: runs)
  with fin have doc': "doc' = new" and au: "audit_event env (Some aid) ''approve'' (id_actor idn)
      ''accepted'' (risk_text (ap_risk doc)) u = (Inr (), s')"
    by (simp_all add: bindS_Inr_iff)
  from audit_event_runs(1)[OF au] cas b row now why doc' show ?thesis
    by (auto simp: new_def cas_row_True decision_ok_iff HIGH_RISK_SOURCES_def HIGH_RISK_CONFIRMATION_def)
qed

definition demo_requested :: auth_state where
  "demo_requested =
     snd (request demo_env (demo_plan\<lparr>pl_operation := ''upgrade''\<rparr>) demo_identity demo_start)"

theorem approve_checks_witness:
  "\<exists>doc now. approvals demo_requested ''id'' = Some (Pending, doc) \<and> ap_state doc = Pending
    \<and> ae_clock demo_env (clock_reads demo_requested) = Aware now \<and> now < ap_expires doc
    \<and> ap_actor doc = id_actor demo_identity \<and> ap_session doc = id_session demo_identity
    \<and> (ap_risk doc = High \<longrightarrow> id_source demo_identity \<in> {''local-cli'', ''web''}
         \<and> now - id_authenticated demo_identity \<le> ae_reauth_age demo_env
         \<and> Some HIGH_RISK_CONFIRMATION = Some ''AUTHORIZE HIGH-RISK OPERATION'')
    \<and> projr (fst (approve demo_env ''id'' demo_identity (Some HIGH_RISK_CONFIRMATION) demo_requested))
        = doc\<lparr>ap_state := Approved, ap_decided := Some now\<rparr>
    \<and> approvals (snd (approve demo_env ''id'' demo_identity (Some HIGH_RISK_CONFIRMATION)
                        demo_requested))
        = (approvals demo_requested)(''id'' \<mapsto> (Approved,
            projr (fst (approve demo_env ''id'' demo_identity (Some HIGH_RISK_CONFIRMATION)
                        demo_requested))))"
proof (rule approve_checks)
  let ?r = "approve demo_env ''id'' demo_identity (Some HIGH_RISK_CONFIRMATION) demo_requested"
  show "?r = (Inr (projr (fst ?r)), snd ?r)"
    by (rule prod_eqI; simp) code_simp
qed

text \<open>
  A refused \<^verbatim>\<open>authorize\<close> spends nothing and leaves a trace: whenever it raises (other than for a
  clock without timezone) the approval table is unchanged, and the audit history has gained exactly
  one row of outcome denied naming the caller, unless the operation has no risk policy or the
  approval id is unknown, in which cases nothing is written at all.
\<close>

theorem authorize_denial:
  assumes "authorize env plan idn ao provider s = (Inl e, s')" and "exn_cls e \<noteq> PyValueError"
  shows "approvals s' = approvals s
    \<and> (if plan_risk plan = Inl e \<or> (\<exists>aid. ao = Some aid \<and> approvals s aid = None) then s' = s
       else \<exists>row. audit s' = audit s @ [row] \<and> au_actor row = id_actor idn
              \<and> au_outcome row = ''denied'')"
proof (cases "plan_risk plan")
  case (Inl e')
  with assms show ?thesis by (simp add: authorize_def)
next
  case (Inr risk)
  have req: "approval_required risk"
    using assms Inr by (auto simp: authorize_def dest!: audit_event_runs split: if_splits)
  note frame = authorize_denied_frame[OF assms]
  show ?thesis
  proof (cases ao)
    case None
    with assms Inr req denied_pair[OF _ assms(2)] show ?thesis
      by (fastforce simp: authorize_def)
  next
    case (Some aid)
    show ?thesis
    proof (cases "approvals s aid")
      case None
      with assms Inr req Some show ?thesis by (simp add: authorize_def store_approval_def bindS_def)
    next
      case (Some row)
      then have doc: "store_approval aid s = (Inr (snd row), s)"
        by (cases row) (simp add: store_approval_def)
      have "\<exists>row. audit s' = audit s @ [row] \<and> au_actor row = id_actor idn
              \<and> au_outcome row = ''denied''"
      proof (cases "observed plan provider")
        case (Inl x)
        with assms Inr req \<open>ao = Some aid\<close> doc denied_pair[OF _ assms(2)] show ?thesis
          by (fastforce simp: authorize_def)
      next
        case (Inr current)
        with assms \<open>plan_risk plan = Inr risk\<close> req \<open>ao = Some aid\<close> doc checked_denied[OF _ assms(2)]
        show ?thesis by (fastforce simp: authorize_def)
      qed
      with frame Inr Some \<open>ao = Some aid\<close> show ?thesis by simp
    qed
  qed
qed

theorem authorize_denial_witness:
  "approvals (snd (authorize demo_env demo_plan demo_identity None None demo_start))
     = approvals demo_start
    \<and> (if plan_risk demo_plan = Inl (Exn AuthorizationError ''operation requires approval'')
          \<or> (\<exists>aid. None = Some aid \<and> approvals demo_start aid = None)
       then snd (authorize demo_env demo_plan demo_identity None None demo_start) = demo_start
       else \<exists>row. audit (snd (authorize demo_env demo_plan demo_identity None None demo_start))
                = audit demo_start @ [row] \<and> au_actor row = id_actor demo_identity
              \<and> au_outcome row = ''denied'')"
proof (rule authorize_denial)
  let ?r = "authorize demo_env demo_plan demo_identity None None demo_start"
  show "?r = (Inl (Exn AuthorizationError ''operation requires approval''), snd ?r)"
    by (rule prod_eqI; simp) code_simp
qed simp

text \<open>
  C5. The table stays consistent and the history is append-only: from a consistent table, every
  history of service calls ends in a consistent one (the state column is the payload's state, the key
  its id, the risk the one of its operation, the decision, consumption and revocation times are set
  exactly as the state says), and the audit rows written before are a prefix of those after.
\<close>

theorem approval_table_invariant:
  "table_ok s \<Longrightarrow> table_ok (run_events (run_call env) calls s)
     \<and> audit_grows s (run_events (run_call env) calls s)"
  using run_calls_ok run_calls_audit by blast

theorem approval_table_invariant_witness:
  "table_ok (run_events (run_call demo_env) [CRequest demo_plan demo_identity] demo_start)
     \<and> audit_grows demo_start
         (run_events (run_call demo_env) [CRequest demo_plan demo_identity] demo_start)"
  by (rule approval_table_invariant) (simp add: table_ok_def demo_start_def)

text \<open>
  A refused revocation by the right actor leaves no trace: revoking an approval that is already
  consumed or revoked raises and changes neither the table nor the audit history.
\<close>

theorem revoke_of_closed_unaudited:
  assumes "approvals s aid = Some (col, doc)" and "ap_actor doc = id_actor idn"
    and "ap_state doc \<in> {Consumed, Revoked}"
  shows "revoke env aid idn s
    = (raise AuthorizationError ''approval can no longer be revoked'', s)"
  using assms by (auto simp: revoke_def store_approval_def bindS_def)

theorem revoke_of_closed_unaudited_witness:
  "revoke demo_env ''id'' demo_identity
     (snd (revoke demo_env ''id'' demo_identity demo_requested))
    = (raise AuthorizationError ''approval can no longer be revoked'',
       snd (revoke demo_env ''id'' demo_identity demo_requested))"
proof (rule revoke_of_closed_unaudited)
  let ?s = "snd (revoke demo_env ''id'' demo_identity demo_requested)"
  show "approvals ?s ''id'' = Some (fst (the (approvals ?s ''id'')), snd (the (approvals ?s ''id'')))"
    by code_simp
qed code_simp+

end
