(* ===== verification/Engine.thy ===== *)
theory Engine
  imports OpStore Authorization
begin

text \<open>
  \<^verbatim>\<open>OperationEngine\<close> of \<^verbatim>\<open>manager/operation_engine.py\<close>: preparing, running, cancelling and retrying
  lifecycle operations. Adapters, health verifiers, state, preflight and footprint providers, clocks
  and \<^verbatim>\<open>uuid4\<close> are fields of \<open>eng_env\<close>: the n-th call of one of them has the outcome its function gives
  for n, the counters in \<open>eng_state\<close> say how often each was called. \<open>ee_cancelled n k\<close> tells whether the
  n-th look of a worker at the cancellation set finds a request that another thread has made in the
  meantime. \<open>es_doc\<close> is the document object that the running worker holds and mutates.
\<close>

section \<open>Environment and state\<close>

record preflight_report =
  pf_ready :: bool
  pf_actions :: "(string \<times> bool) list"

record eng_env =
  ee_plan :: plan_env
  ee_auth :: "auth_env option"
  ee_clock :: "nat \<Rightarrow> instant"
  ee_mono :: "nat \<Rightarrow> int"
  ee_uuid :: "nat \<Rightarrow> string"
  ee_execute :: "nat \<Rightarrow> step \<Rightarrow> unit result"
  ee_verify :: "nat \<Rightarrow> string \<Rightarrow> string \<Rightarrow> bool result"
  ee_cancelled :: "nat \<Rightarrow> string \<Rightarrow> bool"
  ee_state :: "(nat \<Rightarrow> string list \<Rightarrow> (string \<times> string) list result) option"
  ee_preflight :: "(nat \<Rightarrow> preflight_report result) option"
  ee_footprint :: "(nat \<Rightarrow> string list \<Rightarrow> (string \<times> string) list result) option"

record eng_state =
  es_store :: op_store
  es_auth :: auth_state
  es_cancelled :: "string list"
  es_workers :: "(op_doc \<times> step list) list"
  es_doc :: op_doc
  es_ticks :: nat
  es_monos :: nat
  es_ids :: nat
  es_looks :: nat
  es_execs :: nat
  es_checks :: nat
  es_observed :: nat
  es_preflights :: nat
  es_footprints :: nat

type_synonym 'a eng = "(eng_state, 'a) proc"

definition tick :: "eng_env \<Rightarrow> instant eng" where
  "tick env = (\<lambda>s. (Inr (ee_clock env (es_ticks s)), s\<lparr>es_ticks := Suc (es_ticks s)\<rparr>))"

definition monotonic :: "eng_env \<Rightarrow> int eng" where
  "monotonic env = (\<lambda>s. (Inr (ee_mono env (es_monos s)), s\<lparr>es_monos := Suc (es_monos s)\<rparr>))"

definition new_id :: "eng_env \<Rightarrow> string eng" where
  "new_id env = (\<lambda>s. (Inr (ee_uuid env (es_ids s)), s\<lparr>es_ids := Suc (es_ids s)\<rparr>))"

definition look_cancelled :: "eng_env \<Rightarrow> string \<Rightarrow> bool eng" where
  "look_cancelled env k =
     (\<lambda>s. (Inr (k \<in> set (es_cancelled s) \<or> ee_cancelled env (es_looks s) k),
           s\<lparr>es_looks := Suc (es_looks s)\<rparr>))"

definition adapter_execute :: "eng_env \<Rightarrow> step \<Rightarrow> unit eng" where
  "adapter_execute env st = (\<lambda>s. (ee_execute env (es_execs s) st, s\<lparr>es_execs := Suc (es_execs s)\<rparr>))"

definition verifier_verify :: "eng_env \<Rightarrow> string \<Rightarrow> string \<Rightarrow> bool eng" where
  "verifier_verify env c check =
     (\<lambda>s. (ee_verify env (es_checks s) c check, s\<lparr>es_checks := Suc (es_checks s)\<rparr>))"

definition record_event :: "string \<Rightarrow> op_event \<Rightarrow> unit eng" where
  "record_event k e = modify (\<lambda>s. s\<lparr>es_store := st_event k e (es_store s)\<rparr>)"

definition upd_doc :: "(op_doc \<Rightarrow> op_doc) \<Rightarrow> unit eng" where
  "upd_doc f = modify (\<lambda>s. s\<lparr>es_doc := f (es_doc s)\<rparr>)"

definition store_update :: "op_doc \<Rightarrow> unit eng" where
  "store_update d = modify (\<lambda>s. s\<lparr>es_store := st_update d (es_store s)\<rparr>)"

definition store_get :: "string \<Rightarrow> op_doc eng" where
  "store_get k = (\<lambda>s. (st_get k (es_store s), s))"

section \<open>The worker\<close>

definition save :: "eng_env \<Rightarrow> unit eng" where
  "save env = bindS (tick env) (\<lambda>now.
     thenS (upd_doc (\<lambda>d. d\<lparr>od_updated := now\<rparr>))
       (modify (\<lambda>s. s\<lparr>es_store := st_update (es_doc s) (es_store s)\<rparr>)))"

definition check_boundary :: "eng_env \<Rightarrow> string \<Rightarrow> int \<Rightarrow> unit eng" where
  "check_boundary env k deadline =
     bindS (look_cancelled env k) (\<lambda>c.
       if c then fail StepCancelled []
       else bindS (monotonic env) (\<lambda>t. if t \<ge> deadline then fail StepTimedOut [] else ret ()))"

fun verify_all :: "eng_env \<Rightarrow> string \<Rightarrow> int \<Rightarrow> string \<Rightarrow> string list \<Rightarrow> unit eng" where
  "verify_all env k deadline c [] = ret ()"
| "verify_all env k deadline c (check # checks) =
     thenS (check_boundary env k deadline)
      (bindS (verifier_verify env c check) (\<lambda>ok.
         if \<not> ok then fail OperationError ''post-operation health verification failed''
         else verify_all env k deadline c checks))"

definition attempt_once :: "eng_env \<Rightarrow> string \<Rightarrow> step \<Rightarrow> int \<Rightarrow> int \<Rightarrow> unit eng" where
  "attempt_once env k st deadline attempt =
     thenS (check_boundary env k deadline)
    (thenS (adapter_execute env st)
    (thenS (verify_all env k deadline (st_component st) (st_verify st))
      (bindS (tick env) (\<lambda>at.
         record_event k (StepSucceeded (st_component st) (st_operation st) attempt at)))))"

definition set_attempt :: "int \<Rightarrow> op_doc \<Rightarrow> op_doc" where
  "set_attempt n d = d\<lparr>od_current := map_option (\<lambda>cu. cu\<lparr>cu_attempt := n\<rparr>) (od_current d)\<rparr>"

definition attempt_failed :: "eng_env \<Rightarrow> string \<Rightarrow> step \<Rightarrow> int \<Rightarrow> unit eng" where
  "attempt_failed env k st attempt =
     bindS (tick env) (\<lambda>at.
       record_event k (AttemptFailed (st_component st) (st_operation st) attempt
                         (attempt < st_max_attempts st) at))"

fun attempts :: "eng_env \<Rightarrow> string \<Rightarrow> step \<Rightarrow> int list \<Rightarrow> unit eng" where
  "attempts env k st [] = ret ()"
| "attempts env k st (n # ns) =
     thenS (upd_doc (set_attempt n))
    (thenS (save env)
      (bindS (monotonic env) (\<lambda>t.
         handle (attempt_once env k st (t + st_timeout st) n)
           (\<lambda>e. if catches [StepCancelled, StepTimedOut] e then throw e
                 else thenS (attempt_failed env k st n)
                        (if n = st_max_attempts st then throw e else attempts env k st ns)))))"

definition execute_step :: "eng_env \<Rightarrow> string \<Rightarrow> step \<Rightarrow> unit eng" where
  "execute_step env k st = attempts env k st [1..st_max_attempts st]"

fun recovery_action :: "recovery \<Rightarrow> string" where
  "recovery_action Reversible =
     ''Review evidence and retry the idempotent action or apply its declared inverse.''"
| "recovery_action Compensating =
     ''Review completed steps and run the documented compensating action.''"
| "recovery_action RestoreRequired =
     ''Do not claim Helm rollback; restore and verify the bound backup before retrying.''"
| "recovery_action Irreversible =
     ''Stop automation and follow the documented manual recovery procedure.''"

definition set_recovery :: "op_doc \<Rightarrow> op_doc" where
  "set_recovery d =
     (let operation = (case od_current d of None \<Rightarrow> od_operation d | Some cu \<Rightarrow> cu_operation cu);
          class = (case map_of RECOVERY_CLASS_BY_OPERATION operation of
                     None \<Rightarrow> Irreversible | Some r \<Rightarrow> r)
      in d\<lparr>od_rec_required := True, od_rec_boundary := class,
           od_rec_next := Some (recovery_action class)\<rparr>)"

fun run_steps :: "eng_env \<Rightarrow> string \<Rightarrow> nat \<Rightarrow> step list \<Rightarrow> unit eng" where
  "run_steps env k index [] = ret ()"
| "run_steps env k index (st # sts) =
     thenS (upd_doc (\<lambda>d. d\<lparr>od_current := Some \<lparr>cu_number = index, cu_component = st_component st,
                            cu_operation = st_operation st, cu_attempt = 0\<rparr>\<rparr>))
    (thenS (save env)
    (thenS (execute_step env k st)
    (thenS (upd_doc (\<lambda>d. d\<lparr>od_completed := index\<rparr>))
    (thenS (save env)
      (run_steps env k (Suc index) sts)))))"

definition run_succeeded :: "op_doc \<Rightarrow> op_doc" where
  "run_succeeded d = d\<lparr>od_state := Succeeded, od_current := None, od_error := None\<rparr>"

definition run_raised :: "exn \<Rightarrow> op_doc \<Rightarrow> op_doc" where
  "run_raised e d = set_recovery
     (if catches [StepCancelled] e
      then d\<lparr>od_state := Cancelled, od_error := Some ''Operation was cancelled''\<rparr>
      else if catches [StepTimedOut] e
      then d\<lparr>od_state := TimedOut, od_error := Some ''A step exceeded its bounded deadline''\<rparr>
      else d\<lparr>od_state := Failed,
             od_error := Some ''A lifecycle step failed; inspect sanitized events''\<rparr>)"

text \<open>
  \<^verbatim>\<open>_run\<close>: the last two lines are its \<^verbatim>\<open>finally\<close>, which is always reached because every exception of
  the steps is handled.
\<close>

definition run :: "eng_env \<Rightarrow> step list \<Rightarrow> unit eng" where
  "run env steps =
     bindS (gets (\<lambda>s. od_id (es_doc s))) (\<lambda>k.
       thenS (upd_doc (\<lambda>d. d\<lparr>od_state := Running\<rparr>))
      (thenS (save env)
      (bindS (gets (\<lambda>s. Suc (od_completed (es_doc s)))) (\<lambda>first.
       thenS (handle (thenS (run_steps env k first steps) (upd_doc run_succeeded))
                (\<lambda>e. upd_doc (run_raised e)))
      (thenS (modify (\<lambda>s. s\<lparr>es_cancelled := removeAll k (es_cancelled s)\<rparr>))
        (save env))))))"

definition start_worker :: "op_doc \<Rightarrow> step list \<Rightarrow> unit eng" where
  "start_worker d steps = modify (\<lambda>s. s\<lparr>es_workers := es_workers s @ [(d, steps)]\<rparr>)"

text \<open>\<^verbatim>\<open>_run_worker\<close>: the thread runs its document and leaves the set of workers.\<close>

definition run_worker :: "eng_env \<Rightarrow> op_doc \<Rightarrow> step list \<Rightarrow> unit eng" where
  "run_worker env d steps =
     thenS (upd_doc (\<lambda>_. d))
    (thenS (run env steps)
      (modify (\<lambda>s. s\<lparr>es_workers := remove1 (d, steps) (es_workers s)\<rparr>)))"

section \<open>Preparing\<close>

definition observe_state :: "eng_env \<Rightarrow> string list \<Rightarrow> (string \<times> string) list eng" where
  "observe_state env targets =
     (\<lambda>s. (case ee_state env of
             None \<Rightarrow> raise PyTypeError ''state provider is not callable''
           | Some f \<Rightarrow> f (es_observed s) targets, s\<lparr>es_observed := Suc (es_observed s)\<rparr>))"

text \<open>
  The authorization of a plan: the observed state is part of the plan, and \<open>authorize\<close> observes it
  again through the provider it is given.
\<close>

definition authorize_plan ::
    "eng_env \<Rightarrow> string \<Rightarrow> string list \<Rightarrow> string \<Rightarrow> identity option \<Rightarrow> string option \<Rightarrow> unit eng" where
  "authorize_plan env operation targets actor ident approval_id =
     (case ee_auth env of
        None \<Rightarrow> ret ()
      | Some ae \<Rightarrow>
          (case (ident, ee_state env) of
             (Some idn, Some f) \<Rightarrow>
               if id_actor idn \<noteq> actor
               then fail InvalidOperation
                      ''authenticated identity and current-state provider are required''
               else bindS (handle (observe_state env targets)
                       (\<lambda>e. fail OperationError ''current target state is unavailable'')) (\<lambda>current.
                     (\<lambda>s. case authorize ae \<lparr>pl_operation = operation, pl_targets = targets,
                                            pl_state = current\<rparr> idn approval_id
                                 (Some (f (es_observed s) targets)) (es_auth s) of
                            (r, a) \<Rightarrow> (r, s\<lparr>es_auth := a, es_observed := Suc (es_observed s)\<rparr>)))
           | _ \<Rightarrow> fail InvalidOperation
                    ''authenticated identity and current-state provider are required''))"

definition new_document ::
    "eng_env \<Rightarrow> string \<Rightarrow> instant \<Rightarrow> string \<Rightarrow> string list \<Rightarrow> step list \<Rightarrow> recovery \<Rightarrow> string
       \<Rightarrow> string option \<Rightarrow> string option \<Rightarrow> op_doc" where
  "new_document env k now operation components steps boundary actor retry_of workflow =
     \<lparr>od_id = k, od_operation = operation, od_components = affected steps,
      od_requested = components, od_actor = actor, od_state = Queued, od_created = now,
      od_updated = now, od_current = None, od_completed = 0, od_total = length steps,
      od_retry_of = retry_of, od_error = None, od_rec_required = False,
      od_rec_boundary = boundary, od_rec_next = None, od_workflow = workflow,
      od_profile = (if workflow = None then None else Some (pe_profile (ee_plan env))),
      od_lab_action = None, od_selected = None\<rparr>"

definition prepare_steps ::
    "eng_env \<Rightarrow> string \<Rightarrow> string list \<Rightarrow> step list \<Rightarrow> string \<Rightarrow> string option \<Rightarrow> identity option
       \<Rightarrow> string option \<Rightarrow> string option \<Rightarrow> (op_doc \<times> step list) eng" where
  "prepare_steps env operation components steps actor retry_of ident approval_id workflow =
     bindS (gets (\<lambda>s. active_components (es_store s))) (\<lambda>busy.
       if set busy \<inter> set (affected steps) \<noteq> {}
       then fail OperationConflict ''another operation is active for an affected component''
       else thenS (authorize_plan env operation (affected steps) actor ident approval_id)
        (bindS (tick env) (\<lambda>now.
         bindS (new_id env) (\<lambda>k.
         bindS (lift (plan_recovery_boundary steps)) (\<lambda>boundary.
           let d = new_document env k now operation components steps boundary actor retry_of workflow
           in bindS (\<lambda>s. case st_create d (es_store s) of
                           Inl e \<Rightarrow> (Inl e, s)
                         | Inr st \<Rightarrow> (Inr (), s\<lparr>es_store := st\<rparr>)) (\<lambda>_.
              ret (d, steps)))))))"

definition prepare ::
    "eng_env \<Rightarrow> string \<Rightarrow> string list \<Rightarrow> string \<Rightarrow> string option \<Rightarrow> identity option \<Rightarrow> string option
       \<Rightarrow> string option \<Rightarrow> (op_doc \<times> step list) eng" where
  "prepare env operation ids actor retry_of ident approval_id workflow =
     (if operation \<notin> set REQUEST_OPERATIONS
      then fail InvalidOperation ''operation is not an allowed lifecycle action''
      else let components = fromkeys ids
        in if components = [] \<or> \<not> list_all identifier_ok components \<or> actor = [] \<or> length actor > 128
           then fail InvalidOperation ''components and actor are required''
           else bindS (lift (plan_steps (ee_plan env) operation components)) (\<lambda>steps.
                  prepare_steps env operation components steps actor retry_of ident approval_id
                    workflow))"

section \<open>Requests\<close>

definition submit ::
    "eng_env \<Rightarrow> string \<Rightarrow> string list \<Rightarrow> string \<Rightarrow> string option \<Rightarrow> identity option \<Rightarrow> string option
       \<Rightarrow> op_doc eng" where
  "submit env operation ids actor retry_of ident approval_id =
     bindS (prepare env operation ids actor retry_of ident approval_id None) (\<lambda>(d, steps).
       thenS (upd_doc (\<lambda>_. d)) (thenS (run env steps) (store_get (od_id d))))"

definition submit_async ::
    "eng_env \<Rightarrow> string \<Rightarrow> string list \<Rightarrow> string \<Rightarrow> string option \<Rightarrow> identity option \<Rightarrow> string option
       \<Rightarrow> op_doc eng" where
  "submit_async env operation ids actor retry_of ident approval_id =
     bindS (prepare env operation ids actor retry_of ident approval_id None) (\<lambda>(d, steps).
       thenS (start_worker d steps) (store_get (od_id d)))"

definition read_preflight :: "eng_env \<Rightarrow> string \<Rightarrow> preflight_report eng" where
  "read_preflight env unavailable =
     (case ee_preflight env of
        None \<Rightarrow> fail PreflightBlocked unavailable
      | Some f \<Rightarrow>
          handle (\<lambda>s. (f (es_preflights s), s\<lparr>es_preflights := Suc (es_preflights s)\<rparr>))
            (\<lambda>e. fail PreflightBlocked unavailable))"

definition require_action_ready :: "eng_env \<Rightarrow> string \<Rightarrow> unit eng" where
  "require_action_ready env action =
     bindS (read_preflight env ''selected action readiness is unavailable'') (\<lambda>report.
       let key = (if action = ''deploy'' then ''deployment'' else action)
       in if map_of (pf_actions report) key \<noteq> Some True
          then fail PreflightBlocked ''selected action has blocking prerequisites''
          else ret ())"

fun completed_pair :: "op_event \<Rightarrow> (string \<times> string) option" where
  "completed_pair (StepSucceeded c op n at) = Some (c, op)"
| "completed_pair (StepResumed c op at) = Some (c, op)"
| "completed_pair e = None"

definition completed_pairs :: "string \<Rightarrow> op_store \<Rightarrow> (string \<times> string) list" where
  "completed_pairs k st = List.map_filter completed_pair (st_events k st)"

definition is_completed :: "(string \<times> string) list \<Rightarrow> step \<Rightarrow> bool" where
  "is_completed completed st \<longleftrightarrow> (st_component st, st_operation st) \<in> set completed"

definition resume_events ::
    "eng_env \<Rightarrow> string \<Rightarrow> (string \<times> string) list \<Rightarrow> step list \<Rightarrow> unit eng" where
  "resume_events env k completed steps =
     for_each (filter (is_completed completed) steps) (\<lambda>st.
       bindS (tick env) (\<lambda>at.
         record_event k (StepResumed (st_component st) (st_operation st) at)))"

definition submit_lab_async ::
    "eng_env \<Rightarrow> string \<Rightarrow> string option \<Rightarrow> string \<Rightarrow> identity option \<Rightarrow> string option \<Rightarrow> string option
       \<Rightarrow> op_doc eng" where
  "submit_lab_async env action selected actor ident approval_id retry_of =
     thenS (require_action_ready env action)
    (bindS (lift (lab_steps (ee_plan env) action selected)) (\<lambda>(operation, requested, steps).
     bindS (prepare_steps env operation requested steps actor retry_of ident approval_id
              (Some (action @ ''-lab''))) (\<lambda>(d, prepared).
       let d1 = d\<lparr>od_lab_action := Some action, od_selected := selected\<rparr>
       in bindS (case retry_of of
            None \<Rightarrow> ret (d1, prepared)
          | Some previous \<Rightarrow>
              bindS (gets (\<lambda>s. completed_pairs previous (es_store s))) (\<lambda>completed.
                let remaining = filter (\<lambda>st. \<not> is_completed completed st) prepared
                in thenS (resume_events env (od_id d1) completed prepared)
                     (ret (d1\<lparr>od_completed := length prepared - length remaining\<rparr>, remaining))))
          (\<lambda>(d2, remaining).
             thenS (store_update d2)
            (thenS (start_worker d2 remaining) (store_get (od_id d2)))))))"

record clean_plan =
  cp_ready :: bool
  cp_preflight_ready :: bool
  cp_existing :: "string list"
  cp_plan :: plan_doc

definition clean_install_plan :: "eng_env \<Rightarrow> clean_plan eng" where
  "clean_install_plan env =
     (case (ee_preflight env, ee_footprint env) of
        (Some _, Some footprint_of) \<Rightarrow>
          bindS (lift (pe_order (ee_plan env) None)) (\<lambda>components.
          bindS (read_preflight env ''clean-install evidence is unavailable'') (\<lambda>preflight.
          bindS (handle (\<lambda>s. (footprint_of (es_footprints s) components,
                              s\<lparr>es_footprints := Suc (es_footprints s)\<rparr>))
                   (\<lambda>e. fail PreflightBlocked ''clean-install evidence is unavailable'')) (\<lambda>footprint.
            if set (map fst footprint) \<noteq> set components
            then fail PreflightBlocked ''clean-install footprint evidence is incomplete''
            else let existing = sort (map fst (filter (\<lambda>(c, st). st \<noteq> ''absent'') footprint))
              in bindS (lift (plan_request (ee_plan env) ''install'' components)) (\<lambda>plan.
                   ret \<lparr>cp_ready = (pf_ready preflight \<and> existing = []),
                        cp_preflight_ready = pf_ready preflight,
                        cp_existing = existing, cp_plan = plan\<rparr>))))
      | _ \<Rightarrow> fail PreflightBlocked ''clean-install observation is unavailable'')"

definition submit_clean_install_async :: "eng_env \<Rightarrow> string \<Rightarrow> identity option \<Rightarrow> op_doc eng" where
  "submit_clean_install_async env actor ident =
     bindS (clean_install_plan env) (\<lambda>plan.
       if \<not> cp_preflight_ready plan
       then fail PreflightBlocked ''deployment preflight has blocking checks''
       else if cp_existing plan \<noteq> []
       then fail ExistingInstallation
              ''existing installation or retained data requires operator review''
       else bindS (prepare env ''install'' (pd_requested (cp_plan plan)) actor None ident None
                     (Some ''clean-install'')) (\<lambda>(d, steps).
              thenS (start_worker d steps) (store_get (od_id d))))"

definition retryable :: "op_state \<Rightarrow> bool" where
  "retryable st \<longleftrightarrow> st \<in> set TERMINAL_STATES - {Succeeded, Cancelled}"

definition retry ::
    "eng_env \<Rightarrow> string \<Rightarrow> string \<Rightarrow> identity option \<Rightarrow> string option \<Rightarrow> op_doc eng" where
  "retry env k actor ident approval_id =
     bindS (store_get k) (\<lambda>previous.
       if \<not> retryable (od_state previous)
       then fail InvalidOperation
              ''only a failed, timed-out, or interrupted operation can retry''
       else submit env (od_operation previous) (od_requested previous) actor (Some k) ident
              approval_id)"

definition retry_clean_install ::
    "eng_env \<Rightarrow> string \<Rightarrow> op_doc \<Rightarrow> string \<Rightarrow> identity option \<Rightarrow> string option \<Rightarrow> op_doc eng" where
  "retry_clean_install env k previous actor ident approval_id =
     bindS (read_preflight env ''clean-install preflight is unavailable'') (\<lambda>preflight.
       if \<not> pf_ready preflight
       then fail PreflightBlocked ''deployment preflight has blocking checks''
       else bindS (gets (\<lambda>s. completed_pairs k (es_store s))) (\<lambda>completed.
            bindS (prepare env (od_operation previous) (od_requested previous) actor (Some k) ident
                     approval_id (Some ''clean-install'')) (\<lambda>(d, steps).
              let remaining = filter (\<lambda>st. \<not> is_completed completed st) steps;
                  d1 = d\<lparr>od_completed := length steps - length remaining\<rparr>
              in thenS (store_update d1)
                (thenS (resume_events env (od_id d1) completed steps)
                (thenS (start_worker d1 remaining) (store_get (od_id d1)))))))"

definition ends_with :: "string \<Rightarrow> string \<Rightarrow> bool" where
  "ends_with s suffix \<longleftrightarrow> drop (length s - length suffix) s = suffix"

definition retry_async ::
    "eng_env \<Rightarrow> string \<Rightarrow> string \<Rightarrow> identity option \<Rightarrow> string option \<Rightarrow> op_doc eng" where
  "retry_async env k actor ident approval_id =
     bindS (store_get k) (\<lambda>previous.
       if \<not> retryable (od_state previous)
       then fail InvalidOperation
              ''only a failed, timed-out, or interrupted operation can retry''
       else let workflow = (case od_workflow previous of None \<Rightarrow> [] | Some w \<Rightarrow> w)
         in if ends_with workflow ''-lab''
            then (case od_lab_action previous of
                    None \<Rightarrow> fail PyKeyError ''labAction''
                  | Some action \<Rightarrow>
                      submit_lab_async env action (od_selected previous) actor ident approval_id (Some k))
            else if workflow = ''clean-install''
            then retry_clean_install env k previous actor ident approval_id
            else submit_async env (od_operation previous) (od_requested previous) actor (Some k) ident
                   approval_id)"

definition cancel :: "eng_env \<Rightarrow> string \<Rightarrow> string \<Rightarrow> identity option \<Rightarrow> op_doc eng" where
  "cancel env k actor ident =
     (if actor = [] then fail InvalidOperation ''actor is required''
      else if ee_auth env \<noteq> None
              \<and> (case ident of None \<Rightarrow> True | Some idn \<Rightarrow> id_actor idn \<noteq> actor)
      then fail InvalidOperation ''authenticated identity is required''
      else bindS (store_get k) (\<lambda>d.
             if od_state d \<in> set TERMINAL_STATES then ret d
             else thenS (modify (\<lambda>s. s\<lparr>es_cancelled := k # es_cancelled s\<rparr>))
               (bindS (tick env) (\<lambda>now.
                  let d' = d\<lparr>od_state := Cancelling, od_updated := now\<rparr>
                  in thenS (store_update d')
                    (thenS (record_event k (CancellationRequested actor now)) (ret d'))))))"

section \<open>What the worker's calls change\<close>

fun succeeded_pair :: "op_event \<Rightarrow> (string \<times> string) option" where
  "succeeded_pair (StepSucceeded c op n at) = Some (c, op)"
| "succeeded_pair e = None"

definition succeeded_pairs :: "string \<Rightarrow> op_store \<Rightarrow> (string \<times> string) list" where
  "succeeded_pairs k st = List.map_filter succeeded_pair (st_events k st)"

text \<open>A document up to the time of its last save and the attempt counter of its current step.\<close>

definition core :: "op_doc \<Rightarrow> op_doc" where
  "core d = d\<lparr>od_updated := 0, od_current := map_option (\<lambda>cu. cu\<lparr>cu_attempt := 0\<rparr>) (od_current d)\<rparr>"

definition row_keys :: "op_store \<Rightarrow> string list" where
  "row_keys st = map fst (os_rows st)"

definition progress :: "string \<Rightarrow> (string \<times> string) list \<Rightarrow> eng_state \<Rightarrow> eng_state \<Rightarrow> bool" where
  "progress k xs s s' \<longleftrightarrow>
     core (es_doc s') = core (es_doc s)
   \<and> succeeded_pairs k (es_store s') = succeeded_pairs k (es_store s) @ xs
   \<and> row_keys (es_store s') = row_keys (es_store s)
   \<and> es_workers s' = es_workers s"

interpretation quiet: evolution "progress k []" for k
  by unfold_locales (auto simp: progress_def)

lemma progress_trans: "progress k xs s t \<Longrightarrow> progress k ys t u \<Longrightarrow> progress k (xs @ ys) s u"
  by (simp add: progress_def)

lemma succeeded_event:
  "succeeded_pairs k (st_event i e st) = succeeded_pairs k st @
     (case succeeded_pair e of Some x \<Rightarrow> if i = k then [x] else [] | None \<Rightarrow> [])"
  by (cases e) (auto simp: succeeded_pairs_def st_events_def st_event_def map_filter_def)

lemma succeeded_update [simp]: "succeeded_pairs k (st_update d st) = succeeded_pairs k st"
  by (simp add: succeeded_pairs_def st_events_def st_update_def)

lemma row_keys_simps [simp]:
  "row_keys (st_update d st) = row_keys st" "row_keys (st_event i e st) = row_keys st"
  by (simp_all add: row_keys_def) (simp add: st_event_def)

lemma quiet_calls:
  "evolves (progress k []) (tick env)" "evolves (progress k []) (monotonic env)"
  "evolves (progress k []) (look_cancelled env i)" "evolves (progress k []) (adapter_execute env st)"
  "evolves (progress k []) (verifier_verify env c check)"
  "succeeded_pair e = None \<Longrightarrow> evolves (progress k []) (record_event i e)"
  "evolves (progress k []) (upd_doc (set_attempt n))"
  "evolves (progress k []) (upd_doc (\<lambda>d. d\<lparr>od_updated := now\<rparr>))"
  "evolves (progress k []) (modify (\<lambda>s. s\<lparr>es_store := st_update (es_doc s) (es_store s)\<rparr>))"
  by (simp_all add: evolves_def progress_def tick_def monotonic_def look_cancelled_def
      adapter_execute_def verifier_verify_def record_event_def upd_doc_def set_attempt_def core_def
      succeeded_event option.map_comp comp_def)

lemmas quiet = quiet.ev_rules quiet_calls

lemma quiet_save: "evolves (progress k []) (save env)"
  unfolding save_def by (intro quiet)

lemma quiet_boundary: "evolves (progress k []) (check_boundary env i deadline)"
  unfolding check_boundary_def by (intro quiet)

lemma quiet_verify_all: "evolves (progress k []) (verify_all env i deadline c checks)"
proof (induction checks)
  case Nil
  show ?case unfolding verify_all.simps by (intro quiet)
next
  case (Cons check checks)
  then show ?case unfolding verify_all.simps by (intro quiet quiet_boundary)
qed

lemma quiet_attempt_failed: "evolves (progress k []) (attempt_failed env i st n)"
  unfolding attempt_failed_def by (intro quiet) simp

text \<open>An outcome: the success of the step is recorded exactly when the call returns.\<close>

definition step_outcome :: "string \<Rightarrow> step \<Rightarrow> eng_state \<Rightarrow> unit result \<times> eng_state \<Rightarrow> bool" where
  "step_outcome k st s out \<longleftrightarrow>
     progress k (case fst out of Inr _ \<Rightarrow> [(st_component st, st_operation st)] | Inl _ \<Rightarrow> []) s (snd out)"

lemma step_outcome_after:
  assumes "evolves (progress k []) m" and "\<And>x t. step_outcome k st t (f x t)"
  shows "step_outcome k st s (bindS m f s)"
proof (cases "m s")
  case (Pair r t)
  have q: "progress k [] s t" using evolvesD[OF assms(1) Pair] .
  show ?thesis
  proof (cases r)
    case (Inl e)
    then show ?thesis using q Pair by (simp add: step_outcome_def)
  next
    case (Inr x)
    then have "bindS m f s = f x t" using Pair by simp
    with assms(2)[of t x] progress_trans[OF q] show ?thesis by (simp add: step_outcome_def)
  qed
qed

lemma attempt_once_outcome: "step_outcome k st s (attempt_once env k st deadline n s)"
  unfolding attempt_once_def
  by (intro step_outcome_after quiet quiet_boundary quiet_verify_all)
    (simp add: step_outcome_def record_event_def progress_def succeeded_event)

lemma step_outcome_handle:
  assumes "\<And>s. step_outcome k st s (m s)" and "\<And>e t. step_outcome k st t (h e t)"
  shows "step_outcome k st s (handle m h s)"
proof (cases "m s")
  case (Pair r t)
  with assms(1)[of s] have out: "step_outcome k st s (r, t)" by simp
  show ?thesis
  proof (cases r)
    case (Inl e)
    then have "progress k [] s t" using out by (simp add: step_outcome_def)
    with assms(2)[of t e] progress_trans[of k "[]" s t] Inl Pair show ?thesis
      by (simp add: step_outcome_def)
  next
    case (Inr x)
    with out Pair show ?thesis by simp
  qed
qed

lemma attempts_outcome:
  "ns \<noteq> [] \<Longrightarrow> last ns = st_max_attempts st \<Longrightarrow> step_outcome k st s (attempts env k st ns s)"
proof (induction ns arbitrary: s)
  case (Cons n ns)
  have refl: "step_outcome k st t (throw e t)" for e t
    by (simp add: step_outcome_def progress_def)
  have rest: "step_outcome k st t
      ((if n = st_max_attempts st then throw e else attempts env k st ns) t)" for e t
    using Cons refl by (cases ns) auto
  have "step_outcome k st t ((if catches [StepCancelled, StepTimedOut] e then throw e
      else thenS (attempt_failed env k st n)
             (if n = st_max_attempts st then throw e else attempts env k st ns)) t)" for e t
    using refl step_outcome_after[OF quiet_attempt_failed, of k st] rest by simp
  then show ?case
    unfolding attempts.simps
    by (intro step_outcome_after step_outcome_handle quiet quiet_save attempt_once_outcome)
qed simp

lemma execute_step_outcome:
  "1 \<le> st_max_attempts st \<Longrightarrow> step_outcome k st s (execute_step env k st s)"
  unfolding execute_step_def by (rule attempts_outcome) (simp_all add: upto_rec2)

section \<open>A whole run\<close>

text \<open>
  Running the steps \<open>sts\<close> from number \<open>index\<close> on: \<open>j\<close> of them succeed, exactly those are recorded,
  and when the run stops early the current step is the one that failed.
\<close>

definition at_step :: "nat \<Rightarrow> step \<Rightarrow> op_doc \<Rightarrow> bool" where
  "at_step index st d \<longleftrightarrow>
     (\<exists>cu. od_current d = Some cu \<and> cu_number cu = index \<and> cu_component cu = st_component st
        \<and> cu_operation cu = st_operation st)"

definition kept :: "op_doc \<Rightarrow> op_doc \<Rightarrow> bool" where
  "kept d d' \<longleftrightarrow> od_id d' = od_id d \<and> od_operation d' = od_operation d
     \<and> od_components d' = od_components d \<and> od_requested d' = od_requested d
     \<and> od_total d' = od_total d \<and> od_workflow d' = od_workflow d"

definition steps_outcome ::
    "string \<Rightarrow> nat \<Rightarrow> step list \<Rightarrow> eng_state \<Rightarrow> unit result \<times> eng_state \<Rightarrow> bool" where
  "steps_outcome k index sts s out \<longleftrightarrow>
     (\<exists>j\<le>length sts.
        succeeded_pairs k (es_store (snd out)) = succeeded_pairs k (es_store s)
          @ map (\<lambda>st. (st_component st, st_operation st)) (take j sts)
      \<and> row_keys (es_store (snd out)) = row_keys (es_store s)
      \<and> es_workers (snd out) = es_workers s
      \<and> kept (es_doc s) (es_doc (snd out))
      \<and> od_completed (es_doc (snd out))
          = (if j = 0 then od_completed (es_doc s) else index + j - 1)
      \<and> (if j = length sts then fst out = Inr () \<or> sts = []
         else (\<exists>e. fst out = Inl e) \<and> at_step (index + j) (sts ! j) (es_doc (snd out)))
      \<and> (sts = [] \<longrightarrow> fst out = Inr ()))"

lemma core_kept: "core d' = core d \<Longrightarrow> kept d d' \<and> od_completed d' = od_completed d
    \<and> (at_step n st d \<longrightarrow> at_step n st d')"
proof -
  assume eq: "core d' = core d"
  have fields: "od_id (core x) = od_id x \<and> od_operation (core x) = od_operation x
      \<and> od_components (core x) = od_components x \<and> od_requested (core x) = od_requested x
      \<and> od_total (core x) = od_total x \<and> od_workflow (core x) = od_workflow x
      \<and> od_completed (core x) = od_completed x
      \<and> od_current (core x) = map_option (\<lambda>cu. cu\<lparr>cu_attempt := 0\<rparr>) (od_current x)" for x
    by (simp add: core_def)
  have at: "at_step n st (core x) = at_step n st x" for x
    by (cases "od_current x") (simp_all add: at_step_def core_def)
  from fields[of d] fields[of d'] at[of d] at[of d'] eq show ?thesis by (simp add: kept_def)
qed

lemma save_total: "\<exists>t. save env s = (Inr (), t)"
  by (simp add: save_def tick_def upd_doc_def bindS_def modify_def)

text \<open>The first step: it either raises at that step, or the rest runs from a state that has it done.\<close>

lemma run_steps_head:
  assumes "1 \<le> st_max_attempts st"
  obtains (raised) e t where "run_steps env k index (st # sts) s = (Inl e, t)"
      and "progress k [] (s\<lparr>es_doc := es_doc t\<rparr>) t" and "kept (es_doc s) (es_doc t)"
      and "od_completed (es_doc t) = od_completed (es_doc s)" and "at_step index st (es_doc t)"
  | (next_step) t where "run_steps env k index (st # sts) s = run_steps env k (Suc index) sts t"
      and "progress k [(st_component st, st_operation st)] (s\<lparr>es_doc := es_doc t\<rparr>) t"
      and "kept (es_doc s) (es_doc t)" and "od_completed (es_doc t) = index"
proof -
  let ?cur = "\<lambda>d. d\<lparr>od_current := Some \<lparr>cu_number = index, cu_component = st_component st,
      cu_operation = st_operation st, cu_attempt = 0\<rparr>\<rparr>"
  let ?s1 = "s\<lparr>es_doc := ?cur (es_doc s)\<rparr>"
  obtain s2 where s2: "save env ?s1 = (Inr (), s2)" using save_total by blast
  have p2: "progress k [] ?s1 s2" by (rule evolvesD[OF quiet_save s2])
  obtain r s3 where ex: "execute_step env k st s2 = (r, s3)" by (cases "execute_step env k st s2")
  let ?new = "case r of Inr _ \<Rightarrow> [(st_component st, st_operation st)] | Inl _ \<Rightarrow> []"
  have p3: "progress k ?new s2 s3"
    using execute_step_outcome[OF assms, of k s2 env] ex by (simp add: step_outcome_def)
  have p13: "progress k ?new ?s1 s3" using progress_trans[OF p2 p3] by simp
  then have c3: "core (es_doc s3) = core (es_doc ?s1)" by (simp add: progress_def)
  have k3: "kept (es_doc s) (es_doc s3)" "od_completed (es_doc s3) = od_completed (es_doc s)"
      "at_step index st (es_doc s3)"
    using core_kept[OF c3, of index st] by (simp_all add: kept_def at_step_def)
  have head: "upd_doc ?cur s = (Inr (), ?s1)" by (simp add: upd_doc_def)
  show ?thesis
  proof (cases r)
    case (Inl e)
    show ?thesis
      by (rule raised[of e s3]) (use head s2 ex p13 k3 Inl in \<open>simp_all add: progress_def\<close>)
  next
    case (Inr u)
    let ?s4 = "s3\<lparr>es_doc := (es_doc s3)\<lparr>od_completed := index\<rparr>\<rparr>"
    obtain s5 where s5: "save env ?s4 = (Inr (), s5)" using save_total by blast
    have p5: "progress k [] ?s4 s5" by (rule evolvesD[OF quiet_save s5])
    then have c5: "core (es_doc s5) = core (es_doc ?s4)" by (simp add: progress_def)
    have "upd_doc (\<lambda>d. d\<lparr>od_completed := index\<rparr>) s3 = (Inr (), ?s4)" by (simp add: upd_doc_def)
    with head s2 ex Inr s5 have "run_steps env k index (st # sts) s = run_steps env k (Suc index) sts s5"
      by simp
    then show ?thesis
      by (rule next_step) (use p13 p5 k3 Inr core_kept[OF c5, of index st] in
        \<open>simp_all add: progress_def kept_def\<close>)
  qed
qed

lemma run_steps_outcome:
  "(\<And>st. st \<in> set sts \<Longrightarrow> 1 \<le> st_max_attempts st) \<Longrightarrow>
     steps_outcome k index sts s (run_steps env k index sts s)"
proof (induction sts arbitrary: index s)
  case Nil
  show ?case by (simp add: steps_outcome_def kept_def)
next
  case (Cons st sts)
  have "1 \<le> st_max_attempts st" using Cons.prems by simp
  then show ?case
  proof (cases rule: run_steps_head[where env = env and k = k and index = index and sts = sts and s = s])
    case (raised e t)
    then show ?thesis
      unfolding steps_outcome_def by (intro exI[of _ 0]) (auto simp: progress_def)
  next
    case (next_step t)
    have "steps_outcome k (Suc index) sts t (run_steps env k (Suc index) sts t)"
      using Cons.IH[where index = "Suc index" and s = t] Cons.prems by simp
    then obtain j where "j \<le> length sts"
      and "succeeded_pairs k (es_store (snd (run_steps env k (Suc index) sts t)))
          = succeeded_pairs k (es_store t)
            @ map (\<lambda>st. (st_component st, st_operation st)) (take j sts)"
        "row_keys (es_store (snd (run_steps env k (Suc index) sts t))) = row_keys (es_store t)"
        "es_workers (snd (run_steps env k (Suc index) sts t)) = es_workers t"
        "kept (es_doc t) (es_doc (snd (run_steps env k (Suc index) sts t)))"
      and "od_completed (es_doc (snd (run_steps env k (Suc index) sts t)))
          = (if j = 0 then od_completed (es_doc t) else Suc index + j - 1)"
      and "if j = length sts then fst (run_steps env k (Suc index) sts t) = Inr () \<or> sts = []
         else (\<exists>e. fst (run_steps env k (Suc index) sts t) = Inl e)
           \<and> at_step (Suc index + j) (sts ! j) (es_doc (snd (run_steps env k (Suc index) sts t)))"
      and "sts = [] \<longrightarrow> fst (run_steps env k (Suc index) sts t) = Inr ()"
      unfolding steps_outcome_def by blast
    then show ?thesis
      unfolding steps_outcome_def next_step(1)
      using next_step(2-4) by (intro exI[of _ "Suc j"]) (auto simp: kept_def progress_def)
  qed
qed

lemma save_stores:
  assumes "save env s = (Inr (), t)" and "od_id (es_doc s) \<in> set (row_keys (es_store s))"
  shows "es_doc t = (es_doc s)\<lparr>od_updated := ee_clock env (es_ticks s)\<rparr>
    \<and> st_get (od_id (es_doc s)) (es_store t) = Inr (payload (es_doc t))"
proof -
  have "map_of (os_rows (es_store s)) (od_id (es_doc s)) \<noteq> None"
    using assms(2) by (simp add: row_keys_def map_of_eq_None_iff)
  with assms(1) show ?thesis
    by (auto simp: save_def tick_def upd_doc_def bindS_def modify_def st_get_update)
qed

definition recovery_class :: "string \<Rightarrow> recovery" where
  "recovery_class operation =
     (case map_of RECOVERY_CLASS_BY_OPERATION operation of None \<Rightarrow> Irreversible | Some r \<Rightarrow> r)"

lemma run_raised_facts:
  "kept d (run_raised e d)" "od_completed (run_raised e d) = od_completed d"
  "od_state (run_raised e d) \<in> {Cancelled, TimedOut, Failed}"
  "od_state (run_raised e d) = Cancelled \<longleftrightarrow> catches [StepCancelled] e"
  "od_rec_required (run_raised e d)" "od_error (run_raised e d) \<noteq> None"
  "at_step n st d \<Longrightarrow> od_rec_boundary (run_raised e d) = recovery_class (st_operation st)"
  by (auto simp: run_raised_def set_recovery_def Let_def kept_def at_step_def recovery_class_def)

text \<open>How a run has ended, given its number of steps, where it started and how it is left.\<close>

definition run_ended ::
    "step list \<Rightarrow> nat \<Rightarrow> op_doc \<Rightarrow> op_doc \<Rightarrow> bool" where
  "run_ended steps j d d' \<longleftrightarrow>
     kept d d' \<and> od_completed d' = od_completed d + j
   \<and> (if j = length steps
      then od_state d' = Succeeded \<and> od_error d' = None \<and> od_current d' = None
      else od_state d' \<in> {Cancelled, TimedOut, Failed} \<and> od_error d' \<noteq> None \<and> od_rec_required d'
         \<and> od_rec_boundary d' = recovery_class (st_operation (steps ! j)))"

lemma run_ended_save: "run_ended steps j d d' \<Longrightarrow> run_ended steps j d (d'\<lparr>od_updated := now\<rparr>)"
  unfolding run_ended_def kept_def by (cases "j = length steps") auto

lemma run_ended_start:
  "kept d d1 \<Longrightarrow> od_completed d1 = od_completed d \<Longrightarrow> run_ended steps j d1 d' \<Longrightarrow> run_ended steps j d d'"
  unfolding run_ended_def kept_def by (cases "j = length steps") auto

lemma run_body_outcome:
  assumes "\<And>st. st \<in> set steps \<Longrightarrow> 1 \<le> st_max_attempts st"
    and k: "k = od_id (es_doc s)"
  shows "\<exists>j t. j \<le> length steps
     \<and> handle (thenS (run_steps env k (Suc (od_completed (es_doc s))) steps) (upd_doc run_succeeded))
          (\<lambda>e. upd_doc (run_raised e)) s = (Inr (), t)
     \<and> succeeded_pairs k (es_store t) = succeeded_pairs k (es_store s)
          @ map (\<lambda>st. (st_component st, st_operation st)) (take j steps)
     \<and> row_keys (es_store t) = row_keys (es_store s) \<and> es_workers t = es_workers s
     \<and> run_ended steps j (es_doc s) (es_doc t)"
proof -
  let ?i = "Suc (od_completed (es_doc s))"
  obtain r t where run: "run_steps env k ?i steps s = (r, t)" by (cases "run_steps env k ?i steps s")
  have "steps_outcome k ?i steps s (r, t)"
    using run_steps_outcome[of steps k ?i s env] assms(1) run by simp
  then obtain j where j: "j \<le> length steps"
    and ev: "succeeded_pairs k (es_store t) = succeeded_pairs k (es_store s)
          @ map (\<lambda>st. (st_component st, st_operation st)) (take j steps)"
      "row_keys (es_store t) = row_keys (es_store s)" "es_workers t = es_workers s"
      "kept (es_doc s) (es_doc t)"
    and cj: "od_completed (es_doc t) = (if j = 0 then od_completed (es_doc s) else ?i + j - 1)"
    and fj: "if j = length steps then r = Inr () \<or> steps = []
         else (\<exists>e. r = Inl e) \<and> at_step (?i + j) (steps ! j) (es_doc t)"
    and nil: "steps = [] \<longrightarrow> r = Inr ()"
    unfolding steps_outcome_def fst_conv snd_conv by blast
  have co: "od_completed (es_doc t) = od_completed (es_doc s) + j"
    using cj by (cases "j = 0") simp_all
  have fin: "if j = length steps then r = Inr ()
         else (\<exists>e. r = Inl e) \<and> at_step (?i + j) (steps ! j) (es_doc t)"
    using fj nil by (cases "j = length steps") auto
  show ?thesis
  proof (cases "j = length steps")
    case True
    with fin run have "handle (thenS (run_steps env k ?i steps) (upd_doc run_succeeded))
          (\<lambda>e. upd_doc (run_raised e)) s = (Inr (), t\<lparr>es_doc := run_succeeded (es_doc t)\<rparr>)"
      by (simp add: handle_def bindS_def upd_doc_def)
    moreover have "run_ended steps j (es_doc s) (run_succeeded (es_doc t))"
      using True ev co by (simp add: run_ended_def run_succeeded_def kept_def)
    ultimately show ?thesis using j ev by (intro exI[of _ j]) simp
  next
    case False
    with fin obtain e where e: "r = Inl e" and at: "at_step (?i + j) (steps ! j) (es_doc t)" by auto
    with run have "handle (thenS (run_steps env k ?i steps) (upd_doc run_succeeded))
          (\<lambda>e. upd_doc (run_raised e)) s = (Inr (), t\<lparr>es_doc := run_raised e (es_doc t)\<rparr>)"
      by (simp add: handle_def bindS_def upd_doc_def)
    moreover have "run_ended steps j (es_doc s) (run_raised e (es_doc t))"
      using False ev co run_raised_facts[where d = "es_doc t" and e = e] run_raised_facts(7)[OF at, of e]
      by (simp add: run_ended_def kept_def)
    ultimately show ?thesis using j ev by (intro exI[of _ j]) simp
  qed
qed

lemma run_outcome:
  assumes "\<And>st. st \<in> set steps \<Longrightarrow> 1 \<le> st_max_attempts st"
    and "od_id (es_doc s) \<in> set (row_keys (es_store s))"
  shows "\<exists>j t. j \<le> length steps \<and> run env steps s = (Inr (), t)
     \<and> succeeded_pairs (od_id (es_doc s)) (es_store t)
         = succeeded_pairs (od_id (es_doc s)) (es_store s)
           @ map (\<lambda>st. (st_component st, st_operation st)) (take j steps)
     \<and> od_id (es_doc s) \<notin> set (es_cancelled t)
     \<and> st_get (od_id (es_doc s)) (es_store t) = Inr (payload (es_doc t))
     \<and> row_keys (es_store t) = row_keys (es_store s) \<and> es_workers t = es_workers s
     \<and> run_ended steps j (es_doc s) (es_doc t)"
proof -
  let ?k = "od_id (es_doc s)"
  let ?s1 = "s\<lparr>es_doc := (es_doc s)\<lparr>od_state := Running\<rparr>\<rparr>"
  obtain s2 where s2: "save env ?s1 = (Inr (), s2)" using save_total by blast
  have p2: "progress ?k [] ?s1 s2" by (rule evolvesD[OF quiet_save s2])
  then have c2: "core (es_doc s2) = core (es_doc ?s1)" by (simp add: progress_def)
  have d2: "kept (es_doc s) (es_doc s2)" "od_completed (es_doc s2) = od_completed (es_doc s)"
    using core_kept[OF c2] by (simp_all add: kept_def)
  then have id2: "od_id (es_doc s2) = ?k" by (simp add: kept_def)
  obtain j t where j: "j \<le> length steps"
    and body: "handle (thenS (run_steps env ?k (Suc (od_completed (es_doc s2))) steps)
          (upd_doc run_succeeded)) (\<lambda>e. upd_doc (run_raised e)) s2 = (Inr (), t)"
    and ev: "succeeded_pairs ?k (es_store t) = succeeded_pairs ?k (es_store s2)
          @ map (\<lambda>st. (st_component st, st_operation st)) (take j steps)"
      "row_keys (es_store t) = row_keys (es_store s2)" "es_workers t = es_workers s2"
    and ended: "run_ended steps j (es_doc s2) (es_doc t)"
    using run_body_outcome[OF assms(1), of steps ?k s2 env] id2 by auto
  let ?t1 = "t\<lparr>es_cancelled := removeAll ?k (es_cancelled t)\<rparr>"
  obtain u where u: "save env ?t1 = (Inr (), u)" using save_total by blast
  have pu: "progress ?k [] ?t1 u" by (rule evolvesD[OF quiet_save u])
  have idt: "od_id (es_doc t) = ?k" using ended id2 by (simp add: run_ended_def kept_def)
  have keys: "row_keys (es_store t) = row_keys (es_store s)" using ev p2 by (simp add: progress_def)
  have st: "es_doc u = (es_doc t)\<lparr>od_updated := ee_clock env (es_ticks t)\<rparr>"
    "st_get ?k (es_store u) = Inr (payload (es_doc u))"
    using save_stores[OF u] idt keys assms(2) by simp_all
  have "es_cancelled u = removeAll ?k (es_cancelled t)"
    using u by (auto simp: save_def tick_def upd_doc_def bindS_def modify_def)
  moreover have "run env steps s = (Inr (), u)"
    using s2 body u by (simp add: run_def upd_doc_def modify_def bindS_def)
  moreover have "run_ended steps j (es_doc s) (es_doc u)"
    using run_ended_start[OF d2 run_ended_save[OF ended]] st(1) by simp
  ultimately show ?thesis
    using j ev st(2) pu p2 keys by (intro exI[of _ j] exI[of _ u]) (simp add: progress_def)
qed

section \<open>What preparing has checked\<close>

lemma authorize_plan_Inr:
  assumes "authorize_plan env op targets actor ident aid s = (Inr (), s')" and "ee_auth env = Some ae"
  shows "\<exists>idn f current. ident = Some idn \<and> id_actor idn = actor \<and> ee_state env = Some f
    \<and> f (es_observed s) targets = Inr current
    \<and> authorize ae \<lparr>pl_operation = op, pl_targets = targets, pl_state = current\<rparr> idn aid
        (Some (f (Suc (es_observed s)) targets)) (es_auth s) = (Inr (), es_auth s')"
proof -
  obtain idn f where idn: "ident = Some idn" and f: "ee_state env = Some f"
    and actor: "id_actor idn = actor"
    using assms by (cases ident; cases "ee_state env") (auto simp: authorize_plan_def split: if_splits)
  obtain current where cur: "f (es_observed s) targets = Inr current"
    using assms idn f actor
    by (cases "f (es_observed s) targets")
      (auto simp: authorize_plan_def observe_state_def handle_def bindS_def)
  have "authorize ae \<lparr>pl_operation = op, pl_targets = targets, pl_state = current\<rparr> idn aid
        (Some (f (Suc (es_observed s)) targets)) (es_auth s) = (Inr (), es_auth s')"
    using assms idn f actor cur
    by (auto simp: authorize_plan_def observe_state_def handle_def bindS_def split: prod.splits)
  with idn f actor cur show ?thesis by blast
qed

lemma authorize_plan_frame:
  assumes "authorize_plan env op targets actor ident aid s = (r, s')"
  shows "es_store s' = es_store s \<and> es_workers s' = es_workers s"
proof -
  have ob: "es_store (snd (handle (observe_state env targets) (\<lambda>e. fail c m) t)) = es_store t
      \<and> es_workers (snd (handle (observe_state env targets) (\<lambda>e. fail c m) t)) = es_workers t" for t c m
    by (simp add: observe_state_def handle_def split: sum.splits option.splits)
  show ?thesis
  proof (cases "handle (observe_state env targets)
      (\<lambda>e. fail OperationError ''current target state is unavailable'') s")
    case (Pair x t)
    with ob[of OperationError "''current target state is unavailable''" s]
    have t: "es_store t = es_store s" "es_workers t = es_workers s" by simp_all
    show ?thesis
    proof (cases x)
      case (Inl e)
      with assms Pair t show ?thesis
        by (auto simp: authorize_plan_def split: option.splits if_splits)
    next
      case (Inr current)
      with assms Pair t show ?thesis
        by (auto simp: authorize_plan_def split: option.splits if_splits prod.splits)
    qed
  qed
qed

lemma st_create_Inr:
  assumes "st_create d st = Inr st'"
  shows "st_get k st' = (if k = od_id d then Inr (payload d) else st_get k st)"
    and "os_events st' = os_events st" and "row_keys st' = row_keys st @ [od_id d]"
    and "od_id d \<notin> set (row_keys st)"
    and "active_components st' = active_components st
      @ (if active (od_state d) then od_components d else [])"
  using st_get_create[OF assms] assms
  by (auto simp: st_create_def row_keys_def active_components_def split: if_splits)

lemma prepare_steps_Inr:
  assumes "prepare_steps env op comps steps actor ret_of ident aid wkf s = (Inr (d, sts), s')"
  shows "sts = steps"
    and "set (active_components (es_store s)) \<inter> set (affected steps) = {}"
    and "\<exists>t. authorize_plan env op (affected steps) actor ident aid s = (Inr (), t)
           \<and> es_auth s' = es_auth t"
    and "\<exists>now k b. d = new_document env k now op comps steps b actor ret_of wkf
           \<and> plan_recovery_boundary steps = Inr b"
    and "st_create d (es_store s) = Inr (es_store s')"
    and "es_workers s' = es_workers s"
proof -
  have free: "set (active_components (es_store s)) \<inter> set (affected steps) = {}"
    using assms by (auto simp: prepare_steps_def runs split: if_splits)
  obtain r t where au: "authorize_plan env op (affected steps) actor ident aid s = (r, t)"
    by (cases "authorize_plan env op (affected steps) actor ident aid s")
  have ok: "r = Inr ()"
    using assms free au by (cases r) (auto simp: prepare_steps_def)
  obtain b where b: "plan_recovery_boundary steps = Inr b"
    using assms free au ok
    by (cases "plan_recovery_boundary steps")
      (auto simp: prepare_steps_def tick_def new_id_def bindS_def)
  let ?d = "new_document env (ee_uuid env (es_ids t)) (ee_clock env (es_ticks t)) op comps steps b
      actor ret_of wkf"
  have run: "prepare_steps env op comps steps actor ret_of ident aid wkf s =
      (case st_create ?d (es_store t) of
         Inl e \<Rightarrow> (Inl e, t\<lparr>es_ticks := Suc (es_ticks t), es_ids := Suc (es_ids t)\<rparr>)
       | Inr st \<Rightarrow> (Inr (?d, steps), t\<lparr>es_ticks := Suc (es_ticks t), es_ids := Suc (es_ids t),
                                   es_store := st\<rparr>))"
    using free au ok b
    by (auto simp: prepare_steps_def tick_def new_id_def bindS_def Let_def split: sum.splits)
  obtain st where st: "st_create ?d (es_store t) = Inr st"
    using assms run by (cases "st_create ?d (es_store t)") simp_all
  have d: "d = ?d" "sts = steps" and s': "s' = t\<lparr>es_ticks := Suc (es_ticks t),
      es_ids := Suc (es_ids t), es_store := st\<rparr>"
    using assms unfolding run st sum.case by blast+
  note frame = authorize_plan_frame[OF au]
  show "sts = steps" by (rule d)
  show "set (active_components (es_store s)) \<inter> set (affected steps) = {}" by (rule free)
  show "\<exists>t. authorize_plan env op (affected steps) actor ident aid s = (Inr (), t)
      \<and> es_auth s' = es_auth t"
    using au ok s' by auto
  show "\<exists>now k b. d = new_document env k now op comps steps b actor ret_of wkf
      \<and> plan_recovery_boundary steps = Inr b"
    using d b by blast
  show "st_create d (es_store s) = Inr (es_store s')" using d st s' frame by simp
  show "es_workers s' = es_workers s" using s' frame by simp
qed

lemma resume_events_run:
  "\<exists>t. resume_events env k completed steps s = (Inr (), t)
     \<and> es_workers t = es_workers s \<and> os_rows (es_store t) = os_rows (es_store s)
     \<and> completed_pairs i (es_store t) = completed_pairs i (es_store s)
         @ (if i = k then map (\<lambda>st. (st_component st, st_operation st))
                            (filter (is_completed completed) steps) else [])"
proof -
  have "\<exists>t. for_each xs (\<lambda>st. bindS (tick env) (\<lambda>at.
            record_event k (StepResumed (st_component st) (st_operation st) at))) s = (Inr (), t)
     \<and> es_workers t = es_workers s \<and> os_rows (es_store t) = os_rows (es_store s)
     \<and> completed_pairs i (es_store t) = completed_pairs i (es_store s)
         @ (if i = k then map (\<lambda>st. (st_component st, st_operation st)) xs else [])" for xs :: "step list"
  proof (induction xs arbitrary: s)
    case (Cons x xs)
    let ?s = "s\<lparr>es_ticks := Suc (es_ticks s), es_store := st_event k
        (StepResumed (st_component x) (st_operation x) (ee_clock env (es_ticks s))) (es_store s)\<rparr>"
    have "completed_pairs i (es_store ?s) = completed_pairs i (es_store s)
        @ (if i = k then [(st_component x, st_operation x)] else [])"
      by (simp add: completed_pairs_def st_events_def st_event_def map_filter_def)
    moreover have "os_rows (es_store ?s) = os_rows (es_store s)" by (simp add: st_event_def)
    ultimately show ?case
      using Cons.IH[of ?s] by (auto simp: tick_def record_event_def bindS_def modify_def)
  qed simp
  then show ?thesis unfolding resume_events_def by blast
qed

section \<open>Properties\<close>

definition demo_engine :: eng_env where
  "demo_engine = \<lparr>ee_plan = demo_planner, ee_auth = Some demo_env, ee_clock = (\<lambda>n. int n),
     ee_mono = (\<lambda>n. int n), ee_uuid = (\<lambda>n. ''op'' @ replicate n CHR ''x''),
     ee_execute = (\<lambda>n st. Inr ()), ee_verify = (\<lambda>n c k. Inr True), ee_cancelled = (\<lambda>n k. False),
     ee_state = Some (\<lambda>n targets. Inr [(''ui'', ''running''), (''db'', ''running'')]),
     ee_preflight = Some (\<lambda>n. Inr \<lparr>pf_ready = True, pf_actions = [(''suspend'', True)]\<rparr>),
     ee_footprint = None\<rparr>"

definition demo_idle :: "auth_state \<Rightarrow> eng_state" where
  "demo_idle auth = \<lparr>es_store = \<lparr>os_rows = [(''r'', Queued, demo_doc ''r'' 0)], os_events = []\<rparr>,
     es_auth = auth, es_cancelled = [], es_workers = [], es_doc = demo_doc ''r'' 0, es_ticks = 0,
     es_monos = 0, es_ids = 0, es_looks = 0, es_execs = 0, es_checks = 0, es_observed = 0,
     es_preflights = 0, es_footprints = 0\<rparr>"

text \<open>
  C8. Every run ends, in a terminal state that says how far it got. Whatever the adapters, verifiers,
  clocks and cancellation requests do, \<^verbatim>\<open>_run\<close> raises nothing: for some j the first j steps, and no
  other, have been recorded as succeeded, in order, and counted; the stored document is the worker's;
  its id has left the cancellation set; it is \<^verbatim>\<open>succeeded\<close> exactly when j is the number of steps, and
  otherwise cancelled, timed out or failed with an error and a required recovery whose boundary is the
  class of the operation of the step that did not succeed.
\<close>

theorem run_ends:
  assumes "\<And>st. st \<in> set steps \<Longrightarrow> 1 \<le> st_max_attempts st"
    and "od_id (es_doc s) \<in> set (row_keys (es_store s))"
  shows "\<exists>j t. j \<le> length steps \<and> run env steps s = (Inr (), t)
     \<and> succeeded_pairs (od_id (es_doc s)) (es_store t)
         = succeeded_pairs (od_id (es_doc s)) (es_store s)
           @ map (\<lambda>st. (st_component st, st_operation st)) (take j steps)
     \<and> od_id (es_doc s) \<notin> set (es_cancelled t)
     \<and> st_get (od_id (es_doc s)) (es_store t) = Inr (payload (es_doc t))
     \<and> run_ended steps j (es_doc s) (es_doc t)"
  using run_outcome[OF assms] by blast

theorem run_ends_witness:
  "\<exists>j t. j \<le> length [demo_step ''db'' ''start'' 2]
     \<and> run demo_engine [demo_step ''db'' ''start'' 2] (demo_idle demo_start) = (Inr (), t)
     \<and> succeeded_pairs (od_id (es_doc (demo_idle demo_start))) (es_store t)
         = succeeded_pairs (od_id (es_doc (demo_idle demo_start))) (es_store (demo_idle demo_start))
           @ map (\<lambda>st. (st_component st, st_operation st)) (take j [demo_step ''db'' ''start'' 2])
     \<and> od_id (es_doc (demo_idle demo_start)) \<notin> set (es_cancelled t)
     \<and> st_get (od_id (es_doc (demo_idle demo_start))) (es_store t) = Inr (payload (es_doc t))
     \<and> run_ended [demo_step ''db'' ''start'' 2] j (es_doc (demo_idle demo_start)) (es_doc t)"
  by (rule run_ends) (simp_all add: demo_step_def demo_idle_def demo_doc_def row_keys_def)

lemma boundary_Inr:
  "check_boundary env k deadline s = (Inr (), s') \<longleftrightarrow>
     \<not> (k \<in> set (es_cancelled s) \<or> ee_cancelled env (es_looks s) k)
     \<and> ee_mono env (es_monos s) < deadline
     \<and> s' = s\<lparr>es_looks := Suc (es_looks s), es_monos := Suc (es_monos s)\<rparr>"
  by (auto simp: check_boundary_def runs look_cancelled_def monotonic_def split: if_splits)

lemma verify_all_Inr:
  "verify_all env k deadline c checks s = (Inr (), s') \<Longrightarrow>
     (\<forall>i<length checks. ee_verify env (es_checks s + i) c (checks ! i) = Inr True
        \<and> ee_mono env (es_monos s + i) < deadline \<and> \<not> ee_cancelled env (es_looks s + i) k)
     \<and> es_store s' = es_store s"
proof (induction checks arbitrary: s)
  case (Cons check checks)
  let ?s1 = "s\<lparr>es_looks := Suc (es_looks s), es_monos := Suc (es_monos s)\<rparr>"
  let ?s2 = "?s1\<lparr>es_checks := Suc (es_checks s)\<rparr>"
  from Cons.prems obtain t where "check_boundary env k deadline s = (Inr (), t)"
    by (auto simp: bindS_Inr_iff)
  then have b: "check_boundary env k deadline s = (Inr (), ?s1)"
    and now: "\<not> ee_cancelled env (es_looks s) k" "ee_mono env (es_monos s) < deadline"
    by (simp_all add: boundary_Inr)
  with Cons.prems have rest: "bindS (verifier_verify env c check) (\<lambda>ok.
         if \<not> ok then fail OperationError ''post-operation health verification failed''
         else verify_all env k deadline c checks) ?s1 = (Inr (), s')" by simp
  then have ok: "ee_verify env (es_checks s) c check = Inr True"
    and go: "verify_all env k deadline c checks ?s2 = (Inr (), s')"
    by (auto simp: bindS_Inr_iff verifier_verify_def split: if_splits)
  from Cons.IH[OF go] ok now show ?case by (auto simp: less_Suc_eq_0_disj)
qed simp

text \<open>
  A step is recorded as succeeded only when it was verified in time: if an attempt returns, its
  adapter call returned, every declared verification check was asked once, in order, and answered
  true, and before the adapter and before every check the operation was not cancelled and the deadline
  had not passed; and exactly one event was written.
\<close>

theorem attempt_verified:
  assumes "attempt_once env k st deadline n s = (Inr (), s')"
  shows "ee_execute env (es_execs s) st = Inr ()
    \<and> list_all (\<lambda>i. ee_verify env (es_checks s + i) (st_component st) (st_verify st ! i) = Inr True
         \<and> ee_mono env (es_monos s + 1 + i) < deadline \<and> \<not> ee_cancelled env (es_looks s + 1 + i) k)
        [0..<length (st_verify st)]
    \<and> k \<notin> set (es_cancelled s) \<and> \<not> ee_cancelled env (es_looks s) k
    \<and> ee_mono env (es_monos s) < deadline
    \<and> (\<exists>at. es_store s' = st_event k (StepSucceeded (st_component st) (st_operation st) n at)
                           (es_store s))"
proof -
  let ?s1 = "s\<lparr>es_looks := Suc (es_looks s), es_monos := Suc (es_monos s)\<rparr>"
  let ?s2 = "?s1\<lparr>es_execs := Suc (es_execs s)\<rparr>"
  from assms obtain t where "check_boundary env k deadline s = (Inr (), t)"
    by (auto simp: attempt_once_def bindS_Inr_iff)
  then have b: "check_boundary env k deadline s = (Inr (), ?s1)"
    and now: "k \<notin> set (es_cancelled s)" "\<not> ee_cancelled env (es_looks s) k"
      "ee_mono env (es_monos s) < deadline"
    by (simp_all add: boundary_Inr)
  with assms have "thenS (adapter_execute env st)
    (thenS (verify_all env k deadline (st_component st) (st_verify st))
      (bindS (tick env) (\<lambda>at.
         record_event k (StepSucceeded (st_component st) (st_operation st) n at)))) ?s1
    = (Inr (), s')" by (simp add: attempt_once_def)
  then obtain u where ex: "ee_execute env (es_execs s) st = Inr ()"
    and ver: "verify_all env k deadline (st_component st) (st_verify st) ?s2 = (Inr (), u)"
    and ev: "bindS (tick env) (\<lambda>at.
         record_event k (StepSucceeded (st_component st) (st_operation st) n at)) u = (Inr (), s')"
    by (auto simp: bindS_Inr_iff adapter_execute_def)
  have "\<exists>at. es_store s' = st_event k (StepSucceeded (st_component st) (st_operation st) n at)
      (es_store u)"
    using ev by (auto simp: bindS_Inr_iff tick_def record_event_def)
  with verify_all_Inr[OF ver] ex now show ?thesis by (simp add: list_all_iff)
qed

theorem attempt_verified_witness:
  "ee_execute demo_engine (es_execs (demo_idle demo_start)) (demo_step ''db'' ''start'' 2) = Inr ()
    \<and> list_all (\<lambda>i. ee_verify demo_engine (es_checks (demo_idle demo_start) + i)
           (st_component (demo_step ''db'' ''start'' 2))
           (st_verify (demo_step ''db'' ''start'' 2) ! i) = Inr True
         \<and> ee_mono demo_engine (es_monos (demo_idle demo_start) + 1 + i) < 100
         \<and> \<not> ee_cancelled demo_engine (es_looks (demo_idle demo_start) + 1 + i) ''r'')
        [0..<length (st_verify (demo_step ''db'' ''start'' 2))]
    \<and> ''r'' \<notin> set (es_cancelled (demo_idle demo_start))
    \<and> \<not> ee_cancelled demo_engine (es_looks (demo_idle demo_start)) ''r''
    \<and> ee_mono demo_engine (es_monos (demo_idle demo_start)) < 100
    \<and> (\<exists>at. es_store (snd (attempt_once demo_engine ''r'' (demo_step ''db'' ''start'' 2) 100 1
                              (demo_idle demo_start)))
           = st_event ''r'' (StepSucceeded (st_component (demo_step ''db'' ''start'' 2))
               (st_operation (demo_step ''db'' ''start'' 2)) 1 at) (es_store (demo_idle demo_start)))"
  by (rule attempt_verified)
    (simp add: attempt_once_def check_boundary_def look_cancelled_def monotonic_def
      adapter_execute_def verifier_verify_def tick_def record_event_def bindS_def modify_def
      demo_engine_def demo_idle_def demo_step_def)


definition demo_approved :: auth_state where
  "demo_approved = run_events (run_call demo_env) [CApprove ''id'' demo_identity None]
     (snd (request demo_env \<lparr>pl_operation = ''stop'', pl_targets = [''db''],
             pl_state = [(''ui'', ''running''), (''db'', ''running'')]\<rparr> demo_identity demo_start))"

definition demo_free :: "auth_state \<Rightarrow> eng_state" where
  "demo_free auth = (demo_idle auth)\<lparr>es_store := \<lparr>os_rows = [], os_events = []\<rparr>\<rparr>"

lemma demo_stop_authorized:
  "fst (authorize demo_env \<lparr>pl_operation = ''stop'', pl_targets = [''db''],
      pl_state = [(''ui'', ''running''), (''db'', ''running'')]\<rparr> demo_identity (Some ''id'')
      (Some (Inr [(''ui'', ''running''), (''db'', ''running'')])) demo_approved) = Inr ()"
  by code_simp

abbreviation demo_prepare :: "(exn + op_doc \<times> step list) \<times> eng_state" where
  "demo_prepare \<equiv> prepare_steps demo_engine ''stop'' [''db''] [demo_step ''db'' ''stop'' 1] ''op'' None
     (Some demo_identity) (Some ''id'') None (demo_free demo_approved)"

lemma demo_prepared: "\<exists>d. fst demo_prepare = Inr (d, [demo_step ''db'' ''stop'' 1])"
proof -
  have a: "affected [demo_step ''db'' ''stop'' 1] = [''db'']" by (simp add: affected_def demo_step_def)
  have "\<exists>t. authorize_plan demo_engine ''stop'' [''db''] ''op'' (Some demo_identity) (Some ''id'')
      (demo_free demo_approved) = (Inr (), t) \<and> es_store t = \<lparr>os_rows = [], os_events = []\<rparr>"
    using demo_stop_authorized
    by (auto simp: authorize_plan_def observe_state_def handle_def bindS_def demo_engine_def
        demo_identity_def demo_free_def demo_idle_def split: prod.splits)
  then show ?thesis
    by (auto simp: prepare_steps_def a active_components_def demo_free_def demo_idle_def tick_def
        new_id_def plan_recovery_boundary_def st_create_def bindS_def Let_def)
qed


section \<open>Retrying\<close>

lemma read_preflight_frame:
  "read_preflight env m s = (r, s') \<Longrightarrow> es_store s' = es_store s \<and> es_workers s' = es_workers s"
  by (auto simp: read_preflight_def handle_def split: option.splits sum.splits prod.splits)

lemma require_action_ready_Inr:
  assumes "require_action_ready env action s = (Inr (), s')"
  shows "es_store s' = es_store s \<and> es_workers s' = es_workers s"
proof -
  obtain r t where "read_preflight env ''selected action readiness is unavailable'' s = (r, t)"
    by (cases "read_preflight env ''selected action readiness is unavailable'' s")
  with assms read_preflight_frame[OF this] show ?thesis
    by (cases r) (auto simp: require_action_ready_def Let_def split: if_splits)
qed

lemma completed_create: "st_create d st = Inr st' \<Longrightarrow> completed_pairs k st' = completed_pairs k st"
  by (simp add: completed_pairs_def st_events_def st_create_Inr)

lemma completed_update [simp]: "completed_pairs k (st_update d st) = completed_pairs k st"
  by (simp add: completed_pairs_def st_events_def st_update_def)

lemma filter_lengths: "length xs - length (filter (\<lambda>x. \<not> P x) xs) + length (filter (\<lambda>x. \<not> P x) xs) = length xs"
  by (metis add.commute le_add_diff_inverse length_filter_le)

text \<open>
  Retrying a lab transition resumes it. The worker of the new operation gets exactly the planned
  steps that the previous operation neither completed nor had itself resumed, in plan order; the new
  document counts the others as completed, so that its numbering continues; and it records them as
  resumed, so that a further retry skips them too.
\<close>

theorem lab_retry_resumes:
  assumes "submit_lab_async env action sel actor ident aid (Some prev) s = (Inr doc, s')"
  shows "\<exists>operation requested steps d remaining.
      lab_steps (ee_plan env) action sel = Inr (operation, requested, steps)
    \<and> es_workers s' = es_workers s @ [(d, remaining)] \<and> doc = payload d
    \<and> remaining = filter (\<lambda>st. (st_component st, st_operation st)
                               \<notin> set (completed_pairs prev (es_store s))) steps
    \<and> od_completed d + length remaining = length steps \<and> od_total d = length steps
    \<and> od_retry_of d = Some prev \<and> od_lab_action d = Some action \<and> od_selected d = sel
    \<and> completed_pairs (od_id d) (es_store s') = completed_pairs (od_id d) (es_store s)
        @ map (\<lambda>st. (st_component st, st_operation st))
            (filter (is_completed (completed_pairs prev (es_store s))) steps)"
proof -
  obtain s1 where r1: "require_action_ready env action s = (Inr (), s1)"
    using assms by (auto simp: submit_lab_async_def bindS_Inr_iff)
  note f1 = require_action_ready_Inr[OF r1]
  obtain operation requested steps where lab: "lab_steps (ee_plan env) action sel
      = Inr (operation, requested, steps)"
    using assms r1 by (cases "lab_steps (ee_plan env) action sel") (auto simp: submit_lab_async_def)
  obtain d sts s2 where prep: "prepare_steps env operation requested steps actor (Some prev) ident aid
      (Some (action @ ''-lab'')) s1 = (Inr (d, sts), s2)"
    using assms r1 lab by (auto simp: submit_lab_async_def bindS_Inr_iff)
  note p = prepare_steps_Inr[OF prep]
  let ?done = "completed_pairs prev (es_store s)"
  have same: "completed_pairs k (es_store s2) = completed_pairs k (es_store s)" for k
    using completed_create[OF p(5)] f1 by simp
  let ?d1 = "d\<lparr>od_lab_action := Some action, od_selected := sel\<rparr>"
  let ?rem = "filter (\<lambda>st. \<not> is_completed ?done st) steps"
  let ?d2 = "?d1\<lparr>od_completed := length steps - length ?rem\<rparr>"
  obtain s3 where r3: "resume_events env (od_id d) ?done steps s2 = (Inr (), s3)"
    and f3: "es_workers s3 = es_workers s2" "os_rows (es_store s3) = os_rows (es_store s2)"
      "completed_pairs (od_id d) (es_store s3) = completed_pairs (od_id d) (es_store s2)
         @ map (\<lambda>st. (st_component st, st_operation st)) (filter (is_completed ?done) steps)"
    using resume_events_run[of env "od_id d" ?done steps s2 "od_id d"] by auto
  have "submit_lab_async env action sel actor ident aid (Some prev) s =
      store_get (od_id d) (s3\<lparr>es_store := st_update ?d2 (es_store s3),
                             es_workers := es_workers s3 @ [(?d2, ?rem)]\<rparr>)"
    using r1 lab prep r3 same p(1)
    by (simp add: submit_lab_async_def Let_def store_update_def start_worker_def)
  with assms have get: "st_get (od_id d) (st_update ?d2 (es_store s3)) = Inr doc"
    and s': "s' = s3\<lparr>es_store := st_update ?d2 (es_store s3),
                    es_workers := es_workers s3 @ [(?d2, ?rem)]\<rparr>"
    by (simp_all add: store_get_def)
  have "map_of (os_rows (es_store s3)) (od_id d) \<noteq> None"
    using st_create_Inr(3)[OF p(5)] f3(2) by (simp add: row_keys_def map_of_eq_None_iff flip: set_map)
  then have doc: "doc = payload ?d2" using get by (simp add: st_get_update)
  from p(4) have d: "od_total d = length steps" "od_retry_of d = Some prev"
    by (auto simp: new_document_def)
  show ?thesis
    using lab s' doc d f1 f3 same p(6) filter_lengths[of steps "is_completed ?done"]
    by (intro exI[of _ operation] exI[of _ requested] exI[of _ steps] exI[of _ ?d2] exI[of _ ?rem])
      (simp add: is_completed_def)
qed

definition demo_failed :: eng_state where
  "demo_failed = (demo_idle demo_start)\<lparr>es_store := \<lparr>os_rows = [(''old'', Failed, (demo_doc ''old'' 0)
       \<lparr>od_state := Failed, od_components := [''ui'', ''db'']\<rparr>)],
     os_events = [(''old'', StepSucceeded ''ui'' ''stop'' 1 0)]\<rparr>\<rparr>"

abbreviation demo_retry :: "(exn + op_doc) \<times> eng_state" where
  "demo_retry \<equiv> submit_lab_async (demo_engine\<lparr>ee_auth := None\<rparr>) ''suspend'' (Some ''db'') ''op'' None
     None (Some ''old'') demo_failed"

lemma demo_lab: "lab_steps demo_planner ''suspend'' (Some ''db'')
    = Inr (''stop'', [''db''], [demo_step ''ui'' ''stop'' 1, demo_step ''db'' ''stop'' 1])"
  using demo_plans(3)
  by (simp add: lab_steps_def lab_requested_def LAB_ACTIONS_def identifier_ok_def lower_def
      reg_component_def demo_planner_def mk_registry_def demo_comp_def)

lemma demo_retried: "\<exists>doc. fst demo_retry = Inr doc"
  by (simp add: submit_lab_async_def require_action_ready_def read_preflight_def handle_def bindS_def
      demo_lab demo_failed_def demo_idle_def demo_engine_def prepare_steps_def active_components_def
      active_def authorize_plan_def tick_def new_id_def plan_recovery_boundary_def demo_step_def
      st_create_def new_document_def affected_def resume_events_def is_completed_def
      completed_pairs_def st_events_def map_filter_def record_event_def modify_def st_event_def
      store_update_def start_worker_def store_get_def st_get_def st_update_def upd_row_def Let_def)

theorem lab_retry_resumes_witness:
  "\<exists>doc. fst demo_retry = Inr doc \<and> (\<exists>operation requested steps d remaining.
      lab_steps (ee_plan (demo_engine\<lparr>ee_auth := None\<rparr>)) ''suspend'' (Some ''db'')
        = Inr (operation, requested, steps)
    \<and> es_workers (snd demo_retry) = es_workers demo_failed @ [(d, remaining)] \<and> doc = payload d
    \<and> remaining = filter (\<lambda>st. (st_component st, st_operation st)
                               \<notin> set (completed_pairs ''old'' (es_store demo_failed))) steps
    \<and> od_completed d + length remaining = length steps \<and> od_total d = length steps
    \<and> od_retry_of d = Some ''old'' \<and> od_lab_action d = Some ''suspend'' \<and> od_selected d = Some ''db''
    \<and> completed_pairs (od_id d) (es_store (snd demo_retry))
        = completed_pairs (od_id d) (es_store demo_failed)
        @ map (\<lambda>st. (st_component st, st_operation st))
            (filter (is_completed (completed_pairs ''old'' (es_store demo_failed))) steps))"
proof -
  obtain doc where doc: "fst demo_retry = Inr doc" using demo_retried by blast
  then have "demo_retry = (Inr doc, snd demo_retry)" by (metis prod.collapse)
  from lab_retry_resumes[OF this] doc show ?thesis by (intro exI[of _ doc] conjI)
qed

end
