(* ===== verification/EngineRace.thy ===== *)
theory EngineRace
  imports Engine
begin

text \<open>
  The interleaving of the threads of \<^verbatim>\<open>OperationEngine\<close>. Requests and cancellations hold the engine's
  lock, the workers' saves do not: a cancellation reads the document and later writes it back, and a
  worker may save in between. The state is the store, the documents of the live workers, and the
  document that a cancellation holding the lock has read. The relation has one step per store
  statement of \<^verbatim>\<open>_prepare_steps\<close>, \<^verbatim>\<open>_run\<close> and \<^verbatim>\<open>cancel\<close>.
\<close>

record race_state =
  rs_store :: op_store
  rs_alive :: "string \<rightharpoonup> op_doc"
  rs_read :: "op_doc option"

inductive engine_step :: "race_state \<Rightarrow> race_state \<Rightarrow> bool" where
  prepared:
    "rs_read s = None \<Longrightarrow> set (active_components (rs_store s)) \<inter> set (od_components d) = {} \<Longrightarrow>
     od_state d = Queued \<Longrightarrow> st_create d (rs_store s) = Inr st \<Longrightarrow>
     engine_step s (s\<lparr>rs_store := st, rs_alive := (rs_alive s)(od_id d \<mapsto> d)\<rparr>)"
| saved:
    "rs_alive s k = Some d \<Longrightarrow> kept d d' \<Longrightarrow> od_state d' \<in> {Queued, Running} \<Longrightarrow>
     engine_step s (s\<lparr>rs_store := st_update d' (rs_store s), rs_alive := (rs_alive s)(k \<mapsto> d')\<rparr>)"
| finished:
    "rs_alive s k = Some d \<Longrightarrow> kept d d' \<Longrightarrow> od_state d' \<in> {Succeeded, Failed, TimedOut, Cancelled} \<Longrightarrow>
     engine_step s (s\<lparr>rs_store := st_update d' (rs_store s), rs_alive := (rs_alive s)(k := None)\<rparr>)"
| cancel_read:
    "rs_read s = None \<Longrightarrow> st_get k (rs_store s) = Inr d \<Longrightarrow> od_state d \<notin> set TERMINAL_STATES \<Longrightarrow>
     engine_step s (s\<lparr>rs_read := Some d\<rparr>)"
| cancel_write:
    "rs_read s = Some d \<Longrightarrow>
     engine_step s (s\<lparr>rs_store := st_update (d\<lparr>od_state := Cancelling, od_updated := now\<rparr>) (rs_store s),
                    rs_read := None\<rparr>)"

inductive_cases engine_stepE: "engine_step s s'"

text \<open>The engine starts on a store in which nothing is active, as \<open>startup\<close> leaves it.\<close>

definition fresh :: "race_state \<Rightarrow> bool" where
  "fresh s \<longleftrightarrow> rows_ok (rs_store s) \<and> active_components (rs_store s) = []
     \<and> list_all (\<lambda>(k, c, p). \<not> active c) (os_rows (rs_store s))
     \<and> rs_alive s = Map.empty \<and> rs_read s = None"

inductive reachable :: "race_state \<Rightarrow> bool" where
  start: "fresh s \<Longrightarrow> reachable s"
| step: "reachable s \<Longrightarrow> engine_step s s' \<Longrightarrow> reachable s'"

section \<open>Rows\<close>

abbreviation row_of :: "op_store \<Rightarrow> string \<Rightarrow> (op_state \<times> op_doc) option" where
  "row_of st \<equiv> map_of (os_rows st)"

lemma row_of_update:
  "row_of (st_update d st) k =
     (if k = od_id d \<and> row_of st k \<noteq> None then Some (od_state d, payload d) else row_of st k)"
  by (simp add: st_update_def map_of_upd_row)

lemma row_of_create:
  assumes "st_create d st = Inr st'"
  shows "row_of st' k = (if k = od_id d then Some (od_state d, payload d) else row_of st k)"
    and "row_of st (od_id d) = None"
proof -
  from assms have new: "od_id d \<notin> fst ` set (os_rows st)"
    and st': "st' = st\<lparr>os_rows := os_rows st @ [(od_id d, od_state d, payload d)]\<rparr>"
    by (auto simp: st_create_def split: if_splits)
  show none: "row_of st (od_id d) = None" using new by (simp add: map_of_eq_None_iff)
  then show "row_of st' k = (if k = od_id d then Some (od_state d, payload d) else row_of st k)"
    by (auto simp: st' map_add_def split: option.splits)
qed

lemma active_components_iff:
  assumes "distinct (map fst (os_rows st))"
  shows "c \<in> set (active_components st) \<longleftrightarrow>
    (\<exists>k col p. row_of st k = Some (col, p) \<and> active col \<and> c \<in> set (od_components p))"
proof -
  have "c \<in> set (active_components st) \<longleftrightarrow>
      (\<exists>(k, col, p)\<in>set (os_rows st). active col \<and> c \<in> set (od_components p))"
    by (auto simp: active_components_def)
  also have "\<dots> \<longleftrightarrow> (\<exists>k col p. row_of st k = Some (col, p) \<and> active col \<and> c \<in> set (od_components p))"
    using map_of_eq_Some_iff[OF assms] by fastforce
  finally show ?thesis .
qed

section \<open>Mutual exclusion\<close>

definition busy :: "op_store \<Rightarrow> string \<Rightarrow> string set" where
  "busy st k = (case row_of st k of
      Some (col, p) \<Rightarrow> if active col then set (od_components p) else {} | None \<Rightarrow> {})"

definition exclusive :: "op_store \<Rightarrow> bool" where
  "exclusive st \<longleftrightarrow> (\<forall>i j. i \<noteq> j \<longrightarrow> busy st i \<inter> busy st j = {})"

definition claimed :: "op_store \<Rightarrow> op_doc \<Rightarrow> bool" where
  "claimed st d \<longleftrightarrow> (\<exists>col p. row_of st (od_id d) = Some (col, p) \<and> od_components p = od_components d)
     \<and> (\<forall>j. j \<noteq> od_id d \<longrightarrow> busy st j \<inter> set (od_components d) = {})"

definition race_inv :: "race_state \<Rightarrow> bool" where
  "race_inv s \<longleftrightarrow> rows_ok (rs_store s) \<and> exclusive (rs_store s)
     \<and> (\<forall>k d. rs_alive s k = Some d \<longrightarrow> od_id d = k
          \<and> (\<exists>col p. row_of (rs_store s) k = Some (col, p) \<and> active col
                \<and> od_components p = od_components d))
     \<and> (\<forall>d. rs_read s = Some d \<longrightarrow> claimed (rs_store s) d)"

lemma exclusiveD: "exclusive st \<Longrightarrow> i \<noteq> j \<Longrightarrow> busy st i \<inter> busy st j = {}"
  unfolding exclusive_def by blast

lemma claimedD: "claimed st d \<Longrightarrow> j \<noteq> od_id d \<Longrightarrow> busy st j \<inter> set (od_components d) = {}"
  unfolding claimed_def by blast

lemma race_inv_alive:
  assumes "race_inv s" and "rs_alive s k = Some d"
  obtains col p where "od_id d = k" and "row_of (rs_store s) k = Some (col, p)" and "active col"
    and "od_components p = od_components d"
  using assms unfolding race_inv_def by blast

lemma race_invD:
  assumes "race_inv s"
  shows "rows_ok (rs_store s)" and "exclusive (rs_store s)"
    and "rs_read s = Some d \<Longrightarrow> claimed (rs_store s) d"
  using assms unfolding race_inv_def by blast+

lemma race_invI:
  assumes "rows_ok (rs_store s)" and "exclusive (rs_store s)"
    and "\<And>k d. rs_alive s k = Some d \<Longrightarrow> od_id d = k \<and> (\<exists>col p. row_of (rs_store s) k = Some (col, p)
        \<and> active col \<and> od_components p = od_components d)"
    and "\<And>d. rs_read s = Some d \<Longrightarrow> claimed (rs_store s) d"
  shows "race_inv s"
  using assms unfolding race_inv_def by blast

lemma busy_update:
  assumes "row_of st (od_id d) = Some (col, p)"
  shows "busy (st_update d st) k =
    (if k = od_id d then (if active (od_state d) then set (od_components d) else {}) else busy st k)"
  using assms by (simp add: busy_def row_of_update)

text \<open>Writing a document with the same components over a row that may be active keeps exclusion.\<close>

lemma exclusive_update:
  assumes "exclusive st" and "claimed st d"
  shows "exclusive (st_update d st)"
proof -
  obtain col p where row: "row_of st (od_id d) = Some (col, p)"
    using assms(2) by (auto simp: claimed_def)
  have free: "busy st j \<inter> set (od_components d) = {}" if "j \<noteq> od_id d" for j
    by (rule claimedD[OF assms(2) that])
  have "busy (st_update d st) i \<inter> busy (st_update d st) j = {}" if "i \<noteq> j" for i j
    unfolding busy_update[OF row]
    using exclusiveD[OF assms(1) that] free[of i] free[of j] that by auto
  then show ?thesis by (simp add: exclusive_def)
qed

lemma claimed_update:
  assumes "claimed st d" and "claimed st e" and "od_id e = od_id d \<Longrightarrow> od_components e = od_components d"
    and "od_id e \<noteq> od_id d \<Longrightarrow> busy st (od_id e) = set (od_components e)"
  shows "claimed (st_update e st) d"
proof -
  obtain col p where row: "row_of st (od_id e) = Some (col, p)"
    using assms(2) by (auto simp: claimed_def)
  have "\<exists>col p. row_of (st_update e st) (od_id d) = Some (col, p) \<and> od_components p = od_components d"
    using assms(1,3) by (auto simp: claimed_def row_of_update)
  moreover have "busy (st_update e st) j \<inter> set (od_components d) = {}" if "j \<noteq> od_id d" for j
    using assms(1,4) that unfolding busy_update[OF row] by (auto simp: claimed_def split: if_splits)
  ultimately show ?thesis by (simp add: claimed_def)
qed

lemma alive_claimed:
  assumes "race_inv s" and "rs_alive s k = Some d" and "kept d d'"
  shows "od_id d' = k" and "claimed (rs_store s) d'" and "busy (rs_store s) k = set (od_components d')"
proof -
  obtain col p where id: "od_id d = k" and row: "row_of (rs_store s) k = Some (col, p)"
    and act: "active col" and comps: "od_components p = od_components d"
    by (rule race_inv_alive[OF assms(1,2)])
  show k: "od_id d' = k" using id assms(3) by (simp add: kept_def)
  show b: "busy (rs_store s) k = set (od_components d')"
    using row act comps assms(3) by (simp add: busy_def kept_def)
  have "busy (rs_store s) j \<inter> set (od_components d') = {}" if "j \<noteq> k" for j
    using exclusiveD[OF race_invD(2)[OF assms(1)] that] b by simp
  then show "claimed (rs_store s) d'"
    using row comps assms(3) k by (auto simp: claimed_def kept_def)
qed

lemma inv_worker_write:
  assumes inv: "race_inv s" and alive: "rs_alive s k = Some d" and kept: "kept d d'"
    and next_alive: "\<And>e. alive' k = Some e \<Longrightarrow> e = d' \<and> active (od_state d')"
      "\<And>i. i \<noteq> k \<Longrightarrow> alive' i = rs_alive s i"
  shows "race_inv (s\<lparr>rs_store := st_update d' (rs_store s), rs_alive := alive'\<rparr>)"
proof -
  note c = alive_claimed[OF inv alive kept]
  have rd: "claimed (st_update d' (rs_store s)) e" if "rs_read s = Some e" for e
  proof (rule claimed_update)
    show e: "claimed (rs_store s) e" using inv that by (simp add: race_inv_def)
    show "claimed (rs_store s) d'" by (rule c)
    show "od_components d' = od_components e" if "od_id d' = od_id e"
      using e c(2) that by (auto simp: claimed_def)
    show "busy (rs_store s) (od_id d') = set (od_components d')" using c by simp
  qed
  obtain col p where row: "row_of (rs_store s) k = Some (col, p)"
    by (rule race_inv_alive[OF inv alive])
  have al: "od_id e = i \<and> (\<exists>col p. row_of (st_update d' (rs_store s)) i = Some (col, p) \<and> active col
        \<and> od_components p = od_components e)" if "alive' i = Some e" for i e
  proof (cases "i = k")
    case True
    then show ?thesis using next_alive(1) that c(1) row by (simp add: row_of_update)
  next
    case False
    then have al: "rs_alive s i = Some e" using that next_alive(2) by simp
    obtain col p where "od_id e = i" "row_of (rs_store s) i = Some (col, p)" "active col"
      "od_components p = od_components e" by (rule race_inv_alive[OF inv al])
    with c(1) False show ?thesis by (simp add: row_of_update)
  qed
  show ?thesis
    by (rule race_invI)
      (use rd al exclusive_update[OF race_invD(2)[OF inv] c(2)] rows_ok_update[OF race_invD(1)[OF inv]]
        in simp_all)
qed

lemma inv_prepared:
  assumes inv: "race_inv s" and none: "rs_read s = None"
    and free: "set (active_components (rs_store s)) \<inter> set (od_components d) = {}"
    and queued: "od_state d = Queued" and st: "st_create d (rs_store s) = Inr st"
  shows "race_inv (s\<lparr>rs_store := st, rs_alive := (rs_alive s)(od_id d \<mapsto> d)\<rparr>)"
proof -
  note row = row_of_create[OF st]
  have busy: "busy st k = (if k = od_id d then set (od_components d) else busy (rs_store s) k)" for k
    using queued by (simp add: busy_def row(1) active_def)
  have "distinct (map fst (os_rows (rs_store s)))" using race_invD(1)[OF inv] by (simp add: rows_ok_def)
  note act = active_components_iff[OF this]
  have "busy (rs_store s) k \<subseteq> set (active_components (rs_store s))" for k
    using act by (fastforce simp: busy_def split: option.splits if_splits)
  then have apart: "busy (rs_store s) k \<inter> set (od_components d) = {}" for k
    using free by blast
  have ex: "exclusive st"
    unfolding exclusive_def busy using exclusiveD[OF race_invD(2)[OF inv]] apart by auto
  have al: "od_id e = k \<and> (\<exists>col p. row_of st k = Some (col, p) \<and> active col
        \<and> od_components p = od_components e)" if a: "((rs_alive s)(od_id d \<mapsto> d)) k = Some e" for k e
  proof (cases "k = od_id d")
    case True
    then show ?thesis using a queued by (simp add: row(1) active_def)
  next
    case False
    then have old: "rs_alive s k = Some e" using a by simp
    obtain col p where "od_id e = k" "row_of (rs_store s) k = Some (col, p)" "active col"
      "od_components p = od_components e" by (rule race_inv_alive[OF inv old])
    with False show ?thesis by (simp add: row(1))
  qed
  let ?s = "s\<lparr>rs_store := st, rs_alive := (rs_alive s)(od_id d \<mapsto> d)\<rparr>"
  have eqs: "rs_alive ?s = (rs_alive s)(od_id d \<mapsto> d)" "rs_store ?s = st" "rs_read ?s = None"
    using none by simp_all
  show ?thesis
    by (rule race_invI; unfold eqs) (rule rows_ok_create[OF race_invD(1)[OF inv] st], rule ex,
        rule al, assumption, simp)
qed

lemma inv_cancel_read:
  assumes inv: "race_inv s" and get: "st_get k (rs_store s) = Inr d"
    and act: "od_state d \<notin> set TERMINAL_STATES"
  shows "race_inv (s\<lparr>rs_read := Some d\<rparr>)"
proof -
  obtain col where row: "row_of (rs_store s) k = Some (col, d)"
    using get by (auto simp: st_get_def split: option.splits)
  then have "(k, col, d) \<in> set (os_rows (rs_store s))" by (rule map_of_SomeD)
  then have id: "od_id d = k" and col: "od_state d = col"
    using race_invD(1)[OF inv] by (auto simp: rows_ok_def)
  have "active col" using act col by (cases col) (auto simp: TERMINAL_STATES_def active_def)
  then have "busy (rs_store s) k = set (od_components d)" using row by (simp add: busy_def)
  then have "claimed (rs_store s) d"
    using exclusiveD[OF race_invD(2)[OF inv]] row id by (auto simp: claimed_def)
  then show ?thesis using inv by (simp add: race_inv_def)
qed

lemma inv_cancel_write:
  assumes inv: "race_inv s" and rd: "rs_read s = Some d"
  shows "race_inv (s\<lparr>rs_store := st_update (d\<lparr>od_state := Cancelling, od_updated := now\<rparr>) (rs_store s),
                    rs_read := None\<rparr>)"
proof -
  let ?d = "d\<lparr>od_state := Cancelling, od_updated := now\<rparr>"
  have "claimed (rs_store s) d" by (rule race_invD(3)[OF inv rd])
  then have cl: "claimed (rs_store s) ?d" by (simp add: claimed_def)
  have "od_id e = k \<and> (\<exists>col p. row_of (st_update ?d (rs_store s)) k = Some (col, p) \<and> active col
        \<and> od_components p = od_components e)" if al: "rs_alive s k = Some e" for k e
  proof -
    obtain col p where row: "row_of (rs_store s) k = Some (col, p)" "od_id e = k" "active col"
      "od_components p = od_components e" by (rule race_inv_alive[OF inv al])
    show ?thesis
    proof (cases "k = od_id d")
      case True
      with cl row show ?thesis by (simp add: row_of_update claimed_def active_def)
    next
      case False
      with row show ?thesis by (simp add: row_of_update)
    qed
  qed
  then show ?thesis
    using exclusive_update[OF race_invD(2)[OF inv] cl] rows_ok_update[OF race_invD(1)[OF inv]]
    by (intro race_invI) simp_all
qed

lemma inv_step: "engine_step s s' \<Longrightarrow> race_inv s \<Longrightarrow> race_inv s'"
proof (induction rule: engine_step.induct)
  case (saved s k d d')
  then show ?case by (intro inv_worker_write) (auto simp: active_def)
next
  case (finished s k d d')
  then show ?case by (intro inv_worker_write) auto
qed (simp_all add: inv_prepared inv_cancel_read inv_cancel_write)

lemma inv_fresh:
  assumes "fresh s"
  shows "race_inv s"
proof -
  have "\<not> active col" if "row_of (rs_store s) k = Some (col, p)" for k col p
    using assms map_of_SomeD[OF that] by (auto simp: fresh_def list_all_iff)
  then have "busy (rs_store s) k = {}" for k by (auto simp: busy_def split: option.splits)
  then have "exclusive (rs_store s)" by (simp add: exclusive_def)
  then show ?thesis using assms by (simp add: race_inv_def fresh_def)
qed

lemma inv_reachable: "reachable s \<Longrightarrow> race_inv s"
  by (induction rule: reachable.induct) (auto intro: inv_fresh inv_step)

section \<open>The calls are made of these steps\<close>

definition race_of :: "eng_state \<Rightarrow> (string \<rightharpoonup> op_doc) \<Rightarrow> op_doc option \<Rightarrow> race_state" where
  "race_of s alive rd = \<lparr>rs_store = es_store s, rs_alive = alive, rs_read = rd\<rparr>"

lemma prepare_is_step:
  assumes "prepare_steps env op comps steps actor ret_of ident aid wkf s = (Inr (d, sts), s')"
  shows "engine_step (race_of s alive None) (race_of s' (alive(od_id d \<mapsto> d)) None)"
proof -
  note p = prepare_steps_Inr[OF assms]
  from p(4) have "od_components d = affected steps" "od_state d = Queued"
    by (auto simp: new_document_def)
  with p(2,5) engine_step.prepared[of "race_of s alive None" d "es_store s'"] show ?thesis
    by (simp add: race_of_def)
qed

lemma save_is_step:
  assumes "save env s = (Inr (), s')" and "alive k = Some d" and "kept d (es_doc s)"
    and "od_state (es_doc s) \<in> {Queued, Running}"
  shows "engine_step (race_of s alive rd) (race_of s' (alive(k \<mapsto> es_doc s')) rd)"
proof -
  have s': "es_doc s' = (es_doc s)\<lparr>od_updated := ee_clock env (es_ticks s)\<rparr>"
    "es_store s' = st_update (es_doc s') (es_store s)"
    using assms(1) by (auto simp: save_def tick_def upd_doc_def bindS_def modify_def)
  have "kept d (es_doc s')" "od_state (es_doc s') \<in> {Queued, Running}"
    using assms(3,4) s'(1) by (simp_all add: kept_def)
  then show ?thesis
    using engine_step.saved[of "race_of s alive rd" k d "es_doc s'"] assms(2) s'(2)
    by (simp add: race_of_def)
qed

lemma cancel_is_two_steps:
  assumes "cancel env k actor ident s = (Inr d, s')" and "st_get k (es_store s) = Inr old"
    and "od_state old \<notin> set TERMINAL_STATES"
  shows "engine_step (race_of s alive None) (race_of s alive (Some old))"
    and "\<exists>st. os_rows st = os_rows (es_store s')
      \<and> engine_step (race_of s alive (Some old)) ((race_of s' alive None)\<lparr>rs_store := st\<rparr>)"
proof -
  show "engine_step (race_of s alive None) (race_of s alive (Some old))"
    using engine_step.cancel_read[of "race_of s alive None" k old] assms(2,3)
    by (simp add: race_of_def)
  let ?now = "ee_clock env (es_ticks s)"
  let ?st = "st_update (old\<lparr>od_state := Cancelling, od_updated := ?now\<rparr>) (es_store s)"
  have "os_rows ?st = os_rows (es_store s')"
    using assms by (auto simp: cancel_def store_get_def bindS_def tick_def modify_def store_update_def
        record_event_def st_event_def Let_def split: if_splits)
  moreover have "engine_step (race_of s alive (Some old)) ((race_of s' alive None)\<lparr>rs_store := ?st\<rparr>)"
    using engine_step.cancel_write[of "race_of s alive (Some old)" old ?now] by (simp add: race_of_def)
  ultimately show "\<exists>st. os_rows st = os_rows (es_store s')
      \<and> engine_step (race_of s alive (Some old)) ((race_of s' alive None)\<lparr>rs_store := st\<rparr>)" by blast
qed

section \<open>Properties\<close>

definition race_start :: race_state where
  "race_start = \<lparr>rs_store = \<lparr>os_rows = [], os_events = []\<rparr>, rs_alive = Map.empty, rs_read = None\<rparr>"

definition race_two :: race_state where
  "race_two = \<lparr>rs_store = \<lparr>os_rows = [(''a'', Queued, payload (demo_doc ''a'' 0)),
       (''b'', Queued, payload ((demo_doc ''b'' 0)\<lparr>od_components := [''ui'']\<rparr>))], os_events = []\<rparr>,
     rs_alive = [''a'' \<mapsto> demo_doc ''a'' 0, ''b'' \<mapsto> (demo_doc ''b'' 0)\<lparr>od_components := [''ui'']\<rparr>],
     rs_read = None\<rparr>"

lemma race_start_reachable: "reachable race_start"
  by (rule reachable.start) (simp add: fresh_def race_start_def rows_ok_def active_components_def)

lemma race_one_step:
  "engine_step race_start (race_start\<lparr>rs_store := \<lparr>os_rows = [(''a'', Queued, payload (demo_doc ''a'' 0))],
      os_events = []\<rparr>, rs_alive := [''a'' \<mapsto> demo_doc ''a'' 0]\<rparr>)"
  using engine_step.prepared[of race_start "demo_doc ''a'' 0"
      "\<lparr>os_rows = [(''a'', Queued, payload (demo_doc ''a'' 0))], os_events = []\<rparr>"]
  by (simp add: race_start_def demo_doc_def active_components_def st_create_def)

lemma race_two_reachable: "reachable race_two"
proof -
  let ?s = "race_start\<lparr>rs_store := \<lparr>os_rows = [(''a'', Queued, payload (demo_doc ''a'' 0))],
      os_events = []\<rparr>, rs_alive := [''a'' \<mapsto> demo_doc ''a'' 0]\<rparr>"
  have "engine_step ?s race_two"
    using engine_step.prepared[of ?s "(demo_doc ''b'' 0)\<lparr>od_components := [''ui'']\<rparr>" "rs_store race_two"]
    by (simp add: race_start_def race_two_def demo_doc_def active_components_def st_create_def
        active_def payload_def)
  with race_one_step race_start_reachable show ?thesis by (blast intro: reachable.step)
qed

text \<open>
  C10. Two active operations never share a component. In every state that the engine can reach, however
  the requests, the workers' saves and the two halves of cancellations interleave, the operations whose
  rows are queued, running or cancelling have pairwise disjoint component sets.
\<close>

theorem active_operations_disjoint:
  assumes "reachable s" and "row_of (rs_store s) i = Some (ci, pi)" and "row_of (rs_store s) j = Some (cj, pj)"
    and "active ci" and "active cj" and "i \<noteq> j"
  shows "set (od_components pi) \<inter> set (od_components pj) = {}"
  using exclusiveD[OF race_invD(2)[OF inv_reachable[OF assms(1)]] assms(6)] assms(2-5)
  by (simp add: busy_def)

theorem active_operations_disjoint_witness:
  "set (od_components (payload (demo_doc ''a'' 0)))
     \<inter> set (od_components (payload ((demo_doc ''b'' 0)\<lparr>od_components := [''ui'']\<rparr>))) = {}"
  by (rule active_operations_disjoint[OF race_two_reachable, of "''a''" Queued _ "''b''" Queued])
    (simp_all add: race_two_def active_def)

definition stranded :: "string \<Rightarrow> race_state \<Rightarrow> bool" where
  "stranded k s \<longleftrightarrow> (\<exists>p. row_of (rs_store s) k = Some (Cancelling, p)) \<and> rs_alive s k = None"

lemma stranded_step:
  assumes "engine_step s s'" and "race_inv s" and "stranded k s"
  shows "stranded k s'"
  using assms
proof (induction rule: engine_step.induct)
  case (prepared s d st)
  then show ?case using row_of_create[OF prepared(4)] by (auto simp: stranded_def)
next
  case (saved s i d d')
  then have "od_id d' = i" "i \<noteq> k" using alive_claimed(1) by (auto simp: stranded_def)
  with saved show ?case by (auto simp: stranded_def row_of_update)
next
  case (finished s i d d')
  then have "od_id d' = i" "i \<noteq> k" using alive_claimed(1) by (auto simp: stranded_def)
  with finished show ?case by (auto simp: stranded_def row_of_update)
qed (auto simp: stranded_def row_of_update)

lemma stranded_steps: "engine_step\<^sup>*\<^sup>* s s' \<Longrightarrow> race_inv s \<Longrightarrow> stranded k s \<Longrightarrow> stranded k s'"
proof (induction rule: converse_rtranclp_induct)
  case (step s t)
  then show ?case using stranded_step inv_step by blast
qed

text \<open>The race: the cancellation reads, the worker writes its last state, the cancellation writes.\<close>

lemma cancel_race_reachable: "\<exists>s. reachable s \<and> rs_read s = None \<and> stranded ''a'' s"
proof -
  let ?d = "demo_doc ''a'' 0"
  let ?done = "?d\<lparr>od_state := Succeeded\<rparr>"
  let ?s1 = "race_start\<lparr>rs_store := \<lparr>os_rows = [(''a'', Queued, payload ?d)],
      os_events = []\<rparr>, rs_alive := [''a'' \<mapsto> ?d]\<rparr>"
  have 1: "reachable ?s1" using race_one_step race_start_reachable by (blast intro: reachable.step)
  let ?s2 = "?s1\<lparr>rs_read := Some (payload ?d)\<rparr>"
  have 2: "reachable ?s2"
    by (rule reachable.step[OF 1 engine_step.cancel_read[where k = "''a''"]])
      (simp_all add: race_start_def st_get_def demo_doc_def TERMINAL_STATES_def)
  let ?s3 = "?s2\<lparr>rs_store := st_update ?done (rs_store ?s2), rs_alive := (rs_alive ?s2)(''a'' := None)\<rparr>"
  have 3: "reachable ?s3"
    by (rule reachable.step[OF 2 engine_step.finished[where d = ?d]]) (simp_all add: kept_def)
  let ?s4 = "?s3\<lparr>rs_store := st_update ((payload ?d)\<lparr>od_state := Cancelling, od_updated := 9\<rparr>) (rs_store ?s3),
      rs_read := None\<rparr>"
  have 4: "reachable ?s4"
    by (rule reachable.step[OF 3 engine_step.cancel_write[where d = "payload ?d"]]) simp
  have "stranded ''a'' ?s4"
    by (simp add: stranded_def row_of_update demo_doc_def race_start_def)
  with 4 show ?thesis by (intro exI[of _ ?s4]) simp
qed

text \<open>
  A cancellation can strand its operation. There is a reachable state, with no cancellation in
  progress, in which an operation is marked as cancelling although its worker has ended, and in every
  state that the engine can reach from there it still is: its components stay busy until the manager
  restarts.
\<close>

theorem cancel_can_strand:
  "\<exists>s. reachable s \<and> rs_read s = None \<and> {s'. engine_step\<^sup>*\<^sup>* s s'} \<subseteq> {s'. stranded ''a'' s'}"
proof -
  obtain s where "reachable s" and "rs_read s = None" and "stranded ''a'' s"
    using cancel_race_reachable by blast
  with stranded_steps inv_reachable show ?thesis by blast
qed

end
