(* ===== verification/Health.thy ===== *)
theory Health
  imports Registry Sanitize Effects
begin

text \<open>
  \<^verbatim>\<open>manager/health.py\<close>: the layered health document. Subjects (the infrastructure, then the components
  in dependency order) are evaluated one after the other; checks whose dependencies block are not
  probed. A probe is a parameter: for each check it returns a result in time, returns late, or raises.
  The time a probe took is a parameter too, and so is the availability document. Times are instants.
\<close>

section \<open>States and evidence\<close>

datatype hstate =
  Healthy | Starting | Degraded | Blocked | Misconfigured | Stopped | Unreachable | Unhealthy
| Unknown | Stale

datatype layer =
  LInfrastructure | LWorkload | LStorage | LInternalService | LDependency | LApplication
| LFunctional | LIngressRouting | LTls | LExternalReachability

definition DIRECT_PRECEDENCE :: "hstate list" where
  "DIRECT_PRECEDENCE =
     [Unhealthy, Misconfigured, Stopped, Unreachable, Unknown, Stale, Starting, Degraded]"

definition BLOCKING_STATES :: "hstate list" where
  "BLOCKING_STATES =
     [Unhealthy, Misconfigured, Stopped, Unreachable, Unknown, Stale, Starting, Blocked]"

definition DOMAIN_LAYERS :: "(string \<times> layer list) list" where
  "DOMAIN_LAYERS =
     [(''infrastructure'', [LInfrastructure]), (''workload'', [LWorkload]),
      (''persistence'', [LStorage]), (''internalService'', [LInternalService, LDependency]),
      (''application'', [LApplication, LFunctional]), (''ingressRouting'', [LIngressRouting]),
      (''tls'', [LTls]), (''ingressTls'', [LIngressRouting, LTls]),
      (''externalReachability'', [LExternalReachability])]"

record check_spec =
  ck_id :: string
  ck_subject :: string
  ck_layer :: layer
  ck_type :: string
  ck_target :: string
  ck_timeout :: int
  ck_required :: bool
  ck_deps :: "string list"

record probe_result =
  pr_state :: hstate
  pr_summary :: string
  pr_observed :: instant
  pr_latency :: "int option"
  pr_present :: "bool option"
  pr_desired :: "int option"
  pr_ready :: "int option"

definition mk_probe_result ::
    "hstate \<Rightarrow> string \<Rightarrow> py_datetime \<Rightarrow> int option \<Rightarrow> bool option \<Rightarrow> int option \<Rightarrow> int option
       \<Rightarrow> probe_result result" where
  "mk_probe_result st summary at latency present desired ready =
     (if st \<in> {Blocked, Stale} then raise PyValueError ''unsupported probe state''
      else case aware ''probe timestamp must include a timezone'' at of
        Inl e \<Rightarrow> Inl e
      | Inr t \<Rightarrow>
          if (case latency of None \<Rightarrow> False | Some l \<Rightarrow> l < 0)
          then raise PyValueError ''probe latency must be non-negative''
          else if (case desired of None \<Rightarrow> False | Some n \<Rightarrow> n < 0)
               \<or> (case ready of None \<Rightarrow> False | Some n \<Rightarrow> n < 0)
          then raise PyValueError ''replica evidence must be non-negative''
          else Inr \<lparr>pr_state = st, pr_summary = summary, pr_observed = t, pr_latency = latency,
                    pr_present = present, pr_desired = desired, pr_ready = ready\<rparr>)"

record evidence =
  ev_id :: string
  ev_layer :: layer
  ev_state :: hstate
  ev_required :: bool
  ev_summary :: string
  ev_observed :: instant
  ev_latency :: int
  ev_workload :: "(bool option \<times> int option \<times> int option) option"
  ev_derived :: bool
  ev_blocked_by :: "string list"

record subject =
  su_id :: string
  su_name :: string
  su_deps :: "string list"
  su_checks :: "check_spec list"
  su_remediation :: string

record domain =
  dm_state :: "hstate option"
  dm_root :: "string option"
  dm_direct :: bool

datatype workload_dim = WAbsent | WNotReady | WReady | WUnknown
datatype application_dim = AUnknown | AHealthy | AUnhealthy

record item =
  it_id :: string
  it_name :: string
  it_state :: hstate
  it_deps :: "string list"
  it_evidence :: "evidence list"
  it_roots :: "string list"
  it_blocked_by :: "string option"
  it_direct :: hstate
  it_domains :: "(string \<times> domain) list"
  it_affected :: "string list"
  it_downstream :: "string list"
  it_workload :: workload_dim
  it_application :: application_dim

text \<open>An availability item; \<^verbatim>\<open>checkedAt\<close> is absent, a time, or not a time at all.\<close>

datatype checked_at = CheckedMissing | CheckedAt instant | CheckedGarbled

record avail_item =
  av_id :: string
  av_state :: string
  av_tls :: string
  av_checked :: checked_at
  av_summary :: "string option"
  av_latency :: "int option"

datatype probe_outcome = InTime probe_result | Late | Raised exn

record health_env =
  he_hash :: hash_order
  he_components :: "component list"
  he_now :: instant
  he_stale_after :: int
  he_probe :: "check_spec \<Rightarrow> probe_outcome"
  he_measured :: "check_spec \<Rightarrow> int"
  he_availability :: "avail_item list"

abbreviation he_registry :: "health_env \<Rightarrow> registry" where
  "he_registry env \<equiv> mk_registry (he_components env)"

section \<open>Summaries\<close>

definition HEALTH_SENSITIVE :: rx where
  "HEALTH_SENSITIVE = alts
     [lit ''password'', lit ''passwd'', lit ''secret'', lit ''token'', lit ''credential'',
      Seq (lit ''license'') (Seq (Many is_space)
        (alts [lit ''data'', lit ''value'', lit ''key'', lit ''content'', One (\<lambda>c. c \<in> set '':='')])),
      Seq (lit ''private'') (Seq (opt (One (\<lambda>c. code c \<noteq> 10))) (lit ''key'')),
      lit ''authorization'', lit ''cookie'',
      Seq (lit ''bearer'') (Seq (some1 is_space) (some1 (\<lambda>c. \<not> is_space c)))]"

text \<open>\<^verbatim>\<open>" ".join(value.split())\<close>.\<close>

fun split_words :: "string \<Rightarrow> string \<Rightarrow> string list" where
  "split_words [] word = (if word = [] then [] else [rev word])"
| "split_words (c # cs) word =
     (if is_space c then (if word = [] then split_words cs [] else rev word # split_words cs [])
      else split_words cs (c # word))"

definition safe_summary :: "string \<Rightarrow> string" where
  "safe_summary value =
     (let text = join '' '' (split_words value [])
      in if text = [] \<or> length text > 256 \<or> re_search HEALTH_SENSITIVE None text
         then ''Probe returned evidence that could not be safely displayed'' else text)"

section \<open>Evidence\<close>

definition probe_evidence :: "health_env \<Rightarrow> check_spec \<Rightarrow> evidence" where
  "probe_evidence env check =
     (let plain = \<lambda>st summary at latency workload.
            \<lparr>ev_id = ck_id check, ev_layer = ck_layer check, ev_state = st,
             ev_required = ck_required check, ev_summary = summary, ev_observed = at,
             ev_latency = latency, ev_workload = workload, ev_derived = False, ev_blocked_by = []\<rparr>;
          measured = max 0 (he_measured env check);
          too_late = plain Unknown ''Check exceeded the aggregate bounded deadline'' (he_now env)
                       measured None
      in case he_probe env check of
           Late \<Rightarrow> too_late
         | Raised e \<Rightarrow>
             if catches [PyTimeoutError] e then too_late
             else plain Unknown ''Check could not obtain safe evidence'' (he_now env) measured None
         | InTime r \<Rightarrow>
             let stale = he_now env - pr_observed r > he_stale_after env
             in plain (if stale then Stale else pr_state r)
                  (if stale then ''Evidence is older than the freshness threshold''
                   else safe_summary (pr_summary r))
                  (pr_observed r)
                  (case pr_latency r of Some l \<Rightarrow> l | None \<Rightarrow> measured)
                  (if ck_layer check = LWorkload
                   then Some (pr_present r, pr_desired r, pr_ready r) else None))"

definition unavailable_evidence :: "health_env \<Rightarrow> check_spec \<Rightarrow> string list \<Rightarrow> evidence" where
  "unavailable_evidence env check deps =
     \<lparr>ev_id = ck_id check, ev_layer = ck_layer check, ev_state = Unknown,
      ev_required = ck_required check,
      ev_summary = ''Probe unavailable while a relevant dependency is unhealthy'',
      ev_observed = he_now env, ev_latency = 0, ev_workload = None, ev_derived = True,
      ev_blocked_by = deps\<rparr>"

definition external_states :: "(string \<times> hstate) list" where
  "external_states =
     [(''reachable'', Healthy), (''degraded'', Degraded), (''tls-warning'', Degraded),
      (''dns-mismatch'', Unreachable), (''unreachable'', Unreachable),
      (''not-configured'', Unknown), (''unknown'', Unknown)]"

definition tls_states :: "(string \<times> hstate) list" where
  "tls_states =
     [(''valid'', Healthy), (''warning'', Degraded), (''failed'', Unreachable),
      (''not-configured'', Unknown), (''not-attempted'', Unknown)]"

definition lookup_state :: "(string \<times> hstate) list \<Rightarrow> string \<Rightarrow> hstate" where
  "lookup_state table k = (case map_of table k of None \<Rightarrow> Unknown | Some st \<Rightarrow> st)"

definition external_evidence :: "health_env \<Rightarrow> subject \<Rightarrow> evidence list" where
  "external_evidence env su =
     (case filter (\<lambda>a. av_id a = su_id su) (he_availability env) of
        [] \<Rightarrow> []
      | a # _ \<Rightarrow>
          (let (observed, external, tls) =
             (case av_checked a of
                CheckedMissing \<Rightarrow>
                  (he_now env,
                   if 0 > he_stale_after env then (Stale, Stale)
                   else (lookup_state external_states (av_state a), lookup_state tls_states (av_tls a)))
              | CheckedAt t \<Rightarrow>
                  (t, if he_now env - t > he_stale_after env then (Stale, Stale)
                      else (lookup_state external_states (av_state a),
                            lookup_state tls_states (av_tls a)))
              | CheckedGarbled \<Rightarrow> (he_now env, Unknown, Unknown));
             entry = \<lambda>k l st summary latency.
               \<lparr>ev_id = k, ev_layer = l, ev_state = st, ev_required = True, ev_summary = summary,
                ev_observed = observed, ev_latency = latency, ev_workload = None,
                ev_derived = True, ev_blocked_by = []\<rparr>
           in entry ''external-route'' LExternalReachability external
                (safe_summary (case av_summary a of
                   None \<Rightarrow> ''External route evidence unavailable'' | Some t \<Rightarrow> t))
                (max 0 (case av_latency a of None \<Rightarrow> 0 | Some l \<Rightarrow> l))
              # (if av_tls a \<in> {''valid'', ''warning'', ''failed''}
                 then [entry ''tls'' LTls tls
                   ''TLS evidence is reported independently from application health'' 0]
                 else [])))"

section \<open>Evaluating a subject\<close>

fun first_present :: "hstate list \<Rightarrow> hstate set \<Rightarrow> hstate" where
  "first_present [] states = Healthy"
| "first_present (c # cs) states = (if c \<in> states then c else first_present cs states)"

definition rank_state :: "evidence list \<Rightarrow> hstate" where
  "rank_state es = first_present DIRECT_PRECEDENCE (set (map ev_state es))"

definition domain_of :: "evidence list \<Rightarrow> layer list \<Rightarrow> domain" where
  "domain_of es layers =
     (let entries = filter (\<lambda>e. ev_layer e \<in> set layers) es
      in if entries = [] then \<lparr>dm_state = None, dm_root = None, dm_direct = True\<rparr>
         else \<lparr>dm_state = Some (rank_state entries),
               dm_root = map_option ev_id (List.find (\<lambda>e. ev_state e \<noteq> Healthy) entries),
               dm_direct = list_all (\<lambda>e. \<not> ev_derived e) entries\<rparr>)"

definition domains :: "evidence list \<Rightarrow> (string \<times> domain) list" where
  "domains es = map (\<lambda>(name, layers). (name, domain_of es layers)) DOMAIN_LAYERS"

definition INFRASTRUCTURE :: "string list" where
  "INFRASTRUCTURE = [''microk8s-node'', ''storage'', ''dns'', ''ingress'', ''tls'']"

definition domain_blocks :: "item \<Rightarrow> string \<Rightarrow> bool" where
  "domain_blocks it name =
     (case map_of (it_domains it) name of
        None \<Rightarrow> False
      | Some d \<Rightarrow> (case dm_state d of None \<Rightarrow> False | Some st \<Rightarrow> st \<in> set BLOCKING_STATES))"

definition dependency_blocks :: "string \<Rightarrow> (string \<rightharpoonup> item) \<Rightarrow> bool" where
  "dependency_blocks d results =
     (case results d of
        None \<Rightarrow> True
      | Some it \<Rightarrow>
          if d \<in> set INFRASTRUCTURE then it_state it \<in> set BLOCKING_STATES
          else list_ex (domain_blocks it)
                 [''workload'', ''persistence'', ''internalService'', ''application''])"

definition absent_replicas :: "evidence \<Rightarrow> bool" where
  "absent_replicas e =
     (case ev_workload e of Some (Some False, _, _) \<Rightarrow> True | _ \<Rightarrow> False)"

text \<open>
  \<^verbatim>\<open>readyReplicas < desiredReplicas\<close>, which raises \<^verbatim>\<open>TypeError\<close> when only the desired count is known.
\<close>

definition mismatched_replicas :: "evidence \<Rightarrow> bool result" where
  "mismatched_replicas e =
     (case ev_workload e of
        Some (Some True, Some desired, ready) \<Rightarrow>
          (case ready of
             None \<Rightarrow> raise PyTypeError ''< not supported between NoneType and int''
           | Some n \<Rightarrow> Inr (n < desired))
      | _ \<Rightarrow> Inr False)"

fun any_result :: "('a \<Rightarrow> bool result) \<Rightarrow> 'a list \<Rightarrow> bool result" where
  "any_result p [] = Inr False"
| "any_result p (x # xs) =
     (case p x of Inl e \<Rightarrow> Inl e | Inr b \<Rightarrow> if b then Inr True else any_result p xs)"

definition dimensions :: "evidence list \<Rightarrow> (workload_dim \<times> application_dim) result" where
  "dimensions es =
     (let workload = filter (\<lambda>e. ev_layer e = LWorkload) es;
          application =
            filter (\<lambda>e. ev_layer e \<in> {LInternalService, LApplication, LFunctional}) es
      in case any_result mismatched_replicas workload of
           Inl e \<Rightarrow> Inl e
         | Inr mismatch \<Rightarrow> Inr
             (if list_ex absent_replicas workload then WAbsent
              else if mismatch then WNotReady
              else if workload \<noteq> [] \<and> list_all (\<lambda>e. ev_state e = Healthy) workload then WReady
              else WUnknown,
              if application = [] \<or> list_ex (\<lambda>e. ev_state e \<in> {Unknown, Stale}) application
              then AUnknown
              else if list_all (\<lambda>e. ev_state e = Healthy) application then AHealthy
              else AUnhealthy))"

definition overall_state :: "evidence list \<Rightarrow> string list \<Rightarrow> hstate" where
  "overall_state es blocked =
     (let required = filter ev_required es;
          direct = rank_state (filter (\<lambda>e. \<not> ev_derived e) required);
          access = rank_state (filter (\<lambda>e. ev_layer e \<in>
                     {LIngressRouting, LTls, LExternalReachability}) required)
      in if direct \<noteq> Healthy then direct
         else if blocked \<noteq> [] then Blocked
         else if access \<noteq> Healthy then Degraded
         else if list_ex (\<lambda>e. ev_state e \<noteq> Healthy) es then Degraded
         else Healthy)"

definition local_roots :: "subject \<Rightarrow> evidence list \<Rightarrow> string list" where
  "local_roots su es =
     map (\<lambda>e. su_id su @ ''/'' @ ev_id e)
       (filter (\<lambda>e. ev_required e \<and> ev_state e \<noteq> Healthy \<and> \<not> ev_derived e) es)"

definition dependency_root :: "(string \<rightharpoonup> item) \<Rightarrow> string \<Rightarrow> string result" where
  "dependency_root results d =
     (case results d of
        None \<Rightarrow> raise PyKeyError d
      | Some it \<Rightarrow> Inr (case it_roots it of [] \<Rightarrow> d | r # _ \<Rightarrow> r))"

definition affected_domains :: "evidence list \<Rightarrow> string list" where
  "affected_domains es =
     map fst (filter (\<lambda>(name, d). name \<noteq> ''ingressTls'' \<and> dm_state d \<notin> {Some Healthy, None})
       (domains es))"

definition evaluate ::
    "subject \<Rightarrow> evidence list \<Rightarrow> (string \<rightharpoonup> item) \<Rightarrow> string list \<Rightarrow> item result" where
  "evaluate su es results blocked =
     (case res_map (dependency_root results) blocked of
        Inl e \<Rightarrow> Inl e
      | Inr roots \<Rightarrow>
          (case dimensions es of
             Inl e \<Rightarrow> Inl e
           | Inr (workload, application) \<Rightarrow> Inr
               \<lparr>it_id = su_id su, it_name = su_name su, it_state = overall_state es blocked,
                it_deps = su_deps su, it_evidence = es,
                it_roots = fromkeys (roots @ local_roots su es),
                it_blocked_by = (case blocked of [] \<Rightarrow> None | d # _ \<Rightarrow> Some d),
                it_direct = rank_state (filter (\<lambda>e. \<not> ev_derived e) (filter ev_required es)),
                it_domains = domains es, it_affected = affected_domains es, it_downstream = [],
                it_workload = workload, it_application = application\<rparr>))"

text \<open>
  \<^verbatim>\<open>document\<close> keeps the blocking dependencies of a subject in a dict by check id. The checks of a
  subject have distinct ids (\<^verbatim>\<open>manager/registry_validation.py\<close> refuses a registry where they do not), so the
  entry of a check is a function of the check.
\<close>

definition blocked_deps :: "(string \<rightharpoonup> item) \<Rightarrow> check_spec \<Rightarrow> string list" where
  "blocked_deps results check = filter (\<lambda>d. dependency_blocks d results) (ck_deps check)"

definition subject_evidence :: "health_env \<Rightarrow> (string \<rightharpoonup> item) \<Rightarrow> subject \<Rightarrow> evidence list" where
  "subject_evidence env results su =
     map (probe_evidence env) (filter (\<lambda>c. blocked_deps results c = []) (su_checks su))
     @ map (\<lambda>c. unavailable_evidence env c (blocked_deps results c))
         (filter (\<lambda>c. blocked_deps results c \<noteq> []) (su_checks su))
     @ external_evidence env su"

definition subject_blocked :: "(string \<rightharpoonup> item) \<Rightarrow> subject \<Rightarrow> string list" where
  "subject_blocked results su = fromkeys (concat (map (blocked_deps results) (su_checks su)))"

definition evaluate_subject :: "health_env \<Rightarrow> (string \<rightharpoonup> item) \<Rightarrow> subject \<Rightarrow> item result" where
  "evaluate_subject env results su =
     evaluate su (subject_evidence env results su) results (subject_blocked results su)"

fun evaluate_all ::
    "health_env \<Rightarrow> (string \<rightharpoonup> item) \<Rightarrow> subject list \<Rightarrow> item list result" where
  "evaluate_all env results [] = Inr []"
| "evaluate_all env results (su # sus) =
     (case evaluate_subject env results su of
        Inl e \<Rightarrow> Inl e
      | Inr it \<Rightarrow>
          (case evaluate_all env (results(su_id su \<mapsto> it)) sus of
             Inl e \<Rightarrow> Inl e | Inr its \<Rightarrow> Inr (it # its)))"

section \<open>Subjects\<close>

definition PROBE_LAYERS :: "(string \<times> layer) list" where
  "PROBE_LAYERS =
     [(''workload-ready'', LWorkload), (''persistent-volume'', LStorage),
      (''native-readiness'', LApplication), (''database-query'', LApplication),
      (''https'', LInternalService), (''tcp'', LFunctional),
      (''application-ready'', LApplication), (''dependency-connectivity'', LInternalService),
      (''configuration'', LFunctional), (''registration'', LFunctional)]"

definition component_layer :: "string \<Rightarrow> layer result" where
  "component_layer probe_type =
     (case map_of PROBE_LAYERS probe_type of
        None \<Rightarrow> raise PyKeyError probe_type | Some l \<Rightarrow> Inr l)"

definition check_dependencies :: "layer \<Rightarrow> string list \<Rightarrow> string list" where
  "check_dependencies l deps =
     (case l of
        LWorkload \<Rightarrow> [''microk8s-node'']
      | LStorage \<Rightarrow> [''microk8s-node'', ''storage'']
      | _ \<Rightarrow> fromkeys ([''microk8s-node'', ''dns''] @ deps))"

definition component_check :: "string \<Rightarrow> string list \<Rightarrow> check_def \<Rightarrow> check_spec result" where
  "component_check c deps ch =
     (case component_layer (chk_type ch) of
        Inl e \<Rightarrow> Inl e
      | Inr l \<Rightarrow> Inr
          \<lparr>ck_id = chk_id ch, ck_subject = c, ck_layer = l, ck_type = chk_type ch,
           ck_target = chk_target ch, ck_timeout = min (chk_timeout ch) 30,
           ck_required = chk_required ch, ck_deps = check_dependencies l deps\<rparr>)"

definition component_subject :: "registry \<Rightarrow> string \<Rightarrow> subject result" where
  "component_subject reg c =
     (case reg_component reg c of
        Inl e \<Rightarrow> Inl e
      | Inr co \<Rightarrow>
          (case res_map (component_check c (comp_deps co)) (filter chk_required (comp_checks co)) of
             Inl e \<Rightarrow> Inl e
           | Inr checks \<Rightarrow> Inr
               \<lparr>su_id = c, su_name = comp_name co,
                su_deps = fromkeys ([''microk8s-node'', ''dns''] @ comp_deps co
                  @ (if list_ex (\<lambda>k. ck_layer k = LStorage) checks then [''storage''] else [])),
                su_checks = checks, su_remediation = ''/docs/health-checks.md#'' @ c\<rparr>))"

definition infrastructure_subject ::
    "string \<times> string \<times> string list \<times> layer \<times> string \<times> string \<Rightarrow> subject" where
  "infrastructure_subject = (\<lambda>(k, name, deps, l, check, target).
     \<lparr>su_id = k, su_name = name, su_deps = deps,
      su_checks = [\<lparr>ck_id = check, ck_subject = k, ck_layer = l, ck_type = check,
                    ck_target = target, ck_timeout = 10, ck_required = True, ck_deps = deps\<rparr>],
      su_remediation = ''/docs/health-checks.md#'' @ k\<rparr>)"

definition infrastructure_subjects :: "subject list" where
  "infrastructure_subjects = map infrastructure_subject
     [(''microk8s-node'', ''MicroK8s node'', [], LInfrastructure, ''node-ready'', ''node''),
      (''storage'', ''Storage'', [''microk8s-node''], LStorage, ''storage-ready'', ''default''),
      (''dns'', ''In-cluster DNS'', [''microk8s-node''], LInternalService, ''dns-lookup'',
       ''kubernetes.default''),
      (''ingress'', ''Ingress routing'', [''microk8s-node''], LIngressRouting, ''ingress-ready'',
       ''ingress''),
      (''tls'', ''TLS'', [''ingress''], LTls, ''tls-valid'', ''managed-hosts'')]"

definition subjects :: "health_env \<Rightarrow> subject list result" where
  "subjects env =
     (case dependency_order (he_hash env) (he_registry env) None of
        Inl e \<Rightarrow> Inl e
      | Inr order \<Rightarrow>
          (case res_map (component_subject (he_registry env)) order of
             Inl e \<Rightarrow> Inl e
           | Inr sus \<Rightarrow> Inr (infrastructure_subjects @ sus)))"

section \<open>The document\<close>

definition impacted :: "item list \<Rightarrow> item \<Rightarrow> item" where
  "impacted its it =
     it\<lparr>it_downstream := sort (map it_id
          (filter (\<lambda>c. list_ex (\<lambda>e. it_id it \<in> set (ev_blocked_by e)) (it_evidence c)) its))\<rparr>"

definition AGGREGATE_PRECEDENCE :: "hstate list" where
  "AGGREGATE_PRECEDENCE =
     [Unhealthy, Misconfigured, Unreachable, Unknown, Stale, Stopped, Starting, Degraded, Blocked]"

definition aggregate :: "item list \<Rightarrow> hstate" where
  "aggregate its = first_present AGGREGATE_PRECEDENCE (set (map it_state its))"

record health_summary =
  hs_components :: nat
  hs_blocked :: nat
  hs_absent :: nat
  hs_not_ready :: nat
  hs_unknown :: nat

definition summarize :: "item list \<Rightarrow> health_summary" where
  "summarize its =
     (let cs = filter (\<lambda>it. it_id it \<notin> set INFRASTRUCTURE) its;
          count = \<lambda>p. length (filter p cs)
      in \<lparr>hs_components = length cs,
          hs_blocked = count (\<lambda>it. it_blocked_by it \<noteq> None),
          hs_absent = count (\<lambda>it. it_workload it = WAbsent),
          hs_not_ready = count (\<lambda>it. it_workload it = WNotReady),
          hs_unknown = count (\<lambda>it. it_application it = AUnknown)\<rparr>)"

record health_doc =
  hd_state :: hstate
  hd_summary :: health_summary
  hd_items :: "item list"

definition health_document :: "health_env \<Rightarrow> health_doc result" where
  "health_document env =
     (case subjects env of
        Inl e \<Rightarrow> Inl e
      | Inr sus \<Rightarrow>
          (case evaluate_all env Map.empty sus of
             Inl e \<Rightarrow> Inl e
           | Inr its \<Rightarrow>
               let items = map (impacted its) its
               in Inr \<lparr>hd_state = aggregate items, hd_summary = summarize items, hd_items = items\<rparr>))"

section \<open>Ranks\<close>

lemma first_present_in: "first_present cs S = Healthy \<or> first_present cs S \<in> S \<inter> set cs"
  by (induction cs) auto

lemma first_present_Healthy:
  "Healthy \<notin> set cs \<Longrightarrow> first_present cs S = Healthy \<longleftrightarrow> S \<inter> set cs = {}"
  by (induction cs) auto

lemma rank_state_Healthy:
  "rank_state es = Healthy \<longleftrightarrow> ev_state ` set es \<subseteq> {Healthy, Blocked}"
proof -
  have "rank_state es = Healthy \<longleftrightarrow> ev_state ` set es \<inter> set DIRECT_PRECEDENCE = {}"
    by (simp add: rank_state_def first_present_Healthy DIRECT_PRECEDENCE_def)
  moreover have "st \<in> {Healthy, Blocked} \<longleftrightarrow> st \<notin> set DIRECT_PRECEDENCE" for st
    by (cases st) (simp_all add: DIRECT_PRECEDENCE_def)
  ultimately show ?thesis by blast
qed

lemma rank_state_in: "rank_state es = Healthy \<or> (\<exists>e\<in>set es. ev_state e = rank_state es)"
  using first_present_in[of DIRECT_PRECEDENCE "set (map ev_state es)"]
  by (auto simp: rank_state_def)

lemma overall_Healthy:
  assumes "overall_state es blocked = Healthy"
  shows "blocked = []" and "\<And>e. e \<in> set es \<Longrightarrow> ev_state e = Healthy"
  using assms by (auto simp: overall_state_def Let_def list_ex_iff split: if_splits)

section \<open>Evidence of a subject\<close>

lemma probe_evidence_fields [simp]:
  "ev_id (probe_evidence env c) = ck_id c" "ev_layer (probe_evidence env c) = ck_layer c"
  "ev_required (probe_evidence env c) = ck_required c" "\<not> ev_derived (probe_evidence env c)"
  "ev_blocked_by (probe_evidence env c) = []"
  by (simp_all add: probe_evidence_def Let_def split: probe_outcome.splits)

lemma probe_evidence_Healthy:
  "ev_state (probe_evidence env c) = Healthy \<longleftrightarrow>
     (\<exists>r. he_probe env c = InTime r \<and> pr_state r = Healthy
        \<and> he_now env - pr_observed r \<le> he_stale_after env)"
  by (auto simp: probe_evidence_def Let_def split: probe_outcome.splits)

lemma unavailable_evidence_fields [simp]:
  "ev_state (unavailable_evidence env c ds) = Unknown"
  "ev_required (unavailable_evidence env c ds) = ck_required c"
  "ev_derived (unavailable_evidence env c ds)"
  by (simp_all add: unavailable_evidence_def)

lemma external_evidence_fields:
  assumes "e \<in> set (external_evidence env su)"
  shows "ev_required e" and "ev_layer e \<in> {LExternalReachability, LTls}" and "ev_workload e = None"
proof -
  obtain a as where "filter (\<lambda>a. av_id a = su_id su) (he_availability env) = a # as"
    using assms by (cases "filter (\<lambda>a. av_id a = su_id su) (he_availability env)")
      (simp_all add: external_evidence_def)
  with assms show "ev_required e" and "ev_layer e \<in> {LExternalReachability, LTls}"
    and "ev_workload e = None"
    by (auto simp: external_evidence_def Let_def split: checked_at.splits if_splits)
qed

lemma subject_evidence_cases:
  assumes "e \<in> set (subject_evidence env results su)"
  obtains (probed) c where "c \<in> set (su_checks su)" "blocked_deps results c = []"
      "e = probe_evidence env c"
  | (unavailable) c where "c \<in> set (su_checks su)" "blocked_deps results c \<noteq> []"
      "e = unavailable_evidence env c (blocked_deps results c)"
  | (external) "e \<in> set (external_evidence env su)"
  using assms by (auto simp: subject_evidence_def)

lemma subject_blocked_Nil:
  "subject_blocked results su = [] \<longleftrightarrow> (\<forall>c\<in>set (su_checks su). blocked_deps results c = [])"
  by (auto simp: subject_blocked_def)

lemma evaluate_Inr:
  assumes "evaluate su es results blocked = Inr it"
  shows "it_id it = su_id su" and "it_evidence it = es" and "it_state it = overall_state es blocked"
    and "it_domains it = domains es"
    and "\<exists>roots. res_map (dependency_root results) blocked = Inr roots
           \<and> it_roots it = fromkeys (roots @ local_roots su es)"
  using assms by (auto simp: evaluate_def split: sum.splits)

lemma evaluate_all_list:
  "evaluate_all env results sus = Inr its \<Longrightarrow>
     list_all2 (\<lambda>su it. \<exists>res. evaluate_subject env res su = Inr it) sus its"
proof (induction sus arbitrary: results its)
  case (Cons su sus)
  obtain it where it: "evaluate_subject env results su = Inr it"
    using Cons.prems by (cases "evaluate_subject env results su") simp_all
  obtain its' where its': "evaluate_all env (results(su_id su \<mapsto> it)) sus = Inr its'"
    using Cons.prems it by (cases "evaluate_all env (results(su_id su \<mapsto> it)) sus") simp_all
  have "its = it # its'" using Cons.prems it its' by simp
  with Cons.IH[OF its'] it show ?case by auto
qed simp

lemma evaluate_all_Inr:
  assumes "evaluate_all env results sus = Inr its"
  shows "map it_id its = map su_id sus"
    and "it \<in> set its \<Longrightarrow> \<exists>su\<in>set sus. \<exists>res. evaluate_subject env res su = Inr it"
proof -
  note all = evaluate_all_list[OF assms]
  have "list_all2 (\<lambda>su it. it_id it = su_id su) sus its"
    using all by (rule list_all2_mono) (auto simp: evaluate_subject_def dest: evaluate_Inr(1))
  then show "map it_id its = map su_id sus" by (induction rule: list_all2_induct) simp_all
  show "it \<in> set its \<Longrightarrow> \<exists>su\<in>set sus. \<exists>res. evaluate_subject env res su = Inr it"
    using all by (induction rule: list_all2_induct) auto
qed

section \<open>Root causes\<close>

text \<open>A failing required check that was really probed, as an item names it.\<close>

definition real_root :: "item list \<Rightarrow> string \<Rightarrow> bool" where
  "real_root its r \<longleftrightarrow>
     (\<exists>it\<in>set its. \<exists>e\<in>set (it_evidence it). r = it_id it @ ''/'' @ ev_id e
        \<and> ev_required e \<and> ev_state e \<noteq> Healthy \<and> \<not> ev_derived e)"

lemma real_root_mono: "real_root its r \<Longrightarrow> set its \<subseteq> set js \<Longrightarrow> real_root js r"
  by (auto simp: real_root_def)

definition required_checks :: "subject \<Rightarrow> bool" where
  "required_checks su \<longleftrightarrow> list_all ck_required (su_checks su)"

definition blocks_somehow :: "item \<Rightarrow> bool" where
  "blocks_somehow it \<longleftrightarrow> it_state it \<in> set BLOCKING_STATES
     \<or> list_ex (domain_blocks it) [''workload'', ''persistence'', ''internalService'', ''application'']"

lemma dependency_blocks_some:
  "results d = Some it \<Longrightarrow> dependency_blocks d results \<Longrightarrow> blocks_somehow it"
  by (auto simp: dependency_blocks_def blocks_somehow_def split: if_splits)

lemma blocking_not_Healthy: "st \<in> set BLOCKING_STATES \<Longrightarrow> st \<noteq> Healthy \<and> st \<noteq> Degraded"
  by (auto simp: BLOCKING_STATES_def)

lemma local_roots_Nil:
  assumes "local_roots su es = []" and "e \<in> set es" and "ev_required e" and "\<not> ev_derived e"
  shows "ev_state e = Healthy"
  using assms by (auto simp: local_roots_def filter_empty_conv)

lemma domain_layers_map:
  "map_of (domains es) ''workload'' = Some (domain_of es [LWorkload])"
  "map_of (domains es) ''persistence'' = Some (domain_of es [LStorage])"
  "map_of (domains es) ''internalService'' = Some (domain_of es [LInternalService, LDependency])"
  "map_of (domains es) ''application'' = Some (domain_of es [LApplication, LFunctional])"
  by (simp_all add: domains_def DOMAIN_LAYERS_def)

lemma domain_of_blocking:
  assumes "dm_state (domain_of es layers) = Some st" and "st \<in> set BLOCKING_STATES"
  shows "\<exists>e\<in>set es. ev_layer e \<in> set layers \<and> ev_state e \<noteq> Healthy"
proof -
  let ?entries = "filter (\<lambda>e. ev_layer e \<in> set layers) es"
  have st: "st = rank_state ?entries"
    using assms(1) by (auto simp: domain_of_def Let_def split: if_splits)
  then have "rank_state ?entries \<noteq> Healthy" using blocking_not_Healthy[OF assms(2)] by simp
  with rank_state_in[of ?entries] show ?thesis by force
qed

text \<open>An item without a root cause blocks nobody.\<close>

lemma no_roots_no_block:
  assumes "evaluate su (subject_evidence env res su) res (subject_blocked res su) = Inr it"
    and "required_checks su" and "it_roots it = []"
  shows "\<not> blocks_somehow it"
proof -
  let ?es = "subject_evidence env res su"
  note facts = evaluate_Inr[OF assms(1)]
  obtain roots where roots: "res_map (dependency_root res) (subject_blocked res su) = Inr roots"
    and all: "it_roots it = fromkeys (roots @ local_roots su ?es)"
    using facts(5) by blast
  from all assms(3) have "roots @ local_roots su ?es = []" by (metis fromkeys_Nil_iff)
  then have "roots = []" and lr: "local_roots su ?es = []" by simp_all
  with res_map_length[OF roots] have blocked: "subject_blocked res su = []" by simp
  have ok: "ev_state e = Healthy" if "e \<in> set ?es" "ev_layer e \<notin> {LExternalReachability, LTls} \<or> \<not> ev_derived e" for e
    using that(1)
  proof (cases rule: subject_evidence_cases)
    case (probed c)
    then show ?thesis using local_roots_Nil[OF lr that(1)] assms(2)
      by (simp add: required_checks_def list_all_iff)
  next
    case (unavailable c)
    then show ?thesis using blocked by (simp add: subject_blocked_Nil)
  next
    case external
    then show ?thesis
      using external_evidence_fields[OF external] that(2) local_roots_Nil[OF lr that(1)] by auto
  qed
  have "overall_state ?es (subject_blocked res su) \<in> {Healthy, Degraded}"
  proof -
    have "rank_state (filter (\<lambda>e. \<not> ev_derived e) (filter ev_required ?es)) = Healthy"
      using ok by (auto simp: rank_state_Healthy)
    then show ?thesis using blocked by (simp add: overall_state_def Let_def)
  qed
  then have "it_state it \<notin> set BLOCKING_STATES" using facts(3) blocking_not_Healthy by force
  moreover have "\<not> domain_blocks it name"
    if name: "map_of (it_domains it) name = Some (domain_of ?es layers)"
      and layers: "set layers \<inter> {LExternalReachability, LTls} = {}" for name layers
  proof
    assume "domain_blocks it name"
    then have "case dm_state (domain_of ?es layers) of None \<Rightarrow> False | Some st \<Rightarrow> st \<in> set BLOCKING_STATES"
      by (simp add: domain_blocks_def name)
    then obtain st where "dm_state (domain_of ?es layers) = Some st" "st \<in> set BLOCKING_STATES"
      by (cases "dm_state (domain_of ?es layers)") simp_all
    from domain_of_blocking[OF this] ok layers show False by blast
  qed
  ultimately show ?thesis
    using facts(4) domain_layers_map[of ?es] by (simp add: blocks_somehow_def)
qed

lemma evaluate_roots_real:
  assumes ev: "evaluate su (subject_evidence env res su) res (subject_blocked res su) = Inr it"
    and req: "required_checks su"
    and res: "\<And>d it'. res d = Some it' \<Longrightarrow>
        (\<forall>r\<in>set (it_roots it'). real_root seen r) \<and> (it_roots it' = [] \<longrightarrow> \<not> blocks_somehow it')"
    and r: "r \<in> set (it_roots it)"
  shows "real_root (seen @ [it]) r"
proof -
  let ?es = "subject_evidence env res su"
  note facts = evaluate_Inr[OF ev]
  obtain roots where roots: "res_map (dependency_root res) (subject_blocked res su) = Inr roots"
    and all: "it_roots it = fromkeys (roots @ local_roots su ?es)"
    using facts(5) by blast
  consider "r \<in> set roots" | "r \<in> set (local_roots su ?es)" using r all by auto
  then show ?thesis
  proof cases
    case 1
    then obtain d where d: "d \<in> set (subject_blocked res su)" and dr: "dependency_root res d = Inr r"
      using res_map_mem[OF roots] by blast
    then obtain it' where it': "res d = Some it'" by (auto simp: dependency_root_def split: option.splits)
    from d have "dependency_blocks d res" by (auto simp: subject_blocked_def blocked_deps_def)
    then have "it_roots it' \<noteq> []" using res[OF it'] dependency_blocks_some[of res d it'] it' by blast
    then have "r \<in> set (it_roots it')" using dr it' by (cases "it_roots it'") (simp_all add: dependency_root_def)
    with res[OF it'] have "real_root seen r" by blast
    then show ?thesis by (rule real_root_mono) auto
  next
    case 2
    then show ?thesis using facts(1,2) by (auto simp: local_roots_def real_root_def)
  qed
qed

lemma evaluate_all_roots:
  "evaluate_all env res sus = Inr its \<Longrightarrow> list_all required_checks sus \<Longrightarrow>
   (\<And>d it'. res d = Some it' \<Longrightarrow>
      (\<forall>r\<in>set (it_roots it'). real_root seen r) \<and> (it_roots it' = [] \<longrightarrow> \<not> blocks_somehow it')) \<Longrightarrow>
   it \<in> set its \<Longrightarrow> r \<in> set (it_roots it) \<Longrightarrow> real_root (seen @ its) r"
proof (induction sus arbitrary: res its seen)
  case (Cons su sus)
  obtain it0 where it0: "evaluate_subject env res su = Inr it0"
    using Cons.prems(1) by (cases "evaluate_subject env res su") simp_all
  obtain its' where its': "evaluate_all env (res(su_id su \<mapsto> it0)) sus = Inr its'" and its: "its = it0 # its'"
    using Cons.prems(1) it0 by (cases "evaluate_all env (res(su_id su \<mapsto> it0)) sus") simp_all
  note ev = it0[unfolded evaluate_subject_def]
  have req: "required_checks su" using Cons.prems(2) by simp
  have here: "real_root (seen @ [it0]) r" if "r \<in> set (it_roots it0)" for r
    by (rule evaluate_roots_real[OF ev req Cons.prems(3) that])
  have step: "(\<forall>r\<in>set (it_roots it'). real_root (seen @ [it0]) r)
      \<and> (it_roots it' = [] \<longrightarrow> \<not> blocks_somehow it')"
    if "(res(su_id su \<mapsto> it0)) d = Some it'" for d it'
  proof (cases "d = su_id su")
    case True
    then show ?thesis using that here no_roots_no_block[OF ev req] by simp
  next
    case False
    then have "res d = Some it'" using that by simp
    note old = Cons.prems(3)[OF this]
    have "real_root (seen @ [it0]) r" if r: "r \<in> set (it_roots it')" for r
    proof -
      have "real_root seen r" using old r by blast
      then show ?thesis by (rule real_root_mono) auto
    qed
    with old show ?thesis by blast
  qed
  show ?case
  proof (cases "it \<in> set its'")
    case True
    have "real_root ((seen @ [it0]) @ its') r"
      by (rule Cons.IH[OF its' _ step True Cons.prems(5)]) (use Cons.prems(2) in simp_all)
    then show ?thesis by (simp add: its)
  next
    case False
    then have "it = it0" using Cons.prems(4) its by simp
    with here Cons.prems(5) have "real_root (seen @ [it0]) r" by simp
    then show ?thesis by (rule real_root_mono) (auto simp: its)
  qed
qed simp

lemma component_subject_checks:
  assumes "component_subject reg c = Inr su"
  shows "su_id su = c" and "required_checks su"
    and "k \<in> set (su_checks su) \<Longrightarrow> set (ck_deps k) \<subseteq> {''microk8s-node'', ''dns'', ''storage''} \<union> set (deps_of reg c)"
proof -
  obtain co checks where co: "map_of reg c = Some co"
    and ch: "res_map (component_check c (comp_deps co)) (filter chk_required (comp_checks co)) = Inr checks"
    and su: "su_id su = c" "su_checks su = checks"
    using assms by (auto simp: component_subject_def res_simps split: sum.splits)
  have one: "ck_required k \<and> set (ck_deps k)
      \<subseteq> {''microk8s-node'', ''dns'', ''storage''} \<union> set (comp_deps co)" if k: "k \<in> set checks" for k
  proof -
    obtain d where d: "component_check c (comp_deps co) d = Inr k" and "chk_required d"
      using res_map_mem[OF ch k] by auto
    then obtain l where "k = \<lparr>ck_id = chk_id d, ck_subject = c, ck_layer = l, ck_type = chk_type d,
           ck_target = chk_target d, ck_timeout = min (chk_timeout d) 30,
           ck_required = chk_required d, ck_deps = check_dependencies l (comp_deps co)\<rparr>"
      by (auto simp: component_check_def split: sum.splits)
    then show ?thesis
      using \<open>chk_required d\<close> by (cases l) (auto simp: check_dependencies_def)
  qed
  show "su_id su = c" by (rule su)
  show "required_checks su" using one su by (simp add: required_checks_def list_all_iff)
  show "k \<in> set (su_checks su) \<Longrightarrow> set (ck_deps k) \<subseteq> {''microk8s-node'', ''dns'', ''storage''} \<union> set (deps_of reg c)"
    using one su co by (simp add: deps_of_def)
qed

lemma subjects_Inr:
  assumes "subjects env = Inr sus"
  obtains order sus' where "dependency_order (he_hash env) (he_registry env) None = Inr order"
    and "list_all2 (\<lambda>c su. component_subject (he_registry env) c = Inr su) order sus'"
    and "sus = infrastructure_subjects @ sus'"
  using assms by (auto simp: subjects_def res_map_Inr_iff split: sum.splits)

lemma subjects_required: "subjects env = Inr sus \<Longrightarrow> list_all required_checks sus"
proof (erule subjects_Inr)
  fix order sus' assume "list_all2 (\<lambda>c su. component_subject (he_registry env) c = Inr su) order sus'"
    and sus: "sus = infrastructure_subjects @ sus'"
  then have "list_all2 (\<lambda>c su. required_checks su) order sus'"
    using component_subject_checks(2) by (auto elim: list_all2_mono)
  then have "list_all required_checks sus'"
    by (induction rule: list_all2_induct) simp_all
  then show "list_all required_checks sus"
    by (simp add: sus infrastructure_subjects_def infrastructure_subject_def required_checks_def)
qed

section \<open>The document is always produced\<close>

text \<open>
  Probe evidence that a run cannot compare: a workload that is present with a desired replica count
  but no ready count.
\<close>

definition comparable :: "health_env \<Rightarrow> bool" where
  "comparable env \<longleftrightarrow> (\<forall>c r. he_probe env c = InTime r \<longrightarrow> pr_present r = Some True \<longrightarrow>
     pr_desired r \<noteq> None \<longrightarrow> pr_ready r \<noteq> None)"

declare ex_bool_eq [simp]

lemma any_result_total:
  "(\<And>x. x \<in> set xs \<Longrightarrow> \<exists>b. p x = Inr b) \<Longrightarrow> \<exists>b. any_result p xs = Inr b"
proof (induction xs)
  case (Cons x xs)
  obtain b where b: "p x = Inr b" using Cons.prems[of x] by auto
  obtain b' where "any_result p xs = Inr b'" using Cons by (meson list.set_intros(2))
  with b show ?case by (cases b) simp_all
qed simp

lemma mismatched_total:
  assumes "comparable env" and "e \<in> set (subject_evidence env res su)"
  shows "\<exists>b. mismatched_replicas e = Inr b"
  using assms(2)
proof (cases rule: subject_evidence_cases)
  case (probed c)
  show ?thesis
  proof (cases "he_probe env c")
    case (InTime r)
    have cmp: "pr_present r = Some True \<Longrightarrow> pr_desired r \<noteq> None \<Longrightarrow> pr_ready r \<noteq> None"
      using assms(1) InTime by (simp add: comparable_def)
    show ?thesis
      using cmp InTime
      by (auto simp: probed(3) mismatched_replicas_def probe_evidence_def Let_def
          split: option.splits bool.splits)
  qed (auto simp: probed(3) probe_evidence_def mismatched_replicas_def Let_def)
next
  case (unavailable c)
  then show ?thesis by (simp add: unavailable_evidence_def mismatched_replicas_def)
next
  case external
  then show ?thesis using external_evidence_fields(3)[OF external] by (simp add: mismatched_replicas_def)
qed

lemma evaluate_subject_total:
  assumes "comparable env"
    and "\<And>c d. c \<in> set (su_checks su) \<Longrightarrow> d \<in> set (ck_deps c) \<Longrightarrow> res d \<noteq> None"
  shows "\<exists>it. evaluate_subject env res su = Inr it"
proof -
  have "\<exists>r. dependency_root res d = Inr r" if d: "d \<in> set (subject_blocked res su)" for d
  proof -
    obtain c where "c \<in> set (su_checks su)" "d \<in> set (ck_deps c)"
      using d by (auto simp: subject_blocked_def blocked_deps_def)
    then obtain it where "res d = Some it" using assms(2) by blast
    then show ?thesis by (simp add: dependency_root_def)
  qed
  then obtain roots where roots: "res_map (dependency_root res) (subject_blocked res su) = Inr roots"
    using res_map_total by blast
  obtain b where "any_result mismatched_replicas
      (filter (\<lambda>e. ev_layer e = LWorkload) (subject_evidence env res su)) = Inr b"
    using any_result_total[where p = mismatched_replicas] mismatched_total[OF assms(1)]
    by (metis (no_types, lifting) filter_is_subset subset_code(1))
  then obtain dims where "dimensions (subject_evidence env res su) = Inr dims"
    by (simp add: dimensions_def Let_def)
  with roots show ?thesis by (simp add: evaluate_subject_def evaluate_def split: prod.splits)
qed

text \<open>Subjects in an order in which the dependencies of every check come earlier.\<close>

fun deps_earlier :: "string set \<Rightarrow> subject list \<Rightarrow> bool" where
  "deps_earlier S [] \<longleftrightarrow> True"
| "deps_earlier S (su # sus) \<longleftrightarrow>
     (\<forall>c\<in>set (su_checks su). set (ck_deps c) \<subseteq> S) \<and> deps_earlier (insert (su_id su) S) sus"

lemma evaluate_all_total:
  "comparable env \<Longrightarrow> deps_earlier S sus \<Longrightarrow> S \<subseteq> dom res \<Longrightarrow>
     \<exists>its. evaluate_all env res sus = Inr its"
proof (induction sus arbitrary: S res)
  case (Cons su sus)
  have "\<exists>it. evaluate_subject env res su = Inr it"
    using Cons.prems by (intro evaluate_subject_total) (auto simp: subset_iff domIff)
  then obtain it where it: "evaluate_subject env res su = Inr it" by blast
  have "insert (su_id su) S \<subseteq> dom (res(su_id su \<mapsto> it))" using Cons.prems(3) by auto
  with Cons.IH[OF Cons.prems(1)] Cons.prems(2)
  obtain its where "evaluate_all env (res(su_id su \<mapsto> it)) sus = Inr its" by force
  with it show ?case by simp
qed simp

lemma deps_earlier_append:
  "deps_earlier S (xs @ ys) \<longleftrightarrow> deps_earlier S xs \<and> deps_earlier (S \<union> su_id ` set xs) ys"
  by (induction xs arbitrary: S) auto

lemma deps_earlier_components:
  "list_all2 (\<lambda>c su. component_subject reg c = Inr su) order sus \<Longrightarrow>
   {''microk8s-node'', ''dns'', ''storage''} \<union> set prior \<subseteq> S \<Longrightarrow>
   (\<And>us c vs. prior @ order = us @ c # vs \<Longrightarrow> set (deps_of reg c) \<subseteq> set us) \<Longrightarrow>
   deps_earlier S sus"
proof (induction order sus arbitrary: prior S rule: list_all2_induct)
  case (Cons c order su sus)
  note facts = component_subject_checks[OF Cons.hyps(1)]
  have deps: "set (deps_of reg c) \<subseteq> set prior" by (rule Cons.prems(2)[of prior c order]) simp
  have "deps_earlier (insert (su_id su) S) sus"
    by (rule Cons.IH[of "prior @ [c]"]) (use Cons.prems facts(1) in auto)
  moreover have "\<forall>k\<in>set (su_checks su). set (ck_deps k) \<subseteq> S"
    using facts(3) deps Cons.prems(1) by blast
  ultimately show ?case by simp
qed simp

lemma component_subject_total:
  assumes "map_of reg c = Some co" and "chk_type ` set (comp_checks co) \<subseteq> fst ` set PROBE_LAYERS"
  shows "\<exists>su. component_subject reg c = Inr su"
proof -
  have "\<exists>k. component_check c (comp_deps co) d = Inr k" if "d \<in> set (filter chk_required (comp_checks co))" for d
  proof -
    have "chk_type d \<in> fst ` set PROBE_LAYERS" using assms(2) that by auto
    then obtain l where "map_of PROBE_LAYERS (chk_type d) = Some l"
      using map_of_eq_None_iff[of PROBE_LAYERS "chk_type d"] by (cases "map_of PROBE_LAYERS (chk_type d)") auto
    then show ?thesis by (simp add: component_check_def component_layer_def)
  qed
  then obtain ks where "res_map (component_check c (comp_deps co)) (filter chk_required (comp_checks co)) = Inr ks"
    using res_map_total by blast
  with assms(1) show ?thesis by (simp add: component_subject_def reg_component_def)
qed

section \<open>A health document\<close>

text \<open>
  A database and the infrastructure, with every probe answering healthy but those of one subject.
\<close>

definition demo_db :: component where
  "demo_db =
     \<lparr>comp_id = ''db'', comp_name = ''Database'', comp_web = None, comp_deps = [],
      comp_operations = [],
      comp_checks = [\<lparr>chk_id = ''ready'', chk_type = ''native-readiness'', chk_target = ''db'',
                      chk_timeout = 5, chk_required = True\<rparr>]\<rparr>"

definition demo_health :: "string \<Rightarrow> health_env" where
  "demo_health failing =
     \<lparr>he_hash = insertion_order, he_components = [demo_db], he_now = 1000, he_stale_after = 60,
      he_probe = (\<lambda>c. InTime
        \<lparr>pr_state = (if ck_subject c = failing then Unhealthy else Healthy), pr_summary = ''ok'',
         pr_observed = 990, pr_latency = Some 3, pr_present = None, pr_desired = None,
         pr_ready = None\<rparr>),
      he_measured = (\<lambda>c. 3), he_availability = []\<rparr>"

lemma demo_order: "dependency_order insertion_order (mk_registry [demo_db]) None = Inr [''db'']"
  by (simp add: order_eval demo_db_def)

lemma demo_subjects:
  "subjects (demo_health failing) = Inr (infrastructure_subjects @
     [\<lparr>su_id = ''db'', su_name = ''Database'', su_deps = [''microk8s-node'', ''dns''],
       su_checks = [\<lparr>ck_id = ''ready'', ck_subject = ''db'', ck_layer = LApplication,
         ck_type = ''native-readiness'', ck_target = ''db'', ck_timeout = 5, ck_required = True,
         ck_deps = [''microk8s-node'', ''dns'']\<rparr>],
       su_remediation = ''/docs/health-checks.md#db''\<rparr>])"
  using demo_order
  by (simp add: subjects_def demo_health_def component_subject_def reg_component_def mk_registry_def
      demo_db_def component_check_def component_layer_def PROBE_LAYERS_def check_dependencies_def
     )

lemma demo_node_evidence:
  "subject_evidence (demo_health failing) Map.empty (hd infrastructure_subjects) =
     [probe_evidence (demo_health failing) (hd (su_checks (hd infrastructure_subjects)))]"
  by (simp add: subject_evidence_def infrastructure_subjects_def infrastructure_subject_def
      blocked_deps_def external_evidence_def demo_health_def)

lemma demo_node_blocked: "subject_blocked res (hd infrastructure_subjects) = []"
  by (simp add: subject_blocked_def infrastructure_subjects_def infrastructure_subject_def blocked_deps_def)

lemma demo_probe_state:
  "ev_state (probe_evidence (demo_health failing) c) = (if ck_subject c = failing then Unhealthy else Healthy)"
  by (simp add: probe_evidence_def demo_health_def Let_def)

lemma rank_state_single [simp]:
  "rank_state [e] = (if ev_state e = Blocked then Healthy else ev_state e)" "rank_state [] = Healthy"
  by (cases "ev_state e") (simp_all add: rank_state_def DIRECT_PRECEDENCE_def)

lemma overall_state_single:
  assumes "ev_required e" and "\<not> ev_derived e" and "ev_layer e = LInfrastructure"
    and "ev_state e \<in> {Healthy, Unhealthy}"
  shows "overall_state [e] [] = ev_state e"
  using assms by (auto simp: overall_state_def)

lemma demo_node:
  assumes "evaluate_subject (demo_health failing) Map.empty (hd infrastructure_subjects) = Inr it"
  shows "it_state it = (if failing = ''microk8s-node'' then Unhealthy else Healthy)"
    and "it_roots it = (if failing = ''microk8s-node'' then [''microk8s-node/node-ready''] else [])"
proof -
  let ?c = "hd (su_checks (hd infrastructure_subjects))"
  have c: "ck_subject ?c = ''microk8s-node''" "ck_id ?c = ''node-ready''" "ck_required ?c"
    "ck_layer ?c = LInfrastructure" "su_id (hd infrastructure_subjects) = ''microk8s-node''"
    by (simp_all add: infrastructure_subjects_def infrastructure_subject_def)
  note run = assms[unfolded evaluate_subject_def demo_node_evidence demo_node_blocked]
  show "it_state it = (if failing = ''microk8s-node'' then Unhealthy else Healthy)"
    using evaluate_Inr(3)[OF run] c by (auto simp: overall_state_single demo_probe_state)
  show "it_roots it = (if failing = ''microk8s-node'' then [''microk8s-node/node-ready''] else [])"
    using evaluate_Inr(5)[OF run] c by (simp add: local_roots_def demo_probe_state)
qed

lemma blocked_root:
  assumes "evaluate_subject env (Map.empty(d \<mapsto> node)) su = Inr it" and "he_availability env = []"
    and su: "su_checks su = [c]" "ck_deps c = [d]"
    and node: "d \<in> set INFRASTRUCTURE" "it_state node = Unhealthy" "it_roots node = [r]"
  shows "it_id it = su_id su" and "it_roots it = [r]"
proof -
  let ?res = "Map.empty(d \<mapsto> node)"
  have d: "blocked_deps ?res c = [d]"
    using su node by (simp add: blocked_deps_def dependency_blocks_def BLOCKING_STATES_def)
  then have b: "subject_blocked ?res su = [d]" using su by (simp add: subject_blocked_def)
  have e: "subject_evidence env ?res su = [unavailable_evidence env c [d]]"
    using d su assms(2) by (simp add: subject_evidence_def external_evidence_def)
  note run = assms(1)[unfolded evaluate_subject_def e b]
  show "it_id it = su_id su" by (rule evaluate_Inr(1)[OF run])
  show "it_roots it = [r]"
    using evaluate_Inr(5)[OF run] node by (simp add: local_roots_def dependency_root_def)
qed

lemma demo_storage:
  assumes "evaluate_subject (demo_health failing) (Map.empty(''microk8s-node'' \<mapsto> node))
      (infrastructure_subjects ! 1) = Inr it"
    and "it_state node = Unhealthy" and "it_roots node = [r]"
  shows "it_id it = ''storage''" and "it_roots it = [r]"
  using blocked_root[OF assms(1) _ _ _ _ assms(2,3)]
  by (simp_all add: infrastructure_subjects_def infrastructure_subject_def INFRASTRUCTURE_def
      demo_health_def)

lemma demo_document:
  "\<exists>doc node store more. health_document (demo_health failing) = Inr doc
     \<and> hd_items doc = map (impacted (node # store # more)) (node # store # more)
     \<and> evaluate_subject (demo_health failing) Map.empty (hd infrastructure_subjects) = Inr node
     \<and> evaluate_subject (demo_health failing) (Map.empty(''microk8s-node'' \<mapsto> node))
          (infrastructure_subjects ! 1) = Inr store"
proof -
  obtain sus where sus: "subjects (demo_health failing) = Inr sus"
    and all: "deps_earlier {} sus" and ex: "\<exists>more. sus = hd infrastructure_subjects
      # infrastructure_subjects ! 1 # more"
    by (rule exE[of "\<lambda>sus. subjects (demo_health failing) = Inr sus \<and> deps_earlier {} sus \<and>
        (\<exists>more. sus = hd infrastructure_subjects # infrastructure_subjects ! 1 # more)"])
      (use demo_subjects in \<open>auto simp: infrastructure_subjects_def infrastructure_subject_def\<close>)
  obtain more where more: "sus = hd infrastructure_subjects # infrastructure_subjects ! 1 # more"
    using ex by blast
  have "comparable (demo_health failing)" by (simp add: comparable_def demo_health_def)
  from evaluate_all_total[OF this all, of Map.empty]
  obtain its where its: "evaluate_all (demo_health failing) Map.empty sus = Inr its" by auto
  have "su_id (hd infrastructure_subjects) = ''microk8s-node''"
    by (simp add: infrastructure_subjects_def infrastructure_subject_def)
  with its obtain node store rest where "its = node # store # rest"
    and "evaluate_subject (demo_health failing) Map.empty (hd infrastructure_subjects) = Inr node"
    and "evaluate_subject (demo_health failing) (Map.empty(''microk8s-node'' \<mapsto> node))
          (infrastructure_subjects ! 1) = Inr store"
    by (auto simp: more split: sum.splits)
  with sus its show ?thesis by (auto simp: health_document_def Let_def)
qed

section \<open>Properties\<close>

lemma impacted_fields [simp]:
  "it_id (impacted its it) = it_id it" "it_state (impacted its it) = it_state it"
  "it_evidence (impacted its it) = it_evidence it" "it_roots (impacted its it) = it_roots it"
  by (simp_all add: impacted_def)

lemma health_document_Inr:
  assumes "health_document env = Inr doc"
  obtains sus its where "subjects env = Inr sus" and "evaluate_all env Map.empty sus = Inr its"
    and "hd_items doc = map (impacted its) its" and "hd_state doc = aggregate (hd_items doc)"
  using assms by (auto simp: health_document_def Let_def split: sum.splits)

text \<open>
  C11. Healthy is never guessed. When an item of the health document is healthy, it is the item of a
  subject each of whose checks was probed, answered in time, reported healthy, and was observed no
  longer ago than the freshness threshold; and when the whole environment is healthy, every item is.
\<close>

theorem healthy_is_observed:
  assumes "health_document env = Inr doc" and "it \<in> set (hd_items doc)"
    and "it_state it = Healthy \<or> hd_state doc = Healthy"
  shows "it_state it = Healthy \<and> (\<exists>sus su. subjects env = Inr sus \<and> su \<in> set sus \<and> su_id su = it_id it
    \<and> list_all (\<lambda>c. \<exists>r. he_probe env c = InTime r \<and> pr_state r = Healthy
         \<and> he_now env - pr_observed r \<le> he_stale_after env) (su_checks su))"
proof -
  obtain sus its where sus: "subjects env = Inr sus" and its: "evaluate_all env Map.empty sus = Inr its"
    and items: "hd_items doc = map (impacted its) its" and agg: "hd_state doc = aggregate (hd_items doc)"
    by (rule health_document_Inr[OF assms(1)])
  have "it_state it = Healthy" if "aggregate (hd_items doc) = Healthy"
  proof -
    have "Healthy \<notin> set AGGREGATE_PRECEDENCE" by (simp add: AGGREGATE_PRECEDENCE_def)
    from first_present_Healthy[OF this] that
    have "it_state it \<notin> set AGGREGATE_PRECEDENCE" using assms(2) by (auto simp: aggregate_def)
    then show ?thesis by (cases "it_state it") (simp_all add: AGGREGATE_PRECEDENCE_def)
  qed
  then have st: "it_state it = Healthy" using assms(3) agg by auto
  obtain it0 where it0: "it0 \<in> set its" "it = impacted its it0" using assms(2) items by auto
  obtain su res where su: "su \<in> set sus" and ev: "evaluate_subject env res su = Inr it0"
    using evaluate_all_Inr(2)[OF its it0(1)] by blast
  note facts = evaluate_Inr[OF ev[unfolded evaluate_subject_def]]
  have ok: "overall_state (subject_evidence env res su) (subject_blocked res su) = Healthy"
    using st it0(2) facts(3) by simp
  have "\<exists>r. he_probe env c = InTime r \<and> pr_state r = Healthy
         \<and> he_now env - pr_observed r \<le> he_stale_after env" if c: "c \<in> set (su_checks su)" for c
  proof -
    have "blocked_deps res c = []" using overall_Healthy(1)[OF ok] c by (simp add: subject_blocked_Nil)
    then have "probe_evidence env c \<in> set (subject_evidence env res su)"
      using c by (simp add: subject_evidence_def)
    from overall_Healthy(2)[OF ok this] show ?thesis by (simp add: probe_evidence_Healthy)
  qed
  with st sus su facts(1) it0(2) show ?thesis by (auto simp: list_all_iff)
qed

theorem healthy_is_observed_witness:
  "\<exists>doc it. health_document (demo_health ''none'') = Inr doc \<and> it \<in> set (hd_items doc)
    \<and> it_state it = Healthy
    \<and> (\<exists>sus su. subjects (demo_health ''none'') = Inr sus \<and> su \<in> set sus \<and> su_id su = it_id it
      \<and> list_all (\<lambda>c. \<exists>r. he_probe (demo_health ''none'') c = InTime r \<and> pr_state r = Healthy
         \<and> he_now (demo_health ''none'') - pr_observed r \<le> he_stale_after (demo_health ''none''))
         (su_checks su))"
proof -
  obtain doc node store more where doc: "health_document (demo_health ''none'') = Inr doc"
    and items: "hd_items doc = map (impacted (node # store # more)) (node # store # more)"
    and node: "evaluate_subject (demo_health ''none'') Map.empty (hd infrastructure_subjects) = Inr node"
    using demo_document[of "''none''"] by blast
  let ?it = "impacted (node # store # more) node"
  have it: "?it \<in> set (hd_items doc)" by (simp add: items)
  have "it_state ?it = Healthy \<or> hd_state doc = Healthy" using demo_node(1)[OF node] by simp
  from healthy_is_observed[OF doc it this] doc it show ?thesis by blast
qed

text \<open>
  Root causes are real. Every root cause that any item of the document names is of the form
  subject/check for an item of the same document whose evidence contains that check: required, not
  healthy, and observed by a probe rather than derived from a blocked dependency or a route; so the
  suppression of downstream symptoms never ends at another symptom.
\<close>

theorem root_causes_are_real:
  assumes "health_document env = Inr doc" and "it \<in> set (hd_items doc)" and "r \<in> set (it_roots it)"
  shows "\<exists>it' e. it' \<in> set (hd_items doc) \<and> e \<in> set (it_evidence it')
    \<and> r = it_id it' @ ''/'' @ ev_id e \<and> ev_required e \<and> ev_state e \<noteq> Healthy \<and> \<not> ev_derived e"
proof -
  obtain sus its where sus: "subjects env = Inr sus" and its: "evaluate_all env Map.empty sus = Inr its"
    and items: "hd_items doc = map (impacted its) its" and "hd_state doc = aggregate (hd_items doc)"
    by (rule health_document_Inr[OF assms(1)])
  obtain it0 where it0: "it0 \<in> set its" "it = impacted its it0" using assms(2) items by auto
  have "real_root ([] @ its) r"
    by (rule evaluate_all_roots[OF its subjects_required[OF sus] _ it0(1)]) (use assms(3) it0(2) in simp_all)
  then show ?thesis using items by (force simp: real_root_def)
qed

theorem root_causes_are_real_witness:
  "\<exists>doc it. health_document (demo_health ''microk8s-node'') = Inr doc \<and> it \<in> set (hd_items doc)
    \<and> it_id it = ''storage'' \<and> ''microk8s-node/node-ready'' \<in> set (it_roots it)
    \<and> (\<exists>it' e. it' \<in> set (hd_items doc) \<and> e \<in> set (it_evidence it')
      \<and> ''microk8s-node/node-ready'' = it_id it' @ ''/'' @ ev_id e \<and> ev_required e
      \<and> ev_state e \<noteq> Healthy \<and> \<not> ev_derived e)"
proof -
  let ?env = "demo_health ''microk8s-node''"
  obtain doc node store more where doc: "health_document ?env = Inr doc"
    and items: "hd_items doc = map (impacted (node # store # more)) (node # store # more)"
    and node: "evaluate_subject ?env Map.empty (hd infrastructure_subjects) = Inr node"
    and store: "evaluate_subject ?env (Map.empty(''microk8s-node'' \<mapsto> node))
          (infrastructure_subjects ! 1) = Inr store"
    using demo_document[of "''microk8s-node''"] by blast
  let ?it = "impacted (node # store # more) store"
  have it: "?it \<in> set (hd_items doc)" by (simp add: items)
  have root: "it_id ?it = ''storage'' \<and> it_roots ?it = [''microk8s-node/node-ready'']"
    using demo_storage[OF store] demo_node(1,2)[OF node] by simp
  then have "''microk8s-node/node-ready'' \<in> set (it_roots ?it)" by simp
  from root_causes_are_real[OF doc it this] doc it root this show ?thesis by blast
qed

lemma document_total:
  assumes "orderable (he_registry env) (set (component_ids (he_registry env)))"
    and "\<And>c co. map_of (he_registry env) c = Some co \<Longrightarrow>
           chk_type ` set (comp_checks co) \<subseteq> fst ` set PROBE_LAYERS"
    and "comparable env"
  shows "\<exists>doc order. health_document env = Inr doc
    \<and> dependency_order (he_hash env) (he_registry env) None = Inr order
    \<and> map it_id (hd_items doc) = INFRASTRUCTURE @ order"
proof -
  obtain order where order: "dependency_order (he_hash env) (he_registry env) None = Inr order"
    using dependency_order_Inl[of "he_hash env" "he_registry env" None, OF _ distinct_mk_registry] assms(1)
    by (cases "dependency_order (he_hash env) (he_registry env) None") (auto simp: selection_def)
  have "\<exists>su. component_subject (he_registry env) c = Inr su" if "c \<in> set order" for c
  proof -
    have "c \<in> set (component_ids (he_registry env))" using reg.order_known[OF order] that by blast
    then obtain co where "map_of (he_registry env) c = Some co"
      using map_of_eq_None_iff[of "he_registry env" c]
      by (cases "map_of (he_registry env) c") (auto simp: component_ids_def)
    then show ?thesis using component_subject_total assms(2) by blast
  qed
  then obtain sus where sus: "res_map (component_subject (he_registry env)) order = Inr sus"
    using res_map_total by blast
  then have all: "list_all2 (\<lambda>c su. component_subject (he_registry env) c = Inr su) order sus"
    by (simp add: res_map_Inr_iff)
  have ids: "map su_id sus = order"
    by (rule res_map_map[OF sus]) (rule component_subject_checks(1))
  have "deps_earlier (set INFRASTRUCTURE) sus"
    by (rule deps_earlier_components[OF all, of "[]"])
      (use reg.order_split_before order in \<open>auto simp: INFRASTRUCTURE_def\<close>)
  moreover have "su_id ` set infrastructure_subjects = set INFRASTRUCTURE"
    "deps_earlier {} infrastructure_subjects"
    by (simp_all add: infrastructure_subjects_def infrastructure_subject_def INFRASTRUCTURE_def)
  ultimately have "deps_earlier {} (infrastructure_subjects @ sus)" by (simp add: deps_earlier_append)
  from evaluate_all_total[OF assms(3) this, of Map.empty]
  obtain its where its: "evaluate_all env Map.empty (infrastructure_subjects @ sus) = Inr its" by auto
  have "map it_id its = INFRASTRUCTURE @ order"
    using evaluate_all_Inr(1)[OF its] ids
    by (simp add: infrastructure_subjects_def infrastructure_subject_def INFRASTRUCTURE_def)
  with order sus its show ?thesis
    by (auto simp: health_document_def subjects_def Let_def comp_def)
qed



end
