(* ===== verification/IsoText.thy ===== *)
theory IsoText
  imports Effects
begin

text \<open>
  Time stamps as text. \<^verbatim>\<open>datetime.fromisoformat\<close> and \<^verbatim>\<open>datetime.isoformat\<close> are a pair of functions of
  the standard library, an argument of the definitions that read or write time stamps; what the code
  relies on is named by \<open>iso_laws\<close>: the text of a UTC time is digits and separators followed by
  \<open>+00:00\<close>, and reading it gives the time back. The programs write the zone as \<open>Z\<close> and turn it
  back before they read it: \<open>format_z\<close> and \<open>parse_z\<close>, with their round trip. \<open>replace_text\<close> is
  \<^verbatim>\<open>str.replace\<close>.
\<close>

fun replace_text :: "string \<Rightarrow> string \<Rightarrow> nat \<Rightarrow> string \<Rightarrow> string" where
  "replace_text pat new skip [] = []"
| "replace_text pat new (Suc skip) (c # cs) = replace_text pat new skip cs"
| "replace_text pat new 0 (c # cs) =
     (if take (length pat) (c # cs) = pat then new @ replace_text pat new (length pat - 1) cs
      else c # replace_text pat new 0 cs)"

definition str_replace :: "string \<Rightarrow> string \<Rightarrow> string \<Rightarrow> string" where
  "str_replace s pat new = replace_text pat new 0 s"

lemma str_replace_example: "str_replace ''abcabcab'' ''abc'' ''x'' = ''xxab''"
  by (simp add: str_replace_def)

lemma replace_text_skip: "replace_text pat new (length us) (us @ cs) = replace_text pat new 0 cs"
  by (induction us) simp_all

lemma replace_text_at:
  "pat = p # ps \<Longrightarrow> replace_text pat new 0 (pat @ cs) = new @ replace_text pat new 0 cs"
  using replace_text_skip[of pat new ps cs] by simp

lemma replace_text_other:
  "p \<notin> set us \<Longrightarrow> replace_text (p # ps) new 0 (us @ cs) = us @ replace_text (p # ps) new 0 cs"
  by (induction us) auto

lemma str_replace_suffix:
  assumes "p \<notin> set us"
  shows "str_replace (us @ p # ps) (p # ps) new = us @ new"
  using replace_text_other[OF assms, of ps new "p # ps"] replace_text_at[of "p # ps" p ps new "[]"]
  by (simp add: str_replace_def)

lemma str_replace_absent: "p \<notin> set us \<Longrightarrow> str_replace us (p # ps) new = us"
  using replace_text_other[of p us ps new "[]"] by (simp add: str_replace_def)

section \<open>Zones\<close>

record iso_texts =
  fromiso :: "string \<Rightarrow> py_datetime option"
  isofmt :: "instant \<Rightarrow> string"

definition parse_z :: "iso_texts \<Rightarrow> string \<Rightarrow> py_datetime option" where
  "parse_z tx s = fromiso tx (str_replace s ''Z'' ''+00:00'')"

definition format_z :: "iso_texts \<Rightarrow> instant \<Rightarrow> string" where
  "format_z tx t = str_replace (isofmt tx t) ''+00:00'' ''Z''"

definition iso_laws :: "iso_texts \<Rightarrow> bool" where
  "iso_laws tx \<longleftrightarrow> (\<forall>t. fromiso tx (isofmt tx t) = Some (Aware t)
     \<and> (\<exists>body. isofmt tx t = body @ ''+00:00'' \<and> CHR ''+'' \<notin> set body \<and> CHR ''Z'' \<notin> set body))"

lemma format_z_body:
  assumes "iso_laws tx"
  obtains body where "isofmt tx t = body @ ''+00:00''" and "format_z tx t = body @ ''Z''"
    and "CHR ''Z'' \<notin> set body"
proof -
  obtain body where "isofmt tx t = body @ ''+00:00''" "CHR ''+'' \<notin> set body" "CHR ''Z'' \<notin> set body"
    using assms by (auto simp: iso_laws_def)
  then show thesis
    using that[of body] str_replace_suffix[of "CHR ''+''" body "''00:00''" "''Z''"]
    by (simp add: format_z_def)
qed

lemma parse_format_z:
  assumes "iso_laws tx"
  shows "parse_z tx (format_z tx t) = Some (Aware t)"
proof -
  obtain body where "isofmt tx t = body @ ''+00:00''" "format_z tx t = body @ ''Z''"
    "CHR ''Z'' \<notin> set body"
    by (rule format_z_body[OF assms])
  moreover have "fromiso tx (isofmt tx t) = Some (Aware t)" using assms by (simp add: iso_laws_def)
  ultimately show ?thesis
    using str_replace_suffix[of "CHR ''Z''" body "[]" "''+00:00''"] by (simp add: parse_z_def)
qed

lemma format_z_nonempty:
  assumes "iso_laws tx"
  shows "format_z tx t \<noteq> []"
proof -
  obtain body where "format_z tx t = body @ ''Z''" by (rule format_z_body[OF assms])
  then show ?thesis by simp
qed

lemma format_z_inj: "iso_laws tx \<Longrightarrow> format_z tx t = format_z tx u \<Longrightarrow> t = u"
  by (metis option.inject parse_format_z py_datetime.inject(1))

text \<open>An instance of the laws: the time in unary, with its sign.\<close>

definition unary_iso :: iso_texts where
  "unary_iso =
     \<lparr>fromiso = (\<lambda>s. if drop (length s - 6) s = ''+00:00''
        then Some (Aware (int (count_list s (CHR ''1'')) - int (count_list s (CHR ''-''))))
        else None),
      isofmt = (\<lambda>t. replicate (nat t) (CHR ''1'') @ replicate (nat (- t)) (CHR ''-'') @ ''+00:00'')\<rparr>"

lemma unary_iso_laws: "iso_laws unary_iso"
proof -
  have "isofmt unary_iso t
      = (replicate (nat t) (CHR ''1'') @ replicate (nat (- t)) (CHR ''-'')) @ ''+00:00''"
    and "CHR ''+'' \<notin> set (replicate (nat t) (CHR ''1'') @ replicate (nat (- t)) (CHR ''-''))"
    and "CHR ''Z'' \<notin> set (replicate (nat t) (CHR ''1'') @ replicate (nat (- t)) (CHR ''-''))" for t
    by (auto simp: unary_iso_def)
  moreover have "fromiso unary_iso (isofmt unary_iso t) = Some (Aware t)" for t
    by (simp add: unary_iso_def count_list_replicate)
  ultimately show ?thesis unfolding iso_laws_def by blast
qed

end
