(* ===== verification/Autonomy.thy ===== *)
theory Autonomy
  imports IsoText Json
begin

text \<open>
  \<^verbatim>\<open>supervisor/autonomy_policy.py\<close>: the autonomy policy, read from one protected file and shared by the
  supervisor's processes. \<open>effective\<close> validates and normalises, \<open>load_policy\<close> guards the file and
  \<open>replace_policy\<close> installs a new one by writing a temporary file and renaming it; each of its system
  calls may fail. A document is the value \<^verbatim>\<open>json.loads\<close> returns (without fractions). The theorems
  show what every accepted policy satisfies, and that installing is atomic and reads back.
\<close>

section \<open>Profiles\<close>

definition AUTONOMY_SCHEMA :: string where
  "AUTONOMY_SCHEMA = ''fortify.autonomy/v1alpha1''"

definition ACTIONS :: "string list" where
  "ACTIONS =
     [''start_next_issue'', ''close_completed_issue'', ''advance_milestone'',
      ''retry_idempotent_failure'', ''merge_pull_request'', ''destructive_operations'',
      ''secret_operations'', ''scope_changes'']"

definition DECISIONS :: "string list" where
  "DECISIONS = [''auto'', ''approval'', ''disabled'']"

definition PROTECTED_ACTIONS :: "string list" where
  "PROTECTED_ACTIONS = [''destructive_operations'', ''secret_operations'', ''scope_changes'']"

definition PROFILE_DEFAULTS :: "(string \<times> (string \<times> string) list) list" where
  "PROFILE_DEFAULTS =
     [(''manual'', map (\<lambda>a. (a, ''approval'')) ACTIONS),
      (''assisted'',
        [(''start_next_issue'', ''auto''), (''close_completed_issue'', ''auto''),
         (''advance_milestone'', ''auto''), (''retry_idempotent_failure'', ''auto''),
         (''merge_pull_request'', ''approval''), (''destructive_operations'', ''approval''),
         (''secret_operations'', ''approval''), (''scope_changes'', ''approval'')]),
      (''autonomous'',
        [(''start_next_issue'', ''auto''), (''close_completed_issue'', ''auto''),
         (''advance_milestone'', ''auto''), (''retry_idempotent_failure'', ''auto''),
         (''merge_pull_request'', ''auto''), (''destructive_operations'', ''approval''),
         (''secret_operations'', ''approval''), (''scope_changes'', ''approval'')])]"

record policy =
  ep_profile :: string
  ep_generation :: int
  ep_decisions :: "(string \<times> string) list"
  ep_digest :: string
  ep_expires :: "string option"
  ep_configured :: bool

definition policy_decision :: "policy \<Rightarrow> string \<Rightarrow> string result" where
  "policy_decision p action =
     (if action \<notin> set ACTIONS then raise AutonomyPolicyError (''Unknown autonomy action: '' @ action)
      else case map_of (ep_decisions p) action of
        None \<Rightarrow> raise PyKeyError action | Some d \<Rightarrow> Inr d)"

definition policy_status :: "policy \<Rightarrow> json" where
  "policy_status p = JObj
     ([(''schema_version'', JStr AUTONOMY_SCHEMA), (''profile'', JStr (ep_profile p)),
       (''generation'', JInt (ep_generation p)), (''digest'', JStr (ep_digest p)),
       (''decisions'', JObj (map (\<lambda>(a, d). (a, JStr d)) (ep_decisions p)))]
      @ (case ep_expires p of None \<Rightarrow> [] | Some t \<Rightarrow> [(''expires_at'', JStr t)]))"

section \<open>The effective policy\<close>

record policy_env =
  pe_texts :: iso_texts
  pe_sha256 :: "string \<Rightarrow> string"
  pe_uid :: int

definition policy_digest :: "policy_env \<Rightarrow> json \<Rightarrow> string" where
  "policy_digest env payload = pe_sha256 env (dumps payload)"

text \<open>\<^verbatim>\<open>profile not in PROFILE_DEFAULTS\<close> hashes the value, which a list or an object does not allow.\<close>

definition profile_defaults :: "json \<Rightarrow> (string \<times> (string \<times> string) list) result" where
  "profile_defaults v =
     (case v of
        JList _ \<Rightarrow> raise PyTypeError ''unhashable type: list''
      | JObj _ \<Rightarrow> raise PyTypeError ''unhashable type: dict''
      | _ \<Rightarrow>
        (case (case v of JStr s \<Rightarrow> map_of PROFILE_DEFAULTS s | _ \<Rightarrow> None) of
           None \<Rightarrow> raise AutonomyPolicyError (''Unknown autonomy profile: '' @ py_str v)
         | Some d \<Rightarrow> Inr (py_str v, d)))"

fun override :: "(string \<times> json) list \<Rightarrow> (string \<times> string) list \<Rightarrow> (string \<times> string) list result" where
  "override [] decisions = Inr decisions"
| "override ((action, v) # rest) decisions =
     (case v of
        JStr d \<Rightarrow>
          if d \<in> set DECISIONS then override rest (AList.update action d decisions)
          else raise AutonomyPolicyError (''Unknown autonomy policy for '' @ action
                 @ ''; expected auto, approval, or disabled'')
      | _ \<Rightarrow> raise AutonomyPolicyError (''Unknown autonomy policy for '' @ action
                 @ ''; expected auto, approval, or disabled''))"

definition unsafe_actions :: "(string \<times> string) list \<Rightarrow> string list" where
  "unsafe_actions decisions =
     filter (\<lambda>a. map_of decisions a \<noteq> Some ''approval'') PROTECTED_ACTIONS"

definition expiry_of ::
    "policy_env \<Rightarrow> string \<Rightarrow> json \<Rightarrow> instant \<Rightarrow> bool \<Rightarrow> string option result" where
  "expiry_of env profile expires now allow_expired =
     (if profile = ''autonomous'' then
        (case expires of
           JStr t \<Rightarrow>
             if t = [] then raise AutonomyPolicyError
               ''Autonomous profile requires a future expires_at timestamp''
             else (case parse_z (pe_texts env) t of
                None \<Rightarrow> raise AutonomyPolicyError
                  ''Autonomous expires_at must be an RFC 3339 timestamp''
              | Some (Naive _) \<Rightarrow> raise AutonomyPolicyError
                  ''Autonomous expires_at must include a timezone''
              | Some (Aware expiry) \<Rightarrow>
                  if expiry \<le> now \<and> \<not> allow_expired
                  then raise AutonomyPolicyError ''Autonomous policy has expired''
                  else Inr (Some (format_z (pe_texts env) expiry)))
         | _ \<Rightarrow> raise AutonomyPolicyError
             ''Autonomous profile requires a future expires_at timestamp'')
      else if expires \<noteq> JNull
      then raise AutonomyPolicyError ''expires_at is only valid for the autonomous profile''
      else Inr None)"

definition canonical_policy ::
    "string \<Rightarrow> int \<Rightarrow> string option \<Rightarrow> (string \<times> string) list \<Rightarrow> json" where
  "canonical_policy profile generation expiry decisions = JObj
     [(''schema_version'', JStr AUTONOMY_SCHEMA), (''profile'', JStr profile),
      (''generation'', JInt generation),
      (''expires_at'', (case expiry of None \<Rightarrow> JNull | Some t \<Rightarrow> JStr t)),
      (''decisions'', JObj (map (\<lambda>(a, d). (a, JStr d)) decisions))]"

definition effective ::
    "policy_env \<Rightarrow> json \<Rightarrow> json \<Rightarrow> json \<Rightarrow> json \<Rightarrow> bool \<Rightarrow> instant \<Rightarrow> bool \<Rightarrow> policy result" where
  "effective env profile generation overrides expires configured now allow_expired =
     (case profile_defaults profile of
        Inl e \<Rightarrow> Inl e
      | Inr (name, defaults) \<Rightarrow>
     (case generation of
        JInt g \<Rightarrow>
     if g < 0 then raise AutonomyPolicyError ''Autonomy generation must be a non-negative integer''
     else (case overrides of
        JObj os \<Rightarrow>
          (let unknown = sort (filter (\<lambda>a. a \<notin> set ACTIONS) (map fst os))
           in if unknown \<noteq> []
              then raise AutonomyPolicyError (''Unknown autonomy action: '' @ hd unknown)
              else (case override os defaults of
                 Inl e \<Rightarrow> Inl e
               | Inr decisions \<Rightarrow>
                   if unsafe_actions decisions \<noteq> []
                   then raise AutonomyPolicyError (''Unsafe autonomy combination: ''
                          @ hd (unsafe_actions decisions) @ '' must require approval'')
                   else (case expiry_of env name expires now allow_expired of
                      Inl e \<Rightarrow> Inl e
                    | Inr expiry \<Rightarrow> Inr
                        \<lparr>ep_profile = name, ep_generation = g, ep_decisions = decisions,
                         ep_digest = policy_digest env (canonical_policy name g expiry decisions),
                         ep_expires = expiry, ep_configured = configured\<rparr>)))
      | _ \<Rightarrow> raise AutonomyPolicyError ''Autonomy actions must be an object'')
      | _ \<Rightarrow> raise AutonomyPolicyError ''Autonomy generation must be a non-negative integer''))"

definition migration_policy :: "policy_env \<Rightarrow> instant \<Rightarrow> policy result" where
  "migration_policy env now =
     effective env (JStr ''assisted'') (JInt 0) (JObj []) JNull False now False"

section \<open>The policy file\<close>

datatype file_content = Document json | NotJson | NotUtf8 | Unreadable

datatype policy_file =
    NoFile | Link | NotRegular | Inaccessible
  | RegularFile (rf_owner: int) (rf_mode: nat) (rf_content: file_content)

fun emit_octal :: "nat \<Rightarrow> string" where
  "emit_octal n = (if n < 8 then [dec_digit n] else emit_octal (n div 8) @ [dec_digit (n mod 8)])"

declare emit_octal.simps [simp del]

text \<open>\<^verbatim>\<open>mode & 0o077\<close> is the remainder by 64.\<close>

definition read_policy_file :: "policy_env \<Rightarrow> policy_file \<Rightarrow> json result" where
  "read_policy_file env file =
     (case file of
        Inaccessible \<Rightarrow> raise AutonomyPolicyError ''Autonomy policy could not be read''
      | RegularFile owner mode content \<Rightarrow>
          if owner \<noteq> pe_uid env
          then raise AutonomyPolicyError ''Autonomy policy must be owned by the service user''
          else if mode mod 64 \<noteq> 0
          then raise AutonomyPolicyError
            (''Autonomy policy must not be group/world accessible ('' @ emit_octal mode @ '')'')
          else (case content of
             Document d \<Rightarrow> Inr d
           | NotJson \<Rightarrow> raise AutonomyPolicyError ''Autonomy policy is not valid JSON''
           | NotUtf8 \<Rightarrow> raise PyValueError ''invalid start byte''
           | Unreadable \<Rightarrow> raise AutonomyPolicyError ''Autonomy policy could not be read'')
      | _ \<Rightarrow> raise AutonomyPolicyError ''Autonomy policy must be a regular non-symlink file'')"

definition doc_get :: "(string \<times> json) list \<Rightarrow> string \<Rightarrow> json \<Rightarrow> json" where
  "doc_get ms k fallback = (case map_of ms k of None \<Rightarrow> fallback | Some v \<Rightarrow> v)"

definition POLICY_FIELDS :: "string list" where
  "POLICY_FIELDS = [''schema_version'', ''profile'', ''generation'', ''expires_at'', ''actions'']"

definition load_policy ::
    "policy_env \<Rightarrow> policy_file option \<Rightarrow> instant \<Rightarrow> bool \<Rightarrow> policy result" where
  "load_policy env path now allow_expired =
     (case path of
        None \<Rightarrow> migration_policy env now
      | Some file \<Rightarrow>
          (case read_policy_file env file of
             Inl e \<Rightarrow> Inl e
           | Inr (JObj ms) \<Rightarrow>
               (let unknown = sort (filter (\<lambda>k. k \<notin> set POLICY_FIELDS) (map fst ms))
                in if unknown \<noteq> []
                   then raise AutonomyPolicyError (''Unknown autonomy field: '' @ hd unknown)
                   else if doc_get ms ''schema_version'' JNull \<noteq> JStr AUTONOMY_SCHEMA
                   then raise AutonomyPolicyError
                     (''Unsupported autonomy schema_version; expected '' @ AUTONOMY_SCHEMA)
                   else effective env (doc_get ms ''profile'' JNull) (doc_get ms ''generation'' JNull)
                          (doc_get ms ''actions'' (JObj [])) (doc_get ms ''expires_at'' JNull)
                          True now allow_expired)
           | Inr _ \<Rightarrow> raise AutonomyPolicyError ''Autonomy policy must be an object''))"

section \<open>Replacing the policy\<close>

datatype io_step =
  MakeParent | MakeTemp | WriteTemp | ChmodTemp | RenameTemp | OpenParent | SyncParent | UnlinkTemp

record policy_dir =
  pd_file :: policy_file
  pd_temp :: "policy_file option"

definition io :: "(io_step \<Rightarrow> bool) \<Rightarrow> io_step \<Rightarrow> (policy_dir, unit) proc" where
  "io fails st = (if fails st then fail PyOSError ''system call failed'' else ret ())"

text \<open>\<^verbatim>\<open>mkstemp\<close> creates an empty private file; a write that fails leaves an unfinished one.\<close>

definition write_temp :: "(io_step \<Rightarrow> bool) \<Rightarrow> int \<Rightarrow> json \<Rightarrow> (policy_dir, unit) proc" where
  "write_temp fails uid document =
     thenS (io fails WriteTemp)
       (modify (\<lambda>d. d\<lparr>pd_temp := Some (RegularFile uid 384 (Document document))\<rparr>))"

definition rename_temp :: "policy_dir \<Rightarrow> policy_dir" where
  "rename_temp d = (case pd_temp d of None \<Rightarrow> d | Some f \<Rightarrow> d\<lparr>pd_file := f, pd_temp := None\<rparr>)"

definition install_temp :: "(io_step \<Rightarrow> bool) \<Rightarrow> int \<Rightarrow> json \<Rightarrow> (policy_dir, unit) proc" where
  "install_temp fails uid document =
     thenS (write_temp fails uid document)
    (thenS (io fails ChmodTemp)
    (thenS (io fails RenameTemp)
    (thenS (modify rename_temp)
    (thenS (io fails OpenParent)
           (io fails SyncParent)))))"

definition unlink_temp :: "(io_step \<Rightarrow> bool) \<Rightarrow> (policy_dir, 'a) proc \<Rightarrow> (policy_dir, 'a) proc" where
  "unlink_temp fails m =
     (\<lambda>d. case m d of (r, d') \<Rightarrow>
        if pd_temp d' = None then (r, d')
        else if fails UnlinkTemp then (raise PyOSError ''system call failed'', d')
        else (r, d'\<lparr>pd_temp := None\<rparr>))"

definition policy_file_document :: "policy \<Rightarrow> json" where
  "policy_file_document p = JObj
     ([(''schema_version'', JStr AUTONOMY_SCHEMA), (''profile'', JStr (ep_profile p)),
       (''generation'', JInt (ep_generation p))]
      @ (case ep_expires p of None \<Rightarrow> [] | Some t \<Rightarrow> [(''expires_at'', JStr t)]))"

definition replace_policy ::
    "policy_env \<Rightarrow> (io_step \<Rightarrow> bool) \<Rightarrow> string \<Rightarrow> int \<Rightarrow> string option \<Rightarrow> instant
       \<Rightarrow> (policy_dir, policy) proc" where
  "replace_policy env fails profile generation expires now =
     bindS (lift (effective env (JStr profile) (JInt generation) (JObj [])
              (case expires of None \<Rightarrow> JNull | Some t \<Rightarrow> JStr t) True now False))
       (\<lambda>p. thenS (io fails MakeParent)
         (thenS (io fails MakeTemp)
         (thenS (modify (\<lambda>d. d\<lparr>pd_temp := Some (RegularFile (pe_uid env) 384 NotJson)\<rparr>))
         (thenS (unlink_temp fails
                  (handle (install_temp fails (pe_uid env) (policy_file_document p))
                    (\<lambda>e. if catches [PyOSError] e
                         then fail AutonomyPolicyError ''Autonomy policy could not be replaced''
                         else throw e)))
           (ret p)))))"

section \<open>What every policy satisfies\<close>

definition policy_wf :: "policy_env \<Rightarrow> policy \<Rightarrow> bool" where
  "policy_wf env p \<longleftrightarrow>
     ep_profile p \<in> fst ` set PROFILE_DEFAULTS \<and> 0 \<le> ep_generation p
     \<and> map fst (ep_decisions p) = ACTIONS \<and> snd ` set (ep_decisions p) \<subseteq> set DECISIONS
     \<and> (\<forall>a\<in>set PROTECTED_ACTIONS. policy_decision p a = Inr ''approval'')
     \<and> (ep_expires p \<noteq> None \<longleftrightarrow> ep_profile p = ''autonomous'')
     \<and> ep_digest p = policy_digest env
          (canonical_policy (ep_profile p) (ep_generation p) (ep_expires p) (ep_decisions p))"

lemma snd_update: "snd ` set (AList.update k v al) \<subseteq> insert v (snd ` set al)"
  by (induction al) auto

lemma override_Inr:
  "override os ds = Inr ds' \<Longrightarrow> map fst ds = ACTIONS \<Longrightarrow> snd ` set ds \<subseteq> set DECISIONS \<Longrightarrow>
   fst ` set os \<subseteq> set ACTIONS \<Longrightarrow> map fst ds' = ACTIONS \<and> snd ` set ds' \<subseteq> set DECISIONS"
proof (induction os ds rule: override.induct)
  case (2 action v rest decisions)
  then obtain d where v: "v = JStr d" "d \<in> set DECISIONS"
    and run: "override rest (AList.update action d decisions) = Inr ds'"
    by (auto split: json.splits if_splits)
  have "map fst (AList.update action d decisions) = ACTIONS"
    using 2(3,5) by (simp add: update_keys)
  moreover have "snd ` set (AList.update action d decisions) \<subseteq> set DECISIONS"
    using 2(4) v(2) snd_update[of action d decisions] by (meson insert_subset subset_trans)
  ultimately show ?case using 2(1)[OF v run] 2(5) by simp
qed simp

lemma PROFILE_DEFAULTS_wf:
  "map_of PROFILE_DEFAULTS name = Some ds \<Longrightarrow>
     map fst ds = ACTIONS \<and> snd ` set ds \<subseteq> set DECISIONS \<and> name \<in> fst ` set PROFILE_DEFAULTS"
  by (auto simp: PROFILE_DEFAULTS_def ACTIONS_def DECISIONS_def split: if_splits)

lemma profile_defaults_Inr:
  "profile_defaults v = Inr (name, ds) \<longleftrightarrow> v = JStr name \<and> map_of PROFILE_DEFAULTS name = Some ds"
  by (auto simp: profile_defaults_def split: json.splits option.splits)

lemma expiry_of_Inr:
  assumes "expiry_of env name expires now al = Inr x"
  shows "x \<noteq> None \<longleftrightarrow> name = ''autonomous''"
    and "x = Some t \<Longrightarrow> \<exists>u e. expires = JStr u \<and> parse_z (pe_texts env) u = Some (Aware e)
           \<and> t = format_z (pe_texts env) e \<and> (now < e \<or> al)"
    and "x = None \<Longrightarrow> expires = JNull"
  using assms
  by (auto simp: expiry_of_def split: if_splits json.splits option.splits py_datetime.splits)

lemma effective_Inr:
  assumes "effective env profile generation overrides expires configured now al = Inr p"
  obtains name g os ds where "profile = JStr name" and "generation = JInt g" and "overrides = JObj os"
    and "map_of PROFILE_DEFAULTS name = Some ds" and "0 \<le> g" and "fst ` set os \<subseteq> set ACTIONS"
    and "override os ds = Inr (ep_decisions p)" and "unsafe_actions (ep_decisions p) = []"
    and "expiry_of env name expires now al = Inr (ep_expires p)"
    and "ep_profile p = name" and "ep_generation p = g" and "ep_configured p = configured"
    and "ep_digest p = policy_digest env (canonical_policy name g (ep_expires p) (ep_decisions p))"
proof -
  obtain name ds where pd: "profile_defaults profile = Inr (name, ds)"
    using assms by (auto simp: effective_def split: sum.splits)
  obtain g where g: "generation = JInt g" "0 \<le> g"
    using assms pd by (auto simp: effective_def split: json.splits if_splits)
  obtain os where os: "overrides = JObj os"
    using assms pd g by (auto simp: effective_def split: json.splits)
  have "sort (filter (\<lambda>a. a \<notin> set ACTIONS) (map fst os)) = []"
    using assms pd g os by (auto simp: effective_def Let_def split: if_splits)
  then have "set (filter (\<lambda>a. a \<notin> set ACTIONS) (map fst os)) = {}" by (metis set_empty set_sort)
  then have known: "fst ` set os \<subseteq> set ACTIONS" by auto
  obtain decisions where dec: "override os ds = Inr decisions" and safe: "unsafe_actions decisions = []"
    using assms pd g os by (auto simp: effective_def Let_def split: if_splits sum.splits)
  obtain expiry where ex: "expiry_of env name expires now al = Inr expiry"
    using assms pd g os dec safe
    by (auto simp: effective_def Let_def split: if_splits sum.splits)
  have p: "p = \<lparr>ep_profile = name, ep_generation = g, ep_decisions = decisions,
      ep_digest = policy_digest env (canonical_policy name g expiry decisions),
      ep_expires = expiry, ep_configured = configured\<rparr>"
    using assms pd g os dec safe ex by (auto simp: effective_def Let_def split: if_splits)
  show thesis
    by (rule that[of name g os ds]) (use pd g os known dec safe ex p in \<open>simp_all add: profile_defaults_Inr\<close>)
qed

lemma effective_wf:
  assumes "effective env profile generation overrides expires configured now al = Inr p"
  shows "policy_wf env p"
proof (rule effective_Inr[OF assms])
  fix name g os ds
  assume name: "map_of PROFILE_DEFAULTS name = Some ds" and g: "0 \<le> g"
    and known: "fst ` set os \<subseteq> set ACTIONS" and dec: "override os ds = Inr (ep_decisions p)"
    and safe: "unsafe_actions (ep_decisions p) = []"
    and ex: "expiry_of env name expires now al = Inr (ep_expires p)"
    and p: "ep_profile p = name" "ep_generation p = g"
      "ep_digest p = policy_digest env (canonical_policy name g (ep_expires p) (ep_decisions p))"
  have d: "map fst (ep_decisions p) = ACTIONS" "snd ` set (ep_decisions p) \<subseteq> set DECISIONS"
    using override_Inr[OF dec] PROFILE_DEFAULTS_wf[OF name] known by auto
  have "policy_decision p a = Inr ''approval''" if "a \<in> set PROTECTED_ACTIONS" for a
  proof -
    have "map_of (ep_decisions p) a = Some ''approval''"
      using safe that by (auto simp: unsafe_actions_def filter_empty_conv)
    moreover have "a \<in> set ACTIONS" using that by (auto simp: PROTECTED_ACTIONS_def ACTIONS_def)
    ultimately show ?thesis by (simp add: policy_decision_def)
  qed
  with d PROFILE_DEFAULTS_wf[OF name] g p expiry_of_Inr(1)[OF ex] show "policy_wf env p"
    by (simp add: policy_wf_def)
qed

lemma read_policy_file_Inr:
  "read_policy_file env file = Inr doc \<longleftrightarrow>
     (\<exists>mode. file = RegularFile (pe_uid env) mode (Document doc) \<and> mode mod 64 = 0)"
  by (auto simp: read_policy_file_def split: policy_file.splits file_content.splits if_splits)

lemma load_policy_Inr:
  assumes "load_policy env path now al = Inr p"
  obtains profile generation overrides expires configured al'
  where "effective env profile generation overrides expires configured now al' = Inr p"
    and "path \<noteq> None \<longleftrightarrow> configured" and "al' \<longrightarrow> al"
    and "path = None \<Longrightarrow> profile = JStr ''assisted'' \<and> generation = JInt 0"
    and "\<And>file. path = Some file \<Longrightarrow> \<exists>doc. read_policy_file env file = Inr doc"
proof (cases path)
  case None
  with assms have "effective env (JStr ''assisted'') (JInt 0) (JObj []) JNull False now False = Inr p"
    by (simp add: load_policy_def migration_policy_def)
  then show thesis by (rule that) (use None in simp_all)
next
  case (Some f)
  with assms obtain ms where ms: "read_policy_file env f = Inr (JObj ms)"
    by (auto simp: load_policy_def split: sum.splits json.splits)
  with assms Some have "effective env (doc_get ms ''profile'' JNull) (doc_get ms ''generation'' JNull)
      (doc_get ms ''actions'' (JObj [])) (doc_get ms ''expires_at'' JNull) True now al = Inr p"
    by (auto simp: load_policy_def Let_def split: if_splits)
  with Some ms show thesis by (intro that) auto
qed

section \<open>Installing\<close>

lemma io_run [simp]: "io fails st d = (if fails st then (raise PyOSError ''system call failed'', d) else (Inr (), d))"
  by (simp add: io_def)

lemma install_temp_run:
  "install_temp fails uid doc (d\<lparr>pd_temp := Some t\<rparr>) = (r, d') \<Longrightarrow>
     (\<exists>u. d' = d\<lparr>pd_temp := Some u\<rparr> \<and> r = raise PyOSError ''system call failed'')
     \<or> d' = d\<lparr>pd_file := RegularFile uid 384 (Document doc), pd_temp := None\<rparr>
       \<and> r \<in> {Inr (), raise PyOSError ''system call failed''}"
  by (auto simp: install_temp_def write_temp_def bindS_def rename_temp_def split: if_splits)

definition installed :: "policy_env \<Rightarrow> policy \<Rightarrow> policy_file" where
  "installed env p = RegularFile (pe_uid env) 384 (Document (policy_file_document p))"

lemma replace_policy_run:
  assumes run: "replace_policy env fails profile generation expires now d = (r, d')"
    and d: "pd_temp d = None"
  obtains (invalid) e where "r = Inl e" and "d' = d"
    and "effective env (JStr profile) (JInt generation) (JObj [])
           (case expires of None \<Rightarrow> JNull | Some t \<Rightarrow> JStr t) True now False = Inl e"
  | (failed) p e where "r = Inl e" and "pd_file d' \<in> {pd_file d, installed env p}"
    and "effective env (JStr profile) (JInt generation) (JObj [])
           (case expires of None \<Rightarrow> JNull | Some t \<Rightarrow> JStr t) True now False = Inr p"
    and "pd_temp d' \<noteq> None \<longrightarrow> fails UnlinkTemp"
  | (replaced) p where "r = Inr p" and "d' = d\<lparr>pd_file := installed env p\<rparr>"
    and "effective env (JStr profile) (JInt generation) (JObj [])
           (case expires of None \<Rightarrow> JNull | Some t \<Rightarrow> JStr t) True now False = Inr p"
proof (cases "effective env (JStr profile) (JInt generation) (JObj [])
           (case expires of None \<Rightarrow> JNull | Some t \<Rightarrow> JStr t) True now False")
  case (Inl e)
  with run show thesis by (intro invalid[of e]) (simp_all add: replace_policy_def bindS_def)
next
  case (Inr p)
  show thesis
  proof (cases "fails MakeParent \<or> fails MakeTemp")
    case True
    with Inr run d show thesis
      by (intro failed[of "Exn PyOSError ''system call failed''" p])
        (auto simp: replace_policy_def bindS_def split: if_splits)
  next
    case False
    let ?d = "d\<lparr>pd_temp := Some (RegularFile (pe_uid env) 384 NotJson)\<rparr>"
    obtain q d1 where q: "install_temp fails (pe_uid env) (policy_file_document p) ?d = (q, d1)"
      by (meson surj_pair)
    have run': "r = (case q of
          Inl e \<Rightarrow> if pd_temp d1 \<noteq> None \<and> fails UnlinkTemp then raise PyOSError ''system call failed''
                 else raise AutonomyPolicyError ''Autonomy policy could not be replaced''
        | Inr u \<Rightarrow> if pd_temp d1 \<noteq> None \<and> fails UnlinkTemp then raise PyOSError ''system call failed''
                 else Inr p)
      \<and> d' = (if pd_temp d1 \<noteq> None \<and> \<not> fails UnlinkTemp then d1\<lparr>pd_temp := None\<rparr> else d1)"
      using run Inr False q install_temp_run[OF q]
      by (auto simp: replace_policy_def bindS_def unlink_temp_def handle_def catches_def is_subclass_def
          split: if_splits)
    from install_temp_run[OF q] consider u where "d1 = d\<lparr>pd_temp := Some u\<rparr>"
        "q = raise PyOSError ''system call failed''"
      | "d1 = d\<lparr>pd_file := installed env p, pd_temp := None\<rparr>" "q = raise PyOSError ''system call failed''"
      | "d1 = d\<lparr>pd_file := installed env p, pd_temp := None\<rparr>" "q = Inr ()"
      by (auto simp: installed_def)
    then show thesis
    proof cases
      case 1
      then show thesis using run' Inr
        by (cases "fails UnlinkTemp") (auto intro: failed)
    next
      case 2
      then show thesis using run' Inr by (auto intro: failed)
    next
      case 3
      then show thesis using run' Inr d by (intro replaced[of p]) auto
    qed
  qed
qed

text \<open>Reading an installed policy gives the policy.\<close>

lemma load_installed:
  assumes laws: "iso_laws (pe_texts env)"
    and eff: "effective env (JStr profile) (JInt generation) (JObj [])
      (case expires of None \<Rightarrow> JNull | Some t \<Rightarrow> JStr t) True now False = Inr p"
  shows "load_policy env (Some (installed env p)) now al = Inr p"
proof (rule effective_Inr[OF eff])
  fix name g os ds
  assume "JStr profile = JStr name" "JInt generation = JInt g" "JObj [] = JObj os"
    and name: "map_of PROFILE_DEFAULTS name = Some ds" and g: "0 \<le> g"
    and dec: "override os ds = Inr (ep_decisions p)"
    and safe: "unsafe_actions (ep_decisions p) = []"
    and ex: "expiry_of env name (case expires of None \<Rightarrow> JNull | Some t \<Rightarrow> JStr t) now False
       = Inr (ep_expires p)"
    and p: "ep_profile p = name" "ep_generation p = g" "ep_configured p = True"
      "ep_digest p = policy_digest env (canonical_policy name g (ep_expires p) (ep_decisions p))"
  then have ds: "ep_decisions p = ds" by simp
  have ex': "expiry_of env name (case ep_expires p of None \<Rightarrow> JNull | Some t \<Rightarrow> JStr t) now al
      = Inr (ep_expires p)"
  proof (cases "ep_expires p")
    case None
    then show ?thesis using expiry_of_Inr(1)[OF ex] by (simp add: expiry_of_def)
  next
    case (Some t)
    obtain e where "t = format_z (pe_texts env) e" and "now < e"
      using expiry_of_Inr(2)[OF ex Some] by auto
    then show ?thesis
      using Some expiry_of_Inr(1)[OF ex] parse_format_z[OF laws] format_z_nonempty[OF laws]
      by (simp add: expiry_of_def)
  qed
  have "effective env (JStr name) (JInt g) (JObj [])
      (case ep_expires p of None \<Rightarrow> JNull | Some t \<Rightarrow> JStr t) True now al = Inr p"
    using name g safe ex' p ds by (simp add: effective_def profile_defaults_def)
  then show ?thesis
    using p by (cases "ep_expires p")
      (simp_all add: load_policy_def read_policy_file_def installed_def policy_file_document_def
        POLICY_FIELDS_def doc_get_def)
qed

lemma effective_names:
  "effective env (JStr profile) (JInt generation) overrides expires configured now al = Inr p \<Longrightarrow>
     ep_profile p = profile \<and> ep_generation p = generation"
  by (erule effective_Inr) simp

definition demo_policy_env :: policy_env where
  "demo_policy_env = \<lparr>pe_texts = unary_iso, pe_sha256 = (\<lambda>t. t), pe_uid = 1000\<rparr>"

definition demo_policy_file :: policy_file where
  "demo_policy_file = RegularFile 1000 384 (Document (JObj
     [(''schema_version'', JStr AUTONOMY_SCHEMA), (''profile'', JStr ''autonomous''),
      (''generation'', JInt 3), (''expires_at'', JStr ''11111Z''),
      (''actions'', JObj [(''merge_pull_request'', JStr ''approval'')])]))"

lemma demo_policy_loads: "\<not> isl (load_policy demo_policy_env (Some demo_policy_file) 2 False)"
  by code_simp

section \<open>Properties\<close>

text \<open>
  C13. Every policy the supervisor accepts is safe. It has one of the three profiles, a non-negative
  generation, exactly one decision for every action, \<^verbatim>\<open>approval\<close> for each protected action, an expiry
  exactly when it is autonomous, which is still in the future unless an expired one is allowed, and the
  digest of all of this; and it was read from a private regular file of the service user, or is the
  assisted profile when no path is configured.
\<close>

theorem loaded_policy_safe:
  assumes "load_policy env path now allow_expired = Inr p"
  shows "policy_wf env p
    \<and> (case ep_expires p of None \<Rightarrow> True
       | Some t \<Rightarrow> \<exists>e. t = format_z (pe_texts env) e \<and> (now < e \<or> allow_expired))
    \<and> (case path of None \<Rightarrow> ep_profile p = ''assisted'' \<and> \<not> ep_configured p
       | Some f \<Rightarrow> \<exists>mode doc. f = RegularFile (pe_uid env) mode (Document doc) \<and> mode mod 64 = 0)"
proof (rule load_policy_Inr[OF assms])
  fix profile generation overrides expires configured al'
  assume eff: "effective env profile generation overrides expires configured now al' = Inr p"
    and conf: "path \<noteq> None \<longleftrightarrow> configured" and al: "al' \<longrightarrow> allow_expired"
    and none: "path = None \<Longrightarrow> profile = JStr ''assisted'' \<and> generation = JInt 0"
    and some: "\<And>f. path = Some f \<Longrightarrow> \<exists>doc. read_policy_file env f = Inr doc"
  obtain name where "profile = JStr name" "ep_profile p = name" "ep_configured p = configured"
    and ex: "expiry_of env name expires now al' = Inr (ep_expires p)"
    by (rule effective_Inr[OF eff])
  with effective_wf[OF eff] conf none some al expiry_of_Inr(2)[OF ex] show ?thesis
    by (auto simp: read_policy_file_Inr split: option.splits)
qed

theorem loaded_policy_safe_witness:
  "\<exists>p. load_policy demo_policy_env (Some demo_policy_file) 2 False = Inr p
    \<and> policy_wf demo_policy_env p
    \<and> (case ep_expires p of None \<Rightarrow> True
       | Some t \<Rightarrow> \<exists>e. t = format_z (pe_texts demo_policy_env) e \<and> (2 < e \<or> False))
    \<and> (case Some demo_policy_file of None \<Rightarrow> ep_profile p = ''assisted'' \<and> \<not> ep_configured p
       | Some f \<Rightarrow> \<exists>mode doc. f = RegularFile (pe_uid demo_policy_env) mode (Document doc)
           \<and> mode mod 64 = 0)"
proof -
  obtain p where run: "load_policy demo_policy_env (Some demo_policy_file) 2 False = Inr p"
    using demo_policy_loads by (auto simp: isl_def) (metis sum.exhaust)
  show ?thesis by (rule exI[of _ p], rule conjI[OF run loaded_policy_safe[OF run]])
qed

text \<open>
  C14. Installing a policy is atomic and reads back. Whatever system calls fail, the file is afterwards
  either the one before or the complete new policy, and it is the new one when the call returns; loading
  the new file gives exactly the policy that was validated, digest and expiry included; and a temporary
  file is left only if removing it failed.
\<close>

theorem replace_policy_roundtrip:
  assumes "iso_laws (pe_texts env)" and "pd_temp d = None"
    and "replace_policy env fails profile generation expires now d = (r, d')"
  shows "(case r of
       Inr p \<Rightarrow> load_policy env (Some (pd_file d')) now allow_expired = Inr p
         \<and> ep_profile p = profile \<and> ep_generation p = generation
     | Inl e \<Rightarrow> pd_file d' = pd_file d
         \<or> (\<exists>p. load_policy env (Some (pd_file d')) now allow_expired = Inr p
              \<and> ep_profile p = profile \<and> ep_generation p = generation))
    \<and> (pd_temp d' = None \<or> fails UnlinkTemp)"
  using assms(3,2)
proof (cases rule: replace_policy_run)
  case (invalid e)
  with assms(2) show ?thesis by simp
next
  case (failed p e)
  with effective_names[OF failed(3)] load_installed[OF assms(1) failed(3)] show ?thesis by auto
next
  case (replaced p)
  with effective_names[OF replaced(3)] load_installed[OF assms(1) replaced(3)] assms(2)
  show ?thesis by simp
qed

theorem replace_policy_roundtrip_witness:
  "\<exists>r d'. replace_policy demo_policy_env (\<lambda>st. st = SyncParent) ''autonomous'' 3 (Some ''11111Z'') 2
        \<lparr>pd_file = NoFile, pd_temp = None\<rparr> = (r, d')
    \<and> (case r of
       Inr p \<Rightarrow> load_policy demo_policy_env (Some (pd_file d')) 2 False = Inr p
         \<and> ep_profile p = ''autonomous'' \<and> ep_generation p = 3
     | Inl e \<Rightarrow> pd_file d' = NoFile
         \<or> (\<exists>p. load_policy demo_policy_env (Some (pd_file d')) 2 False = Inr p
              \<and> ep_profile p = ''autonomous'' \<and> ep_generation p = 3))
    \<and> (pd_temp d' = None \<or> UnlinkTemp = SyncParent)"
proof -
  let ?d = "\<lparr>pd_file = NoFile, pd_temp = None\<rparr>"
  obtain r d' where run: "replace_policy demo_policy_env (\<lambda>st. st = SyncParent) ''autonomous'' 3
      (Some ''11111Z'') 2 ?d = (r, d')"
    by (meson surj_pair)
  have "iso_laws (pe_texts demo_policy_env)" by (simp add: demo_policy_env_def unary_iso_laws)
  from replace_policy_roundtrip[OF this _ run, where allow_expired = False] run show ?thesis
    by (intro exI[of _ r] exI[of _ d']) (simp split: sum.splits)
qed

end
