(* ===== verification/Heartbeat.thy ===== *)
theory Heartbeat
  imports Sanitize Effects Ledger "HOL-Library.Product_Lexorder" "HOL-Library.Multiset"
begin

text \<open>
  \<^verbatim>\<open>manager/runner_heartbeat.py\<close>: the heartbeat documents of the issue runner. A directory holds one
  file per issue; \<open>start\<close> takes the writer lease of an issue, \<open>update\<close> checks it and moves the document
  forward, \<open>read\<close> adds what depends on the time, and both writers trim the directory. Every call holds
  the file lock from its first read to its last write, so calls are atomic. Times are instants in
  microseconds and time stamps the instants they denote, in whole seconds; files that do not hold a
  heartbeat are \<open>Garbled\<close>. A write may fail before or after the rename.
\<close>

section \<open>Phases\<close>

definition PHASES :: "string list" where
  "PHASES =
     [''preparing'', ''inspecting'', ''planning'', ''implementing'', ''testing'', ''validating'',
      ''scanning'', ''committing'', ''pushing'', ''creating-pr'', ''waiting-for-ci'',
      ''waiting-for-approval'']"

definition TERMINAL_PHASES :: "string list" where
  "TERMINAL_PHASES = [''completed'', ''failed'']"

definition VALIDATION_STATES :: "string list" where
  "VALIDATION_STATES = [''not-started'', ''running'', ''passed'', ''failed'']"

fun phase_index :: "string list \<Rightarrow> string \<Rightarrow> nat result" where
  "phase_index [] p = raise PyValueError ''tuple.index(x): x not in tuple''"
| "phase_index (q # qs) p =
     (if q = p then Inr 0 else case phase_index qs p of Inl e \<Rightarrow> Inl e | Inr n \<Rightarrow> Inr (Suc n))"

fun following :: "string list \<Rightarrow> (string \<times> string option) list" where
  "following [] = []"
| "following [p] = [(p, Some ''completed'')]"
| "following (p # q # ps) = (p, Some q) # following (q # ps)"

definition NEXT_TRANSITIONS :: "(string \<times> string option) list" where
  "NEXT_TRANSITIONS = following PHASES @ [(''completed'', None), (''failed'', None)]"

definition next_transition :: "string \<Rightarrow> string option result" where
  "next_transition p =
     (case map_of NEXT_TRANSITIONS p of None \<Rightarrow> raise PyKeyError p | Some t \<Rightarrow> Inr t)"

record thresholds =
  th_quiet :: int
  th_possibly :: int
  th_stalled :: int

definition default_thresholds :: thresholds where
  "default_thresholds = \<lparr>th_quiet = 120, th_possibly = 600, th_stalled = 1800\<rparr>"

text \<open>The age is a float of seconds; here it is the microseconds, compared with whole seconds.\<close>

definition classify_age :: "thresholds \<Rightarrow> int \<Rightarrow> string" where
  "classify_age th age =
     (if age \<ge> seconds (th_stalled th) then ''stalled''
      else if age \<ge> seconds (th_possibly th) then ''possibly-stalled''
      else if age \<ge> seconds (th_quiet th) then ''quiet''
      else ''active'')"

section \<open>Documents and files\<close>

record heartbeat =
  hb_issue :: int
  hb_milestone :: string
  hb_writer :: string
  hb_generation :: int
  hb_policy_generation :: int
  hb_policy_digest :: string
  hb_revision :: int
  hb_phase :: string
  hb_phase_started :: instant
  hb_started :: instant
  hb_elapsed :: int
  hb_last :: instant
  hb_health :: string
  hb_changed :: int
  hb_validation :: string
  hb_pr :: "string option"
  hb_safe_step :: string
  hb_next :: "string option"

datatype hb_file = Garbled | Beat heartbeat

type_synonym hb_dir = "(int \<times> hb_file) list"

datatype write_outcome = Written | NotWritten | NotSynced

record hb_config =
  hc_thresholds :: thresholds
  hc_max_terminal :: nat
  hc_max_records :: nat
  hc_max_age_days :: int

definition stamp :: "instant \<Rightarrow> instant" where
  "stamp t = seconds (t div 1000000)"

definition whole_seconds :: "int \<Rightarrow> int" where
  "whole_seconds d = max 0 (d div 1000000)"

definition read_unlocked :: "int \<Rightarrow> (hb_dir, heartbeat option) proc" where
  "read_unlocked issue = bindS (gets (\<lambda>d. map_of d issue))
     (\<lambda>f. case f of
        None \<Rightarrow> ret None
      | Some Garbled \<Rightarrow> fail HeartbeatError ''heartbeat is unreadable''
      | Some (Beat h) \<Rightarrow> ret (Some h))"

definition write_unlocked :: "write_outcome \<Rightarrow> int \<Rightarrow> heartbeat \<Rightarrow> (hb_dir, unit) proc" where
  "write_unlocked w issue h =
     (case w of
        NotWritten \<Rightarrow> fail PyOSError ''write failed''
      | Written \<Rightarrow> modify (AList.update issue (Beat h))
      | NotSynced \<Rightarrow> thenS (modify (AList.update issue (Beat h))) (fail PyOSError ''sync failed''))"

section \<open>Trimming the directory\<close>

definition file_name :: "int \<Rightarrow> string" where
  "file_name issue = ''issue-'' @ emit_int issue @ ''.json''"

fun readable :: "hb_dir \<Rightarrow> (int \<times> heartbeat) list" where
  "readable [] = []"
| "readable ((i, Garbled) # d) = readable d"
| "readable ((i, Beat h) # d) = (i, h) # readable d"

definition newest_first :: "(int \<times> heartbeat) list \<Rightarrow> (int \<times> heartbeat) list" where
  "newest_first xs = rev (sort_key (\<lambda>(i, h). (hb_last h, file_name i)) xs)"

definition terminal_phase :: "heartbeat \<Rightarrow> bool" where
  "terminal_phase h \<longleftrightarrow> hb_phase h \<in> set TERMINAL_PHASES"

definition expired_terminal :: "hb_config \<Rightarrow> instant \<Rightarrow> (int \<times> heartbeat) list \<Rightarrow> int list" where
  "expired_terminal cfg now xs =
     map (fst \<circ> snd) (filter (\<lambda>(index, i, h). index \<ge> hc_max_terminal cfg
           \<or> now - hb_last h > seconds (hc_max_age_days cfg * 86400))
       (enumerate 0 (newest_first (filter (terminal_phase \<circ> snd) xs))))"

definition cleanup_unlocked :: "hb_config \<Rightarrow> instant \<Rightarrow> hb_dir \<Rightarrow> hb_dir" where
  "cleanup_unlocked cfg now d =
     (let xs = readable d;
          gone = expired_terminal cfg now xs
                   @ map fst (drop (hc_max_records cfg) (newest_first xs))
      in filter (\<lambda>(i, f). i \<notin> set gone) d)"

section \<open>The calls\<close>

definition hex_digest_ok :: "string \<Rightarrow> bool" where
  "hex_digest_ok s \<longleftrightarrow> length s = 64 \<and> set s \<subseteq> set ''0123456789abcdef''"

definition first_heartbeat ::
    "int \<Rightarrow> string \<Rightarrow> string \<Rightarrow> int \<Rightarrow> int \<Rightarrow> string \<Rightarrow> instant \<Rightarrow> heartbeat" where
  "first_heartbeat issue milestone writer generation policy_generation policy_digest now =
     \<lparr>hb_issue = issue, hb_milestone = milestone, hb_writer = writer, hb_generation = generation,
      hb_policy_generation = policy_generation, hb_policy_digest = policy_digest, hb_revision = 1,
      hb_phase = ''preparing'', hb_phase_started = stamp now, hb_started = stamp now,
      hb_elapsed = 0, hb_last = stamp now, hb_health = ''active'', hb_changed = 0,
      hb_validation = ''not-started'', hb_pr = None, hb_safe_step = ''runner initialized'',
      hb_next = Some ''inspecting''\<rparr>"

definition hb_start ::
    "hb_config \<Rightarrow> write_outcome \<Rightarrow> string \<Rightarrow> instant \<Rightarrow> int \<Rightarrow> string \<Rightarrow> int \<Rightarrow> string
       \<Rightarrow> (hb_dir, heartbeat) proc" where
  "hb_start cfg w uuid now issue milestone policy_generation policy_digest =
     (if issue < 1 \<or> milestone = [] \<or> length milestone > 200
      then fail HeartbeatError ''invalid issue heartbeat identity''
      else if policy_generation < 0 \<or> \<not> hex_digest_ok policy_digest
      then fail HeartbeatError ''invalid heartbeat policy identity''
      else bindS (read_unlocked issue) (\<lambda>previous.
        let h = first_heartbeat issue milestone uuid
              (case previous of None \<Rightarrow> 1 | Some p \<Rightarrow> hb_generation p + 1)
              policy_generation policy_digest now
        in thenS (write_unlocked w issue h)
          (thenS (modify (cleanup_unlocked cfg now)) (ret h))))"

definition hb_read ::
    "hb_config \<Rightarrow> instant \<Rightarrow> int \<Rightarrow> (hb_dir, heartbeat option) proc" where
  "hb_read cfg current issue = bindS (read_unlocked issue) (\<lambda>f.
     case f of
       None \<Rightarrow> ret None
     | Some h \<Rightarrow>
         (let h' = h\<lparr>hb_elapsed := whole_seconds (current - hb_started h)\<rparr>
          in ret (Some (if hb_phase h' \<in> set TERMINAL_PHASES then h'
             else h'\<lparr>hb_health :=
                 classify_age (hc_thresholds cfg) (max 0 (current - hb_last h'))\<rparr>))))"

definition repo_char :: "char \<Rightarrow> bool" where
  "repo_char c \<longleftrightarrow> 65 \<le> code c \<and> code c \<le> 90 \<or> is_lower c \<or> is_num c \<or> c \<in> set ''_.-''"

definition positive_number :: rx where
  "positive_number = Seq (One (\<lambda>c. is_num c \<and> c \<noteq> CHR ''0'')) (Many is_num)"

definition PR_REFERENCE :: rx where
  "PR_REFERENCE = Alt (Seq (exact ''#'') positive_number)
     (Seq (exact ''https://github.com/'') (Seq (Seq (One repo_char) (Many repo_char))
       (Seq (exact ''/'') (Seq (Seq (One repo_char) (Many repo_char))
         (Seq (exact ''/pull/'') positive_number)))))"

record hb_request =
  rq_phase :: "string option"
  rq_changed :: "int option"
  rq_validation :: "string option"
  rq_pr :: "string option"

definition check_request :: "hb_request \<Rightarrow> unit result" where
  "check_request rq =
     (if (case rq_phase rq of None \<Rightarrow> False | Some p \<Rightarrow> p \<notin> set (PHASES @ TERMINAL_PHASES))
      then raise HeartbeatError ''invalid heartbeat phase''
      else if (case rq_validation rq of None \<Rightarrow> False | Some v \<Rightarrow> v \<notin> set VALIDATION_STATES)
      then raise HeartbeatError ''invalid validation state''
      else if (case rq_changed rq of None \<Rightarrow> False | Some n \<Rightarrow> n < 0)
      then raise HeartbeatError ''invalid changed-file count''
      else if (case rq_pr rq of None \<Rightarrow> False | Some r \<Rightarrow> \<not> re_full PR_REFERENCE r)
      then raise HeartbeatError ''invalid PR reference''
      else Inr ())"

definition move_phase :: "string option \<Rightarrow> instant \<Rightarrow> heartbeat \<Rightarrow> heartbeat result" where
  "move_phase phase now h =
     (case phase of
        None \<Rightarrow> Inr h
      | Some p \<Rightarrow>
          if p = hb_phase h then Inr h
          else if p \<in> set TERMINAL_PHASES
          then Inr (h\<lparr>hb_safe_step := take 40 (hb_phase h), hb_phase := p, hb_phase_started := stamp now\<rparr>)
          else (case phase_index PHASES p of Inl e \<Rightarrow> Inl e | Inr j \<Rightarrow>
               (case phase_index PHASES (hb_phase h) of Inl e \<Rightarrow> Inl e | Inr i \<Rightarrow>
                  if j < i then raise HeartbeatError ''stale heartbeat phase''
                  else Inr (h\<lparr>hb_safe_step := take 40 (hb_phase h), hb_phase := p,
                             hb_phase_started := stamp now\<rparr>))))"

definition advance :: "hb_request \<Rightarrow> instant \<Rightarrow> heartbeat \<Rightarrow> heartbeat result" where
  "advance rq now h =
     (case move_phase (rq_phase rq) now h of
        Inl e \<Rightarrow> Inl e
      | Inr h1 \<Rightarrow>
          (case next_transition (hb_phase h1) of
             Inl e \<Rightarrow> Inl e
           | Inr n \<Rightarrow> Inr (h1\<lparr>
               hb_changed := (case rq_changed rq of None \<Rightarrow> hb_changed h1 | Some c \<Rightarrow> c),
               hb_validation := (case rq_validation rq of None \<Rightarrow> hb_validation h1 | Some v \<Rightarrow> v),
               hb_pr := (case rq_pr rq of None \<Rightarrow> hb_pr h1 | Some r \<Rightarrow> Some r),
               hb_revision := hb_revision h + 1,
               hb_last := stamp now,
               hb_elapsed := whole_seconds (now - hb_started h1),
               hb_health := (case rq_phase rq of
                   Some p \<Rightarrow> if p \<in> set TERMINAL_PHASES then p else ''active''
                 | None \<Rightarrow> ''active''),
               hb_next := n\<rparr>)))"

definition hb_update ::
    "hb_config \<Rightarrow> write_outcome \<Rightarrow> instant \<Rightarrow> int \<Rightarrow> string \<Rightarrow> int \<Rightarrow> hb_request
       \<Rightarrow> (hb_dir, heartbeat) proc" where
  "hb_update cfg w now issue writer generation rq =
     thenS (lift (check_request rq))
       (bindS (read_unlocked issue) (\<lambda>f.
          case f of
            None \<Rightarrow> fail HeartbeatError ''heartbeat is missing''
          | Some h \<Rightarrow>
              if hb_writer h \<noteq> writer \<or> hb_generation h \<noteq> generation
              then fail HeartbeatError ''stale heartbeat writer''
              else if terminal_phase h then fail HeartbeatError ''heartbeat is terminal''
              else bindS (lift (advance rq now h)) (\<lambda>h'.
                thenS (write_unlocked w issue h')
               (thenS (modify (cleanup_unlocked cfg now)) (ret h')))))"

section \<open>Phases and documents\<close>

lemma phase_index_Inr: "phase_index ps p = Inr n \<Longrightarrow> n < length ps \<and> ps ! n = p"
  by (induction ps arbitrary: n) (auto split: if_splits sum.splits)

lemma phase_index_mem: "p \<in> set ps \<longleftrightarrow> (\<exists>n. phase_index ps p = Inr n)"
  by (induction ps) (auto split: sum.splits)

lemma next_transition_defined: "p \<in> set (PHASES @ TERMINAL_PHASES) \<Longrightarrow> \<exists>t. next_transition p = Inr t"
  by (auto simp: next_transition_def NEXT_TRANSITIONS_def PHASES_def TERMINAL_PHASES_def)

lemma phases_not_terminal: "p \<in> set PHASES \<Longrightarrow> p \<notin> set TERMINAL_PHASES"
  by (auto simp: PHASES_def TERMINAL_PHASES_def)

definition hb_wf :: "heartbeat \<Rightarrow> bool" where
  "hb_wf h \<longleftrightarrow> hb_phase h \<in> set (PHASES @ TERMINAL_PHASES)
     \<and> next_transition (hb_phase h) = Inr (hb_next h)
     \<and> hb_health h = (if terminal_phase h then hb_phase h else ''active'')
     \<and> 1 \<le> hb_generation h \<and> 1 \<le> hb_revision h \<and> 0 \<le> hb_changed h \<and> 0 \<le> hb_elapsed h
     \<and> hb_validation h \<in> set VALIDATION_STATES
     \<and> (case hb_pr h of None \<Rightarrow> True | Some r \<Rightarrow> re_full PR_REFERENCE r)
     \<and> hex_digest_ok (hb_policy_digest h) \<and> 0 \<le> hb_policy_generation h"

definition dir_wf :: "hb_dir \<Rightarrow> bool" where
  "dir_wf d \<longleftrightarrow> distinct (map fst d)
     \<and> (\<forall>issue h. map_of d issue = Some (Beat h) \<longrightarrow> hb_wf h \<and> hb_issue h = issue)"

lemma first_heartbeat_wf:
  "1 \<le> generation \<Longrightarrow> 0 \<le> pg \<Longrightarrow> hex_digest_ok pd \<Longrightarrow>
     hb_wf (first_heartbeat issue milestone writer generation pg pd now)"
  by (simp add: hb_wf_def first_heartbeat_def terminal_phase_def next_transition_def
      NEXT_TRANSITIONS_def PHASES_def TERMINAL_PHASES_def VALIDATION_STATES_def)

text \<open>The stage of a document: how far it is, or that it has ended.\<close>

datatype stage = Working nat | Ended string

definition stage_of :: "heartbeat \<Rightarrow> stage" where
  "stage_of h = (case phase_index PHASES (hb_phase h) of
     Inr n \<Rightarrow> Working n | Inl _ \<Rightarrow> Ended (hb_phase h))"

inductive stage_step :: "stage \<Rightarrow> stage \<Rightarrow> bool" where
  forward: "i \<le> j \<Longrightarrow> j < length PHASES \<Longrightarrow> stage_step (Working i) (Working j)"
| ending: "p \<in> set TERMINAL_PHASES \<Longrightarrow> stage_step (Working i) (Ended p)"

inductive_cases stage_step_EndedE: "stage_step (Ended p) t"

lemma stage_of_working: "hb_phase h \<in> set PHASES \<Longrightarrow>
  \<exists>n. phase_index PHASES (hb_phase h) = Inr n \<and> n < length PHASES \<and> stage_of h = Working n"
  using phase_index_mem[of "hb_phase h" PHASES] phase_index_Inr by (fastforce simp: stage_of_def)

lemma stage_of_ended: "hb_phase h \<in> set TERMINAL_PHASES \<Longrightarrow> stage_of h = Ended (hb_phase h)"
  using phase_index_mem[of "hb_phase h" PHASES] phases_not_terminal
  by (auto simp: stage_of_def split: sum.splits)

lemma move_phase_Inr:
  assumes "move_phase phase now h = Inr h1" and "hb_phase h \<in> set PHASES"
    and "case phase of None \<Rightarrow> True | Some p \<Rightarrow> p \<in> set (PHASES @ TERMINAL_PHASES)"
  shows "hb_phase h1 = (case phase of None \<Rightarrow> hb_phase h | Some p \<Rightarrow> p)"
    and "stage_step (stage_of h) (stage_of h1)"
    and "\<exists>st ph t. h1 = h\<lparr>hb_safe_step := st, hb_phase := ph, hb_phase_started := t\<rparr>"
proof -
  obtain i where i: "phase_index PHASES (hb_phase h) = Inr i" "i < length PHASES"
      "stage_of h = Working i"
    using stage_of_working[OF assms(2)] by blast
  let ?moved = "\<lambda>p. h\<lparr>hb_safe_step := take 40 (hb_phase h), hb_phase := p, hb_phase_started := stamp now\<rparr>"
  consider "h1 = h" "phase = None \<or> phase = Some (hb_phase h)"
    | p where "phase = Some p" "p \<in> set TERMINAL_PHASES" "p \<noteq> hb_phase h" "h1 = ?moved p"
    | p j where "phase = Some p" "phase_index PHASES p = Inr j" "i \<le> j" "h1 = ?moved p"
  proof (cases phase)
    case None
    with assms(1) show thesis by (intro that(1)) (simp_all add: move_phase_def)
  next
    case (Some p)
    show thesis
    proof (cases "p = hb_phase h \<or> p \<in> set TERMINAL_PHASES")
      case True
      with Some assms(1) show thesis
        by (cases "p = hb_phase h") (simp_all add: move_phase_def that(1) that(2))
    next
      case False
      then obtain j where j: "phase_index PHASES p = Inr j"
        using Some assms(3) phase_index_mem[of p PHASES] by auto
      with False Some assms(1) i have "i \<le> j \<and> h1 = ?moved p"
        by (simp add: move_phase_def split: if_splits)
      then show thesis using that(3) Some j by blast
    qed
  qed
  then have "hb_phase h1 = (case phase of None \<Rightarrow> hb_phase h | Some p \<Rightarrow> p)
    \<and> stage_step (stage_of h) (stage_of h1)
    \<and> (\<exists>st ph t. h1 = h\<lparr>hb_safe_step := st, hb_phase := ph, hb_phase_started := t\<rparr>)"
  proof cases
    case 1
    then have "h1 = h\<lparr>hb_safe_step := hb_safe_step h, hb_phase := hb_phase h,
        hb_phase_started := hb_phase_started h\<rparr>" by simp
    then have "\<exists>st ph t. h1 = h\<lparr>hb_safe_step := st, hb_phase := ph, hb_phase_started := t\<rparr>" by blast
    moreover have "hb_phase h1 = (case phase of None \<Rightarrow> hb_phase h | Some p \<Rightarrow> p)" using 1 by auto
    moreover have "stage_step (stage_of h) (stage_of h1)" using 1 i by (simp add: stage_step.forward)
    ultimately show ?thesis by blast
  next
    case (2 p)
    then show ?thesis using i stage_of_ended[of h1] by (auto intro: stage_step.ending)
  next
    case (3 p j)
    then have "stage_of h1 = Working j" by (simp add: stage_of_def)
    with 3 i phase_index_Inr[OF 3(2)] show ?thesis by (auto intro: stage_step.forward)
  qed
  then show "hb_phase h1 = (case phase of None \<Rightarrow> hb_phase h | Some p \<Rightarrow> p)"
    and "stage_step (stage_of h) (stage_of h1)"
    and "\<exists>st ph t. h1 = h\<lparr>hb_safe_step := st, hb_phase := ph, hb_phase_started := t\<rparr>"
    by blast+
qed

definition identity_of :: "heartbeat \<Rightarrow> int \<times> string \<times> string \<times> int \<times> int \<times> string \<times> instant" where
  "identity_of h = (hb_issue h, hb_milestone h, hb_writer h, hb_generation h,
     hb_policy_generation h, hb_policy_digest h, hb_started h)"

lemma advance_Inr:
  assumes "advance rq now h = Inr h'" and "check_request rq = Inr ()" and "hb_wf h"
    and "\<not> terminal_phase h"
  shows "hb_wf h'" and "stage_step (stage_of h) (stage_of h')"
    and "hb_revision h' = hb_revision h + 1" and "identity_of h' = identity_of h"
    and "hb_last h' = stamp now"
proof -
  obtain h1 n where h1: "move_phase (rq_phase rq) now h = Inr h1"
    and n: "next_transition (hb_phase h1) = Inr n"
    using assms(1) by (auto simp: advance_def split: sum.splits)
  have rq: "case rq_phase rq of None \<Rightarrow> True | Some p \<Rightarrow> p \<in> set (PHASES @ TERMINAL_PHASES)"
      "case rq_validation rq of None \<Rightarrow> True | Some v \<Rightarrow> v \<in> set VALIDATION_STATES"
      "case rq_changed rq of None \<Rightarrow> True | Some c \<Rightarrow> 0 \<le> c"
      "case rq_pr rq of None \<Rightarrow> True | Some r \<Rightarrow> re_full PR_REFERENCE r"
    using assms(2) by (auto simp: check_request_def split: option.splits if_splits)
  have ph: "hb_phase h \<in> set PHASES" using assms(3,4) by (auto simp: hb_wf_def terminal_phase_def)
  note mv = move_phase_Inr[OF h1 ph rq(1)]
  obtain st p t where upd: "h1 = h\<lparr>hb_safe_step := st, hb_phase := p, hb_phase_started := t\<rparr>"
    using mv(3) by blast
  have h': "h' = h1\<lparr>
               hb_changed := (case rq_changed rq of None \<Rightarrow> hb_changed h1 | Some c \<Rightarrow> c),
               hb_validation := (case rq_validation rq of None \<Rightarrow> hb_validation h1 | Some v \<Rightarrow> v),
               hb_pr := (case rq_pr rq of None \<Rightarrow> hb_pr h1 | Some r \<Rightarrow> Some r),
               hb_revision := hb_revision h + 1,
               hb_last := stamp now,
               hb_elapsed := whole_seconds (now - hb_started h1),
               hb_health := (case rq_phase rq of
                   Some p \<Rightarrow> if p \<in> set TERMINAL_PHASES then p else ''active''
                 | None \<Rightarrow> ''active''),
               hb_next := n\<rparr>"
    using assms(1) h1 n by (simp add: advance_def)
  show "hb_revision h' = hb_revision h + 1" "identity_of h' = identity_of h" "hb_last h' = stamp now"
    by (simp_all add: h' upd identity_of_def)
  have same: "hb_phase h' = hb_phase h1" by (simp add: h')
  have "stage_of h' = stage_of h1" unfolding stage_of_def same by (rule refl)
  then show "stage_step (stage_of h) (stage_of h')" using mv(2) by simp
  have "hb_phase h' = (case rq_phase rq of None \<Rightarrow> hb_phase h | Some p \<Rightarrow> p)"
    using mv(1) same by simp
  then show "hb_wf h'"
    using assms(3,4) rq n ph phases_not_terminal[OF ph]
    by (auto simp: hb_wf_def h' upd terminal_phase_def whole_seconds_def split: option.splits)
qed

section \<open>The directory\<close>

lemma map_of_readable:
  "distinct (map fst d) \<Longrightarrow> (i, h) \<in> set (readable d) \<longleftrightarrow> map_of d i = Some (Beat h)"
  by (induction d rule: readable.induct) (auto simp: image_iff dest: map_of_SomeD)

lemma readable_subset: "fst ` set (readable d) \<subseteq> fst ` set d"
  by (induction d rule: readable.induct) auto

lemma distinct_readable: "distinct (map fst d) \<Longrightarrow> distinct (map fst (readable d))"
  using readable_subset by (induction d rule: readable.induct) auto

lemma readable_filter: "readable (filter (\<lambda>(i, f). P i) d) = filter (\<lambda>(i, h). P i) (readable d)"
  by (induction d rule: readable.induct) auto

lemma set_newest_first [simp]: "set (newest_first xs) = set xs"
  by (simp add: newest_first_def)

lemma length_filter_newest_first: "length (filter P (newest_first xs)) = length (filter P xs)"
proof -
  have "mset (newest_first xs) = mset xs" by (simp add: newest_first_def)
  then show ?thesis by (metis mset_filter size_mset)
qed

lemma distinct_newest_first: "distinct (map fst xs) \<Longrightarrow> distinct (map fst (newest_first xs))"
proof -
  have "mset (map fst (newest_first xs)) = mset (map fst xs)" by (simp add: newest_first_def)
  then show "distinct (map fst xs) \<Longrightarrow> ?thesis" by (metis mset_eq_imp_distinct_iff)
qed

lemma newest_first_order:
  assumes "j < k" and "k < length (newest_first xs)"
  shows "hb_last (snd (newest_first xs ! k)) \<le> hb_last (snd (newest_first xs ! j))"
proof -
  let ?key = "\<lambda>(i, h). (hb_last h, file_name i)"
  have "sorted_wrt (\<lambda>x y. ?key x \<le> ?key y) (sort_key ?key xs)"
    using sorted_sort_key[of ?key xs] by (simp add: sorted_map)
  then have "sorted_wrt (\<lambda>x y. ?key y \<le> ?key x) (newest_first xs)"
    by (simp add: newest_first_def sorted_wrt_rev)
  from sorted_wrt_nth_less[OF this assms] show ?thesis
    by (auto simp: less_eq_prod_def split: prod.splits)
qed

lemma length_filter_mono:
  "(\<And>x. x \<in> set xs \<Longrightarrow> P x \<Longrightarrow> Q x) \<Longrightarrow> length (filter P xs) \<le> length (filter Q xs)"
  by (induction xs) (auto intro: le_SucI)

lemma kept_bound:
  "length (filter (\<lambda>x. fst x \<notin> set (map fst (drop n (newest_first xs)))) xs) \<le> n"
proof -
  let ?ys = "newest_first xs"
  let ?P = "\<lambda>x. fst x \<notin> set (map fst (drop n ?ys))"
  have "filter ?P (drop n ?ys) = []" by (auto simp: filter_empty_conv)
  then have "filter ?P ?ys = filter ?P (take n ?ys)"
    by (metis append_Nil2 append_take_drop_id filter_append)
  then show ?thesis
    by (metis length_filter_newest_first length_filter_le length_take min.boundedE)
qed

lemma in_drop_nth:
  assumes "i \<in> fst ` set (drop m xs)"
  obtains k h where "k < length xs" and "m \<le> k" and "xs ! k = (i, h)"
proof -
  obtain j where j: "j < length (drop m xs)" "fst (drop m xs ! j) = i"
    using assms by (auto simp: in_set_conv_nth)
  then have "m + j < length xs" "xs ! (m + j) = (i, snd (xs ! (m + j)))"
    by (simp_all add: prod_eq_iff)
  then show thesis using that le_add1 by blast
qed

lemma drop_in_expired:
  "fst ` set (drop (hc_max_terminal cfg) (newest_first (filter (terminal_phase \<circ> snd) xs)))
     \<subseteq> set (expired_terminal cfg now xs)"
proof
  let ?ts = "newest_first (filter (terminal_phase \<circ> snd) xs)"
  fix i assume "i \<in> fst ` set (drop (hc_max_terminal cfg) ?ts)"
  then obtain k h where "k < length ?ts" "hc_max_terminal cfg \<le> k" "?ts ! k = (i, h)"
    by (rule in_drop_nth)
  then have "(k, i, h) \<in> set (filter (\<lambda>(index, i, h). index \<ge> hc_max_terminal cfg
           \<or> now - hb_last h > seconds (hc_max_age_days cfg * 86400)) (enumerate 0 ?ts))"
    by (simp add: in_set_enumerate_eq)
  then show "i \<in> set (expired_terminal cfg now xs)" by (force simp: expired_terminal_def)
qed

lemma expired_terminal_sound:
  "i \<in> set (expired_terminal cfg now xs) \<Longrightarrow> \<exists>h. (i, h) \<in> set xs \<and> terminal_phase h"
proof -
  let ?ts = "newest_first (filter (terminal_phase \<circ> snd) xs)"
  assume "i \<in> set (expired_terminal cfg now xs)"
  then obtain k h where "(k, i, h) \<in> set (enumerate 0 ?ts)" by (auto simp: expired_terminal_def)
  then have "(i, h) \<in> set ?ts" by (metis in_set_enumerate_eq nth_mem snd_conv diff_zero fst_conv add_0_right)
  then show ?thesis by auto
qed

lemma aged_in_expired:
  assumes "(i, h) \<in> set xs" and "terminal_phase h"
    and "now - hb_last h > seconds (hc_max_age_days cfg * 86400)"
  shows "i \<in> set (expired_terminal cfg now xs)"
proof -
  let ?ts = "newest_first (filter (terminal_phase \<circ> snd) xs)"
  have "(i, h) \<in> set ?ts" using assms by simp
  then obtain k where "k < length ?ts" "?ts ! k = (i, h)" by (metis in_set_conv_nth)
  then have "(k, i, h) \<in> set (filter (\<lambda>(index, i, h). index \<ge> hc_max_terminal cfg
           \<or> now - hb_last h > seconds (hc_max_age_days cfg * 86400)) (enumerate 0 ?ts))"
    using assms(3) by (simp add: in_set_enumerate_eq)
  then show ?thesis by (force simp: expired_terminal_def)
qed

lemma cleanup_readable:
  "readable (cleanup_unlocked cfg now d) =
     filter (\<lambda>x. fst x \<notin> set (expired_terminal cfg now (readable d))
        \<and> fst x \<notin> set (map fst (drop (hc_max_records cfg) (newest_first (readable d))))) (readable d)"
  unfolding cleanup_unlocked_def Let_def readable_filter by (rule filter_cong) (auto simp: image_iff)

lemma map_of_cleanup:
  assumes "distinct (map fst d)" and "map_of (cleanup_unlocked cfg now d) i = Some f"
  shows "map_of d i = Some f"
proof -
  have "(i, f) \<in> set d" using map_of_SomeD[OF assms(2)] by (simp add: cleanup_unlocked_def Let_def)
  with assms(1) show ?thesis by simp
qed

lemma dir_wf_cleanup: "dir_wf d \<Longrightarrow> dir_wf (cleanup_unlocked cfg now d)"
  unfolding dir_wf_def
  by (metis (no_types, lifting) cleanup_unlocked_def distinct_map_filter map_of_cleanup)

lemma dir_wf_update: "dir_wf d \<Longrightarrow> hb_wf h \<Longrightarrow> hb_issue h = i \<Longrightarrow> dir_wf (AList.update i (Beat h) d)"
  by (auto simp: dir_wf_def distinct_update update_conv')

lemma cleanup_kept:
  assumes "distinct (map fst d)" and "(i, h) \<in> set (readable d)" and "\<not> terminal_phase h"
    and "i \<notin> fst ` set (drop (hc_max_records cfg) (newest_first (readable d)))"
  shows "map_of (cleanup_unlocked cfg now d) i = Some (Beat h)"
proof -
  have di: "distinct (map fst (readable d))" by (rule distinct_readable[OF assms(1)])
  have "i \<notin> set (expired_terminal cfg now (readable d))"
  proof
    assume "i \<in> set (expired_terminal cfg now (readable d))"
    then obtain g where "(i, g) \<in> set (readable d)" "terminal_phase g"
      using expired_terminal_sound by blast
    with assms(2,3) di show False by (metis eq_key_imp_eq_value)
  qed
  with assms have "(i, h) \<in> set (readable (cleanup_unlocked cfg now d))"
    by (simp add: cleanup_readable)
  moreover have "distinct (map fst (cleanup_unlocked cfg now d))"
    using assms(1) by (simp add: cleanup_unlocked_def Let_def distinct_map_filter)
  ultimately show ?thesis by (simp add: map_of_readable)
qed

lemma newer_than_dropped:
  assumes "distinct (map fst xs)" and "(i, h) \<in> set xs"
    and "i \<in> fst ` set (drop n (newest_first xs))"
  shows "\<exists>newer. set newer \<subseteq> set xs \<and> distinct (map fst newer) \<and> length newer = n
    \<and> i \<notin> fst ` set newer \<and> list_all (\<lambda>(j, g). hb_last h \<le> hb_last g) newer"
proof -
  let ?ys = "newest_first xs"
  have di: "distinct (map fst ?ys)" by (rule distinct_newest_first[OF assms(1)])
  obtain k g where k: "k < length ?ys" "n \<le> k" "?ys ! k = (i, g)"
    using assms(3) by (rule in_drop_nth)
  have "(i, g) \<in> set xs" using k by (metis nth_mem set_newest_first)
  then have g: "g = h" using assms(1,2) by (metis eq_key_imp_eq_value)
  have "hb_last h \<le> hb_last (snd y)" if y: "y \<in> set (take n ?ys)" for y
  proof -
    obtain j where "j < n" "?ys ! j = y" "j < length ?ys" using y by (auto simp: in_take_iff)
    then show ?thesis using newest_first_order[of j k xs] k g by simp
  qed
  moreover have "i \<notin> fst ` set (take n ?ys)"
  proof
    assume "i \<in> fst ` set (take n ?ys)"
    then obtain j where "j < n" "j < length ?ys" "fst (?ys ! j) = i" by (auto simp: in_take_iff)
    then show False using di k nth_eq_iff_index_eq[OF di, of j k] by simp
  qed
  moreover have "distinct (map fst (take n ?ys))" using di by (metis distinct_take take_map)
  moreover have "set (take n ?ys) \<subseteq> set xs" by (metis set_newest_first set_take_subset)
  ultimately show ?thesis using k by (intro exI[of _ "take n ?ys"]) (auto simp: list_all_iff)
qed

section \<open>The calls\<close>

lemma read_unlocked_run:
  "read_unlocked issue d =
     (case map_of d issue of
        None \<Rightarrow> Inr None
      | Some Garbled \<Rightarrow> raise HeartbeatError ''heartbeat is unreadable''
      | Some (Beat h) \<Rightarrow> Inr (Some h), d)"
  by (simp add: read_unlocked_def bindS_def split: option.splits hb_file.splits)

lemma hb_start_run:
  assumes "hb_start cfg w uuid now issue milestone pg pd d = (r, d')"
  obtains (refused) e where "r = Inl e" and "d' = d"
  | (leased) h generation where "h = first_heartbeat issue milestone uuid generation pg pd now"
      and "1 \<le> issue" and "0 \<le> pg" and "hex_digest_ok pd"
      and "generation = (case map_of d issue of Some (Beat p) \<Rightarrow> hb_generation p + 1 | _ \<Rightarrow> 1)"
      and "(r = Inr h \<and> d' = cleanup_unlocked cfg now (AList.update issue (Beat h) d))
         \<or> (isl r \<and> d' = AList.update issue (Beat h) d)"
proof (cases "issue < 1 \<or> milestone = [] \<or> length milestone > 200 \<or> pg < 0 \<or> \<not> hex_digest_ok pd
    \<or> map_of d issue = Some Garbled \<or> w = NotWritten")
  case True
  have "isl r \<and> d' = d"
    using assms True
    by (cases w) (auto simp: hb_start_def bindS_def read_unlocked_run write_unlocked_def Let_def
        split: if_splits option.splits hb_file.splits)
  then show thesis using refused by (auto simp: isl_def)
next
  case False
  let ?g = "case map_of d issue of Some (Beat p) \<Rightarrow> hb_generation p + 1 | _ \<Rightarrow> 1"
  let ?h = "first_heartbeat issue milestone uuid ?g pg pd now"
  have "(r = Inr ?h \<and> d' = cleanup_unlocked cfg now (AList.update issue (Beat ?h) d))
         \<or> (isl r \<and> d' = AList.update issue (Beat ?h) d)"
    using assms False
    by (cases w) (auto simp: hb_start_def bindS_def read_unlocked_run write_unlocked_def Let_def
        split: option.splits hb_file.splits)
  then show thesis using False by (intro leased[of ?h ?g]) auto
qed

lemma hb_update_run:
  assumes "hb_update cfg w now issue writer generation rq d = (r, d')"
  obtains (refused) e where "r = Inl e" and "d' = d"
  | (moved) h h' where "map_of d issue = Some (Beat h)" and "hb_writer h = writer"
      and "hb_generation h = generation" and "\<not> terminal_phase h" and "check_request rq = Inr ()"
      and "advance rq now h = Inr h'"
      and "(r = Inr h' \<and> d' = cleanup_unlocked cfg now (AList.update issue (Beat h') d))
         \<or> (isl r \<and> d' = AList.update issue (Beat h') d)"
proof (cases "\<exists>h h'. map_of d issue = Some (Beat h) \<and> hb_writer h = writer \<and> hb_generation h = generation
    \<and> \<not> terminal_phase h \<and> check_request rq = Inr () \<and> advance rq now h = Inr h' \<and> w \<noteq> NotWritten")
  case True
  then obtain h h' where h: "map_of d issue = Some (Beat h)" "hb_writer h = writer"
    "hb_generation h = generation" "\<not> terminal_phase h" "check_request rq = Inr ()"
    "advance rq now h = Inr h'" "w \<noteq> NotWritten" by blast
  have "(r = Inr h' \<and> d' = cleanup_unlocked cfg now (AList.update issue (Beat h') d))
         \<or> (isl r \<and> d' = AList.update issue (Beat h') d)"
    using assms h
    by (cases w) (auto simp: hb_update_def bindS_def read_unlocked_run write_unlocked_def)
  with h show thesis by (intro moved[of h h'])
next
  case False
  then have "isl r \<and> d' = d"
    using assms
    by (cases w; auto simp: hb_update_def bindS_def read_unlocked_run write_unlocked_def
        split: option.splits hb_file.splits if_splits sum.splits; metis sum.disc(1))
  then show thesis using refused by (auto simp: isl_def)
qed

lemma hb_read_run: "hb_read cfg now issue d = (r, d') \<Longrightarrow> d' = d"
  by (auto simp: hb_read_def bindS_def read_unlocked_run Let_def
      split: option.splits hb_file.splits)

lemma dir_wf_start:
  assumes "dir_wf d" and "hb_start cfg w uuid now issue milestone pg pd d = (r, d')"
  shows "dir_wf d'"
  using assms(2)
proof (cases rule: hb_start_run)
  case (leased h generation)
  have prev: "1 \<le> hb_generation p" if "map_of d issue = Some (Beat p)" for p
    using assms(1) that unfolding dir_wf_def hb_wf_def by blast
  have "1 \<le> generation"
  proof (cases "map_of d issue")
    case (Some f)
    then show ?thesis using leased(5) prev by (cases f) fastforce+
  qed (use leased(5) in simp)
  then have "hb_wf h" using leased first_heartbeat_wf by simp
  moreover have "hb_issue h = issue" using leased(1) by (simp add: first_heartbeat_def)
  ultimately show ?thesis using leased(6) dir_wf_update[OF assms(1)] dir_wf_cleanup by auto
qed (use assms(1) in simp)

lemma dir_wf_moved:
  assumes "dir_wf d" and "hb_update cfg w now issue writer generation rq d = (r, d')"
  shows "dir_wf d'"
  using assms(2)
proof (cases rule: hb_update_run)
  case (moved h h')
  have "hb_wf h" "hb_issue h = issue" using assms(1) moved(1) by (auto simp: dir_wf_def)
  note adv = advance_Inr[OF moved(6,5) this(1) moved(4)]
  have "hb_issue h' = issue" using adv(4) \<open>hb_issue h = issue\<close> by (simp add: identity_of_def)
  then show ?thesis using moved(7) dir_wf_update[OF assms(1) adv(1)] dir_wf_cleanup by auto
qed (use assms(1) in simp)

datatype hb_event =
    HStart write_outcome string instant int string int string
  | HUpdate write_outcome instant int string int hb_request
  | HRead instant int

fun hb_step :: "hb_config \<Rightarrow> hb_event \<Rightarrow> hb_dir \<Rightarrow> hb_dir" where
  "hb_step cfg (HStart w uuid now issue milestone pg pd) d =
     snd (hb_start cfg w uuid now issue milestone pg pd d)"
| "hb_step cfg (HUpdate w now issue writer generation rq) d =
     snd (hb_update cfg w now issue writer generation rq d)"
| "hb_step cfg (HRead now issue) d = snd (hb_read cfg now issue d)"

lemma hb_step_wf: "dir_wf d \<Longrightarrow> dir_wf (hb_step cfg e d)"
  by (cases e) (metis dir_wf_start dir_wf_moved hb_read_run hb_step.simps prod.collapse)+

text \<open>A writer without the lease of an issue: another one has started it since, or nobody.\<close>

definition no_lease :: "string \<Rightarrow> int \<Rightarrow> hb_dir \<Rightarrow> bool" where
  "no_lease writer issue d \<longleftrightarrow> distinct (map fst d)
     \<and> (\<forall>h. map_of d issue = Some (Beat h) \<longrightarrow> hb_writer h \<noteq> writer)"

definition draws :: "string \<Rightarrow> hb_event \<Rightarrow> bool" where
  "draws writer e \<longleftrightarrow> (case e of HStart _ uuid _ _ _ _ _ \<Rightarrow> uuid = writer | _ \<Rightarrow> False)"

lemma no_lease_cleanup: "no_lease writer issue d \<Longrightarrow> no_lease writer issue (cleanup_unlocked cfg now d)"
  unfolding no_lease_def
  by (metis (no_types, lifting) cleanup_unlocked_def distinct_map_filter map_of_cleanup)

lemma no_lease_update:
  "no_lease writer issue d \<Longrightarrow> (j = issue \<Longrightarrow> hb_writer h \<noteq> writer) \<Longrightarrow>
     no_lease writer issue (AList.update j (Beat h) d)"
  by (auto simp: no_lease_def distinct_update update_conv')

lemma no_lease_step:
  assumes "no_lease writer issue d" and "\<not> draws writer e" and "dir_wf d"
  shows "no_lease writer issue (hb_step cfg e d)"
proof (cases e)
  case (HStart w uuid now j milestone pg pd)
  obtain r d' where run: "hb_start cfg w uuid now j milestone pg pd d = (r, d')" by (meson surj_pair)
  from run have "no_lease writer issue d'"
  proof (cases rule: hb_start_run)
    case (leased h generation)
    have "hb_writer h \<noteq> writer" using leased(1) HStart assms(2) by (simp add: first_heartbeat_def draws_def)
    with no_lease_update[OF assms(1)] leased(6) no_lease_cleanup show ?thesis by auto
  qed (use assms(1) in simp)
  with HStart run show ?thesis by simp
next
  case (HUpdate w now j w2 generation rq)
  obtain r d' where run: "hb_update cfg w now j w2 generation rq d = (r, d')" by (meson surj_pair)
  from run have "no_lease writer issue d'"
  proof (cases rule: hb_update_run)
    case (moved h h')
    have "hb_wf h" using assms(3) moved(1) by (auto simp: dir_wf_def)
    then have "hb_writer h' = hb_writer h"
      using advance_Inr(4)[OF moved(6,5) _ moved(4)] by (simp add: identity_of_def)
    then have "j = issue \<Longrightarrow> hb_writer h' \<noteq> writer" using assms(1) moved(1) by (auto simp: no_lease_def)
    with no_lease_update[OF assms(1)] moved(7) no_lease_cleanup show ?thesis by auto
  qed (use assms(1) in simp)
  with HUpdate run show ?thesis by simp
next
  case (HRead now j)
  then show ?thesis using assms(1) hb_read_run[of cfg now j d] by (metis hb_step.simps(3) prod.collapse)
qed

lemma dir_wf_run: "dir_wf d \<Longrightarrow> dir_wf (run_events (hb_step cfg) es d)"
  by (induction es arbitrary: d) (simp_all add: hb_step_wf)

lemma no_lease_run:
  "no_lease writer issue d \<Longrightarrow> dir_wf d \<Longrightarrow> list_all (\<lambda>e. \<not> draws writer e) es \<Longrightarrow>
     no_lease writer issue (run_events (hb_step cfg) es d)"
  by (induction es arbitrary: d) (simp_all add: no_lease_step hb_step_wf)

lemma check_request_Inl: "check_request rq = Inl e \<Longrightarrow> exn_cls e = HeartbeatError"
  by (auto simp: check_request_def split: option.splits if_splits)

lemma hb_update_no_lease:
  assumes "no_lease writer issue d"
  shows "\<exists>m. hb_update cfg w now issue writer generation rq d = (raise HeartbeatError m, d)"
proof (cases "check_request rq")
  case (Inl e)
  then obtain m where "e = Exn HeartbeatError m" using check_request_Inl by (cases e) fastforce
  with Inl show ?thesis by (simp add: hb_update_def)
next
  case (Inr u)
  then show ?thesis
    using assms by (auto simp: hb_update_def bindS_def read_unlocked_run no_lease_def
        split: option.splits hb_file.splits)
qed

text \<open>A directory with one runner, and its request to go on to testing.\<close>

definition demo_hb_config :: hb_config where
  "demo_hb_config = \<lparr>hc_thresholds = default_thresholds, hc_max_terminal = 100,
     hc_max_records = 200, hc_max_age_days = 30\<rparr>"

definition demo_hb_dir :: hb_dir where
  "demo_hb_dir = [(7, Beat (first_heartbeat 7 ''M1'' ''w1'' 1 0 (replicate 64 (CHR ''a'')) 5000000))]"

definition demo_hb_request :: hb_request where
  "demo_hb_request = \<lparr>rq_phase = Some ''testing'', rq_changed = Some 3,
     rq_validation = Some ''running'', rq_pr = None\<rparr>"

lemma demo_hb_dir_wf: "dir_wf demo_hb_dir"
  using first_heartbeat_wf[of 1 0 "replicate 64 (CHR ''a'')"]
  by (simp add: dir_wf_def demo_hb_dir_def hex_digest_ok_def first_heartbeat_def)

lemma demo_hb_accepted:
  "\<not> isl (fst (hb_update demo_hb_config Written 9000000 7 ''w1'' 1 demo_hb_request demo_hb_dir))"
  by (simp add: hb_update_def bindS_def read_unlocked_run demo_hb_dir_def demo_hb_request_def
      check_request_def first_heartbeat_def terminal_phase_def advance_def move_phase_def
      next_transition_def NEXT_TRANSITIONS_def PHASES_def TERMINAL_PHASES_def VALIDATION_STATES_def
      write_unlocked_def)

section \<open>Properties\<close>

text \<open>
  C15. In every history of starts, updates and reads from an empty directory, whatever the arguments,
  the clock, the random writer ids and the failing writes, there is one file per issue and every
  readable one is well formed: its phase is known, the next expected transition is the one of its
  phase, the stored health is \<^verbatim>\<open>active\<close> or the terminal phase it ended in, counters are not negative,
  and the validation state, PR reference and policy digest have their declared form.
\<close>

theorem heartbeat_history_wf: "dir_wf (run_events (hb_step cfg) events [])"
  by (rule dir_wf_run) (simp add: dir_wf_def)

text \<open>
  C16. An update implements the abstract progress of a runner. In a well-formed directory an update
  either is refused and leaves the directory as it was, or its caller holds the lease (writer and
  generation) of a document that had not ended, and the new document has the same identity, the next
  revision, and a stage reached by one abstract step: forward in the order of the phases, or to an end.
\<close>

theorem update_refines_progress:
  assumes "dir_wf d" and "hb_update cfg w now issue writer generation rq d = (r, d')"
  shows "(isl r \<and> d' = d) \<or> (\<exists>h h'. map_of d issue = Some (Beat h)
     \<and> hb_writer h = writer \<and> hb_generation h = generation \<and> \<not> terminal_phase h
     \<and> identity_of h' = identity_of h \<and> hb_revision h' = hb_revision h + 1
     \<and> stage_step (stage_of h) (stage_of h')
     \<and> (if isl r then d' = AList.update issue (Beat h') d
        else r = Inr h' \<and> d' = cleanup_unlocked cfg now (AList.update issue (Beat h') d)))"
  using assms(2)
proof (cases rule: hb_update_run)
  case (moved h h')
  have "hb_wf h" using assms(1) moved(1) by (auto simp: dir_wf_def)
  note adv = advance_Inr[OF moved(6,5) this moved(4)]
  with moved show ?thesis by (intro disjI2 exI[of _ h] exI[of _ h']) auto
qed simp

theorem update_refines_progress_witness:
  "\<exists>r d'. hb_update demo_hb_config Written 9000000 7 ''w1'' 1 demo_hb_request demo_hb_dir = (r, d')
    \<and> ((isl r \<and> d' = demo_hb_dir) \<or> (\<exists>h h'. map_of demo_hb_dir 7 = Some (Beat h)
     \<and> hb_writer h = ''w1'' \<and> hb_generation h = 1 \<and> \<not> terminal_phase h
     \<and> identity_of h' = identity_of h \<and> hb_revision h' = hb_revision h + 1
     \<and> stage_step (stage_of h) (stage_of h')
     \<and> (if isl r then d' = AList.update 7 (Beat h') demo_hb_dir
        else r = Inr h' \<and> d' = cleanup_unlocked demo_hb_config 9000000 (AList.update 7 (Beat h') demo_hb_dir))))
    \<and> \<not> isl r"
proof -
  obtain r d' where run: "hb_update demo_hb_config Written 9000000 7 ''w1'' 1 demo_hb_request demo_hb_dir
      = (r, d')" by (meson surj_pair)
  have "\<not> isl r" using demo_hb_accepted run by simp
  with run update_refines_progress[OF demo_hb_dir_wf run] show ?thesis by blast
qed

text \<open>
  A lost lease stays lost. Once another writer has started an issue (or none has), the old writer's
  updates are refused with a \<^verbatim>\<open>HeartbeatError\<close> and change nothing, with any generation and after any
  further history in which its random writer id is not drawn again.
\<close>

theorem lost_lease_stays_lost:
  assumes "dir_wf d" and "\<And>h. map_of d issue = Some (Beat h) \<Longrightarrow> hb_writer h \<noteq> writer"
    and "list_all (\<lambda>e. \<not> draws writer e) events"
  shows "\<exists>m. hb_update cfg w now issue writer generation rq (run_events (hb_step cfg) events d)
     = (raise HeartbeatError m, run_events (hb_step cfg) events d)"
  by (rule hb_update_no_lease, rule no_lease_run[OF _ assms(1,3)])
    (use assms(1,2) in \<open>simp add: no_lease_def dir_wf_def\<close>)

theorem lost_lease_stays_lost_witness:
  "\<exists>m. hb_update demo_hb_config Written 9000000 7 ''w0'' 1 demo_hb_request
      (run_events (hb_step demo_hb_config) [HRead 9000000 7] demo_hb_dir)
     = (raise HeartbeatError m, run_events (hb_step demo_hb_config) [HRead 9000000 7] demo_hb_dir)"
  by (rule lost_lease_stays_lost[OF demo_hb_dir_wf])
    (simp_all add: demo_hb_dir_def draws_def first_heartbeat_def)

text \<open>
  Retention is bounded and keeps the newest. After a trim at most the configured number of readable
  documents and of ended ones remain, and no ended one beyond its maximal age; unreadable files stay;
  and a document that has not ended is removed only when at least the configured number of other
  documents is as recent.
\<close>

theorem cleanup_bounded:
  assumes "distinct (map fst d)"
  shows "length (readable (cleanup_unlocked cfg now d)) \<le> hc_max_records cfg
    \<and> length (filter (terminal_phase \<circ> snd) (readable (cleanup_unlocked cfg now d))) \<le> hc_max_terminal cfg
    \<and> list_all (\<lambda>(i, h). \<not> terminal_phase h \<or> now - hb_last h \<le> seconds (hc_max_age_days cfg * 86400))
        (readable (cleanup_unlocked cfg now d))
    \<and> list_all (\<lambda>(i, h). map_of (cleanup_unlocked cfg now d) i = Some (Beat h) \<or> terminal_phase h
         \<or> (\<exists>newer. set newer \<subseteq> set (readable d) \<and> distinct (map fst newer)
              \<and> length newer = hc_max_records cfg \<and> i \<notin> fst ` set newer
              \<and> list_all (\<lambda>(j, g). hb_last h \<le> hb_last g) newer)) (readable d)"
proof (intro conjI)
  let ?xs = "readable d"
  let ?gone = "\<lambda>x. fst x \<notin> set (map fst (drop (hc_max_records cfg) (newest_first ?xs)))"
  let ?live = "\<lambda>x. fst x \<notin> set (expired_terminal cfg now ?xs)"
  have sub: "readable (cleanup_unlocked cfg now d) = filter ?live (filter ?gone ?xs)"
    by (simp add: cleanup_readable conj_commute)
  show "length (readable (cleanup_unlocked cfg now d)) \<le> hc_max_records cfg"
    unfolding sub using kept_bound length_filter_le le_trans by blast
  let ?ts = "filter (terminal_phase \<circ> snd) ?xs"
  have "length (filter (terminal_phase \<circ> snd) (filter ?live (filter ?gone ?xs)))
      \<le> length (filter (\<lambda>x. fst x \<notin> set (map fst (drop (hc_max_terminal cfg) (newest_first ?ts)))) ?ts)"
    using drop_in_expired[of cfg ?xs now]
    unfolding filter_filter by (intro length_filter_mono) auto
  then show "length (filter (terminal_phase \<circ> snd) (readable (cleanup_unlocked cfg now d)))
      \<le> hc_max_terminal cfg"
    unfolding sub using kept_bound le_trans by blast
  show "list_all (\<lambda>(i, h). \<not> terminal_phase h \<or> now - hb_last h \<le> seconds (hc_max_age_days cfg * 86400))
        (readable (cleanup_unlocked cfg now d))"
    unfolding sub using aged_in_expired[where xs = ?xs and now = now and cfg = cfg]
    by (fastforce simp: list_all_iff not_less)
  show "list_all (\<lambda>(i, h). map_of (cleanup_unlocked cfg now d) i = Some (Beat h) \<or> terminal_phase h
         \<or> (\<exists>newer. set newer \<subseteq> set ?xs \<and> distinct (map fst newer)
              \<and> length newer = hc_max_records cfg \<and> i \<notin> fst ` set newer
              \<and> list_all (\<lambda>(j, g). hb_last h \<le> hb_last g) newer)) ?xs"
    using cleanup_kept[OF assms] newer_than_dropped[OF distinct_readable[OF assms]]
    unfolding list_all_iff by blast
qed

theorem cleanup_bounded_witness:
  "length (readable (cleanup_unlocked demo_hb_config 9000000 demo_hb_dir)) \<le> hc_max_records demo_hb_config
    \<and> length (filter (terminal_phase \<circ> snd) (readable (cleanup_unlocked demo_hb_config 9000000 demo_hb_dir)))
        \<le> hc_max_terminal demo_hb_config"
  using cleanup_bounded[where d = demo_hb_dir and cfg = demo_hb_config and now = 9000000] demo_hb_dir_wf
  by (simp add: dir_wf_def)

end
