(* ===== verification/SupStore.thy ===== *)
theory SupStore
  imports Json Ledger
begin

text \<open>
  \<^verbatim>\<open>Store\<close> of \<^verbatim>\<open>supervisor/fortify_supervisor.py\<close>: the SQLite database that the supervisor's processes
  (monitor, listener, commands) share. The state is the tables and the process that holds the write
  lock. As the \<^verbatim>\<open>sqlite3\<close> module does, a write opens a transaction that lasts until a commit or
  rollback: a process that finds the lock taken by another gets \<^verbatim>\<open>OperationalError\<close> (after its busy
  timeout), and so does \<^verbatim>\<open>BEGIN\<close> inside an open transaction. A JSON column holds the document its text
  denotes; times are whole seconds. Random tokens and ids are arguments. The theorems show what the
  database protects when calls of several processes interleave, and what it does not.
\<close>

section \<open>Tables\<close>

record sup_approval =
  sa_id :: string
  sa_action :: string
  sa_payload :: json
  sa_digest :: string
  sa_state :: string
  sa_created :: int
  sa_expires :: int
  sa_decided :: "int option"
  sa_by :: "string option"
  sa_reason :: "string option"

record sup_event =
  se_fingerprint :: string
  se_kind :: string
  se_payload :: json
  se_created :: int

record sup_token =
  tk_hash :: string
  tk_approval :: "string option"
  tk_action :: string
  tk_actor :: "string option"
  tk_payload :: json
  tk_created :: int
  tk_expires :: int
  tk_consumed :: "int option"
  tk_consumed_by :: "string option"

record sup_note =
  no_kind :: string
  no_severity :: string
  no_message :: string
  no_payload :: json
  no_bucket :: "string option"
  no_state :: string
  no_message_id :: "string option"
  no_occurrences :: int
  no_updated :: int

record sup_db =
  db_settings :: "string \<rightharpoonup> string"
  db_approvals :: "sup_approval list"
  db_events :: "sup_event list"
  db_tokens :: "sup_token list"
  db_notes :: "(string \<times> sup_note) list"
  db_lock :: "nat option"

definition empty_db :: sup_db where
  "empty_db = \<lparr>db_settings = Map.empty, db_approvals = [], db_events = [], db_tokens = [],
     db_notes = [], db_lock = None\<rparr>"

section \<open>Transactions\<close>

text \<open>The implicit \<^verbatim>\<open>BEGIN\<close> before a write, \<^verbatim>\<open>BEGIN IMMEDIATE\<close>, and \<^verbatim>\<open>commit\<close> or \<^verbatim>\<open>rollback\<close>.\<close>

definition open_write :: "nat \<Rightarrow> (sup_db, unit) proc" where
  "open_write p = (\<lambda>db. if db_lock db \<in> {None, Some p} then (Inr (), db\<lparr>db_lock := Some p\<rparr>)
     else (raise OperationalError ''database is locked'', db))"

definition begin_immediate :: "nat \<Rightarrow> (sup_db, unit) proc" where
  "begin_immediate p = (\<lambda>db.
     if db_lock db = Some p
     then (raise OperationalError ''cannot start a transaction within a transaction'', db)
     else open_write p db)"

definition close_write :: "nat \<Rightarrow> sup_db \<Rightarrow> sup_db" where
  "close_write p db = (if db_lock db = Some p then db\<lparr>db_lock := None\<rparr> else db)"

definition write_commit :: "nat \<Rightarrow> (sup_db \<Rightarrow> sup_db) \<Rightarrow> (sup_db, unit) proc" where
  "write_commit p f = thenS (open_write p) (modify (\<lambda>db. close_write p (f db)))"

section \<open>Settings\<close>

definition setting :: "sup_db \<Rightarrow> string \<Rightarrow> string \<Rightarrow> string" where
  "setting db key fallback = (case db_settings db key of None \<Rightarrow> fallback | Some v \<Rightarrow> v)"

definition ss_get :: "string \<Rightarrow> string \<Rightarrow> (sup_db, string) proc" where
  "ss_get key fallback = gets (\<lambda>db. setting db key fallback)"

definition put_setting :: "string \<Rightarrow> string \<Rightarrow> sup_db \<Rightarrow> sup_db" where
  "put_setting key v db = db\<lparr>db_settings := (db_settings db)(key \<mapsto> v)\<rparr>"

definition ss_set :: "nat \<Rightarrow> string \<Rightarrow> string \<Rightarrow> (sup_db, unit) proc" where
  "ss_set p key v = write_commit p (put_setting key v)"

definition ss_unset :: "nat \<Rightarrow> string \<Rightarrow> (sup_db, unit) proc" where
  "ss_unset p key = write_commit p (\<lambda>db. db\<lparr>db_settings := (db_settings db)(key := None)\<rparr>)"

section \<open>Events, the queue slot and the milestone\<close>

definition has_fingerprint :: "sup_db \<Rightarrow> string \<Rightarrow> bool" where
  "has_fingerprint db fp \<longleftrightarrow> fp \<in> set (map se_fingerprint (db_events db))"

definition add_event :: "string \<Rightarrow> string \<Rightarrow> json \<Rightarrow> int \<Rightarrow> sup_db \<Rightarrow> sup_db" where
  "add_event fp kind payload now db = db\<lparr>db_events := db_events db @
     [\<lparr>se_fingerprint = fp, se_kind = kind, se_payload = payload, se_created = now\<rparr>]\<rparr>"

definition ss_has_event :: "string \<Rightarrow> (sup_db, bool) proc" where
  "ss_has_event fp = gets (\<lambda>db. has_fingerprint db fp)"

text \<open>
  \<^verbatim>\<open>event\<close> returns false when the fingerprint is taken: the insert has failed, but the transaction that
  was opened for it is neither committed nor rolled back.
\<close>

definition ss_event :: "nat \<Rightarrow> int \<Rightarrow> string \<Rightarrow> string \<Rightarrow> json \<Rightarrow> (sup_db, bool) proc" where
  "ss_event p now fp kind payload =
     thenS (open_write p) (\<lambda>db.
       if has_fingerprint db fp then (Inr False, db)
       else (Inr True, close_write p (add_event fp kind payload now db)))"

definition selected_fingerprint :: "int \<Rightarrow> string \<Rightarrow> string" where
  "selected_fingerprint issue milestone =
     ''issue:'' @ emit_int issue @ '':selected:'' @ milestone"

definition claim_issue :: "nat \<Rightarrow> int \<Rightarrow> int \<Rightarrow> string \<Rightarrow> string \<Rightarrow> (sup_db, bool) proc" where
  "claim_issue p now issue title milestone =
     thenS (begin_immediate p) (\<lambda>db.
       if setting db ''current_issue'' '''' \<noteq> '''' then (Inr False, close_write p db)
       else if has_fingerprint db (selected_fingerprint issue milestone)
       then (Inr False, close_write p db)
       else (Inr True, close_write p
         (add_event (selected_fingerprint issue milestone) ''issue.selected''
           (JObj [(''issue'', JInt issue), (''milestone'', JStr milestone)]) now
           (put_setting ''current_issue_title'' (take 200 title)
             (put_setting ''current_issue'' (emit_int issue) db)))))"

definition ss_advance_milestone ::
    "nat \<Rightarrow> int \<Rightarrow> string \<Rightarrow> string \<Rightarrow> string \<Rightarrow> json \<Rightarrow> (sup_db, bool) proc" where
  "ss_advance_milestone p now expected next_one initial payload =
     thenS (begin_immediate p) (\<lambda>db.
       let fp = ''milestone:'' @ expected @ '':advanced:'' @ next_one
       in if setting db ''active_milestone'' initial \<noteq> expected
           \<or> setting db ''paused'' ''false'' = ''true''
         then (Inr False, close_write p db)
         else if has_fingerprint db fp then (Inr False, close_write p db)
         else (Inr True, close_write p (add_event fp ''milestone.rollover'' payload now
                 (put_setting ''active_milestone'' next_one db))))"

section \<open>Notifications\<close>

definition upsert_notification ::
    "nat \<Rightarrow> int \<Rightarrow> string \<Rightarrow> string \<Rightarrow> string \<Rightarrow> string \<Rightarrow> json \<Rightarrow> string \<Rightarrow> string option
       \<Rightarrow> (sup_db, sup_note \<times> bool) proc" where
  "upsert_notification p now fp kind severity message payload state bucket =
     bindS (gets (\<lambda>db. map_of (db_notes db) fp)) (\<lambda>existing.
       let (note, created) =
         (case existing of
            Some n \<Rightarrow> (n\<lparr>no_message := message, no_payload := payload,
                        no_occurrences := no_occurrences n + 1, no_updated := now\<rparr>, False)
          | None \<Rightarrow> (\<lparr>no_kind = kind, no_severity = severity, no_message = message,
                     no_payload = payload, no_bucket = bucket, no_state = state,
                     no_message_id = None, no_occurrences = 1, no_updated = now\<rparr>, True))
       in thenS (write_commit p (\<lambda>db. db\<lparr>db_notes := AList.update fp note (db_notes db)\<rparr>))
            (ret (note, created)))"

definition mark_notification ::
    "nat \<Rightarrow> int \<Rightarrow> string \<Rightarrow> string \<Rightarrow> string option \<Rightarrow> (sup_db, unit) proc" where
  "mark_notification p now fp state message_id =
     write_commit p (\<lambda>db. db\<lparr>db_notes := map (\<lambda>(k, n).
       (k, if k = fp then n\<lparr>no_state := state,
              no_message_id := (case message_id of None \<Rightarrow> no_message_id n | Some m \<Rightarrow> Some m),
              no_updated := now\<rparr> else n)) (db_notes db)\<rparr>)"

definition ss_notification :: "string \<Rightarrow> (sup_db, sup_note option) proc" where
  "ss_notification fp = gets (\<lambda>db. map_of (db_notes db) fp)"

section \<open>Approvals\<close>

definition find_approval :: "sup_db \<Rightarrow> string \<Rightarrow> sup_approval option" where
  "find_approval db i = List.find (\<lambda>a. sa_id a = i) (db_approvals db)"

definition ss_approval :: "string \<Rightarrow> (sup_db, sup_approval) proc" where
  "ss_approval i = bindS (gets (\<lambda>db. find_approval db i)) (\<lambda>a.
     case a of None \<Rightarrow> fail SupervisorError (''Unknown approval: '' @ i) | Some a \<Rightarrow> ret a)"

definition update_approval :: "string \<Rightarrow> (sup_approval \<Rightarrow> sup_approval) \<Rightarrow> sup_db \<Rightarrow> sup_db" where
  "update_approval i f db =
     db\<lparr>db_approvals := map (\<lambda>a. if sa_id a = i then f a else a) (db_approvals db)\<rparr>"

definition payload_digest :: "(string \<Rightarrow> string) \<Rightarrow> json \<Rightarrow> string" where
  "payload_digest sha payload = sha (dumps payload)"

definition create_approval ::
    "nat \<Rightarrow> (string \<Rightarrow> string) \<Rightarrow> string \<Rightarrow> int \<Rightarrow> string \<Rightarrow> json \<Rightarrow> int \<Rightarrow> (sup_db, sup_approval) proc" where
  "create_approval p sha token now action payload ttl =
     (let i = ''apr-'' @ token
      in thenS (open_write p)
        (thenS (\<lambda>db. if find_approval db i \<noteq> None
             then (raise IntegrityError ''UNIQUE constraint failed: approvals.id'', db)
             else (Inr (), close_write p (db\<lparr>db_approvals := db_approvals db @
               [\<lparr>sa_id = i, sa_action = action, sa_payload = payload,
                 sa_digest = payload_digest sha payload, sa_state = ''pending'', sa_created = now,
                 sa_expires = now + ttl, sa_decided = None, sa_by = None, sa_reason = None\<rparr>]\<rparr>)))
          (ss_approval i)))"

definition pending_rows :: "sup_db \<Rightarrow> int \<Rightarrow> (sup_approval \<Rightarrow> bool) \<Rightarrow> sup_approval list" where
  "pending_rows db now cond = sort_key (\<lambda>a. - sa_created a)
     (filter (\<lambda>a. cond a \<and> sa_state a = ''pending'' \<and> sa_expires a > now) (db_approvals db))"

definition pending_approval ::
    "(string \<Rightarrow> string) \<Rightarrow> int \<Rightarrow> string \<Rightarrow> json \<Rightarrow> (sup_db, sup_approval option) proc" where
  "pending_approval sha now action payload = gets (\<lambda>db.
     case pending_rows db now (\<lambda>a. sa_action a = action \<and> sa_digest a = payload_digest sha payload) of
       [] \<Rightarrow> None | a # _ \<Rightarrow> Some a)"

definition pending_approvals :: "int \<Rightarrow> string \<Rightarrow> (sup_db, sup_approval list) proc" where
  "pending_approvals now action = gets (\<lambda>db. pending_rows db now (\<lambda>a. sa_action a = action))"

definition superseded :: "int \<Rightarrow> string \<Rightarrow> sup_approval \<Rightarrow> sup_approval" where
  "superseded now reason a =
     a\<lparr>sa_state := ''superseded'', sa_decided := Some now, sa_reason := Some reason\<rparr>"

fun supersede_rows ::
    "nat \<Rightarrow> int \<Rightarrow> string \<Rightarrow> (sup_approval \<Rightarrow> bool result) \<Rightarrow> sup_approval list \<Rightarrow> (sup_db, int) proc" where
  "supersede_rows p now reason chosen [] = ret 0"
| "supersede_rows p now reason chosen (a # rows) =
     bindS (lift (chosen a)) (\<lambda>b.
       if b then thenS (open_write p)
              (thenS (modify (update_approval (sa_id a) (superseded now reason)))
                (bindS (supersede_rows p now reason chosen rows) (\<lambda>n. ret (n + 1))))
       else supersede_rows p now reason chosen rows)"

definition supersede ::
    "nat \<Rightarrow> int \<Rightarrow> string \<Rightarrow> (sup_approval \<Rightarrow> bool result) \<Rightarrow> (sup_db, int) proc" where
  "supersede p now reason chosen =
     bindS (pending_approvals now ''merge_pr'') (\<lambda>rows.
     bindS (supersede_rows p now reason chosen rows) (\<lambda>n.
       if n \<noteq> 0 then thenS (modify (close_write p)) (ret n) else ret n))"

definition supersede_merge_approvals :: "nat \<Rightarrow> int \<Rightarrow> int \<Rightarrow> string \<Rightarrow> (sup_db, int) proc" where
  "supersede_merge_approvals p now pull_request head_sha =
     supersede p now ''pull request head changed'' (\<lambda>a.
       case py_int (json_get (sa_payload a) ''pull_request'') (-1) of
         Inl e \<Rightarrow> Inl e
       | Inr n \<Rightarrow> Inr (n = pull_request \<and> text_of (json_get (sa_payload a) ''head_sha'') \<noteq> head_sha))"

definition supersede_approvals_for_pull_request ::
    "nat \<Rightarrow> int \<Rightarrow> int \<Rightarrow> string \<Rightarrow> (sup_db, int) proc" where
  "supersede_approvals_for_pull_request p now pull_request reason =
     supersede p now reason (\<lambda>a.
       case py_int (json_get (sa_payload a) ''pull_request'') (-1) of
         Inl e \<Rightarrow> Inl e | Inr n \<Rightarrow> Inr (n = pull_request))"

text \<open>
  \<^verbatim>\<open>decide\<close> reads the row, checks it, and writes the decision without a condition on the state, so the
  two halves are separate steps of the database.
\<close>

definition decide_read :: "string \<Rightarrow> (sup_db, sup_approval) proc" where
  "decide_read i = bindS (ss_approval i) (\<lambda>row.
     if sa_state row \<noteq> ''pending''
     then fail SupervisorError (''Approval '' @ i @ '' is already '' @ sa_state row)
     else ret row)"

definition decide_write ::
    "nat \<Rightarrow> int \<Rightarrow> sup_approval \<Rightarrow> string \<Rightarrow> string \<Rightarrow> string \<Rightarrow> (sup_db, sup_approval) proc" where
  "decide_write p now row state actor reason =
     (if sa_expires row \<le> now
      then thenS (write_commit p (update_approval (sa_id row) (\<lambda>a. a\<lparr>sa_state := ''expired''\<rparr>)))
             (fail SupervisorError (''Approval '' @ sa_id row @ '' has expired''))
      else thenS (write_commit p (update_approval (sa_id row) (\<lambda>a.
                  a\<lparr>sa_state := state, sa_decided := Some now, sa_by := Some actor,
                    sa_reason := Some reason\<rparr>)))
             (ss_approval (sa_id row)))"

definition ss_decide ::
    "nat \<Rightarrow> int \<Rightarrow> string \<Rightarrow> string \<Rightarrow> string \<Rightarrow> string \<Rightarrow> (sup_db, sup_approval) proc" where
  "ss_decide p now i state actor reason =
     bindS (decide_read i) (\<lambda>row. decide_write p now row state actor reason)"

section \<open>Callback tokens\<close>

definition find_token :: "sup_db \<Rightarrow> string \<Rightarrow> sup_token option" where
  "find_token db h = List.find (\<lambda>t. tk_hash t = h) (db_tokens db)"

definition create_callback_token ::
    "nat \<Rightarrow> (string \<Rightarrow> string) \<Rightarrow> string \<Rightarrow> int \<Rightarrow> string \<Rightarrow> int \<Rightarrow> string option \<Rightarrow> string option
       \<Rightarrow> json \<Rightarrow> (sup_db, string) proc" where
  "create_callback_token p sha token now action ttl approval actor payload =
     thenS (open_write p) (\<lambda>db.
       if find_token db (sha token) \<noteq> None
       then (raise IntegrityError ''UNIQUE constraint failed: callback_tokens.token_hash'', db)
       else if (case approval of None \<Rightarrow> False | Some i \<Rightarrow> find_approval db i = None)
       then (raise IntegrityError ''FOREIGN KEY constraint failed'', db)
       else (Inr token, close_write p (db\<lparr>db_tokens := db_tokens db @
          [\<lparr>tk_hash = sha token, tk_approval = approval, tk_action = action, tk_actor = actor,
            tk_payload = payload, tk_created = now, tk_expires = now + ttl, tk_consumed = None,
            tk_consumed_by = None\<rparr>]\<rparr>)))"

definition consume_read :: "string \<Rightarrow> int \<Rightarrow> string \<Rightarrow> (sup_db, unit) proc" where
  "consume_read h now actor = bindS (gets (\<lambda>db. find_token db h)) (\<lambda>row.
     case row of
       None \<Rightarrow> fail SupervisorError ''This action is invalid or no longer available''
     | Some t \<Rightarrow>
         if tk_consumed t \<noteq> None then fail SupervisorError ''This action was already used''
         else if tk_expires t \<le> now then fail SupervisorError ''This action has expired''
         else if (case tk_actor t of None \<Rightarrow> False | Some a \<Rightarrow> a \<noteq> actor)
         then fail SupervisorError ''This action belongs to another identity''
         else ret ())"

text \<open>
  The conditional update, with its row count, and the row it returns. \<^verbatim>\<open>with self.connection\<close> rolls back
  on every exception.
\<close>

definition consume_update :: "nat \<Rightarrow> string \<Rightarrow> int \<Rightarrow> string \<Rightarrow> (sup_db, sup_token) proc" where
  "consume_update p h now actor =
     thenS (open_write p) (\<lambda>db.
       case find_token db h of
         None \<Rightarrow> (raise SupervisorError ''This action was already used'', close_write p db)
       | Some t \<Rightarrow>
           if tk_consumed t \<noteq> None \<or> tk_expires t \<le> now
           then (raise SupervisorError ''This action was already used'', close_write p db)
           else let t' = t\<lparr>tk_consumed := Some now, tk_consumed_by := Some actor\<rparr>
                in (Inr t', close_write p (db\<lparr>db_tokens :=
                      map (\<lambda>u. if tk_hash u = h then t' else u) (db_tokens db)\<rparr>)))"

definition consume_callback_token ::
    "nat \<Rightarrow> (string \<Rightarrow> string) \<Rightarrow> int \<Rightarrow> string \<Rightarrow> string \<Rightarrow> (sup_db, sup_token) proc" where
  "consume_callback_token p sha now token actor =
     handle (thenS (consume_read (sha token) now actor) (consume_update p (sha token) now actor))
       (\<lambda>e. thenS (modify (close_write p)) (throw e))"

section \<open>Calls of several processes\<close>

text \<open>
  A call of the store, with the process that makes it; \<^verbatim>\<open>decide\<close> and \<^verbatim>\<open>consume_callback_token\<close> also by their
  writing halves, so that a list of calls is an interleaving. Calls that only read are left out.
\<close>

datatype store_call =
    CSet nat string string
  | CUnset nat string
  | CEvent nat int string string json
  | CClaim nat int int string string
  | CAdvance nat int string string string json
  | CUpsert nat int string string string string json string "string option"
  | CMark nat int string string "string option"
  | CCreate nat string int string json int
  | CSupersedeMerge nat int int string
  | CSupersedePr nat int int string
  | CDecide nat int string string string string
  | CDecideWrite nat int sup_approval string string string
  | CToken nat string int string int "string option" "string option" json
  | CConsume nat int string string
  | CConsumeUpdate nat string int string

fun run_store_call :: "(string \<Rightarrow> string) \<Rightarrow> store_call \<Rightarrow> sup_db \<Rightarrow> sup_db" where
  "run_store_call sha (CSet p k v) db = snd (ss_set p k v db)"
| "run_store_call sha (CUnset p k) db = snd (ss_unset p k db)"
| "run_store_call sha (CEvent p now fp kind payload) db = snd (ss_event p now fp kind payload db)"
| "run_store_call sha (CClaim p now issue title ms) db = snd (claim_issue p now issue title ms db)"
| "run_store_call sha (CAdvance p now x y initial payload) db =
     snd (ss_advance_milestone p now x y initial payload db)"
| "run_store_call sha (CUpsert p now fp kind severity message payload state bucket) db =
     snd (upsert_notification p now fp kind severity message payload state bucket db)"
| "run_store_call sha (CMark p now fp state m) db = snd (mark_notification p now fp state m db)"
| "run_store_call sha (CCreate p token now action payload ttl) db =
     snd (create_approval p sha token now action payload ttl db)"
| "run_store_call sha (CSupersedeMerge p now n head) db = snd (supersede_merge_approvals p now n head db)"
| "run_store_call sha (CSupersedePr p now n reason) db =
     snd (supersede_approvals_for_pull_request p now n reason db)"
| "run_store_call sha (CDecide p now i state actor reason) db = snd (ss_decide p now i state actor reason db)"
| "run_store_call sha (CDecideWrite p now row state actor reason) db =
     snd (decide_write p now row state actor reason db)"
| "run_store_call sha (CToken p token now action ttl approval actor payload) db =
     snd (create_callback_token p sha token now action ttl approval actor payload db)"
| "run_store_call sha (CConsume p now token actor) db = snd (consume_callback_token p sha now token actor db)"
| "run_store_call sha (CConsumeUpdate p h now actor) db = snd (consume_update p h now actor db)"

section \<open>What never goes back\<close>

definition burnt_token :: "sup_db \<Rightarrow> string \<Rightarrow> bool" where
  "burnt_token db h \<longleftrightarrow> (\<exists>t. find_token db h = Some t \<and> tk_consumed t \<noteq> None)"

text \<open>Consumed tokens stay consumed, and recorded fingerprints stay recorded.\<close>

definition ledger_grows :: "sup_db \<Rightarrow> sup_db \<Rightarrow> bool" where
  "ledger_grows db db' \<longleftrightarrow> (\<forall>h. burnt_token db h \<longrightarrow> burnt_token db' h)
     \<and> (\<forall>fp. has_fingerprint db fp \<longrightarrow> has_fingerprint db' fp)"

interpretation grows: evolution ledger_grows
  by unfold_locales (auto simp: ledger_grows_def)

lemma ledger_grows_same:
  "db_tokens db' = db_tokens db \<Longrightarrow> db_events db' = db_events db \<Longrightarrow> ledger_grows db db'"
  by (simp add: ledger_grows_def burnt_token_def find_token_def has_fingerprint_def)

lemma ledger_grows_events:
  "db_tokens db' = db_tokens db \<Longrightarrow> db_events db' = db_events db @ es \<Longrightarrow> ledger_grows db db'"
  by (auto simp: ledger_grows_def burnt_token_def find_token_def has_fingerprint_def)

lemma close_write_fields [simp]:
  "db_tokens (close_write p db) = db_tokens db" "db_events (close_write p db) = db_events db"
  "db_approvals (close_write p db) = db_approvals db" "db_settings (close_write p db) = db_settings db"
  "db_notes (close_write p db) = db_notes db"
  by (simp_all add: close_write_def)

lemma add_event_fields [simp]:
  "db_tokens (add_event fp kind payload now db) = db_tokens db"
  "db_settings (add_event fp kind payload now db) = db_settings db"
  "db_approvals (add_event fp kind payload now db) = db_approvals db"
  by (simp_all add: add_event_def)

lemma put_setting_fields [simp]:
  "db_tokens (put_setting k v db) = db_tokens db" "db_events (put_setting k v db) = db_events db"
  "db_approvals (put_setting k v db) = db_approvals db"
  by (simp_all add: put_setting_def)

lemma update_approval_fields [simp]:
  "db_tokens (update_approval i f db) = db_tokens db"
  "db_events (update_approval i f db) = db_events db"
  by (simp_all add: update_approval_def)

lemma find_token_close [simp]: "find_token (close_write p db) h = find_token db h"
  by (simp add: find_token_def)

lemma has_fingerprint_simps [simp]:
  "has_fingerprint (close_write p db) fp \<longleftrightarrow> has_fingerprint db fp"
  "has_fingerprint (put_setting k v db) fp \<longleftrightarrow> has_fingerprint db fp"
  "has_fingerprint (add_event fp' kind payload now db) fp \<longleftrightarrow> has_fingerprint db fp \<or> fp = fp'"
  "has_fingerprint (db\<lparr>db_lock := l\<rparr>) fp \<longleftrightarrow> has_fingerprint db fp"
  by (auto simp: has_fingerprint_def add_event_def)

lemma ev_open_write: "evolves ledger_grows (open_write p)"
  by (simp add: evolves_def open_write_def ledger_grows_same)

lemma ev_begin: "evolves ledger_grows (begin_immediate p)"
  using ev_open_write[of p] by (simp add: evolves_def begin_immediate_def ledger_grows_same)

lemma ev_write_commit:
  assumes "\<And>db. db_tokens (f db) = db_tokens db" and "\<And>db. db_events (f db) = db_events db"
  shows "evolves ledger_grows (write_commit p f)"
  unfolding write_commit_def
  by (intro grows.ev_bindS ev_open_write grows.ev_modify ledger_grows_same) (simp_all add: assms)

lemma ev_close: "evolves ledger_grows (modify (close_write p))"
  by (rule grows.ev_modify) (simp add: ledger_grows_same)

lemma ev_approval: "evolves ledger_grows (ss_approval i)"
  unfolding ss_approval_def by (intro grows.ev_rules)

lemma ev_event: "evolves ledger_grows (ss_event p now fp kind payload)"
  unfolding ss_event_def
  by (intro grows.ev_bindS ev_open_write)
    (auto simp: evolves_def add_event_def grows.R_refl intro: ledger_grows_events)

lemma ev_claim: "evolves ledger_grows (claim_issue p now issue title ms)"
  unfolding claim_issue_def
  by (intro grows.ev_bindS ev_begin)
    (auto simp: evolves_def add_event_def put_setting_def ledger_grows_same intro: ledger_grows_events)

lemma ev_advance: "evolves ledger_grows (ss_advance_milestone p now x y initial payload)"
  unfolding ss_advance_milestone_def
  by (intro grows.ev_bindS ev_begin)
    (auto simp: evolves_def Let_def add_event_def put_setting_def ledger_grows_same
      intro: ledger_grows_events)

lemma ev_upsert: "evolves ledger_grows (upsert_notification p now fp kind severity message payload state bucket)"
  unfolding upsert_notification_def
  by (intro grows.ev_bindS grows.ev_pure)
    (auto split: option.splits intro!: grows.ev_bindS grows.ev_pure ev_write_commit)

lemma ev_mark: "evolves ledger_grows (mark_notification p now fp state m)"
  unfolding mark_notification_def by (intro ev_write_commit) simp_all

lemma ev_create: "evolves ledger_grows (create_approval p sha token now action payload ttl)"
  unfolding create_approval_def Let_def
  by (intro grows.ev_bindS ev_open_write ev_approval)
    (auto simp: evolves_def ledger_grows_same grows.R_refl)

lemma ev_supersede_rows: "evolves ledger_grows (supersede_rows p now reason chosen rows)"
proof (induction rows)
  case Nil
  then show ?case unfolding supersede_rows.simps by (rule grows.ev_pure)
next
  case (Cons a rows)
  then show ?case unfolding supersede_rows.simps
    by (intro grows.ev_rules ev_open_write grows.ev_modify ledger_grows_same) simp_all
qed

lemma ev_supersede: "evolves ledger_grows (supersede p now reason chosen)"
  unfolding supersede_def pending_approvals_def
  by (intro grows.ev_rules ev_supersede_rows ev_close)

lemma ev_decide_write: "evolves ledger_grows (decide_write p now row state actor reason)"
  unfolding decide_write_def by (intro grows.ev_rules ev_write_commit ev_approval) simp_all

lemma ev_decide: "evolves ledger_grows (ss_decide p now i state actor reason)"
  unfolding ss_decide_def decide_read_def
  by (intro grows.ev_rules ev_decide_write ev_approval)

lemma find_append_token: "find_token (db\<lparr>db_tokens := db_tokens db @ ts\<rparr>) h =
    (case find_token db h of None \<Rightarrow> List.find (\<lambda>t. tk_hash t = h) ts | Some t \<Rightarrow> Some t)"
proof -
  have "List.find P (xs @ ys) = (case List.find P xs of None \<Rightarrow> List.find P ys | Some x \<Rightarrow> Some x)"
    for P :: "sup_token \<Rightarrow> bool" and xs ys by (induction xs) auto
  then show ?thesis by (simp add: find_token_def)
qed

lemma ev_token: "evolves ledger_grows (create_callback_token p sha token now action ttl approval actor payload)"
  unfolding create_callback_token_def
proof (intro grows.ev_bindS ev_open_write, unfold evolves_def, intro allI)
  fix db
  show "ledger_grows db (snd (if find_token db (sha token) \<noteq> None
       then (raise IntegrityError ''UNIQUE constraint failed: callback_tokens.token_hash'', db)
       else if (case approval of None \<Rightarrow> False | Some i \<Rightarrow> find_approval db i = None)
       then (raise IntegrityError ''FOREIGN KEY constraint failed'', db)
       else (Inr token, close_write p (db\<lparr>db_tokens := db_tokens db @
          [\<lparr>tk_hash = sha token, tk_approval = approval, tk_action = action, tk_actor = actor,
            tk_payload = payload, tk_created = now, tk_expires = now + ttl, tk_consumed = None,
            tk_consumed_by = None\<rparr>]\<rparr>))))"
    by (auto simp: ledger_grows_def burnt_token_def find_append_token has_fingerprint_def)
qed

lemma find_token_mark:
  "tk_hash t' = h \<Longrightarrow>
   find_token (db\<lparr>db_tokens := map (\<lambda>u. if tk_hash u = h then t' else u) (db_tokens db)\<rparr>) k =
     (if k = h then (case find_token db h of None \<Rightarrow> None | Some _ \<Rightarrow> Some t') else find_token db k)"
proof -
  assume t': "tk_hash t' = h"
  have "List.find (\<lambda>t. tk_hash t = k) (map (\<lambda>u. if tk_hash u = h then t' else u) ts) =
     (if k = h then (case List.find (\<lambda>t. tk_hash t = h) ts of None \<Rightarrow> None | Some _ \<Rightarrow> Some t')
      else List.find (\<lambda>t. tk_hash t = k) ts)" for ts
    using t' by (induction ts) auto
  then show ?thesis by (simp add: find_token_def)
qed

lemma find_token_hash: "find_token db h = Some t \<Longrightarrow> tk_hash t = h"
  by (auto simp: find_token_def find_Some_iff)

lemma ev_consume_update: "evolves ledger_grows (consume_update p h now actor)"
  unfolding consume_update_def
  by (intro grows.ev_bindS ev_open_write)
    (auto simp: evolves_def ledger_grows_same ledger_grows_def burnt_token_def Let_def find_token_mark
      find_token_hash has_fingerprint_def split: option.splits)

lemma ev_consume: "evolves ledger_grows (consume_callback_token p sha now token actor)"
  unfolding consume_callback_token_def consume_read_def
  by (intro grows.ev_rules ev_consume_update ev_close)

lemma run_store_call_grows: "ledger_grows db (run_store_call sha c db)"
proof -
  have snd_ev: "evolves ledger_grows m \<Longrightarrow> ledger_grows db (snd (m db))" for m :: "(sup_db, 'a) proc"
    by (simp add: evolves_def)
  have "evolves ledger_grows (ss_set p k v)" "evolves ledger_grows (ss_unset p k)" for p k v
    unfolding ss_set_def ss_unset_def by (rule ev_write_commit; simp)+
  note set_rules = this[THEN snd_ev]
  show ?thesis
    by (cases c; simp only: run_store_call.simps supersede_merge_approvals_def
          supersede_approvals_for_pull_request_def; intro set_rules snd_ev ev_event ev_claim ev_advance
          ev_upsert ev_mark ev_create ev_supersede ev_decide ev_decide_write ev_token ev_consume
          ev_consume_update)
qed

section \<open>Rows\<close>

lemma find_approval_id: "find_approval db i = Some a \<Longrightarrow> sa_id a = i"
  by (auto simp: find_approval_def find_Some_iff)

lemma find_update_approval:
  assumes "find_approval db i = Some a" and "\<And>b. sa_id (f b) = sa_id b"
  shows "find_approval (update_approval i f db) i = Some (f a)"
proof -
  have "List.find (\<lambda>a. sa_id a = i) (map (\<lambda>a. if sa_id a = i then f a else a) as)
      = map_option f (List.find (\<lambda>a. sa_id a = i) as)" for as
    using assms(2) by (induction as) auto
  with assms(1) show ?thesis by (simp add: find_approval_def update_approval_def)
qed

section \<open>Tokens and queue claims are spent once\<close>

lemma db_lock_simps [simp]:
  "db_lock (add_event fp kind payload now db) = db_lock db"
  "db_lock (put_setting k v db) = db_lock db" "db_lock (update_approval i f db) = db_lock db"
  by (simp_all add: add_event_def put_setting_def update_approval_def)

lemma commit_update:
  "db_lock db = None \<Longrightarrow> write_commit p (update_approval i f) db = (Inr (), update_approval i f db)"
  by (cases db) (simp add: write_commit_def bindS_def open_write_def close_write_def update_approval_def)

lemma open_write_run:
  "open_write p db = (if db_lock db \<in> {None, Some p} then (Inr (), db\<lparr>db_lock := Some p\<rparr>)
     else (raise OperationalError ''database is locked'', db))"
  by (simp add: open_write_def)

lemma find_token_lock [simp]: "find_token (db\<lparr>db_lock := l\<rparr>) h = find_token db h"
  by (simp add: find_token_def)

lemma consume_update_Inr:
  assumes "consume_update p h now actor db = (Inr t', db')"
  obtains t where "find_token db h = Some t" and "tk_consumed t = None" and "now < tk_expires t"
    and "t' = t\<lparr>tk_consumed := Some now, tk_consumed_by := Some actor\<rparr>"
    and "find_token db' h = Some t'"
proof -
  from assms obtain t where t: "find_token db h = Some t" "tk_consumed t = None" "now < tk_expires t"
    "t' = t\<lparr>tk_consumed := Some now, tk_consumed_by := Some actor\<rparr>"
    and db': "db' = close_write p (db\<lparr>db_lock := Some p,
       db_tokens := map (\<lambda>u. if tk_hash u = h then t' else u) (db_tokens db)\<rparr>)"
    by (auto simp: consume_update_def bindS_def open_write_run Let_def split: option.splits if_splits)
  have "tk_hash t' = h" using t(4) find_token_hash[OF t(1)] by simp
  from find_token_mark[OF this, of "db\<lparr>db_lock := Some p\<rparr>" h] t(1) db'
  have "find_token db' h = Some t'" by simp
  with t show thesis by (rule that)
qed

lemma consume_callback_token_Inr:
  assumes "consume_callback_token p sha now token actor db = (Inr t', db')"
  obtains t where "find_token db (sha token) = Some t" and "tk_consumed t = None"
    and "now < tk_expires t" and "tk_actor t \<in> {None, Some actor}"
    and "t' = t\<lparr>tk_consumed := Some now, tk_consumed_by := Some actor\<rparr>"
    and "find_token db' (sha token) = Some t'"
proof -
  from assms obtain db1 where rd: "consume_read (sha token) now actor db = (Inr (), db1)"
    and up: "consume_update p (sha token) now actor db1 = (Inr t', db')"
    by (auto simp: consume_callback_token_def runs)
  have db1: "db1 = db \<and> (\<forall>t. find_token db (sha token) = Some t \<longrightarrow> tk_actor t \<in> {None, Some actor})"
    using rd by (auto simp: consume_read_def bindS_def split: option.splits if_splits)
  show thesis
    by (rule consume_update_Inr[OF up]) (use db1 that in auto)
qed

fun token_spends :: "(string \<Rightarrow> string) \<Rightarrow> store_call \<Rightarrow> sup_db \<Rightarrow> string \<Rightarrow> bool" where
  "token_spends sha (CConsume p now token actor) db h \<longleftrightarrow>
     h = sha token \<and> \<not> isl (fst (consume_callback_token p sha now token actor db))"
| "token_spends sha (CConsumeUpdate p k now actor) db h \<longleftrightarrow>
     h = k \<and> \<not> isl (fst (consume_update p k now actor db))"
| "token_spends sha _ db h \<longleftrightarrow> False"

lemma not_isl_fst: "\<not> isl (fst x) \<Longrightarrow> \<exists>y s. x = (Inr y, s)"
  by (cases x; cases "fst x") auto

lemma token_spends_facts:
  "token_spends sha c db h \<Longrightarrow> \<not> burnt_token db h \<and> burnt_token (run_store_call sha c db) h"
proof (cases c)
  case (CConsume p now token actor)
  assume "token_spends sha c db h"
  then obtain t' db' where run: "consume_callback_token p sha now token actor db = (Inr t', db')"
    and h: "h = sha token" using CConsume not_isl_fst by fastforce
  show ?thesis by (rule consume_callback_token_Inr[OF run]) (use CConsume h run in \<open>auto simp: burnt_token_def\<close>)
next
  case (CConsumeUpdate p k now actor)
  assume "token_spends sha c db h"
  then obtain t' db' where run: "consume_update p k now actor db = (Inr t', db')" and h: "h = k"
    using CConsumeUpdate not_isl_fst by fastforce
  show ?thesis by (rule consume_update_Inr[OF run]) (use CConsumeUpdate h run in \<open>auto simp: burnt_token_def\<close>)
qed simp_all

interpretation tokens: single_use_ledger "run_store_call sha" "\<lambda>_. True" "token_spends sha" burnt_token for sha
  by unfold_locales (use token_spends_facts run_store_call_grows in \<open>auto simp: ledger_grows_def\<close>)

fun claim_spends :: "(string \<Rightarrow> string) \<Rightarrow> store_call \<Rightarrow> sup_db \<Rightarrow> int \<times> string \<Rightarrow> bool" where
  "claim_spends sha (CClaim p now issue title ms) db k \<longleftrightarrow>
     k = (issue, ms) \<and> fst (claim_issue p now issue title ms db) = Inr True"
| "claim_spends sha _ db k \<longleftrightarrow> False"

definition burnt_claim :: "sup_db \<Rightarrow> int \<times> string \<Rightarrow> bool" where
  "burnt_claim db k \<longleftrightarrow> has_fingerprint db (selected_fingerprint (fst k) (snd k))"

lemma setting_simps [simp]:
  "setting (db\<lparr>db_lock := l\<rparr>) k d = setting db k d" "setting (close_write p db) k d = setting db k d"
  "setting (add_event fp kind payload now db) k d = setting db k d"
  "setting (put_setting k' v db) k d = (if k = k' then v else setting db k d)"
  by (simp_all add: setting_def put_setting_def)

lemma claim_issue_run:
  "claim_issue p now issue title ms db =
     (if db_lock db = Some p
      then (raise OperationalError ''cannot start a transaction within a transaction'', db)
      else if db_lock db \<noteq> None then (raise OperationalError ''database is locked'', db)
      else if setting db ''current_issue'' '''' \<noteq> '''' \<or> has_fingerprint db (selected_fingerprint issue ms)
      then (Inr False, db)
      else (Inr True, add_event (selected_fingerprint issue ms) ''issue.selected''
           (JObj [(''issue'', JInt issue), (''milestone'', JStr ms)]) now
           (put_setting ''current_issue_title'' (take 200 title)
             (put_setting ''current_issue'' (emit_int issue) db))))"
proof -
  have "db\<lparr>db_lock := None\<rparr> = db" if "db_lock db = None" using that by (cases db) simp
  then show ?thesis
    by (auto simp: claim_issue_def bindS_def begin_immediate_def open_write_def close_write_def
        add_event_def put_setting_def)
qed

interpretation claims: single_use_ledger "run_store_call sha" "\<lambda>_. True" "claim_spends sha" burnt_claim for sha
proof (unfold_locales, goal_cases)
  case (1 c db k)
  then show ?case by (cases c) (auto simp: claim_issue_run burnt_claim_def split: if_splits)
next
  case (2 c db k)
  then show ?case using run_store_call_grows[of db sha c] by (simp add: burnt_claim_def ledger_grows_def)
next
  case (3 c db k)
  then show ?case by (cases c) (auto simp: claim_issue_run burnt_claim_def split: if_splits)
qed

section \<open>Properties\<close>

text \<open>
  C17. A callback token works once. In every interleaving of calls of any processes at most one
  consumption of a token succeeds, also when several processes have passed the checks before any of
  them writes; and a consumption that succeeds was of a known token, not consumed before, unexpired and
  bound to no other identity, which is consumed afterwards.
\<close>

theorem callback_token_single_use:
  "spend_count (run_store_call sha) (token_spends sha) calls db h \<le> 1
   \<and> (case consume_callback_token p sha now token actor db of
        (Inr t', db') \<Rightarrow> \<exists>t. find_token db (sha token) = Some t \<and> tk_consumed t = None
          \<and> now < tk_expires t \<and> tk_actor t \<in> {None, Some actor} \<and> burnt_token db' (sha token)
      | (Inl e, db') \<Rightarrow> db_tokens db' = db_tokens db)"
proof
  show "spend_count (run_store_call sha) (token_spends sha) calls db h \<le> 1"
    by (rule tokens.spent_at_most_once) (simp add: list_all_iff)
  obtain r db' where run: "consume_callback_token p sha now token actor db = (r, db')" by (meson surj_pair)
  show "case consume_callback_token p sha now token actor db of
        (Inr t', db') \<Rightarrow> \<exists>t. find_token db (sha token) = Some t \<and> tk_consumed t = None
          \<and> now < tk_expires t \<and> tk_actor t \<in> {None, Some actor} \<and> burnt_token db' (sha token)
      | (Inl e, db') \<Rightarrow> db_tokens db' = db_tokens db"
  proof (cases r)
    case (Inl e)
    then show ?thesis using run
      by (auto simp: consume_callback_token_def consume_read_def consume_update_def handle_def bindS_def
          open_write_run Let_def split: option.splits if_splits)
  next
    case (Inr t')
    show ?thesis
      by (rule consume_callback_token_Inr[OF run[unfolded Inr]])
        (use run Inr in \<open>auto simp: burnt_token_def\<close>)
  qed
qed

text \<open>
  The queue slot is claimed exclusively. In every interleaving of calls an issue is claimed at most
  once for a milestone; a claim succeeds exactly when no other issue is current and the issue was never
  selected for the milestone, and then it is current and its selection recorded in one transaction;
  a claim that does not succeed changes nothing.
\<close>

theorem queue_claim_exclusive:
  "spend_count (run_store_call sha) (claim_spends sha) calls db (issue, milestone) \<le> 1
   \<and> (case claim_issue p now issue title milestone db of
        (Inr True, db') \<Rightarrow> db_lock db = None \<and> setting db ''current_issue'' '''' = ''''
          \<and> \<not> has_fingerprint db (selected_fingerprint issue milestone)
          \<and> setting db' ''current_issue'' '''' = emit_int issue
          \<and> has_fingerprint db' (selected_fingerprint issue milestone) \<and> db_lock db' = None
      | (Inr False, db') \<Rightarrow> db' = db \<and> \<not> (setting db ''current_issue'' '''' = ''''
          \<and> \<not> has_fingerprint db (selected_fingerprint issue milestone))
      | (Inl e, db') \<Rightarrow> db' = db \<and> db_lock db \<noteq> None \<and> exn_cls e = OperationalError)"
proof
  show "spend_count (run_store_call sha) (claim_spends sha) calls db (issue, milestone) \<le> 1"
    by (rule claims.spent_at_most_once) (simp add: list_all_iff)
qed (simp add: claim_issue_run)

text \<open>
  A decision is not protected. Two processes that both read a pending approval before either
  writes both succeed: the first is told that the approval is rejected, the second that it is approved,
  and approved is what remains. The update has no condition on the state.
\<close>

theorem decisions_can_cross:
  assumes "find_approval db i = Some a" and "sa_state a = ''pending''" and "now < sa_expires a"
    and "db_lock db = None"
  shows "\<exists>r1 db1 r2 db2. decide_read i db = (Inr a, db)
    \<and> decide_write 1 now a ''rejected'' user1 reason1 db = (Inr r1, db1) \<and> sa_state r1 = ''rejected''
    \<and> decide_write 2 now a ''approved'' user2 reason2 db1 = (Inr r2, db2) \<and> sa_state r2 = ''approved''
    \<and> find_approval db2 i = Some r2"
proof -
  let ?f = "\<lambda>st u r a. a\<lparr>sa_state := st, sa_decided := Some now, sa_by := Some u, sa_reason := Some r\<rparr>"
  have i: "sa_id a = i" using find_approval_id[OF assms(1)] .
  let ?db1 = "update_approval i (?f ''rejected'' user1 reason1) db"
  let ?db2 = "update_approval i (?f ''approved'' user2 reason2) ?db1"
  have f1: "find_approval ?db1 i = Some (?f ''rejected'' user1 reason1 a)"
    using find_update_approval[OF assms(1)] by simp
  have f2: "find_approval ?db2 i = Some (?f ''approved'' user2 reason2 a)"
    using find_update_approval[OF f1, where f = "?f ''approved'' user2 reason2"] by simp
  have "decide_read i db = (Inr a, db)"
    using assms(1,2) by (simp add: decide_read_def ss_approval_def bindS_def)
  moreover have "decide_write 1 now a ''rejected'' user1 reason1 db
      = (Inr (?f ''rejected'' user1 reason1 a), ?db1)"
    using assms(3,4) f1 i by (simp add: decide_write_def commit_update ss_approval_def bindS_def)
  moreover have "decide_write 2 now a ''approved'' user2 reason2 ?db1
      = (Inr (?f ''approved'' user2 reason2 a), ?db2)"
    using assms(3,4) f2 i by (simp add: decide_write_def commit_update ss_approval_def bindS_def)
  ultimately show ?thesis using f2 by auto
qed

definition demo_db_row :: sup_approval where
  "demo_db_row = \<lparr>sa_id = ''apr-1'', sa_action = ''merge_pr'', sa_payload = JObj [],
     sa_digest = ''d'', sa_state = ''pending'', sa_created = 0, sa_expires = 10, sa_decided = None,
     sa_by = None, sa_reason = None\<rparr>"

theorem decisions_can_cross_witness:
  "\<exists>r1 db1 r2 db2.
    decide_read ''apr-1'' (empty_db\<lparr>db_approvals := [demo_db_row]\<rparr>)
      = (Inr demo_db_row, empty_db\<lparr>db_approvals := [demo_db_row]\<rparr>)
    \<and> decide_write 1 5 demo_db_row ''rejected'' ''ann'' ''no'' (empty_db\<lparr>db_approvals := [demo_db_row]\<rparr>)
      = (Inr r1, db1) \<and> sa_state r1 = ''rejected''
    \<and> decide_write 2 5 demo_db_row ''approved'' ''bot'' '''' db1 = (Inr r2, db2)
    \<and> sa_state r2 = ''approved'' \<and> find_approval db2 ''apr-1'' = Some r2"
  by (rule decisions_can_cross) (simp_all add: demo_db_row_def empty_db_def find_approval_def)

text \<open>
  A repeated event keeps the database locked. Recording an event whose fingerprint is taken answers
  false but leaves the transaction open: until the process commits something, every write of another
  process fails, and the process's own claim of an issue fails too.
\<close>

theorem repeated_event_keeps_lock:
  assumes "has_fingerprint db fp" and "db_lock db = None" and "q \<noteq> p"
  shows "\<exists>db'. ss_event p now fp kind payload db = (Inr False, db')
    \<and> ss_set q k v db' = (raise OperationalError ''database is locked'', db')
    \<and> fst (consume_update q h now' actor db') = raise OperationalError ''database is locked''
    \<and> fst (claim_issue p now' issue title milestone db')
        = raise OperationalError ''cannot start a transaction within a transaction''
    \<and> db_lock (snd (ss_set p k v db')) = None"
  using assms
  by (intro exI[of _ "db\<lparr>db_lock := Some p\<rparr>"])
    (simp add: ss_event_def bindS_def open_write_run ss_set_def write_commit_def consume_update_def
      claim_issue_run close_write_def put_setting_def)

theorem repeated_event_keeps_lock_witness:
  "\<exists>db'. ss_event 1 5 ''milestone:M1:complete'' ''milestone.complete'' JNull
       (add_event ''milestone:M1:complete'' ''milestone.complete'' JNull 0 empty_db) = (Inr False, db')
    \<and> ss_set 2 ''paused'' ''true'' db' = (raise OperationalError ''database is locked'', db')
    \<and> fst (consume_update 2 ''h'' 6 ''ann'' db') = raise OperationalError ''database is locked''
    \<and> fst (claim_issue 1 6 7 ''title'' ''M1'' db')
        = raise OperationalError ''cannot start a transaction within a transaction''
    \<and> db_lock (snd (ss_set 1 ''paused'' ''true'' db')) = None"
  by (rule repeated_event_keeps_lock) (simp_all add: empty_db_def)

end
