(* ===== verification/SupPolicy.thy ===== *)
theory SupPolicy
  imports SupStore Autonomy Sanitize
begin

text \<open>
  The policy side of \<^verbatim>\<open>Supervisor\<close> in \<^verbatim>\<open>supervisor/fortify_supervisor.py\<close>: adopting and attesting the
  autonomy policy, ending an expired lease, the configuration state that the processes agree on, and the
  notifications all of this sends. The supervisor's state is the shared database, its own copy of the
  policy, the directory of the policy file and the number of external calls made so far. External
  services (GitHub, Telegram) answer each call by its number; the clock, in whole seconds, is a function
  of the same number, so that time passes during external calls. The time zone database and the reading
  of JSON texts are parameters.
\<close>

section \<open>Configuration\<close>

record note_prefs =
  np_mode :: string
  np_quiet_start :: string
  np_quiet_end :: string
  np_digest_hour :: int
  np_digest_minute :: int

record sup_config =
  cf_repository :: string
  cf_milestone :: string
  cf_milestones :: "string list"
  cf_poll_seconds :: int
  cf_ttl :: int
  cf_policy_file :: bool
  cf_required_checks :: "string list"
  cf_runner :: bool
  cf_notifications :: note_prefs

record sup_env =
  sv_config :: sup_config
  sv_process :: nat
  sv_user :: string
  sv_clock :: "nat \<Rightarrow> int"
  sv_policy_env :: policy_env
  sv_io_fails :: "nat \<Rightarrow> io_step \<Rightarrow> bool"
  sv_loads :: "string \<Rightarrow> json option"
  sv_sha256 :: "string \<Rightarrow> string"
  sv_random :: "nat \<Rightarrow> string"
  sv_local_minute :: "int \<Rightarrow> int"
  sv_local_day :: "int \<Rightarrow> int"
  sv_day_text :: "int \<Rightarrow> string"
  sv_send :: "nat \<Rightarrow> string \<Rightarrow> string result"
  sv_edit :: "nat \<Rightarrow> string \<Rightarrow> string \<Rightarrow> unit result"

datatype gh_action = Ready int | Merge int string | CloseIssue int | StartRunner int | StopRunner int
  | FailureIssue string string

record sup_state =
  sv_db :: sup_db
  sv_policy :: policy
  sv_dir :: policy_dir
  sv_calls :: nat
  sv_log :: "gh_action list"

definition on_db :: "(sup_db, 'a) proc \<Rightarrow> (sup_state, 'a) proc" where
  "on_db m = (\<lambda>s. case m (sv_db s) of (r, db) \<Rightarrow> (r, s\<lparr>sv_db := db\<rparr>))"

definition external :: "(nat \<Rightarrow> 'a result) \<Rightarrow> (sup_state, 'a) proc" where
  "external f = (\<lambda>s. (f (sv_calls s), s\<lparr>sv_calls := sv_calls s + 1\<rparr>))"

definition sv_now :: "sup_env \<Rightarrow> sup_state \<Rightarrow> int" where
  "sv_now env s = sv_clock env (sv_calls s)"

definition get_setting :: "string \<Rightarrow> string \<Rightarrow> (sup_state, string) proc" where
  "get_setting key fallback = on_db (ss_get key fallback)"

definition set_setting :: "sup_env \<Rightarrow> string \<Rightarrow> string \<Rightarrow> (sup_state, unit) proc" where
  "set_setting env key v = on_db (ss_set (sv_process env) key v)"

definition record_event_once ::
    "sup_env \<Rightarrow> string \<Rightarrow> string \<Rightarrow> json \<Rightarrow> (sup_state, bool) proc" where
  "record_event_once env fp kind payload =
     bindS (gets (sv_now env)) (\<lambda>now. on_db (ss_event (sv_process env) now fp kind payload))"

section \<open>Delivery preferences\<close>

text \<open>\<^verbatim>\<open>int(value) for value in "HH:MM".split(":")\<close>, as minutes.\<close>

definition clock_minutes :: "string \<Rightarrow> int" where
  "clock_minutes s =
     (let h = takeWhile (\<lambda>c. c \<noteq> CHR '':'') s; m = drop (Suc (length h)) s
      in int (digits_value h) * 60 + int (digits_value m))"

definition quiet :: "sup_env \<Rightarrow> int \<Rightarrow> bool" where
  "quiet env now =
     (let prefs = cf_notifications (sv_config env)
      in if np_quiet_start prefs = [] then False
         else let minute = sv_local_minute env now; start = clock_minutes (np_quiet_start prefs);
                  end_minute = clock_minutes (np_quiet_end prefs)
              in if start = end_minute then True
                 else if start < end_minute then start \<le> minute \<and> minute < end_minute
                 else minute \<ge> start \<or> minute < end_minute)"

definition digest_bucket :: "sup_env \<Rightarrow> int \<Rightarrow> string" where
  "digest_bucket env now =
     (let prefs = cf_notifications (sv_config env);
          boundary = np_digest_hour prefs * 60 + np_digest_minute prefs
      in sv_day_text env (if sv_local_minute env now < boundary then sv_local_day env now - 1
                          else sv_local_day env now))"

section \<open>Diagnostics\<close>

definition FORBIDDEN_KEYS :: "string list" where
  "FORBIDDEN_KEYS =
     [''log'', ''logs'', ''raw'', ''path'', ''token'', ''secret'', ''credential'', ''authorization'']"

definition forbidden_key :: "string \<Rightarrow> bool" where
  "forbidden_key k =
     (let normalized = map (\<lambda>c. if c = CHR ''_'' then CHR ''-'' else to_lower c) k
      in list_ex (\<lambda>f. re_search (lit f) None normalized) FORBIDDEN_KEYS)"

definition not_space :: rx where
  "not_space = some1 (\<lambda>c. \<not> is_space c)"

definition SECRET_PHRASE :: rx where
  "SECRET_PHRASE = Seq (Group1 (alts [lit ''bearer'', lit ''token'', lit ''password'', lit ''secret'']))
     (Seq (Many is_space) (Seq (One (\<lambda>c. c \<in> set '':= '')) (Seq (Many is_space) not_space)))"

definition PROTECTED_PATH :: rx where
  "PROTECTED_PATH = Seq (alts [exact ''/home'', exact ''/etc'', exact ''/var'',
       exact ''/run'', exact ''~'']) (Seq (One (\<lambda>c. c = CHR ''/'')) not_space)"

definition diagnostic_text :: "string \<Rightarrow> nat \<Rightarrow> string" where
  "diagnostic_text s limit =
     (let line = map (\<lambda>c. if code c \<in> {10, 13} then CHR '' '' else c) s;
          hidden = re_sub SECRET_PHRASE
            (\<lambda>g. (case g of None \<Rightarrow> [] | Some w \<Rightarrow> w) @ ''=[redacted]'') None line
      in take limit (re_sub PROTECTED_PATH (\<lambda>_. ''[protected-path]'') None hidden))"

fun sanitize_diagnostics :: "nat \<Rightarrow> json \<Rightarrow> json"
  and diagnostic_items :: "nat \<Rightarrow> nat \<Rightarrow> json list \<Rightarrow> json list"
  and diagnostic_members :: "nat \<Rightarrow> nat \<Rightarrow> (string \<times> json) list \<Rightarrow> (string \<times> json) list" where
  "sanitize_diagnostics limit (JObj ms) =
     JObj (foldl (\<lambda>d (k, v). AList.update k v d) [] (diagnostic_members limit 12 ms))"
| "sanitize_diagnostics limit (JList xs) = JList (diagnostic_items limit 8 xs)"
| "sanitize_diagnostics limit (JStr s) = JStr (diagnostic_text s limit)"
| "sanitize_diagnostics limit v = v"
| "diagnostic_items limit 0 xs = []"
| "diagnostic_items limit n [] = []"
| "diagnostic_items limit (Suc n) (x # xs) =
     sanitize_diagnostics limit x # diagnostic_items limit n xs"
| "diagnostic_members limit 0 ms = []"
| "diagnostic_members limit n [] = []"
| "diagnostic_members limit (Suc n) ((k, v) # ms) =
     (if forbidden_key k then diagnostic_members limit n ms
      else (take 40 k, sanitize_diagnostics limit v) # diagnostic_members limit n ms)"

section \<open>Notifications\<close>

definition deferred :: "sup_env \<Rightarrow> int \<Rightarrow> string \<Rightarrow> bool \<Rightarrow> bool" where
  "deferred env now severity meaningful \<longleftrightarrow>
     quiet env now \<and> \<not> meaningful
     \<or> np_mode (cf_notifications (sv_config env)) = ''failures'' \<and> severity \<noteq> ''failure''
       \<and> \<not> meaningful"

definition send_and_mark ::
    "sup_env \<Rightarrow> string \<Rightarrow> string \<Rightarrow> bool \<Rightarrow> (sup_state, unit) proc" where
  "send_and_mark env fp rendered meaningful =
     bindS (external (\<lambda>n. sv_send env n rendered)) (\<lambda>reference.
     bindS (gets (sv_now env)) (\<lambda>now.
     thenS (on_db (mark_notification (sv_process env) now fp ''delivered'' (Some reference)))
       (if meaningful then set_setting env ''last_meaningful_notification'' (emit_int now) else ret ())))"

definition deliver ::
    "sup_env \<Rightarrow> string \<Rightarrow> sup_note \<Rightarrow> bool \<Rightarrow> bool \<Rightarrow> (sup_state, unit) proc" where
  "deliver env fp row created meaningful =
     (let rendered = no_message row @
            (if no_occurrences row > 1
             then CHR 0x0A # ''Occurrences: '' @ emit_int (no_occurrences row) else [])
      in case no_message_id row of
           Some (c # cs) \<Rightarrow> external (\<lambda>n. sv_edit env n (c # cs) rendered)
         | _ \<Rightarrow> if created \<or> no_state row = ''pending''
             then send_and_mark env fp rendered meaningful else ret ())"

definition notify_once ::
    "sup_env \<Rightarrow> string \<Rightarrow> string \<Rightarrow> string \<Rightarrow> json \<Rightarrow> string \<Rightarrow> bool \<Rightarrow> (sup_state, unit) proc" where
  "notify_once env fp kind message payload severity meaningful =
     (let sanitized = (case sanitize_diagnostics 120 payload of JObj ms \<Rightarrow> JObj ms | _ \<Rightarrow> JObj [])
      in bindS (gets (sv_now env)) (\<lambda>now.
         let late = deferred env now severity meaningful
         in bindS (on_db (upsert_notification (sv_process env) now fp kind severity
                    (diagnostic_text message 500) sanitized (if late then ''digest'' else ''pending'')
                    (if late then Some (digest_bucket env now) else None)))
              (\<lambda>(row, created).
            thenS (record_event_once env fp kind sanitized)
              (if late then ret ()
               else handle (deliver env fp row created meaningful) (\<lambda>e.
                 if catches [SupervisorError] e
                 then bindS (gets (sv_now env)) (\<lambda>t.
                      thenS (on_db (mark_notification (sv_process env) t fp ''pending'' None))
                     (thenS (record_event_once env (''delivery:'' @ fp @ '':'' @ emit_int t)
                              ''communications.delivery_failed''
                              (JObj [(''fingerprint'', JStr fp), (''provider'', JStr ''telegram'')]))
                        (ret ())))
                 else throw e)))))"

section \<open>The policy\<close>

definition sup_policy_decision :: "string \<Rightarrow> (sup_state, string) proc" where
  "sup_policy_decision action = (\<lambda>s.
     case policy_decision (sv_policy s) action of
       Inl e \<Rightarrow> if catches [AutonomyPolicyError] e then (raise SupervisorError (exn_msg e), s)
                else (Inl e, s)
     | Inr d \<Rightarrow> (Inr d, s))"

definition audit_policy :: "sup_env \<Rightarrow> (sup_state, unit) proc" where
  "audit_policy env =
     bindS (get_setting ''autonomy_policy_digest'' '''') (\<lambda>digest.
     bindS (get_setting ''autonomy_policy_generation'' '''') (\<lambda>generation.
     bindS (gets sv_policy) (\<lambda>pol.
       if digest = ep_digest pol \<and> generation = emit_int (ep_generation pol) then ret ()
       else thenS (record_event_once env
              (''autonomy-policy:'' @ emit_int (ep_generation pol) @ '':'' @ ep_digest pol)
              ''autonomy.policy_changed''
              (JObj [(''profile'', JStr (ep_profile pol)), (''generation'', JInt (ep_generation pol)),
                (''digest'', JStr (ep_digest pol)),
                (''previous_digest'', if digest = [] then JNull else JStr digest),
                (''previous_generation'',
                  if generation \<noteq> [] \<and> list_all is_digit generation
                  then JInt (int (digits_value generation)) else JNull)]))
           (thenS (set_setting env ''autonomy_policy_digest'' (ep_digest pol))
             (set_setting env ''autonomy_policy_generation'' (emit_int (ep_generation pol)))))))"

definition run_replace_policy ::
    "sup_env \<Rightarrow> string \<Rightarrow> int \<Rightarrow> string option \<Rightarrow> (sup_state, policy) proc" where
  "run_replace_policy env profile generation expires = (\<lambda>s.
     case replace_policy (sv_policy_env env) (sv_io_fails env (sv_calls s)) profile generation expires
            (seconds (sv_now env s)) (sv_dir s) of
       (r, d) \<Rightarrow> (r, s\<lparr>sv_dir := d\<rparr>))"

definition lease_expiry :: "sup_env \<Rightarrow> policy \<Rightarrow> instant option result" where
  "lease_expiry env pol =
     (case ep_expires pol of
        None \<Rightarrow> Inr None
      | Some t \<Rightarrow>
          if t = [] then Inr None
          else case parse_z (pe_texts (sv_policy_env env)) t of
            None \<Rightarrow> raise PyValueError ''Invalid isoformat string''
          | Some (Naive _) \<Rightarrow> raise PyTypeError ''can't compare offset-naive and offset-aware datetimes''
          | Some (Aware e) \<Rightarrow> Inr (Some e))"

definition expired_payload :: "policy \<Rightarrow> policy \<Rightarrow> json" where
  "expired_payload old new = JObj
     [(''expired_profile'', JStr (ep_profile old)), (''expired_generation'', JInt (ep_generation old)),
      (''expired_at'', JStr (case ep_expires old of None \<Rightarrow> [] | Some t \<Rightarrow> t)),
      (''profile'', JStr ''assisted''), (''generation'', JInt (ep_generation new))]"

definition announce_reversion :: "sup_env \<Rightarrow> policy \<Rightarrow> policy \<Rightarrow> (sup_state, unit) proc" where
  "announce_reversion env old new =
     (let expired_at = (case ep_expires old of None \<Rightarrow> [] | Some t \<Rightarrow> t)
      in thenS (notify_once env
             (''autonomy:expiry:'' @ emit_int (ep_generation old) @ '':'' @ expired_at)
             ''autonomy.lease_expired''
             (''Autonomous lease expired at '' @ expired_at @ ''.'') (expired_payload old new)
             ''info'' True)
           (notify_once env (''autonomy:reverted:'' @ emit_int (ep_generation new))
             ''autonomy.reverted''
             ''Autonomy reverted to Assisted; automatic PR merging is disabled.''
             (expired_payload old new) ''info'' True))"

definition revert_expired_lease :: "sup_env \<Rightarrow> (sup_state, bool) proc" where
  "revert_expired_lease env =
     bindS (gets sv_policy) (\<lambda>old.
     bindS (lift (lease_expiry env old)) (\<lambda>expiry.
     bindS (gets (sv_now env)) (\<lambda>now.
       case expiry of
         None \<Rightarrow> ret False
       | Some e \<Rightarrow>
           if e > seconds now then ret False
           else if \<not> cf_policy_file (sv_config env)
           then thenS (set_setting env ''autonomy_configuration_state'' ''expired-lease'')
                  (fail SupervisorError ''autonomous lease expired; Assisted reversion unavailable'')
           else bindS (handle (run_replace_policy env ''assisted'' (ep_generation old + 1) None) (\<lambda>ex.
                  if catches [AutonomyPolicyError] ex
                  then thenS (set_setting env ''autonomy_configuration_state'' ''expired-lease'')
                    (fail SupervisorError ''autonomous lease expired; Assisted reversion failed'')
                  else throw ex)) (\<lambda>new.
             thenS (modify (\<lambda>s. s\<lparr>sv_policy := new\<rparr>))
            (thenS (audit_policy env)
            (thenS (set_setting env ''autonomy_configuration_state'' ''active'')
            (thenS (announce_reversion env old new) (ret True))))))))"

definition load_current_policy :: "sup_env \<Rightarrow> (sup_state, policy) proc" where
  "load_current_policy env = (\<lambda>s.
     (load_policy (sv_policy_env env)
        (if cf_policy_file (sv_config env) then Some (pd_file (sv_dir s)) else None)
        (seconds (sv_now env s)) True, s))"

definition attestation :: "policy \<Rightarrow> int \<Rightarrow> string" where
  "attestation pol now = dumps (JObj
     [(''generation'', JInt (ep_generation pol)), (''digest'', JStr (ep_digest pol)),
      (''updated_at'', JInt now)])"

definition reload_policy :: "sup_env \<Rightarrow> string \<Rightarrow> (sup_state, unit) proc" where
  "reload_policy env role =
     bindS (handle (load_current_policy env) (\<lambda>e.
         if catches [AutonomyPolicyError] e
         then thenS (set_setting env ''autonomy_configuration_state'' ''restart-required'')
                (fail SupervisorError ''configuration restart required'')
         else throw e)) (\<lambda>pol.
     bindS (gets sv_policy) (\<lambda>current.
       if ep_generation pol < ep_generation current
          \<or> ep_generation pol = ep_generation current \<and> ep_digest pol \<noteq> ep_digest current
       then thenS (set_setting env ''autonomy_configuration_state'' ''mismatch'')
              (fail SupervisorError ''configuration mismatch; actions are blocked'')
       else thenS (modify (\<lambda>s. s\<lparr>sv_policy := pol\<rparr>))
           (thenS (audit_policy env)
           (thenS (revert_expired_lease env)
           (bindS (gets (\<lambda>s. attestation (sv_policy s) (sv_now env s))) (\<lambda>text.
            thenS (set_setting env (''process_policy:'' @ role) text)
              (set_setting env ''autonomy_configuration_state'' ''active'')))))))"

section \<open>The configuration state\<close>

definition ROLES :: "string list" where
  "ROLES = [''monitor'', ''listener'', ''runner'', ''status'']"

text \<open>
  One attestation: \<open>None\<close> when there is none or it is out of date, the identity it attests otherwise;
  every failure to read it is an error.
\<close>

definition attested ::
    "sup_env \<Rightarrow> sup_db \<Rightarrow> int \<Rightarrow> string \<Rightarrow> (int \<times> string) option result" where
  "attested env db now role =
     (let raw = setting db (''process_policy:'' @ role) ''''
      in if raw = [] then Inr None
         else case sv_loads env raw of
           None \<Rightarrow> raise PyValueError ''Expecting value''
         | Some (JObj ms) \<Rightarrow>
             (case map_of ms ''updated_at'' of
                None \<Rightarrow> raise PyKeyError ''updated_at''
              | Some u \<Rightarrow>
                  (case py_int (Some u) 0 of
                     Inl e \<Rightarrow> Inl e
                   | Inr t \<Rightarrow>
                       if now - t \<le> max 90 (cf_poll_seconds (sv_config env) * 3)
                       then (case map_of ms ''generation'' of
                               None \<Rightarrow> raise PyKeyError ''generation''
                             | Some g \<Rightarrow>
                                 (case py_int (Some g) 0 of
                                    Inl e \<Rightarrow> Inl e
                                  | Inr i \<Rightarrow>
                                      (case map_of ms ''digest'' of
                                         None \<Rightarrow> raise PyKeyError ''digest''
                                       | Some d \<Rightarrow> Inr (Some (i, text_of (Some d))))))
                       else Inr None))
         | Some _ \<Rightarrow> raise PyTypeError ''indices must be integers'')"

definition configuration_state :: "sup_env \<Rightarrow> sup_state \<Rightarrow> string" where
  "configuration_state env s =
     (let persisted = setting (sv_db s) ''autonomy_configuration_state'' ''active''
      in if persisted \<in> {''expired-lease'', ''restart-required''} then persisted
         else case res_map (attested env (sv_db s) (sv_now env s)) ROLES of
           Inl e \<Rightarrow> ''mismatch''
         | Inr found \<Rightarrow>
             if list_all (\<lambda>x. x \<in> {None, Some (ep_generation (sv_policy s), ep_digest (sv_policy s))})
                  found
             then ''active'' else ''mismatch'')"

definition require_consistent_policy :: "sup_env \<Rightarrow> string \<Rightarrow> bool \<Rightarrow> (sup_state, unit) proc" where
  "require_consistent_policy env role allow_expired_recovery =
     bindS (handle (thenS (reload_policy env role) (ret True)) (\<lambda>e.
         if catches [SupervisorError] e
         then bindS (gets (configuration_state env)) (\<lambda>st.
                if allow_expired_recovery \<and> st = ''expired-lease'' then ret False else throw e)
         else throw e)) (\<lambda>go_on.
       if \<not> go_on then ret ()
       else bindS (gets (configuration_state env)) (\<lambda>st.
         if st \<noteq> ''active''
         then thenS (set_setting env ''autonomy_configuration_state'' ''mismatch'')
                (fail SupervisorError ''configuration mismatch; actions are blocked'')
         else ret ()))"

section \<open>What the calls leave alone\<close>

definition same_policy :: "sup_state \<Rightarrow> sup_state \<Rightarrow> bool" where
  "same_policy s t \<longleftrightarrow> sv_policy t = sv_policy s \<and> sv_log t = sv_log s"

definition same_time :: "sup_state \<Rightarrow> sup_state \<Rightarrow> bool" where
  "same_time s t \<longleftrightarrow> same_policy s t \<and> sv_calls t = sv_calls s \<and> sv_dir t = sv_dir s"

interpretation policy_frame: evolution same_policy
  by unfold_locales (auto simp: same_policy_def)

interpretation time_frame: evolution same_time
  by unfold_locales (auto simp: same_time_def same_policy_def)

lemma same_time_on_db: "evolves same_time (on_db m)"
  by (simp add: evolves_def on_db_def same_time_def same_policy_def split: prod.splits)

lemma same_time_policy: "evolves same_time m \<Longrightarrow> evolves same_policy m"
  by (simp add: evolves_def same_time_def)

lemma same_policy_external: "evolves same_policy (external f)"
  by (simp add: evolves_def external_def same_policy_def)

lemma same_time_settings:
  "evolves same_time (get_setting k v)" "evolves same_time (set_setting env k v)"
  "evolves same_time (record_event_once env fp kind payload)"
  unfolding get_setting_def set_setting_def record_event_once_def
  by (intro time_frame.ev_rules same_time_on_db)+

lemma same_time_audit: "evolves same_time (audit_policy env)"
  unfolding audit_policy_def by (intro time_frame.ev_rules same_time_settings)

lemma same_time_decision: "evolves same_time (sup_policy_decision action)"
  by (simp add: evolves_def sup_policy_decision_def time_frame.R_refl split: sum.splits)

lemma same_policy_send: "evolves same_policy (send_and_mark env fp rendered meaningful)"
  unfolding send_and_mark_def
  by (intro policy_frame.ev_rules same_policy_external same_time_policy same_time_on_db same_time_settings)

lemma same_policy_deliver: "evolves same_policy (deliver env fp row created meaningful)"
  unfolding deliver_def Let_def
  by (cases "no_message_id row"; simp only: option.case list.case; (cases "the (no_message_id row)")?)
    (auto intro!: policy_frame.ev_rules same_policy_external same_policy_send split: list.splits)

lemma same_policy_notify: "evolves same_policy (notify_once env fp kind message payload severity meaningful)"
  unfolding notify_once_def Let_def case_prod_beta
  by (intro policy_frame.ev_rules same_policy_deliver same_time_policy same_time_on_db
      same_time_settings)

lemma same_policy_announce: "evolves same_policy (announce_reversion env old new)"
  unfolding announce_reversion_def Let_def by (intro policy_frame.ev_rules same_policy_notify)

section \<open>Adopting a policy\<close>

text \<open>The policy in force is well formed and not past its expiry.\<close>

definition lease_live :: "sup_env \<Rightarrow> sup_state \<Rightarrow> bool" where
  "lease_live env s \<longleftrightarrow> (case lease_expiry env (sv_policy s) of
     Inl e \<Rightarrow> False | Inr None \<Rightarrow> True | Inr (Some e) \<Rightarrow> seconds (sv_now env s) < e)"

lemma sv_now_same: "same_time s t \<Longrightarrow> sv_now env t = sv_now env s"
  by (simp add: same_time_def sv_now_def)

lemma replace_policy_Inr:
  "replace_policy env fails profile generation expires now d = (Inr p, d') \<Longrightarrow>
     effective env (JStr profile) (JInt generation) (JObj [])
       (case expires of None \<Rightarrow> JNull | Some t \<Rightarrow> JStr t) True now False = Inr p"
  by (auto simp: replace_policy_def runs)

lemma run_replace_policy_Inr:
  assumes "run_replace_policy env ''assisted'' generation None s = (Inr new, s')"
  shows "policy_wf (sv_policy_env env) new" and "ep_generation new = generation"
    and "ep_expires new = None" and "same_policy s s'"
proof -
  obtain d where run: "replace_policy (sv_policy_env env) (sv_io_fails env (sv_calls s)) ''assisted''
      generation None (seconds (sv_now env s)) (sv_dir s) = (Inr new, d)" and s': "s' = s\<lparr>sv_dir := d\<rparr>"
    using assms by (auto simp: run_replace_policy_def split: prod.splits)
  note eff = replace_policy_Inr[OF run]
  show wf: "policy_wf (sv_policy_env env) new" by (rule effective_wf[OF eff])
  have names: "ep_profile new = ''assisted'' \<and> ep_generation new = generation"
    by (rule effective_names[OF eff])
  then show "ep_generation new = generation" by simp
  show "ep_expires new = None" using wf names by (simp add: policy_wf_def)
  show "same_policy s s'" by (simp add: s' same_policy_def)
qed

lemma revert_expired_lease_Inr:
  assumes run: "revert_expired_lease env s = (Inr b, s')" and wf: "policy_wf (sv_policy_env env) (sv_policy s)"
  shows "policy_wf (sv_policy_env env) (sv_policy s')"
    and "ep_generation (sv_policy s) \<le> ep_generation (sv_policy s')" and "lease_live env s'"
    and "b \<longleftrightarrow> sv_policy s' \<noteq> sv_policy s" and "sv_log s' = sv_log s"
proof -
  obtain expiry where ex: "lease_expiry env (sv_policy s) = Inr expiry"
    using run by (auto simp: revert_expired_lease_def runs)
  have "policy_wf (sv_policy_env env) (sv_policy s') \<and> ep_generation (sv_policy s) \<le> ep_generation (sv_policy s')
    \<and> lease_live env s' \<and> (b \<longleftrightarrow> sv_policy s' \<noteq> sv_policy s) \<and> sv_log s' = sv_log s"
  proof (cases "case expiry of None \<Rightarrow> True | Some e \<Rightarrow> e > seconds (sv_now env s)")
    case True
    then have "b = False \<and> s' = s"
      using run ex by (auto simp: revert_expired_lease_def bindS_def split: option.splits)
    then show ?thesis using True ex wf by (auto simp: lease_live_def split: option.splits)
  next
    case False
    then obtain e where e: "expiry = Some e" "\<not> e > seconds (sv_now env s)" by (cases expiry) auto
    obtain new s1 s2 where b: "b = True"
      and rep: "run_replace_policy env ''assisted'' (ep_generation (sv_policy s) + 1) None s = (Inr new, s1)"
      and rest: "thenS (audit_policy env)
            (thenS (set_setting env ''autonomy_configuration_state'' ''active'')
              (announce_reversion env (sv_policy s) new)) (s1\<lparr>sv_policy := new\<rparr>) = (Inr (), s')"
      using run ex e by (auto simp: revert_expired_lease_def runs split: if_splits)
    have "evolves same_policy (thenS (audit_policy env)
            (thenS (set_setting env ''autonomy_configuration_state'' ''active'')
              (announce_reversion env (sv_policy s) new)))"
      by (intro policy_frame.ev_rules same_policy_announce same_time_policy same_time_audit
          same_time_settings)
    from evolvesD[OF this rest] have s': "sv_policy s' = new" "sv_log s' = sv_log s1"
      by (simp_all add: same_policy_def)
    note new = run_replace_policy_Inr[OF rep]
    have "lease_live env s'" using new(3) s' by (simp add: lease_live_def lease_expiry_def)
    moreover have "sv_policy s' \<noteq> sv_policy s" using new(2) s' by auto
    ultimately show ?thesis using new s' b by (simp add: same_policy_def)
  qed
  then show "policy_wf (sv_policy_env env) (sv_policy s')"
    and "ep_generation (sv_policy s) \<le> ep_generation (sv_policy s')" and "lease_live env s'"
    and "b \<longleftrightarrow> sv_policy s' \<noteq> sv_policy s" and "sv_log s' = sv_log s" by blast+
qed

lemma lease_live_same:
  assumes "same_time s t"
  shows "lease_live env s \<Longrightarrow> lease_live env t"
proof -
  have "sv_policy t = sv_policy s" using assms by (simp add: same_time_def same_policy_def)
  then show "lease_live env s \<Longrightarrow> lease_live env t"
    unfolding lease_live_def sv_now_same[OF assms] by simp
qed

lemma reload_policy_Inr:
  assumes "reload_policy env role s = (Inr (), s')"
  shows "policy_wf (sv_policy_env env) (sv_policy s')"
    and "ep_generation (sv_policy s) \<le> ep_generation (sv_policy s')" and "lease_live env s'"
    and "sv_log s' = sv_log s"
proof -
  obtain pol b s1 s2 where load: "load_policy (sv_policy_env env)
        (if cf_policy_file (sv_config env) then Some (pd_file (sv_dir s)) else None)
        (seconds (sv_now env s)) True = Inr pol"
    and gen: "ep_generation (sv_policy s) \<le> ep_generation pol"
    and audit: "audit_policy env (s\<lparr>sv_policy := pol\<rparr>) = (Inr (), s1)"
    and rev: "revert_expired_lease env s1 = (Inr b, s2)"
    and rest: "bindS (gets (\<lambda>s. attestation (sv_policy s) (sv_now env s))) (\<lambda>text.
            thenS (set_setting env (''process_policy:'' @ role) text)
              (set_setting env ''autonomy_configuration_state'' ''active'')) s2 = (Inr (), s')"
    using assms by (auto simp: reload_policy_def load_current_policy_def runs split: if_splits)
  obtain profile generation overrides expires configured al where
    "effective (sv_policy_env env) profile generation overrides expires configured
       (seconds (sv_now env s)) al = Inr pol"
    by (rule load_policy_Inr[OF load])
  then have wf: "policy_wf (sv_policy_env env) pol" by (rule effective_wf)
  have s1: "sv_policy s1 = pol" "sv_log s1 = sv_log s"
    using evolvesD[OF same_time_audit audit] by (simp_all add: same_time_def same_policy_def)
  note rv = revert_expired_lease_Inr[OF rev, unfolded s1(1), OF wf]
  have "evolves same_time (bindS (gets (\<lambda>s. attestation (sv_policy s) (sv_now env s))) (\<lambda>text.
            thenS (set_setting env (''process_policy:'' @ role) text)
              (set_setting env ''autonomy_configuration_state'' ''active'')))"
    by (intro time_frame.ev_rules same_time_settings)
  from evolvesD[OF this rest] have st: "same_time s2 s'" .
  then show "policy_wf (sv_policy_env env) (sv_policy s')" "lease_live env s'" "sv_log s' = sv_log s"
    "ep_generation (sv_policy s) \<le> ep_generation (sv_policy s')"
    using rv s1 gen lease_live_same[OF st] by (auto simp: same_time_def same_policy_def)
qed

lemma require_consistent_policy_Inr:
  assumes "require_consistent_policy env role False s = (Inr (), s')"
  obtains "reload_policy env role s = (Inr (), s')" and "configuration_state env s' = ''active''"
  using assms
  by (auto simp: require_consistent_policy_def runs split: if_splits)

section \<open>Properties\<close>

text \<open>A process without a policy file, and its attestation as it is read back.\<close>

definition demo_sup_env :: sup_env where
  "demo_sup_env =
     \<lparr>sv_config = \<lparr>cf_repository = ''o/r'', cf_milestone = ''M1'', cf_milestones = [],
        cf_poll_seconds = 120, cf_ttl = 3600, cf_policy_file = False,
        cf_required_checks = [''repository''], cf_runner = False,
        cf_notifications = \<lparr>np_mode = ''all'', np_quiet_start = [], np_quiet_end = [],
          np_digest_hour = 8, np_digest_minute = 0\<rparr>\<rparr>,
      sv_process = 1, sv_user = ''7'', sv_clock = (\<lambda>n. 1000 + int n),
      sv_policy_env = \<lparr>pe_texts = unary_iso, pe_sha256 = (\<lambda>_. ''d''), pe_uid = 1000\<rparr>,
      sv_io_fails = (\<lambda>n st. False),
      sv_loads = (\<lambda>t. Some (JObj [(''generation'', JInt 0), (''digest'', JStr ''d''),
         (''updated_at'', JInt 1000)])),
      sv_sha256 = (\<lambda>_. ''h''), sv_random = (\<lambda>n. emit_int (int n)),
      sv_local_minute = (\<lambda>t. (t div 60) mod 1440), sv_local_day = (\<lambda>t. t div 86400),
      sv_day_text = emit_int, sv_send = (\<lambda>n m. Inr ''1''), sv_edit = (\<lambda>n i m. Inr ())\<rparr>"

definition demo_sup_state :: sup_state where
  "demo_sup_state =
     \<lparr>sv_db = empty_db,
      sv_policy = \<lparr>ep_profile = ''assisted'', ep_generation = 0,
        ep_decisions = the (map_of PROFILE_DEFAULTS ''assisted''), ep_digest = ''d'',
        ep_expires = None, ep_configured = False\<rparr>,
      sv_dir = \<lparr>pd_file = NoFile, pd_temp = None\<rparr>, sv_calls = 0, sv_log = []\<rparr>"

lemma demo_sup_accepted:
  "\<not> isl (fst (require_consistent_policy demo_sup_env ''monitor'' False demo_sup_state))"
  by code_simp



end
