(* ===== verification/SupMerge.thy ===== *)
theory SupMerge
  imports SupPolicy "HOL-Library.Product_Lexorder"
begin

text \<open>
  The GitHub side of \<^verbatim>\<open>Supervisor\<close> in \<^verbatim>\<open>supervisor/fortify_supervisor.py\<close>: merging an approved pull
  request, completing it, selecting the next issue and advancing the milestone. The answers of the
  \<^verbatim>\<open>gh\<close> command are parameters, indexed by the number of the call; a key that a JSON answer lacks reads
  as the empty text where the code does \<^verbatim>\<open>or ""\<close>. What the supervisor changes on GitHub is recorded in a
  log at the time of the call. Selecting an issue, offering a rollover and advancing call each other; the
  depth of that recursion is an argument, as Python's is bounded. The buttons of a message are not modelled, the callback tokens behind them are.
\<close>

section \<open>Answers of GitHub\<close>

record gh_check =
  gc_name :: string
  gc_context :: string
  gc_status :: string
  gc_conclusion :: string

record pull =
  pu_number :: int
  pu_state :: string
  pu_head :: "string option"
  pu_branch :: string
  pu_mergeable :: string
  pu_merge_state :: "string option"
  pu_draft :: bool
  pu_review :: string
  pu_checks :: "gh_check list"
  pu_labels :: "string list"
  pu_files :: "string list"
  pu_merged :: bool
  pu_url :: string

record gh_issue =
  gi_number :: int
  gi_title :: string
  gi_url :: string
  gi_state :: string
  gi_milestone :: string
  gi_labels :: "string list"

record gh_milestone =
  gm_title :: string
  gm_state :: string
  gm_open :: int

record run_result =
  rr_code :: int
  rr_stderr :: string
  rr_merged :: bool
  rr_message :: "string option"

record github =
  gh_view :: "nat \<Rightarrow> int \<Rightarrow> pull result"
  gh_issue_list :: "nat \<Rightarrow> string \<Rightarrow> gh_issue list result"
  gh_milestones :: "nat \<Rightarrow> gh_milestone list result"
  gh_issue_view :: "nat \<Rightarrow> int \<Rightarrow> gh_issue result"
  gh_issue_state :: "nat \<Rightarrow> int \<Rightarrow> string result"
  gh_run_ready :: "nat \<Rightarrow> int \<Rightarrow> run_result"
  gh_run_merge :: "nat \<Rightarrow> int \<Rightarrow> string \<Rightarrow> run_result"
  gh_run_close :: "nat \<Rightarrow> int \<Rightarrow> run_result"
  gh_spawn :: "nat \<Rightarrow> int \<Rightarrow> unit result"

definition logged :: "gh_action \<Rightarrow> (nat \<Rightarrow> 'a result) \<Rightarrow> (sup_state, 'a) proc" where
  "logged act f = thenS (modify (\<lambda>s. s\<lparr>sv_log := sv_log s @ [act]\<rparr>)) (external f)"

definition strip :: "string \<Rightarrow> string" where
  "strip s = rev (dropWhile is_space (rev (dropWhile is_space s)))"

definition failure_text :: "string \<Rightarrow> string \<Rightarrow> string" where
  "failure_text stderr fallback = (if strip stderr = [] then fallback else strip stderr)"

section \<open>The client\<close>

definition gh_pull_request :: "github \<Rightarrow> int \<Rightarrow> (sup_state, pull) proc" where
  "gh_pull_request gh n = external (\<lambda>k. gh_view gh k n)"

definition gh_merge :: "github \<Rightarrow> int \<Rightarrow> string \<Rightarrow> (sup_state, unit) proc" where
  "gh_merge gh n head_sha =
     bindS (logged (Merge n head_sha) (\<lambda>k. Inr (gh_run_merge gh k n head_sha))) (\<lambda>rr.
       if rr_code rr \<noteq> 0
       then fail SupervisorError (failure_text (rr_stderr rr) ''GitHub merge failed'')
       else if \<not> rr_merged rr
       then fail SupervisorError (case rr_message rr of
              None \<Rightarrow> ''GitHub declined the merge'' | Some m \<Rightarrow> m)
       else ret ())"

definition gh_ready :: "github \<Rightarrow> int \<Rightarrow> (sup_state, unit) proc" where
  "gh_ready gh n =
     bindS (logged (Ready n) (\<lambda>k. Inr (gh_run_ready gh k n))) (\<lambda>rr.
       if rr_code rr \<noteq> 0
       then fail SupervisorError (failure_text (rr_stderr rr) ''Could not mark pull request ready'')
       else ret ())"

definition gh_close_issue :: "github \<Rightarrow> int \<Rightarrow> (sup_state, unit) proc" where
  "gh_close_issue gh n =
     bindS (external (\<lambda>k. gh_issue_state gh k n)) (\<lambda>st.
       if st = ''closed'' then ret ()
       else bindS (logged (CloseIssue n) (\<lambda>k. Inr (gh_run_close gh k n))) (\<lambda>rr.
         if rr_code rr = 0 then ret ()
         else bindS (external (\<lambda>k. gh_issue_state gh k n)) (\<lambda>st'.
           if st' = ''closed'' then ret ()
           else fail SupervisorError (failure_text (rr_stderr rr)
                  (''Could not close issue #'' @ emit_int n)))))"

definition eligible :: "int option \<Rightarrow> gh_issue \<Rightarrow> bool" where
  "eligible excluded i \<longleftrightarrow> excluded \<noteq> Some (gi_number i)
     \<and> ''automated-observation'' \<notin> set (gi_labels i) \<and> ''needs-triage'' \<notin> set (gi_labels i)"

definition select_issue :: "int option \<Rightarrow> gh_issue list \<Rightarrow> gh_issue option" where
  "select_issue excluded issues =
     (case sort_key (\<lambda>i. (''queue:next'' \<notin> set (gi_labels i), gi_number i))
             (filter (eligible excluded) issues) of
        [] \<Rightarrow> None | i # _ \<Rightarrow> Some i)"

definition gh_next_issue :: "github \<Rightarrow> string \<Rightarrow> int option \<Rightarrow> (sup_state, gh_issue option) proc" where
  "gh_next_issue gh milestone excluded =
     bindS (external (\<lambda>k. gh_issue_list gh k milestone)) (\<lambda>issues. ret (select_issue excluded issues))"

definition gh_milestone_named :: "github \<Rightarrow> string \<Rightarrow> (sup_state, gh_milestone) proc" where
  "gh_milestone_named gh title =
     bindS (external (gh_milestones gh)) (\<lambda>ms.
       case filter (\<lambda>m. gm_title m = title) ms of
         [m] \<Rightarrow> ret m
       | _ \<Rightarrow> fail SupervisorError (''Milestone is unavailable or ambiguous: '' @ title))"

definition gh_issue_details :: "github \<Rightarrow> int \<Rightarrow> (sup_state, gh_issue) proc" where
  "gh_issue_details gh n = external (\<lambda>k. gh_issue_view gh k n)"

section \<open>Merge gates\<close>

definition upper :: "string \<Rightarrow> string" where
  "upper s = map (\<lambda>c. if is_lower c then char_of (code c - 32) else c) s"

fun checks_scan :: "bool \<Rightarrow> gh_check list \<Rightarrow> string" where
  "checks_scan pending [] = (if pending then ''pending'' else ''passed'')"
| "checks_scan pending (c # cs) =
     (if upper (gc_status c) \<noteq> ''COMPLETED'' then checks_scan True cs
      else if upper (gc_conclusion c) \<notin> {''SUCCESS'', ''NEUTRAL'', ''SKIPPED''} then ''failed''
      else checks_scan pending cs)"

definition checks_state :: "pull \<Rightarrow> string" where
  "checks_state pr = (if pu_checks pr = [] then ''pending'' else checks_scan False (pu_checks pr))"

definition payload_key :: "json \<Rightarrow> string \<Rightarrow> json result" where
  "payload_key payload k =
     (case json_get payload k of None \<Rightarrow> raise PyKeyError k | Some v \<Rightarrow> Inr v)"

definition payload_number :: "json \<Rightarrow> int result" where
  "payload_number payload =
     (case payload_key payload ''pull_request'' of Inl e \<Rightarrow> Inl e | Inr v \<Rightarrow> py_int (Some v) 0)"

definition verify_merge_plan :: "pull \<Rightarrow> json \<Rightarrow> bool \<Rightarrow> unit result" where
  "verify_merge_plan pr payload allow_draft =
     (case payload_key payload ''head_sha'' of
        Inl e \<Rightarrow> Inl e
      | Inr sha \<Rightarrow>
          if (case pu_head pr of None \<Rightarrow> ''None'' | Some h \<Rightarrow> h) \<noteq> text_of (Some sha)
          then raise SupervisorError ''PR head changed; request a new approval''
          else if pu_state pr \<noteq> ''OPEN'' then raise SupervisorError ''PR is no longer open''
          else if checks_state pr \<noteq> ''passed'' then raise SupervisorError ''PR checks are not passing''
          else if pu_mergeable pr \<noteq> ''MERGEABLE'' then raise SupervisorError ''PR is not mergeable''
          else if pu_draft pr \<and> \<not> allow_draft then raise SupervisorError ''PR is still a draft''
          else if pu_merge_state pr \<in> {Some ''CLEAN'', Some ''UNSTABLE''}
               \<or> (allow_draft \<and> pu_draft pr \<and> pu_merge_state pr = Some ''BLOCKED'') then Inr ()
          else raise SupervisorError (''PR merge state is ''
                 @ (case pu_merge_state pr of None \<Rightarrow> ''unknown'' | Some st \<Rightarrow> st)))"

definition branch_issue :: "string \<Rightarrow> int option" where
  "branch_issue branch =
     (let prefix = ''agent/issue-''; rest = drop (length prefix) branch
      in if take (length prefix) branch = prefix \<and> rest \<noteq> [] \<and> list_all is_digit rest
         then Some (int (digits_value rest)) else None)"

definition SENSITIVE_AUTOMERGE_LABELS :: "string list" where
  "SENSITIVE_AUTOMERGE_LABELS =
     [''approval-required'', ''destructive-operation'', ''scope-change'', ''secret-change'',
      ''sensitive-operation'']"

definition sensitive_path :: "string \<Rightarrow> bool" where
  "sensitive_path path \<longleftrightarrow> take 14 path = ''secrets/input/''"

definition check_label :: "gh_check \<Rightarrow> string" where
  "check_label c = (if gc_name c \<noteq> [] then gc_name c else gc_context c)"

fun required_checks_pass :: "gh_check list \<Rightarrow> string list \<Rightarrow> unit result" where
  "required_checks_pass checks [] = Inr ()"
| "required_checks_pass checks (name # names) =
     (case filter (\<lambda>c. check_label c = name \<and> name \<noteq> []) checks of
        [c] \<Rightarrow>
          if upper (gc_status c) \<noteq> ''COMPLETED'' \<or> upper (gc_conclusion c) \<noteq> ''SUCCESS''
          then raise SupervisorError (''Required check did not pass: '' @ name)
          else required_checks_pass checks names
      | _ \<Rightarrow> raise SupervisorError (''Required check is missing or ambiguous: '' @ name))"

section \<open>Milestones\<close>

definition authorized_milestones :: "sup_env \<Rightarrow> string list" where
  "authorized_milestones env =
     (if cf_milestones (sv_config env) = [] then [cf_milestone (sv_config env)]
      else cf_milestones (sv_config env))"

definition active_milestone :: "sup_env \<Rightarrow> (sup_state, string) proc" where
  "active_milestone env =
     bindS (get_setting ''active_milestone'' (cf_milestone (sv_config env))) (\<lambda>active.
       if active \<notin> set (authorized_milestones env)
       then fail SupervisorError ''Active milestone is outside the configured authorization sequence''
       else ret active)"

fun after_first :: "string \<Rightarrow> string list \<Rightarrow> string option" where
  "after_first x [] = None"
| "after_first x (y # ys) =
     (if y = x then (case ys of [] \<Rightarrow> None | z # _ \<Rightarrow> Some z) else after_first x ys)"

definition next_milestone :: "sup_env \<Rightarrow> (sup_state, string option) proc" where
  "next_milestone env =
     bindS (active_milestone env) (\<lambda>active. ret (after_first active (authorized_milestones env)))"

definition paused :: "(sup_state, bool) proc" where
  "paused = bindS (get_setting ''paused'' ''false'') (\<lambda>v. ret (v = ''true''))"

definition queue_state :: "sup_env \<Rightarrow> (sup_state, string) proc" where
  "queue_state env =
     bindS (get_setting ''current_issue'' '''') (\<lambda>issue.
       if issue \<noteq> [] then ret ''active''
       else bindS paused (\<lambda>p. if p then ret ''held''
       else bindS (get_setting ''last_error'' '''') (\<lambda>err. if err \<noteq> [] then ret ''blocked''
       else bindS (active_milestone env) (\<lambda>current.
            bindS (on_db (ss_has_event (''milestone:'' @ current @ '':complete''))) (\<lambda>finished.
              if \<not> finished then ret ''idle''
              else bindS (next_milestone env) (\<lambda>n.
                ret (case n of None \<Rightarrow> ''complete'' | Some _ \<Rightarrow> ''rollover-pending'')))))))"

section \<open>Unattended merging\<close>

definition verify_issue_scope ::
    "sup_env \<Rightarrow> github \<Rightarrow> pull \<Rightarrow> int \<Rightarrow> (sup_state, unit) proc" where
  "verify_issue_scope env gh pr n =
     bindS (gh_issue_details gh n) (\<lambda>issue.
     bindS (if gi_number issue \<noteq> n \<or> gi_state issue \<noteq> ''OPEN'' then ret False
            else bindS (active_milestone env) (\<lambda>m. ret (gi_milestone issue = m))) (\<lambda>in_scope.
     if \<not> in_scope
     then fail SupervisorError ''Issue is not open in the active authorized milestone''
     else if set (pu_labels pr @ gi_labels issue) \<inter> set SENSITIVE_AUTOMERGE_LABELS \<noteq> {}
     then fail SupervisorError ''Sensitive-operation policy requires approval''
     else if list_ex sensitive_path (pu_files pr)
     then fail SupervisorError ''Sensitive file scope requires approval''
     else ret ()))"

definition verify_autonomous_merge ::
    "sup_env \<Rightarrow> github \<Rightarrow> pull \<Rightarrow> json \<Rightarrow> bool \<Rightarrow> (sup_state, unit) proc" where
  "verify_autonomous_merge env gh pr payload allow_draft =
     thenS (lift (verify_merge_plan pr payload allow_draft))
    (bindS (revert_expired_lease env) (\<lambda>reverted.
     if reverted then fail SupervisorError ''Autonomous lease expired before merge''
     else bindS (gets sv_policy) (\<lambda>pol.
     if ep_profile pol \<noteq> ''autonomous'' \<or> ep_expires pol = None
     then fail SupervisorError ''Autonomous lease is not active''
     else bindS paused (\<lambda>held.
     if held then fail SupervisorError ''Emergency hold or pause is active''
     else bindS (gets (configuration_state env)) (\<lambda>st.
     if st \<noteq> ''active'' then fail SupervisorError ''Autonomy configuration is not consistent''
     else bindS (get_setting ''last_error'' '''') (\<lambda>err.
     if err \<noteq> [] then fail SupervisorError ''An unresolved workflow failure exists''
     else if pu_review pr = ''CHANGES_REQUESTED'' then fail SupervisorError ''Changes are requested''
     else thenS (lift (required_checks_pass (pu_checks pr) (cf_required_checks (sv_config env))))
     (case branch_issue (pu_branch pr) of
        None \<Rightarrow> fail SupervisorError ''PR branch is not bound to an issue''
      | Some n \<Rightarrow> bindS (get_setting ''current_issue'' '''') (\<lambda>current.
     if current \<noteq> emit_int n
     then fail SupervisorError ''PR branch does not match the active issue''
     else verify_issue_scope env gh pr n))))))))"

section \<open>The queue and the milestone\<close>

definition rollover_payload :: "sup_env \<Rightarrow> string \<Rightarrow> string \<Rightarrow> json" where
  "rollover_payload env current next_one = JObj
     [(''repository'', JStr (cf_repository (sv_config env))), (''from'', JStr current),
      (''to'', JStr next_one)]"

definition verify_milestone_rollover ::
    "sup_env \<Rightarrow> github \<Rightarrow> json \<Rightarrow> (sup_state, unit) proc" where
  "verify_milestone_rollover env gh payload =
     (if json_get payload ''repository'' \<noteq> Some (JStr (cf_repository (sv_config env)))
      then fail SupervisorError ''Milestone rollover repository changed''
      else bindS (active_milestone env) (\<lambda>active.
        if json_get payload ''from'' \<noteq> Some (JStr active)
        then fail SupervisorError ''Active milestone changed; request a new approval''
        else bindS (next_milestone env) (\<lambda>n.
          if (case json_get payload ''to'' of None \<Rightarrow> JNull | Some v \<Rightarrow> v)
             \<noteq> (case n of None \<Rightarrow> JNull | Some t \<Rightarrow> JStr t)
          then fail SupervisorError ''Next authorized milestone changed''
          else bindS (gh_milestone_named gh active) (\<lambda>m.
            if gm_state m \<noteq> ''closed''
            then fail SupervisorError ''Current milestone must be closed before rollover''
            else if gm_open m \<noteq> 0
            then fail SupervisorError ''Current milestone still has open issues''
            else bindS (gh_next_issue gh active None) (\<lambda>i.
              if i \<noteq> None then fail SupervisorError ''Current milestone has newly eligible work''
              else bindS (gh_milestone_named gh (text_of (json_get payload ''to''))) (\<lambda>f.
                if gm_state f \<noteq> ''open''
                then fail SupervisorError ''Next authorized milestone must be open''
                else ret ()))))))"

definition transition_audit :: "string \<Rightarrow> string \<Rightarrow> json \<Rightarrow> json" where
  "transition_audit actor decision payload = JObj
     [(''actor'', JStr actor), (''decision'', JStr decision),
      (''from'', JStr (text_of (json_get payload ''from''))),
      (''to'', JStr (text_of (json_get payload ''to''))),
      (''preconditions'', JObj
        [(''current_closed'', JBool True), (''current_open_issues'', JInt 0),
         (''current_eligible_work'', JBool False), (''next_open'', JBool True),
         (''sequence_match'', JBool True), (''paused'', JBool False),
         (''conflicting_approval'', JBool False)])]"

text \<open>\<open>queue\<close> stands for the selection of the next issue that follows a transition.\<close>

definition transition_milestone ::
    "sup_env \<Rightarrow> github \<Rightarrow> (sup_state, gh_issue option) proc \<Rightarrow> json \<Rightarrow> string
       \<Rightarrow> (sup_state, gh_issue option) proc" where
  "transition_milestone env gh queue payload actor =
     thenS (verify_milestone_rollover env gh payload)
    (bindS (sup_policy_decision ''advance_milestone'') (\<lambda>decision.
     bindS (gets (sv_now env)) (\<lambda>now.
     bindS (on_db (ss_advance_milestone (sv_process env) now (text_of (json_get payload ''from''))
              (text_of (json_get payload ''to'')) (cf_milestone (sv_config env))
              (transition_audit actor decision payload))) (\<lambda>advanced.
       if \<not> advanced then ret None
       else thenS (set_setting env ''last_error'' '''') queue))))"

definition new_token :: "sup_env \<Rightarrow> string \<Rightarrow> string option \<Rightarrow> (sup_state, string) proc" where
  "new_token env action approval =
     bindS (gets (\<lambda>s. (sv_now env s, sv_random env (length (db_tokens (sv_db s)))))) (\<lambda>(now, token).
       on_db (create_callback_token (sv_process env) (sv_sha256 env) token now action
                (cf_ttl (sv_config env)) approval (Some (sv_user env)) (JObj [])))"

definition find_or_create_approval ::
    "sup_env \<Rightarrow> string \<Rightarrow> json \<Rightarrow> (sup_state, sup_approval) proc" where
  "find_or_create_approval env action payload =
     bindS (gets (\<lambda>s. (sv_now env s, sv_random env (length (db_approvals (sv_db s)))))) (\<lambda>(now, token).
     bindS (on_db (pending_approval (sv_sha256 env) now action payload)) (\<lambda>found.
       case found of
         Some a \<Rightarrow> ret a
       | None \<Rightarrow> on_db (create_approval (sv_process env) (sv_sha256 env) token now action payload
                          (cf_ttl (sv_config env)))))"

definition blocked_rollover ::
    "sup_env \<Rightarrow> string \<Rightarrow> string \<Rightarrow> json \<Rightarrow> (sup_state, unit) proc" where
  "blocked_rollover env fp message payload =
     thenS (set_setting env ''last_error'' ''milestone rollover blocked'')
       (notify_once env fp ''milestone.rollover_blocked'' (''Milestone rollover blocked: '' @ message)
          payload ''failure'' True)"

text \<open>What \<^verbatim>\<open>offer_milestone_rollover\<close> does once the current milestone is closed and the rollover verified.\<close>

definition offer_verified ::
    "sup_env \<Rightarrow> github \<Rightarrow> (sup_state, gh_issue option) proc \<Rightarrow> string \<Rightarrow> string
       \<Rightarrow> (sup_state, unit) proc" where
  "offer_verified env gh queue current next_one =
     (let payload = rollover_payload env current next_one;
          sides = JObj [(''from'', JStr current), (''to'', JStr next_one)]
      in bindS (sup_policy_decision ''advance_milestone'') (\<lambda>decision.
         if decision = ''disabled''
         then notify_once env (''milestone:'' @ current @ '':rollover-disabled:'' @ next_one)
                ''milestone.rollover_disabled''
                (''Milestone advance from '' @ current @ '' is disabled by autonomy policy.'')
                sides ''info'' True
         else bindS (find_or_create_approval env ''milestone_rollover'' payload) (\<lambda>approval.
           if decision = ''auto'' then
             bindS (gets (sv_now env)) (\<lambda>now.
             bindS (on_db (pending_approvals now ''merge_pr'')) (\<lambda>conflicts.
               if conflicts \<noteq> []
               then notify_once env (''milestone:'' @ current @ '':rollover-conflicting-approval'')
                      ''milestone.rollover_blocked''
                      ''Milestone rollover is blocked by a pending merge approval.''
                      sides ''failure'' True
               else thenS (on_db (ss_decide (sv_process env) now (sa_id approval) ''approved''
                              ''autonomy-policy'' ''''))
                    (thenS (transition_milestone env gh queue payload ''autonomy-policy'') (ret ()))))
           else
             thenS (new_token env ''advance-milestone'' (Some (sa_id approval)))
            (thenS (new_token env ''stay-milestone'' (Some (sa_id approval)))
            (thenS (new_token env ''workflow-details'' None)
              (notify_once env (''milestone:'' @ current @ '':rollover:'' @ next_one @ '':''
                   @ sa_id approval) ''milestone.rollover_ready''
                 (current @ '' is complete. Advance to '' @ next_one @ ''?'') sides ''info'' True))))))"

definition offer_milestone_rollover ::
    "sup_env \<Rightarrow> github \<Rightarrow> (sup_state, gh_issue option) proc \<Rightarrow> (sup_state, unit) proc" where
  "offer_milestone_rollover env gh queue =
     bindS (active_milestone env) (\<lambda>current.
     bindS (next_milestone env) (\<lambda>following.
       case following of
         None \<Rightarrow> ret ()
       | Some next_one \<Rightarrow>
           bindS (handle (bindS (gh_milestone_named gh current) (\<lambda>m. ret (Inr m)))
               (\<lambda>e. if catches [SupervisorError] e then ret (Inl (exn_msg e)) else throw e)) (\<lambda>found.
             case found of
               Inl message \<Rightarrow>
                 blocked_rollover env (''milestone:'' @ current @ '':rollover-state-error'') message
                   (JObj [(''from'', JStr current), (''reason'', JStr ''github-state'')])
             | Inr m \<Rightarrow>
                 if gm_state m \<noteq> ''closed'' \<or> gm_open m \<noteq> 0
                 then notify_once env (''milestone:'' @ current @ '':awaiting-close'')
                        ''milestone.awaiting_close''
                        (''Milestone '' @ current @ '' has no eligible issues. Close it after ''
                          @ ''confirming completion to enable rollover.'')
                        (JObj [(''milestone'', JStr current)]) ''info'' False
                 else bindS (handle (thenS (verify_milestone_rollover env gh
                                (rollover_payload env current next_one)) (ret None))
                        (\<lambda>e. if catches [SupervisorError] e then ret (Some (exn_msg e)) else throw e))
                      (\<lambda>problem. case problem of
                         Some message \<Rightarrow>
                           blocked_rollover env
                             (''milestone:'' @ current @ '':rollover-invalid:'' @ next_one) message
                             (JObj [(''from'', JStr current), (''to'', JStr next_one),
                                    (''reason'', JStr ''precondition'')])
                       | None \<Rightarrow> offer_verified env gh queue current next_one))))"

definition start_runner :: "sup_env \<Rightarrow> github \<Rightarrow> int \<Rightarrow> (sup_state, unit) proc" where
  "start_runner env gh n =
     (if \<not> cf_runner (sv_config env) then ret ()
      else thenS (logged (StartRunner n) (\<lambda>k. gh_spawn gh k n))
          (thenS (record_event_once env (''issue:'' @ emit_int n @ '':runner-started'')
                    ''runner.started'' (JObj [(''issue'', JInt n)]))
            (set_setting env ''runner_state'' (''started for issue #'' @ emit_int n))))"

definition start_issue ::
    "sup_env \<Rightarrow> github \<Rightarrow> string \<Rightarrow> gh_issue \<Rightarrow> (sup_state, gh_issue option) proc" where
  "start_issue env gh milestone issue =
     (let n = gi_number issue
      in bindS (gets (sv_now env)) (\<lambda>now.
         bindS (on_db (claim_issue (sv_process env) now n (gi_title issue) milestone)) (\<lambda>claimed.
           if \<not> claimed then ret None
           else thenS (notify_once env (''issue:'' @ emit_int n @ '':queued'') ''issue.queued''
                        (''Queued issue #'' @ emit_int n @ '': '' @ gi_title issue @ CHR 0x0A # gi_url issue)
                        (JObj [(''issue'', JInt n), (''title'', JStr (gi_title issue))]) ''info'' False)
               (thenS (start_runner env gh n) (ret (Some issue))))))"

fun queue_next_issue ::
    "nat \<Rightarrow> sup_env \<Rightarrow> github \<Rightarrow> int option \<Rightarrow> bool \<Rightarrow> (sup_state, gh_issue option) proc" where
  "queue_next_issue 0 env gh completed_issue operator_approved =
     fail PyRuntimeError ''maximum recursion depth exceeded''"
| "queue_next_issue (Suc depth) env gh completed_issue operator_approved =
     bindS paused (\<lambda>held.
       if held then ret None
       else bindS (sup_policy_decision ''start_next_issue'') (\<lambda>decision.
         if decision \<noteq> ''auto'' \<and> \<not> (decision = ''approval'' \<and> operator_approved)
         then bindS (active_milestone env) (\<lambda>m.
              thenS (notify_once env (''issue:start-policy:'' @ m @ '':'' @ decision)
                      ''issue.start_policy''
                      (if decision = ''approval''
                       then ''Starting the next issue requires operator approval.''
                       else ''Starting the next issue is disabled by autonomy policy.'')
                      (JObj [(''milestone'', JStr m), (''decision'', JStr decision)]) ''info'' True)
                (ret None))
         else bindS (active_milestone env) (\<lambda>milestone.
           bindS (gh_next_issue gh milestone completed_issue) (\<lambda>found.
             case found of
               None \<Rightarrow>
                 bindS (record_event_once env (''milestone:'' @ milestone @ '':complete'')
                          ''milestone.complete'' (JObj [(''milestone'', JStr milestone)])) (\<lambda>fresh.
                 thenS (if fresh
                        then notify_once env (''milestone:'' @ milestone @ '':complete-notice'')
                               ''milestone.complete''
                               (''No eligible issues remain in '' @ milestone @ ''.'')
                               (JObj [(''milestone'', JStr milestone)]) ''info'' False
                        else ret ())
                (thenS (offer_milestone_rollover env gh (queue_next_issue depth env gh None False))
                  (ret None)))
             | Some issue \<Rightarrow> start_issue env gh milestone issue))))"

section \<open>Completing and approving\<close>

definition close_completed_issue :: "sup_env \<Rightarrow> github \<Rightarrow> int \<Rightarrow> string \<Rightarrow> (sup_state, unit) proc" where
  "close_completed_issue env gh n decision =
     (if decision = ''auto'' then gh_close_issue gh n
      else thenS (if decision = ''approval'' then set_setting env ''pending_close_issue'' (emit_int n)
                  else ret ())
             (notify_once env (''issue:'' @ emit_int n @ '':close:'' @ decision) ''issue.close_policy''
                (if decision = ''approval''
                 then ''Issue #'' @ emit_int n @ '' requires operator closure.''
                 else ''Issue #'' @ emit_int n @ '' closure is disabled by autonomy policy.'')
                (JObj [(''issue'', JInt n), (''decision'', JStr decision)]) ''info'' True))"

definition completed_fingerprint :: "pull \<Rightarrow> string" where
  "completed_fingerprint pr = ''pr:'' @ emit_int (pu_number pr) @ '':completed:''
     @ (case pu_head pr of None \<Rightarrow> [] | Some h \<Rightarrow> h)"

definition free_slot :: "sup_env \<Rightarrow> int \<Rightarrow> (sup_state, unit) proc" where
  "free_slot env n = bindS (get_setting ''current_issue'' '''') (\<lambda>current.
     if current = emit_int n then set_setting env ''current_issue'' '''' else ret ())"

definition complete_merged_pull_request ::
    "nat \<Rightarrow> sup_env \<Rightarrow> github \<Rightarrow> pull \<Rightarrow> (sup_state, gh_issue option) proc" where
  "complete_merged_pull_request depth env gh pr =
     (let number = pu_number pr; sha = (case pu_head pr of None \<Rightarrow> [] | Some h \<Rightarrow> h);
          issue_number = branch_issue (pu_branch pr)
      in bindS (gets (sv_now env)) (\<lambda>now.
         thenS (on_db (supersede_approvals_for_pull_request (sv_process env) now number
                         ''pull request merged''))
        (bindS (on_db (ss_has_event (completed_fingerprint pr))) (\<lambda>known.
           if known then ret None
           else bindS (sup_policy_decision ''close_completed_issue'') (\<lambda>close_decision.
             thenS (case issue_number of None \<Rightarrow> ret ()
                    | Some n \<Rightarrow> close_completed_issue env gh n close_decision)
            (thenS (notify_once env (''pr:'' @ emit_int number @ '':merged-notice:'' @ sha)
                      ''pull_request.merged_notice''
                      (if issue_number \<noteq> None
                       then ''PR #'' @ emit_int number @ '' merged. Selecting next issue.''
                       else ''Maintenance PR #'' @ emit_int number @ '' merged. Issue queue unchanged.'')
                      (JObj [(''pull_request'', JInt number), (''head_sha'', JStr sha)]) ''info'' False)
            (thenS (case issue_number of None \<Rightarrow> ret () | Some n \<Rightarrow> free_slot env n)
            (bindS (case issue_number of None \<Rightarrow> ret None
                    | Some n \<Rightarrow> queue_next_issue depth env gh (Some n) False) (\<lambda>next_issue.
             thenS (set_setting env ''current_pr'' '''')
            (thenS (record_event_once env (completed_fingerprint pr) ''pull_request.merged''
                      (JObj [(''pull_request'', JInt number), (''head_sha'', JStr sha),
                        (''issue'', case issue_number of None \<Rightarrow> JNull | Some n \<Rightarrow> JInt n)]))
               (ret next_issue)))))))))))"

definition verify_before_merge ::
    "sup_env \<Rightarrow> github \<Rightarrow> pull \<Rightarrow> json \<Rightarrow> string \<Rightarrow> (sup_state, unit) proc" where
  "verify_before_merge env gh pr payload actor =
     (if actor = ''autonomy-policy'' then verify_autonomous_merge env gh pr payload False
      else lift (verify_merge_plan pr payload False))"

definition ready_and_merge ::
    "sup_env \<Rightarrow> github \<Rightarrow> int \<Rightarrow> json \<Rightarrow> string \<Rightarrow> pull \<Rightarrow> (sup_state, pull) proc" where
  "ready_and_merge env gh n payload actor pr =
     thenS (if pu_draft pr then gh_ready gh n else ret ())
    (bindS (gh_pull_request gh n) (\<lambda>fresh.
     thenS (verify_before_merge env gh fresh payload actor)
    (thenS (case json_get payload ''head_sha'' of
              Some (JStr sha) \<Rightarrow> gh_merge gh n sha
            | _ \<Rightarrow> fail PyTypeError ''expected str, bytes or os.PathLike object'')
       (ret fresh))))"

definition merge_message ::
    "sup_env \<Rightarrow> int \<Rightarrow> pull \<Rightarrow> gh_issue option \<Rightarrow> (sup_state, string) proc" where
  "merge_message env n pr next_issue =
     (let done_text = ''PR #'' @ emit_int n @ '' merge approved and completed''
      in case next_issue of
           Some i \<Rightarrow> ret (done_text @ ''; issue #'' @ emit_int (gi_number i) @ '' was started.'')
         | None \<Rightarrow> bindS paused (\<lambda>held.
             if held
             then ret (done_text @ ''. The supervisor is paused; no new issue was started.'')
             else if branch_issue (pu_branch pr) = None
             then ret (done_text @ ''. The maintenance PR did not advance the issue queue.'')
             else bindS (active_milestone env) (\<lambda>m.
                    ret (done_text @ ''. Milestone '' @ m @ '' is complete.''))))"

text \<open>What \<^verbatim>\<open>approve\<close> does once the approval is decided.\<close>

definition merge_decided ::
    "nat \<Rightarrow> sup_env \<Rightarrow> github \<Rightarrow> string \<Rightarrow> string \<Rightarrow> json \<Rightarrow> int \<Rightarrow> pull \<Rightarrow> (sup_state, string) proc" where
  "merge_decided depth env gh approval_id actor payload n pr =
     bindS (handle (ready_and_merge env gh n payload actor pr) (\<lambda>e.
              thenS (set_setting env ''last_error'' (''Merge failed for PR #'' @ emit_int n)) (throw e)))
       (\<lambda>fresh.
     thenS (if actor = ''autonomy-policy''
            then notify_once env (''pr:'' @ emit_int n @ '':automatic-merge:''
                     @ text_of (json_get payload ''head_sha'')) ''pull_request.automatic_merge''
                   (''PR #'' @ emit_int n @ '' automatically merged at ''
                     @ take 12 (text_of (json_get payload ''head_sha'')) @ ''.'')
                   (JObj [(''pull_request'', JInt n),
                     (''head_sha'', JStr (text_of (json_get payload ''head_sha'')))]) ''info'' True
            else ret ())
    (thenS (record_event_once env (''approval:'' @ approval_id @ '':merge'')
              ''pull_request.merge_approved''
              (JObj [(''pull_request'', JInt n), (''actor'', JStr actor)]))
    (bindS (complete_merged_pull_request depth env gh fresh) (\<lambda>next_issue.
       merge_message env n fresh next_issue))))"

definition sup_approve ::
    "nat \<Rightarrow> sup_env \<Rightarrow> github \<Rightarrow> string \<Rightarrow> string \<Rightarrow> (sup_state, string) proc" where
  "sup_approve depth env gh approval_id actor =
     bindS (on_db (ss_approval approval_id)) (\<lambda>row.
     if sa_action row \<noteq> ''merge_pr'' then fail SupervisorError ''Unsupported approval action''
     else let payload = sa_payload row in
     bindS (lift (payload_number payload)) (\<lambda>n.
     bindS (gh_pull_request gh n) (\<lambda>pr.
     thenS (lift (verify_merge_plan pr payload True))
    (thenS (if actor = ''autonomy-policy'' then verify_autonomous_merge env gh pr payload True else ret ())
    (bindS (gets (sv_now env)) (\<lambda>now.
     thenS (on_db (ss_decide (sv_process env) now approval_id ''approved'' actor ''''))
       (merge_decided depth env gh approval_id actor payload n pr)))))))"

definition rollover_message :: "json \<Rightarrow> gh_issue option \<Rightarrow> string" where
  "rollover_message payload issue =
     (let to = text_of (json_get payload ''to'')
      in case issue of
           None \<Rightarrow> ''Advanced to '' @ to @ ''; no eligible issue is available''
         | Some i \<Rightarrow> ''Advanced to '' @ to @ ''; issue #'' @ emit_int (gi_number i) @ '' was started'')"

definition approve_milestone_rollover ::
    "nat \<Rightarrow> sup_env \<Rightarrow> github \<Rightarrow> string \<Rightarrow> string \<Rightarrow> (sup_state, string) proc" where
  "approve_milestone_rollover depth env gh approval_id actor =
     bindS (on_db (ss_approval approval_id)) (\<lambda>row.
     if sa_action row \<noteq> ''milestone_rollover'' then fail SupervisorError ''Unsupported approval action''
     else let payload = sa_payload row in
     thenS (verify_milestone_rollover env gh payload)
    (bindS (gets (sv_now env)) (\<lambda>now.
     thenS (on_db (ss_decide (sv_process env) now approval_id ''approved'' actor ''''))
    (bindS (transition_milestone env gh (queue_next_issue depth env gh None False) payload actor) (\<lambda>issue.
     thenS (record_event_once env (''approval:'' @ approval_id @ '':rollover'')
              ''milestone.rollover_approved''
              (JObj [(''actor'', JStr actor), (''from'', JStr (text_of (json_get payload ''from''))),
                     (''to'', JStr (text_of (json_get payload ''to'')))]))
       (ret (rollover_message payload issue)))))))"

definition current_approval_id :: "sup_env \<Rightarrow> string \<Rightarrow> (sup_state, string) proc" where
  "current_approval_id env action =
     bindS (gets (sv_now env)) (\<lambda>now.
     bindS (on_db (pending_approvals now action)) (\<lambda>approvals.
     bindS (get_setting ''current_pr'' '''') (\<lambda>pr.
       let current = (if action = ''merge_pr'' \<and> pr \<noteq> []
             then filter (\<lambda>a. text_of (json_get (sa_payload a) ''pull_request'') = pr) approvals else []);
           rows = (if length current \<ge> 1 then current else approvals)
       in case rows of
            [] \<Rightarrow> fail SupervisorError (''No pending ''
                   @ map (\<lambda>c. if c = CHR ''_'' then CHR '' '' else c) action @ '' approval'')
          | [a] \<Rightarrow> ret (sa_id a)
          | _ \<Rightarrow> fail SupervisorError (''Multiple approvals are pending; use /approve <approval-id> ''
                   @ ''or /reject <approval-id> [reason]''))))"

section \<open>What is logged\<close>

definition logs :: "(gh_action \<Rightarrow> bool) \<Rightarrow> sup_state \<Rightarrow> sup_state \<Rightarrow> bool" where
  "logs P s t \<longleftrightarrow> (\<exists>new. sv_log t = sv_log s @ new \<and> list_all P new)"

interpretation log_frame: evolution "logs P" for P
proof
  show "logs P s s" for s by (simp add: logs_def)
  show "logs P s u" if "logs P s t" "logs P t u" for s t u
    using that by (auto simp: logs_def)
qed

fun not_merge :: "gh_action \<Rightarrow> bool" where
  "not_merge (Merge n sha) \<longleftrightarrow> False"
| "not_merge _ \<longleftrightarrow> True"

lemma logs_mono: "evolves (logs P) m \<Longrightarrow> (\<And>a. P a \<Longrightarrow> Q a) \<Longrightarrow> evolves (logs Q) m"
  unfolding evolves_def logs_def list_all_iff by blast

text \<open>What follows a call may use that the call has returned.\<close>

lemma logs_bind_known:
  assumes "evolves (logs P) m" and "\<And>x s s'. m s = (Inr x, s') \<Longrightarrow> evolves (logs P) (f x)"
  shows "evolves (logs P) (bindS m f)"
  unfolding evolves_def
proof
  fix s
  obtain r s1 where m: "m s = (r, s1)" by (meson surj_pair)
  have "logs P s s1" by (rule evolvesD[OF assms(1) m])
  then show "logs P s (snd (bindS m f s))"
  proof (cases r)
    case (Inr x)
    then have "logs P s1 (snd (f x s1))" using assms(2)[of s x s1] m by (simp add: evolves_def)
    with \<open>logs P s s1\<close> m Inr show ?thesis using log_frame.R_trans by simp
  qed (simp add: m)
qed

lemma logs_same_policy: "evolves same_policy m \<Longrightarrow> evolves (logs P) m"
  by (simp add: evolves_def logs_def same_policy_def)

lemma logs_same_time: "evolves same_time m \<Longrightarrow> evolves (logs P) m"
  by (intro logs_same_policy same_time_policy)

lemma logs_logged: "P act \<Longrightarrow> evolves (logs P) (logged act f)"
  by (simp add: evolves_def logged_def external_def logs_def)

lemma same_time_paused: "evolves same_time paused"
  unfolding paused_def by (intro time_frame.ev_rules same_time_settings)

lemma same_time_milestones:
  "evolves same_time (active_milestone env)" "evolves same_time (next_milestone env)"
  unfolding active_milestone_def next_milestone_def by (intro time_frame.ev_rules same_time_settings)+

lemma same_policy_client:
  "evolves same_policy (gh_pull_request gh n)" "evolves same_policy (gh_next_issue gh m ex)"
  "evolves same_policy (gh_milestone_named gh m)" "evolves same_policy (gh_issue_details gh n)"
proof -
  show "evolves same_policy (gh_milestone_named gh m)"
    unfolding gh_milestone_named_def
    by (intro policy_frame.ev_bindS same_policy_external) (auto intro: policy_frame.ev_pure split: list.split)
qed (auto simp: gh_pull_request_def gh_next_issue_def gh_issue_details_def
      intro!: same_policy_external policy_frame.ev_bindS policy_frame.ev_pure)

lemma logs_revert: "evolves (logs P) (revert_expired_lease env)"
proof -
  have "evolves (logs P) (run_replace_policy env pr g ex)" for pr g ex
    by (simp add: evolves_def run_replace_policy_def logs_def split: prod.splits)
  moreover have "evolves (logs P) (modify (\<lambda>s. s\<lparr>sv_policy := p\<rparr>))" for p
    by (simp add: evolves_def logs_def)
  ultimately show ?thesis
    unfolding revert_expired_lease_def
    by (intro log_frame.ev_rules logs_same_time[OF same_time_settings(2)]
        logs_same_time[OF same_time_audit] logs_same_policy[OF same_policy_announce])
qed

lemma logs_notify: "evolves (logs P) (notify_once env fp kind message payload severity meaningful)"
  by (rule logs_same_policy[OF same_policy_notify])

lemmas logs_quiet = logs_same_policy[OF same_policy_client(1)] logs_same_policy[OF same_policy_client(2)]
  logs_same_policy[OF same_policy_client(3)] logs_same_policy[OF same_policy_client(4)]
  logs_same_time[OF same_time_settings(1)] logs_same_time[OF same_time_settings(2)]
  logs_same_time[OF same_time_settings(3)] logs_same_time[OF same_time_paused]
  logs_same_time[OF same_time_milestones(1)] logs_same_time[OF same_time_milestones(2)]
  logs_same_time[OF same_time_on_db] logs_same_time[OF same_time_decision] logs_notify logs_revert

lemma logs_verify_autonomous: "evolves (logs P) (verify_autonomous_merge env gh pr payload al)"
  unfolding verify_autonomous_merge_def verify_issue_scope_def by (intro log_frame.ev_rules logs_quiet)

lemma logs_verify_rollover: "evolves (logs P) (verify_milestone_rollover env gh payload)"
  unfolding verify_milestone_rollover_def by (intro log_frame.ev_rules logs_quiet)

lemma logs_transition:
  "evolves (logs P) queue \<Longrightarrow> evolves (logs P) (transition_milestone env gh queue payload actor)"
  unfolding transition_milestone_def by (intro log_frame.ev_rules logs_quiet logs_verify_rollover)

lemma logs_tokens:
  "evolves (logs P) (new_token env action approval)"
  "evolves (logs P) (find_or_create_approval env action payload)"
  unfolding new_token_def find_or_create_approval_def case_prod_beta
  by (intro log_frame.ev_rules logs_quiet)+

lemma logs_offer:
  assumes "evolves (logs P) queue"
  shows "evolves (logs P) (offer_milestone_rollover env gh queue)"
proof -
  have v: "evolves (logs P) (offer_verified env gh queue current next_one)" for current next_one
    unfolding offer_verified_def Let_def
    by (intro log_frame.ev_rules logs_quiet logs_tokens logs_transition assms)
  have b: "evolves (logs P) (blocked_rollover env fp message payload)" for fp message payload
    unfolding blocked_rollover_def by (intro log_frame.ev_rules logs_quiet)
  show ?thesis
    unfolding offer_milestone_rollover_def
    by (intro log_frame.ev_rules logs_quiet logs_verify_rollover v b)
qed

lemma logs_start_issue: "evolves (logs not_merge) (start_issue env gh m i)"
  unfolding start_issue_def start_runner_def Let_def
  by (intro log_frame.ev_rules logs_quiet logs_logged) simp_all

lemma logs_queue: "evolves (logs not_merge) (queue_next_issue depth env gh completed ok)"
proof (induction depth arbitrary: completed ok)
  case 0
  show ?case unfolding queue_next_issue.simps by (intro log_frame.ev_rules)
next
  case (Suc depth)
  then show ?case unfolding queue_next_issue.simps
    by (intro log_frame.ev_rules logs_quiet logs_offer logs_start_issue)
qed

lemma logs_complete: "evolves (logs not_merge) (complete_merged_pull_request depth env gh pr)"
proof -
  have "evolves (logs not_merge) (close_completed_issue env gh n d)" for n d
    unfolding close_completed_issue_def gh_close_issue_def
    by (intro log_frame.ev_rules logs_quiet logs_logged logs_same_policy[OF same_policy_external]) simp_all
  moreover have "evolves (logs not_merge) (free_slot env n)" for n
    unfolding free_slot_def by (intro log_frame.ev_rules logs_quiet)
  ultimately show ?thesis
    unfolding complete_merged_pull_request_def Let_def
    by (intro log_frame.ev_rules logs_quiet logs_queue)
qed

section \<open>The gate of a merge\<close>

fun is_merge :: "gh_action \<Rightarrow> bool" where
  "is_merge (Merge n sha) \<longleftrightarrow> True"
| "is_merge _ \<longleftrightarrow> False"

lemma not_merge_iff: "not_merge a \<longleftrightarrow> \<not> is_merge a"
  by (cases a) auto

text \<open>\<open>once G s t\<close>: from \<open>s\<close> to \<open>t\<close> at most one merge was sent, and it satisfies \<open>G\<close>.\<close>

definition once :: "(int \<Rightarrow> string \<Rightarrow> bool) \<Rightarrow> sup_state \<Rightarrow> sup_state \<Rightarrow> bool" where
  "once G s t \<longleftrightarrow> (\<exists>new. sv_log t = sv_log s @ new
     \<and> (filter is_merge new = [] \<or> (\<exists>n sha. filter is_merge new = [Merge n sha] \<and> G n sha)))"

lemma no_merge_iff: "logs not_merge s t \<longleftrightarrow> (\<exists>new. sv_log t = sv_log s @ new \<and> filter is_merge new = [])"
  by (simp add: logs_def list_all_iff not_merge_iff filter_empty_conv)

lemma once_quiet: "logs not_merge s t \<Longrightarrow> once G s t"
  by (auto simp: no_merge_iff once_def)

lemma once_before: "logs not_merge s t \<Longrightarrow> once G t u \<Longrightarrow> once G s u"
  unfolding no_merge_iff once_def by fastforce

lemma once_after: "once G s t \<Longrightarrow> logs not_merge t u \<Longrightarrow> once G s u"
  unfolding no_merge_iff once_def by fastforce

text \<open>A call that cannot merge, before one that may: what follows may use how the first has ended.\<close>

lemma once_bind:
  assumes "bindS m f s = (r, s')" and "evolves (logs not_merge) m"
    and "\<And>x t. m s = (Inr x, t) \<Longrightarrow> f x t = (r, s') \<Longrightarrow> once G t s'"
  shows "once G s s'"
proof -
  obtain r1 t where m: "m s = (r1, t)" by (meson surj_pair)
  then have quiet: "logs not_merge s t" using evolvesD[OF assms(2)] by blast
  show ?thesis
  proof (cases r1)
    case (Inl e)
    with m assms(1) have "s' = t" by simp
    with quiet show ?thesis by (simp add: once_quiet)
  next
    case (Inr x)
    with m assms(1) have "f x t = (r, s')" by simp
    from once_before[OF quiet assms(3)[OF m[unfolded Inr] this]] show ?thesis .
  qed
qed

lemma once_then:
  assumes "bindS m f s = (r, s')" and "\<And>r1 t. m s = (r1, t) \<Longrightarrow> once G s t"
    and "\<And>x. evolves (logs not_merge) (f x)"
  shows "once G s s'"
proof -
  obtain r1 t where m: "m s = (r1, t)" by (meson surj_pair)
  note first = assms(2)[OF m]
  show ?thesis
  proof (cases r1)
    case (Inl e)
    with m assms(1) first show ?thesis by simp
  next
    case (Inr x)
    with m assms(1) have "f x t = (r, s')" by simp
    from once_after[OF first evolvesD[OF assms(3) this]] show ?thesis .
  qed
qed

lemma once_handle:
  assumes "handle m h s = (r, s')" and "\<And>r1 t. m s = (r1, t) \<Longrightarrow> once G s t"
    and "\<And>x. evolves (logs not_merge) (h x)"
  shows "once G s s'"
proof -
  obtain r1 t where m: "m s = (r1, t)" by (meson surj_pair)
  note first = assms(2)[OF m]
  show ?thesis
  proof (cases r1)
    case (Inl e)
    with m assms(1) have "h e t = (r, s')" by simp
    from once_after[OF first evolvesD[OF assms(3) this]] show ?thesis .
  next
    case (Inr x)
    with m assms(1) first show ?thesis by simp
  qed
qed

lemma gh_merge_once:
  assumes "gh_merge gh n sha s = (r, s')" and "G n sha"
  shows "once G s s'"
proof -
  have "sv_log s' = sv_log s @ [Merge n sha]"
    using assms(1) by (auto simp: gh_merge_def logged_def external_def bindS_def split: if_splits)
  with assms(2) show ?thesis by (auto simp: once_def)
qed

text \<open>What a pull request must be when it is merged at \<open>sha\<close>.\<close>

definition mergeable_at :: "pull \<Rightarrow> string \<Rightarrow> bool" where
  "mergeable_at pr sha \<longleftrightarrow> (case pu_head pr of None \<Rightarrow> ''None'' | Some h \<Rightarrow> h) = sha
     \<and> pu_state pr = ''OPEN'' \<and> checks_state pr = ''passed'' \<and> pu_mergeable pr = ''MERGEABLE''
     \<and> \<not> pu_draft pr \<and> pu_merge_state pr \<in> {Some ''CLEAN'', Some ''UNSTABLE''}"

lemma verify_merge_plan_ok:
  assumes "verify_merge_plan pr payload False = Inr ()" and "json_get payload ''head_sha'' = Some (JStr sha)"
  shows "mergeable_at pr sha"
  using assms unfolding verify_merge_plan_def payload_key_def mergeable_at_def
  by (auto simp: text_of_def split: if_splits option.splits)

text \<open>What the unattended actor needs besides, in the state in which it looks.\<close>

definition unattended_ok :: "sup_env \<Rightarrow> github \<Rightarrow> pull \<Rightarrow> sup_state \<Rightarrow> bool" where
  "unattended_ok env gh pr t \<longleftrightarrow>
     ep_profile (sv_policy t) = ''autonomous'' \<and> ep_expires (sv_policy t) \<noteq> None \<and> lease_live env t
     \<and> setting (sv_db t) ''paused'' ''false'' \<noteq> ''true'' \<and> configuration_state env t = ''active''
     \<and> setting (sv_db t) ''last_error'' '''' = [] \<and> pu_review pr \<noteq> ''CHANGES_REQUESTED''
     \<and> (\<forall>name\<in>set (cf_required_checks (sv_config env)). \<exists>c.
          filter (\<lambda>c. check_label c = name) (pu_checks pr) = [c] \<and> upper (gc_conclusion c) = ''SUCCESS'')
     \<and> (\<exists>k issue. gh_issue_view gh k (gi_number issue) = Inr issue \<and> gi_state issue = ''OPEN''
          \<and> branch_issue (pu_branch pr) = Some (gi_number issue)
          \<and> setting (sv_db t) ''current_issue'' '''' = emit_int (gi_number issue)
          \<and> gi_milestone issue = setting (sv_db t) ''active_milestone'' (cf_milestone (sv_config env))
          \<and> gi_milestone issue \<in> set (authorized_milestones env)
          \<and> set (pu_labels pr @ gi_labels issue) \<inter> set SENSITIVE_AUTOMERGE_LABELS = {})
     \<and> \<not> list_ex sensitive_path (pu_files pr)"

lemma get_setting_run: "get_setting key d s = (Inr (setting (sv_db s) key d), s)"
  by (simp add: get_setting_def on_db_def ss_get_def)

lemma paused_run: "paused s = (Inr (setting (sv_db s) ''paused'' ''false'' = ''true''), s)"
  by (simp add: paused_def bindS_def get_setting_run)

lemma active_milestone_Inr:
  "active_milestone env s = (Inr m, s') \<Longrightarrow>
     s' = s \<and> m = setting (sv_db s) ''active_milestone'' (cf_milestone (sv_config env))
       \<and> m \<in> set (authorized_milestones env)"
  by (auto simp: active_milestone_def bindS_def get_setting_run split: if_splits)

lemma revert_False: "revert_expired_lease env s = (Inr False, s') \<Longrightarrow> s' = s \<and> lease_live env s"
  by (auto simp: revert_expired_lease_def lease_live_def runs split: option.splits if_splits)

lemma required_checks_pass_ok:
  "required_checks_pass checks names = Inr () \<Longrightarrow> name \<in> set names \<Longrightarrow>
     \<exists>c. filter (\<lambda>c. check_label c = name) checks = [c] \<and> upper (gc_conclusion c) = ''SUCCESS''"
proof (induction checks names rule: required_checks_pass.induct)
  case (2 checks n names)
  have "n \<noteq> [] \<and> (\<exists>c. filter (\<lambda>c. check_label c = n) checks = [c] \<and> upper (gc_conclusion c) = ''SUCCESS'')
      \<and> required_checks_pass checks names = Inr ()"
    using "2.prems"(1) by (cases "n = []") (auto split: list.splits if_splits)
  with "2.IH" "2.prems"(2) show ?case
    using "2.prems"(1) by (auto split: list.splits if_splits)
qed simp

lemma verify_issue_scope_ok:
  assumes "verify_issue_scope env gh pr n s = (Inr (), s')"
  obtains issue where "gh_issue_view gh (sv_calls s) n = Inr issue" and "gi_number issue = n"
    and "gi_state issue = ''OPEN''"
    and "gi_milestone issue = setting (sv_db s) ''active_milestone'' (cf_milestone (sv_config env))"
    and "gi_milestone issue \<in> set (authorized_milestones env)"
    and "set (pu_labels pr @ gi_labels issue) \<inter> set SENSITIVE_AUTOMERGE_LABELS = {}"
    and "\<not> list_ex sensitive_path (pu_files pr)"
  using assms unfolding verify_issue_scope_def gh_issue_details_def external_def
  by (auto simp: bindS_Inr_iff if_proc_iff split: if_splits dest!: active_milestone_Inr)

lemma verify_autonomous_ok:
  assumes "verify_autonomous_merge env gh pr payload al s = (Inr (), s')"
  shows "unattended_ok env gh pr s"
proof -
  obtain n where live: "lease_live env s" and prof: "ep_profile (sv_policy s) = ''autonomous''"
      "ep_expires (sv_policy s) \<noteq> None" and held: "setting (sv_db s) ''paused'' ''false'' \<noteq> ''true''"
    and conf: "configuration_state env s = ''active''" "setting (sv_db s) ''last_error'' '''' = []"
    and review: "pu_review pr \<noteq> ''CHANGES_REQUESTED''"
    and checks: "required_checks_pass (pu_checks pr) (cf_required_checks (sv_config env)) = Inr ()"
    and branch: "branch_issue (pu_branch pr) = Some n"
    and current: "setting (sv_db s) ''current_issue'' '''' = emit_int n"
    and rest: "verify_issue_scope env gh pr n s = (Inr (), s')"
    using assms unfolding verify_autonomous_merge_def
    by (auto simp: bindS_Inr_iff if_proc_iff get_setting_run paused_run dest!: revert_False
        split: option.splits)
  show ?thesis
    using verify_issue_scope_ok[OF rest] live prof held conf review branch current
      required_checks_pass_ok[OF checks] unfolding unattended_ok_def by metis
qed

text \<open>
  What a merge of pull request \<open>n\<close> at \<open>sha\<close> on approval \<open>i\<close> rests on: the approval names both, it was
  pending and in date when it was decided, and GitHub then showed the pull request in a state that the
  plan allows, for the unattended actor also within the policy.
\<close>

definition merge_allowed ::
    "sup_env \<Rightarrow> github \<Rightarrow> string \<Rightarrow> string \<Rightarrow> sup_state \<Rightarrow> int \<Rightarrow> string \<Rightarrow> bool" where
  "merge_allowed env gh i actor s n sha \<longleftrightarrow>
     (\<exists>row. find_approval (sv_db s) i = Some row \<and> sa_action row = ''merge_pr''
        \<and> payload_number (sa_payload row) = Inr n
        \<and> json_get (sa_payload row) ''head_sha'' = Some (JStr sha))
     \<and> (\<exists>t row. find_approval (sv_db t) i = Some row \<and> sa_state row = ''pending''
        \<and> sv_now env t < sa_expires row
        \<and> (\<exists>k pr u. sv_calls t \<le> k \<and> gh_view gh k n = Inr pr \<and> mergeable_at pr sha
             \<and> (actor = ''autonomy-policy'' \<longrightarrow> unattended_ok env gh pr u)))"

lemma decide_pending:
  assumes "on_db (ss_decide p now i st actor reason) s = (Inr a, s')"
  shows "(\<exists>row. find_approval (sv_db s) i = Some row \<and> sa_state row = ''pending'' \<and> now < sa_expires row)
    \<and> sv_calls s' = sv_calls s"
  using assms
  by (auto simp: on_db_def ss_decide_def decide_read_def decide_write_def ss_approval_def runs
      split: prod.splits option.splits if_splits)

lemma logs_ready: "evolves (logs not_merge) (gh_ready gh n)"
  unfolding gh_ready_def by (intro log_frame.ev_rules logs_logged) simp

lemma ready_calls: "gh_ready gh n s = (r, s') \<Longrightarrow> sv_calls s' = sv_calls s + 1"
  by (auto simp: gh_ready_def logged_def external_def bindS_def split: if_splits)

lemma verify_autonomous_plan:
  "verify_autonomous_merge env gh pr payload al s = (Inr (), s') \<Longrightarrow> verify_merge_plan pr payload al = Inr ()"
  unfolding verify_autonomous_merge_def by (subst (asm) bindS_Inr_iff) simp

lemma verify_before_merge_ok:
  assumes "verify_before_merge env gh pr payload actor s = (Inr (), s')"
    and "json_get payload ''head_sha'' = Some (JStr sha)"
  shows "mergeable_at pr sha \<and> (actor = ''autonomy-policy'' \<longrightarrow> unattended_ok env gh pr s)"
proof (cases "actor = ''autonomy-policy''")
  case True
  with assms(1) have run: "verify_autonomous_merge env gh pr payload False s = (Inr (), s')"
    by (simp add: verify_before_merge_def)
  show ?thesis
    using verify_autonomous_ok[OF run] verify_merge_plan_ok[OF verify_autonomous_plan[OF run] assms(2)] by simp
next
  case False
  with assms show ?thesis by (auto simp: verify_before_merge_def dest: verify_merge_plan_ok)
qed

lemma logs_before: "evolves (logs P) (verify_before_merge env gh pr payload actor)"
  unfolding verify_before_merge_def by (intro log_frame.ev_rules logs_verify_autonomous)

lemma ready_and_merge_once:
  assumes run: "ready_and_merge env gh n payload actor pr0 t = (r, s')"
    and G: "\<And>sha k pr u. json_get payload ''head_sha'' = Some (JStr sha) \<Longrightarrow> sv_calls t \<le> k \<Longrightarrow>
      gh_view gh k n = Inr pr \<Longrightarrow> mergeable_at pr sha \<Longrightarrow>
      (actor = ''autonomy-policy'' \<longrightarrow> unattended_ok env gh pr u) \<Longrightarrow> G n sha"
  shows "once G t s'"
  using run unfolding ready_and_merge_def
proof (rule once_bind)
  show "evolves (logs not_merge) (if pu_draft pr0 then gh_ready gh n else ret ())"
    by (intro log_frame.ev_rules logs_ready)
next
  fix x t1
  assume "(if pu_draft pr0 then gh_ready gh n else ret ()) t = (Inr x, t1)"
  then have calls: "sv_calls t \<le> sv_calls t1" by (auto split: if_splits dest: ready_calls)
  assume "bindS (gh_pull_request gh n) (\<lambda>fresh.
     thenS (verify_before_merge env gh fresh payload actor)
    (thenS (case json_get payload ''head_sha'' of
              Some (JStr sha) \<Rightarrow> gh_merge gh n sha
            | _ \<Rightarrow> fail PyTypeError ''expected str, bytes or os.PathLike object'')
       (ret fresh))) t1 = (r, s')"
  then show "once G t1 s'"
  proof (rule once_bind)
    fix pr t2
    assume view: "gh_pull_request gh n t1 = (Inr pr, t2)"
    assume "thenS (verify_before_merge env gh pr payload actor)
      (thenS (case json_get payload ''head_sha'' of
                Some (JStr sha) \<Rightarrow> gh_merge gh n sha
              | _ \<Rightarrow> fail PyTypeError ''expected str, bytes or os.PathLike object'')
         (ret pr)) t2 = (r, s')"
    then show "once G t2 s'"
    proof (rule once_bind)
      fix y t3
      assume ok: "verify_before_merge env gh pr payload actor t2 = (Inr y, t3)"
      assume "thenS (case json_get payload ''head_sha'' of
                Some (JStr sha) \<Rightarrow> gh_merge gh n sha
              | _ \<Rightarrow> fail PyTypeError ''expected str, bytes or os.PathLike object'')
         (ret pr) t3 = (r, s')"
      then show "once G t3 s'"
      proof (rule once_then)
        fix r1 t4
        assume merge: "(case json_get payload ''head_sha'' of
                Some (JStr sha) \<Rightarrow> gh_merge gh n sha
              | _ \<Rightarrow> fail PyTypeError ''expected str, bytes or os.PathLike object'') t3 = (r1, t4)"
        show "once G t3 t4"
        proof (cases "\<exists>sha. json_get payload ''head_sha'' = Some (JStr sha)")
          case True
          then obtain sha where sha: "json_get payload ''head_sha'' = Some (JStr sha)" by blast
          have "gh_view gh (sv_calls t1) n = Inr pr"
            using view by (simp add: gh_pull_request_def external_def)
          then have "G n sha" using G[OF sha calls] verify_before_merge_ok[of env gh pr payload actor t2 t3 sha] ok sha
            by auto
          with merge sha show ?thesis by (auto intro: gh_merge_once)
        next
          case False
          with merge have "t4 = t3" by (auto split: option.splits json.splits)
          then show ?thesis by (simp add: once_quiet log_frame.R_refl)
        qed
      qed (intro log_frame.ev_rules)
    qed (rule logs_before)
  qed (intro logs_quiet)
qed

lemma logs_message: "evolves (logs not_merge) (merge_message env n fresh i)"
  unfolding merge_message_def Let_def by (intro log_frame.ev_rules logs_quiet)

lemma merge_decided_once:
  assumes run: "merge_decided depth env gh i actor payload n pr0 t = (r, s')"
    and G: "\<And>sha k pr u. json_get payload ''head_sha'' = Some (JStr sha) \<Longrightarrow> sv_calls t \<le> k \<Longrightarrow>
      gh_view gh k n = Inr pr \<Longrightarrow> mergeable_at pr sha \<Longrightarrow>
      (actor = ''autonomy-policy'' \<longrightarrow> unattended_ok env gh pr u) \<Longrightarrow> G n sha"
  shows "once G t s'"
  using run unfolding merge_decided_def
proof (rule once_then)
  fix r1 t1
  assume "handle (ready_and_merge env gh n payload actor pr0) (\<lambda>e.
    thenS (set_setting env ''last_error'' (''Merge failed for PR #'' @ emit_int n)) (throw e)) t = (r1, t1)"
  then show "once G t t1"
  proof (rule once_handle)
    fix r2 t2
    assume "ready_and_merge env gh n payload actor pr0 t = (r2, t2)"
    then show "once G t t2" by (rule ready_and_merge_once) (rule G)
  qed (intro log_frame.ev_rules logs_quiet)
qed (intro log_frame.ev_rules logs_quiet logs_complete logs_message)

lemma merge_allowedI:
  assumes "on_db (ss_approval i) s = (Inr row, s1)" and "sa_action row = ''merge_pr''"
    and "payload_number (sa_payload row) = Inr n"
    and "gets (sv_now env) t0 = (Inr now, t)"
    and "on_db (ss_decide p now i st actor reason) t = (Inr row', t')"
    and "json_get (sa_payload row) ''head_sha'' = Some (JStr sha)" and "sv_calls t' \<le> k"
    and "gh_view gh k n = Inr pr" and "mergeable_at pr sha"
    and "actor = ''autonomy-policy'' \<longrightarrow> unattended_ok env gh pr u"
  shows "merge_allowed env gh i actor s n sha"
proof -
  have "find_approval (sv_db s) i = Some row"
    using assms(1) by (auto simp: on_db_def ss_approval_def runs split: prod.splits option.splits)
  moreover have "now = sv_now env t" using assms(4) by auto
  ultimately show ?thesis using assms(2-) decide_pending[OF assms(5)] unfolding merge_allowed_def by metis
qed

lemma sup_approve_once:
  assumes "sup_approve depth env gh i actor s = (r, s')"
  shows "once (merge_allowed env gh i actor s) s s'"
  using assms unfolding sup_approve_def Let_def
  apply (elim once_bind)
   apply (intro logs_quiet)
  apply (erule if_proc_iff[THEN iffD1, THEN disjE])
   apply (simp add: once_quiet log_frame.R_refl)
  apply (elim conjE once_bind)
        apply (intro log_frame.ev_rules logs_quiet logs_verify_autonomous)+
  apply (erule merge_decided_once)
  apply (rule merge_allowedI; (assumption | simp))
  done

section \<open>A merge\<close>

text \<open>An autonomous process whose approval \<open>a1\<close> names pull request 7, the work on issue 3, at \<open>abc\<close>.\<close>

definition demo_pull :: pull where
  "demo_pull = \<lparr>pu_number = 7, pu_state = ''OPEN'', pu_head = Some ''abc'',
     pu_branch = ''agent/issue-3'', pu_mergeable = ''MERGEABLE'', pu_merge_state = Some ''CLEAN'',
     pu_draft = False, pu_review = [],
     pu_checks = [\<lparr>gc_name = ''repository'', gc_context = [], gc_status = ''COMPLETED'',
                    gc_conclusion = ''SUCCESS''\<rparr>], pu_labels = [], pu_files = [''README.md''],
     pu_merged = False, pu_url = ''u''\<rparr>"

definition demo_issue :: "int \<Rightarrow> gh_issue" where
  "demo_issue n = \<lparr>gi_number = n, gi_title = ''t'', gi_url = ''u'', gi_state = ''OPEN'',
     gi_milestone = ''M1'', gi_labels = []\<rparr>"

definition demo_github :: github where
  "demo_github = \<lparr>gh_view = (\<lambda>k n. Inr demo_pull), gh_issue_list = (\<lambda>k m. Inr [demo_issue 3, demo_issue 4]),
     gh_milestones = (\<lambda>k. Inr [\<lparr>gm_title = ''M1'', gm_state = ''closed'', gm_open = 0\<rparr>,
                              \<lparr>gm_title = ''M2'', gm_state = ''open'', gm_open = 1\<rparr>]),
     gh_issue_view = (\<lambda>k n. Inr (demo_issue n)), gh_issue_state = (\<lambda>k n. Inr ''open''),
     gh_run_ready = (\<lambda>k n. \<lparr>rr_code = 0, rr_stderr = [], rr_merged = False, rr_message = None\<rparr>),
     gh_run_merge = (\<lambda>k n sha. \<lparr>rr_code = 0, rr_stderr = [], rr_merged = False, rr_message = None\<rparr>),
     gh_run_close = (\<lambda>k n. \<lparr>rr_code = 0, rr_stderr = [], rr_merged = False, rr_message = None\<rparr>),
     gh_spawn = (\<lambda>k n. Inr ())\<rparr>"

definition demo_approval :: "string \<Rightarrow> (string \<times> json) list \<Rightarrow> sup_approval" where
  "demo_approval action payload =
     \<lparr>sa_id = ''a1'', sa_action = action, sa_payload = JObj payload, sa_digest = ''h'',
      sa_state = ''pending'', sa_created = 0, sa_expires = 3600, sa_decided = None, sa_by = None,
      sa_reason = None\<rparr>"

definition demo_merge_env :: sup_env where
  "demo_merge_env = demo_sup_env\<lparr>sv_clock := (\<lambda>n. 0)\<rparr>"

definition demo_merge_state :: sup_state where
  "demo_merge_state = demo_sup_state
     \<lparr>sv_policy := \<lparr>ep_profile = ''autonomous'', ep_generation = 0,
        ep_decisions = the (map_of PROFILE_DEFAULTS ''autonomous''), ep_digest = ''d'',
        ep_expires = Some ''1Z'', ep_configured = True\<rparr>,
      sv_db := empty_db
        \<lparr>db_settings := [''current_issue'' \<mapsto> ''3''],
         db_approvals := [demo_approval ''merge_pr''
           [(''pull_request'', JInt 7), (''head_sha'', JStr ''abc'')]]\<rparr>\<rparr>"

text \<open>The run up to the merge, which GitHub declines here, whatever would follow it.\<close>

lemma demo_merge_run:
  "sv_log (snd (bindS (on_db (ss_approval ''a1'')) (\<lambda>row.
     if sa_action row \<noteq> ''merge_pr'' then fail SupervisorError ''Unsupported approval action''
     else let payload = sa_payload row in
     bindS (lift (payload_number payload)) (\<lambda>n.
     bindS (gh_pull_request demo_github n) (\<lambda>pr.
     thenS (lift (verify_merge_plan pr payload True))
    (thenS (if ''autonomy-policy'' = ''autonomy-policy''
            then verify_autonomous_merge demo_merge_env demo_github pr payload True else ret ())
    (bindS (gets (sv_now demo_merge_env)) (\<lambda>now.
     thenS (on_db (ss_decide (sv_process demo_merge_env) now ''a1'' ''approved'' ''autonomy-policy'' ''''))
    (bindS (handle (ready_and_merge demo_merge_env demo_github n payload ''autonomy-policy'' pr) (\<lambda>e.
              thenS (set_setting demo_merge_env ''last_error'' (''Merge failed for PR #'' @ emit_int n)) (throw e)))
       (\<lambda>fresh. rest payload n fresh)))))))) demo_merge_state)) = [Merge 7 ''abc'']"
  by code_simp

lemma demo_merge_log:
  "sv_log (snd (sup_approve depth demo_merge_env demo_github ''a1'' ''autonomy-policy'' demo_merge_state))
     = [Merge 7 ''abc'']"
  unfolding sup_approve_def merge_decided_def by (rule demo_merge_run)



section \<open>A rollover approved while the supervisor is paused\<close>

definition same_db :: "sup_state \<Rightarrow> sup_state \<Rightarrow> bool" where
  "same_db s t \<longleftrightarrow> sv_db t = sv_db s"

interpretation db_frame: evolution same_db
  by unfold_locales (simp_all add: same_db_def)

lemma same_db_external: "evolves same_db (external f)"
  by (simp add: evolves_def external_def same_db_def)

lemma same_db_settings: "evolves same_db (get_setting key d)"
  by (simp add: evolves_def get_setting_run same_db_def)

lemma same_db_decision: "evolves same_db (sup_policy_decision action)"
  by (simp add: evolves_def sup_policy_decision_def same_db_def split: sum.split)

lemma same_db_milestones: "evolves same_db (active_milestone env)" "evolves same_db (next_milestone env)"
  unfolding active_milestone_def next_milestone_def by (intro db_frame.ev_rules same_db_settings)+

lemma same_db_client:
  "evolves same_db (gh_next_issue gh m ex)" "evolves same_db (gh_milestone_named gh m)"
  unfolding gh_next_issue_def gh_milestone_named_def
  by (auto intro!: same_db_external db_frame.ev_bindS intro: db_frame.ev_pure split: list.split)

lemma same_db_rollover: "evolves same_db (verify_milestone_rollover env gh payload)"
  unfolding verify_milestone_rollover_def
  by (intro db_frame.ev_rules same_db_milestones same_db_client)

lemma decide_Inr:
  assumes "on_db (ss_decide p now i st actor reason) s = (Inr a, s')"
  shows "find_approval (sv_db s') i = Some a" and "sa_state a = st"
    and "db_settings (sv_db s') = db_settings (sv_db s)"
proof -
  obtain row where row: "find_approval (sv_db s) i = Some row" and live: "\<not> sa_expires row \<le> now"
    and wrote: "decide_write p now row st actor reason (sv_db s) = (Inr a, sv_db s')"
    using assms
    by (auto simp: on_db_def ss_decide_def decide_read_def decide_write_def ss_approval_def runs
        split: prod.splits option.splits if_splits)
  have id: "sa_id row = i" by (rule find_approval_id[OF row])
  let ?f = "\<lambda>r. r\<lparr>sa_state := st, sa_decided := Some now, sa_by := Some actor, sa_reason := Some reason\<rparr>"
  have "find_approval (update_approval i ?f db) i = Some (?f row)" if "db_approvals db = db_approvals (sv_db s)" for db
    using that row find_update_approval[of db i row ?f] by (simp add: find_approval_def)
  then show "find_approval (sv_db s') i = Some a" "sa_state a = st"
    "db_settings (sv_db s') = db_settings (sv_db s)"
    using wrote live id
    by (auto simp: decide_write_def write_commit_def open_write_def close_write_def ss_approval_def
        find_approval_def update_approval_def bindS_def split: if_splits option.splits
        dest!: sym[of _ "sv_db s'"])
qed

lemma transition_paused:
  assumes run: "transition_milestone env gh queue payload actor s = (Inr issue, s')"
    and held: "setting (sv_db s) ''paused'' ''false'' = ''true''"
  shows "issue = None \<and> db_approvals (sv_db s') = db_approvals (sv_db s)
    \<and> db_settings (sv_db s') = db_settings (sv_db s)"
proof -
  obtain s1 s2 decision b s3 where verify: "verify_milestone_rollover env gh payload s = (Inr (), s1)"
    and decision: "sup_policy_decision ''advance_milestone'' s1 = (Inr decision, s2)"
    and advance: "on_db (ss_advance_milestone (sv_process env) (sv_now env s2)
        (text_of (json_get payload ''from'')) (text_of (json_get payload ''to''))
        (cf_milestone (sv_config env)) (transition_audit actor decision payload)) s2 = (Inr b, s3)"
    and rest: "(if \<not> b then ret None else thenS (set_setting env ''last_error'' '''') queue) s3 = (Inr issue, s')"
    using run unfolding transition_milestone_def by (auto simp: bindS_Inr_iff)
  have "sv_db s2 = sv_db s"
    using evolvesD[OF same_db_rollover verify] evolvesD[OF same_db_decision decision] by (simp add: same_db_def)
  with held advance have "\<not> b \<and> db_approvals (sv_db s3) = db_approvals (sv_db s)
    \<and> db_settings (sv_db s3) = db_settings (sv_db s)"
    by (auto simp: on_db_def ss_advance_milestone_def begin_immediate_def open_write_def close_write_def
        bindS_def Let_def split: prod.splits if_splits)
  with rest show ?thesis by simp
qed

lemma record_event_once_Inr:
  assumes "record_event_once env fp kind payload s = (Inr b, s')"
  shows "has_fingerprint (sv_db s') fp \<and> db_approvals (sv_db s') = db_approvals (sv_db s)
    \<and> db_settings (sv_db s') = db_settings (sv_db s)"
  using assms
  by (auto simp: record_event_once_def on_db_def ss_event_def open_write_def close_write_def add_event_def
      has_fingerprint_def bindS_def split: prod.splits if_splits)

text \<open>
  A rollover that is refused is reported as done. When the operator approves a milestone rollover
  while the supervisor is paused, the change of the milestone is refused and nothing advances, but the
  approval is spent, the event \<^verbatim>\<open>milestone.rollover_approved\<close> is recorded and the answer is that the
  milestone has advanced.
\<close>

theorem paused_rollover_reported_as_done:
  assumes "approve_milestone_rollover depth env gh i actor s = (Inr answer, s')"
    and "setting (sv_db s) ''paused'' ''false'' = ''true''"
  shows "\<exists>row decided. find_approval (sv_db s) i = Some row
    \<and> answer = ''Advanced to '' @ text_of (json_get (sa_payload row) ''to'') @ ''; no eligible issue is available''
    \<and> find_approval (sv_db s') i = Some decided \<and> sa_state decided = ''approved''
    \<and> has_fingerprint (sv_db s') (''approval:'' @ i @ '':rollover'')
    \<and> setting (sv_db s') ''active_milestone'' d = setting (sv_db s) ''active_milestone'' d"
proof -
  obtain row s1 s2 now a s3 issue s4 b where row: "on_db (ss_approval i) s = (Inr row, s1)"
    and verify: "verify_milestone_rollover env gh (sa_payload row) s1 = (Inr (), s2)"
    and decide: "on_db (ss_decide (sv_process env) now i ''approved'' actor []) s2 = (Inr a, s3)"
    and tr: "transition_milestone env gh (queue_next_issue depth env gh None False) (sa_payload row) actor s3
       = (Inr issue, s4)"
    and ev: "record_event_once env (''approval:'' @ i @ '':rollover'') ''milestone.rollover_approved''
              (JObj [(''actor'', JStr actor), (''from'', JStr (text_of (json_get (sa_payload row) ''from''))),
                     (''to'', JStr (text_of (json_get (sa_payload row) ''to'')))]) s4 = (Inr b, s')"
    and answer: "answer = rollover_message (sa_payload row) issue"
    using assms(1) unfolding approve_milestone_rollover_def Let_def
    by (auto simp: bindS_Inr_iff if_proc_iff)
  have found: "find_approval (sv_db s) i = Some row" and "sv_db s1 = sv_db s"
    using row by (auto simp: on_db_def ss_approval_def runs split: prod.splits option.splits)
  moreover have "sv_db s2 = sv_db s1" using evolvesD[OF same_db_rollover verify] by (simp add: same_db_def)
  ultimately have held: "setting (sv_db s3) key d = setting (sv_db s) key d" for key d
    using decide_Inr(3)[OF decide] by (simp add: setting_def)
  show ?thesis
    using found answer decide_Inr[OF decide] transition_paused[OF tr] record_event_once_Inr[OF ev] held assms(2)
    by (auto simp: rollover_message_def find_approval_def setting_def)
qed

definition demo_rollover_env :: sup_env where
  "demo_rollover_env =
     demo_sup_env\<lparr>sv_config := (sv_config demo_sup_env)\<lparr>cf_milestones := [''M1'', ''M2'']\<rparr>\<rparr>"

definition demo_rollover_state :: sup_state where
  "demo_rollover_state = demo_sup_state
     \<lparr>sv_db := empty_db
        \<lparr>db_settings := [''paused'' \<mapsto> ''true''],
         db_approvals := [demo_approval ''milestone_rollover''
           [(''repository'', JStr ''o/r''), (''from'', JStr ''M1''), (''to'', JStr ''M2'')]]\<rparr>\<rparr>"

lemma demo_rollover_runs:
  "\<not> isl (fst (approve_milestone_rollover 1 demo_rollover_env (demo_github\<lparr>gh_issue_list := (\<lambda>k m. Inr [])\<rparr>)
     ''a1'' ''op'' demo_rollover_state))"
  "setting (sv_db demo_rollover_state) ''paused'' ''false'' = ''true''"
  by code_simp+

theorem paused_rollover_reported_as_done_witness:
  "\<exists>row decided answer s'. approve_milestone_rollover 1 demo_rollover_env
       (demo_github\<lparr>gh_issue_list := (\<lambda>k m. Inr [])\<rparr>) ''a1'' ''op'' demo_rollover_state = (Inr answer, s')
    \<and> find_approval (sv_db demo_rollover_state) ''a1'' = Some row
    \<and> answer = ''Advanced to '' @ text_of (json_get (sa_payload row) ''to'') @ ''; no eligible issue is available''
    \<and> find_approval (sv_db s') ''a1'' = Some decided \<and> sa_state decided = ''approved''
    \<and> setting (sv_db s') ''active_milestone'' ''M1'' = setting (sv_db demo_rollover_state) ''active_milestone'' ''M1''"
proof -
  obtain answer s' where run: "approve_milestone_rollover 1 demo_rollover_env
      (demo_github\<lparr>gh_issue_list := (\<lambda>k m. Inr [])\<rparr>) ''a1'' ''op'' demo_rollover_state = (Inr answer, s')"
    using not_isl_fst[OF demo_rollover_runs(1)] by blast
  from paused_rollover_reported_as_done[OF run demo_rollover_runs(2), of "''M1''"] run
  show ?thesis by blast
qed

end
