(* ===== verification/SupStatus.thy ===== *)
theory SupStatus
  imports SupMerge
begin

text \<open>
  \<^verbatim>\<open>supervisor/workflow_status.py\<close> and what \<^verbatim>\<open>Supervisor\<close> shows of itself: reading the runner's
  heartbeat file, the workflow card, \<^verbatim>\<open>status_text\<close>, \<^verbatim>\<open>autonomy_text\<close> and the status message that is
  edited in place. What the heartbeat file holds at a reading is a parameter, as is the timestamp of a
  parsed time; separators of the card that are not ASCII are written \<^verbatim>\<open>-\<close>.
\<close>

section \<open>The remaining parameters\<close>

datatype json_file = Absent | Unreadable | Parsed json

record update_message =
  me_chat_type :: string
  me_chat :: string
  me_sender :: string
  me_text :: string
  me_id :: string

record callback =
  cb_id :: string
  cb_data :: string
  cb_sender :: string
  cb_message :: "update_message option"

record telegram_update =
  up_id :: int
  up_callback :: "callback option"
  up_message :: "update_message option"

record control =
  ct_env :: sup_env
  ct_gh :: github
  ct_depth :: nat
  ct_chat :: string
  ct_stop_command :: bool
  ct_heartbeat_root :: bool
  ct_retry_stages :: "string list"
  ct_reasons :: "string list"
  ct_heartbeat :: "nat \<Rightarrow> int \<Rightarrow> json_file"
  ct_timestamp :: "py_datetime \<Rightarrow> int"
  ct_discover :: "nat \<Rightarrow> pull list result"
  ct_create_issue :: "nat \<Rightarrow> string \<Rightarrow> string \<Rightarrow> string result"
  ct_run_stop :: "nat \<Rightarrow> int \<Rightarrow> unit result"
  ct_answer :: "nat \<Rightarrow> string \<Rightarrow> string \<Rightarrow> unit result"
  ct_updates :: "nat \<Rightarrow> int \<Rightarrow> telegram_update list result"

section \<open>Times\<close>

definition parse_time :: "control \<Rightarrow> string \<Rightarrow> int result" where
  "parse_time ctl v =
     (case parse_z (pe_texts (sv_policy_env (ct_env ctl))) v of
        None \<Rightarrow> raise PyValueError ''Invalid isoformat string'' | Some t \<Rightarrow> Inr (ct_timestamp ctl t))"

text \<open>Spans are microseconds.\<close>

definition duration :: "int \<Rightarrow> string" where
  "duration span =
     (let total = max 0 (span div 1000000); hours = total div 3600; mins = (total mod 3600) div 60
      in if hours \<noteq> 0 then emit_int hours @ ''h '' @ emit_int mins @ ''m'' else emit_int mins @ ''m'')"

definition heartbeat_interval :: "int \<Rightarrow> int" where
  "heartbeat_interval elapsed =
     (if elapsed < seconds 600 then 600 else if elapsed < seconds 3600 then 900 else 1800)"

section \<open>The heartbeat file\<close>

definition HEARTBEAT_KEYS :: "string list" where
  "HEARTBEAT_KEYS =
     [''schema_version'', ''issue'', ''milestone'', ''generation'', ''policy_generation'',
      ''policy_digest'', ''revision'', ''phase'', ''phase_started_at'', ''started_at'',
      ''total_elapsed_seconds'', ''last_activity_at'', ''runner_health'', ''changed_file_count'',
      ''validation_state'', ''pr_reference'', ''next_expected_transition'',
      ''last_completed_safe_step'']"

text \<open>\<^verbatim>\<open>isinstance(value, int)\<close>, which holds for a \<^verbatim>\<open>bool\<close>, and equality with a number.\<close>

definition is_int :: "json option \<Rightarrow> bool" where
  "is_int v = (case v of Some (JInt _) \<Rightarrow> True | Some (JBool _) \<Rightarrow> True | _ \<Rightarrow> False)"

definition equals_int :: "json option \<Rightarrow> int \<Rightarrow> bool" where
  "equals_int v n = (case v of Some (JInt i) \<Rightarrow> i = n | Some (JBool b) \<Rightarrow> n = (if b then 1 else 0) | _ \<Rightarrow> False)"

definition beat :: "(string \<times> json) list \<Rightarrow> string \<Rightarrow> string" where
  "beat h k = text_of (map_of h k)"

definition accepted_beat :: "control \<Rightarrow> int \<Rightarrow> (string \<times> json) list \<Rightarrow> bool" where
  "accepted_beat ctl issue h \<longleftrightarrow>
     equals_int (map_of h ''schema_version'') 1 \<and> equals_int (map_of h ''issue'') issue
     \<and> is_int (map_of h ''generation'') \<and> is_int (map_of h ''policy_generation'')
     \<and> (case map_of h ''policy_digest'' of Some (JStr s) \<Rightarrow> length s = 64 | _ \<Rightarrow> False)
     \<and> is_int (map_of h ''revision'')
     \<and> list_all (\<lambda>k. \<not> isl (parse_time ctl (beat h k)))
          [''started_at'', ''phase_started_at'', ''last_activity_at'']
     \<and> beat h ''runner_health'' \<in>
          {''active'', ''quiet'', ''possibly-stalled'', ''stalled'', ''completed'', ''failed''}
     \<and> is_int (map_of h ''changed_file_count'')"

definition ws_read_heartbeat :: "control \<Rightarrow> int \<Rightarrow> (sup_state, (string \<times> json) list option) proc" where
  "ws_read_heartbeat ctl issue =
     bindS (external (\<lambda>k. Inr (ct_heartbeat ctl k issue))) (\<lambda>f.
       case f of
         Parsed (JObj ms) \<Rightarrow>
           (let h = filter (\<lambda>(k, v). k \<in> set HEARTBEAT_KEYS) ms
            in ret (if accepted_beat ctl issue h then Some h else None))
       | Parsed _ \<Rightarrow> fail PyAttributeError ''object has no attribute get''
       | _ \<Rightarrow> ret None)"

section \<open>The card\<close>

definition newline :: string where
  "newline = [CHR 0x0A]"

definition policy_lines :: "policy \<Rightarrow> string \<Rightarrow> string" where
  "policy_lines pol state =
     ''Autonomy: '' @ ep_profile pol @ '' - generation '' @ emit_int (ep_generation pol)
       @ '' - digest '' @ take 12 (ep_digest pol) @ newline
     @ ''Policy: '' @ join '', '' (map (\<lambda>(a, d). a @ ''='' @ d) (ep_decisions pol)) @ newline
     @ (case ep_expires pol of Some (c # cs) \<Rightarrow> ''Lease expiry: '' @ (c # cs) @ newline | _ \<Rightarrow> [])
     @ (if state = ''mismatch'' then ''Configuration: mismatch - actions blocked'' @ newline
        else if state = ''expired-lease'' then ''Configuration: expired lease - actions blocked'' @ newline
        else if state = ''restart-required''
        then ''Configuration: restart required - actions blocked'' @ newline else [])"

record card =
  cd_milestone :: string
  cd_issue :: string
  cd_title :: string
  cd_paused :: bool
  cd_pr :: string
  cd_ci :: string
  cd_approval :: bool
  cd_queue :: string
  cd_now :: int

definition card_without_runner :: "card \<Rightarrow> string \<Rightarrow> string" where
  "card_without_runner c policy =
     (let progress = (if cd_issue c \<noteq> [] then ''issue #'' @ cd_issue c else cd_queue c);
          workflow = (if cd_paused c then ''paused'' else if cd_issue c = [] then ''idle'' else ''waiting'');
          next_step = (if cd_issue c = []
            then if cd_paused c then ''operator resume or queue selection'' else ''eligible issue selection''
            else if cd_paused c then ''operator action'' else ''runner startup or operator action'')
      in ''Fortify SDLC Workflow - '' @ cd_milestone c @ newline
         @ ''Milestone progress: '' @ progress @ newline
         @ ''Current: '' @ (if cd_title c = [] then ''none'' else cd_title c) @ newline
         @ ''Workflow: '' @ workflow @ newline @ ''Runner: no heartbeat'' @ newline
         @ ''PR / CI: '' @ cd_pr c @ '' / '' @ cd_ci c @ newline
         @ ''Approval ready: '' @ (if cd_approval c then ''yes'' else ''no'') @ newline
         @ policy @ ''Next: '' @ next_step)"

definition card_with_runner ::
    "control \<Rightarrow> card \<Rightarrow> string \<Rightarrow> (string \<times> json) list \<Rightarrow> string result" where
  "card_with_runner ctl c policy h =
     (case parse_time ctl (beat h ''started_at'') of Inl e \<Rightarrow> Inl e | Inr started \<Rightarrow>
     (case parse_time ctl (beat h ''phase_started_at'') of Inl e \<Rightarrow> Inl e | Inr phase_started \<Rightarrow>
     (case parse_time ctl (beat h ''last_activity_at'') of Inl e \<Rightarrow> Inl e | Inr activity \<Rightarrow>
      let now = seconds (cd_now c)
      in Inr (''Fortify SDLC Workflow - '' @ cd_milestone c @ newline
         @ ''Milestone progress: issue #'' @ cd_issue c @ '' - '' @ duration (now - started) @ '' elapsed'' @ newline
         @ ''Current: '' @ (if cd_title c = [] then ''title unavailable'' else cd_title c) @ newline
         @ ''Workflow: '' @ (if cd_paused c then ''paused'' else ''running'') @ newline
         @ ''Started: '' @ beat h ''started_at'' @ newline
         @ ''Last activity: '' @ duration (now - activity) @ '' ago'' @ newline
         @ ''Phase: '' @ beat h ''phase'' @ '' - '' @ duration (now - phase_started) @ newline
         @ ''Runner: '' @ beat h ''runner_health'' @ newline
         @ ''Changed files: '' @ beat h ''changed_file_count'' @ newline
         @ ''Validation: '' @ beat h ''validation_state'' @ newline
         @ ''PR / CI: '' @ cd_pr c @ '' / '' @ cd_ci c @ newline
         @ ''Approval ready: '' @ (if cd_approval c then ''yes'' else ''no'') @ newline
         @ policy
         @ ''Next: '' @ (if truthy (case map_of h ''next_expected_transition'' of None \<Rightarrow> JNull | Some v \<Rightarrow> v)
             then beat h ''next_expected_transition'' else ''operator review'')))))"

definition render_card ::
    "control \<Rightarrow> card \<Rightarrow> policy \<Rightarrow> string \<Rightarrow> (string \<times> json) list option \<Rightarrow> string result" where
  "render_card ctl c pol state h =
     (case h of
        None \<Rightarrow> Inr (card_without_runner c (policy_lines pol state))
      | Some ms \<Rightarrow> card_with_runner ctl c (policy_lines pol state) ms)"

definition render_stall :: "control \<Rightarrow> (string \<times> json) list \<Rightarrow> int \<Rightarrow> string result" where
  "render_stall ctl h now =
     (case parse_time ctl (beat h ''last_activity_at'') of Inl e \<Rightarrow> Inl e | Inr activity \<Rightarrow>
     (case parse_time ctl (beat h ''started_at'') of Inl e \<Rightarrow> Inl e | Inr started \<Rightarrow>
      Inr (''Runner '' @ beat h ''runner_health'' @ '' on issue #'' @ beat h ''issue'' @ ''.'' @ newline
         @ ''Phase: '' @ beat h ''phase'' @ newline
         @ ''Elapsed: '' @ duration (seconds now - started) @ newline
         @ ''Activity age: '' @ duration (seconds now - activity) @ newline
         @ ''Last safe step: ''
         @ (if truthy (case map_of h ''last_completed_safe_step'' of None \<Rightarrow> JNull | Some v \<Rightarrow> v)
            then beat h ''last_completed_safe_step'' else ''not recorded'') @ newline
         @ ''Actions: Status, Details, Refresh, Pause'')))"

section \<open>What the supervisor shows\<close>

definition all_digits :: "string \<Rightarrow> bool" where
  "all_digits s \<longleftrightarrow> s \<noteq> [] \<and> list_all is_digit s"

definition status_text :: "control \<Rightarrow> (sup_state, string) proc" where
  "status_text ctl =
     (let env = ct_env ctl
      in bindS paused (\<lambda>held.
         bindS (get_setting ''current_pr'' ''none'') (\<lambda>pr.
         bindS (get_setting ''current_issue'' '''') (\<lambda>issue.
         bindS (if ct_heartbeat_root ctl \<and> all_digits issue
                then ws_read_heartbeat ctl (int (digits_value issue)) else ret None) (\<lambda>heartbeat.
         bindS (gets (configuration_state env)) (\<lambda>state.
         bindS (active_milestone env) (\<lambda>milestone.
         bindS (get_setting ''current_issue_title'' '''') (\<lambda>title.
         bindS (get_setting ''ci_state'' ''not started'') (\<lambda>ci.
         bindS (gets (sv_now env)) (\<lambda>now.
         bindS (on_db (pending_approvals now ''merge_pr'')) (\<lambda>approvals.
         bindS (queue_state env) (\<lambda>queue.
         bindS (gets sv_policy) (\<lambda>pol.
           lift (render_card ctl
             \<lparr>cd_milestone = milestone, cd_issue = issue, cd_title = title, cd_paused = held,
              cd_pr = (if pr \<noteq> [] \<and> pr \<noteq> ''none'' then CHR ''#'' # pr else ''none''), cd_ci = ci,
              cd_approval = (approvals \<noteq> []), cd_queue = queue, cd_now = now\<rparr>
             pol state heartbeat))))))))))))))"

definition autonomy_text :: "control \<Rightarrow> (sup_state, string) proc" where
  "autonomy_text ctl =
     bindS paused (\<lambda>held.
     bindS (gets (configuration_state (ct_env ctl))) (\<lambda>state.
     bindS (gets sv_policy) (\<lambda>pol.
       ret (''Autonomy: '' @ ep_profile pol @ newline
         @ ''State: '' @ (if held then ''held'' else ''active'') @ newline
         @ ''Generation: '' @ emit_int (ep_generation pol) @ newline
         @ ''Digest: '' @ take 12 (ep_digest pol) @ newline
         @ ''Lease expiry: '' @ (case ep_expires pol of Some (c # cs) \<Rightarrow> c # cs | _ \<Rightarrow> ''none'') @ newline
         @ ''Configuration: '' @ state @ newline
         @ ''Policy: '' @ join '', '' (map (\<lambda>(a, d). a @ ''='' @ d) (ep_decisions pol))))))"

section \<open>The status message\<close>

definition payload_token ::
    "sup_env \<Rightarrow> string \<Rightarrow> int \<Rightarrow> string \<Rightarrow> json \<Rightarrow> (sup_state, string) proc" where
  "payload_token env action ttl actor payload =
     bindS (gets (\<lambda>s. (sv_now env s, sv_random env (length (db_tokens (sv_db s)))))) (\<lambda>(now, token).
       on_db (create_callback_token (sv_process env) (sv_sha256 env) token now action ttl None
                (Some actor) payload))"

definition workflow_actions :: "control \<Rightarrow> (sup_state, unit) proc" where
  "workflow_actions ctl =
     (let env = ct_env ctl
      in bindS (get_setting ''current_issue'' '''') (\<lambda>issue.
         bindS paused (\<lambda>held.
           for_each (if held then [''continue-general'', ''workflow-details'']
                     else if all_digits issue \<and> ct_stop_command ctl then [''workflow-details'', ''stop'']
                     else [''workflow-details'', ''refresh''])
             (\<lambda>action. thenS (payload_token env action (cf_ttl (sv_config env)) (sv_user env)
                (JObj (if all_digits issue then [(''issue'', JInt (int (digits_value issue)))] else [])))
                (ret ())))))"

definition update_status_card :: "control \<Rightarrow> bool \<Rightarrow> (sup_state, unit) proc" where
  "update_status_card ctl with_actions =
     (let env = ct_env ctl
      in thenS (if with_actions then ret () else workflow_actions ctl)
        (bindS (status_text ctl) (\<lambda>message.
         bindS (get_setting ''status_message_id'' '''') (\<lambda>message_id.
         bindS (if message_id = [] then ret False
                else handle (thenS (external (\<lambda>k. sv_edit env k message_id message)) (ret True)) (\<lambda>e.
                  if catches [SupervisorError] e
                  then bindS (gets (sv_now env)) (\<lambda>now.
                       thenS (record_event_once env (''status-card-edit:'' @ emit_int now)
                               ''communications.message_edit_failed''
                               (JObj [(''provider'', JStr ''telegram''), (''outcome'', JStr ''failed'')]))
                         (ret False))
                  else throw e)) (\<lambda>edited.
           if edited then ret ()
           else bindS (external (\<lambda>k. sv_send env k message)) (\<lambda>reference.
                set_setting env ''status_message_id'' reference))))))"

end
