(* ===== verification/SupMonitor.thy ===== *)
theory SupMonitor
  imports SupStatus
begin

text \<open>
  One pass of the monitor, \<^verbatim>\<open>monitor_once\<close> of \<^verbatim>\<open>Supervisor\<close>: the digest, the runner's heartbeat and the
  tracked pull request, up to the unattended or armed merge. Settings that hold numbers are read as the
  digits that the supervisor wrote.
\<close>

section \<open>The digest\<close>

definition digest_rows :: "sup_db \<Rightarrow> string \<Rightarrow> (string \<times> sup_note) list" where
  "digest_rows db current = take 25 (sort_key (\<lambda>(fp, n). (no_updated n, fp))
     (filter (\<lambda>(fp, n). no_state n = ''digest''
        \<and> (case no_bucket n of None \<Rightarrow> False | Some b \<Rightarrow> b < current)) (db_notes db)))"

definition bucket_text :: "sup_note \<Rightarrow> string" where
  "bucket_text n = (case no_bucket n of None \<Rightarrow> ''None'' | Some b \<Rightarrow> b)"

definition digest_message :: "(string \<times> sup_note) list \<Rightarrow> string" where
  "digest_message rows = take 3500 (join newline
     ((''Fortify SDLC digest ('' @ bucket_text (snd (hd rows)) @ '')'')
      # map (\<lambda>(fp, n). ''- ['' @ no_severity n @ ''] '' @ no_message n @ '' (x'' @ emit_int (no_occurrences n)
             @ '', ref '' @ fp @ '')'') rows))"

definition deliver_digest :: "control \<Rightarrow> (sup_state, unit) proc" where
  "deliver_digest ctl =
     (let env = ct_env ctl
      in bindS (gets (\<lambda>s. digest_rows (sv_db s) (digest_bucket env (sv_now env s)))) (\<lambda>rows.
         if rows = [] then ret ()
         else bindS (handle (bindS (external (\<lambda>k. sv_send env k (digest_message rows))) (\<lambda>r. ret (Some r))) (\<lambda>e.
                if catches [SupervisorError] e
                then bindS (gets (sv_now env)) (\<lambda>now.
                     thenS (record_event_once env
                             (''digest-delivery:'' @ bucket_text (snd (hd rows)) @ '':'' @ emit_int now)
                             ''communications.delivery_failed''
                             (JObj [(''provider'', JStr ''telegram''), (''type'', JStr ''digest'')]))
                       (ret None))
                else throw e)) (\<lambda>sent.
              case sent of
                None \<Rightarrow> ret ()
              | Some reference \<Rightarrow> for_each rows (\<lambda>(fp, n).
                  bindS (gets (sv_now env)) (\<lambda>now.
                    on_db (mark_notification (sv_process env) now fp ''delivered'' (Some reference)))))))"

section \<open>The runner\<close>

definition setting_number :: "string \<Rightarrow> int result" where
  "setting_number s = (if s = [] then Inr 0 else py_int (Some (JStr s)) 0)"

definition attest_runner ::
    "control \<Rightarrow> (string \<times> json) list \<Rightarrow> int \<Rightarrow> (sup_state, unit) proc" where
  "attest_runner ctl h now =
     (let env = ct_env ctl
      in if beat h ''runner_health'' \<in> {''completed'', ''failed''}
         then on_db (ss_unset (sv_process env) ''process_policy:runner'')
         else thenS (set_setting env ''process_policy:runner'' (dumps (JObj
                  [(''generation'', case map_of h ''policy_generation'' of None \<Rightarrow> JNull | Some v \<Rightarrow> v),
                   (''digest'', case map_of h ''policy_digest'' of None \<Rightarrow> JNull | Some v \<Rightarrow> v),
                   (''updated_at'', JInt now)])))
             (bindS (gets sv_policy) (\<lambda>pol.
                if \<not> equals_int (map_of h ''policy_generation'') (ep_generation pol)
                   \<or> beat h ''policy_digest'' \<noteq> ep_digest pol
                then thenS (set_setting env ''autonomy_configuration_state'' ''mismatch'')
                       (fail SupervisorError ''configuration mismatch; runner actions are blocked'')
                else ret ())))"

definition runner_transitions ::
    "control \<Rightarrow> string \<Rightarrow> string \<Rightarrow> (string \<times> json) list \<Rightarrow> int \<Rightarrow> (sup_state, unit) proc" where
  "runner_transitions ctl issue prefix h now =
     (let env = ct_env ctl; n = int (digits_value issue); phase = beat h ''phase'';
          health = beat h ''runner_health'';
          stalled = (\<lambda>x. x \<in> {''possibly-stalled'', ''stalled''})
      in bindS (get_setting (prefix @ '':phase'') '''') (\<lambda>previous_phase.
         bindS (get_setting (prefix @ '':health'') '''') (\<lambda>previous_health.
         bindS (on_db (ss_has_event (prefix @ '':started''))) (\<lambda>known.
         bindS (get_setting ''current_issue_title'' ''title unavailable'') (\<lambda>title.
         thenS (if known then ret ()
                else notify_once env (prefix @ '':started'') ''runner.started''
                       (''Work started on issue #'' @ issue @ '': '' @ title)
                       (JObj [(''issue'', JInt n), (''phase'', JStr phase)]) ''info'' True)
        (thenS (if previous_phase \<noteq> [] \<and> phase \<noteq> previous_phase \<and> phase \<in> {''waiting-for-approval'', ''failed''}
                then notify_once env (prefix @ '':phase:'' @ phase) ''runner.phase_attention''
                       (''Issue #'' @ issue @ '' entered '' @ phase @ ''.'')
                       (JObj [(''issue'', JInt n), (''phase'', JStr phase)])
                       (if phase = ''failed'' then ''failure'' else ''info'') True
                else ret ())
           (if stalled health \<and> health \<noteq> previous_health
            then bindS (lift (render_stall ctl h now)) (\<lambda>text.
                 notify_once env (prefix @ '':health:'' @ health) ''runner.stalled'' text
                   (JObj [(''issue'', JInt n), (''phase'', JStr phase), (''runner_health'', JStr health)])
                   ''failure'' True)
            else if stalled previous_health \<and> \<not> stalled health
            then notify_once env (prefix @ '':recovered:'' @ beat h ''revision'') ''runner.recovered''
                   (''Runner recovered on issue #'' @ issue @ ''; phase '' @ phase @ ''.'')
                   (JObj [(''issue'', JInt n), (''phase'', JStr phase)]) ''info'' True
            else ret ())))))))"

definition routine_heartbeat ::
    "control \<Rightarrow> string \<Rightarrow> string \<Rightarrow> (string \<times> json) list \<Rightarrow> int \<Rightarrow> (sup_state, unit) proc" where
  "routine_heartbeat ctl issue prefix h now =
     (let env = ct_env ctl
      in bindS (lift (parse_time ctl (beat h ''started_at''))) (\<lambda>started.
         let elapsed = max 0 (seconds now - started); interval = heartbeat_interval elapsed
         in bindS (get_setting (prefix @ '':last-routine'') ''0'') (\<lambda>last_text.
            bindS (lift (setting_number last_text)) (\<lambda>last_routine.
            bindS (get_setting ''last_meaningful_notification'' ''0'') (\<lambda>meaningful_text.
            bindS (lift (setting_number meaningful_text)) (\<lambda>meaningful_at.
            bindS (get_setting ''watched'' ''true'') (\<lambda>watched.
              if elapsed \<ge> seconds 600 \<and> (last_routine = 0 \<or> now - last_routine \<ge> interval)
                 \<and> watched = ''true'' \<and> \<not> quiet env now \<and> now - meaningful_at \<ge> min 600 interval
              then let slot = elapsed div seconds interval
                   in bindS (status_text ctl) (\<lambda>text.
                      thenS (notify_once env (prefix @ '':heartbeat:'' @ emit_int slot) ''runner.heartbeat'' text
                              (JObj [(''issue'', JInt (int (digits_value issue))),
                                     (''phase'', JStr (beat h ''phase'')), (''slot'', JInt slot)]) ''info'' False)
                        (set_setting env (prefix @ '':last-routine'') (emit_int now)))
              else ret ())))))))"

definition monitor_runner :: "control \<Rightarrow> (sup_state, unit) proc" where
  "monitor_runner ctl =
     (let env = ct_env ctl
      in bindS (get_setting ''current_issue'' '''') (\<lambda>issue.
         if \<not> all_digits issue \<or> \<not> ct_heartbeat_root ctl then ret ()
         else bindS (ws_read_heartbeat ctl (int (digits_value issue))) (\<lambda>heartbeat.
           case heartbeat of
             None \<Rightarrow> ret ()
           | Some h \<Rightarrow>
               bindS (gets (sv_now env)) (\<lambda>now.
               bindS (lift (py_int (map_of h ''generation'') 0)) (\<lambda>generation.
               let prefix = ''runner:'' @ issue @ '':'' @ emit_int generation
               in thenS (attest_runner ctl h now)
                 (thenS (runner_transitions ctl issue prefix h now)
                 (thenS (routine_heartbeat ctl issue prefix h now)
                 (thenS (set_setting env (prefix @ '':phase'') (beat h ''phase''))
                 (thenS (set_setting env (prefix @ '':health'') (beat h ''runner_health''))
                 (bindS (gets (sv_now env)) (\<lambda>later.
                  bindS (on_db (pending_approvals later ''merge_pr'')) (\<lambda>approvals.
                    if approvals = [] then update_status_card ctl False else ret ()))))))))))))"


section \<open>The tracked pull request\<close>

text \<open>The pull request to look at: the one that is tracked, or the only open one of an agent.\<close>

definition track_pull_request :: "control \<Rightarrow> (sup_state, string option) proc" where
  "track_pull_request ctl =
     (let env = ct_env ctl
      in bindS (get_setting ''current_pr'' '''') (\<lambda>number.
         if number \<noteq> [] then ret (Some number)
         else bindS (external (ct_discover ctl)) (\<lambda>found.
           case filter (\<lambda>pr. take 6 (pu_branch pr) = ''agent/'') found of
             [] \<Rightarrow> bindS (get_setting ''current_issue'' '''') (\<lambda>issue.
                    thenS (if issue = []
                           then thenS (queue_next_issue (ct_depth ctl) env (ct_gh ctl) None False) (ret ())
                           else ret ())
                      (ret None))
           | [pr] \<Rightarrow>
               thenS (set_setting env ''current_pr'' (emit_int (pu_number pr)))
              (thenS (notify_once env (''pr:'' @ emit_int (pu_number pr) @ '':created'') ''pull_request.created''
                        (''PR #'' @ emit_int (pu_number pr) @ '' created for the active workflow.'')
                        (JObj [(''pull_request'', JInt (pu_number pr))]) ''info'' True)
                 (ret (Some (emit_int (pu_number pr)))))
           | candidates \<Rightarrow>
               thenS (notify_once env ''pr:ambiguous'' ''supervisor.attention''
                        ''Multiple agent PRs are open; track one explicitly.''
                        (JObj [(''count'', JInt (int (length candidates)))]) ''failure'' False)
                 (ret None))))"

definition note_closed :: "control \<Rightarrow> string \<Rightarrow> int \<Rightarrow> string \<Rightarrow> (sup_state, unit) proc" where
  "note_closed ctl number n sha =
     (let env = ct_env ctl; notice = ''pr:'' @ number @ '':closed-notice:'' @ sha
      in bindS (record_event_once env (''pr:'' @ number @ '':closed:'' @ sha) ''pull_request.closed''
                  (JObj [(''pull_request'', JInt n), (''head_sha'', JStr sha)])) (\<lambda>fresh.
           if \<not> fresh then ret ()
           else thenS (notify_once env notice ''pull_request.closed_notice''
                    (''PR #'' @ number @ '' closed without merge. Work is paused.'' @ newline
                      @ ''Stage: review'' @ newline @ ''Failure: closed-without-merge'' @ newline
                      @ ''Issue: /issue '' @ notice)
                    (JObj [(''pull_request'', JInt n), (''head_sha'', JStr sha), (''stage'', JStr ''review''),
                       (''code'', JStr ''closed-without-merge''), (''retryable'', JBool False)])
                    ''failure'' False)
                (set_setting env ''paused'' ''true'')))"

definition note_changes :: "control \<Rightarrow> string \<Rightarrow> int \<Rightarrow> string \<Rightarrow> (sup_state, unit) proc" where
  "note_changes ctl number n sha =
     (let env = ct_env ctl; fp = ''pr:'' @ number @ '':changes:'' @ sha
      in notify_once env fp ''pull_request.changes_requested''
           (''Changes requested on PR #'' @ number @ ''.'' @ newline @ ''Stage: review'' @ newline
             @ ''Failure: changes-requested'' @ newline @ ''Pause: /pause'' @ newline @ ''Issue: /issue '' @ fp)
           (JObj [(''pull_request'', JInt n), (''head_sha'', JStr sha), (''stage'', JStr ''review''),
              (''code'', JStr ''changes-requested''),
              (''retryable'', JBool (''review'' \<in> set (ct_retry_stages ctl)))])
           ''failure'' False)"

definition note_ci :: "control \<Rightarrow> string \<Rightarrow> int \<Rightarrow> string \<Rightarrow> string \<Rightarrow> (sup_state, unit) proc" where
  "note_ci ctl number n sha state =
     (let env = ct_env ctl; key = ''pr:'' @ number @ '':ci''
      in bindS (get_setting key '''') (\<lambda>previous.
         thenS (set_setting env ''ci_state'' state)
        (thenS (set_setting env key state)
           (if previous = ''pending'' \<and> state \<in> {''passed'', ''failed''}
            then notify_once env (key @ '':'' @ sha @ '':'' @ state) ''pull_request.ci_completed''
                   (''CI '' @ state @ '' for PR #'' @ number @ ''.'')
                   (JObj [(''pull_request'', JInt n), (''ci_state'', JStr state)])
                   (if state = ''failed'' then ''failure'' else ''info'') True
            else ret ()))))"

definition note_failed_checks :: "control \<Rightarrow> string \<Rightarrow> int \<Rightarrow> string \<Rightarrow> (sup_state, unit) proc" where
  "note_failed_checks ctl number n sha =
     (let env = ct_env ctl; fp = ''pr:'' @ number @ '':checks-failed:'' @ sha;
          retryable = ''checks'' \<in> set (ct_retry_stages ctl)
      in thenS (notify_once env fp ''pull_request.checks_failed''
           (''Checks failed on PR #'' @ number @ ''.'' @ newline @ ''Stage: checks'' @ newline
             @ ''Failure: checks-failed'' @ newline
             @ (if retryable then ''Retry: /retry checks'' @ newline else [])
             @ ''Pause: /pause'' @ newline @ ''Issue: /issue '' @ fp)
           (JObj [(''pull_request'', JInt n), (''head_sha'', JStr sha), (''stage'', JStr ''checks''),
              (''code'', JStr ''checks-failed''), (''retryable'', JBool retryable)])
           ''failure'' False)
         (if \<not> retryable then ret ()
          else bindS (sup_policy_decision ''retry_idempotent_failure'') (\<lambda>decision.
            if decision = ''auto''
            then thenS (record_event_once env (''retry:pr:'' @ number @ '':checks:'' @ sha)
                   ''recovery.retry_requested''
                   (JObj [(''actor'', JStr ''autonomy-policy''), (''pull_request'', JInt n),
                      (''stage'', JStr ''checks''), (''verified_idempotent'', JBool True)]))
                 (ret ())
            else ret ())))"

section \<open>Merging\<close>

definition merge_exception ::
    "control \<Rightarrow> string \<Rightarrow> int \<Rightarrow> string \<Rightarrow> string \<Rightarrow> (sup_state, unit) proc" where
  "merge_exception ctl number n sha message =
     (let env = ct_env ctl
      in bindS (on_db (ss_notification (''pr:'' @ number @ '':automatic-merge:'' @ sha))) (\<lambda>note.
         notify_once env
           (''pr:'' @ number @ '':autonomous-exception:'' @ sha @ '':'' @ take 12 (sv_sha256 env message))
           ''pull_request.autonomous_exception''
           ((if note \<noteq> None then ''Automatic post-merge progression failed for PR #''
             else ''Automatic merge blocked for PR #'') @ number @ '': '' @ message)
           (JObj [(''pull_request'', JInt n), (''head_sha'', JStr sha), (''reason'', JStr message),
              (''merged'', JBool (note \<noteq> None))])
           ''failure'' True))"

definition merge_unattended ::
    "control \<Rightarrow> string \<Rightarrow> int \<Rightarrow> string \<Rightarrow> pull \<Rightarrow> json \<Rightarrow> string \<Rightarrow> (sup_state, unit) proc" where
  "merge_unattended ctl number n sha pr payload approval_id =
     (let env = ct_env ctl; gh = ct_gh ctl
      in handle (thenS (verify_autonomous_merge env gh pr payload True)
                (thenS (sup_approve (ct_depth ctl) env gh approval_id ''autonomy-policy'') (ret ())))
           (\<lambda>e. if catches [SupervisorError] e then merge_exception ctl number n sha (exn_msg e)
                else throw e))"

definition announce_ready ::
    "control \<Rightarrow> string \<Rightarrow> int \<Rightarrow> string \<Rightarrow> string \<Rightarrow> (sup_state, unit) proc" where
  "announce_ready ctl number n sha approval_id =
     (let env = ct_env ctl; fp = ''pr:'' @ number @ '':approval-ready:'' @ sha
      in bindS (on_db (ss_notification fp)) (\<lambda>note.
           if (case note of None \<Rightarrow> True | Some row \<Rightarrow> no_state row = ''pending'')
           then thenS (for_each [''approve'', ''reject'', ''details''] (\<lambda>action.
                         thenS (new_token env action (Some approval_id)) (ret ())))
               (thenS (notify_once env fp ''pull_request.approval_ready''
                         (''PR #'' @ number @ '' is ready for operator approval.'')
                         (JObj [(''pull_request'', JInt n), (''head_sha'', JStr sha)]) ''info'' True)
                  (update_status_card ctl True))
           else ret ()))"

definition offer_merge ::
    "control \<Rightarrow> string \<Rightarrow> int \<Rightarrow> string \<Rightarrow> pull \<Rightarrow> (sup_state, unit) proc" where
  "offer_merge ctl number n sha pr =
     (let env = ct_env ctl; gh = ct_gh ctl
      in bindS (sup_policy_decision ''merge_pull_request'') (\<lambda>decision.
         if decision = ''disabled'' then ret ()
         else let payload = JObj [(''repository'', JStr (cf_repository (sv_config env))),
                                  (''pull_request'', JInt n), (''head_sha'', JStr sha)]
              in bindS (gets (sv_now env)) (\<lambda>now.
                 thenS (on_db (supersede_merge_approvals (sv_process env) now n sha))
                (bindS (find_or_create_approval env ''merge_pr'' payload) (\<lambda>approval.
                 if decision = ''auto'' then merge_unattended ctl number n sha pr payload (sa_id approval)
                 else bindS (get_setting ''autonomy_approve_once'' '''') (\<lambda>armed.
                   if armed = ''true''
                   then thenS (set_setting env ''autonomy_approve_once'' ''false'')
                       (thenS (sup_approve (ct_depth ctl) env gh (sa_id approval) ''autonomy-approve-once'')
                          (ret ()))
                   else announce_ready ctl number n sha (sa_id approval)))))))"

definition watch_open ::
    "control \<Rightarrow> string \<Rightarrow> int \<Rightarrow> string \<Rightarrow> pull \<Rightarrow> (sup_state, unit) proc" where
  "watch_open ctl number n sha pr =
     (let state = checks_state pr
      in thenS (note_ci ctl number n sha state)
           (if state = ''failed'' then note_failed_checks ctl number n sha
            else if state \<noteq> ''passed'' \<or> pu_mergeable pr \<noteq> ''MERGEABLE'' then ret ()
            else offer_merge ctl number n sha pr))"

definition watch_pull_request :: "control \<Rightarrow> string \<Rightarrow> (sup_state, unit) proc" where
  "watch_pull_request ctl number =
     bindS (lift (py_int (Some (JStr number)) 0)) (\<lambda>n.
     bindS (gh_pull_request (ct_gh ctl) n) (\<lambda>pr.
       let sha = (case pu_head pr of None \<Rightarrow> [] | Some h \<Rightarrow> h)
       in if pu_state pr = ''MERGED'' \<or> pu_merged pr
          then thenS (complete_merged_pull_request (ct_depth ctl) (ct_env ctl) (ct_gh ctl) pr) (ret ())
          else if pu_state pr = ''CLOSED'' then note_closed ctl number n sha
          else if pu_review pr = ''CHANGES_REQUESTED'' then note_changes ctl number n sha
          else watch_open ctl number n sha pr))"

definition monitor_once :: "control \<Rightarrow> (sup_state, unit) proc" where
  "monitor_once ctl =
     thenS (require_consistent_policy (ct_env ctl) ''monitor'' False)
    (thenS (deliver_digest ctl)
    (thenS (monitor_runner ctl)
    (bindS paused (\<lambda>held.
       if held then ret ()
       else bindS (track_pull_request ctl) (\<lambda>number.
         case number of None \<Rightarrow> ret () | Some t \<Rightarrow> watch_pull_request ctl t)))))"

end
