(* ===== verification/SupControl.thy ===== *)
theory SupControl
  imports SupMonitor
begin

text \<open>
  The private Telegram channel of \<^verbatim>\<open>Supervisor\<close>: callbacks, commands and the loop that reads updates.
  \<open>shlex_split\<close> is \<^verbatim>\<open>shlex.split\<close> in its POSIX mode. Symbols that are not ASCII are left out of the
  texts, and buttons out of the messages.
\<close>

section \<open>Splitting a command\<close>

datatype lex_mode = Between | InWord | InQuote char | Escaped lex_mode

definition shlex_space :: "char \<Rightarrow> bool" where
  "shlex_space c \<longleftrightarrow> c \<in> {CHR '' '', CHR 0x09, CHR 0x0D, CHR 0x0A}"

definition shlex_quote :: "char \<Rightarrow> bool" where
  "shlex_quote c \<longleftrightarrow> c \<in> {CHR 0x27, CHR 0x22}"

definition shlex_escape :: "char \<Rightarrow> bool" where
  "shlex_escape c \<longleftrightarrow> c = CHR 0x5C"

text \<open>A backslash inside double quotes stays unless it escapes the quote or itself.\<close>

definition shlex_kept :: "lex_mode \<Rightarrow> char \<Rightarrow> string" where
  "shlex_kept m c = (case m of InQuote q \<Rightarrow> if \<not> shlex_escape c \<and> c \<noteq> q then [CHR 0x5C] else [] | _ \<Rightarrow> [])"

fun shlex_scan :: "lex_mode \<Rightarrow> string \<Rightarrow> string \<Rightarrow> string list result" where
  "shlex_scan Between tok [] = Inr []"
| "shlex_scan InWord tok [] = Inr [tok]"
| "shlex_scan (InQuote q) tok [] = raise PyValueError ''No closing quotation''"
| "shlex_scan (Escaped m) tok [] = raise PyValueError ''No escaped character''"
| "shlex_scan Between tok (c # cs) =
     (if shlex_space c then shlex_scan Between [] cs
      else if shlex_escape c then shlex_scan (Escaped InWord) [] cs
      else if shlex_quote c then shlex_scan (InQuote c) [] cs
      else shlex_scan InWord [c] cs)"
| "shlex_scan InWord tok (c # cs) =
     (if shlex_space c
      then (case shlex_scan Between [] cs of Inl e \<Rightarrow> Inl e | Inr ws \<Rightarrow> Inr (tok # ws))
      else if shlex_quote c then shlex_scan (InQuote c) tok cs
      else if shlex_escape c then shlex_scan (Escaped InWord) tok cs
      else shlex_scan InWord (tok @ [c]) cs)"
| "shlex_scan (InQuote q) tok (c # cs) =
     (if c = q then shlex_scan InWord tok cs
      else if shlex_escape c \<and> q = CHR 0x22 then shlex_scan (Escaped (InQuote q)) tok cs
      else shlex_scan (InQuote q) (tok @ [c]) cs)"
| "shlex_scan (Escaped m) tok (c # cs) = shlex_scan m (tok @ shlex_kept m c @ [c]) cs"

definition shlex_split :: "string \<Rightarrow> string list result" where
  "shlex_split text = shlex_scan Between [] text"

text \<open>\<^verbatim>\<open>word.split("@", 1)[0].lower()\<close>.\<close>

definition command_name :: "string \<Rightarrow> string" where
  "command_name s = List.map to_lower (takeWhile (\<lambda>c. c \<noteq> CHR ''@'') s)"

section \<open>Changing the autonomy\<close>

definition note_event :: "control \<Rightarrow> string \<Rightarrow> string \<Rightarrow> json \<Rightarrow> (sup_state, unit) proc" where
  "note_event ctl fp kind payload = thenS (record_event_once (ct_env ctl) fp kind payload) (ret ())"

text \<open>An event whose fingerprint holds the time: \<open>name:now\<close> and a suffix.\<close>

definition timed_event ::
    "control \<Rightarrow> string \<Rightarrow> string \<Rightarrow> string \<Rightarrow> (string \<times> json) list \<Rightarrow> (sup_state, unit) proc" where
  "timed_event ctl name suffix kind payload =
     bindS (gets (sv_now (ct_env ctl))) (\<lambda>now.
       note_event ctl (name @ '':'' @ emit_int now @ suffix) kind (JObj payload))"

definition request_confirmation ::
    "control \<Rightarrow> string \<Rightarrow> json \<Rightarrow> string \<Rightarrow> (sup_state, string) proc" where
  "request_confirmation ctl action payload actor =
     bindS (payload_token (ct_env ctl) action (min 300 (cf_ttl (sv_config (ct_env ctl)))) actor payload)
       (\<lambda>token. ret (''Pending confirmation. This request expires in 5 minutes and is ''
          @ ''single-use. Confirm with /confirm '' @ token))"

definition change_profile :: "control \<Rightarrow> json \<Rightarrow> (sup_state, string) proc" where
  "change_profile ctl payload =
     (let env = ct_env ctl; profile = text_of (json_get payload ''profile'')
      in if profile \<notin> {''manual'', ''assisted'', ''autonomous''}
         then fail SupervisorError ''Unsupported autonomy change''
         else if \<not> cf_policy_file (sv_config env) then fail SupervisorError ''configuration restart required''
         else bindS (gets (\<lambda>s. ep_generation (sv_policy s))) (\<lambda>generation.
              bindS (handle (run_replace_policy env profile (generation + 1)
                       (case json_get payload ''expires_at'' of
                          None \<Rightarrow> None | Some v \<Rightarrow> if truthy v then Some (text_of (Some v)) else None))
                     (\<lambda>e. if catches [AutonomyPolicyError] e then fail SupervisorError (exn_msg e)
                          else throw e)) (\<lambda>new.
              thenS (modify (\<lambda>s. s\<lparr>sv_policy := new\<rparr>))
             (thenS (audit_policy env) (ret (''Autonomy changed to '' @ profile))))))"

definition announce_profile :: "control \<Rightarrow> string \<Rightarrow> (sup_state, unit) proc" where
  "announce_profile ctl actor =
     bindS (gets sv_policy) (\<lambda>pol.
       notify_once (ct_env ctl)
         (''autonomy:activated:'' @ emit_int (ep_generation pol) @ '':'' @ ep_digest pol)
         ''autonomy.activated''
         (if ep_profile pol = ''autonomous''
          then ''Autonomous mode activated until '' @ text_of (map_option JStr (ep_expires pol)) @ ''.''
          else ''Autonomy changed to '' @ ep_profile pol @ ''.'')
         (JObj [(''actor'', JStr actor), (''profile'', JStr (ep_profile pol)),
            (''generation'', JInt (ep_generation pol)),
            (''expires_at'', case ep_expires pol of None \<Rightarrow> JNull | Some t \<Rightarrow> JStr t)])
         ''info'' True)"

definition apply_autonomy_change :: "control \<Rightarrow> json \<Rightarrow> string \<Rightarrow> (sup_state, string) proc" where
  "apply_autonomy_change ctl payload actor =
     (let env = ct_env ctl; operation = text_of (json_get payload ''operation'')
      in bindS (if operation = ''hold'' then thenS (set_setting env ''paused'' ''true'') (ret ''Held'')
                else if operation = ''resume''
                then thenS (set_setting env ''paused'' ''false'') (ret ''Resumed'')
                else if operation = ''approve-once''
                then thenS (set_setting env ''autonomy_approve_once'' ''true'')
                       (ret ''One merge approval armed'')
                else change_profile ctl payload) (\<lambda>result.
         bindS (gets sv_policy) (\<lambda>pol.
         bindS (gets (\<lambda>s. sv_random env (length (db_events (sv_db s))))) (\<lambda>token.
         thenS (timed_event ctl ''autonomy-control'' (CHR '':'' # token) ''autonomy.control_changed''
                  [(''actor'', JStr actor), (''operation'', JStr operation),
                   (''profile'', JStr (ep_profile pol)), (''generation'', JInt (ep_generation pol)),
                   (''digest'', JStr (ep_digest pol))])
        (thenS (reload_policy env ''listener'')
        (thenS (if operation = ''profile'' then announce_profile ctl actor else ret ())
        (bindS (autonomy_text ctl) (\<lambda>text. ret (result @ ''. '' @ text)))))))))"

section \<open>Callbacks\<close>

definition merge_state_text :: "pull \<Rightarrow> string" where
  "merge_state_text pr = (case pu_merge_state pr of None \<Rightarrow> ''unknown'' | Some t \<Rightarrow> t)"

text \<open>The plan of the approval behind a callback is verified before the token is spent.\<close>

definition verify_candidate :: "control \<Rightarrow> sup_token \<Rightarrow> (sup_state, pull option) proc" where
  "verify_candidate ctl row =
     (case tk_approval row of
        Some (c # cs) \<Rightarrow>
          bindS (on_db (ss_approval (c # cs))) (\<lambda>approval.
            if sa_action approval = ''merge_pr''
            then bindS (lift (payload_number (sa_payload approval))) (\<lambda>n.
                 bindS (gh_pull_request (ct_gh ctl) n) (\<lambda>pr.
                 thenS (lift (verify_merge_plan pr (sa_payload approval) True)) (ret (Some pr))))
            else if sa_action approval = ''milestone_rollover''
            then thenS (verify_milestone_rollover (ct_env ctl) (ct_gh ctl) (sa_payload approval)) (ret None)
            else fail SupervisorError ''Unsupported approval action'')
      | _ \<Rightarrow> ret None)"

definition workflow_details :: "control \<Rightarrow> (sup_state, string) proc" where
  "workflow_details ctl =
     bindS (status_text ctl) (\<lambda>text.
     bindS (get_setting ''current_pr'' '''') (\<lambda>number.
       if \<not> all_digits number then ret (''Workflow details'' @ newline @ text)
       else bindS (gh_pull_request (ct_gh ctl) (int (digits_value number))) (\<lambda>pr.
         ret (''Workflow details'' @ newline @ text @ newline @ ''Checks: '' @ checks_state pr
           @ newline @ ''Merge: '' @ merge_state_text pr @ newline @ pu_url pr))))"

definition toggle_watch :: "control \<Rightarrow> string \<Rightarrow> (sup_state, string) proc" where
  "toggle_watch ctl actor =
     bindS (get_setting ''watched'' ''true'') (\<lambda>w.
       let watched = (w = ''true'')
       in thenS (set_setting (ct_env ctl) ''watched'' (if watched then ''false'' else ''true''))
         (thenS (timed_event ctl ''watch'' (CHR '':'' # actor) ''runner.watch_changed''
                   [(''actor'', JStr actor), (''watched'', JBool (\<not> watched))])
           (ret (if \<not> watched then ''Workflow watched'' else ''Routine updates muted''))))"

definition confirm_stop :: "control \<Rightarrow> json \<Rightarrow> string \<Rightarrow> (sup_state, string) proc" where
  "confirm_stop ctl payload actor =
     bindS (lift (py_int (json_get payload ''issue'') 0)) (\<lambda>issue.
       if \<not> ct_stop_command ctl \<or> issue < 1 then fail SupervisorError ''Stop is disabled by local policy''
       else thenS (logged (StopRunner issue) (\<lambda>k. ct_run_stop ctl k issue))
         (thenS (timed_event ctl (''runner:'' @ emit_int issue @ '':stop'') [] ''runner.stop_requested''
                   [(''actor'', JStr actor), (''issue'', JInt issue)])
           (ret (''Stop requested for issue #'' @ emit_int issue))))"

definition reject_merge :: "control \<Rightarrow> string \<Rightarrow> json \<Rightarrow> string \<Rightarrow> (sup_state, string) proc" where
  "reject_merge ctl approval_id payload actor =
     (let env = ct_env ctl
      in bindS (gets (sv_now env)) (\<lambda>now.
         bindS (case ct_reasons ctl of [] \<Rightarrow> fail PyIndexError ''tuple index out of range''
                | reason # _ \<Rightarrow> ret reason) (\<lambda>reason.
         thenS (on_db (ss_decide (sv_process env) now approval_id ''rejected'' actor reason))
        (bindS (lift (payload_number payload)) (\<lambda>n.
         thenS (note_event ctl (''approval:'' @ approval_id @ '':rejected'') ''pull_request.merge_rejected''
                  (JObj [(''pull_request'', JInt n), (''actor'', JStr actor)]))
           (ret ''PR merge rejected''))))))"

definition defer_rollover :: "control \<Rightarrow> string \<Rightarrow> json \<Rightarrow> string \<Rightarrow> (sup_state, string) proc" where
  "defer_rollover ctl approval_id payload actor =
     (let env = ct_env ctl
      in bindS (gets (sv_now env)) (\<lambda>now.
         thenS (on_db (ss_decide (sv_process env) now approval_id ''rejected'' actor ''operator-deferred''))
        (thenS (set_setting env ''paused'' ''true'')
        (bindS (lift (payload_key payload ''from'')) (\<lambda>v.
         bindS (lift (payload_key payload ''to'')) (\<lambda>w.
         thenS (note_event ctl (''approval:'' @ approval_id @ '':rollover-deferred'')
                  ''milestone.rollover_deferred''
                  (JObj [(''actor'', JStr actor), (''from'', v), (''to'', w)]))
           (ret ''Milestone rollover deferred; supervisor paused'')))))))"

definition merge_details :: "json \<Rightarrow> pull option \<Rightarrow> (sup_state, string) proc" where
  "merge_details payload pr =
     (case pr of
        None \<Rightarrow> fail PyAssertionError []
      | Some p \<Rightarrow> bindS (lift (payload_key payload ''pull_request'')) (\<lambda>n.
          ret (''PR #'' @ text_of (Some n) @ newline @ ''Checks: '' @ checks_state p @ newline
            @ ''Merge: '' @ merge_state_text p @ newline
            @ ''Draft: '' @ (if pu_draft p then ''yes'' else ''no'') @ newline
            @ ''Head: '' @ take 12 (case pu_head p of None \<Rightarrow> [] | Some h \<Rightarrow> h) @ newline @ pu_url p)))"

definition pause_for :: "control \<Rightarrow> string \<Rightarrow> json \<Rightarrow> string \<Rightarrow> (sup_state, string) proc" where
  "pause_for ctl approval_id payload actor =
     thenS (set_setting (ct_env ctl) ''paused'' ''true'')
    (bindS (lift (payload_number payload)) (\<lambda>n.
     thenS (note_event ctl (''callback:'' @ approval_id @ '':paused'') ''supervisor.paused''
              (JObj [(''actor'', JStr actor), (''pull_request'', JInt n)]))
       (ret ''Supervisor paused'')))"

definition callback_on_approval ::
    "control \<Rightarrow> string \<Rightarrow> sup_token \<Rightarrow> pull option \<Rightarrow> (sup_state, string) proc" where
  "callback_on_approval ctl actor row found =
     (let env = ct_env ctl; action = tk_action row;
          approval_id = (case tk_approval row of None \<Rightarrow> [] | Some i \<Rightarrow> i)
      in bindS (on_db (ss_approval approval_id)) (\<lambda>approval.
         let payload = sa_payload approval;
             pr = (if sa_action approval = ''merge_pr'' then found else None)
         in if action = ''advance-milestone''
            then approve_milestone_rollover (ct_depth ctl) env (ct_gh ctl) approval_id actor
            else if action = ''stay-milestone'' then defer_rollover ctl approval_id payload actor
            else if action = ''approve'' then sup_approve (ct_depth ctl) env (ct_gh ctl) approval_id actor
            else if action = ''reject'' then reject_merge ctl approval_id payload actor
            else if action = ''pause'' then pause_for ctl approval_id payload actor
            else if action = ''details'' then merge_details payload pr
            else fail SupervisorError ''Unsupported callback action''))"

definition set_pause ::
    "control \<Rightarrow> bool \<Rightarrow> string \<Rightarrow> string \<Rightarrow> string \<Rightarrow> string \<Rightarrow> (sup_state, string) proc" where
  "set_pause ctl held name suffix actor answer =
     thenS (set_setting (ct_env ctl) ''paused'' (if held then ''true'' else ''false''))
    (thenS (timed_event ctl name suffix (if held then ''supervisor.paused'' else ''supervisor.continued'')
              [(''actor'', JStr actor)])
       (ret answer))"

definition run_callback ::
    "control \<Rightarrow> string \<Rightarrow> sup_token \<Rightarrow> pull option \<Rightarrow> (sup_state, string) proc" where
  "run_callback ctl actor row found =
     (let action = tk_action row; payload = tk_payload row
      in if action = ''autonomy-change''
         then thenS (require_consistent_policy (ct_env ctl) ''listener''
                       (json_get payload ''operation'' = Some (JStr ''profile'')))
                (apply_autonomy_change ctl payload actor)
         else if action \<in> {''status'', ''refresh''} then status_text ctl
         else if action = ''workflow-details'' then workflow_details ctl
         else if action = ''watch'' then toggle_watch ctl actor
         else if action = ''pause-general''
         then set_pause ctl True ''pause'' (CHR '':'' # actor) actor ''Supervisor paused''
         else if action = ''continue-general''
         then set_pause ctl False ''continue'' (CHR '':'' # actor) actor ''Supervisor resumed''
         else if action = ''stop''
         then if \<not> ct_stop_command ctl then fail SupervisorError ''Stop is disabled by local policy''
              else bindS (payload_token (ct_env ctl) ''stop-confirm''
                            (min 300 (cf_ttl (sv_config (ct_env ctl)))) actor payload)
                     (\<lambda>token. ret (''CONFIRM_STOP:'' @ token))
         else if action = ''stop-confirm'' then confirm_stop ctl payload actor
         else callback_on_approval ctl actor row found)"

definition execute_callback :: "control \<Rightarrow> string \<Rightarrow> string \<Rightarrow> (sup_state, string) proc" where
  "execute_callback ctl token actor =
     (let env = ct_env ctl
      in bindS (gets (\<lambda>s. find_token (sv_db s) (sv_sha256 env token))) (\<lambda>candidate.
           case candidate of
             None \<Rightarrow> fail SupervisorError ''This action is invalid or no longer available''
           | Some row \<Rightarrow>
               thenS (if tk_action row \<in> {''status'', ''refresh'', ''workflow-details'', ''details''} then ret ()
                      else require_consistent_policy env ''listener''
                             (tk_action row = ''autonomy-change''
                                \<and> json_get (tk_payload row) ''operation'' = Some (JStr ''profile'')))
              (bindS (verify_candidate ctl row) (\<lambda>found.
               bindS (gets (sv_now env)) (\<lambda>now.
               bindS (on_db (consume_callback_token (sv_process env) (sv_sha256 env) now token actor))
                 (\<lambda>spent. run_callback ctl actor spent found))))))"

section \<open>The channel\<close>

definition tg_send :: "control \<Rightarrow> string \<Rightarrow> (sup_state, unit) proc" where
  "tg_send ctl text = thenS (external (\<lambda>k. sv_send (ct_env ctl) k text)) (ret ())"

definition tg_answer :: "control \<Rightarrow> string \<Rightarrow> string \<Rightarrow> (sup_state, unit) proc" where
  "tg_answer ctl i text = external (\<lambda>k. ct_answer ctl k i (take 200 text))"

definition authorized :: "control \<Rightarrow> string \<Rightarrow> update_message \<Rightarrow> bool" where
  "authorized ctl sender m \<longleftrightarrow> me_chat_type m = ''private'' \<and> sender = sv_user (ct_env ctl)
     \<and> me_chat m = ct_chat ctl"

text \<open>The message of an update, with its sender, when both are the configured operator's.\<close>

definition authorized_message :: "control \<Rightarrow> telegram_update \<Rightarrow> (string \<times> update_message) option" where
  "authorized_message ctl u =
     (case up_callback u of
        Some c \<Rightarrow> (case cb_message c of
             None \<Rightarrow> None
           | Some m \<Rightarrow> if authorized ctl (cb_sender c) m then Some (cb_sender c, m) else None)
      | None \<Rightarrow> (case up_message u of
             None \<Rightarrow> None
           | Some m \<Rightarrow> if authorized ctl (me_sender m) m then Some (me_sender m, m) else None))"

definition show_outcome ::
    "control \<Rightarrow> callback \<Rightarrow> update_message \<Rightarrow> string \<Rightarrow> (sup_state, unit) proc" where
  "show_outcome ctl c m outcome =
     (let env = ct_env ctl; starts = (\<lambda>p. take (length p) outcome = p)
      in if starts ''CONFIRM_STOP:''
         then thenS (tg_send ctl (''Confirm stopping the active bounded runner. ''
                       @ ''This does not delete its worktree or data.''))
                (tg_answer ctl (cb_id c) ''Confirmation sent'')
         else if starts ''PR #'' \<or> starts ''Workflow details''
         then thenS (tg_send ctl outcome) (tg_answer ctl (cb_id c) ''Details sent'')
         else thenS (handle (bindS (status_text ctl) (\<lambda>text.
                              external (\<lambda>k. sv_edit env k (me_id m) text))) (\<lambda>e.
                       if catches [SupervisorError] e
                       then note_event ctl (''callback-edit:'' @ sv_sha256 env (cb_data c))
                              ''communications.message_edit_failed''
                              (JObj [(''provider'', JStr ''telegram''), (''outcome'', JStr ''failed'')])
                       else throw e))
                (tg_answer ctl (cb_id c) outcome))"

definition handle_callback :: "control \<Rightarrow> telegram_update \<Rightarrow> callback \<Rightarrow> (sup_state, unit) proc" where
  "handle_callback ctl u c =
     (case authorized_message ctl u of
        None \<Rightarrow> ret ()
      | Some (actor, m) \<Rightarrow>
          handle (bindS (execute_callback ctl (cb_data c) actor) (show_outcome ctl c m)) (\<lambda>e.
            if catches [SupervisorError] e then tg_answer ctl (cb_id c) (exn_msg e) else throw e))"

section \<open>Commands\<close>

definition usage :: "string \<Rightarrow> ('s, 'a) proc" where
  "usage text = fail SupervisorError (''Usage: '' @ text)"

definition emergency_hold :: "control \<Rightarrow> string \<Rightarrow> (sup_state, string) proc" where
  "emergency_hold ctl actor =
     (let env = ct_env ctl
      in thenS (set_setting env ''paused'' ''true'')
        (thenS (timed_event ctl ''emergency-hold'' [] ''supervisor.emergency_hold'' [(''actor'', JStr actor)])
        (bindS (gets (sv_now env)) (\<lambda>now.
         thenS (notify_once env (''emergency-hold-notice:'' @ emit_int now)
                  ''supervisor.emergency_hold_notice''
                  ''Emergency hold active. Monitoring continues; no automatic action may start.''
                  (JObj [(''actor'', JStr actor)]) ''failure'' True)
           (ret ''Emergency hold active'')))))"

text \<open>\<^verbatim>\<open>([1-9][0-9]*)(m|h|d)\<close>, in seconds.\<close>

definition lease_seconds :: "string \<Rightarrow> int option" where
  "lease_seconds s =
     (if s = [] then None
      else let digits = butlast s;
               unit = map_of [(CHR ''m'', 60), (CHR ''h'', 3600), (CHR ''d'', 86400)] (last s)
           in if all_digits digits \<and> hd digits \<noteq> CHR ''0''
              then map_option (\<lambda>u. int (digits_value digits) * u) unit else None)"

definition command_autonomy :: "control \<Rightarrow> string list \<Rightarrow> string \<Rightarrow> (sup_state, string) proc" where
  "command_autonomy ctl arguments actor =
     (case arguments of
        [] \<Rightarrow> autonomy_text ctl
      | profile # rest \<Rightarrow>
          if profile \<notin> {''manual'', ''assisted'', ''autonomous''}
          then usage ''/autonomy [manual|assisted|autonomous <duration>]''
          else let named = [(''operation'', JStr ''profile''), (''profile'', JStr profile)]
               in if profile = ''autonomous''
                  then (case rest of
                     [t] \<Rightarrow> (case lease_seconds t of
                          None \<Rightarrow> fail SupervisorError ''Duration must use a positive m, h, or d value''
                        | Some n \<Rightarrow>
                            if n > 7 * 86400
                            then fail SupervisorError ''Autonomous duration cannot exceed 7 days''
                            else bindS (gets (sv_now (ct_env ctl))) (\<lambda>now.
                              request_confirmation ctl ''autonomy-change''
                                (JObj (named @ [(''expires_at'', JStr (format_z
                                   (pe_texts (sv_policy_env (ct_env ctl))) (seconds (now + n))))])) actor))
                   | _ \<Rightarrow> usage ''/autonomy autonomous <duration>'')
                  else if rest \<noteq> [] then usage (''/autonomy '' @ profile)
                  else request_confirmation ctl ''autonomy-change'' (JObj named) actor)"

definition command_pr :: "control \<Rightarrow> (sup_state, string) proc" where
  "command_pr ctl =
     bindS (get_setting ''current_pr'' '''') (\<lambda>number.
       if number = [] then ret ''No pull request is currently tracked.''
       else bindS (lift (py_int (Some (JStr number)) 0)) (\<lambda>n.
            bindS (gh_pull_request (ct_gh ctl) n) (\<lambda>pr.
              ret (''PR #'' @ number @ '': '' @ pu_state pr @ newline @ ''Checks: '' @ checks_state pr
                @ newline @ ''Merge: '' @ merge_state_text pr @ newline @ pu_url pr))))"

definition command_watch :: "control \<Rightarrow> bool \<Rightarrow> string \<Rightarrow> (sup_state, string) proc" where
  "command_watch ctl watched actor =
     thenS (set_setting (ct_env ctl) ''watched'' (if watched then ''true'' else ''false''))
    (thenS (timed_event ctl ''watch-command'' (CHR '':'' # actor) ''runner.watch_changed''
              [(''actor'', JStr actor), (''watched'', JBool watched)])
       (ret (if watched then ''Routine status updates enabled.'' else ''Routine status updates muted.'')))"

definition command_start_next :: "control \<Rightarrow> (sup_state, string) proc" where
  "command_start_next ctl =
     bindS (sup_policy_decision ''start_next_issue'') (\<lambda>decision.
       if decision \<noteq> ''approval''
       then fail SupervisorError ''Starting the next issue is not approval-bound by policy''
       else bindS (queue_next_issue (ct_depth ctl) (ct_env ctl) (ct_gh ctl) None True) (\<lambda>issue.
         ret (case issue of
                None \<Rightarrow> ''No eligible issue is available.''
              | Some i \<Rightarrow> ''Issue #'' @ emit_int (gi_number i) @ '' was started.'')))"

definition command_close_completed :: "control \<Rightarrow> string \<Rightarrow> (sup_state, string) proc" where
  "command_close_completed ctl actor =
     bindS (sup_policy_decision ''close_completed_issue'') (\<lambda>decision.
       if decision \<noteq> ''approval''
       then fail SupervisorError ''Completed issue closure is not approval-bound by policy''
       else bindS (get_setting ''pending_close_issue'' '''') (\<lambda>issue.
         if \<not> all_digits issue then fail SupervisorError ''No completed issue is awaiting closure''
         else let n = int (digits_value issue)
              in thenS (gh_close_issue (ct_gh ctl) n)
                (thenS (set_setting (ct_env ctl) ''pending_close_issue'' '''')
                (thenS (note_event ctl (''issue:'' @ issue @ '':close-approved'') ''issue.close_approved''
                          (JObj [(''actor'', JStr actor), (''issue'', JInt n)]))
                   (ret (''Issue #'' @ issue @ '' was closed.''))))))"

definition command_advance :: "control \<Rightarrow> string \<Rightarrow> (sup_state, string) proc" where
  "command_advance ctl actor =
     bindS (sup_policy_decision ''advance_milestone'') (\<lambda>decision.
       if decision = ''disabled''
       then fail SupervisorError ''Milestone advance is disabled by autonomy policy''
       else bindS (current_approval_id (ct_env ctl) ''milestone_rollover'') (\<lambda>i.
         approve_milestone_rollover (ct_depth ctl) (ct_env ctl) (ct_gh ctl) i actor))"

definition command_approve :: "control \<Rightarrow> string list \<Rightarrow> string \<Rightarrow> (sup_state, string) proc" where
  "command_approve ctl arguments actor =
     bindS (sup_policy_decision ''merge_pull_request'') (\<lambda>decision.
       if decision = ''disabled''
       then fail SupervisorError ''Pull request merge is disabled by autonomy policy''
       else bindS (case arguments of i # _ \<Rightarrow> ret i | [] \<Rightarrow> current_approval_id (ct_env ctl) ''merge_pr'') (\<lambda>i.
         sup_approve (ct_depth ctl) (ct_env ctl) (ct_gh ctl) i actor))"

definition command_reject :: "control \<Rightarrow> string list \<Rightarrow> string \<Rightarrow> (sup_state, string) proc" where
  "command_reject ctl arguments actor =
     (let env = ct_env ctl;
          explicit = (case arguments of i # _ \<Rightarrow> take 4 i = ''apr-'' | [] \<Rightarrow> False);
          reason = join '' '' (if explicit then tl arguments else arguments)
      in bindS (if explicit then ret (hd arguments) else current_approval_id env ''merge_pr'') (\<lambda>i.
           if reason \<notin> set (ct_reasons ctl)
           then fail SupervisorError (''Choose a rejection reason: '' @ join '', '' (ct_reasons ctl))
           else bindS (gets (sv_now env)) (\<lambda>now.
                thenS (on_db (ss_decide (sv_process env) now i ''rejected'' actor reason))
                  (ret ''Pending PR merge rejected.''))))"

definition failed_notes :: "sup_db \<Rightarrow> string \<Rightarrow> string list" where
  "failed_notes db stage = map fst (sort_key (\<lambda>(fp, n). - no_updated n)
     (filter (\<lambda>(fp, n). no_severity n = ''failure''
        \<and> json_get (no_payload n) ''stage'' = Some (JStr stage)) (db_notes db)))"

definition command_retry :: "control \<Rightarrow> string \<Rightarrow> string \<Rightarrow> (sup_state, string) proc" where
  "command_retry ctl stage actor =
     bindS (sup_policy_decision ''retry_idempotent_failure'') (\<lambda>decision.
       if decision = ''disabled'' then fail SupervisorError ''Retry is disabled by autonomy policy''
       else if stage \<notin> set (ct_retry_stages ctl)
       then fail SupervisorError ''Retry is not allowed for this stage''
       else bindS (gets (\<lambda>s. failed_notes (sv_db s) stage)) (\<lambda>found.
         case found of
           [] \<Rightarrow> fail SupervisorError ''No failed notification exists for this stage''
         | fp # _ \<Rightarrow>
             thenS (timed_event ctl (''retry:'' @ fp) [] ''recovery.retry_requested''
                      [(''actor'', JStr actor), (''fingerprint'', JStr fp), (''stage'', JStr stage)])
               (ret (''Retry requested for idempotent stage '' @ stage @ ''.''))))"

text \<open>The title and the body of the issue for a failure; \<^verbatim>\<open>create_failure_issue\<close> cuts both.\<close>

definition failure_issue :: "string \<Rightarrow> sup_note \<Rightarrow> string \<times> string" where
  "failure_issue fp row =
     (let field = (\<lambda>k d. case json_get (no_payload row) k of None \<Rightarrow> d | Some v \<Rightarrow> text_of (Some v));
          stage = take 40 (field ''stage'' ''unknown''); code = take 80 (field ''code'' (no_kind row))
      in (take 120 (''Automated SDLC failure: '' @ stage @ '' / '' @ code),
          take 2000 (''A sanitized Fortify Lab Manager supervisor failure needs ''
            @ ''operator investigation.'' @ newline @ newline
            @ ''- Fingerprint: `'' @ take 160 fp @ ''`'' @ newline
            @ ''- Stage: `'' @ stage @ ''`'' @ newline
            @ ''- Code: `'' @ code @ ''`'' @ newline
            @ ''- Occurrences: '' @ emit_int (no_occurrences row) @ newline @ newline
            @ ''Raw logs, protected paths, credentials, and configuration ''
            @ ''values are intentionally excluded.'')))"

definition command_issue :: "control \<Rightarrow> string \<Rightarrow> string \<Rightarrow> (sup_state, string) proc" where
  "command_issue ctl fp actor =
     bindS (on_db (ss_notification fp)) (\<lambda>row.
       case row of
         None \<Rightarrow> fail SupervisorError ''Unknown failure notification''
       | Some note \<Rightarrow>
           if no_severity note \<noteq> ''failure'' then fail SupervisorError ''Unknown failure notification''
           else bindS (on_db (ss_has_event (''issue-request:'' @ fp))) (\<lambda>known.
             if known then ret ''A GitHub issue was already created for this failure.''
             else (case failure_issue fp note of (title, body) \<Rightarrow>
               bindS (logged (FailureIssue title body) (\<lambda>k. ct_create_issue ctl k title body)) (\<lambda>url.
               thenS (note_event ctl (''issue-request:'' @ fp) ''recovery.github_issue_created''
                        (JObj [(''actor'', JStr actor), (''fingerprint'', JStr fp), (''url'', JStr url)]))
                 (ret (''Sanitized GitHub issue created: '' @ url))))))"

definition HELP_TEXT :: string where
  "HELP_TEXT = join newline
     [''/status'', ''/pr'', ''/approve'', ''/reject <predefined-reason>'', ''/retry <idempotent-stage>'',
      ''/issue <failure-fingerprint>'', ''/start-next'', ''/close-completed'', ''/pause'', ''/continue'',
      ''/watch'', ''/unwatch'', ''/advance'', ''/help'']"

text \<open>The commands that a consistent policy has to precede.\<close>

definition governed_command ::
    "control \<Rightarrow> string \<Rightarrow> string list \<Rightarrow> string \<Rightarrow> (sup_state, string) proc" where
  "governed_command ctl command arguments actor =
     (if command = ''/pause''
      then set_pause ctl True ''command:pause'' [] actor
             ''Supervisor paused. Monitoring continues; no new work will start.''
      else if command = ''/continue''
      then set_pause ctl False ''command:continue'' [] actor ''Supervisor resumed.''
      else if command \<in> {''/watch'', ''/unwatch''} then command_watch ctl (command = ''/watch'') actor
      else if command = ''/start-next''
      then if arguments \<noteq> [] then usage ''/start-next'' else command_start_next ctl
      else if command = ''/close-completed''
      then if arguments \<noteq> [] then usage ''/close-completed'' else command_close_completed ctl actor
      else if command = ''/advance''
      then if arguments \<noteq> [] then usage ''/advance'' else command_advance ctl actor
      else if command = ''/approve''
      then if length arguments > 1 then usage ''/approve [approval-id]'' else command_approve ctl arguments actor
      else if command = ''/reject'' then command_reject ctl arguments actor
      else if command = ''/retry''
      then (case arguments of [stage] \<Rightarrow> command_retry ctl stage actor | _ \<Rightarrow> usage ''/retry <stage>'')
      else if command = ''/issue''
      then (case arguments of [fp] \<Rightarrow> command_issue ctl fp actor | _ \<Rightarrow> usage ''/issue <failure-fingerprint>'')
      else if command = ''/help'' then ret HELP_TEXT
      else fail SupervisorError ''Unknown command. Use /help.'')"

definition dispatch_command ::
    "control \<Rightarrow> string \<Rightarrow> string list \<Rightarrow> string \<Rightarrow> (sup_state, string) proc" where
  "dispatch_command ctl command arguments actor =
     (if command = ''/autonomy'' then command_autonomy ctl arguments actor
      else if command \<in> {''/resume'', ''/approve-once''}
      then if arguments \<noteq> [] then usage command
           else request_confirmation ctl ''autonomy-change''
                  (JObj [(''operation'', JStr (tl command))]) actor
      else if command = ''/confirm''
      then (case arguments of [token] \<Rightarrow> execute_callback ctl token actor | _ \<Rightarrow> usage ''/confirm <token>'')
      else if command = ''/status'' then status_text ctl
      else if command = ''/pr'' then command_pr ctl
      else thenS (require_consistent_policy (ct_env ctl) ''listener'' False)
             (governed_command ctl command arguments actor))"

definition handle_command :: "control \<Rightarrow> string \<Rightarrow> string \<Rightarrow> (sup_state, string) proc" where
  "handle_command ctl text actor =
     bindS (lift (shlex_split text)) (\<lambda>parts.
       case parts of
         [] \<Rightarrow> fail PyIndexError ''list index out of range''
       | word # arguments \<Rightarrow>
           let command = command_name word
           in if command = ''/hold''
              then if arguments \<noteq> [] then usage ''/hold'' else emergency_hold ctl actor
              else bindS (handle (thenS (reload_policy (ct_env ctl) ''listener'') (ret None)) (\<lambda>e.
                     if catches [SupervisorError] e
                     then bindS (gets (configuration_state (ct_env ctl))) (\<lambda>st.
                          if st \<noteq> ''expired-lease'' then throw e
                          else if command = ''/autonomy'' \<and> arguments = []
                          then bindS (autonomy_text ctl) (\<lambda>text. ret (Some text))
                          else if command \<in> {''/autonomy'', ''/confirm''} then ret None
                          else throw e)
                     else throw e)) (\<lambda>early.
                   case early of
                     Some text \<Rightarrow> ret text
                   | None \<Rightarrow> dispatch_command ctl command arguments actor))"

section \<open>Updates\<close>

definition first_word :: "string \<Rightarrow> string" where
  "first_word s = takeWhile (\<lambda>c. \<not> is_space c) (dropWhile is_space s)"

definition handle_message :: "control \<Rightarrow> telegram_update \<Rightarrow> (sup_state, unit) proc" where
  "handle_message ctl u =
     (case authorized_message ctl u of
        None \<Rightarrow> ret ()
      | Some (actor, m) \<Rightarrow>
          let text = strip (me_text m)
          in if take 1 text \<noteq> ''/'' then ret ()
             else thenS (if command_name (first_word text) = ''/confirm''
                         then tg_send ctl ''Confirmation received; applying the requested change.''
                         else ret ())
                 (bindS (handle (handle_command ctl text actor) (\<lambda>e.
                     if catches [SupervisorError] e then ret (exn_msg e) else throw e)) (\<lambda>response.
                    tg_send ctl response)))"

definition handle_update :: "control \<Rightarrow> telegram_update \<Rightarrow> (sup_state, unit) proc" where
  "handle_update ctl u =
     (case up_callback u of Some c \<Rightarrow> handle_callback ctl u c | None \<Rightarrow> handle_message ctl u)"

fun handle_updates :: "control \<Rightarrow> int \<Rightarrow> telegram_update list \<Rightarrow> (sup_state, unit) proc" where
  "handle_updates ctl offset [] = ret ()"
| "handle_updates ctl offset (u # us) =
     (let next_one = max offset (up_id u + 1)
      in thenS (handle_update ctl u)
        (thenS (set_setting (ct_env ctl) ''telegram_offset'' (emit_int next_one))
           (handle_updates ctl next_one us)))"

definition poll_updates :: "control \<Rightarrow> (sup_state, unit) proc" where
  "poll_updates ctl =
     thenS (reload_policy (ct_env ctl) ''listener'')
    (bindS (get_setting ''telegram_offset'' ''0'') (\<lambda>t.
     bindS (lift (py_int (Some (JStr t)) 0)) (\<lambda>offset.
     bindS (external (\<lambda>k. ct_updates ctl k offset)) (\<lambda>us. handle_updates ctl offset us))))"

text \<open>The first rounds of \<^verbatim>\<open>telegram-loop\<close>, which goes on until an exception that it does not catch.\<close>

fun telegram_loop :: "nat \<Rightarrow> control \<Rightarrow> (sup_state, unit) proc" where
  "telegram_loop 0 ctl = ret ()"
| "telegram_loop (Suc rounds) ctl =
     thenS (handle (poll_updates ctl) (\<lambda>e. if catches [SupervisorError] e then ret () else throw e))
       (telegram_loop rounds ctl)"

section \<open>The processes\<close>

text \<open>
  The commands of \<^verbatim>\<open>main\<close>: \<^verbatim>\<open>monitor-once\<close>, \<^verbatim>\<open>telegram-once\<close>, rounds of \<^verbatim>\<open>telegram-loop\<close>, \<^verbatim>\<open>track-pr\<close> and
  \<^verbatim>\<open>status\<close>. They are run by different processes on one database, one after the other, each with its
  own configuration and with the policy that it has read last.
\<close>

datatype sup_entry = MonitorOnce | TelegramOnce | TelegramLoop nat | TrackPr int | ShowStatus

fun run_entry :: "control \<Rightarrow> sup_entry \<Rightarrow> (sup_state, unit) proc" where
  "run_entry ctl MonitorOnce = monitor_once ctl"
| "run_entry ctl TelegramOnce = poll_updates ctl"
| "run_entry ctl (TelegramLoop rounds) = telegram_loop rounds ctl"
| "run_entry ctl (TrackPr n) = set_setting (ct_env ctl) ''current_pr'' (emit_int n)"
| "run_entry ctl ShowStatus =
     thenS (reload_policy (ct_env ctl) ''status'') (thenS (status_text ctl) (ret ()))"

fun serve :: "(control \<times> policy \<times> sup_entry) list \<Rightarrow> sup_state \<Rightarrow> sup_state" where
  "serve [] s = s"
| "serve ((ctl, pol, e) # es) s = serve es (snd (run_entry ctl e (s\<lparr>sv_policy := pol\<rparr>)))"

end
