(* ===== verification/SupFrame.thy ===== *)
theory SupFrame
  imports SupControl
begin

text \<open>
  What the supervisor's calls do to any quantity that only its primitive steps can change. A relation
  between states that the primitive steps respect is respected by every call that is built from them:
  \<open>sup_frame\<close> covers settings, events, messages, tokens and the policy, and \<open>sup_frame_acts\<close> what is sent
  to GitHub and the approvals as well. Calls that a relation needs to look into are premises.
\<close>

section \<open>Settings, events, messages and the policy\<close>

text \<open>The keys whose writes a relation may restrict.\<close>

definition watched_keys :: "string set" where
  "watched_keys = {''paused'', ''last_error''}"

lemma plain_key [simp]: "k \<notin> watched_keys \<longleftrightarrow> k \<noteq> ''paused'' \<and> k \<noteq> ''last_error''"
  by (simp add: watched_keys_def)

locale sup_frame = evolution R for R :: "sup_state \<Rightarrow> sup_state \<Rightarrow> bool" +
  fixes writable :: "string \<Rightarrow> string \<Rightarrow> bool"
  assumes R_calls: "R s (s\<lparr>sv_calls := n\<rparr>)"
    and R_policy: "R s (s\<lparr>sv_policy := p\<rparr>)"
    and R_dir: "R s (s\<lparr>sv_dir := d\<rparr>)"
    and R_set: "writable k v \<Longrightarrow> evolves R (on_db (ss_set i k v))"
    and R_unset: "k \<notin> watched_keys \<Longrightarrow> evolves R (on_db (ss_unset i k))"
    and R_event: "evolves R (on_db (ss_event i now fp kind payload))"
    and R_upsert: "evolves R (on_db (upsert_notification i now fp kind sev msg payload st bucket))"
    and R_mark: "evolves R (on_db (mark_notification i now fp st m))"
    and R_token: "evolves R (on_db (create_callback_token i sha token now act ttl appr actor payload))"
    and R_plain: "k \<notin> watched_keys \<Longrightarrow> writable k v"
begin

lemma ev_case_list:
  "(xs = [] \<Longrightarrow> evolves R m) \<Longrightarrow> (\<And>y ys. xs = y # ys \<Longrightarrow> evolves R (f y ys)) \<Longrightarrow>
   evolves R (case xs of [] \<Rightarrow> m | y # ys \<Rightarrow> f y ys)"
  by (cases xs) auto

lemma fr_external: "evolves R (external f)"
  by (simp add: evolves_def external_def R_calls)

lemma fr_modify_policy: "evolves R (modify (\<lambda>s. s\<lparr>sv_policy := p\<rparr>))"
  by (rule ev_modify) (rule R_policy)

lemma fr_read: "evolves R (on_db (gets f))"
  by (simp add: evolves_def on_db_def R_refl)

lemma fr_get: "evolves R (get_setting k d)"
  unfolding get_setting_def ss_get_def by (rule fr_read)

lemma fr_set: "writable k v \<Longrightarrow> evolves R (set_setting env k v)"
  unfolding set_setting_def by (rule R_set)

lemma fr_put: "k \<notin> watched_keys \<Longrightarrow> evolves R (set_setting env k v)"
  by (intro fr_set R_plain)

lemma fr_record: "evolves R (record_event_once env fp kind payload)"
  unfolding record_event_once_def by (intro ev_rules R_event)

lemma fr_reads:
  "evolves R (on_db (ss_has_event fp))" "evolves R (on_db (ss_notification fp))"
  "evolves R (on_db (pending_approvals now act))" "evolves R (on_db (pending_approval sha now act payload))"
  unfolding ss_has_event_def ss_notification_def pending_approvals_def pending_approval_def
  by (rule fr_read)+

lemma fr_approval: "evolves R (on_db (ss_approval i))"
  by (simp add: evolves_def on_db_def ss_approval_def bindS_def R_refl split: option.split)

lemma fr_decision: "evolves R (sup_policy_decision act)"
  by (simp add: evolves_def sup_policy_decision_def R_refl split: sum.split)

lemma fr_send: "evolves R (send_and_mark env fp text meaningful)"
  unfolding send_and_mark_def by (intro ev_rules fr_external R_mark fr_put) simp_all

lemma fr_deliver: "evolves R (deliver env fp row created meaningful)"
  unfolding deliver_def Let_def
  by (cases "no_message_id row"; simp only: option.case list.case; (cases "the (no_message_id row)")?)
    (auto intro!: ev_rules fr_external fr_send split: list.splits)

lemma fr_notify: "evolves R (notify_once env fp kind text payload sev meaningful)"
  unfolding notify_once_def Let_def case_prod_beta
  by (intro ev_rules R_upsert R_mark fr_record fr_deliver)

lemma fr_audit: "evolves R (audit_policy env)"
  unfolding audit_policy_def by (intro ev_rules fr_get fr_record fr_put) simp_all

lemma fr_replace: "evolves R (run_replace_policy env profile g ex)"
  by (simp add: evolves_def run_replace_policy_def R_dir split: prod.split)

lemma fr_revert: "evolves R (revert_expired_lease env)"
  unfolding revert_expired_lease_def announce_reversion_def Let_def
  by (intro ev_rules fr_replace fr_modify_policy fr_audit fr_notify fr_put) simp_all

lemma fr_load: "evolves R (load_current_policy env)"
  by (simp add: evolves_def load_current_policy_def R_refl)

lemma fr_reload: "evolves R (reload_policy env role)"
  unfolding reload_policy_def
  by (intro ev_rules fr_load fr_modify_policy fr_audit fr_revert fr_put) simp_all

lemma fr_consistent: "evolves R (require_consistent_policy env role recover)"
  unfolding require_consistent_policy_def by (intro ev_rules fr_reload fr_put) simp_all

lemma fr_paused: "evolves R paused"
  unfolding paused_def by (intro ev_rules fr_get)

lemma fr_milestones: "evolves R (active_milestone env)" "evolves R (next_milestone env)"
  unfolding active_milestone_def next_milestone_def by (intro ev_rules fr_get)+

lemma fr_queue_state: "evolves R (queue_state env)"
  unfolding queue_state_def by (intro ev_rules fr_get fr_paused fr_milestones fr_reads)

lemma fr_beat: "evolves R (ws_read_heartbeat ctl n)"
proof -
  have "evolves R (case f of Parsed (JObj ms) \<Rightarrow>
        (let h = filter (\<lambda>(k, v). k \<in> set HEARTBEAT_KEYS) ms
         in ret (if accepted_beat ctl n h then Some h else None))
      | Parsed _ \<Rightarrow> fail PyAttributeError ''object has no attribute get'' | _ \<Rightarrow> ret None)" for f
    by (cases f) (auto simp: Let_def intro: ev_pure split: json.split)
  then show ?thesis unfolding ws_read_heartbeat_def by (intro ev_bindS fr_external)
qed

lemma fr_status: "evolves R (status_text ctl)"
  unfolding status_text_def Let_def
  by (intro ev_rules fr_get fr_paused fr_milestones fr_reads fr_queue_state fr_beat)

lemma fr_autonomy_text: "evolves R (autonomy_text ctl)"
  unfolding autonomy_text_def by (intro ev_rules fr_paused)

lemma fr_payload_token: "evolves R (payload_token env act ttl actor payload)"
  unfolding payload_token_def case_prod_beta by (intro ev_rules R_token)

lemma fr_new_token: "evolves R (new_token env act appr)"
  unfolding new_token_def case_prod_beta by (intro ev_rules R_token)

lemma fr_workflow_actions: "evolves R (workflow_actions ctl)"
  unfolding workflow_actions_def Let_def by (intro ev_rules fr_get fr_paused fr_payload_token)

lemma fr_card: "evolves R (update_status_card ctl given)"
  unfolding update_status_card_def Let_def
  by (intro ev_rules fr_get fr_external fr_record fr_put fr_status fr_workflow_actions) simp_all

lemma fr_digest: "evolves R (deliver_digest ctl)"
  unfolding deliver_digest_def Let_def case_prod_beta by (intro ev_rules fr_external fr_record R_mark)

lemma fr_attest: "evolves R (attest_runner ctl h now)"
  unfolding attest_runner_def Let_def by (intro ev_rules R_unset fr_put) simp_all

lemma fr_transitions: "evolves R (runner_transitions ctl issue pre h now)"
  unfolding runner_transitions_def Let_def by (intro ev_rules fr_get fr_reads fr_notify)

lemma fr_routine: "evolves R (routine_heartbeat ctl issue (''runner:'' @ x) h now)"
  unfolding routine_heartbeat_def Let_def
  by (intro ev_rules fr_get fr_notify fr_status fr_put) simp_all

lemma fr_runner: "evolves R (monitor_runner ctl)"
  unfolding monitor_runner_def Let_def
  by (intro ev_rules fr_get fr_beat fr_attest fr_transitions fr_routine fr_put fr_reads fr_card) simp_all

lemma fr_client:
  "evolves R (gh_pull_request gh n)" "evolves R (gh_next_issue gh m ex)"
  "evolves R (gh_issue_details gh n)"
  unfolding gh_pull_request_def gh_next_issue_def gh_issue_details_def by (intro ev_rules fr_external)+

lemma fr_milestone_named: "evolves R (gh_milestone_named gh m)"
  unfolding gh_milestone_named_def
  by (intro ev_bindS fr_external) (auto intro: ev_pure split: list.split)

lemma fr_verify_unattended: "evolves R (verify_autonomous_merge env gh pr payload al)"
  unfolding verify_autonomous_merge_def verify_issue_scope_def
  by (intro ev_rules fr_revert fr_paused fr_get fr_milestones fr_client)

lemma fr_verify_rollover: "evolves R (verify_milestone_rollover env gh payload)"
  unfolding verify_milestone_rollover_def by (intro ev_rules fr_milestones fr_milestone_named fr_client)

lemmas frame_rules = fr_external fr_get fr_record fr_reads fr_approval fr_decision fr_notify fr_reload
  fr_consistent fr_paused fr_milestones fr_status fr_autonomy_text fr_payload_token fr_new_token fr_card
  fr_client fr_milestone_named fr_verify_unattended fr_verify_rollover

end

section \<open>GitHub and the approvals\<close>

text \<open>What takes no authority of its own: everything but merging and stopping the runner.\<close>

fun ordinary :: "gh_action \<Rightarrow> bool" where
  "ordinary (Merge n sha) \<longleftrightarrow> False"
| "ordinary (StopRunner n) \<longleftrightarrow> False"
| "ordinary _ \<longleftrightarrow> True"

locale sup_frame_acts = sup_frame +
  fixes allowed :: "gh_action \<Rightarrow> bool"
  assumes R_log: "allowed a \<Longrightarrow> R s (s\<lparr>sv_log := sv_log s @ [a]\<rparr>)"
    and R_ordinary: "ordinary a \<Longrightarrow> allowed a"
    and R_pause: "writable ''paused'' v"
    and R_fault: "v \<noteq> [] \<Longrightarrow> writable ''last_error'' v"
    and R_claim: "evolves R (on_db (claim_issue i now n title m))"
    and R_supersede: "evolves R (on_db (supersede i now reason chosen))"
    and R_create: "evolves R (on_db (create_approval i sha token now act payload ttl))"
    and R_decide: "evolves R (on_db (ss_decide i now appr st actor reason))"
    and R_transition:
      "evolves R queue \<Longrightarrow> evolves R (transition_milestone env gh queue payload actor)"
begin

lemma fa_logged: "allowed a \<Longrightarrow> evolves R (logged a f)"
  unfolding logged_def by (intro ev_rules fr_external ev_modify R_log)

lemma fa_client: "evolves R (gh_ready gh n)" "evolves R (gh_close_issue gh n)"
  unfolding gh_ready_def gh_close_issue_def
  by (intro ev_rules fr_external fa_logged R_ordinary; simp)+

lemma fa_supersede:
  "evolves R (on_db (supersede_merge_approvals i now n sha))"
  "evolves R (on_db (supersede_approvals_for_pull_request i now n reason))"
  unfolding supersede_merge_approvals_def supersede_approvals_for_pull_request_def by (rule R_supersede)+

lemma fa_find_or_create: "evolves R (find_or_create_approval env act payload)"
  unfolding find_or_create_approval_def case_prod_beta by (intro ev_rules fr_reads R_create)

lemma fa_hold: "evolves R (set_setting env ''paused'' v)"
  by (intro fr_set R_pause)

lemma fa_blocked: "evolves R (blocked_rollover env fp text payload)"
  unfolding blocked_rollover_def by (intro ev_rules fr_notify fr_set R_fault) simp_all

lemma fa_offer:
  assumes "evolves R queue"
  shows "evolves R (offer_milestone_rollover env gh queue)"
proof -
  have "evolves R (offer_verified env gh queue current next_one)" for current next_one
    unfolding offer_verified_def Let_def
    by (intro ev_rules frame_rules fa_find_or_create R_decide R_transition assms)
  then show ?thesis
    unfolding offer_milestone_rollover_def by (intro ev_rules frame_rules fa_blocked)
qed

lemma fa_start_issue: "evolves R (start_issue env gh m i)"
  unfolding start_issue_def start_runner_def Let_def
  by (intro ev_rules frame_rules R_claim fa_logged R_ordinary fr_put) simp_all

lemma fa_queue: "evolves R (queue_next_issue depth env gh completed ok)"
proof (induction depth arbitrary: completed ok)
  case 0
  show ?case unfolding queue_next_issue.simps by (intro ev_rules)
next
  case (Suc depth)
  then show ?case unfolding queue_next_issue.simps
    by (intro ev_rules frame_rules fa_offer fa_start_issue)
qed

lemma fa_complete: "evolves R (complete_merged_pull_request depth env gh pr)"
  unfolding complete_merged_pull_request_def close_completed_issue_def free_slot_def Let_def
  by (intro ev_rules frame_rules fa_supersede fa_client fa_queue fr_put) simp_all

lemma fa_verify_before: "evolves R (verify_before_merge env gh pr payload actor)"
  unfolding verify_before_merge_def by (intro ev_rules fr_verify_unattended)

lemma fa_message: "evolves R (merge_message env n pr i)"
  unfolding merge_message_def Let_def by (intro ev_rules fr_paused fr_milestones)

lemma fa_rollover: "evolves R (approve_milestone_rollover depth env gh i actor)"
  unfolding approve_milestone_rollover_def Let_def
  by (intro ev_rules frame_rules R_decide R_transition fa_queue)

lemma fa_current_approval: "evolves R (current_approval_id env act)"
proof -
  have "evolves R (case rows of [] \<Rightarrow> fail c t | [a] \<Rightarrow> ret (sa_id a) | _ \<Rightarrow> fail c t')"
    for rows c t t' by (auto intro: ev_pure split: list.split)
  then show ?thesis unfolding current_approval_id_def Let_def by (intro ev_bindS fr_get fr_reads ev_pure)
qed

lemmas act_rules = ev_rules frame_rules fa_client fa_supersede fa_find_or_create fa_hold fa_queue fa_complete
  fa_rollover fa_current_approval R_decide

lemma fa_ready_and_merge:
  assumes "\<And>n sha. allowed (Merge n sha)"
  shows "evolves R (ready_and_merge env gh n payload actor pr)"
proof -
  have "evolves R (gh_merge gh n sha)" for n sha
    unfolding gh_merge_def by (intro ev_rules fa_logged assms)
  then have "evolves R (case json_get payload ''head_sha'' of Some (JStr sha) \<Rightarrow> gh_merge gh n sha
      | _ \<Rightarrow> fail PyTypeError ''expected str, bytes or os.PathLike object'')"
    by (auto intro: ev_pure split: option.split json.split)
  then show ?thesis unfolding ready_and_merge_def
    by (intro ev_bindS ev_if ev_pure fa_client fr_client fa_verify_before)
qed

lemma fa_merge_decided:
  assumes "evolves R (ready_and_merge env gh n payload actor pr)"
  shows "evolves R (merge_decided depth env gh i actor payload n pr)"
  unfolding merge_decided_def by (intro act_rules assms fa_message fr_set R_fault) simp_all

lemma fa_approve:
  assumes "\<And>n payload pr. evolves R (ready_and_merge env gh n payload actor pr)"
  shows "evolves R (sup_approve depth env gh i actor)"
  unfolding sup_approve_def Let_def by (intro act_rules fa_merge_decided assms)

lemma fa_track: "evolves R (track_pull_request ctl)"
  unfolding track_pull_request_def Let_def
  by (intro act_rules ev_case_list fr_put) simp_all

lemma fa_notes:
  "evolves R (note_closed ctl number n sha)" "evolves R (note_changes ctl number n sha)"
  "evolves R (note_failed_checks ctl number n sha)" "evolves R (announce_ready ctl number n sha i)"
  "evolves R (merge_exception ctl number n sha text)"
  unfolding note_closed_def note_changes_def note_failed_checks_def announce_ready_def
    merge_exception_def Let_def
  by (intro act_rules)+

lemma fa_ci: "evolves R (note_ci ctl number n sha st)"
  unfolding note_ci_def Let_def by (intro act_rules fr_put) simp_all

lemma fa_monitor:
  assumes "\<And>i actor. evolves R (sup_approve (ct_depth ctl) (ct_env ctl) (ct_gh ctl) i actor)"
  shows "evolves R (monitor_once ctl)"
proof -
  have "evolves R (offer_merge ctl number n sha pr)" for number n sha pr
    unfolding offer_merge_def merge_unattended_def Let_def
    by (intro act_rules fa_notes assms fr_put) simp_all
  then have "evolves R (watch_pull_request ctl number)" for number
    unfolding watch_pull_request_def watch_open_def Let_def by (intro act_rules fa_notes fa_ci)
  then show ?thesis
    unfolding monitor_once_def by (intro act_rules fr_digest fr_runner fa_track)
qed

lemma fa_note: "evolves R (note_event ctl fp kind payload)"
  unfolding note_event_def by (intro act_rules)

lemma fa_timed: "evolves R (timed_event ctl name suffix kind payload)"
  unfolding timed_event_def by (intro act_rules fa_note)

lemma fa_request: "evolves R (request_confirmation ctl act payload actor)"
  unfolding request_confirmation_def by (intro act_rules)

lemma fa_autonomy: "evolves R (apply_autonomy_change ctl payload actor)"
proof -
  have "evolves R (change_profile ctl payload)"
    unfolding change_profile_def Let_def by (intro act_rules fr_replace fr_modify_policy fr_audit)
  moreover have "evolves R (announce_profile ctl actor)"
    unfolding announce_profile_def by (intro act_rules)
  ultimately show ?thesis
    unfolding apply_autonomy_change_def Let_def by (intro act_rules fa_timed fr_put) simp_all
qed

lemma fa_tap: "evolves R (set_pause ctl held name suffix actor answer)"
    "evolves R (toggle_watch ctl actor)" "evolves R (command_watch ctl watched actor)"
  unfolding set_pause_def toggle_watch_def command_watch_def Let_def
  by ((intro act_rules fa_timed fr_put; simp)+)

lemma fa_verify_candidate: "evolves R (verify_candidate ctl row)"
  unfolding verify_candidate_def by (intro act_rules ev_case_list)

lemma fa_on_approval:
  assumes "\<And>i. evolves R (sup_approve (ct_depth ctl) (ct_env ctl) (ct_gh ctl) i actor)"
  shows "evolves R (callback_on_approval ctl actor row found)"
proof -
  have "evolves R (reject_merge ctl i payload actor)" for i payload
    unfolding reject_merge_def Let_def by (intro act_rules ev_case_list fa_note)
  moreover have "evolves R (defer_rollover ctl i payload actor)" "evolves R (pause_for ctl i payload actor)"
    "evolves R (merge_details payload pr)" for i payload pr
    unfolding defer_rollover_def pause_for_def merge_details_def Let_def by (intro act_rules fa_note)+
  ultimately show ?thesis
    unfolding callback_on_approval_def Let_def by (intro act_rules assms)
qed

lemma fa_run_callback:
  assumes "\<And>i. evolves R (sup_approve (ct_depth ctl) (ct_env ctl) (ct_gh ctl) i actor)"
    and "tk_action row = ''stop-confirm'' \<Longrightarrow> evolves R (confirm_stop ctl (tk_payload row) actor)"
  shows "evolves R (run_callback ctl actor row found)"
proof -
  have "evolves R (workflow_details ctl)"
    unfolding workflow_details_def by (intro act_rules)
  then show ?thesis
    unfolding run_callback_def Let_def by (intro act_rules fa_autonomy fa_tap fa_on_approval assms)
qed

lemma fa_send: "evolves R (tg_send ctl text)" "evolves R (tg_answer ctl i text)"
  unfolding tg_send_def tg_answer_def by (intro act_rules)+

lemma fa_handle_callback:
  assumes "\<And>actor. evolves R (execute_callback ctl (cb_data c) actor)"
  shows "evolves R (handle_callback ctl u c)"
proof -
  have "evolves R (show_outcome ctl c m outcome)" for m outcome
    unfolding show_outcome_def Let_def by (intro act_rules fa_send fa_note)
  then show ?thesis
    unfolding handle_callback_def case_prod_beta by (intro act_rules fa_send assms)
qed

lemma fa_commands:
  "evolves R (emergency_hold ctl actor)" "evolves R (command_pr ctl)"
  "evolves R (command_start_next ctl)" "evolves R (command_advance ctl actor)"
  "evolves R (command_retry ctl stage actor)"
  unfolding emergency_hold_def command_pr_def command_start_next_def command_advance_def
    command_retry_def Let_def
  by (intro act_rules fa_timed ev_case_list)+

lemma fa_command_autonomy: "evolves R (command_autonomy ctl arguments actor)"
  unfolding command_autonomy_def usage_def Let_def by (intro act_rules fa_request ev_case_list)

lemma fa_command_close: "evolves R (command_close_completed ctl actor)"
  unfolding command_close_completed_def Let_def by (intro act_rules fa_note fr_put) simp_all

lemma fa_command_reject: "evolves R (command_reject ctl arguments actor)"
  unfolding command_reject_def Let_def by (intro act_rules)

lemma fa_command_issue: "evolves R (command_issue ctl fp actor)"
  unfolding command_issue_def case_prod_beta by (intro act_rules fa_note fa_logged R_ordinary) simp

lemma fa_command_approve:
  assumes "\<And>i. evolves R (sup_approve (ct_depth ctl) (ct_env ctl) (ct_gh ctl) i actor)"
  shows "evolves R (command_approve ctl arguments actor)"
  unfolding command_approve_def by (intro act_rules ev_case_list assms)

lemma fa_handle_command:
  assumes "\<And>i. evolves R (sup_approve (ct_depth ctl) (ct_env ctl) (ct_gh ctl) i actor)"
    and "\<And>token. evolves R (execute_callback ctl token actor)"
  shows "evolves R (handle_command ctl text actor)"
proof -
  have "evolves R (governed_command ctl command arguments actor)" for command arguments
    unfolding governed_command_def usage_def
    by (intro act_rules ev_case_list fa_tap fa_commands fa_command_close fa_command_reject
        fa_command_issue fa_command_approve assms)
  then have "evolves R (dispatch_command ctl command arguments actor)" for command arguments
    unfolding dispatch_command_def usage_def
    by (intro act_rules ev_case_list fa_command_autonomy fa_request fa_commands assms)
  then show ?thesis
    unfolding handle_command_def usage_def Let_def by (intro act_rules ev_case_list fa_commands)
qed

text \<open>What is left to show of a process for everything that it does.\<close>

lemma fa_update:
  assumes "\<And>i actor. evolves R (sup_approve (ct_depth ctl) (ct_env ctl) (ct_gh ctl) i actor)"
    and "\<And>token actor. evolves R (execute_callback ctl token actor)"
  shows "evolves R (handle_update ctl u)"
proof -
  have "evolves R (handle_message ctl u)"
    unfolding handle_message_def case_prod_beta Let_def
    by (intro act_rules fa_send fa_handle_command assms)
  then show ?thesis
    unfolding handle_update_def by (intro ev_case_option fa_handle_callback assms)
qed

lemma fa_poll:
  assumes "\<And>i actor. evolves R (sup_approve (ct_depth ctl) (ct_env ctl) (ct_gh ctl) i actor)"
    and "\<And>token actor. evolves R (execute_callback ctl token actor)"
  shows "evolves R (poll_updates ctl)"
proof -
  have "evolves R (handle_updates ctl offset us)" for offset us
  proof (induction us arbitrary: offset)
    case Nil
    show ?case unfolding handle_updates.simps by (intro ev_rules)
  next
    case (Cons u us)
    then show ?case unfolding handle_updates.simps Let_def
      by (intro ev_bindS fa_update assms fr_put) simp_all
  qed
  then show ?thesis unfolding poll_updates_def by (intro act_rules)
qed

lemma fa_loop:
  assumes "evolves R (poll_updates ctl)"
  shows "evolves R (telegram_loop rounds ctl)"
proof (induction rounds)
  case 0
  show ?case unfolding telegram_loop.simps by (intro ev_rules)
next
  case (Suc rounds)
  with assms show ?case unfolding telegram_loop.simps by (intro act_rules)
qed

lemma fa_serve:
  assumes approve: "\<And>depth env gh i actor. evolves R (sup_approve depth env gh i actor)"
    and callback: "\<And>ctl token actor. evolves R (execute_callback ctl token actor)"
  shows "R s (serve h s)"
proof (induction h arbitrary: s)
  case (Cons c h)
  obtain ctl pol e where c: "c = (ctl, pol, e)" by (cases c) auto
  have "evolves R (run_entry ctl e)"
    by (cases e; simp only: run_entry.simps)
      (intro fa_monitor fa_loop fa_poll approve callback act_rules fr_put; simp)+
  then have "R (s\<lparr>sv_policy := pol\<rparr>) (snd (run_entry ctl e (s\<lparr>sv_policy := pol\<rparr>)))"
    by (simp add: evolves_def)
  with R_policy have "R s (snd (run_entry ctl e (s\<lparr>sv_policy := pol\<rparr>)))" by (rule R_trans)
  then show ?case using Cons.IH R_trans unfolding c serve.simps by blast
qed (simp add: R_refl)

text \<open>When merging and stopping are respected as well, so is a callback that spends its token.\<close>

lemma fa_all:
  assumes "\<And>a. allowed a" and "\<And>i sha now token actor. evolves R (on_db (consume_callback_token i sha now token actor))"
  shows "R s (serve h s)"
proof -
  have approve: "evolves R (sup_approve depth env gh i actor)" for depth env gh i actor
    by (intro fa_approve fa_ready_and_merge assms)
  have "evolves R (confirm_stop ctl payload actor)" for ctl payload actor
    unfolding confirm_stop_def by (intro act_rules fa_logged fa_timed assms)
  then have "evolves R (execute_callback ctl token actor)" for ctl token actor
    unfolding execute_callback_def Let_def
    by (intro act_rules fa_verify_candidate fa_run_callback approve assms)
  with approve show ?thesis by (rule fa_serve)
qed

end

end
