(* ===== verification/SupAuthority.thy ===== *)
theory SupAuthority
  imports SupFrame "HOL-Library.Multiset"
begin

text \<open>
  What the supervisor may do, over everything that it does: the pause, the recorded error, and what
  merging and stopping are paid with. Each is a relation that the primitive steps respect, so that
  the frame carries it through \<^verbatim>\<open>monitor_once\<close> and the Telegram loop.
\<close>

lemma evolves_on_db: "(\<And>s. R s (s\<lparr>sv_db := snd (m (sv_db s))\<rparr>)) \<Longrightarrow> evolves R (on_db m)"
  by (simp add: evolves_def on_db_def split: prod.split) (metis snd_conv)

section \<open>The pause\<close>

definition held :: "sup_state \<Rightarrow> bool" where
  "held s \<longleftrightarrow> setting (sv_db s) ''paused'' ''false'' = ''true''"

definition at_rest :: "sup_state \<Rightarrow> sup_state \<Rightarrow> bool" where
  "at_rest s t \<longleftrightarrow>
     (held s \<longrightarrow> held t \<and> sv_log t = sv_log s \<and> db_approvals (sv_db t) = db_approvals (sv_db s))"

text \<open>The parts of the tables that a write of the store leaves alone.\<close>

lemma store_writes:
  "db_approvals (snd (ss_set i k v db)) = db_approvals db"
  "db_events (snd (ss_set i k v db)) = db_events db"
  "db_tokens (snd (ss_set i k v db)) = db_tokens db"
  "db_approvals (snd (ss_unset i k db)) = db_approvals db"
  "db_events (snd (ss_unset i k db)) = db_events db"
  "db_tokens (snd (ss_unset i k db)) = db_tokens db"
  "db_approvals (snd (ss_event i now fp kind payload db)) = db_approvals db"
  "db_tokens (snd (ss_event i now fp kind payload db)) = db_tokens db"
  "db_settings (snd (ss_event i now fp kind payload db)) = db_settings db"
  "db_approvals (snd (mark_notification i now fp st m db)) = db_approvals db"
  "db_tokens (snd (mark_notification i now fp st m db)) = db_tokens db"
  "db_events (snd (mark_notification i now fp st m db)) = db_events db"
  "db_settings (snd (mark_notification i now fp st m db)) = db_settings db"
  "db_approvals (snd (create_callback_token i sha token now act ttl appr actor payload db)) = db_approvals db"
  "db_events (snd (create_callback_token i sha token now act ttl appr actor payload db)) = db_events db"
  "db_settings (snd (create_callback_token i sha token now act ttl appr actor payload db)) = db_settings db"
  by (simp_all add: ss_set_def ss_unset_def ss_event_def mark_notification_def create_callback_token_def
      write_commit_def open_write_def bindS_def put_setting_def add_event_def)

lemma store_upsert:
  "db_approvals (snd (upsert_notification i now fp kind sev msg payload st bucket db)) = db_approvals db"
  "db_tokens (snd (upsert_notification i now fp kind sev msg payload st bucket db)) = db_tokens db"
  "db_events (snd (upsert_notification i now fp kind sev msg payload st bucket db)) = db_events db"
  "db_settings (snd (upsert_notification i now fp kind sev msg payload st bucket db)) = db_settings db"
  by (simp_all add: upsert_notification_def write_commit_def open_write_def bindS_def Let_def
      split: option.split)

lemma store_settings:
  "setting (snd (ss_set i k v db)) k' d = setting db k' d
     \<or> k' = k \<and> setting (snd (ss_set i k v db)) k' d = v"
  "k' \<noteq> k \<Longrightarrow> setting (snd (ss_unset i k db)) k' d = setting db k' d"
  by (auto simp: ss_set_def ss_unset_def write_commit_def open_write_def bindS_def put_setting_def
      close_write_def setting_def)

interpretation pause_frame: sup_frame at_rest "\<lambda>k v. k \<noteq> ''paused''"
proof
  show "at_rest s s" for s by (simp add: at_rest_def)
  show "at_rest s t \<Longrightarrow> at_rest t u \<Longrightarrow> at_rest s u" for s t u by (simp add: at_rest_def)
  show "evolves at_rest (on_db (ss_set i k v))" if "k \<noteq> ''paused''" for i k v
    using that store_settings(1)[of i k v _ "''paused''"]
    by (intro evolves_on_db) (auto simp: at_rest_def held_def store_writes)
  show "evolves at_rest (on_db (ss_unset i k))" if "k \<notin> watched_keys" for i k
    using that store_settings(2)[of "''paused''" k]
    by (intro evolves_on_db) (auto simp: at_rest_def held_def store_writes)
qed (auto intro!: evolves_on_db simp: at_rest_def held_def setting_def store_writes store_upsert)

section \<open>The recorded error\<close>

definition faulted :: "sup_state \<Rightarrow> bool" where
  "faulted s \<longleftrightarrow> setting (sv_db s) ''last_error'' '''' \<noteq> []"

definition rollovers :: "sup_db \<Rightarrow> nat" where
  "rollovers db = length (filter (\<lambda>e. se_kind e = ''milestone.rollover'') (db_events db))"

text \<open>A recorded error is left only by a rollover.\<close>

definition sticks :: "sup_state \<Rightarrow> sup_state \<Rightarrow> bool" where
  "sticks s t \<longleftrightarrow> rollovers (sv_db s) \<le> rollovers (sv_db t)
     \<and> (faulted s \<longrightarrow> faulted t \<or> rollovers (sv_db s) < rollovers (sv_db t))"

lemma sticks_db:
  assumes "\<And>db. db_settings (snd (m db)) ''last_error'' = db_settings db ''last_error''"
    and "\<And>db. rollovers db \<le> rollovers (snd (m db))"
  shows "evolves sticks (on_db m)"
  using assms by (intro evolves_on_db) (simp add: sticks_def faulted_def setting_def)

lemma rollovers_same: "db_events db' = db_events db \<Longrightarrow> rollovers db' = rollovers db"
  by (simp add: rollovers_def)

lemma rollovers_event: "rollovers db \<le> rollovers (snd (ss_event i now fp kind payload db))"
  by (simp add: ss_event_def open_write_def bindS_def add_event_def rollovers_def)

text \<open>The writes that touch only approvals.\<close>

definition settings_events :: "sup_db \<Rightarrow> sup_db \<Rightarrow> bool" where
  "settings_events db db' \<longleftrightarrow> db_settings db' = db_settings db \<and> db_events db' = db_events db"

interpretation table_frame: evolution settings_events
  by unfold_locales (simp_all add: settings_events_def)

lemma approvals_only:
  "evolves settings_events (supersede i now reason chosen)"
  "evolves settings_events (create_approval i sha token now act payload ttl)"
  "evolves settings_events (ss_decide i now appr st actor reason)"
proof -
  have w: "evolves settings_events (open_write i)" for i
    by (simp add: evolves_def open_write_def settings_events_def)
  have c: "evolves settings_events (modify (close_write i))" for i
    by (simp add: evolves_def settings_events_def)
  have u: "evolves settings_events (modify (update_approval a f))" for a f
    by (simp add: evolves_def settings_events_def update_approval_def)
  have a: "evolves settings_events (ss_approval a)" for a
    unfolding ss_approval_def by (intro table_frame.ev_rules)
  have wc: "evolves settings_events (write_commit i (update_approval a f))" for i a f
    by (simp add: evolves_def write_commit_def bindS_def open_write_def update_approval_def
        settings_events_def)
  have rows: "evolves settings_events (supersede_rows i now reason chosen rows)" for rows
  proof (induction rows)
    case Nil
    show ?case unfolding supersede_rows.simps by (intro table_frame.ev_rules)
  next
    case (Cons r rows)
    then show ?case unfolding supersede_rows.simps by (intro table_frame.ev_rules w u)
  qed
  show "evolves settings_events (supersede i now reason chosen)"
    unfolding supersede_def pending_approvals_def by (intro table_frame.ev_rules rows c)
  have "settings_events db (snd (if b then (Inl e, db)
      else (Inr (), close_write i (db\<lparr>db_approvals := rs\<rparr>))))" for db b e rs
    by (simp add: settings_events_def)
  then show "evolves settings_events (create_approval i sha token now act payload ttl)"
    unfolding create_approval_def Let_def
    by (intro table_frame.ev_bindS w a) (simp add: evolves_def settings_events_def)
  show "evolves settings_events (ss_decide i now appr st actor reason)"
    unfolding ss_decide_def decide_read_def decide_write_def by (intro table_frame.ev_rules a wc)
qed

lemma sticks_approvals:
  assumes "evolves settings_events m"
  shows "evolves sticks (on_db m)"
proof (rule sticks_db)
  fix db
  have "settings_events db (snd (m db))" using assms by (simp add: evolves_def)
  then have same: "db_settings (snd (m db)) = db_settings db" "db_events (snd (m db)) = db_events db"
    by (simp_all add: settings_events_def)
  show "db_settings (snd (m db)) ''last_error'' = db_settings db ''last_error''" by (simp only: same)
  show "rollovers db \<le> rollovers (snd (m db))" using rollovers_same[OF same(2)] by simp
qed

lemma advance_counts:
  assumes "on_db (ss_advance_milestone i now x y initial payload) s = (r, s')"
  shows "if r = Inr True then rollovers (sv_db s') = rollovers (sv_db s) + 1 else sticks s s'"
  using assms
  by (auto simp: on_db_def ss_advance_milestone_def begin_immediate_def open_write_def bindS_def Let_def
      sticks_def faulted_def setting_def rollovers_def add_event_def put_setting_def
      split: prod.splits if_splits)

lemma claim_effects:
  "db_approvals (snd (claim_issue i now n title m db)) = db_approvals db"
  "db_tokens (snd (claim_issue i now n title m db)) = db_tokens db"
  "db_settings (snd (claim_issue i now n title m db)) ''last_error'' = db_settings db ''last_error''"
  "rollovers (snd (claim_issue i now n title m db)) = rollovers db"
  by (simp_all add: claim_issue_def begin_immediate_def open_write_def bindS_def rollovers_def add_event_def
      put_setting_def)

lemma writes_elsewhere:
  "k' \<noteq> k \<Longrightarrow> db_settings (snd (ss_set i k v db)) k' = db_settings db k'"
  "k' \<noteq> k \<Longrightarrow> db_settings (snd (ss_unset i k db)) k' = db_settings db k'"
  by (auto simp: ss_set_def ss_unset_def write_commit_def open_write_def bindS_def put_setting_def)

lemma sticks_set:
  assumes "k \<noteq> ''last_error'' \<or> v \<noteq> []"
  shows "evolves sticks (on_db (ss_set i k v))"
proof (cases "k = ''last_error''")
  case True
  with assms have "setting (snd (ss_set i k v db)) ''last_error'' '''' = [] \<longrightarrow> setting db ''last_error'' '''' = []"
    for db using store_settings(1)[of i k v db "''last_error''" "''''"] by auto
  then show ?thesis
    by (intro evolves_on_db) (auto simp: sticks_def faulted_def rollovers_same[OF store_writes(2)])
next
  case False
  then show ?thesis
    by (intro sticks_db writes_elsewhere) (simp_all add: rollovers_same[OF store_writes(2)])
qed

interpretation error_frame: sup_frame sticks "\<lambda>k v. k \<noteq> ''last_error'' \<or> v \<noteq> []"
proof
  show "sticks s s" for s by (simp add: sticks_def)
  show "sticks s t \<Longrightarrow> sticks t u \<Longrightarrow> sticks s u" for s t u by (auto simp: sticks_def)
  show "evolves sticks (on_db (ss_set i k v))" if "k \<noteq> ''last_error'' \<or> v \<noteq> []" for i k v
    using that by (rule sticks_set)
  show "evolves sticks (on_db (ss_unset i k))" if "k \<notin> watched_keys" for i k
    using that by (intro sticks_db writes_elsewhere) (auto simp: rollovers_same[OF store_writes(5)])
  show "evolves sticks (on_db (ss_event i now fp kind payload))" for i now fp kind payload
    by (intro sticks_db rollovers_event) (simp add: store_writes)
  show "evolves sticks (on_db (upsert_notification i now fp kind sev msg payload st bucket))"
    for i now fp kind sev msg payload st bucket
    by (intro sticks_db) (simp_all add: store_upsert rollovers_same[OF store_upsert(3)])
  show "evolves sticks (on_db (mark_notification i now fp st m))" for i now fp st m
    by (intro sticks_db) (simp_all add: store_writes rollovers_same[OF store_writes(12)])
  show "evolves sticks (on_db (create_callback_token i sha token now act ttl appr actor payload))"
    for i sha token now act ttl appr actor payload
    by (intro sticks_db) (simp_all add: store_writes rollovers_same[OF store_writes(15)])
qed (simp_all add: sticks_def faulted_def)

text \<open>
  A transition clears the error, after the rollover that it records. What follows only adds rollovers.
\<close>

lemma sticks_run:
  assumes "\<And>s r s'. m s = (r, s') \<Longrightarrow> sticks s s'"
  shows "evolves sticks m"
  using assms by (simp add: evolves_def) (metis prod.collapse)

lemma sticks_transition:
  assumes queue: "evolves sticks queue"
  shows "evolves sticks (transition_milestone env gh queue payload actor)"
proof -
  have step: "evolves sticks (bindS (on_db (ss_advance_milestone i now x y initial audit)) (\<lambda>advanced.
       if \<not> advanced then ret None else thenS (set_setting env ''last_error'' '''') queue))"
    for i now x y initial audit
  proof (rule sticks_run)
    fix s r s'
    assume run: "bindS (on_db (ss_advance_milestone i now x y initial audit)) (\<lambda>advanced.
       if \<not> advanced then ret None else thenS (set_setting env ''last_error'' '''') queue) s = (r, s')"
    obtain r1 s1 where adv: "on_db (ss_advance_milestone i now x y initial audit) s = (r1, s1)"
      by (meson surj_pair)
    note counts = advance_counts[OF adv]
    show "sticks s s'"
    proof (cases "r1 = Inr True")
      case False
      then have "s' = s1" using run adv by (cases r1) auto
      with False counts show ?thesis by simp
    next
      case True
      then have rest: "thenS (set_setting env ''last_error'' '''') queue s1 = (r, s')"
        using run adv by simp
      obtain r2 s2 where set_e: "set_setting env ''last_error'' '''' s1 = (r2, s2)" by (meson surj_pair)
      have "rollovers (sv_db s2) = rollovers (sv_db s1)"
        using set_e rollovers_same[OF store_writes(2)]
        by (auto simp: set_setting_def on_db_def split: prod.splits) (metis snd_conv)
      moreover have "sticks s2 s'"
      proof (cases r2)
        case (Inl e)
        then show ?thesis using rest set_e error_frame.R_refl by simp
      next
        case (Inr u)
        then show ?thesis using rest set_e evolvesD[OF queue] by simp
      qed
      ultimately show ?thesis using counts True by (simp add: sticks_def)
    qed
  qed
  show ?thesis
    unfolding transition_milestone_def
    by (intro step error_frame.ev_bindS error_frame.ev_pure error_frame.fr_verify_rollover
        error_frame.fr_decision)
qed

interpretation error_acts: sup_frame_acts sticks "\<lambda>k v. k \<noteq> ''last_error'' \<or> v \<noteq> []" "\<lambda>_. True"
proof
  show "evolves sticks (on_db (claim_issue i now n title m))" for i now n title m
    by (intro sticks_db) (simp_all add: claim_effects)
qed (auto intro: sticks_approvals approvals_only sticks_transition simp: sticks_def faulted_def)

section \<open>What merging and stopping are paid with\<close>

text \<open>
  An approved merge approval pays for one merge, of the pull request and the commit that it names, and
  a spent confirmation for stopping the runner of the issue that it names once.
\<close>

definition pays_merge :: "json \<Rightarrow> gh_action multiset" where
  "pays_merge payload =
     (case (payload_number payload, json_get payload ''head_sha'') of
        (Inr n, Some (JStr sha)) \<Rightarrow> {#Merge n sha#} | _ \<Rightarrow> {#})"

definition row_pays :: "sup_approval \<Rightarrow> gh_action multiset" where
  "row_pays row = (if sa_state row = ''approved'' \<and> sa_action row = ''merge_pr''
     then pays_merge (sa_payload row) else {#})"

definition token_pays :: "sup_token \<Rightarrow> gh_action multiset" where
  "token_pays row = (if tk_consumed row \<noteq> None \<and> tk_action row = ''stop-confirm''
     then (case py_int (json_get (tk_payload row) ''issue'') 0 of Inr n \<Rightarrow> {#StopRunner n#} | _ \<Rightarrow> {#})
     else {#})"

definition authority_paid :: "sup_db \<Rightarrow> gh_action multiset" where
  "authority_paid db = sum_list (map row_pays (db_approvals db)) + sum_list (map token_pays (db_tokens db))"

definition authority_used :: "sup_state \<Rightarrow> gh_action multiset" where
  "authority_used s = mset (filter (\<lambda>a. \<not> ordinary a) (sv_log s))"

definition keys_unique :: "sup_db \<Rightarrow> bool" where
  "keys_unique db \<longleftrightarrow> distinct (map sa_id (db_approvals db)) \<and> distinct (map tk_hash (db_tokens db))"

text \<open>
  From \<open>s\<close> to \<open>t\<close> everything that needs authority is paid for on the way, apart from \<open>c\<close>, which was
  paid before.
\<close>

definition covered_with :: "gh_action multiset \<Rightarrow> sup_state \<Rightarrow> sup_state \<Rightarrow> bool" where
  "covered_with c s t \<longleftrightarrow> (keys_unique (sv_db s) \<longrightarrow> keys_unique (sv_db t)
     \<and> (\<exists>new. authority_used t = authority_used s + new
          \<and> authority_paid (sv_db s) + new \<subseteq># authority_paid (sv_db t) + c))"

abbreviation covered :: "sup_state \<Rightarrow> sup_state \<Rightarrow> bool" where
  "covered \<equiv> covered_with {#}"

lemma covered_refl: "covered_with c s s"
  by (simp add: covered_with_def)

lemma covered_trans:
  assumes "covered_with c s t" and "covered_with d t u"
  shows "covered_with (c + d) s u"
proof (cases "keys_unique (sv_db s)")
  case True
  from assms(1) True obtain m where t: "keys_unique (sv_db t)" "authority_used t = authority_used s + m"
    and m: "authority_paid (sv_db s) + m \<subseteq># authority_paid (sv_db t) + c" by (auto simp: covered_with_def)
  from assms(2) t obtain n where u: "keys_unique (sv_db u)" "authority_used u = authority_used t + n"
    and n: "authority_paid (sv_db t) + n \<subseteq># authority_paid (sv_db u) + d" by (auto simp: covered_with_def)
  have "authority_paid (sv_db s) + m + n \<subseteq># (authority_paid (sv_db t) + c) + n"
    using m by (rule subset_mset.add_right_mono)
  also have "\<dots> = authority_paid (sv_db t) + n + c" by (simp add: ac_simps)
  also have "\<dots> \<subseteq># authority_paid (sv_db u) + d + c"
    using n by (rule subset_mset.add_right_mono)
  finally have "authority_paid (sv_db s) + (m + n) \<subseteq># authority_paid (sv_db u) + (c + d)"
    by (simp add: ac_simps)
  with t u show ?thesis unfolding covered_with_def by (auto simp: ac_simps)
qed (simp add: covered_with_def)

lemma covered_bind:
  assumes "evolves (covered_with c) m" and "\<And>x. evolves (covered_with d) (f x)"
  shows "evolves (covered_with (c + d)) (bindS m f)"
proof -
  have "covered_with (c + d) s t" if "covered_with c s t" for s t
    using covered_trans[OF that covered_refl] .
  then show ?thesis
    using assms covered_trans unfolding evolves_def bindS_def
    by (auto split: prod.splits sum.splits) (metis snd_conv)+
qed

lemma covered_handle:
  assumes "evolves (covered_with c) m" and "\<And>e. evolves covered (h e)"
  shows "evolves (covered_with c) (handle m h)"
  using assms covered_trans[of c _ _ "{#}"] unfolding evolves_def handle_def
  by (auto split: prod.splits sum.splits) (metis snd_conv)+

text \<open>Authority that is paid for first can be used afterwards.\<close>

lemma paid_then_used:
  assumes "keys_unique (sv_db s) \<Longrightarrow> keys_unique (sv_db t) \<and> authority_paid (sv_db s) + c \<subseteq># authority_paid (sv_db t)"
    and "authority_used t = authority_used s" and "covered_with c t u"
  shows "covered s u"
proof (cases "keys_unique (sv_db s)")
  case True
  with assms obtain n where u: "keys_unique (sv_db u)" "authority_used u = authority_used s + n"
    and t: "authority_paid (sv_db s) + c \<subseteq># authority_paid (sv_db t)"
    and n: "authority_paid (sv_db t) + n \<subseteq># authority_paid (sv_db u) + c" by (auto simp: covered_with_def)
  have "authority_paid (sv_db s) + n + c = authority_paid (sv_db s) + c + n" by (simp add: ac_simps)
  also have "\<dots> \<subseteq># authority_paid (sv_db t) + n" using t by (rule subset_mset.add_right_mono)
  also note n
  finally have "authority_paid (sv_db s) + n \<subseteq># authority_paid (sv_db u)" by simp
  with u show ?thesis by (simp add: covered_with_def)
qed (simp add: covered_with_def)

text \<open>One call of the store.\<close>

lemma covered_db:
  assumes "\<And>db. keys_unique db \<Longrightarrow> keys_unique (snd (m db)) \<and> authority_paid db \<subseteq># authority_paid (snd (m db))"
  shows "evolves covered (on_db m)"
  using assms by (intro evolves_on_db) (simp add: covered_with_def authority_used_def)

lemma covered_same:
  assumes "\<And>db. db_approvals (snd (m db)) = db_approvals db" and "\<And>db. db_tokens (snd (m db)) = db_tokens db"
  shows "evolves covered (on_db m)"
  using assms by (intro covered_db) (simp add: keys_unique_def authority_paid_def)

lemma sum_list_below:
  fixes g h :: "'a \<Rightarrow> 'b multiset"
  assumes "\<And>x. x \<in> set xs \<Longrightarrow> g x \<subseteq># h x"
  shows "sum_list (map g xs) \<subseteq># sum_list (map h xs)"
  using assms by (induction xs) (auto intro: subset_mset.add_mono)

lemma sum_list_raised:
  fixes g h :: "'a \<Rightarrow> 'b multiset"
  assumes "\<And>x. x \<in> set xs \<Longrightarrow> g x \<subseteq># h x" and "y \<in> set xs" and "g y = {#}"
  shows "sum_list (map g xs) + h y \<subseteq># sum_list (map h xs)"
  using assms
proof (induction xs)
  case (Cons x xs)
  show ?case
  proof (cases "y = x")
    case True
    have "sum_list (map g xs) \<subseteq># sum_list (map h xs)" by (rule sum_list_below) (simp add: Cons.prems)
    with True Cons.prems(3) show ?thesis by (simp add: ac_simps)
  next
    case False
    with Cons.prems(2) have "y \<in> set xs" by simp
    with Cons have "sum_list (map g xs) + h y \<subseteq># sum_list (map h xs)" and "g x \<subseteq># h x" by auto
    then have "g x + (sum_list (map g xs) + h y) \<subseteq># h x + sum_list (map h xs)"
      by (intro subset_mset.add_mono)
    then show ?thesis by (simp add: ac_simps)
  qed
qed simp

lemma update_pays:
  assumes "keys_unique db" and "\<And>a. sa_id (f a) = sa_id a"
    and below: "\<And>a. a \<in> set (db_approvals db) \<Longrightarrow> sa_id a = i \<Longrightarrow> row_pays a \<subseteq># row_pays (f a)"
  shows "keys_unique (update_approval i f db)"
    and "authority_paid db \<subseteq># authority_paid (update_approval i f db)"
    and "a \<in> set (db_approvals db) \<Longrightarrow> sa_id a = i \<Longrightarrow> row_pays a = {#} \<Longrightarrow>
      authority_paid db + row_pays (f a) \<subseteq># authority_paid (update_approval i f db)"
proof -
  let ?up = "\<lambda>a. if sa_id a = i then f a else a"
  have ids: "map sa_id (map ?up xs) = map sa_id xs" for xs by (simp add: assms(2))
  show "keys_unique (update_approval i f db)"
    using assms(1) by (simp add: keys_unique_def update_approval_def ids del: map_map)
  have rows: "row_pays a \<subseteq># row_pays (?up a)" if "a \<in> set (db_approvals db)" for a
    using below[OF that] by simp
  have paid: "authority_paid (update_approval i f db)
      = sum_list (map (\<lambda>a. row_pays (?up a)) (db_approvals db)) + sum_list (map token_pays (db_tokens db))"
    by (simp add: authority_paid_def update_approval_def comp_def)
  show "authority_paid db \<subseteq># authority_paid (update_approval i f db)"
    unfolding paid unfolding authority_paid_def
    by (intro subset_mset.add_right_mono sum_list_below rows)
  show "authority_paid db + row_pays (f a) \<subseteq># authority_paid (update_approval i f db)"
    if "a \<in> set (db_approvals db)" "sa_id a = i" "row_pays a = {#}"
  proof -
    have "sum_list (map row_pays (db_approvals db)) + row_pays (?up a)
        \<subseteq># sum_list (map (\<lambda>a. row_pays (?up a)) (db_approvals db))"
      by (rule sum_list_raised) (use rows that in auto)
    then have "sum_list (map row_pays (db_approvals db)) + row_pays (f a) + sum_list (map token_pays (db_tokens db))
        \<subseteq># authority_paid (update_approval i f db)"
      unfolding paid using that(2) by (intro subset_mset.add_right_mono) simp
    then show ?thesis by (simp add: authority_paid_def ac_simps)
  qed
qed

text \<open>An approval that is found by its identity is the only one with it.\<close>

lemma found_only:
  assumes "keys_unique db" and "find_approval db i = Some row" and "a \<in> set (db_approvals db)" and "sa_id a = i"
  shows "a = row"
proof -
  have "row \<in> set (db_approvals db)" "sa_id row = i"
    using assms(2) by (auto simp: find_approval_def find_Some_iff)
  with assms show ?thesis
    by (auto simp: keys_unique_def distinct_map dest: inj_onD)
qed

lemma found_row: "find_approval db i = Some row \<Longrightarrow> row \<in> set (db_approvals db) \<and> sa_id row = i"
  by (auto simp: find_approval_def find_Some_iff)

definition unapproved :: "sup_db \<Rightarrow> string \<Rightarrow> bool" where
  "unapproved db i \<longleftrightarrow> (\<forall>b\<in>set (db_approvals db). sa_id b = i \<longrightarrow> sa_state b \<noteq> ''approved'')"

lemma paid_lock [simp]:
  "authority_paid (db\<lparr>db_lock := l\<rparr>) = authority_paid db" "authority_paid (close_write i db) = authority_paid db"
  "keys_unique (db\<lparr>db_lock := l\<rparr>) = keys_unique db" "keys_unique (close_write i db) = keys_unique db"
  "unapproved (db\<lparr>db_lock := l\<rparr>) j = unapproved db j"
  by (simp_all add: authority_paid_def keys_unique_def unapproved_def)

lemma supersede_rows_pay:
  assumes "keys_unique db" and "\<forall>a\<in>set rows. unapproved db (sa_id a)"
  shows "keys_unique (snd (supersede_rows i now reason chosen rows db))
    \<and> authority_paid db \<subseteq># authority_paid (snd (supersede_rows i now reason chosen rows db))"
  using assms
proof (induction rows arbitrary: db)
  case (Cons a rows)
  let ?db2 = "update_approval (sa_id a) (superseded now reason) (db\<lparr>db_lock := Some i\<rparr>)"
  have unpaid: "row_pays b \<subseteq># row_pays (superseded now reason b)"
    if "b \<in> set (db_approvals db)" "sa_id b = sa_id a" for b
    using Cons.prems(2) that by (simp add: unapproved_def row_pays_def)
  have up: "keys_unique ?db2" "authority_paid db \<subseteq># authority_paid ?db2"
    using update_pays(1,2)[of "db\<lparr>db_lock := Some i\<rparr>" "superseded now reason" "sa_id a"] Cons.prems(1) unpaid
    by (simp_all add: superseded_def)
  have rest: "\<forall>b\<in>set rows. unapproved ?db2 (sa_id b)"
    using Cons.prems(2) by (auto simp: unapproved_def update_approval_def superseded_def)
  note later = Cons.IH[OF up(1) rest]
  have "authority_paid db \<subseteq># authority_paid (snd (supersede_rows i now reason chosen rows ?db2))"
    using up(2) later by (blast intro: subset_mset.order_trans)
  then show ?case
    using Cons.IH[OF Cons.prems(1)] Cons.prems later
    by (auto simp: bindS_def open_write_def split: prod.splits sum.splits)
qed simp

lemma supersede_pays: "evolves covered (on_db (supersede i now reason chosen))"
proof (rule covered_db)
  fix db assume unique: "keys_unique db"
  let ?rows = "pending_rows db now (\<lambda>a. sa_action a = ''merge_pr'')"
  have "\<forall>a\<in>set ?rows. unapproved db (sa_id a)"
  proof
    fix a assume "a \<in> set ?rows"
    then have a: "a \<in> set (db_approvals db)" "sa_state a = ''pending''" by (auto simp: pending_rows_def)
    have "b = a" if "b \<in> set (db_approvals db)" "sa_id b = sa_id a" for b
      using unique a(1) that by (auto simp: keys_unique_def distinct_map dest: inj_onD)
    with a(2) show "unapproved db (sa_id a)" unfolding unapproved_def by fastforce
  qed
  note rows = supersede_rows_pay[OF unique this, of i now reason chosen]
  obtain r d where run: "supersede_rows i now reason chosen ?rows db = (r, d)" by (meson surj_pair)
  show "keys_unique (snd (supersede i now reason chosen db))
      \<and> authority_paid db \<subseteq># authority_paid (snd (supersede i now reason chosen db))"
    using rows by (cases r) (simp_all add: supersede_def pending_approvals_def bindS_def run)
qed

lemma create_pays: "evolves covered (on_db (create_approval i sha token now act payload ttl))"
proof (rule covered_db)
  fix db assume unique: "keys_unique db"
  have fresh: "find_approval db j = None \<Longrightarrow> j \<notin> sa_id ` set (db_approvals db)" for j
    by (auto simp: find_approval_def find_None_iff)
  have read: "snd (ss_approval j db') = db'" for j db'
    by (simp add: ss_approval_def bindS_def split: option.split)
  have find: "find_approval (db\<lparr>db_lock := l\<rparr>) j = find_approval db j" for l j by (simp add: find_approval_def)
  show "keys_unique (snd (create_approval i sha token now act payload ttl db))
      \<and> authority_paid db \<subseteq># authority_paid (snd (create_approval i sha token now act payload ttl db))"
    using unique fresh
    by (auto simp: create_approval_def bindS_def open_write_def read find keys_unique_def Let_def
        authority_paid_def row_pays_def image_iff)
qed

lemma token_kept: "evolves covered (on_db (create_callback_token i sha token now act ttl appr actor payload))"
proof (rule covered_db)
  fix db assume unique: "keys_unique db"
  have fresh: "find_token db h = None \<Longrightarrow> h \<notin> tk_hash ` set (db_tokens db)" for h
    by (auto simp: find_token_def find_None_iff)
  show "keys_unique (snd (create_callback_token i sha token now act ttl appr actor payload db))
      \<and> authority_paid db \<subseteq># authority_paid (snd (create_callback_token i sha token now act ttl appr actor payload db))"
    using unique fresh
    by (auto simp: create_callback_token_def bindS_def open_write_def keys_unique_def
        authority_paid_def token_pays_def image_iff)
qed

text \<open>What a decision pays for, when it is an approval.\<close>

lemma decide_pays:
  assumes unique: "keys_unique db" and run: "ss_decide i now appr st actor reason db = (r, db')"
  shows "keys_unique db' \<and> authority_paid db \<subseteq># authority_paid db'"
    and "r = Inr row \<Longrightarrow> st = ''approved'' \<Longrightarrow> find_approval db appr = Some old \<Longrightarrow> sa_action old = ''merge_pr'' \<Longrightarrow>
      authority_paid db + pays_merge (sa_payload old) \<subseteq># authority_paid db'"
proof -
  have read: "snd (ss_approval j d) = d" for j d
    by (simp add: ss_approval_def bindS_def split: option.split)
  have result: "keys_unique db' \<and> authority_paid db \<subseteq># authority_paid db'
    \<and> (\<forall>row old. r = Inr row \<longrightarrow> st = ''approved'' \<longrightarrow> find_approval db appr = Some old \<longrightarrow> sa_action old = ''merge_pr'' \<longrightarrow>
      authority_paid db + pays_merge (sa_payload old) \<subseteq># authority_paid db')"
  proof (cases "find_approval db appr")
    case None
    with run have "db' = db \<and> isl r" by (auto simp: ss_decide_def decide_read_def ss_approval_def bindS_def)
    with unique show ?thesis by auto
  next
    case (Some old)
    note old = found_row[OF Some]
    show ?thesis
    proof (cases "sa_state old = ''pending''")
      case False
      with run Some have "db' = db \<and> isl r"
        by (auto simp: ss_decide_def decide_read_def ss_approval_def bindS_def)
      with unique show ?thesis by auto
    next
      case True
      then have zero: "row_pays a = {#}" if "a \<in> set (db_approvals db)" "sa_id a = appr" for a
        using found_only[OF unique Some that] by (simp add: row_pays_def)
      let ?mark = "\<lambda>a. a\<lparr>sa_state := ''expired''\<rparr>"
      let ?take = "\<lambda>a. a\<lparr>sa_state := st, sa_decided := Some now, sa_by := Some actor, sa_reason := Some reason\<rparr>"
      let ?db1 = "db\<lparr>db_lock := Some i\<rparr>"
      have up: "keys_unique (update_approval appr f ?db1)" "authority_paid db \<subseteq># authority_paid (update_approval appr f ?db1)"
        "authority_paid db + row_pays (f old) \<subseteq># authority_paid (update_approval appr f ?db1)"
        if "\<And>a. sa_id (f a) = sa_id a" for f
        using update_pays(1,2)[of ?db1 f appr] update_pays(3)[of ?db1 f appr old] that unique zero old by simp_all
      have cases: "db' = db \<and> isl r \<or> isl r \<and> db' = close_write i (update_approval appr ?mark ?db1)
          \<or> db' = close_write i (update_approval appr ?take ?db1)"
        using run Some True old
        by (auto simp: ss_decide_def decide_read_def ss_approval_def decide_write_def write_commit_def
            open_write_def bindS_def split: if_splits option.splits)
      have pays: "sa_action old = ''merge_pr'' \<Longrightarrow> st = ''approved'' \<Longrightarrow> row_pays (?take old) = pays_merge (sa_payload old)"
        by (simp add: row_pays_def)
      show ?thesis using cases unique up[of ?mark] up[of ?take] pays Some by auto
    qed
  qed
  then show "keys_unique db' \<and> authority_paid db \<subseteq># authority_paid db'"
    and "r = Inr row \<Longrightarrow> st = ''approved'' \<Longrightarrow> find_approval db appr = Some old \<Longrightarrow> sa_action old = ''merge_pr'' \<Longrightarrow>
      authority_paid db + pays_merge (sa_payload old) \<subseteq># authority_paid db'" by blast+
qed

lemma consume_pays:
  assumes unique: "keys_unique db" and run: "consume_callback_token i sha now token actor db = (r, db')"
  shows "keys_unique db' \<and> authority_paid db \<subseteq># authority_paid db'"
    and "r = Inr spent \<Longrightarrow> authority_paid db + token_pays spent \<subseteq># authority_paid db'"
proof -
  have "keys_unique db' \<and> authority_paid db \<subseteq># authority_paid db'
    \<and> (\<forall>spent. r = Inr spent \<longrightarrow> authority_paid db + token_pays spent \<subseteq># authority_paid db')"
  proof (cases r)
    case (Inl e)
    with run have "db_approvals db' = db_approvals db \<and> db_tokens db' = db_tokens db"
      by (auto simp: consume_callback_token_def consume_read_def consume_update_def open_write_def
          bindS_def handle_def Let_def split: option.splits if_splits prod.splits sum.splits)
    with unique Inl show ?thesis by (simp add: keys_unique_def authority_paid_def)
  next
    case (Inr spent)
    let ?h = "sha token"
    let ?up = "\<lambda>u. if tk_hash u = ?h then spent else u"
    obtain t where t: "find_token db ?h = Some t" "tk_consumed t = None"
      and spent: "spent = t\<lparr>tk_consumed := Some now, tk_consumed_by := Some actor\<rparr>"
      and db': "db_approvals db' = db_approvals db" "db_tokens db' = map ?up (db_tokens db)"
      using run Inr
      by (auto simp: consume_callback_token_def consume_read_def consume_update_def open_write_def
          bindS_def handle_def Let_def find_token_def split: option.splits if_splits prod.splits sum.splits)
    have mem: "t \<in> set (db_tokens db)" "tk_hash t = ?h"
      using t(1) by (auto simp: find_token_def find_Some_iff)
    have "inj_on tk_hash (set (db_tokens db))" using unique by (simp add: keys_unique_def distinct_map)
    then have only: "u = t" if "u \<in> set (db_tokens db)" "tk_hash u = ?h" for u
      using inj_onD[of tk_hash "set (db_tokens db)" u t] mem that by simp
    have "map tk_hash (map ?up (db_tokens db)) = map tk_hash (db_tokens db)"
      using mem(2) by (simp add: spent)
    then have keys: "keys_unique db'" using unique by (simp add: keys_unique_def db' del: map_map)
    have zero: "token_pays t = {#}" using t(2) by (simp add: token_pays_def)
    have "sum_list (map token_pays (db_tokens db)) + token_pays (?up t)
        \<subseteq># sum_list (map (\<lambda>u. token_pays (?up u)) (db_tokens db))"
    proof (rule sum_list_raised)
      fix u assume "u \<in> set (db_tokens db)"
      then show "token_pays u \<subseteq># token_pays (?up u)"
        using only[of u] zero by (cases "tk_hash u = ?h") simp_all
    qed (rule mem zero)+
    then have "sum_list (map row_pays (db_approvals db))
        + (sum_list (map token_pays (db_tokens db)) + token_pays spent)
        \<subseteq># sum_list (map row_pays (db_approvals db)) + sum_list (map (\<lambda>u. token_pays (?up u)) (db_tokens db))"
      using mem(2) by (intro subset_mset.add_left_mono) simp
    then have "authority_paid db + token_pays spent \<subseteq># authority_paid db'"
      by (simp only: authority_paid_def db' map_map comp_def add.assoc)
    moreover from this have "authority_paid db \<subseteq># authority_paid db'"
      by (rule subset_mset.order_trans[OF mset_subset_eq_add_left])
    ultimately show ?thesis using keys Inr by simp
  qed
  then show "keys_unique db' \<and> authority_paid db \<subseteq># authority_paid db'"
    and "r = Inr spent \<Longrightarrow> authority_paid db + token_pays spent \<subseteq># authority_paid db'" by blast+
qed

section \<open>The frames of the authority and of the approvals\<close>

interpretation cover_frame: sup_frame covered "\<lambda>_ _. True"
proof
  show "covered s s" for s by (rule covered_refl)
  show "covered s t \<Longrightarrow> covered t u \<Longrightarrow> covered s u" for s t u using covered_trans[of "{#}" s t "{#}" u] by simp
  show "evolves covered (on_db (create_callback_token i sha token now act ttl appr actor payload))"
    for i sha token now act ttl appr actor payload by (rule token_kept)
qed (auto intro!: covered_same simp: store_writes store_upsert covered_with_def authority_used_def)

lemma advance_keeps:
  "db_approvals (snd (ss_advance_milestone i now x y initial payload db)) = db_approvals db"
  "db_tokens (snd (ss_advance_milestone i now x y initial payload db)) = db_tokens db"
  by (simp_all add: ss_advance_milestone_def begin_immediate_def open_write_def bindS_def Let_def)

interpretation cover_acts: sup_frame_acts covered "\<lambda>_ _. True" ordinary
proof
  show "evolves covered (transition_milestone env gh queue payload actor)" if "evolves covered queue"
    for env gh queue payload actor
    unfolding transition_milestone_def
    by (intro cover_frame.ev_rules cover_frame.fr_verify_rollover cover_frame.fr_decision cover_frame.fr_set
        covered_same advance_keeps that TrueI)
  show "evolves covered (on_db (ss_decide i now appr st actor reason))" for i now appr st actor reason
    by (rule covered_db) (metis decide_pays(1) prod.collapse)
qed (auto intro!: covered_same supersede_pays create_pays simp: claim_effects covered_with_def authority_used_def)

text \<open>The approvals that a call leaves as they are.\<close>

definition same_rows :: "sup_state \<Rightarrow> sup_state \<Rightarrow> bool" where
  "same_rows s t \<longleftrightarrow> db_approvals (sv_db t) = db_approvals (sv_db s) \<and> sv_log t = sv_log s"

interpretation rows_frame: sup_frame same_rows "\<lambda>_ _. True"
  by unfold_locales (auto intro!: evolves_on_db simp: same_rows_def store_writes store_upsert)

lemma covered_weaken: "evolves covered m \<Longrightarrow> evolves (covered_with c) m"
  using covered_trans[of "{#}" _ _ c, OF _ covered_refl] by (simp add: evolves_def)

lemma covered_first:
  assumes "evolves covered m" and "\<And>x. evolves (covered_with c) (f x)"
  shows "evolves (covered_with c) (bindS m f)"
  using covered_bind[OF assms] by simp

lemma covered_last:
  assumes "evolves (covered_with c) m" and "\<And>x. evolves covered (f x)"
  shows "evolves (covered_with c) (bindS m f)"
  using covered_bind[OF assms] by simp

text \<open>A merge or a stop, on the authority that pays for it.\<close>

lemma logged_used: "\<not> ordinary a \<Longrightarrow> evolves (covered_with {#a#}) (logged a f)"
  by (simp add: evolves_def logged_def external_def bindS_def covered_with_def authority_used_def)

lemma merge_used: "evolves (covered_with {#Merge n sha#}) (gh_merge gh n sha)"
  unfolding gh_merge_def
  by (intro covered_last logged_used cover_frame.ev_rules) simp

lemma ready_and_merge_used:
  assumes "payload_number payload = Inr n"
  shows "evolves (covered_with (pays_merge payload)) (ready_and_merge env gh n payload actor pr)"
proof -
  have "evolves (covered_with (pays_merge payload)) (case json_get payload ''head_sha'' of
      Some (JStr sha) \<Rightarrow> gh_merge gh n sha
    | _ \<Rightarrow> fail PyTypeError ''expected str, bytes or os.PathLike object'')"
    by (auto simp: pays_merge_def assms
        intro: merge_used covered_weaken cover_frame.ev_pure split: option.split json.split)
  then show ?thesis
    unfolding ready_and_merge_def
    by (intro covered_first[OF cover_frame.ev_if] covered_first covered_last cover_acts.fa_client
        cover_frame.fr_client cover_acts.fa_verify_before cover_frame.ev_pure)
qed

lemma merge_decided_used:
  assumes "payload_number payload = Inr n"
  shows "evolves (covered_with (pays_merge payload)) (merge_decided depth env gh i actor payload n pr)"
  unfolding merge_decided_def
  by (intro covered_last covered_handle ready_and_merge_used assms cover_acts.act_rules
      cover_acts.fa_message cover_frame.fr_set TrueI)

lemma decide_merge_covered:
  assumes n: "payload_number (sa_payload row) = Inr n" and old: "find_approval (sv_db t) i = Some row"
    and merge: "sa_action row = ''merge_pr''"
    and run: "thenS (on_db (ss_decide p now i ''approved'' actor ''''))
      (merge_decided depth env gh i actor (sa_payload row) n pr) t = (r, s')"
  shows "covered t s'"
proof -
  obtain r2 db where w: "ss_decide p now i ''approved'' actor '''' (sv_db t) = (r2, db)" by (meson surj_pair)
  let ?t2 = "t\<lparr>sv_db := db\<rparr>"
  have dec: "on_db (ss_decide p now i ''approved'' actor '''') t = (r2, ?t2)" by (simp add: on_db_def w)
  show ?thesis
  proof (cases r2)
    case (Inl e)
    with run dec have "s' = ?t2" by simp
    with decide_pays(1)[OF _ w] show ?thesis by (simp add: covered_with_def authority_used_def)
  next
    case (Inr row')
    have "merge_decided depth env gh i actor (sa_payload row) n pr ?t2 = (r, s')" using run dec Inr by simp
    then have "covered_with (pays_merge (sa_payload row)) ?t2 s'"
      using evolvesD[OF merge_decided_used[OF n]] by blast
    moreover have "keys_unique db \<and> authority_paid (sv_db t) + pays_merge (sa_payload row) \<subseteq># authority_paid db"
      if "keys_unique (sv_db t)" using decide_pays[OF that w] Inr old merge by simp
    ultimately show ?thesis by (intro paid_then_used[of t ?t2]) (simp_all add: authority_used_def)
  qed
qed

text \<open>What \<^verbatim>\<open>approve\<close> looks at before it decides.\<close>

definition approve_checks_plan ::
    "sup_env \<Rightarrow> github \<Rightarrow> string \<Rightarrow> json \<Rightarrow> int \<Rightarrow> (sup_state, pull) proc" where
  "approve_checks_plan env gh actor payload n =
     bindS (gh_pull_request gh n) (\<lambda>pr.
     thenS (lift (verify_merge_plan pr payload True))
    (thenS (if actor = ''autonomy-policy'' then verify_autonomous_merge env gh pr payload True else ret ())
       (ret pr)))"

lemma bind_pure:
  "bindS (ret x) g = g x" "bindS (lift (Inr x)) g = g x" "bindS (gets f) h = (\<lambda>t. h (f t) t)"
  by (simp_all add: bindS_def fun_eq_iff)

lemma sup_approve_parts:
  assumes "find_approval (sv_db s) i = Some row" and "sa_action row = ''merge_pr''"
    and "payload_number (sa_payload row) = Inr n"
  shows "sup_approve depth env gh i actor s = bindS (approve_checks_plan env gh actor (sa_payload row) n)
    (\<lambda>pr t. thenS (on_db (ss_decide (sv_process env) (sv_now env t) i ''approved'' actor ''''))
       (merge_decided depth env gh i actor (sa_payload row) n pr) t) s"
proof -
  have "on_db (ss_approval i) s = (Inr row, s)"
    using assms(1) by (simp add: on_db_def ss_approval_def bindS_def)
  then show ?thesis
    using assms by (simp add: sup_approve_def approve_checks_plan_def bindS_assoc bind_pure Let_def)
qed

lemma sup_approve_covered: "evolves covered (sup_approve depth env gh i actor)"
proof -
  have "covered s s'" if run: "sup_approve depth env gh i actor s = (r, s')" for s r s'
  proof (cases "\<exists>row n. find_approval (sv_db s) i = Some row \<and> sa_action row = ''merge_pr''
      \<and> payload_number (sa_payload row) = Inr n")
    case False
    with run show ?thesis
      by (auto simp: sup_approve_def on_db_def ss_approval_def bindS_def covered_refl Let_def
          split: if_splits sum.splits option.splits)
  next
    case True
    then obtain row n where row: "find_approval (sv_db s) i = Some row" "sa_action row = ''merge_pr''"
      "payload_number (sa_payload row) = Inr n" by blast
    let ?checks = "approve_checks_plan env gh actor (sa_payload row) n"
    obtain r1 t where pre: "?checks s = (r1, t)" by (meson surj_pair)
    have "evolves covered ?checks" "evolves same_rows ?checks"
      unfolding approve_checks_plan_def
      by (intro cover_frame.ev_rules cover_frame.frame_rules rows_frame.ev_rules rows_frame.frame_rules)+
    from this[THEN evolvesD, OF pre] have st: "covered s t" "find_approval (sv_db t) i = Some row"
      using row(1) by (simp_all add: same_rows_def find_approval_def)
    show ?thesis
    proof (cases r1)
      case (Inl e)
      with run pre st show ?thesis by (simp add: sup_approve_parts[OF row])
    next
      case (Inr pr)
      then have "covered t s'"
        using run pre by (intro decide_merge_covered[OF row(3) st(2) row(2)]) (simp add: sup_approve_parts[OF row])
      with st(1) show ?thesis using covered_trans[of "{#}" s t "{#}"] by simp
    qed
  qed
  then show ?thesis by (simp add: evolves_def) (metis prod.collapse)
qed

text \<open>A callback pays with its token, which only \<^verbatim>\<open>stop-confirm\<close> needs.\<close>

lemma stop_used: "evolves (covered_with (token_pays row)) (run_callback ctl actor row found)"
  if "tk_consumed row \<noteq> None"
proof (cases "tk_action row = ''stop-confirm''")
  case False
  show ?thesis
    by (rule covered_weaken, rule cover_acts.fa_run_callback, rule sup_approve_covered) (simp add: False)
next
  case True
  have "evolves (covered_with (token_pays row)) (confirm_stop ctl (tk_payload row) actor)"
  proof (cases "py_int (json_get (tk_payload row) ''issue'') 0")
    case (Inl e)
    then show ?thesis
      by (simp add: confirm_stop_def evolves_def bindS_def covered_refl)
  next
    case (Inr n)
    have "token_pays row = {#StopRunner n#}" using that True Inr by (simp add: token_pays_def)
    moreover have "evolves (covered_with {#StopRunner n#}) (thenS (logged (StopRunner n) f)
        (thenS (timed_event ctl name suffix kind payload) (ret answer)))" for f :: "nat \<Rightarrow> unit result" and name suffix kind payload and answer :: string
      by (intro covered_last[OF logged_used] cover_frame.ev_rules cover_acts.fa_timed) simp
    ultimately show ?thesis
      by (simp add: confirm_stop_def Inr bind_pure covered_weaken cover_frame.ev_pure)
  qed
  with True show ?thesis by (simp add: run_callback_def)
qed

lemma execute_callback_covered: "evolves covered (execute_callback ctl token actor)"
proof -
  have spend: "evolves covered (bindS (on_db (consume_callback_token i sha now token actor))
      (\<lambda>spent. run_callback ctl actor spent found))" for i sha now found
    unfolding evolves_def
  proof
    fix s :: sup_state
    let ?all = "bindS (on_db (consume_callback_token i sha now token actor)) (\<lambda>spent. run_callback ctl actor spent found)"
    obtain r db where c: "consume_callback_token i sha now token actor (sv_db s) = (r, db)" by (meson surj_pair)
    let ?t = "s\<lparr>sv_db := db\<rparr>"
    have run: "on_db (consume_callback_token i sha now token actor) s = (r, ?t)" by (simp add: on_db_def c)
    show "covered s (snd (?all s))"
    proof (cases r)
      case (Inl e)
      then have "snd (?all s) = ?t" using run by simp
      with consume_pays(1)[OF _ c] show ?thesis by (simp add: covered_with_def authority_used_def)
    next
      case (Inr spent)
      have "tk_consumed spent \<noteq> None"
        using c Inr by (auto elim!: consume_callback_token_Inr)
      then have "covered_with (token_pays spent) ?t (snd (run_callback ctl actor spent found ?t))"
        using stop_used[of spent ctl actor found] by (simp add: evolves_def)
      moreover have "keys_unique db \<and> authority_paid (sv_db s) + token_pays spent \<subseteq># authority_paid db"
        if "keys_unique (sv_db s)" using consume_pays[OF that c] Inr by simp
      ultimately have "covered s (snd (run_callback ctl actor spent found ?t))"
        by (intro paid_then_used[of s ?t]) (simp_all add: authority_used_def)
      then show ?thesis using run Inr by simp
    qed
  qed
  show ?thesis
    unfolding execute_callback_def Let_def
    by (intro spend cover_frame.ev_rules cover_frame.fr_consistent cover_acts.fa_verify_candidate)
qed

text \<open>A spent token stays spent.\<close>

definition tokens_burn :: "sup_state \<Rightarrow> sup_state \<Rightarrow> bool" where
  "tokens_burn s t \<longleftrightarrow> ledger_grows (sv_db s) (sv_db t)"

lemma burns_db: "evolves ledger_grows m \<Longrightarrow> evolves tokens_burn (on_db m)"
  by (intro evolves_on_db) (simp add: tokens_burn_def evolves_def)

lemma burns_set: "evolves ledger_grows (ss_set i k v)" "evolves ledger_grows (ss_unset i k)"
  unfolding ss_set_def ss_unset_def by (rule ev_write_commit; simp)+

interpretation burn_frame: sup_frame tokens_burn "\<lambda>_ _. True"
  by unfold_locales
    (auto intro: burns_db burns_set ev_event ev_upsert ev_mark ev_token grows.R_refl grows.R_trans
      simp: tokens_burn_def)

interpretation burn_acts: sup_frame_acts tokens_burn "\<lambda>_ _. True" "\<lambda>_. True"
proof
  show "evolves tokens_burn (transition_milestone env gh queue payload actor)" if "evolves tokens_burn queue"
    for env gh queue payload actor
    unfolding transition_milestone_def
    by (intro burn_frame.ev_rules burn_frame.fr_verify_rollover burn_frame.fr_decision burn_frame.fr_set
        burns_db ev_advance that TrueI)
qed (auto intro: burns_db ev_claim ev_supersede ev_create ev_decide grows.R_refl simp: tokens_burn_def)

end
