(* ===== verification/SupSafety.thy ===== *)
theory SupSafety
  imports SupAuthority
begin

text \<open>
  What holds of the supervisor as a whole: over histories of its processes (\<open>serve\<close>), over a pass of the
  monitor, and of the Telegram channel.
\<close>

section \<open>Histories\<close>

lemma covered_serve: "covered s (serve h s)"
  by (intro cover_acts.fa_serve sup_approve_covered execute_callback_covered)

lemma sticks_serve: "sticks s (serve h s)"
proof (rule error_acts.fa_all)
  show "evolves sticks (on_db (consume_callback_token i sha now token actor))" for i sha now token actor
  proof (rule sticks_db)
    fix db
    obtain r db' where run: "consume_callback_token i sha now token actor db = (r, db')" by (meson surj_pair)
    then have "db_settings db' = db_settings db \<and> db_events db' = db_events db"
      by (auto simp: consume_callback_token_def consume_read_def consume_update_def open_write_def
          bindS_def handle_def Let_def split: option.splits if_splits prod.splits sum.splits)
    then show "db_settings (snd (consume_callback_token i sha now token actor db)) ''last_error''
        = db_settings db ''last_error''"
      "rollovers db \<le> rollovers (snd (consume_callback_token i sha now token actor db))"
      by (simp_all add: run rollovers_def)
  qed
qed simp

lemma burns_serve: "tokens_burn s (serve h s)"
  by (rule burn_acts.fa_all) (auto intro: burns_db ev_consume)


text \<open>
  A recorded error is left only by a rollover. Once \<^verbatim>\<open>last_error\<close> is set, every history of the
  supervisor's processes leaves it set, unless a milestone was rolled over in between.
\<close>

theorem error_is_left_by_rollover:
  assumes "setting (sv_db s) ''last_error'' '''' \<noteq> []"
  shows "setting (sv_db (serve h s)) ''last_error'' '''' \<noteq> []
    \<or> rollovers (sv_db s) < rollovers (sv_db (serve h s))"
  using sticks_serve[of s h] assms by (simp add: sticks_def faulted_def)

section \<open>The monitor\<close>

text \<open>
  C23. A paused monitor is passive. A pass of the monitor that finds the supervisor paused sends nothing to
  GitHub, starts, merges, closes and stops nothing, leaves every approval as it is and stays paused, also
  when it ends in an exception.
\<close>

theorem paused_monitor_is_passive:
  assumes "monitor_once ctl s = (r, s')" and "setting (sv_db s) ''paused'' ''false'' = ''true''"
  shows "sv_log s' = sv_log s \<and> db_approvals (sv_db s') = db_approvals (sv_db s)
    \<and> setting (sv_db s') ''paused'' ''false'' = ''true''"
proof -
  define before where "before = thenS (require_consistent_policy (ct_env ctl) ''monitor'' False)
    (thenS (deliver_digest ctl) (monitor_runner ctl))"
  define after where "after = bindS (track_pull_request ctl) (\<lambda>number.
    case number of None \<Rightarrow> ret () | Some t \<Rightarrow> watch_pull_request ctl t)"
  have "evolves at_rest before"
    unfolding before_def
    by (intro pause_frame.ev_rules pause_frame.fr_consistent pause_frame.fr_digest pause_frame.fr_runner)
  moreover obtain r1 t where run: "before s = (r1, t)" by (meson surj_pair)
  ultimately have rest: "at_rest s t" by (rule evolvesD)
  then have held: "held t" using assms(2) by (simp add: at_rest_def held_def)
  have "monitor_once ctl s = thenS before (bindS paused (\<lambda>held. if held then ret () else after)) s"
    unfolding monitor_once_def before_def after_def by (simp only: bindS_assoc)
  then have "s' = t"
    using assms(1) run held by (cases r1) (simp_all add: bindS_def paused_run held_def)
  with rest assms(2) show ?thesis by (simp add: at_rest_def held_def)
qed

section \<open>Callbacks\<close>

text \<open>What is checked before the token of a callback is spent.\<close>

definition callback_checks :: "control \<Rightarrow> sup_token \<Rightarrow> (sup_state, pull option) proc" where
  "callback_checks ctl row =
     thenS (if tk_action row \<in> {''status'', ''refresh'', ''workflow-details'', ''details''} then ret ()
            else require_consistent_policy (ct_env ctl) ''listener''
                   (tk_action row = ''autonomy-change''
                      \<and> json_get (tk_payload row) ''operation'' = Some (JStr ''profile'')))
       (verify_candidate ctl row)"

lemma execute_callback_InrE:
  assumes "execute_callback ctl token actor s = (Inr out, s')"
  obtains row found s1 spent db where "callback_checks ctl row s = (Inr found, s1)"
    and "consume_callback_token (sv_process (ct_env ctl)) (sv_sha256 (ct_env ctl)) (sv_now (ct_env ctl) s1)
      token actor (sv_db s1) = (Inr spent, db)"
    and "run_callback ctl actor spent found (s1\<lparr>sv_db := db\<rparr>) = (Inr out, s')"
proof -
  obtain row where row: "find_token (sv_db s) (sv_sha256 (ct_env ctl) token) = Some row"
    using assms by (auto simp: execute_callback_def Let_def bindS_Inr_iff split: option.splits)
  have "bindS (callback_checks ctl row) (\<lambda>found. bindS (gets (sv_now (ct_env ctl))) (\<lambda>now.
      bindS (on_db (consume_callback_token (sv_process (ct_env ctl)) (sv_sha256 (ct_env ctl)) now token actor))
        (\<lambda>spent. run_callback ctl actor spent found))) s = (Inr out, s')"
    using assms row by (simp add: execute_callback_def callback_checks_def Let_def bind_pure bindS_assoc)
  then obtain found s1 spent s2 where "callback_checks ctl row s = (Inr found, s1)"
    and spend: "on_db (consume_callback_token (sv_process (ct_env ctl)) (sv_sha256 (ct_env ctl))
      (sv_now (ct_env ctl) s1) token actor) s1 = (Inr spent, s2)"
    and "run_callback ctl actor spent found s2 = (Inr out, s')"
    by (auto simp: bindS_Inr_iff)
  moreover from spend obtain db where "consume_callback_token (sv_process (ct_env ctl)) (sv_sha256 (ct_env ctl))
      (sv_now (ct_env ctl) s1) token actor (sv_db s1) = (Inr spent, db)" "s2 = s1\<lparr>sv_db := db\<rparr>"
    by (auto simp: on_db_def split: prod.splits)
  ultimately show ?thesis by (auto intro: that)
qed

lemma burnt_token_refused:
  assumes "burnt_token (sv_db s) (sv_sha256 (ct_env ctl) token)"
  shows "isl (fst (execute_callback ctl token actor s))"
proof (cases "execute_callback ctl token actor s")
  case (Pair r s')
  show ?thesis
  proof (cases r)
    case (Inr out)
    then obtain row found s1 spent db where check: "callback_checks ctl row s = (Inr found, s1)"
      and spend: "consume_callback_token (sv_process (ct_env ctl)) (sv_sha256 (ct_env ctl))
        (sv_now (ct_env ctl) s1) token actor (sv_db s1) = (Inr spent, db)"
      using execute_callback_InrE[of ctl token actor s out s'] Pair by metis
    have "evolves tokens_burn (callback_checks ctl row)"
      unfolding callback_checks_def
      by (intro burn_frame.ev_rules burn_frame.fr_consistent burn_acts.fa_verify_candidate)
    from evolvesD[OF this check] assms have "burnt_token (sv_db s1) (sv_sha256 (ct_env ctl) token)"
      by (simp add: tokens_burn_def ledger_grows_def)
    with spend have False by (auto simp: burnt_token_def elim!: consume_callback_token_Inr)
    then show ?thesis ..
  qed (simp add: Pair)
qed

lemma executed_is_burnt:
  assumes "execute_callback ctl token actor s = (Inr out, s')"
  shows "burnt_token (sv_db s') (sv_sha256 (ct_env ctl) token)"
proof -
  obtain found s1 spent db where
    spend: "consume_callback_token (sv_process (ct_env ctl)) (sv_sha256 (ct_env ctl))
        (sv_now (ct_env ctl) s1) token actor (sv_db s1) = (Inr spent, db)"
    and run: "run_callback ctl actor spent found (s1\<lparr>sv_db := db\<rparr>) = (Inr out, s')"
    using execute_callback_InrE[OF assms] by metis
  have "evolves tokens_burn (confirm_stop ctl payload actor)" for payload
    unfolding confirm_stop_def
    by (intro burn_acts.act_rules burn_acts.fa_logged burn_acts.fa_timed TrueI)
  then have "evolves tokens_burn (run_callback ctl actor spent found)"
    by (intro burn_acts.fa_run_callback burn_acts.fa_approve burn_acts.fa_ready_and_merge TrueI)
  from evolvesD[OF this run] have "ledger_grows db (sv_db s')" by (simp add: tokens_burn_def)
  moreover have "burnt_token db (sv_sha256 (ct_env ctl) token)"
    using spend by (auto simp: burnt_token_def elim!: consume_callback_token_Inr)
  ultimately show ?thesis by (simp add: ledger_grows_def)
qed

text \<open>
  C24. A button works once. After a callback token has been executed, no process executes it again,
  whatever the supervisor's processes do in between, for whichever actor: the second execution raises.
\<close>

theorem callback_executes_once:
  assumes "execute_callback ctl token actor s = (Inr out, s')"
    and "sv_sha256 (ct_env other) = sv_sha256 (ct_env ctl)"
  shows "isl (fst (execute_callback other token actor2 (serve h s')))"
proof (rule burnt_token_refused)
  show "burnt_token (sv_db (serve h s')) (sv_sha256 (ct_env other) token)"
    using executed_is_burnt[OF assms(1)] burns_serve[of s' h] assms(2)
    by (simp add: tokens_burn_def ledger_grows_def)
qed

lemma merge_answer:
  assumes "sup_approve depth env gh i actor s = (Inr out, s')"
  shows "take 4 out = ''PR #''"
proof -
  have "\<exists>payload n pr t. merge_decided depth env gh i actor payload n pr t = (Inr out, s')"
    using assms unfolding sup_approve_def Let_def bindS_Inr_iff if_proc_iff by (auto simp: bindS_Inr_iff)
  then obtain payload n pr t where
    "merge_decided depth env gh i actor payload n pr t = (Inr out, s')" by blast
  then obtain fresh next_issue t2 where "merge_message env n fresh next_issue t2 = (Inr out, s')"
    by (auto simp: merge_decided_def bindS_Inr_iff)
  then show ?thesis
    by (auto simp: merge_message_def Let_def bindS_Inr_iff if_proc_iff split: option.splits)
qed

text \<open>
  An approved merge is answered as details. What \<^verbatim>\<open>approve\<close> returns begins with the number of the
  pull request, as the details of a pull request do, so a merge that was approved with the button is sent as
  a message and acknowledged as \<^verbatim>\<open>Details sent\<close>, and the card with its buttons is not edited.
\<close>

theorem merge_answered_as_details:
  assumes "sup_approve depth env gh i actor s = (Inr out, s')"
  shows "show_outcome ctl c m out t = thenS (tg_send ctl out) (tg_answer ctl (cb_id c) ''Details sent'') t"
proof -
  have "take 13 out \<noteq> ''CONFIRM_STOP:''"
  proof
    assume "take 13 out = ''CONFIRM_STOP:''"
    then have "take 4 (take 13 out) = take 4 ''CONFIRM_STOP:''" by simp
    with merge_answer[OF assms] show False by simp
  qed
  with merge_answer[OF assms] show ?thesis by (simp add: show_outcome_def Let_def numeral_eq_Suc)
qed

section \<open>The listener\<close>

text \<open>Words that are separated by blanks, and texts without quotes and backslashes.\<close>

function words :: "string \<Rightarrow> string list" where
  "words s = (let rest = dropWhile shlex_space s
     in if rest = [] then []
        else takeWhile (\<lambda>c. \<not> shlex_space c) rest # words (dropWhile (\<lambda>c. \<not> shlex_space c) rest))"
  by pat_completeness auto

termination
proof (relation "measure length")
  fix s rest assume rest: "rest = dropWhile shlex_space s" and some: "rest \<noteq> ([] :: string)"
  obtain c cs where "rest = c # cs" using some by (cases rest) auto
  moreover have "\<not> shlex_space (hd rest)" using some hd_dropWhile[of shlex_space s] rest by simp
  ultimately have "length (dropWhile (\<lambda>c. \<not> shlex_space c) rest) < length rest"
    using length_dropWhile_le[of "\<lambda>c. \<not> shlex_space c" cs] by simp
  also have "\<dots> \<le> length s" unfolding rest by (rule length_dropWhile_le)
  finally show "(dropWhile (\<lambda>c. \<not> shlex_space c) rest, s) \<in> measure length" by simp
qed simp

declare words.simps [simp del]

definition unquoted :: "string \<Rightarrow> bool" where
  "unquoted s \<longleftrightarrow> list_all (\<lambda>c. \<not> shlex_quote c \<and> \<not> shlex_escape c) s"

lemma words_Nil [simp]: "words [] = []"
  by (simp add: words.simps)

lemma words_space [simp]: "shlex_space c \<Longrightarrow> words (c # s) = words s"
  by (subst (1 2) words.simps) simp

lemma words_word:
  "\<not> shlex_space c \<Longrightarrow> words (c # s) =
     (c # takeWhile (\<lambda>c. \<not> shlex_space c) s) # words (dropWhile (\<lambda>c. \<not> shlex_space c) s)"
  by (subst words.simps) (simp add: Let_def)

lemma shlex_unquoted:
  "unquoted s \<Longrightarrow> shlex_scan Between [] s = Inr (words s)"
  "unquoted s \<Longrightarrow> shlex_scan InWord tok s =
     Inr ((tok @ takeWhile (\<lambda>c. \<not> shlex_space c) s) # words (dropWhile (\<lambda>c. \<not> shlex_space c) s))"
proof (induction s arbitrary: tok)
  case (Cons c s)
  {
    case 1
    with Cons.IH show ?case by (auto simp: unquoted_def words_word)
  next
    case 2
    with Cons.IH show ?case by (auto simp: unquoted_def)
  }
qed simp_all


lemma shlex_raises_value_error: "shlex_scan m tok s = Inl e \<Longrightarrow> exn_cls e = PyValueError"
  by (induction m tok s rule: shlex_scan.induct) (auto split: if_splits sum.splits)

text \<open>
  One message stops the listener for good. When the first waiting update is a command of the operator in
  which a quotation is not closed (an apostrophe is enough), \<^verbatim>\<open>shlex.split\<close> raises a \<^verbatim>\<open>ValueError\<close> that neither
  \<^verbatim>\<open>handle_update\<close> nor the loop catches: the listener ends with it, before \<^verbatim>\<open>telegram_offset\<close> is advanced, so
  the next start asks for updates from the same offset again.
\<close>

theorem unclosed_quotation_stops_listener:
  assumes reload: "reload_policy (ct_env ctl) ''listener'' s = (Inr (), s1)"
    and offset: "py_int (Some (JStr (setting (sv_db s1) ''telegram_offset'' ''0''))) 0 = Inr offset"
    and updates: "ct_updates ctl (sv_calls s1) offset = Inr (u # us)"
    and mine: "up_callback u = None" "authorized_message ctl u = Some (actor, m)"
    and command: "take 1 (strip (me_text m)) = ''/''" "command_name (first_word (strip (me_text m))) \<noteq> ''/confirm''"
    and quotation: "shlex_split (strip (me_text m)) = Inl e"
  shows "telegram_loop (Suc n) ctl s = (Inl e, s1\<lparr>sv_calls := sv_calls s1 + 1\<rparr>)
    \<and> exn_cls e = PyValueError"
proof -
  have cls: "exn_cls e = PyValueError"
    using quotation shlex_raises_value_error by (simp add: shlex_split_def)
  then have escapes: "\<not> catches [SupervisorError] e"
    by (simp add: catches_def is_subclass_def)
  have "handle_command ctl (strip (me_text m)) actor t = (Inl e, t)" for t
    by (simp add: handle_command_def quotation bindS_def)
  then have "handle_update ctl u t = (Inl e, t)" for t
    using mine command escapes
    by (simp add: handle_update_def handle_message_def Let_def bindS_def handle_def)
  then have "handle_updates ctl offset (u # us) t = (Inl e, t)" for t
    by (simp add: bindS_def)
  then have "poll_updates ctl s = (Inl e, s1\<lparr>sv_calls := sv_calls s1 + 1\<rparr>)"
    using reload offset updates
    by (simp add: poll_updates_def bindS_def get_setting_run external_def)
  then show ?thesis using escapes cls by simp
qed

section \<open>Concrete runs\<close>

definition demo_update :: "string \<Rightarrow> telegram_update" where
  "demo_update t = \<lparr>up_id = 5, up_callback = None,
     up_message = Some \<lparr>me_chat_type = ''private'', me_chat = ''7'', me_sender = ''7'', me_text = t, me_id = ''1''\<rparr>\<rparr>"

definition demo_control :: control where
  "demo_control =
     \<lparr>ct_env = demo_sup_env, ct_gh = demo_github, ct_depth = 1, ct_chat = ''7'', ct_stop_command = True,
      ct_heartbeat_root = False, ct_retry_stages = [''checks''], ct_reasons = [''no''],
      ct_heartbeat = (\<lambda>k n. Absent), ct_timestamp = (\<lambda>t. 0), ct_discover = (\<lambda>k. Inr []),
      ct_create_issue = (\<lambda>k t b. Inr ''u''), ct_run_stop = (\<lambda>k n. Inr ()), ct_answer = (\<lambda>k i t. Inr ()),
      ct_updates = (\<lambda>k offset. Inr [demo_update (''/reject don'' @ [CHR 0x27] @ ''t'')])\<rparr>"

definition demo_tap_state :: sup_state where
  "demo_tap_state = demo_sup_state\<lparr>sv_db := empty_db\<lparr>db_tokens :=
     [\<lparr>tk_hash = ''h'', tk_approval = None, tk_action = ''watch'', tk_actor = Some ''7'', tk_payload = JObj [],
        tk_created = 0, tk_expires = 9000, tk_consumed = None, tk_consumed_by = None\<rparr>]\<rparr>\<rparr>"

lemma demo_tap: "\<not> isl (fst (execute_callback demo_control ''t'' ''7'' demo_tap_state))"
  by code_simp

lemma demo_reload: "fst (reload_policy demo_sup_env ''listener'' demo_sup_state) = Inr ()"
  "setting (sv_db (snd (reload_policy demo_sup_env ''listener'' demo_sup_state))) ''telegram_offset'' ''0'' = ''0''"
  by code_simp+

text \<open>An approved merge that has been sent, and a history that follows it.\<close>

definition demo_merged_state :: sup_state where
  "demo_merged_state =
     snd (sup_approve 1 demo_merge_env demo_github ''a1'' ''autonomy-policy'' demo_merge_state)"

definition demo_history :: "(control \<times> policy \<times> sup_entry) list" where
  "demo_history = [(demo_control, sv_policy demo_sup_state, TelegramLoop 2),
     (demo_control, sv_policy demo_merge_state, MonitorOnce)]"


definition demo_faulted_state :: sup_state where
  "demo_faulted_state = demo_merge_state\<lparr>sv_db := put_setting ''last_error'' ''x'' empty_db\<rparr>"

theorem error_is_left_by_rollover_witness:
  "setting (sv_db demo_faulted_state) ''last_error'' '''' = ''x''
   \<and> (0 < length (setting (sv_db (serve demo_history demo_faulted_state)) ''last_error'' '''')
      \<or> rollovers (sv_db demo_faulted_state) < rollovers (sv_db (serve demo_history demo_faulted_state)))"
proof -
  have "setting (sv_db demo_faulted_state) ''last_error'' '''' = ''x''"
    by (simp add: demo_faulted_state_def setting_def put_setting_def)
  with error_is_left_by_rollover[of demo_faulted_state demo_history] show ?thesis by auto
qed

theorem paused_monitor_is_passive_witness:
  "\<exists>r s'. monitor_once demo_control (demo_merge_state\<lparr>sv_db := put_setting ''paused'' ''true'' empty_db\<rparr>) = (r, s')
     \<and> sv_log s' = [] \<and> db_approvals (sv_db s') = [] \<and> setting (sv_db s') ''paused'' ''false'' = ''true''"
proof -
  let ?s = "demo_merge_state\<lparr>sv_db := put_setting ''paused'' ''true'' empty_db\<rparr>"
  obtain r s' where run: "monitor_once demo_control ?s = (r, s')" by (meson surj_pair)
  have "setting (sv_db ?s) ''paused'' ''false'' = ''true''" by (simp add: setting_def put_setting_def)
  from paused_monitor_is_passive[OF run this] run show ?thesis
    by (auto simp: demo_merge_state_def demo_sup_state_def put_setting_def empty_db_def)
qed

theorem callback_executes_once_witness:
  "\<exists>out s'. execute_callback demo_control ''t'' ''7'' demo_tap_state = (Inr out, s')
     \<and> isl (fst (execute_callback demo_control ''t'' ''7'' (serve demo_history s')))"
proof -
  obtain out s' where run: "execute_callback demo_control ''t'' ''7'' demo_tap_state = (Inr out, s')"
    using not_isl_fst[OF demo_tap] by auto
  from callback_executes_once[OF run refl, of "''7''" demo_history] run show ?thesis by blast
qed

text \<open>A merge that GitHub accepts, of a pull request whose completion is recorded already.\<close>

definition demo_accepting :: github where
  "demo_accepting = demo_github\<lparr>gh_run_merge :=
     (\<lambda>k n sha. \<lparr>rr_code = 0, rr_stderr = [], rr_merged = True, rr_message = None\<rparr>)\<rparr>"

definition demo_approve_state :: sup_state where
  "demo_approve_state = demo_sup_state\<lparr>sv_db := (sv_db demo_merge_state)\<lparr>db_events :=
     [\<lparr>se_fingerprint = ''pr:7:completed:abc'', se_kind = [], se_payload = JNull, se_created = 0\<rparr>]\<rparr>\<rparr>"

lemma demo_approved:
  "\<not> isl (fst (sup_approve 0 demo_sup_env demo_accepting ''a1'' ''7'' demo_approve_state))"
  by code_simp

theorem merge_answered_as_details_witness:
  "\<exists>out s'. sup_approve 0 demo_sup_env demo_accepting ''a1'' ''7'' demo_approve_state = (Inr out, s')
     \<and> show_outcome demo_control \<lparr>cb_id = ''c'', cb_data = ''t'', cb_sender = ''7'', cb_message = None\<rparr>
         (the (up_message (demo_update []))) out s'
       = thenS (tg_send demo_control out) (tg_answer demo_control ''c'' ''Details sent'') s'"
proof -
  obtain out s' where run: "sup_approve 0 demo_sup_env demo_accepting ''a1'' ''7'' demo_approve_state = (Inr out, s')"
    using not_isl_fst[OF demo_approved] by auto
  have "cb_id \<lparr>cb_id = ''c'', cb_data = ''t'', cb_sender = ''7'', cb_message = None\<rparr> = ''c''" by simp
  with merge_answered_as_details[OF run] run show ?thesis by metis
qed


theorem unclosed_quotation_stops_listener_witness:
  "\<exists>e. fst (telegram_loop 3 demo_control demo_sup_state) = Inl e \<and> exn_cls e = PyValueError"
proof -
  define s1 where "s1 = snd (reload_policy demo_sup_env ''listener'' demo_sup_state)"
  have reload: "reload_policy (ct_env demo_control) ''listener'' demo_sup_state = (Inr (), s1)"
    using demo_reload(1) by (simp add: s1_def demo_control_def prod_eq_iff)
  have offset: "py_int (Some (JStr (setting (sv_db s1) ''telegram_offset'' ''0''))) 0 = Inr 0"
    unfolding s1_def demo_reload(2) by code_simp
  let ?t = "''/reject don'' @ [CHR 0x27] @ ''t''"
  have mine: "up_callback (demo_update ?t) = None"
    "authorized_message demo_control (demo_update ?t) = Some (''7'', the (up_message (demo_update ?t)))" by code_simp+
  have command: "take 1 (strip (me_text (the (up_message (demo_update ?t))))) = ''/''"
    "command_name (first_word (strip (me_text (the (up_message (demo_update ?t)))))) \<noteq> ''/confirm''" by code_simp+
  have quotation: "shlex_split (strip (me_text (the (up_message (demo_update ?t)))))
      = Inl (Exn PyValueError ''No closing quotation'')" by code_simp
  have updates: "ct_updates demo_control (sv_calls s1) 0 = Inr (demo_update ?t # [])"
    by (simp add: demo_control_def)
  from unclosed_quotation_stops_listener[OF reload offset updates mine command quotation, of 2] show ?thesis
    by (simp add: numeral_3_eq_3)
qed

end
