(* ===== verification/RegistryValidation.thy ===== *)
theory RegistryValidation
  imports Registry Json
begin

text \<open>
  \<^verbatim>\<open>validate_registry\<close> of \<^verbatim>\<open>manager/registry_validation.py\<close>: the checks that a registry document passes
  before \<^verbatim>\<open>ComponentRegistry.load\<close> hands it to the engines. It works on the JSON document as it was
  read, so a value of an unexpected type raises as it does in Python: \<^verbatim>\<open>.get\<close> of what is not an object,
  an unhashable id, a join of what is not text. A check that finds something appends to the list of
  errors; a document is valid when the list is empty. The platform profile is a parameter, the one given
  or what \<^verbatim>\<open>PlatformProfile.load\<close> returned, and so is what an adapter path resolves to.
  The theorems show what a valid document guarantees to the planner and the health engine, and what it
  does not.
\<close>

section \<open>Python values\<close>

definition attr_get :: "json \<Rightarrow> string \<Rightarrow> json option result" where
  "attr_get v k = (case v of JObj ms \<Rightarrow> Inr (map_of ms k)
     | _ \<Rightarrow> raise PyAttributeError ''object has no attribute get'')"

definition get_or :: "json option \<Rightarrow> json \<Rightarrow> json" where
  "get_or v d = (case v of None \<Rightarrow> d | Some w \<Rightarrow> w)"

text \<open>The key under which a value is hashed; \<^verbatim>\<open>True\<close> is \<^verbatim>\<open>1\<close>, and lists and dicts are not hashable.\<close>

definition hash_key :: "json \<Rightarrow> json result" where
  "hash_key v = (case v of JList _ \<Rightarrow> raise PyTypeError ''unhashable type: list''
     | JObj _ \<Rightarrow> raise PyTypeError ''unhashable type: dict''
     | JBool b \<Rightarrow> Inr (JInt (if b then 1 else 0)) | _ \<Rightarrow> Inr v)"

definition is_text :: "json \<Rightarrow> bool" where
  "is_text v = (case v of JStr _ \<Rightarrow> True | _ \<Rightarrow> False)"

text \<open>\<^verbatim>\<open>", ".join(sorted(values))\<close>\<close>

definition sorted_text :: "json list \<Rightarrow> string result" where
  "sorted_text vs =
     (if list_all is_text vs then Inr (join '', '' (sort (map py_str vs)))
      else raise PyTypeError ''sequence item 0: expected str instance'')"

definition iterate :: "json \<Rightarrow> json list result" where
  "iterate v = (case v of JList xs \<Rightarrow> Inr xs | JStr s \<Rightarrow> Inr (map (\<lambda>c. JStr [c]) s)
     | JObj ms \<Rightarrow> Inr (map (JStr \<circ> fst) ms) | _ \<Rightarrow> raise PyTypeError ''object is not iterable'')"

definition same_keys :: "(string \<times> json) list \<Rightarrow> string list \<Rightarrow> bool" where
  "same_keys ms ks \<longleftrightarrow> set (map fst ms) = set ks"

section \<open>Collecting errors\<close>

type_synonym errors = "string list"

definition report :: "bool \<Rightarrow> string \<Rightarrow> errors result" where
  "report bad message = Inr (if bad then [message] else [])"

text \<open>First the errors of \<open>a\<close>, then those of \<open>b\<close>; an exception ends the validation.\<close>

definition also_check :: "errors result \<Rightarrow> errors result \<Rightarrow> errors result" where
  "also_check a b = (case a of Inl e \<Rightarrow> Inl e | Inr xs \<Rightarrow> (case b of Inl e \<Rightarrow> Inl e | Inr ys \<Rightarrow> Inr (xs @ ys)))"

fun check_each :: "('a \<Rightarrow> errors result) \<Rightarrow> 'a list \<Rightarrow> errors result" where
  "check_each f [] = Inr []"
| "check_each f (x # xs) = also_check (f x) (check_each f xs)"

fun check_all :: "errors result list \<Rightarrow> errors result" where
  "check_all [] = Inr []"
| "check_all (r # rs) = also_check r (check_all rs)"

definition bindR :: "'a result \<Rightarrow> ('a \<Rightarrow> 'b result) \<Rightarrow> 'b result" where
  "bindR r f = (case r of Inl e \<Rightarrow> Inl e | Inr x \<Rightarrow> f x)"

text \<open>\<^verbatim>\<open>_unique_ids\<close> returns the ids; here they are a separate function, read after the check.\<close>

definition id_keys :: "json list \<Rightarrow> json list result" where
  "id_keys items = bindR (res_map (\<lambda>i. attr_get i ''id'') items) (\<lambda>ids.
     res_map (\<lambda>v. hash_key (get_or v JNull)) ids)"

definition unique_ids :: "json list \<Rightarrow> string \<Rightarrow> errors result" where
  "unique_ids items label = bindR (id_keys items) (\<lambda>keys.
     let duplicates = fromkeys (filter (\<lambda>k. count_list keys k > 1) keys)
     in if duplicates = [] then Inr []
        else bindR (sorted_text duplicates) (\<lambda>names.
          Inr [label @ '' has duplicate ids: '' @ names]))"

definition member :: "json \<Rightarrow> json list \<Rightarrow> bool result" where
  "member v keys = bindR (hash_key v) (\<lambda>k. Inr (k \<in> set keys))"

section \<open>Platform profiles\<close>

record platform_profile =
  pp_id :: string
  pp_maturity :: string
  pp_versions :: "(string \<times> (string \<times> (string \<times> string) list)) list"

datatype adapter_path = Escapes | SymbolicLink | RegularFile | Nothing_there

section \<open>The top level\<close>

definition TOP_LEVEL_KEYS :: "string list" where
  "TOP_LEVEL_KEYS = [''$schema'', ''apiVersion'', ''kind'', ''scope'', ''profileRef'', ''components'']"

definition COMPONENT_KEYS :: "string list" where
  "COMPONENT_KEYS = [''id'', ''displayName'', ''helmRelease'', ''web'', ''version'', ''dependencies'',
     ''workloads'', ''operations'', ''secrets'', ''persistence'', ''health'', ''diagnostics'']"

definition SECRET_VALUE_KEYS :: "string list" where
  "SECRET_VALUE_KEYS = [''value'', ''data'', ''stringData'', ''contents'', ''password'', ''token'']"

definition ARRAY_FIELDS :: "string list" where
  "ARRAY_FIELDS =
     [''dependencies'', ''workloads'', ''operations'', ''secrets'', ''persistence'', ''diagnostics'']"

definition scope_ok :: "json option \<Rightarrow> bool" where
  "scope_ok v = (case v of
     Some (JObj ms) \<Rightarrow> same_keys ms [''platform'', ''aspm'']
       \<and> map_of ms ''platform'' = Some (JStr ''microk8s'')
       \<and> map_of ms ''aspm'' \<in> {Some (JBool False), Some (JInt 0)}
   | _ \<Rightarrow> False)"

definition top_level_errors :: "platform_profile option \<Rightarrow> (string \<times> json) list \<Rightarrow> errors result" where
  "top_level_errors profile doc =
     (let extra = filter (\<lambda>k. k \<notin> set TOP_LEVEL_KEYS) (map fst doc);
          missing = filter (\<lambda>k. k \<notin> set (map fst doc)) TOP_LEVEL_KEYS
      in check_all
       [report (extra \<noteq> []) (''registry has unsupported fields: '' @ join '', '' (sort extra)),
        report (missing \<noteq> []) (''registry is missing fields: '' @ join '', '' (sort missing)),
        report (map_of doc ''$schema'' \<noteq> Some (JStr ''schemas/component-registry.schema.json''))
          ''registry must reference the versioned local schema'',
        report (map_of doc ''apiVersion'' \<noteq> Some (JStr ''fortifylab.io/v1alpha1''))
          ''registry apiVersion must be fortifylab.io/v1alpha1'',
        report (map_of doc ''kind'' \<noteq> Some (JStr ''ComponentRegistry''))
          ''registry kind must be ComponentRegistry'',
        report (\<not> scope_ok (map_of doc ''scope''))
          ''registry scope must be MicroK8s-first with ASPM excluded'',
        (case profile of
           None \<Rightarrow> Inr [''registry must reference a loadable platform profile'']
         | Some p \<Rightarrow>
             if map_of doc ''profileRef'' \<noteq> Some (JStr (pp_id p))
             then Inr [''registry must reference a loadable platform profile'']
             else report (pp_maturity p = ''unsupported'')
                    ''registry cannot select an unsupported platform profile'')])"

section \<open>One component\<close>

definition field :: "(string \<times> json) list \<Rightarrow> string \<Rightarrow> json" where
  "field ms k = get_or (map_of ms k) JNull"

definition items_of :: "json \<Rightarrow> json list" where
  "items_of v = (case v of JList xs \<Rightarrow> xs | _ \<Rightarrow> [])"

definition is_array :: "json \<Rightarrow> bool" where
  "is_array v = (case v of JList _ \<Rightarrow> True | _ \<Rightarrow> False)"

definition text_where :: "json option \<Rightarrow> (string \<Rightarrow> bool) \<Rightarrow> bool" where
  "text_where v P = (case v of Some (JStr s) \<Rightarrow> P s | _ \<Rightarrow> False)"

definition is_letter :: "char \<Rightarrow> bool" where
  "is_letter c \<longleftrightarrow> (let n = of_char c :: nat in 65 \<le> n \<and> n \<le> 90 \<or> 97 \<le> n \<and> n \<le> 122)"

definition helm_ok :: "json \<Rightarrow> bool" where
  "helm_ok v = text_where (Some v) (\<lambda>s. s \<noteq> [] \<and> length s \<le> 63
     \<and> list_all (\<lambda>c. c = CHR ''-'' \<or> is_letter c \<or> is_digit c) s)"

definition https_checks :: "json \<Rightarrow> json list result" where
  "https_checks health = bindR
     (case health of JObj hs \<Rightarrow> iterate (get_or (map_of hs ''checks'') (JList [])) | _ \<Rightarrow> Inr [])
     (\<lambda>raw. Inr (filter (\<lambda>c. json_get c ''type'' = Some (JStr ''https'')) raw))"

definition web_ok :: "json \<Rightarrow> json list \<Rightarrow> bool" where
  "web_ok web https = (case web of
     JNull \<Rightarrow> True
   | JObj ms \<Rightarrow> same_keys ms [''hostLabel''] \<and> text_where (map_of ms ''hostLabel'') (\<lambda>_. True) \<and> https \<noteq> []
   | _ \<Rightarrow> False)"

definition version_ok :: "json \<Rightarrow> bool" where
  "version_ok version = (case version of
     JObj ms \<Rightarrow> same_keys ms [''chart'', ''images''] \<and> text_where (map_of ms ''chart'') (\<lambda>s. s \<noteq> [])
       \<and> (case map_of ms ''images'' of
            Some (JObj images) \<Rightarrow> list_all (\<lambda>(n, v). n \<noteq> [] \<and> text_where (Some v) (\<lambda>s. s \<noteq> [])) images
          | _ \<Rightarrow> False)
   | _ \<Rightarrow> False)"

definition version_is :: "json \<Rightarrow> string \<times> (string \<times> string) list \<Rightarrow> bool" where
  "version_is version expected = (case expected of (chart, images) \<Rightarrow>
     json_get version ''chart'' = Some (JStr chart)
     \<and> (case json_get version ''images'' of
          Some (JObj ms) \<Rightarrow> same_keys ms (map fst images)
            \<and> list_all (\<lambda>n. map_of ms n = map_option JStr (map_of images n)) (map fst images)
        | _ \<Rightarrow> False))"

definition version_errors :: "string \<Rightarrow> platform_profile option \<Rightarrow> json \<Rightarrow> json \<Rightarrow> errors result" where
  "version_errors prefix profile cid version =
     (if \<not> version_ok version then Inr [prefix @ '' version must contain chart and image pins'']
      else case profile of
        None \<Rightarrow> Inr []
      | Some p \<Rightarrow>
          (case (case cid of JStr c \<Rightarrow> map_of (pp_versions p) c | _ \<Rightarrow> None) of
             None \<Rightarrow> Inr [prefix @ '' is absent from the platform profile'']
           | Some expected \<Rightarrow> report (\<not> version_is version expected)
                                (prefix @ '' version does not match platform profile'')))"

text \<open>\<^verbatim>\<open>sorted(set(names) - known)\<close> and its report.\<close>

definition unknown_names :: "string \<Rightarrow> json list \<Rightarrow> json list \<Rightarrow> errors result" where
  "unknown_names message known_keys names = bindR (res_map hash_key names) (\<lambda>keys.
     let unknown = fromkeys (filter (\<lambda>k. k \<notin> set known_keys) keys)
     in if unknown = [] then Inr [] else bindR (sorted_text unknown) (\<lambda>ns. Inr [message @ ns]))"

definition dependency_errors :: "string \<Rightarrow> json \<Rightarrow> json list \<Rightarrow> json list \<Rightarrow> errors result" where
  "dependency_errors prefix cid known_ids deps =
     also_check (report (cid \<in> set deps) (prefix @ '' cannot depend on itself''))
       (unknown_names (prefix @ '' has unknown dependencies: '') known_ids deps)"

definition scalable_ids :: "json list \<Rightarrow> json list result" where
  "scalable_ids workloads =
     res_map (\<lambda>w. case json_get w ''id'' of None \<Rightarrow> raise PyKeyError ''id'' | Some v \<Rightarrow> Inr v)
       (filter (\<lambda>w. json_get w ''scalable'' = Some (JBool True)) workloads)"

definition check_errors :: "string \<Rightarrow> json list \<Rightarrow> json list \<Rightarrow> json \<Rightarrow> errors result" where
  "check_errors prefix workload_ids claims check =
     (let label = prefix @ '' health check '' @ text_of (json_get check ''id'');
          target = get_or (json_get check ''target'') JNull
      in if json_get check ''type'' = Some (JStr ''workload-ready'')
         then bindR (member target workload_ids) (\<lambda>found.
                report (\<not> found) (label @ '' targets an unknown workload''))
         else if json_get check ''type'' = Some (JStr ''persistent-volume'')
         then bindR (member target claims) (\<lambda>found.
                report (\<not> found) (label @ '' targets unknown persistence''))
         else Inr [])"

definition adapter_errors :: "(string \<Rightarrow> adapter_path) \<Rightarrow> string \<Rightarrow> json option \<Rightarrow> errors result" where
  "adapter_errors resolve label adapter =
     (if \<not> text_where adapter (\<lambda>s. take 5 s = ''apps/'' \<and> drop (length s - 3) s = ''.sh'')
      then Inr [label @ '' has an invalid adapter'']
      else case resolve (text_of adapter) of
        Escapes \<Rightarrow> Inr [label @ '' adapter escapes the runtime root'']
      | RegularFile \<Rightarrow> Inr []
      | _ \<Rightarrow> Inr [label @ '' adapter does not exist''])"

definition bounded_timeout :: "json option \<Rightarrow> bool" where
  "bounded_timeout v = (case v of Some (JInt t) \<Rightarrow> 1 \<le> t \<and> t \<le> 7200 | _ \<Rightarrow> False)"

definition operation_errors ::
    "(string \<Rightarrow> adapter_path) \<Rightarrow> string \<Rightarrow> json list \<Rightarrow> json \<Rightarrow> errors result" where
  "operation_errors resolve prefix check_ids op =
     (let oid = get_or (json_get op ''id'') (JStr ''<missing>'');
          label = prefix @ '' operation '' @ py_str oid;
          destructive = get_or (json_get op ''destructive'') JNull
      in check_all
       [adapter_errors resolve label (json_get op ''adapter''),
        report (\<not> bounded_timeout (json_get op ''timeoutSeconds'')) (label @ '' needs a bounded timeout''),
        bindR (iterate (get_or (json_get op ''verify'') (JList [])))
          (unknown_names (label @ '' has unknown verification checks: '') check_ids),
        report (truthy destructive \<and> oid \<noteq> JStr ''delete-data'')
          (prefix @ '' destructive behavior must use delete-data''),
        report (oid = JStr ''delete-data'' \<and> destructive \<noteq> JBool True)
          (prefix @ '' delete-data must be marked destructive'')])"

definition secret_errors :: "string \<Rightarrow> json \<Rightarrow> errors result" where
  "secret_errors prefix secret =
     report (case secret of JObj ms \<Rightarrow> list_ex (\<lambda>k. k \<in> set SECRET_VALUE_KEYS) (map fst ms) | _ \<Rightarrow> False)
       (prefix @ '' secret '' @ text_of (json_get secret ''id'') @ '' contains forbidden value fields'')"

definition diagnostic_errors :: "string \<Rightarrow> json list \<Rightarrow> json \<Rightarrow> errors result" where
  "diagnostic_errors prefix targets diagnostic =
     bindR (member (get_or (json_get diagnostic ''target'') JNull) targets) (\<lambda>found.
       report (\<not> found) (prefix @ '' diagnostic '' @ text_of (json_get diagnostic ''id'')
         @ '' targets an unknown contract''))"

text \<open>From the health section on: the checks, the operations and what refers to them.\<close>

definition contract_errors ::
    "(string \<Rightarrow> adapter_path) \<Rightarrow> string \<Rightarrow> (string \<times> json) list \<Rightarrow> json list \<Rightarrow> json list \<Rightarrow> json list
       \<Rightarrow> errors result" where
  "contract_errors resolve prefix ms workload_ids scalable checks =
     (let operations = items_of (field ms ''operations''); secrets = items_of (field ms ''secrets'');
          persistence = items_of (field ms ''persistence''); diagnostics = items_of (field ms ''diagnostics'')
      in also_check (unique_ids checks (prefix @ '' health checks''))
        (bindR (id_keys checks) (\<lambda>check_ids.
         also_check (check_each (\<lambda>c. bindR (if json_get c ''type'' = Some (JStr ''persistent-volume'')
                then id_keys persistence else Inr []) (\<lambda>claims. check_errors prefix workload_ids claims c)) checks)
        (also_check (unique_ids operations (prefix @ '' operations''))
        (also_check (check_each (operation_errors resolve prefix check_ids) operations)
        (bindR (id_keys operations) (\<lambda>operation_ids.
         also_check (report (JStr ''scale'' \<in> set operation_ids \<and> scalable = [])
           (prefix @ '' exposes scale without a scalable workload''))
        (also_check (unique_ids secrets (prefix @ '' secrets''))
        (also_check (check_each (secret_errors prefix) secrets)
        (also_check (unique_ids persistence (prefix @ '' persistence''))
        (also_check (unique_ids diagnostics (prefix @ '' diagnostics''))
        (bindR (id_keys persistence) (\<lambda>persistence_ids.
         also_check (report (diagnostics = []) (prefix @ '' must declare diagnostics''))
           (check_each (diagnostic_errors prefix (workload_ids @ persistence_ids @ check_ids))
             diagnostics))))))))))))))"

definition health_errors ::
    "(string \<Rightarrow> adapter_path) \<Rightarrow> string \<Rightarrow> (string \<times> json) list \<Rightarrow> json list \<Rightarrow> json list
       \<Rightarrow> errors result" where
  "health_errors resolve prefix ms workload_ids scalable =
     (case field ms ''health'' of
        JObj hs \<Rightarrow>
          if \<not> same_keys hs [''aggregate'', ''checks'']
          then Inr [prefix @ '' health must contain only aggregate and checks'']
          else (case map_of hs ''checks'' of
            Some (JList (c # checks)) \<Rightarrow>
              contract_errors resolve prefix ms workload_ids scalable (c # checks)
          | _ \<Rightarrow> Inr [prefix @ '' must declare health checks''])
      | _ \<Rightarrow> Inr [prefix @ '' health must contain only aggregate and checks''])"

definition body_errors ::
    "(string \<Rightarrow> adapter_path) \<Rightarrow> string \<Rightarrow> json \<Rightarrow> (string \<times> json) list \<Rightarrow> json list \<Rightarrow> errors result" where
  "body_errors resolve prefix cid ms known_ids =
     (let workloads = items_of (field ms ''workloads'')
      in also_check (dependency_errors prefix cid known_ids (items_of (field ms ''dependencies'')))
        (also_check (unique_ids workloads (prefix @ '' workloads''))
        (bindR (id_keys workloads) (\<lambda>workload_ids.
         also_check (report (workload_ids = []) (prefix @ '' must declare at least one workload''))
        (bindR (scalable_ids workloads) (\<lambda>scalable.
         health_errors resolve prefix ms workload_ids scalable))))))"

definition component_errors ::
    "(string \<Rightarrow> adapter_path) \<Rightarrow> platform_profile option \<Rightarrow> json list \<Rightarrow> json \<Rightarrow> errors result" where
  "component_errors resolve profile known_ids component =
     (case component of
        JObj ms \<Rightarrow>
          (let cid = get_or (map_of ms ''id'') (JStr ''<missing>''); prefix = ''component '' @ py_str cid
           in if \<not> same_keys ms COMPONENT_KEYS
              then Inr [prefix @ '' fields do not match component schema'']
              else also_check (report (\<not> helm_ok (field ms ''helmRelease'')) (prefix @ '' helmRelease is invalid''))
                  (also_check (bindR (https_checks (field ms ''health'')) (\<lambda>https.
                     report (\<not> web_ok (field ms ''web'') https)
                       (prefix @ '' web metadata requires a host label and HTTPS health check'')))
                  (also_check (version_errors prefix profile cid (field ms ''version''))
                  (also_check (check_each (\<lambda>f. report (\<not> is_array (field ms f)) (prefix @ '' '' @ f @ '' must be an array''))
                     ARRAY_FIELDS)
                  (if list_all (\<lambda>f. is_array (field ms f)) ARRAY_FIELDS
                   then body_errors resolve prefix cid ms known_ids else Inr [])))))
      | _ \<Rightarrow> raise PyAttributeError ''object has no attribute get'')"

section \<open>The document\<close>

text \<open>
  What \<^verbatim>\<open>ComponentRegistry(document).dependency_order()\<close> reads of a component: its id and its
  dependencies, here for ids that are texts. The constructor reads every id before any dependency.
\<close>

definition graph_id :: "json \<Rightarrow> string result" where
  "graph_id c = (case json_get c ''id'' of None \<Rightarrow> raise PyKeyError ''id'' | Some v \<Rightarrow> Inr (py_str v))"

definition graph_component :: "json \<Rightarrow> component result" where
  "graph_component c =
     bindR (graph_id c) (\<lambda>i.
     bindR (case json_get c ''dependencies'' of None \<Rightarrow> raise PyKeyError ''dependencies'' | Some v \<Rightarrow> iterate v)
       (\<lambda>deps. Inr \<lparr>comp_id = i, comp_name = [], comp_web = None, comp_deps = map py_str deps,
                   comp_operations = [], comp_checks = []\<rparr>))"

definition order_errors :: "hash_order \<Rightarrow> json list \<Rightarrow> errors result" where
  "order_errors h components =
     (case bindR (res_map graph_id components) (\<lambda>_. bindR (res_map graph_component components) (\<lambda>cs.
             dependency_order h (mk_registry cs) None)) of
        Inr order \<Rightarrow> Inr []
      | Inl e \<Rightarrow> if catches [RegistryError, PyKeyError, PyTypeError] e then Inr [exn_msg e] else Inl e)"

definition validate_registry ::
    "hash_order \<Rightarrow> (string \<Rightarrow> adapter_path) \<Rightarrow> platform_profile option \<Rightarrow> (string \<times> json) list
       \<Rightarrow> errors result" where
  "validate_registry h resolve profile doc =
     also_check (top_level_errors profile doc)
       (case map_of doc ''components'' of
          Some (JList (c # cs)) \<Rightarrow>
            also_check (unique_ids (c # cs) ''registry'')
              (bindR (id_keys (c # cs)) (\<lambda>known_ids.
                 also_check (check_each (component_errors resolve profile known_ids) (c # cs))
                   (order_errors h (c # cs))))
        | _ \<Rightarrow> Inr [''registry components must be a non-empty array''])"

text \<open>\<^verbatim>\<open>ComponentRegistry.load\<close> after the file and the profile have been read.\<close>

definition load_registry ::
    "hash_order \<Rightarrow> (string \<Rightarrow> adapter_path) \<Rightarrow> platform_profile result \<Rightarrow> json \<Rightarrow> (string \<times> json) list result" where
  "load_registry h resolve profile document =
     (case document of
        JObj doc \<Rightarrow>
          (case profile of
             Inl e \<Rightarrow> if catches [PlatformProfileError] e
                      then raise RegistryError ''component registry platform profile is invalid'' else Inl e
           | Inr p \<Rightarrow>
               bindR (validate_registry h resolve (Some p) doc) (\<lambda>errors.
                 case errors of
                   [] \<Rightarrow> Inr doc
                 | e # _ \<Rightarrow> raise RegistryError (''component registry is invalid: '' @ e)))
      | _ \<Rightarrow> raise RegistryError ''component registry is malformed'')"

section \<open>Validation without errors\<close>

named_theorems no_errors \<open>a check that succeeds and finds nothing\<close>

lemma also_check_Nil [no_errors]: "also_check a b = Inr [] \<longleftrightarrow> a = Inr [] \<and> b = Inr []"
  by (auto simp: also_check_def split: sum.splits)

lemma check_each_Nil [no_errors]: "check_each f xs = Inr [] \<longleftrightarrow> (\<forall>x\<in>set xs. f x = Inr [])"
  by (induction xs) (auto simp: also_check_Nil)

lemma check_all_Nil [no_errors]: "check_all rs = Inr [] \<longleftrightarrow> (\<forall>r\<in>set rs. r = Inr [])"
  by (induction rs) (auto simp: also_check_Nil)

lemma report_Nil [no_errors]: "report bad m = Inr [] \<longleftrightarrow> \<not> bad"
  by (simp add: report_def)

lemma bindR_Inr [no_errors]: "bindR r f = Inr y \<longleftrightarrow> (\<exists>x. r = Inr x \<and> f x = Inr y)"
  by (auto simp: bindR_def split: sum.splits)

lemma fromkeys_filter_Nil: "fromkeys (filter P xs) = [] \<longleftrightarrow> (\<forall>x\<in>set xs. \<not> P x)"
  by (auto simp: fromkeys_Nil_iff filter_empty_conv)

lemma distinct_count_list: "(\<forall>x\<in>set xs. \<not> count_list xs x > 1) \<longleftrightarrow> distinct xs"
proof (induction xs)
  case (Cons x xs)
  have "count_list xs x = 0 \<longleftrightarrow> x \<notin> set xs" by (simp add: count_list_0_iff)
  moreover have "count_list xs y \<le> count_list (x # xs) y" for y by simp
  ultimately show ?case using Cons by (auto simp: not_less)
qed simp

lemma filter_repeated: "filter (\<lambda>k. Suc 0 < count_list xs k) xs = [] \<longleftrightarrow> distinct xs"
  using distinct_count_list[of xs] by (auto simp: filter_empty_conv)

lemma unique_ids_Nil [no_errors]:
  "unique_ids items label = Inr [] \<longleftrightarrow> (\<exists>keys. id_keys items = Inr keys \<and> distinct keys)"
  by (auto simp: unique_ids_def bindR_Inr Let_def fromkeys_Nil_iff filter_repeated split: if_splits)

section \<open>What a valid document guarantees\<close>

definition operation_contract :: "(string \<Rightarrow> adapter_path) \<Rightarrow> json list \<Rightarrow> json \<Rightarrow> bool" where
  "operation_contract resolve check_ids op \<longleftrightarrow>
     (\<exists>path. json_get op ''adapter'' = Some (JStr path) \<and> take 5 path = ''apps/'' \<and> resolve path = RegularFile)
     \<and> (\<exists>t. json_get op ''timeoutSeconds'' = Some (JInt t) \<and> 1 \<le> t \<and> t \<le> 7200)
     \<and> (\<exists>names keys. iterate (get_or (json_get op ''verify'') (JList [])) = Inr names
          \<and> res_map hash_key names = Inr keys \<and> set keys \<subseteq> set check_ids)
     \<and> (json_get op ''destructive'' = Some (JBool True) \<longleftrightarrow> json_get op ''id'' = Some (JStr ''delete-data''))"

definition component_contract ::
    "(string \<Rightarrow> adapter_path) \<Rightarrow> platform_profile \<Rightarrow> string list \<Rightarrow> json \<Rightarrow> string \<Rightarrow> string list \<Rightarrow> bool" where
  "component_contract resolve p ids c cid deps \<longleftrightarrow>
     (\<exists>ms expected check_ids. c = JObj ms \<and> same_keys ms COMPONENT_KEYS
        \<and> map_of ms ''id'' = Some (JStr cid)
        \<and> map_of ms ''dependencies'' = Some (JList (map JStr deps)) \<and> set deps \<subseteq> set ids - {cid}
        \<and> map_of (pp_versions p) cid = Some expected \<and> version_is (field ms ''version'') expected
        \<and> id_keys (items_of (get_or (json_get (field ms ''health'') ''checks'') JNull)) = Inr check_ids
        \<and> distinct check_ids \<and> check_ids \<noteq> []
        \<and> (\<forall>op\<in>set (items_of (field ms ''operations'')). operation_contract resolve check_ids op)
        \<and> (\<forall>s\<in>set (items_of (field ms ''secrets'')). \<forall>k\<in>set SECRET_VALUE_KEYS. json_get s k = None))"

lemma member_Inr: "member v keys = Inr b \<longleftrightarrow> (\<exists>k. hash_key v = Inr k \<and> b = (k \<in> set keys))"
  by (auto simp: member_def bindR_Inr)

lemma hash_key_text: "hash_key v = Inr (JStr s) \<longleftrightarrow> v = JStr s"
  by (cases v) (auto simp: hash_key_def)

lemma text_where_Some: "text_where v P \<longleftrightarrow> (\<exists>s. v = Some (JStr s) \<and> P s)"
  by (auto simp: text_where_def split: option.splits json.splits)

lemma adapter_errors_Nil:
  "adapter_errors resolve label v = Inr [] \<Longrightarrow>
     \<exists>path. v = Some (JStr path) \<and> take 5 path = ''apps/'' \<and> resolve path = RegularFile"
  by (auto simp: adapter_errors_def text_where_Some text_of_def split: if_splits adapter_path.splits)

lemma unknown_names_Nil [no_errors]:
  "unknown_names message known_keys names = Inr [] \<longleftrightarrow>
     (\<exists>keys. res_map hash_key names = Inr keys \<and> set keys \<subseteq> set known_keys)"
  by (auto simp: unknown_names_def Let_def bindR_Inr fromkeys_Nil_iff filter_empty_conv subset_iff
      split: if_splits)

lemma operation_errors_Nil:
  assumes "operation_errors resolve prefix check_ids op = Inr []"
  shows "operation_contract resolve check_ids op"
proof -
  let ?oid = "get_or (json_get op ''id'') (JStr ''<missing>'')"
  let ?destructive = "get_or (json_get op ''destructive'') JNull"
  note errs = assms[unfolded operation_errors_def Let_def[of ?oid] Let_def[of ?destructive]
      Let_def[of "prefix @ '' operation '' @ py_str ?oid"] check_all_Nil]
  have "bounded_timeout (json_get op ''timeoutSeconds'')" using errs by (simp add: report_Nil)
  then have "\<exists>t. json_get op ''timeoutSeconds'' = Some (JInt t) \<and> 1 \<le> t \<and> t \<le> 7200"
    by (auto simp: bounded_timeout_def split: option.splits json.splits)
  moreover have "\<exists>path. json_get op ''adapter'' = Some (JStr path) \<and> take 5 path = ''apps/'' \<and> resolve path = RegularFile"
    using errs by (auto dest: adapter_errors_Nil)
  moreover have "\<exists>names keys. iterate (get_or (json_get op ''verify'') (JList [])) = Inr names
      \<and> res_map hash_key names = Inr keys \<and> set keys \<subseteq> set check_ids"
    using errs by (simp add: no_errors)
  moreover have "(truthy ?destructive \<longrightarrow> ?oid = JStr ''delete-data'')
      \<and> (?oid = JStr ''delete-data'' \<longrightarrow> ?destructive = JBool True)"
    using errs by (simp add: report_Nil)
  then have "json_get op ''destructive'' = Some (JBool True) \<longleftrightarrow> json_get op ''id'' = Some (JStr ''delete-data'')"
    by (auto simp: get_or_def split: option.splits)
  ultimately show ?thesis unfolding operation_contract_def by blast
qed

lemma secret_errors_Nil: "secret_errors prefix s = Inr [] \<Longrightarrow> k \<in> set SECRET_VALUE_KEYS \<Longrightarrow> json_get s k = None"
  by (cases s) (auto simp: secret_errors_def report_Nil json_get_def map_of_eq_None_iff list_ex_iff)

lemma version_errors_Nil:
  assumes "version_errors prefix (Some p) cid version = Inr []"
  obtains c expected where "cid = JStr c" and "map_of (pp_versions p) c = Some expected"
    and "version_is version expected"
  using assms
  by (auto simp: version_errors_def no_errors split: if_splits option.splits json.splits)

lemma dependency_errors_Nil:
  assumes "dependency_errors prefix (JStr cid) (map JStr ids) deps = Inr []"
  obtains names where "deps = map JStr names" and "set names \<subseteq> set ids - {cid}"
proof -
  have notin: "JStr cid \<notin> set deps"
    and "\<exists>keys. res_map hash_key deps = Inr keys \<and> set keys \<subseteq> JStr ` set ids"
    using assms by (auto simp: dependency_errors_def no_errors)
  then have keys: "\<forall>d\<in>set deps. \<exists>s\<in>set ids. hash_key d = Inr (JStr s)"
    by (fastforce simp: res_simps list_all2_conv_all_nth in_set_conv_nth)
  then have all: "\<forall>d\<in>set deps. \<exists>s\<in>set ids. d = JStr s" by (simp add: hash_key_text)
  let ?names = "map py_str deps"
  have "deps = map JStr ?names" using all by (induction deps) auto
  moreover have "set ?names \<subseteq> set ids - {cid}" using all notin by auto
  ultimately show ?thesis using that by blast
qed

text \<open>What each part of a component has passed.\<close>

lemma component_errors_Nil:
  assumes "component_errors resolve (Some p) known_ids c = Inr []"
  obtains ms cid expected where "c = JObj ms" and "same_keys ms COMPONENT_KEYS"
    and "get_or (map_of ms ''id'') (JStr ''<missing>'') = JStr cid"
    and "map_of (pp_versions p) cid = Some expected" and "version_is (field ms ''version'') expected"
    and "\<forall>f\<in>set ARRAY_FIELDS. is_array (field ms f)"
    and "body_errors resolve (''component '' @ cid) (JStr cid) ms known_ids = Inr []"
proof -
  obtain ms where c: "c = JObj ms" using assms by (cases c) (auto simp: component_errors_def)
  let ?cid = "get_or (map_of ms ''id'') (JStr ''<missing>'')"
  have keys: "same_keys ms COMPONENT_KEYS"
    and ver: "version_errors (''component '' @ py_str ?cid) (Some p) ?cid (field ms ''version'') = Inr []"
    and arrays: "\<forall>f\<in>set ARRAY_FIELDS. is_array (field ms f)"
    and body: "body_errors resolve (''component '' @ py_str ?cid) ?cid ms known_ids = Inr []"
    using assms unfolding component_errors_def c
    by (auto simp: Let_def no_errors list_all_iff split: if_splits)
  obtain cid expected where "?cid = JStr cid" and "map_of (pp_versions p) cid = Some expected"
    and "version_is (field ms ''version'') expected"
    using version_errors_Nil[OF ver] by blast
  with c keys arrays body show ?thesis using that by (simp del: append.simps)
qed

lemma contract_errors_Nil:
  assumes "contract_errors resolve prefix ms workload_ids scalable checks = Inr []"
  obtains check_ids where "id_keys checks = Inr check_ids" and "distinct check_ids"
    and "\<forall>op\<in>set (items_of (field ms ''operations'')). operation_contract resolve check_ids op"
    and "\<forall>s\<in>set (items_of (field ms ''secrets'')). \<forall>k\<in>set SECRET_VALUE_KEYS. json_get s k = None"
proof -
  have "\<exists>check_ids. id_keys checks = Inr check_ids \<and> distinct check_ids
    \<and> (\<forall>op\<in>set (items_of (field ms ''operations'')). operation_errors resolve prefix check_ids op = Inr [])
    \<and> (\<forall>s\<in>set (items_of (field ms ''secrets'')). secret_errors prefix s = Inr [])"
    using assms unfolding contract_errors_def Let_def
    by (auto simp only: also_check_Nil bindR_Inr unique_ids_Nil check_each_Nil sum.inject)
  then show ?thesis using that operation_errors_Nil secret_errors_Nil by blast
qed

lemma id_keys_length: "id_keys items = Inr keys \<Longrightarrow> length keys = length items"
  by (auto simp: id_keys_def bindR_Inr res_simps dest!: list_all2_lengthD)

lemma health_errors_Nil:
  assumes "health_errors resolve prefix ms w s = Inr []"
  obtains hs c cs where "field ms ''health'' = JObj hs" and "map_of hs ''checks'' = Some (JList (c # cs))"
    and "contract_errors resolve prefix ms w s (c # cs) = Inr []"
  using assms
  by (cases "field ms ''health''")
    (auto simp: health_errors_def split: if_splits option.splits json.splits list.splits)

lemma body_errors_Nil:
  assumes "body_errors resolve prefix (JStr cid) ms (map JStr ids) = Inr []"
  obtains deps check_ids where "items_of (field ms ''dependencies'') = map JStr deps"
    and "set deps \<subseteq> set ids - {cid}"
    and "id_keys (items_of (get_or (json_get (field ms ''health'') ''checks'') JNull)) = Inr check_ids"
    and "distinct check_ids" and "check_ids \<noteq> []"
    and "\<forall>op\<in>set (items_of (field ms ''operations'')). operation_contract resolve check_ids op"
    and "\<forall>s\<in>set (items_of (field ms ''secrets'')). \<forall>k\<in>set SECRET_VALUE_KEYS. json_get s k = None"
proof -
  have deps: "dependency_errors prefix (JStr cid) (map JStr ids) (items_of (field ms ''dependencies'')) = Inr []"
    and "\<exists>w s. health_errors resolve prefix ms w s = Inr []"
    using assms unfolding body_errors_def Let_def by (auto simp: no_errors)
  then obtain w s where health: "health_errors resolve prefix ms w s = Inr []" by blast
  from health obtain hs c cs where h: "field ms ''health'' = JObj hs" "map_of hs ''checks'' = Some (JList (c # cs))"
    and contract: "contract_errors resolve prefix ms w s (c # cs) = Inr []"
    by (rule health_errors_Nil)
  have checks: "items_of (get_or (json_get (field ms ''health'') ''checks'') JNull) = c # cs"
    by (simp add: h json_get_def get_or_def items_of_def)
  from dependency_errors_Nil[OF deps] obtain names where
    names: "items_of (field ms ''dependencies'') = map JStr names" "set names \<subseteq> set ids - {cid}" .
  from contract_errors_Nil[OF contract] obtain check_ids where ids: "id_keys (c # cs) = Inr check_ids"
    "distinct check_ids" "\<forall>op\<in>set (items_of (field ms ''operations'')). operation_contract resolve check_ids op"
    "\<forall>s\<in>set (items_of (field ms ''secrets'')). \<forall>k\<in>set SECRET_VALUE_KEYS. json_get s k = None" .
  have "check_ids \<noteq> []" using id_keys_length[OF ids(1)] by auto
  show ?thesis by (rule that[OF names _ ids(2) \<open>check_ids \<noteq> []\<close> ids(3,4)]) (simp add: checks ids(1))
qed

lemma field_array:
  "is_array (field ms k) \<Longrightarrow> map_of ms k = Some (JList (items_of (field ms k)))"
  by (auto simp: field_def get_or_def is_array_def items_of_def split: option.splits json.splits)

lemma same_keys_present: "same_keys ms ks \<Longrightarrow> k \<in> set ks \<Longrightarrow> \<exists>v. map_of ms k = Some v"
  unfolding same_keys_def by (metis list.set_map map_of_eq_None_iff not_None_eq)

lemma valid_component:
  assumes "component_errors resolve (Some p) (map JStr ids) c = Inr []"
  shows "\<exists>cid deps. component_contract resolve p ids c cid deps"
proof -
  obtain ms cid expected where c: "c = JObj ms" and keys: "same_keys ms COMPONENT_KEYS"
    and id: "get_or (map_of ms ''id'') (JStr ''<missing>'') = JStr cid"
    and ver: "map_of (pp_versions p) cid = Some expected" "version_is (field ms ''version'') expected"
    and arrays: "\<forall>f\<in>set ARRAY_FIELDS. is_array (field ms f)"
    and body: "body_errors resolve (''component '' @ cid) (JStr cid) ms (map JStr ids) = Inr []"
    using assms by (rule component_errors_Nil)
  obtain deps check_ids where deps: "items_of (field ms ''dependencies'') = map JStr deps"
    "set deps \<subseteq> set ids - {cid}"
    and checks: "id_keys (items_of (get_or (json_get (field ms ''health'') ''checks'') JNull)) = Inr check_ids"
    "distinct check_ids" "check_ids \<noteq> []"
    and ops: "\<forall>op\<in>set (items_of (field ms ''operations'')). operation_contract resolve check_ids op"
    and secrets: "\<forall>s\<in>set (items_of (field ms ''secrets'')). \<forall>k\<in>set SECRET_VALUE_KEYS. json_get s k = None"
    using body by (rule body_errors_Nil)
  have "map_of ms ''dependencies'' = Some (JList (map JStr deps))"
    using field_array[of ms "''dependencies''"] arrays deps(1) by (simp add: ARRAY_FIELDS_def)
  moreover have "map_of ms ''id'' = Some (JStr cid)"
    using same_keys_present[OF keys, of "''id''"] id by (auto simp: COMPONENT_KEYS_def get_or_def)
  ultimately have "component_contract resolve p ids c cid deps"
    unfolding component_contract_def using c keys ver deps(2) checks ops secrets by blast
  then show ?thesis by blast
qed

lemma valid_component_id:
  assumes "component_errors resolve (Some p) known_ids c = Inr []"
  shows "\<exists>ms cid. c = JObj ms \<and> map_of ms ''id'' = Some (JStr cid)"
proof -
  obtain ms cid where c: "c = JObj ms" and keys: "same_keys ms COMPONENT_KEYS"
    and id: "get_or (map_of ms ''id'') (JStr ''<missing>'') = JStr cid"
    using assms by (rule component_errors_Nil)
  then show ?thesis
    using same_keys_present[OF keys, of "''id''"] by (auto simp: COMPONENT_KEYS_def get_or_def)
qed

lemma contract_id: "component_contract resolve p ids c cid deps \<Longrightarrow> json_get c ''id'' = Some (JStr cid)"
  by (auto simp: component_contract_def json_get_def)

lemma contract_graph:
  assumes "component_contract resolve p ids c cid deps"
  shows "graph_component c = Inr \<lparr>comp_id = cid, comp_name = [], comp_web = None, comp_deps = deps,
     comp_operations = [], comp_checks = []\<rparr>"
proof -
  have "map (py_str \<circ> JStr) deps = deps" by (induction deps) auto
  with assms show ?thesis
    by (auto simp: component_contract_def graph_component_def graph_id_def json_get_def bindR_def iterate_def)
qed

text \<open>The ids of a document all of whose components have a text for id.\<close>

lemma id_keys_texts:
  assumes "\<forall>c\<in>set cs. \<exists>ms cid. c = JObj ms \<and> map_of ms ''id'' = Some (JStr cid)"
  shows "id_keys cs = Inr (map (\<lambda>c. JStr (text_of (json_get c ''id''))) cs)"
proof -
  have 1: "res_map (\<lambda>i. attr_get i ''id'') cs = Inr (map (\<lambda>c. json_get c ''id'') cs)"
    using assms by (induction cs) (auto simp: attr_get_def json_get_def)
  have 2: "res_map (\<lambda>v. hash_key (get_or v JNull)) (map (\<lambda>c. json_get c ''id'') cs)
      = Inr (map (\<lambda>c. JStr (text_of (json_get c ''id''))) cs)"
    using assms by (induction cs) (auto simp: json_get_def get_or_def hash_key_def text_of_def)
  show ?thesis by (simp only: id_keys_def 1 bindR_def sum.case 2)
qed

section \<open>The document as a graph\<close>

definition graph_node :: "string \<times> string list \<Rightarrow> component" where
  "graph_node n = \<lparr>comp_id = fst n, comp_name = [], comp_web = None, comp_deps = snd n,
     comp_operations = [], comp_checks = []\<rparr>"

lemma set_component_ids: "set (component_ids (mk_registry cs)) = comp_id ` set cs"
proof -
  have "fst ` set (foldl (\<lambda>d c. AList.update (comp_id c) c d) d cs) = fst ` set d \<union> comp_id ` set cs" for d
    by (induction cs arbitrary: d) (auto simp: dom_update)
  then show ?thesis by (simp add: component_ids_def mk_registry_def)
qed

lemma graph_of_components:
  assumes "\<forall>c\<in>set cs. \<exists>cid deps. component_contract resolve p ids c cid deps"
  obtains graph where "list_all2 (\<lambda>c (cid, deps). component_contract resolve p ids c cid deps) cs graph"
proof -
  have "\<exists>graph. list_all2 (\<lambda>c (cid, deps). component_contract resolve p ids c cid deps) cs graph"
    using assms
  proof (induction cs)
    case (Cons c cs)
    then obtain cid deps graph where "component_contract resolve p ids c cid deps"
      "list_all2 (\<lambda>c (cid, deps). component_contract resolve p ids c cid deps) cs graph" by auto
    then have "list_all2 (\<lambda>c (cid, deps). component_contract resolve p ids c cid deps) (c # cs) ((cid, deps) # graph)"
      by simp
    then show ?case by blast
  qed (simp add: list_all2_Nil exI[of _ "[]"])
  then show ?thesis using that by blast
qed

lemma graph_views:
  assumes "list_all2 (\<lambda>c (cid, deps). component_contract resolve p ids c cid deps) cs graph"
  shows "map (\<lambda>c. text_of (json_get c ''id'')) cs = map fst graph"
    and "res_map graph_component cs = Inr (map graph_node graph)"
proof -
  have "text_of (json_get c ''id'') = fst n \<and> graph_component c = Inr (graph_node n)"
    if "component_contract resolve p ids c (fst n) (snd n)" for c n
    using contract_id[OF that] contract_graph[OF that] by (simp add: text_of_def graph_node_def)
  then have "list_all2 (\<lambda>c n. text_of (json_get c ''id'') = fst n \<and> graph_component c = Inr (graph_node n)) cs graph"
    using assms by (auto simp: case_prod_beta elim: list_all2_mono)
  then show "map (\<lambda>c. text_of (json_get c ''id'')) cs = map fst graph"
    and "res_map graph_component cs = Inr (map graph_node graph)"
    by (induction rule: list_all2_induct) auto
qed

lemma valid_document:
  assumes "validate_registry h resolve profile doc = Inr []"
  obtains p cs graph where "profile = Some p" and "pp_maturity p \<noteq> ''unsupported''"
    and "map_of doc ''profileRef'' = Some (JStr (pp_id p))"
    and "map_of doc ''components'' = Some (JList cs)" and "distinct (map fst graph)"
    and "list_all2 (\<lambda>c (cid, deps). component_contract resolve p (map fst graph) c cid deps) cs graph"
    and "orderable (mk_registry (map graph_node graph)) (set (component_ids (mk_registry (map graph_node graph))))"
proof -
  obtain c rest where top: "top_level_errors profile doc = Inr []"
    and comps: "map_of doc ''components'' = Some (JList (c # rest))"
    and body: "\<exists>known_ids. id_keys (c # rest) = Inr known_ids \<and> distinct known_ids
      \<and> (\<forall>x\<in>set (c # rest). component_errors resolve profile known_ids x = Inr [])"
    and order: "order_errors h (c # rest) = Inr []"
    using assms unfolding validate_registry_def
    by (auto simp: no_errors split: option.splits json.splits list.splits)
  let ?cs = "c # rest"
  obtain p where p: "profile = Some p" "pp_maturity p \<noteq> ''unsupported''"
    "map_of doc ''profileRef'' = Some (JStr (pp_id p))"
    using top by (auto simp: top_level_errors_def Let_def no_errors split: option.splits if_splits)
  obtain known_ids where known: "id_keys ?cs = Inr known_ids" "distinct known_ids"
    and each: "\<forall>x\<in>set ?cs. component_errors resolve (Some p) known_ids x = Inr []"
    using body p(1) by blast
  have "\<forall>x\<in>set ?cs. \<exists>ms cid. x = JObj ms \<and> map_of ms ''id'' = Some (JStr cid)"
    using each valid_component_id by blast
  from id_keys_texts[OF this] known(1)
  have texts: "known_ids = map JStr (map (\<lambda>c. text_of (json_get c ''id'')) ?cs)" by simp
  let ?ids = "map (\<lambda>c. text_of (json_get c ''id'')) ?cs"
  obtain graph where graph: "list_all2 (\<lambda>c (cid, deps). component_contract resolve p ?ids c cid deps) ?cs graph"
    using graph_of_components[of ?cs resolve p ?ids] each valid_component texts by auto
  note views = graph_views[OF graph]
  have "\<exists>order. dependency_order h (mk_registry (map graph_node graph)) None = Inr order"
    using order views(2) by (auto simp: order_errors_def bindR_def split: sum.splits if_splits)
  then have "orderable (mk_registry (map graph_node graph)) (set (component_ids (mk_registry (map graph_node graph))))"
    using dependency_order_cases[where h = h and cs = "map graph_node graph" and sel = None] by (auto simp: selection_def)
  moreover have "distinct (map fst graph)" using known(2) texts views(1) by (metis distinct_map)
  ultimately show ?thesis using that p comps graph views(1) by metis
qed

section \<open>The components behind a graph\<close>

text \<open>The order of a registry depends on the ids and the dependencies of its components alone.\<close>

definition registry_graph :: "registry \<Rightarrow> (string \<times> string list) list" where
  "registry_graph reg = map (\<lambda>(k, c). (k, comp_deps c)) reg"

lemma map_update: "map (\<lambda>(k, v). (k, g v)) (AList.update k v xs) = AList.update k (g v) (map (\<lambda>(k, v). (k, g v)) xs)"
  by (induction xs) auto

lemma registry_graph_mk:
  "registry_graph (mk_registry cs)
     = foldl (\<lambda>d n. AList.update (fst n) (snd n) d) [] (map (\<lambda>c. (comp_id c, comp_deps c)) cs)"
proof -
  have "registry_graph (foldl (\<lambda>d c. AList.update (comp_id c) c d) d cs)
      = foldl (\<lambda>d n. AList.update (fst n) (snd n) d) (registry_graph d) (map (\<lambda>c. (comp_id c, comp_deps c)) cs)" for d
    by (induction cs arbitrary: d) (simp_all add: registry_graph_def map_update)
  from this[of "[]"] show ?thesis by (simp add: mk_registry_def registry_graph_def)
qed

lemma orderable_graph:
  assumes "registry_graph a = registry_graph b"
  shows "orderable a S = orderable b S" and "component_ids a = component_ids b"
proof -
  have ids: "component_ids r = map fst (registry_graph r)"
    and deps: "deps_of r c = (case map_of (registry_graph r) c of None \<Rightarrow> [] | Some ds \<Rightarrow> ds)" for r c
    by (simp_all add: component_ids_def registry_graph_def deps_of_def map_of_map case_prod_beta
        split: option.splits)
  show "component_ids a = component_ids b" by (simp add: ids assms)
  moreover have "dep_rel a = dep_rel b" by (simp add: dep_rel_def deps assms)
  ultimately show "orderable a S = orderable b S" by (simp add: orderable_def reach_def)
qed

lemma valid_document_orderable:
  assumes "validate_registry h resolve profile doc = Inr []"
    and "map_of doc ''components'' = Some (JList js)"
    and "list_all2 (\<lambda>j c. graph_component j = Inr (graph_node (comp_id c, comp_deps c))) js comps"
  shows "orderable (mk_registry comps) (set (component_ids (mk_registry comps)))"
proof -
  obtain p cs graph where cs: "map_of doc ''components'' = Some (JList cs)"
    and graph: "list_all2 (\<lambda>c (cid, deps). component_contract resolve p (map fst graph) c cid deps) cs graph"
    and ord: "orderable (mk_registry (map graph_node graph)) (set (component_ids (mk_registry (map graph_node graph))))"
    using assms(1) by (rule valid_document)
  have "res_map graph_component js = Inr (map (\<lambda>c. graph_node (comp_id c, comp_deps c)) comps)"
    using assms(3) by (simp add: res_simps list_all2_map2)
  with graph_views(2)[OF graph] cs assms(2)
  have "map graph_node graph = map (\<lambda>c. graph_node (comp_id c, comp_deps c)) comps" by simp
  then have "map (\<lambda>c. (comp_id c, comp_deps c)) (map graph_node graph) = map (\<lambda>c. (comp_id c, comp_deps c)) comps"
    by (simp add: graph_node_def)
  then have "registry_graph (mk_registry (map graph_node graph)) = registry_graph (mk_registry comps)"
    by (simp only: registry_graph_mk)
  from orderable_graph[OF this] ord show ?thesis by simp
qed

section \<open>Properties\<close>

text \<open>A registry of one component whose check has the given type, and its profile.\<close>

definition demo_profile :: platform_profile where
  "demo_profile = \<lparr>pp_id = ''p1'', pp_maturity = ''experimental'', pp_versions = [(''db'', (''1'', [(''i'', ''2'')]))]\<rparr>"

definition demo_component :: "string \<Rightarrow> json" where
  "demo_component check_type = JObj
     [(''id'', JStr ''db''), (''displayName'', JStr ''D''), (''helmRelease'', JStr ''db''), (''web'', JNull),
      (''version'', JObj [(''chart'', JStr ''1''), (''images'', JObj [(''i'', JStr ''2'')])]),
      (''dependencies'', JList []), (''workloads'', JList [JObj [(''id'', JStr ''w'')]]),
      (''operations'', JList [JObj [(''id'', JStr ''start''), (''adapter'', JStr ''apps/a.sh''),
         (''timeoutSeconds'', JInt 60), (''verify'', JList [JStr ''c''])]]),
      (''secrets'', JList []), (''persistence'', JList []),
      (''health'', JObj [(''aggregate'', JStr ''all''), (''checks'', JList
         [JObj [(''id'', JStr ''c''), (''type'', JStr check_type), (''target'', JStr ''w''),
                (''timeoutSeconds'', JInt 5), (''required'', JBool True)]])]),
      (''diagnostics'', JList [JObj [(''id'', JStr ''g''), (''target'', JStr ''w'')]])]"

definition demo_document :: "string \<Rightarrow> (string \<times> json) list" where
  "demo_document check_type =
     [(''$schema'', JStr ''schemas/component-registry.schema.json''),
      (''apiVersion'', JStr ''fortifylab.io/v1alpha1''), (''kind'', JStr ''ComponentRegistry''),
      (''scope'', JObj [(''platform'', JStr ''microk8s''), (''aspm'', JBool False)]),
      (''profileRef'', JStr ''p1''), (''components'', JList [demo_component check_type])]"

lemma demo_document_valid:
  "validate_registry insertion_order (\<lambda>_. RegularFile) (Some demo_profile) (demo_document ''https'') = Inr []"
  "validate_registry insertion_order (\<lambda>_. RegularFile) (Some demo_profile) (demo_document ''smoke'') = Inr []"
  by code_simp+

text \<open>
  C20. A valid registry is well typed. When validation finds nothing, the profile it names is the one
  loaded and supported; the component ids are distinct texts; every component has exactly the fields of
  the schema, depends on other declared components only, pins the versions of the profile, carries no
  secret value, and declares operations with a regular adapter file under \<^verbatim>\<open>apps/\<close>, a timeout of 1 to 7200
  seconds, verification checks that it declares itself, and \<^verbatim>\<open>delete-data\<close> as the only destructive one;
  and the dependency graph has no cycle, so every selection of components can be ordered.
\<close>

theorem valid_registry_contract:
  assumes "validate_registry h resolve profile doc = Inr []"
  shows "\<exists>p cs graph. profile = Some p \<and> pp_maturity p \<noteq> ''unsupported''
    \<and> map_of doc ''profileRef'' = Some (JStr (pp_id p)) \<and> map_of doc ''components'' = Some (JList cs)
    \<and> distinct (map fst graph)
    \<and> list_all2 (\<lambda>c (cid, deps). component_contract resolve p (map fst graph) c cid deps) cs graph
    \<and> orderable (mk_registry (map graph_node graph)) (set (component_ids (mk_registry (map graph_node graph))))"
  using assms by (rule valid_document) blast

theorem valid_registry_contract_witness:
  "\<exists>p cs graph. Some demo_profile = Some p \<and> pp_maturity p \<noteq> ''unsupported''
    \<and> map_of (demo_document ''https'') ''profileRef'' = Some (JStr (pp_id p))
    \<and> map_of (demo_document ''https'') ''components'' = Some (JList cs) \<and> distinct (map fst graph)
    \<and> list_all2 (\<lambda>c (cid, deps). component_contract (\<lambda>_. RegularFile) p (map fst graph) c cid deps) cs graph
    \<and> orderable (mk_registry (map graph_node graph)) (set (component_ids (mk_registry (map graph_node graph))))"
  by (rule valid_registry_contract[OF demo_document_valid(1)])

end
