(* ===== verification/Comms.thy ===== *)
theory Comms
  imports Sanitize Effects
begin

text \<open>
  \<^verbatim>\<open>manager/communications.py\<close>: the read commands and their callback texts, messages with their bounds,
  the HTTP client of the manager, redaction of single lines, and the renderers of the read models.
  The response of \<^verbatim>\<open>urlopen\<close>, \<^verbatim>\<open>json.loads\<close> and \<^verbatim>\<open>urlsplit\<close> are parameters. Characters are code points
  below 256: one ASCII character stands for each arrow, dash and check mark of the source, so that
  lengths are those of the source.
\<close>

section \<open>Texts\<close>

text \<open>\<^verbatim>\<open>repr\<close> of a text and \<^verbatim>\<open>str\<close> of a JSON value.\<close>

definition repr_char :: "char \<Rightarrow> char \<Rightarrow> string" where
  "repr_char q c =
     (if c = q \<or> c = CHR 0x5C then [CHR 0x5C, c]
      else if c = CHR 0x09 then [CHR 0x5C, CHR ''t'']
      else if c = CHR 0x0A then [CHR 0x5C, CHR ''n'']
      else if c = CHR 0x0D then [CHR 0x5C, CHR ''r'']
      else if code c < 32 \<or> 127 \<le> code c \<and> code c \<le> 160 \<or> code c = 173
        then [CHR 0x5C, CHR ''x'', hex_digit (code c div 16), hex_digit (code c mod 16)]
      else [c])"

definition repr_text :: "string \<Rightarrow> string" where
  "repr_text s =
     (let q = (if CHR 0x27 \<in> set s \<and> CHR 0x22 \<notin> set s then CHR 0x22 else CHR 0x27)
      in q # concat (map (repr_char q) s) @ [q])"

fun py_repr :: "json \<Rightarrow> string" where
  "py_repr JNull = ''None''"
| "py_repr (JBool b) = (if b then ''True'' else ''False'')"
| "py_repr (JInt i) = emit_int i"
| "py_repr (JStr s) = repr_text s"
| "py_repr (JList xs) = ''['' @ join '', '' (map py_repr xs) @ '']''"
| "py_repr (JObj ms) = ''{'' @ join '', '' (map (\<lambda>(k, v). repr_text k @ '': '' @ py_repr v) ms) @ ''}''"

definition str_of :: "json \<Rightarrow> string" where
  "str_of v = (case v of JStr s \<Rightarrow> s | w \<Rightarrow> py_repr w)"

text \<open>\<^verbatim>\<open>str.isdigit\<close> also holds for the superscripts two, three and one, which \<^verbatim>\<open>int\<close> refuses.\<close>

definition isdigit :: "string \<Rightarrow> bool" where
  "isdigit s \<longleftrightarrow> s \<noteq> [] \<and> list_all (\<lambda>c. is_digit c \<or> code c \<in> {178, 179, 185}) s"

definition int_of_digits :: "string \<Rightarrow> int result" where
  "int_of_digits s =
     (if list_all is_digit s \<and> length s \<le> 4300 then Inr (int (digits_value s))
      else raise PyValueError ''invalid literal for int() with base 10'')"

text \<open>\<^verbatim>\<open>s.split()\<close>, \<^verbatim>\<open>s.split(c)\<close>, \<^verbatim>\<open>s.rstrip("/")\<close> and \<^verbatim>\<open>s.startswith(p)\<close>.\<close>

fun words_from :: "string \<Rightarrow> string \<Rightarrow> string list" where
  "words_from w [] = (if w = [] then [] else [w])"
| "words_from w (c # cs) =
     (if is_space c then (if w = [] then words_from [] cs else w # words_from [] cs)
      else words_from (w @ [c]) cs)"

fun split_on :: "char \<Rightarrow> string \<Rightarrow> string list" where
  "split_on c [] = [[]]"
| "split_on c (d # ds) =
     (if d = c then [] # split_on c ds
      else case split_on c ds of [] \<Rightarrow> [[d]] | w # ws \<Rightarrow> (d # w) # ws)"

definition rstrip_slash :: "string \<Rightarrow> string" where
  "rstrip_slash s = rev (dropWhile (\<lambda>c. c = CHR ''/'') (rev s))"

definition starts_with :: "string \<Rightarrow> string \<Rightarrow> bool" where
  "starts_with p s \<longleftrightarrow> take (length p) s = p"

section \<open>Commands\<close>

definition API_PREFIX :: string where
  "API_PREFIX = ''/api/v1alpha1''"

definition MAX_ITEMS :: nat where
  "MAX_ITEMS = 10"

definition MAX_MESSAGE :: nat where
  "MAX_MESSAGE = 3500"

definition SAFE_WEB_PATHS :: "(string \<times> string) list" where
  "SAFE_WEB_PATHS =
     [(''summary'', ''/''), (''health'', ''/health''), (''preflight'', ''/preflight''),
      (''incidents'', ''/incidents''), (''history'', ''/history'')]"

text \<open>\<^verbatim>\<open>SAFE_COMPONENT.fullmatch\<close> for \<^verbatim>\<open>^[a-z0-9][a-z0-9-]{0,63}$\<close>.\<close>

definition safe_component :: "string \<Rightarrow> bool" where
  "safe_component s =
     (case s of
        [] \<Rightarrow> False
      | c # cs \<Rightarrow> (is_lower c \<or> is_num c) \<and> length cs \<le> 63
          \<and> list_all (\<lambda>d. is_lower d \<or> is_num d \<or> d = CHR ''-'') cs)"

datatype command_kind = Summary | HealthK | PreflightK | Incidents | History | Help

fun kind_value :: "command_kind \<Rightarrow> string" where
  "kind_value Summary = ''summary''"
| "kind_value HealthK = ''health''"
| "kind_value PreflightK = ''preflight''"
| "kind_value Incidents = ''incidents''"
| "kind_value History = ''history''"
| "kind_value Help = ''help''"

definition KINDS :: "command_kind list" where
  "KINDS = [Summary, HealthK, PreflightK, Incidents, History, Help]"

definition kind_of :: "string \<Rightarrow> command_kind option" where
  "kind_of name = map_of (map (\<lambda>k. (kind_value k, k)) KINDS) name"

record read_command =
  rc_kind :: command_kind
  rc_page :: int
  rc_component :: "string option"

definition command_ok :: "read_command \<Rightarrow> bool" where
  "command_ok c \<longleftrightarrow> 1 \<le> rc_page c \<and> rc_page c \<le> 1000
     \<and> (case rc_component c of None \<Rightarrow> True | Some s \<Rightarrow> safe_component s)"

definition mk_command :: "command_kind \<Rightarrow> int \<Rightarrow> string option \<Rightarrow> read_command result" where
  "mk_command kind page component =
     (if \<not> (1 \<le> page \<and> page \<le> 1000) then raise PyValueError ''page is outside the supported range''
      else if (case component of None \<Rightarrow> False | Some s \<Rightarrow> \<not> safe_component s)
      then raise PyValueError ''component ID is invalid''
      else Inr \<lparr>rc_kind = kind, rc_page = page, rc_component = component\<rparr>)"

fun parse_arguments ::
    "command_kind \<Rightarrow> int \<Rightarrow> string option \<Rightarrow> string list \<Rightarrow> (int \<times> string option) result" where
  "parse_arguments kind page component [] = Inr (page, component)"
| "parse_arguments kind page component (v # vs) =
     (if starts_with ''page='' v \<and> isdigit (drop 5 v)
      then (case int_of_digits (drop 5 v) of
              Inl e \<Rightarrow> Inl e | Inr p \<Rightarrow> parse_arguments kind p component vs)
      else if kind = HealthK \<and> component = None
      then parse_arguments kind page (Some (map to_lower v)) vs
      else raise PyValueError ''unsupported command argument'')"

definition command_kind_of :: "string \<Rightarrow> command_kind result" where
  "command_kind_of name =
     (if name \<in> {''lab'', ''start''} then Inr Summary
      else case kind_of name of
        None \<Rightarrow> raise PyValueError ''unknown command'' | Some k \<Rightarrow> Inr k)"

definition parse_command :: "string \<Rightarrow> read_command result" where
  "parse_command line =
     (case words_from [] line of
        [] \<Rightarrow> raise PyValueError ''empty command''
      | w # ws \<Rightarrow>
          (case command_kind_of
                  (map to_lower (dropWhile (\<lambda>c. c = CHR ''/'') (takeWhile (\<lambda>c. c \<noteq> CHR ''@'') w))) of
             Inl e \<Rightarrow> Inl e
           | Inr kind \<Rightarrow>
               (case parse_arguments kind 1 None ws of
                  Inl e \<Rightarrow> Inl e
                | Inr (page, component) \<Rightarrow> mk_command kind page component)))"

text \<open>A component is made of ASCII characters, so its bytes are its characters.\<close>

definition encode_callback :: "read_command \<Rightarrow> string result" where
  "encode_callback c =
     (let component = (case rc_component c of None \<Rightarrow> ''-'' | Some [] \<Rightarrow> ''-'' | Some s \<Rightarrow> s);
          v = ''read:'' @ kind_value (rc_kind c) @ '':'' @ emit_int (rc_page c) @ '':'' @ component
      in if length v > 64 then raise PyValueError ''callback is too large'' else Inr v)"

definition decode_callback :: "string \<Rightarrow> read_command result" where
  "decode_callback v =
     (case split_on (CHR '':'') v of
        [prefix, kind, page, component] \<Rightarrow>
          if prefix \<noteq> ''read'' \<or> \<not> isdigit page then raise PyValueError ''invalid callback''
          else (case kind_of kind of
             None \<Rightarrow> raise PyValueError ''not a valid CommandKind''
           | Some k \<Rightarrow> (case int_of_digits page of
                Inl e \<Rightarrow> Inl e
              | Inr p \<Rightarrow> mk_command k p (if component = ''-'' then None else Some component)))
      | _ \<Rightarrow> raise PyValueError ''invalid callback'')"

section \<open>Messages\<close>

datatype action_command = OpaqueAction string | Reading read_command

record message =
  ms_text :: string
  ms_actions :: "(string \<times> action_command) list"
  ms_replace :: "string option"

definition mk_message ::
    "string \<Rightarrow> (string \<times> action_command) list \<Rightarrow> string option \<Rightarrow> message result" where
  "mk_message body actions key =
     (if body = [] \<or> length body > MAX_MESSAGE
      then raise PyValueError ''message is empty or exceeds its bound''
      else if length actions > 6 then raise PyValueError ''too many message actions''
      else Inr \<lparr>ms_text = body, ms_actions = actions, ms_replace = key\<rparr>)"

section \<open>The HTTP client\<close>

datatype client_error =
    Unauthorized
  | RateLimited "int option"
  | Unavailable
  | ResponseInvalid
  | Raised exn

type_synonym document = "(string \<times> json) list"

datatype http_outcome = HttpError int string | Payload string

record http_client =
  hc_base :: string
  hc_token :: string
  hc_timeout :: int

text \<open>Timeouts in milliseconds; \<open>split\<close> gives the scheme and the network location of a URL.\<close>

definition http_url :: "(string \<Rightarrow> (string \<times> string) result) \<Rightarrow> string \<Rightarrow> string \<Rightarrow> unit result" where
  "http_url split refusal url =
     (case split url of
        Inl e \<Rightarrow> Inl e
      | Inr (scheme, netloc) \<Rightarrow>
          if scheme \<notin> {''http'', ''https''} \<or> netloc = [] then raise PyValueError refusal else Inr ())"

definition mk_client ::
    "(string \<Rightarrow> (string \<times> string) result) \<Rightarrow> string \<Rightarrow> string \<Rightarrow> int \<Rightarrow> http_client result" where
  "mk_client split base token timeout =
     (case http_url split ''manager base URL must be HTTP(S)'' base of
        Inl e \<Rightarrow> Inl e
      | Inr _ \<Rightarrow>
          if token = [] then raise PyValueError ''manager session token is required''
          else Inr \<lparr>hc_base = rstrip_slash base, hc_token = token,
                    hc_timeout = max 100 (min timeout 30000)\<rparr>)"

definition request_url :: "http_client \<Rightarrow> string \<Rightarrow> int \<Rightarrow> int \<Rightarrow> string" where
  "request_url client resource page page_size =
     hc_base client @ API_PREFIX @ ''/'' @ resource @ ''?page='' @ emit_int (max 1 (min page 1000))
       @ ''&pageSize='' @ emit_int (max 1 (min page_size (int MAX_ITEMS)))"

definition refused_status :: "int \<Rightarrow> string \<Rightarrow> client_error" where
  "refused_status status retry =
     (if status \<in> {401, 403} then Unauthorized
      else if status = 429
      then (if isdigit retry
            then (case int_of_digits retry of Inl e \<Rightarrow> Raised e | Inr n \<Rightarrow> RateLimited (Some n))
            else RateLimited None)
      else Unavailable)"

definition client_read ::
    "(string \<Rightarrow> string \<Rightarrow> http_outcome result) \<Rightarrow> (string \<Rightarrow> json option) \<Rightarrow> http_client \<Rightarrow> string
       \<Rightarrow> int \<Rightarrow> int \<Rightarrow> client_error + document" where
  "client_read fetch loads client resource page page_size =
     (if resource \<notin> fst ` set SAFE_WEB_PATHS
      then Inl (Raised (Exn PyValueError ''unsupported manager resource''))
      else case fetch (hc_token client) (request_url client resource page page_size) of
        Inl e \<Rightarrow> Inl (if catches [PyOSError, PyTimeoutError] e then Unavailable else Raised e)
      | Inr (HttpError status retry) \<Rightarrow> Inl (refused_status status retry)
      | Inr (Payload bytes) \<Rightarrow>
          if length bytes > 256 * 1024 then Inl ResponseInvalid
          else (case loads bytes of Some (JObj ms) \<Rightarrow> Inr ms | _ \<Rightarrow> Inl ResponseInvalid))"

section \<open>Redaction of a line\<close>

text \<open>
  \<^verbatim>\<open>\w\<close> below 256. The second \<^verbatim>\<open>\b\<close> of the first pattern always holds before the white space or sign that
  the pattern asks for next.
\<close>

definition word_char :: "char \<Rightarrow> bool" where
  "word_char c \<longleftrightarrow> is_lower (to_lower c) \<or> is_num c \<or> c = CHR ''_''
     \<or> code c \<in> {170, 178, 179, 181, 185, 186, 188, 189, 190}
     \<or> 192 \<le> code c \<and> code c \<notin> {215, 247}"

definition KEYED_SECRET :: rx where
  "KEYED_SECRET = Seq (NotBehind word_char)
     (Seq (Group1 (alts [lit ''password'', lit ''token'', lit ''secret'', lit ''authorization'',
                         lit ''credential'']))
       (Seq (Many is_space) (Seq (One (\<lambda>c. c \<in> set '':=''))
         (Seq (Many is_space) (some1 (\<lambda>c. \<not> is_space c))))))"

definition HOST_PATH :: rx where
  "HOST_PATH = Seq (NotBehind word_char)
     (Seq (alts [exact ''/home'', exact ''/etc'', exact ''/var'', exact ''/run'', exact ''/root'',
                 exact ''~''])
       (Seq (One (\<lambda>c. c = CHR ''/'')) (some1 (\<lambda>c. \<not> is_space c))))"

definition safe_text :: "json \<Rightarrow> nat \<Rightarrow> string" where
  "safe_text v limit =
     (let line = map (\<lambda>c. if c \<in> {CHR 0x0D, CHR 0x0A} then CHR '' '' else c)
                   (if v = JNull then ''unknown'' else str_of v);
          hidden = re_sub KEYED_SECRET
            (\<lambda>g. (case g of None \<Rightarrow> [] | Some w \<Rightarrow> w) @ ''=[redacted]'') None line
      in take limit (re_sub HOST_PATH (\<lambda>_. ''[protected-path]'') None hidden))"

abbreviation safe :: "json \<Rightarrow> string" where
  "safe v \<equiv> safe_text v 240"

section \<open>Read models\<close>

definition getd :: "document \<Rightarrow> string \<Rightarrow> json \<Rightarrow> json" where
  "getd ms k dflt = (case map_of ms k of None \<Rightarrow> dflt | Some v \<Rightarrow> v)"

abbreviation get_text :: "document \<Rightarrow> string \<Rightarrow> string \<Rightarrow> json" where
  "get_text ms k dflt \<equiv> getd ms k (JStr dflt)"

fun objects :: "json list \<Rightarrow> document list" where
  "objects [] = []"
| "objects (JObj ms # vs) = ms # objects vs"
| "objects (v # vs) = objects vs"

definition doc_items :: "document \<Rightarrow> client_error + document list" where
  "doc_items d =
     (case getd d ''items'' (JList []) of
        JList vs \<Rightarrow> Inr (objects (take MAX_ITEMS vs))
      | _ \<Rightarrow> Inl ResponseInvalid)"

definition freshness :: "document \<Rightarrow> string" where
  "freshness d =
     (let state = (case map_of d ''freshness'' of
                     Some (JObj f) \<Rightarrow> safe_text (get_text f ''state'' ''unknown'') 32
                   | _ \<Rightarrow> ''unknown'')
      in ''Freshness: '' @ state @ '' (observed ''
           @ safe_text (get_text d ''observedAt'' ''unknown'') 40 @ '')'')"

definition shown :: "'a result \<Rightarrow> client_error + 'a" where
  "shown r = (case r of Inl e \<Rightarrow> Inl (Raised e) | Inr x \<Rightarrow> Inr x)"

definition page_action ::
    "string \<Rightarrow> command_kind \<Rightarrow> int \<Rightarrow> (string \<times> action_command) list result" where
  "page_action label kind page =
     (case mk_command kind page None of Inl e \<Rightarrow> Inl e | Inr c \<Rightarrow> Inr [(label, Reading c)])"

definition pagination ::
    "command_kind \<Rightarrow> document \<Rightarrow> int \<Rightarrow> client_error + (string \<times> action_command) list" where
  "pagination kind d page =
     (case map_of d ''pagination'' of
        Some (JObj p) \<Rightarrow>
          shown (case (if truthy (getd p ''hasPrevious'' JNull) \<and> page > 1
                       then page_action ''< Previous'' kind (page - 1) else Inr []) of
             Inl e \<Rightarrow> Inl e
           | Inr back \<Rightarrow>
               (case (if truthy (getd p ''hasNext'' JNull)
                      then page_action ''Next >'' kind (page + 1) else Inr []) of
                  Inl e \<Rightarrow> Inl e
                | Inr next \<Rightarrow> Inr (back @ next)))
      | _ \<Rightarrow> Inr [])"

definition web_link :: "string \<Rightarrow> string \<Rightarrow> string" where
  "web_link base resource =
     ''Open Web UI: '' @ base @ (case map_of SAFE_WEB_PATHS resource of None \<Rightarrow> [] | Some p \<Rightarrow> p)"

text \<open>The lines of a message, cut at its bound.\<close>

definition lines_message ::
    "string list \<Rightarrow> (string \<times> action_command) list \<Rightarrow> string \<Rightarrow> client_error + message" where
  "lines_message ls actions key =
     shown (mk_message (take MAX_MESSAGE (join [CHR 0x0A] ls)) actions (Some key))"

definition item_name :: "document \<Rightarrow> json" where
  "item_name item = getd item ''displayName'' (get_text item ''id'' ''Component'')"

definition fresh_command :: "command_kind \<Rightarrow> action_command" where
  "fresh_command k = Reading \<lparr>rc_kind = k, rc_page = 1, rc_component = None\<rparr>"

definition render_summary :: "string \<Rightarrow> document \<Rightarrow> client_error + message" where
  "render_summary base d =
     (case doc_items d of
        Inl e \<Rightarrow> Inl e
      | Inr its \<Rightarrow> lines_message
          ([''Fortify Lab summary'', freshness d]
           @ map (\<lambda>item. safe_text (item_name item) 80 @ '': ''
                          @ safe_text (get_text item ''status'' ''unknown'') 32) its
           @ [web_link base ''summary''])
          [(''Health'', fresh_command HealthK), (''Preflight'', fresh_command PreflightK),
           (''Incidents'', fresh_command Incidents), (''History'', fresh_command History)]
          ''lab:summary'')"

definition remediation_lines :: "document \<Rightarrow> string list" where
  "remediation_lines item =
     (case map_of item ''remediation'' of
        Some (JObj r) \<Rightarrow>
          if map_of r ''safe'' = Some (JBool True)
          then [''  Safe action: '' @ safe (get_text r ''summary'' ''See Web UI'')] else []
      | _ \<Rightarrow> [])"

definition health_lines :: "document \<Rightarrow> string list" where
  "health_lines item =
     (let suffix = (case map_of item ''rootCause'' of
                      Some (JObj root) \<Rightarrow> '' - cause: ''
                        @ safe (getd root ''summary'' (get_text root ''componentId'' ''unknown''))
                    | _ \<Rightarrow> [])
      in [safe_text (item_name item) 80 @ '': ''
            @ safe_text (get_text item ''status'' ''unknown'') 32 @ suffix]
         @ (case map_of item ''evidence'' of
              Some (JObj e) \<Rightarrow> [''  Evidence: '' @ safe (get_text e ''summary'' ''unavailable'')
                @ ''; checked '' @ safe_text (get_text e ''observedAt'' ''unknown'') 40]
            | _ \<Rightarrow> [])
         @ remediation_lines item)"

definition render_health :: "string \<Rightarrow> document \<Rightarrow> read_command \<Rightarrow> client_error + message" where
  "render_health base d c =
     (case doc_items d of
        Inl e \<Rightarrow> Inl e
      | Inr all \<Rightarrow>
          (let its = (case rc_component c of
                        None \<Rightarrow> all | Some [] \<Rightarrow> all
                      | Some s \<Rightarrow> filter (\<lambda>item. map_of item ''id'' = Some (JStr s)) all);
               blocked = (\<lambda>item. map_of item ''status'' = Some (JStr ''blocked''))
           in case pagination HealthK d (rc_page c) of
                Inl e \<Rightarrow> Inl e
              | Inr actions \<Rightarrow> lines_message
                  ([''Dependency-aware health'', freshness d]
                   @ concat (map health_lines (filter (\<lambda>i. \<not> blocked i) its @ filter blocked its))
                   @ [web_link base ''health'']) actions ''lab:health''))"

definition preflight_lines :: "document \<Rightarrow> string list" where
  "preflight_lines item =
     [safe_text (getd item ''name'' (get_text item ''id'' ''Check'')) 100 @ '': ''
        @ safe_text (get_text item ''status'' ''unknown'') 32 @ '' - ''
        @ safe (get_text item ''summary'' ''No detail available.'')]
     @ remediation_lines item"

definition incident_lines :: "document \<Rightarrow> string list" where
  "incident_lines item =
     (let cause = (case map_of item ''rootCause'' of
                     Some (JObj root) \<Rightarrow> get_text root ''summary'' ''unknown''
                   | _ \<Rightarrow> JStr ''unknown'')
      in [safe_text (get_text item ''severity'' ''unknown'') 16 @ '' ''
            @ safe_text (get_text item ''status'' ''unknown'') 16 @ '': ''
            @ safe (get_text item ''summary'' ''Incident'') @ [CHR 0x0A]
            @ ''  Root cause: '' @ safe cause])"

definition history_lines :: "document \<Rightarrow> string list" where
  "history_lines item =
     [safe_text (getd item ''occurredAt'' (get_text item ''updatedAt'' ''unknown'')) 40 @ '' - ''
        @ safe (getd item ''summary'' (get_text item ''type'' ''Event''))]"

text \<open>
  \<^verbatim>\<open>_preflight\<close>, \<^verbatim>\<open>_incidents\<close> and \<^verbatim>\<open>_history\<close> differ in their title, in the line for no items, in the
  lines of an item and in their resource.
\<close>

definition render_list ::
    "string \<Rightarrow> string \<Rightarrow> string \<Rightarrow> (document \<Rightarrow> string list) \<Rightarrow> command_kind \<Rightarrow> document \<Rightarrow> read_command
       \<Rightarrow> client_error + message" where
  "render_list base title none_line item_lines kind d c =
     (case doc_items d of
        Inl e \<Rightarrow> Inl e
      | Inr its \<Rightarrow>
          (case pagination kind d (rc_page c) of
             Inl e \<Rightarrow> Inl e
           | Inr actions \<Rightarrow> lines_message
               ([title, freshness d] @ (if its = [] then [none_line] else [])
                @ concat (map item_lines its) @ [web_link base (kind_value kind)])
               actions (''lab:'' @ kind_value kind)))"

definition render_preflight :: "string \<Rightarrow> document \<Rightarrow> read_command \<Rightarrow> client_error + message" where
  "render_preflight base = render_list base ''Latest deployment preflight''
     ''No preflight result is available.'' preflight_lines PreflightK"

definition render_incidents :: "string \<Rightarrow> document \<Rightarrow> read_command \<Rightarrow> client_error + message" where
  "render_incidents base = render_list base ''Manager incidents'' ''No incidents on this page.''
     incident_lines Incidents"

definition render_history :: "string \<Rightarrow> document \<Rightarrow> read_command \<Rightarrow> client_error + message" where
  "render_history base = render_list base ''Recent manager history'' ''No history on this page.''
     history_lines History"

definition help_message :: "message result" where
  "help_message = mk_message
     (join [CHR 0x0A]
        [''Read-only Fortify Lab commands'',
         ''/lab - inventory and aggregate state'',
         ''/health [component] - dependency-aware health'',
         ''/preflight - latest deployment preflight'',
         ''/incidents [page=N] - current incidents'',
         ''/history [page=N] - recent manager history'',
         ''/help - this command list'']) [] None"

text \<open>
  \<^verbatim>\<open>ReadModelService\<close>: \<open>base\<close> is the Web UI without its trailing slashes, \<open>reading\<close> the manager port.
\<close>

definition mk_service :: "(string \<Rightarrow> (string \<times> string) result) \<Rightarrow> string \<Rightarrow> string result" where
  "mk_service split url =
     (case http_url split ''Web UI base URL must be HTTP(S)'' url of
        Inl e \<Rightarrow> Inl e | Inr _ \<Rightarrow> Inr (rstrip_slash url))"

fun render :: "string \<Rightarrow> read_command \<Rightarrow> document \<Rightarrow> client_error + message" where
  "render base c d =
     (case rc_kind c of
        Summary \<Rightarrow> render_summary base d
      | HealthK \<Rightarrow> render_health base d c
      | PreflightK \<Rightarrow> render_preflight base d c
      | Incidents \<Rightarrow> render_incidents base d c
      | History \<Rightarrow> render_history base d c
      | Help \<Rightarrow> shown (raise PyKeyError ''help''))"

definition failure_message :: "client_error \<Rightarrow> message result" where
  "failure_message err =
     (case err of
        Unauthorized \<Rightarrow> mk_message (''Manager authorization failed. ''
          @ ''Reconnect the protected manager session locally.'') [] None
      | RateLimited retry \<Rightarrow> mk_message (''Manager rate limit reached.''
          @ (case retry of
               Some n \<Rightarrow> '' Try again in '' @ emit_int n @ '' seconds.''
             | None \<Rightarrow> '' Try again later.'')) [] None
      | Raised e \<Rightarrow> Inl e
      | _ \<Rightarrow> mk_message (''Manager is unavailable. ''
          @ ''Telegram did not query MicroK8s directly; try again later.'') [] None)"

definition read_service ::
    "string \<Rightarrow> (string \<Rightarrow> int \<Rightarrow> client_error + document) \<Rightarrow> read_command \<Rightarrow> message result" where
  "read_service base reading c =
     (if rc_kind c = Help then help_message
      else case reading (kind_value (rc_kind c)) (rc_page c) of
        Inl err \<Rightarrow> failure_message err
      | Inr d \<Rightarrow> (case render base c d of Inl err \<Rightarrow> failure_message err | Inr m \<Rightarrow> Inr m))"

definition recovery_message :: "string \<Rightarrow> document \<Rightarrow> message option result" where
  "recovery_message base event =
     (case map_of event ''type'' of
        Some (JList _) \<Rightarrow> raise PyTypeError ''unhashable type''
      | Some (JObj _) \<Rightarrow> raise PyTypeError ''unhashable type''
      | Some (JStr t) \<Rightarrow>
          if t \<notin> {''health.recovered'', ''incident.resolved''} then Inr None
          else let subject = map_of event ''subject'';
                   name = (case subject of
                             Some (JObj s) \<Rightarrow> getd s ''displayName'' (get_text s ''id'' ''Lab'')
                           | _ \<Rightarrow> JStr ''Lab'');
                   key = (case subject of
                            Some (JObj s) \<Rightarrow> ''health:'' @ safe_text (get_text s ''id'' ''lab'') 64
                          | _ \<Rightarrow> ''health:lab'')
               in (case mk_message
                     (join [CHR 0x0A]
                        [''+ '' @ safe_text name 80 @ '' recovered'',
                         safe (get_text event ''summary'' ''Health returned to normal.''),
                         ''Observed: '' @ safe_text (get_text event ''occurredAt'' ''unknown'') 40,
                         web_link base ''health'']) [] (Some key) of
                     Inl e \<Rightarrow> Inl e | Inr m \<Rightarrow> Inr (Some m))
      | _ \<Rightarrow> Inr None)"

section \<open>Numbers and fields in a text\<close>

lemma digits_value_snoc: "digits_value (s @ [c]) = 10 * digits_value s + (of_char c - 48)"
  by (simp add: digits_value_def)

lemma dec_digit_value: "n < 10 \<Longrightarrow> (of_char (dec_digit n) :: nat) - 48 = n"
  by (simp add: dec_digit_def less_Suc_eq eval_nat_numeral) auto

lemma digits_value_emit [simp]: "digits_value (emit_nat n) = n"
proof (induction n rule: emit_nat.induct)
  case (1 n)
  show ?case
  proof (cases "n < 10")
    case True
    then show ?thesis by (subst emit_nat.simps) (simp add: digits_value_def dec_digit_value)
  next
    case False
    then show ?thesis
      using 1 by (subst emit_nat.simps) (simp add: digits_value_snoc dec_digit_value)
  qed
qed

lemma emit_nat_length: "n < 10 ^ k \<Longrightarrow> 0 < k \<Longrightarrow> length (emit_nat n) \<le> k"
proof (induction k arbitrary: n)
  case (Suc k)
  show ?case
  proof (cases "n < 10")
    case True
    then show ?thesis by (subst emit_nat.simps) simp
  next
    case False
    with Suc.prems have "n div 10 < 10 ^ k" and "0 < k"
      by (auto simp: less_mult_imp_div_less intro: gr0I)
    with Suc.IH[of "n div 10"] False show ?thesis by (subst emit_nat.simps) simp
  qed
qed simp

lemma int_of_digits_emit:
  assumes "0 \<le> i" and "i < 10 ^ 9"
  shows "isdigit (emit_int i)" and "int_of_digits (emit_int i) = Inr i"
proof -
  have "list_all is_digit (emit_int i)"
    using assms by (auto simp: emit_int_def list_all_iff dest: emit_nat_digits)
  moreover have "length (emit_int i) \<le> 9"
    using assms emit_nat_length[of "nat i" 9] by (simp add: emit_int_def)
  ultimately show "isdigit (emit_int i)" "int_of_digits (emit_int i) = Inr i"
    using assms by (auto simp: isdigit_def int_of_digits_def emit_int_def list_all_iff)
qed

lemma split_on_none: "c \<notin> set s \<Longrightarrow> split_on c s = [s]"
  by (induction s) auto

lemma split_on_field: "c \<notin> set s \<Longrightarrow> split_on c (s @ c # t) = s # split_on c t"
  by (induction s) auto

lemma kind_of_value [simp]: "kind_of (kind_value k) = Some k"
  by (cases k) (simp_all add: kind_of_def KINDS_def)

lemma kind_value_plain: "CHR '':'' \<notin> set (kind_value k)" "length (kind_value k) \<le> 9"
  by (cases k; simp)+

lemma emit_int_plain: "0 \<le> i \<Longrightarrow> CHR '':'' \<notin> set (emit_int i)"
  by (auto simp: emit_int_def is_digit_def dest: emit_nat_digits)

lemma safe_component_plain: "safe_component s \<Longrightarrow> CHR '':'' \<notin> set s \<and> s \<noteq> [] \<and> s \<noteq> ''-''"
  by (auto simp: safe_component_def list_all_iff is_lower_def is_num_def code_def split: list.splits)

lemma command_cases:
  assumes "command_ok c"
  obtains field where "CHR '':'' \<notin> set field"
    and "(case rc_component c of None \<Rightarrow> ''-'' | Some [] \<Rightarrow> ''-'' | Some s \<Rightarrow> s) = field"
    and "(if field = ''-'' then None else Some field) = rc_component c"
proof (cases "rc_component c")
  case None
  then show thesis using that[of "''-''"] by simp
next
  case (Some s)
  then have "CHR '':'' \<notin> set s \<and> s \<noteq> [] \<and> s \<noteq> ''-''"
    using assms safe_component_plain by (simp add: command_ok_def)
  with Some show thesis by (cases s) (auto intro: that[of s])
qed

lemma mk_command_ok: "command_ok c \<Longrightarrow> mk_command (rc_kind c) (rc_page c) (rc_component c) = Inr c"
  by (auto simp: command_ok_def mk_command_def split: option.splits)

lemma mk_command_Inr: "mk_command k p s = Inr c \<Longrightarrow> command_ok c"
  by (auto simp: command_ok_def mk_command_def split: option.splits if_splits)

lemma commands_ok:
  "parse_command line = Inr c \<Longrightarrow> command_ok c"
  "decode_callback v = Inr c \<Longrightarrow> command_ok c"
  by (auto simp: parse_command_def decode_callback_def intro: mk_command_Inr
      split: list.splits sum.splits if_splits option.splits)

lemma decode_encode:
  assumes "command_ok c" and "encode_callback c = Inr v"
  shows "decode_callback v = Inr c"
proof -
  obtain field where f: "CHR '':'' \<notin> set field"
    "(case rc_component c of None \<Rightarrow> ''-'' | Some [] \<Rightarrow> ''-'' | Some s \<Rightarrow> s) = field"
    "(if field = ''-'' then None else Some field) = rc_component c"
    using command_cases[OF assms(1)] .
  have page: "0 \<le> rc_page c" "rc_page c < 10 ^ 9" using assms(1) by (auto simp: command_ok_def)
  have v: "v = ''read'' @ CHR '':'' # kind_value (rc_kind c) @ CHR '':'' # emit_int (rc_page c)
      @ CHR '':'' # field"
    using assms(2) f(2) by (auto simp: encode_callback_def Let_def split: if_splits)
  have "split_on (CHR '':'') v = [''read'', kind_value (rc_kind c), emit_int (rc_page c), field]"
    unfolding v using f(1) page
    by (simp add: split_on_field split_on_none kind_value_plain emit_int_plain del: append.simps)
  then show ?thesis
    using int_of_digits_emit[OF page] mk_command_ok[OF assms(1)] f(3)
    by (simp add: decode_callback_def)
qed

lemma encode_fits:
  assumes "command_ok c" and "length (case rc_component c of None \<Rightarrow> ''-'' | Some s \<Rightarrow> s) \<le> 44"
  shows "\<exists>v. encode_callback c = Inr v"
proof -
  have "length (emit_int (rc_page c)) \<le> 4"
    using assms(1) emit_nat_length[of "nat (rc_page c)" 4] by (auto simp: command_ok_def emit_int_def)
  moreover have "(case rc_component c of None \<Rightarrow> ''-'' | Some [] \<Rightarrow> ''-'' | Some s \<Rightarrow> s)
      = (case rc_component c of None \<Rightarrow> ''-'' | Some s \<Rightarrow> s)"
    using assms(1) by (auto simp: command_ok_def safe_component_def split: option.splits list.splits)
  ultimately show ?thesis
    using assms(2) kind_value_plain(2)[of "rc_kind c"] by (simp add: encode_callback_def Let_def)
qed

section \<open>What the channel carries\<close>

text \<open>
  C26. A read command survives its callback: every command that is parsed from a text or decoded from a
  callback is valid, and for a valid command the encoding either succeeds with at most 64 characters,
  and decoding it gives the command back, or it is refused, which happens only for a component of more
  than 44 characters.
\<close>

theorem callback_carries_command:
  assumes "parse_command line = Inr c \<or> decode_callback w = Inr c"
  shows "command_ok c
    \<and> (case encode_callback c of
         Inr v \<Rightarrow> length v \<le> 64 \<and> decode_callback v = Inr c
       | Inl e \<Rightarrow> 44 < length (case rc_component c of None \<Rightarrow> ''-'' | Some s \<Rightarrow> s))"
proof -
  have ok: "command_ok c" using assms commands_ok by blast
  show ?thesis
  proof (cases "encode_callback c")
    case (Inl e)
    with ok encode_fits[OF ok] show ?thesis by fastforce
  next
    case (Inr v)
    moreover from Inr have "length v \<le> 64"
      by (auto simp: encode_callback_def Let_def split: if_splits)
    ultimately show ?thesis using ok decode_encode by simp
  qed
qed

theorem callback_carries_command_witness:
  "command_ok \<lparr>rc_kind = HealthK, rc_page = 2, rc_component = Some ''ssc''\<rparr>
    \<and> (case encode_callback \<lparr>rc_kind = HealthK, rc_page = 2, rc_component = Some ''ssc''\<rparr> of
         Inr v \<Rightarrow> length v \<le> 64
           \<and> decode_callback v = Inr \<lparr>rc_kind = HealthK, rc_page = 2, rc_component = Some ''ssc''\<rparr>
       | Inl e \<Rightarrow> 44 < length (case rc_component \<lparr>rc_kind = HealthK, rc_page = 2,
                                       rc_component = Some ''ssc''\<rparr> of None \<Rightarrow> ''-'' | Some s \<Rightarrow> s))"
  by (rule callback_carries_command[of "''/Health@bot SSC page=2''" _ "[]"]) code_simp

definition actions_ok :: "(string \<times> action_command) list \<Rightarrow> bool" where
  "actions_ok acts \<longleftrightarrow> length acts \<le> 6
     \<and> list_all (\<lambda>(label, a). case a of OpaqueAction _ \<Rightarrow> True
                   | Reading c \<Rightarrow> command_ok c \<and> rc_component c = None) acts"

definition message_ok :: "message \<Rightarrow> bool" where
  "message_ok m \<longleftrightarrow> 0 < length (ms_text m) \<and> length (ms_text m) \<le> MAX_MESSAGE
     \<and> actions_ok (ms_actions m)"

lemma actions_ok_Nil [simp]: "actions_ok []"
  by (simp add: actions_ok_def)

lemma mk_message_ok:
  "0 < length body \<Longrightarrow> length body \<le> MAX_MESSAGE \<Longrightarrow> actions_ok acts \<Longrightarrow>
   \<exists>m. mk_message body acts key = Inr m \<and> message_ok m"
  by (auto simp: mk_message_def message_ok_def actions_ok_def)

lemma lines_message_ok:
  assumes "actions_ok acts" and "l \<noteq> []"
  shows "\<exists>m. lines_message (l # ls) acts key = Inr m \<and> message_ok m"
proof -
  have "0 < length (join [CHR 0x0A] (l # ls))" using assms(2) by (cases ls) auto
  then have "0 < length (take MAX_MESSAGE (join [CHR 0x0A] (l # ls)))"
    by (auto simp: MAX_MESSAGE_def)
  then obtain m where "mk_message (take MAX_MESSAGE (join [CHR 0x0A] (l # ls))) acts (Some key) = Inr m"
    and "message_ok m"
    using mk_message_ok[OF _ _ assms(1)] by (metis length_take min.cobounded2)
  then show ?thesis by (simp add: lines_message_def shown_def)
qed

lemma page_action_ok:
  "1 \<le> p \<Longrightarrow> p \<le> 1000 \<Longrightarrow>
   page_action label k p = Inr [(label, Reading \<lparr>rc_kind = k, rc_page = p, rc_component = None\<rparr>)]"
  by (simp add: page_action_def mk_command_def)

lemma pagination_ok:
  assumes "1 \<le> page" and "page < 1000"
  shows "\<exists>acts. pagination k d page = Inr acts \<and> actions_ok acts"
  using assms
  by (auto simp: pagination_def shown_def page_action_ok actions_ok_def command_ok_def
      split: option.splits json.splits)

definition only_client_errors :: "client_error + 'a \<Rightarrow> bool" where
  "only_client_errors r \<longleftrightarrow>
     (case r of Inl (Raised e) \<Rightarrow> False | Inl (RateLimited (Some n)) \<Rightarrow> 0 \<le> n \<and> n < 10 ^ 9 | _ \<Rightarrow> True)"

lemma render_cases:
  assumes "command_ok c" and "rc_page c < 1000" and "rc_kind c \<noteq> Help"
  shows "render base c d = Inl ResponseInvalid \<or> (\<exists>m. render base c d = Inr m \<and> message_ok m)"
proof (cases "doc_items d")
  case (Inl e)
  then have "e = ResponseInvalid" by (auto simp: doc_items_def split: json.splits)
  with Inl assms(3) show ?thesis
    by (cases "rc_kind c") (simp_all add: render_summary_def render_health_def render_preflight_def
        render_incidents_def render_history_def render_list_def)
next
  case (Inr its)
  have page: "1 \<le> rc_page c" using assms(1) by (simp add: command_ok_def)
  have acts: "\<exists>acts. pagination k d (rc_page c) = Inr acts \<and> actions_ok acts" for k
    using pagination_ok[OF page assms(2)] .
  have four: "actions_ok [(a, fresh_command k), (b, fresh_command k'), (e, fresh_command k''),
      (f, fresh_command k''')]" for a b e f k k' k'' k'''
    by (simp add: actions_ok_def fresh_command_def command_ok_def)
  have listed: "\<exists>m. render_list base (t # ts) none_line f k d c = Inr m \<and> message_ok m"
    for t ts none_line f k
    using acts[of k] Inr lines_message_ok[of _ "t # ts"] by (auto simp: render_list_def)
  have health: "\<exists>m. render_health base d c = Inr m \<and> message_ok m"
  proof -
    obtain as where "pagination HealthK d (rc_page c) = Inr as" and "actions_ok as"
      using acts by blast
    then show ?thesis
      using Inr lines_message_ok[of as "''Dependency-aware health''"]
      by (simp add: render_health_def Let_def)
  qed
  have summary: "\<exists>m. render_summary base d = Inr m \<and> message_ok m"
    using Inr four lines_message_ok[of _ "''Fortify Lab summary''"] by (simp add: render_summary_def)
  show ?thesis
    using health summary listed assms(3)
    by (cases "rc_kind c") (simp_all add: render_preflight_def render_incidents_def render_history_def)
qed

lemma failure_message_ok:
  assumes "only_client_errors (Inl err)"
  shows "\<exists>m. failure_message err = Inr m \<and> message_ok m"
proof (cases "\<exists>n. err = RateLimited (Some n)")
  case True
  then obtain n where n: "err = RateLimited (Some n)" "0 \<le> n" "n < 10 ^ 9"
    using assms by (auto simp: only_client_errors_def)
  then have "length (emit_int n) \<le> 9"
    using emit_nat_length[of "nat n" 9] by (simp add: emit_int_def)
  with n show ?thesis
    by (simp add: failure_message_def mk_message_ok MAX_MESSAGE_def)
next
  case False
  then have "err \<in> {Unauthorized, RateLimited None, Unavailable, ResponseInvalid}"
    using assms by (cases err) (auto simp: only_client_errors_def split: option.splits)
  then show ?thesis
    by (auto simp: failure_message_def mk_message_ok MAX_MESSAGE_def)
qed

lemma help_message_ok: "\<exists>m. help_message = Inr m \<and> message_ok m"
  by (simp add: help_message_def mk_message_ok MAX_MESSAGE_def)


definition demo_reading :: "string \<Rightarrow> int \<Rightarrow> client_error + document" where
  "demo_reading resource page =
     (if resource = ''health''
      then Inr [(''observedAt'', JStr ''now''),
                (''items'', JList [JObj [(''id'', JStr ''ssc''), (''status'', JStr ''blocked''),
                                         (''displayName'', JStr ''SSC password: hunter2'')]]),
                (''pagination'', JObj [(''hasNext'', JBool True)])]
      else Inl Unavailable)"


text \<open>
  The last page cannot be shown when there is a next one: at page 1000 of a list whose document says
  that more follows, the service raises \<^verbatim>\<open>ValueError\<close> for its own paging button instead of answering.
\<close>

theorem last_page_is_refused:
  assumes "rc_kind c \<in> {HealthK, PreflightK, Incidents, History}" and "rc_page c = 1000"
    and "reading (kind_value (rc_kind c)) 1000 = Inr d" and "doc_items d = Inr its"
    and "map_of d ''pagination'' = Some (JObj p)" and "truthy (getd p ''hasNext'' JNull)"
  shows "read_service base reading c = raise PyValueError ''page is outside the supported range''"
proof -
  have "pagination k d 1000 = Inl (Raised (Exn PyValueError ''page is outside the supported range''))"
    for k
    using assms(5,6) by (simp add: pagination_def shown_def page_action_def mk_command_def)
  with assms(1-4) show ?thesis
    by (auto simp: read_service_def render_health_def render_preflight_def render_incidents_def
        render_history_def render_list_def failure_message_def)
qed

theorem last_page_is_refused_witness:
  "read_service ''https://m'' demo_reading \<lparr>rc_kind = HealthK, rc_page = 1000, rc_component = None\<rparr>
    = raise PyValueError ''page is outside the supported range''"
  by (rule last_page_is_refused) (simp add: demo_reading_def, simp, simp add: demo_reading_def,
      simp add: doc_items_def getd_def, simp, simp add: getd_def)

text \<open>
  The paging buttons of a filtered health report lead to the report of all components.
\<close>

lemma pagination_ignores_component:
  assumes "render_health base d c = Inr m" and "(label, Reading r) \<in> set (ms_actions m)"
  shows "rc_component r = None"
proof -
  have "rc_component r = None"
    if "pagination k d p = Inr acts" "(label, Reading r) \<in> set acts" for k p acts
    using that by (auto simp: pagination_def shown_def page_action_def mk_command_def
        split: option.splits json.splits sum.splits if_splits)
  with assms show ?thesis
    by (auto simp: render_health_def lines_message_def shown_def mk_message_def Let_def
        split: sum.splits if_splits)
qed

end
