(* ===== verification/Remote.thy ===== *)
theory Remote
  imports Engine Comms IsoText
begin

text \<open>
  \<^verbatim>\<open>manager/remote_actions.py\<close>: immutable plan snapshots, opaque callback tokens, and the service that
  turns them into typed calls of the authorization service and of the operation engine. The two SQLite
  tables are maps; the service shares the engine's approvals and operations. Random tokens, the hash,
  the clock, the state provider and the incident and automation ports are fields of \<open>remote_env\<close>; the
  n-th call of one of them has the outcome its function gives for n.
\<close>

section \<open>State\<close>

datatype callback_state = CbPending | CbExecuting | CbConsumed | CbExpired

record remote_callback =
  cb_state :: callback_state
  cb_actor :: string
  cb_session :: string
  cb_action :: string
  cb_reference :: string
  cb_expires :: instant

record snapshot =
  sn_id :: string
  sn_operation :: string
  sn_requested :: "string list"
  sn_components :: "string list"
  sn_dependencies :: "string list"
  sn_state :: "(string \<times> string) list"
  sn_timeout :: int
  sn_rollback :: string
  sn_recovery :: recovery
  sn_digest :: string
  sn_expires :: instant

record remote_env =
  re_engine :: eng_env
  re_auth :: auth_env
  re_clock :: "nat \<Rightarrow> py_datetime"
  re_token :: "nat \<Rightarrow> string"
  re_sha256 :: "string \<Rightarrow> string"
  re_ttl :: int
  re_state :: "nat \<Rightarrow> string list \<Rightarrow> (string \<times> string) list result"
  re_incident :: "(nat \<Rightarrow> string \<Rightarrow> string \<Rightarrow> unit result) option"
  re_automation :: "(nat \<Rightarrow> string \<Rightarrow> unit result) option"
  re_web :: string
  re_texts :: iso_texts

record remote_state =
  rm_plans :: "string \<rightharpoonup> string \<times> snapshot"
  rm_calls :: "string \<rightharpoonup> remote_callback"
  rm_engine :: eng_state
  rm_ticks :: nat
  rm_tokens :: nat
  rm_observed :: nat
  rm_ports :: nat

type_synonym 'a remote = "(remote_state, 'a) proc"

definition on_engine :: "'a eng \<Rightarrow> 'a remote" where
  "on_engine m = (\<lambda>s. case m (rm_engine s) of (r, e) \<Rightarrow> (r, s\<lparr>rm_engine := e\<rparr>))"

definition on_auth :: "(auth_state, 'a) proc \<Rightarrow> 'a remote" where
  "on_auth m = on_engine (\<lambda>e. case m (es_auth e) of (r, a) \<Rightarrow> (r, e\<lparr>es_auth := a\<rparr>))"

definition on_port :: "(nat \<Rightarrow> 'a result) \<Rightarrow> 'a remote" where
  "on_port f = (\<lambda>s. (f (rm_ports s), s\<lparr>rm_ports := Suc (rm_ports s)\<rparr>))"

section \<open>The store\<close>

definition REMOTE_ACTIONS :: "string list" where
  "REMOTE_ACTIONS = [''approve'', ''reject'', ''acknowledge'', ''retry'', ''cancel'', ''pause'']"

definition REMOTE_APPROVABLE_RISKS :: "risk list" where
  "REMOTE_APPROVABLE_RISKS = [Disruptive]"

definition WEB_ONLY_OPERATIONS :: "string list" where
  "WEB_ONLY_OPERATIONS = [''uninstall'', ''delete-data'', ''restore-database'', ''replace-secret'']"

definition save_plan :: "snapshot \<Rightarrow> unit remote" where
  "save_plan doc =
     (\<lambda>s. if rm_plans s (sn_id doc) \<noteq> None
          then (raise IntegrityError ''UNIQUE constraint failed: remote_plans.id'', s)
          else (Inr (), s\<lparr>rm_plans := (rm_plans s)(sn_id doc \<mapsto> (sn_digest doc, doc))\<rparr>))"

definition stored_plan :: "string \<Rightarrow> snapshot remote" where
  "stored_plan plan_id =
     (\<lambda>s. case rm_plans s plan_id of
            None \<Rightarrow> (raise RemoteActionError ''remote plan was not found'', s)
          | Some (_, doc) \<Rightarrow> (Inr doc, s))"

definition token_hash :: "remote_env \<Rightarrow> string \<Rightarrow> string result" where
  "token_hash env token =
     (if token = [] \<or> length token > 48 then raise RemoteActionError ''action is invalid or expired''
      else Inr (re_sha256 env token))"

definition insert_callback :: "string \<Rightarrow> remote_callback \<Rightarrow> unit remote" where
  "insert_callback h row =
     (\<lambda>s. if rm_calls s h \<noteq> None
          then (raise IntegrityError ''UNIQUE constraint failed: remote_callbacks.token_hash'', s)
          else (Inr (), s\<lparr>rm_calls := (rm_calls s)(h \<mapsto> row)\<rparr>))"

definition draw_token :: "remote_env \<Rightarrow> string remote" where
  "draw_token env = (\<lambda>s. (Inr (re_token env (rm_tokens s)), s\<lparr>rm_tokens := Suc (rm_tokens s)\<rparr>))"

definition issue :: "remote_env \<Rightarrow> string \<Rightarrow> string \<Rightarrow> identity \<Rightarrow> instant \<Rightarrow> action_command remote" where
  "issue env action reference idn expires =
     (if action \<notin> set REMOTE_ACTIONS then fail PyValueError ''unsupported remote action''
      else bindS (draw_token env) (\<lambda>token.
           bindS (lift (token_hash env token)) (\<lambda>h.
           thenS (insert_callback h
                    \<lparr>cb_state = CbPending, cb_actor = id_actor idn, cb_session = id_session idn,
                     cb_action = action, cb_reference = reference, cb_expires = expires\<rparr>)
             (ret (OpaqueAction token)))))"

text \<open>
  The row is read and moved under one lock, so that the conditional update finds the state that was
  read.
\<close>

definition begin_row ::
    "string \<Rightarrow> identity \<Rightarrow> instant \<Rightarrow> (string \<times> string) remote" where
  "begin_row h idn now =
     (\<lambda>s. case rm_calls s h of
            None \<Rightarrow> (raise RemoteActionError ''action is invalid or expired'', s)
          | Some row \<Rightarrow>
              if cb_actor row \<noteq> id_actor idn \<or> cb_session row \<noteq> id_session idn
              then (raise RemoteActionError ''action identity does not match'', s)
              else if cb_state row \<noteq> CbPending
              then (raise RemoteActionError ''action was already used'', s)
              else if now \<ge> cb_expires row
              then (raise RemoteActionError ''action is invalid or expired'',
                    s\<lparr>rm_calls := (rm_calls s)(h \<mapsto> row\<lparr>cb_state := CbExpired\<rparr>)\<rparr>)
              else (Inr (cb_action row, cb_reference row),
                    s\<lparr>rm_calls := (rm_calls s)(h \<mapsto> row\<lparr>cb_state := CbExecuting\<rparr>)\<rparr>))"

definition begin_action ::
    "remote_env \<Rightarrow> string \<Rightarrow> identity \<Rightarrow> instant \<Rightarrow> (string \<times> string) remote" where
  "begin_action env token idn now =
     bindS (lift (token_hash env token)) (\<lambda>h. begin_row h idn now)"

definition finish_row :: "string \<Rightarrow> bool \<Rightarrow> remote_state \<Rightarrow> remote_state" where
  "finish_row h again s =
     (case rm_calls s h of
        None \<Rightarrow> s
      | Some row \<Rightarrow>
          if cb_state row \<noteq> CbExecuting then s
          else s\<lparr>rm_calls := (rm_calls s)
                   (h \<mapsto> row\<lparr>cb_state := (if again then CbPending else CbConsumed)\<rparr>)\<rparr>)"

section \<open>Plans\<close>

definition remote_now :: "remote_env \<Rightarrow> instant remote" where
  "remote_now env =
     (\<lambda>s. (aware ''remote action clock must be timezone-aware'' (re_clock env (rm_ticks s)),
           s\<lparr>rm_ticks := Suc (rm_ticks s)\<rparr>))"

definition observe_targets :: "remote_env \<Rightarrow> string list \<Rightarrow> (string \<times> string) list remote" where
  "observe_targets env targets =
     (\<lambda>s. (re_state env (rm_observed s) targets, s\<lparr>rm_observed := Suc (rm_observed s)\<rparr>))"

fun class_text :: "recovery \<Rightarrow> string" where
  "class_text Reversible = ''reversible''"
| "class_text Compensating = ''compensating-action''"
| "class_text RestoreRequired = ''restore-required''"
| "class_text Irreversible = ''irreversible''"

definition rollback_class :: "plan_step list \<Rightarrow> recovery result" where
  "rollback_class steps =
     (case map ps_recovery steps of
        [] \<Rightarrow> raise PyValueError ''max() iterable argument is empty''
      | r # rs \<Rightarrow> Inr (foldl (\<lambda>m x. if precedence m < precedence x then x else m) r rs))"

definition stronger_confirmation :: "op_plan \<Rightarrow> risk \<Rightarrow> bool" where
  "stronger_confirmation p risk \<longleftrightarrow>
     risk \<notin> set REMOTE_APPROVABLE_RISKS \<or> pl_operation p \<in> set WEB_ONLY_OPERATIONS
     \<or> pl_operation p = ''upgrade''"

definition plan_snapshot ::
    "string \<Rightarrow> string list \<Rightarrow> plan_doc \<Rightarrow> (string \<times> string) list \<Rightarrow> recovery \<Rightarrow> approval
       \<Rightarrow> string \<Rightarrow> snapshot" where
  "plan_snapshot operation targets resolved current rollback ap digest =
     \<lparr>sn_id = ap_id ap, sn_operation = operation, sn_requested = targets,
      sn_components = pd_components resolved,
      sn_dependencies = filter (\<lambda>c. c \<notin> set (pd_requested resolved)) (pd_components resolved),
      sn_state = current, sn_timeout = sum_list (map ps_timeout (pd_steps resolved)),
      sn_rollback = class_text rollback
        @ ''; cancellation is best-effort and completed mutations are retained as recovery evidence.'',
      sn_recovery = rollback, sn_digest = digest, sn_expires = ap_expires ap\<rparr>"

definition plan_text :: "remote_env \<Rightarrow> snapshot \<Rightarrow> string" where
  "plan_text env sn = join [CHR 0x0A]
     [''Lifecycle plan: '' @ sn_operation sn @ '' '' @ join '', '' (sn_requested sn),
      ''Impact: '' @ (if sn_dependencies sn = [] then ''requested components only''
                      else join '', '' (sn_dependencies sn)),
      ''Timeout: '' @ emit_int (sn_timeout sn) @ '' seconds'',
      ''Rollback boundary: '' @ sn_rollback sn,
      ''Plan digest: '' @ take 12 (tl (dropWhile (\<lambda>c. c \<noteq> CHR '':'') (sn_digest sn))),
      ''Expires: '' @ format_z (re_texts env) (sn_expires sn),
      ''Review in Web UI: '' @ re_web env @ ''/operations/plans/'' @ sn_id sn]"

definition offer_plan :: "remote_env \<Rightarrow> snapshot \<Rightarrow> identity \<Rightarrow> message remote" where
  "offer_plan env sn idn =
     thenS (save_plan sn)
    (bindS (issue env ''approve'' (sn_id sn) idn (sn_expires sn)) (\<lambda>yes.
     bindS (issue env ''reject'' (sn_id sn) idn (sn_expires sn)) (\<lambda>no.
       lift (mk_message (take MAX_MESSAGE (plan_text env sn))
               [(''Approve'', yes), (''Reject'', no)] (Some (''plan:'' @ sn_id sn))))))"

definition review_plan ::
    "remote_env \<Rightarrow> string list \<Rightarrow> plan_doc \<Rightarrow> op_plan \<Rightarrow> identity \<Rightarrow> message remote" where
  "review_plan env targets resolved plan idn =
     bindS (on_auth (request (re_auth env) plan idn)) (\<lambda>ap.
     bindS (lift (rollback_class (pd_steps resolved))) (\<lambda>rollback.
       offer_plan env (plan_snapshot (pl_operation plan) targets resolved (pl_state plan) rollback ap
         (plan_digest (ae_sha256 (re_auth env)) plan)) idn))"

definition lifecycle_plan ::
    "remote_env \<Rightarrow> string \<Rightarrow> string list \<Rightarrow> identity \<Rightarrow> message remote" where
  "lifecycle_plan env operation targets idn =
     bindS (lift (plan_request (ee_plan (re_engine env)) operation targets)) (\<lambda>resolved.
     bindS (observe_targets env (pd_components resolved)) (\<lambda>current.
       let plan = \<lparr>pl_operation = operation, pl_targets = pd_components resolved, pl_state = current\<rparr>
       in bindS (lift (plan_risk plan)) (\<lambda>risk.
            if stronger_confirmation plan risk
            then fail RemoteActionError ''this operation requires stronger confirmation in the Web UI''
            else review_plan env targets resolved plan idn)))"

text \<open>\<^verbatim>\<open>OperationEngine.lab_plan\<close>, as far as a remote plan reads it.\<close>

definition lab_plan :: "eng_env \<Rightarrow> string \<Rightarrow> string option \<Rightarrow> plan_doc eng" where
  "lab_plan env action component =
     thenS (require_action_ready env action)
       (bindS (lift (lab_steps (ee_plan env) action component)) (\<lambda>(operation, requested, steps).
          ret (describe_plan operation requested steps)))"

definition remote_lab_plan ::
    "remote_env \<Rightarrow> string \<Rightarrow> string option \<Rightarrow> identity \<Rightarrow> message remote" where
  "remote_lab_plan env action component idn =
     bindS (on_engine (lab_plan (re_engine env) action component)) (\<lambda>plan.
       lifecycle_plan env (pd_operation plan) (pd_components plan) idn)"

section \<open>Recovery controls\<close>

definition labelled ::
    "remote_env \<Rightarrow> string \<Rightarrow> string \<Rightarrow> string \<Rightarrow> identity \<Rightarrow> instant
       \<Rightarrow> (string \<times> action_command) list remote" where
  "labelled env label action reference idn expires =
     bindS (issue env action reference idn expires) (\<lambda>a. ret [(label, a)])"

definition operation_control ::
    "remote_env \<Rightarrow> string \<Rightarrow> identity \<Rightarrow> instant \<Rightarrow> (string \<times> action_command) list remote" where
  "operation_control env k idn expires =
     bindS (on_engine (store_get k)) (\<lambda>d.
       if retryable (od_state d) \<and> map_of RISK_BY_OPERATION (od_operation d) = Some Routine
       then labelled env ''Safe retry'' ''retry'' k idn expires
       else if od_state d \<notin> set TERMINAL_STATES
       then labelled env ''Cancel'' ''cancel'' k idn expires
       else ret [])"

definition recovery_actions ::
    "remote_env \<Rightarrow> string option \<Rightarrow> string option \<Rightarrow> identity \<Rightarrow> (string \<times> action_command) list remote"
    where
  "recovery_actions env incident operation idn =
     bindS (remote_now env) (\<lambda>now.
       let expires = now + re_ttl env
       in bindS (case incident of
                   Some (c # cs) \<Rightarrow> labelled env ''Acknowledge'' ''acknowledge'' (c # cs) idn expires
                 | _ \<Rightarrow> ret []) (\<lambda>a.
          bindS (case operation of
                   Some (c # cs) \<Rightarrow> operation_control env (c # cs) idn expires
                 | _ \<Rightarrow> ret []) (\<lambda>b.
          bindS (if re_automation env \<noteq> None
                 then labelled env ''Pause automation'' ''pause'' ''automation'' idn expires
                 else ret []) (\<lambda>c. ret (a @ b @ c)))))"

definition text_field :: "document \<Rightarrow> string \<Rightarrow> string option" where
  "text_field d k = (case map_of d k of Some (JStr s) \<Rightarrow> Some s | _ \<Rightarrow> None)"

definition recovery_notification ::
    "remote_env \<Rightarrow> message \<Rightarrow> document \<Rightarrow> identity \<Rightarrow> message remote" where
  "recovery_notification env m event idn =
     bindS (recovery_actions env (text_field event ''incidentId'') (text_field event ''operationId'') idn)
       (\<lambda>actions. lift (mk_message (ms_text m) actions (ms_replace m)))"

section \<open>Executing\<close>

definition two_lines :: "remote_env \<Rightarrow> string \<Rightarrow> string \<Rightarrow> string" where
  "two_lines env line path = line @ CHR 0x0A # ''Open Web UI: '' @ re_web env @ path"

definition execute_approve :: "remote_env \<Rightarrow> string \<Rightarrow> identity \<Rightarrow> string remote" where
  "execute_approve env reference idn =
     bindS (stored_plan reference) (\<lambda>plan.
     bindS (on_auth (store_approval reference)) (\<lambda>found.
     bindS (if ap_state found = Pending then on_auth (approve (re_auth env) reference idn None)
            else if ap_state found \<noteq> Approved
            then fail RemoteActionError ''approval is no longer usable''
            else ret found) (\<lambda>ap.
     bindS (on_engine (submit_async (re_engine env) (sn_operation plan) (sn_requested plan)
              (id_actor idn) None (Some idn) (Some (ap_id ap)))) (\<lambda>d.
       ret (two_lines env (''Operation queued: '' @ od_id d) (''/operations/'' @ od_id d))))))"

definition run_action :: "remote_env \<Rightarrow> string \<Rightarrow> string \<Rightarrow> identity \<Rightarrow> string remote" where
  "run_action env action reference idn =
     (if action = ''approve'' then execute_approve env reference idn
      else if action = ''reject''
      then thenS (on_auth (revoke (re_auth env) reference idn))
             (ret (two_lines env ''Plan rejected.'' ''/operations''))
      else if action = ''retry''
      then bindS (on_engine (retry_async (re_engine env) reference (id_actor idn) (Some idn) None))
             (\<lambda>d. ret (two_lines env (''Retry queued: '' @ od_id d) (''/operations/'' @ od_id d)))
      else if action = ''cancel''
      then bindS (on_engine (cancel (re_engine env) reference (id_actor idn) (Some idn)))
             (\<lambda>d. ret (two_lines env (''Cancellation requested: '' @ od_id d) (''/operations/'' @ od_id d)))
      else if action = ''acknowledge'' \<and> re_incident env \<noteq> None
      then thenS (on_port (\<lambda>n. the (re_incident env) n reference (id_actor idn)))
             (ret (two_lines env ''Incident acknowledged.'' (''/incidents/'' @ reference)))
      else if action = ''pause'' \<and> re_automation env \<noteq> None
      then thenS (on_port (\<lambda>n. the (re_automation env) n (id_actor idn)))
             (ret (two_lines env ''Automation paused.'' ''/automation''))
      else fail RemoteActionError ''action is not available'')"

definition unavailable_error :: "exn \<Rightarrow> bool" where
  "unavailable_error e \<longleftrightarrow> catches [PyOSError, PyTimeoutError, RemoteActionUnavailable] e"

definition reported :: "exn \<Rightarrow> exn" where
  "reported e =
     (if unavailable_error e
      then Exn RemoteActionUnavailable ''manager is unavailable; authoritative state was not changed''
      else if catches [AuthorizationError, PyValueError, PyRuntimeError] e
      then Exn RemoteActionError (exn_msg e)
      else e)"

text \<open>The \<^verbatim>\<open>try\<close> of \<^verbatim>\<open>execute\<close>: its handlers choose what is raised, its \<^verbatim>\<open>finally\<close> settles the token.\<close>

definition settled :: "string \<Rightarrow> 'a remote \<Rightarrow> 'a remote" where
  "settled h m =
     (\<lambda>s. case m s of
            (Inr x, s') \<Rightarrow> (Inr x, finish_row h False s')
          | (Inl e, s') \<Rightarrow> (Inl (reported e), finish_row h (unavailable_error e) s'))"

definition execute_action :: "remote_env \<Rightarrow> string \<Rightarrow> identity \<Rightarrow> message remote" where
  "execute_action env token idn =
     bindS (remote_now env) (\<lambda>now.
     bindS (begin_action env token idn now) (\<lambda>(action, reference).
     bindS (lift (token_hash env token)) (\<lambda>h.
     bindS (settled h (run_action env action reference idn)) (\<lambda>body.
       lift (mk_message (take MAX_MESSAGE body) [] None)))))"

section \<open>What the calls leave alone\<close>

text \<open>\<open>same_desk\<close>: the plans and the callbacks are as they were.\<close>

definition same_desk :: "remote_state \<Rightarrow> remote_state \<Rightarrow> bool" where
  "same_desk s s' \<longleftrightarrow> rm_plans s' = rm_plans s \<and> rm_calls s' = rm_calls s"

interpretation desk: evolution same_desk
  by unfold_locales (auto simp: same_desk_def)

lemma desk_calls:
  "evolves same_desk (on_engine m)" "evolves same_desk (on_auth m')" "evolves same_desk (on_port f)"
  "evolves same_desk (stored_plan k)" "evolves same_desk (remote_now env)"
  "evolves same_desk (observe_targets env ts)" "evolves same_desk (draw_token env)"
  by (auto simp: evolves_def same_desk_def on_engine_def on_auth_def on_port_def stored_plan_def
      remote_now_def observe_targets_def draw_token_def split: prod.splits option.splits)

lemmas desk_rules = desk.ev_rules desk_calls

lemma desk_execute_approve: "evolves same_desk (execute_approve env k idn)"
  unfolding execute_approve_def by (intro desk_rules)

lemma desk_run_action: "evolves same_desk (run_action env action k idn)"
  unfolding run_action_def by (intro desk_rules desk_execute_approve)

lemma desk_lab_plan: "evolves same_desk (on_engine (lab_plan env action c))"
  by (rule desk_calls)

text \<open>
  \<open>desk_moves\<close>: snapshots are kept, and every callback row is kept up to its state, which changes only
  from pending or executing.
\<close>

definition row_moves :: "remote_callback \<Rightarrow> remote_callback \<Rightarrow> bool" where
  "row_moves r r' \<longleftrightarrow> r' = r \<or> cb_state r \<in> {CbPending, CbExecuting} \<and> (\<exists>st. r' = r\<lparr>cb_state := st\<rparr>)"

definition desk_moves :: "remote_state \<Rightarrow> remote_state \<Rightarrow> bool" where
  "desk_moves s s' \<longleftrightarrow>
     (\<forall>k p. rm_plans s k = Some p \<longrightarrow> rm_plans s' k = Some p)
   \<and> (\<forall>h r. rm_calls s h = Some r \<longrightarrow> (\<exists>r'. rm_calls s' h = Some r' \<and> row_moves r r'))"

lemma row_moves_trans: "row_moves r r' \<Longrightarrow> row_moves r' r'' \<Longrightarrow> row_moves r r''"
  unfolding row_moves_def by auto

lemma row_moves_refl: "row_moves r r"
  by (simp add: row_moves_def)

interpretation moves: evolution desk_moves
proof
  show "desk_moves s s" for s by (simp add: desk_moves_def row_moves_refl)
  show "desk_moves s u" if "desk_moves s t" "desk_moves t u" for s t u
    unfolding desk_moves_def
  proof (intro conjI allI impI)
    show "rm_plans u k = Some p" if "rm_plans s k = Some p" for k p
      using that \<open>desk_moves s t\<close> \<open>desk_moves t u\<close> unfolding desk_moves_def by blast
    show "\<exists>r'. rm_calls u h = Some r' \<and> row_moves r r'" if row: "rm_calls s h = Some r" for h r
    proof -
      obtain r1 where r1: "rm_calls t h = Some r1" "row_moves r r1"
        using row \<open>desk_moves s t\<close> unfolding desk_moves_def by blast
      then obtain r2 where "rm_calls u h = Some r2" "row_moves r1 r2"
        using \<open>desk_moves t u\<close> unfolding desk_moves_def by blast
      with r1 row_moves_trans show ?thesis by blast
    qed
  qed
qed

lemma same_desk_moves: "evolves same_desk m \<Longrightarrow> evolves desk_moves m"
  by (auto simp: evolves_def same_desk_def desk_moves_def row_moves_def)

lemma moves_tables:
  "evolves desk_moves (save_plan sn)" "evolves desk_moves (insert_callback h row)"
  "evolves desk_moves (begin_row h idn now)"
  by (auto simp: evolves_def desk_moves_def row_moves_def save_plan_def insert_callback_def
      begin_row_def split: option.splits)

lemma moves_finish: "desk_moves s (finish_row h again s)"
  by (auto simp: desk_moves_def row_moves_def finish_row_def split: option.splits)

lemmas moves_rules = moves.ev_rules moves_tables desk_calls[THEN same_desk_moves]

lemma settled_state: "\<exists>again. snd (settled h m s) = finish_row h again (snd (m s))"
  by (cases "m s"; cases "fst (m s)") (auto simp: settled_def)

lemma moves_settled:
  assumes "evolves desk_moves m"
  shows "evolves desk_moves (settled h m)"
  unfolding evolves_def
proof
  fix s
  obtain again where "snd (settled h m s) = finish_row h again (snd (m s))"
    using settled_state by blast
  moreover have "desk_moves s (snd (m s))" using assms by (simp add: evolves_def)
  ultimately show "desk_moves s (snd (settled h m s))"
    using moves.R_trans[OF _ moves_finish] by simp
qed

lemma moves_issue: "evolves desk_moves (issue env action k idn expires)"
  unfolding issue_def by (intro moves_rules)

lemma moves_lifecycle_plan: "evolves desk_moves (lifecycle_plan env op targets idn)"
  unfolding lifecycle_plan_def review_plan_def offer_plan_def Let_def by (intro moves_rules moves_issue)

lemma moves_remote_lab_plan: "evolves desk_moves (remote_lab_plan env action c idn)"
  unfolding remote_lab_plan_def by (intro moves_rules moves_lifecycle_plan)

lemma moves_labelled: "evolves desk_moves (labelled env label action k idn expires)"
  unfolding labelled_def by (intro moves_rules moves_issue)

lemma moves_operation_control: "evolves desk_moves (operation_control env k idn expires)"
  unfolding operation_control_def by (intro moves_rules moves_labelled)

lemma moves_control_option:
  "(\<And>k. evolves desk_moves (f k)) \<Longrightarrow>
   evolves desk_moves (case x of Some (c # cs) \<Rightarrow> f (c # cs) | _ \<Rightarrow> ret [])"
  by (auto intro: moves_rules split: option.splits list.splits)

lemma moves_recovery_actions: "evolves desk_moves (recovery_actions env i k idn)"
  unfolding recovery_actions_def Let_def
  by (intro moves_rules moves_labelled moves_operation_control moves_control_option)

lemma moves_recovery_notification: "evolves desk_moves (recovery_notification env m ev idn)"
  unfolding recovery_notification_def by (intro moves_rules moves_recovery_actions)

lemma moves_execute: "evolves desk_moves (execute_action env token idn)"
  unfolding execute_action_def begin_action_def
  by (auto intro!: moves_rules moves_settled desk_run_action[THEN same_desk_moves] split: prod.splits)

section \<open>Pressing a button\<close>

definition usable :: "remote_callback \<Rightarrow> identity \<Rightarrow> bool" where
  "usable row idn \<longleftrightarrow> cb_actor row = id_actor idn \<and> cb_session row = id_session idn
     \<and> cb_state row = CbPending"

definition begun :: "string \<Rightarrow> remote_callback \<Rightarrow> remote_state \<Rightarrow> remote_state" where
  "begun h row s = s\<lparr>rm_ticks := Suc (rm_ticks s),
     rm_calls := (rm_calls s)(h \<mapsto> row\<lparr>cb_state := CbExecuting\<rparr>)\<rparr>"

lemma run_action_nonempty: "run_action env action k idn s = (Inr body, t) \<Longrightarrow> body \<noteq> []"
  by (auto simp: run_action_def execute_approve_def two_lines_def bindS_Inr_iff split: if_splits)

lemma execute_usable:
  assumes "token_hash env token = Inr h" and "rm_calls s h = Some row"
    and "re_clock env (rm_ticks s) = Aware now" and "usable row idn" and "now < cb_expires row"
    and "run_action env (cb_action row) (cb_reference row) idn (begun h row s) = (r, t)"
  shows "execute_action env token idn s =
    (case r of
       Inr body \<Rightarrow> (Inr \<lparr>ms_text = take MAX_MESSAGE body, ms_actions = [], ms_replace = None\<rparr>,
                    finish_row h False t)
     | Inl e \<Rightarrow> (Inl (reported e), finish_row h (unavailable_error e) t))"
proof -
  have "begin_action env token idn now (s\<lparr>rm_ticks := Suc (rm_ticks s)\<rparr>) =
      (Inr (cb_action row, cb_reference row), begun h row s)"
    using assms(1,2,4,5) by (simp add: begin_action_def begin_row_def usable_def begun_def)
  moreover have "remote_now env s = (Inr now, s\<lparr>rm_ticks := Suc (rm_ticks s)\<rparr>)"
    using assms(3) by (simp add: remote_now_def)
  moreover have "mk_message (take MAX_MESSAGE body) [] None
      = Inr \<lparr>ms_text = take MAX_MESSAGE body, ms_actions = [], ms_replace = None\<rparr>"
    if "r = Inr body" for body
    using that assms(6) run_action_nonempty by (auto simp: mk_message_def MAX_MESSAGE_def)
  ultimately show ?thesis
    using assms(1,6)
    by (cases r) (simp_all add: execute_action_def bindS_def settled_def)
qed

lemma execute_refused:
  assumes "token_hash env token = Inr h" and "rm_calls s h = Some row"
    and "re_clock env (rm_ticks s) = Aware now" and "\<not> (usable row idn \<and> now < cb_expires row)"
  shows "\<exists>m. execute_action env token idn s =
    (raise RemoteActionError m, s\<lparr>rm_ticks := Suc (rm_ticks s),
       rm_calls := (if usable row idn then (rm_calls s)(h \<mapsto> row\<lparr>cb_state := CbExpired\<rparr>)
                    else rm_calls s)\<rparr>)"
proof -
  let ?s = "s\<lparr>rm_ticks := Suc (rm_ticks s)\<rparr>"
  have same: "t\<lparr>rm_calls := rm_calls t\<rparr> = t" for t :: remote_state by simp
  have "\<exists>m. begin_row h idn now ?s = (raise RemoteActionError m, ?s\<lparr>rm_calls :=
      (if usable row idn then (rm_calls s)(h \<mapsto> row\<lparr>cb_state := CbExpired\<rparr>) else rm_calls s)\<rparr>)"
  proof (cases "usable row idn")
    case True
    with assms(2,4) show ?thesis by (simp add: begin_row_def usable_def)
  next
    case False
    with assms(2) same[of ?s] show ?thesis by (auto simp: begin_row_def usable_def)
  qed
  then obtain m where "begin_row h idn now ?s = (raise RemoteActionError m, ?s\<lparr>rm_calls :=
      (if usable row idn then (rm_calls s)(h \<mapsto> row\<lparr>cb_state := CbExpired\<rparr>) else rm_calls s)\<rparr>)"
    by blast
  moreover have "remote_now env s = (Inr now, ?s)" using assms(3) by (simp add: remote_now_def)
  ultimately show ?thesis
    using assms(1) by (simp add: execute_action_def begin_action_def)
qed

lemma finish_begun:
  assumes "rm_calls t = rm_calls (begun h row s)"
  shows "rm_calls (finish_row h again t) =
    (rm_calls s)(h \<mapsto> row\<lparr>cb_state := (if again then CbPending else CbConsumed)\<rparr>)"
  using assms by (auto simp: finish_row_def begun_def)

lemma reported_unavailable: "exn_cls (reported e) = RemoteActionUnavailable \<longleftrightarrow> unavailable_error e"
  by (auto simp: reported_def unavailable_error_def catches_def is_subclass_def)

lemma execute_callbacks:
  assumes "token_hash env token = Inr h" and "rm_calls s h = Some row"
    and "re_clock env (rm_ticks s) = Aware now" and "usable row idn" and "now < cb_expires row"
    and "execute_action env token idn s = (r, s')"
  shows "rm_plans s' = rm_plans s \<and> rm_calls s' = (rm_calls s)(h \<mapsto> row\<lparr>cb_state :=
     (case r of Inr _ \<Rightarrow> CbConsumed
      | Inl e \<Rightarrow> if exn_cls e = RemoteActionUnavailable then CbPending else CbConsumed)\<rparr>)"
proof -
  obtain r0 t where run: "run_action env (cb_action row) (cb_reference row) idn (begun h row s) = (r0, t)"
    by (cases "run_action env (cb_action row) (cb_reference row) idn (begun h row s)") blast
  then have "same_desk (begun h row s) t" by (rule evolvesD[OF desk_run_action])
  then have t: "rm_calls t = rm_calls (begun h row s)" "rm_plans t = rm_plans s"
    by (simp_all add: same_desk_def begun_def)
  have "rm_plans (finish_row h again t) = rm_plans t" for again
    by (simp add: finish_row_def split: option.splits)
  then show ?thesis
    using execute_usable[OF assms(1-5) run] assms(6) finish_begun[OF t(1)] t(2)
    by (cases r0) (auto simp: reported_unavailable)
qed

lemma finish_ports: "rm_ports (finish_row h again t) = rm_ports t" "rm_engine (finish_row h again t) = rm_engine t"
  by (simp_all add: finish_row_def split: option.splits)

text \<open>
  What pressing a button does to its callback, on every path. A button that is not pending, belongs to
  another actor or session, or has expired is refused before anything is done: neither the engine nor a
  port is called, and the row stays as it is, or becomes expired. Otherwise the action runs, and
  the row is consumed when it succeeds or fails for good, and pending again exactly when the failure is
  reported as the manager being unavailable. No other row and no snapshot changes.
\<close>

theorem press_settles_callback:
  assumes "execute_action env token idn s = (r, s')" and "token_hash env token = Inr h"
    and "rm_calls s h = Some row" and "re_clock env (rm_ticks s) = Aware now"
  shows "rm_plans s' = rm_plans s
    \<and> (if usable row idn \<and> now < cb_expires row
       then rm_calls s' = (rm_calls s)(h \<mapsto> row\<lparr>cb_state :=
              (case r of Inr _ \<Rightarrow> CbConsumed
               | Inl e \<Rightarrow> if exn_cls e = RemoteActionUnavailable then CbPending else CbConsumed)\<rparr>)
       else (\<exists>m. r = raise RemoteActionError m) \<and> rm_engine s' = rm_engine s
          \<and> rm_ports s' = rm_ports s
          \<and> rm_calls s' = (if usable row idn then (rm_calls s)(h \<mapsto> row\<lparr>cb_state := CbExpired\<rparr>)
                           else rm_calls s))"
proof (cases "usable row idn \<and> now < cb_expires row")
  case True
  with execute_callbacks[OF assms(2-4) _ _ assms(1)] show ?thesis by simp
next
  case False
  from execute_refused[OF assms(2-4) False] assms(1) False show ?thesis by auto
qed

section \<open>Histories\<close>

text \<open>
  The calls of the service, and what the rest of the manager does to the engine's state in between
  (workers, the Web UI, the command line, other approvals).
\<close>

datatype remote_event =
    PlanOperation string "string list" identity
  | PlanLab string "string option" identity
  | Notify message document identity
  | Press string identity
  | Elsewhere "eng_state \<Rightarrow> eng_state"

fun remote_step :: "remote_env \<Rightarrow> remote_event \<Rightarrow> remote_state \<Rightarrow> remote_state" where
  "remote_step env (PlanOperation op ts idn) s = snd (lifecycle_plan env op ts idn s)"
| "remote_step env (PlanLab action c idn) s = snd (remote_lab_plan env action c idn s)"
| "remote_step env (Notify m ev idn) s = snd (recovery_notification env m ev idn s)"
| "remote_step env (Press token idn) s = snd (execute_action env token idn s)"
| "remote_step env (Elsewhere f) s = s\<lparr>rm_engine := f (rm_engine s)\<rparr>"

lemma remote_step_moves: "desk_moves s (remote_step env e s)"
proof (cases e)
  case (Elsewhere f)
  then show ?thesis by (simp add: desk_moves_def row_moves_refl)
qed (simp_all add: evolves_def[symmetric] moves_lifecycle_plan[unfolded evolves_def]
    moves_remote_lab_plan[unfolded evolves_def] moves_recovery_notification[unfolded evolves_def]
    moves_execute[unfolded evolves_def])

fun carries_out :: "remote_env \<Rightarrow> remote_event \<Rightarrow> remote_state \<Rightarrow> string \<Rightarrow> bool" where
  "carries_out env (Press token idn) s h \<longleftrightarrow>
     token_hash env token = Inr h \<and> \<not> isl (fst (execute_action env token idn s))"
| "carries_out env _ s h \<longleftrightarrow> False"

definition closed_callback :: "remote_state \<Rightarrow> string \<Rightarrow> bool" where
  "closed_callback s h \<longleftrightarrow>
     (case rm_calls s h of None \<Rightarrow> False | Some row \<Rightarrow> cb_state row \<in> {CbConsumed, CbExpired})"

lemma execute_Inr:
  assumes "execute_action env token idn s = (Inr m, s')"
  obtains h row now where "token_hash env token = Inr h" and "rm_calls s h = Some row"
    and "re_clock env (rm_ticks s) = Aware now" and "usable row idn" and "now < cb_expires row"
proof -
  obtain now where now: "re_clock env (rm_ticks s) = Aware now"
    using assms by (cases "re_clock env (rm_ticks s)")
      (auto simp: execute_action_def remote_now_def aware_def)
  obtain h where h: "token_hash env token = Inr h"
    using assms now by (cases "token_hash env token")
      (auto simp: execute_action_def remote_now_def begin_action_def)
  obtain row where row: "rm_calls s h = Some row"
    using assms now h by (cases "rm_calls s h")
      (auto simp: execute_action_def remote_now_def begin_action_def begin_row_def bindS_def)
  have "usable row idn \<and> now < cb_expires row"
    using execute_refused[OF h row now, of idn] assms by auto
  with h row now that show thesis by blast
qed

interpretation buttons: single_use_ledger "remote_step env" "\<lambda>_. True" "carries_out env" closed_callback
proof
  fix e s h
  show "closed_callback (remote_step env e s) h" if "carries_out env e s h"
  proof -
    from that obtain token idn where e: "e = Press token idn" and h: "token_hash env token = Inr h"
      and ok: "\<not> isl (fst (execute_action env token idn s))"
      by (cases "(env, e, s, h)" rule: carries_out.cases) auto
    then obtain m s' where run: "execute_action env token idn s = (Inr m, s')"
      by (metis prod.collapse sum.collapse(2))
    obtain h' row now where "token_hash env token = Inr h'" "rm_calls s h' = Some row"
      "re_clock env (rm_ticks s) = Aware now" "usable row idn" "now < cb_expires row"
      using execute_Inr[OF run] .
    from execute_callbacks[OF this run] h \<open>token_hash env token = Inr h'\<close> run e
    show ?thesis by (simp add: closed_callback_def)
  qed
  show closed: "closed_callback (remote_step env e s) h" if shut: "closed_callback s h"
  proof -
    obtain row where row: "rm_calls s h = Some row" "cb_state row \<in> {CbConsumed, CbExpired}"
      using shut by (auto simp: closed_callback_def split: option.splits)
    moreover obtain row' where "rm_calls (remote_step env e s) h = Some row'" "row_moves row row'"
      using remote_step_moves[of s env e] row(1) unfolding desk_moves_def by blast
    ultimately show ?thesis by (auto simp: closed_callback_def row_moves_def)
  qed
  show "\<not> carries_out env e s h" if "closed_callback s h"
  proof
    assume "carries_out env e s h"
    then obtain token idn where h: "token_hash env token = Inr h"
      and ok: "\<not> isl (fst (execute_action env token idn s))"
      by (cases "(env, e, s, h)" rule: carries_out.cases) auto
    then obtain m s' where run: "execute_action env token idn s = (Inr m, s')"
      by (metis prod.collapse sum.collapse(2))
    obtain h' row now where "token_hash env token = Inr h'" "rm_calls s h' = Some row"
      "re_clock env (rm_ticks s) = Aware now" "usable row idn" "now < cb_expires row"
      using execute_Inr[OF run] .
    with h that show False by (simp add: closed_callback_def usable_def)
  qed
qed

text \<open>
  C28. A button is carried out at most once. Over any history of plans, notifications and presses, with
  anything happening in the engine in between, presses whose token has the same hash succeed at most
  once, and after a success that row is closed for the rest of the history.
\<close>

theorem button_carried_out_once:
  "spend_count (remote_step env) (carries_out env) es s h
     + (if closed_callback s h then 1 else 0) \<le> 1
   \<and> (if spend_count (remote_step env) (carries_out env) es s h = 1
      then closed_callback (run_events (remote_step env) es s) h else True)"
proof -
  have legal: "list_all (\<lambda>_. True) es" by (simp add: list_all_iff)
  show ?thesis
    using buttons.spent_at_most_once[OF legal, of env s h] buttons.burnt_count[OF legal, of s h env]
      buttons.spent_then_burnt[OF legal, of env s h] by simp
qed

section \<open>Approvals under the engine's calls\<close>

text \<open>\<open>tame\<close>: the approval table stays well formed and every approval keeps what it is bound to.\<close>

definition tame :: "auth_state \<Rightarrow> auth_state \<Rightarrow> bool" where
  "tame a a' \<longleftrightarrow> (table_ok a \<longrightarrow> table_ok a') \<and> (\<forall>k b. bound k b a \<longrightarrow> bound k b a')"

definition tame_engine :: "eng_state \<Rightarrow> eng_state \<Rightarrow> bool" where
  "tame_engine e e' \<longleftrightarrow> tame (es_auth e) (es_auth e')"

lemma tame_refl: "tame a a"
  by (simp add: tame_def)

interpretation tamed: evolution tame_engine
  by unfold_locales (auto simp: tame_engine_def tame_def)

lemma tame_calls: "tame a (run_call env c a)"
  using run_call_ok bound_run_call by (auto simp: tame_def)

lemma tame_auth:
  "tame a (snd (request env plan idn a))" "tame a (snd (approve env k idn conf a))"
  "tame a (snd (revoke env k idn a))" "tame a (snd (authorize env plan idn ao provider a))"
  using tame_calls[of a env "CRequest plan idn"] tame_calls[of a env "CApprove k idn conf"]
    tame_calls[of a env "CRevoke k idn"] tame_calls[of a env "CAuthorize plan idn ao provider"]
  by simp_all

lemma tame_silent:
  "evolves tame_engine (tick env)" "evolves tame_engine (new_id env)"
  "evolves tame_engine (store_get k)" "evolves tame_engine (observe_state env ts)"
  "evolves tame_engine (record_event k ev)" "evolves tame_engine (store_update d)"
  "evolves tame_engine (start_worker d sts)"
  by (auto simp: evolves_def tame_engine_def tame_refl tick_def new_id_def store_get_def
      observe_state_def record_event_def store_update_def start_worker_def)

lemma tame_counted:
  "evolves tame_engine (\<lambda>s. (f (es_preflights s), s\<lparr>es_preflights := Suc (es_preflights s)\<rparr>))"
  "evolves tame_engine (\<lambda>s. case st_create d (es_store s) of
     Inl e \<Rightarrow> (Inl e, s) | Inr st \<Rightarrow> (Inr (), s\<lparr>es_store := st\<rparr>))"
  "evolves tame_engine (\<lambda>s. case authorize ae plan idn aid (g s) (es_auth s) of
     (r, a) \<Rightarrow> (r, s\<lparr>es_auth := a, es_observed := Suc (es_observed s)\<rparr>))"
  "evolves tame_engine (modify (\<lambda>s. s\<lparr>es_cancelled := h s\<rparr>))"
  by (auto simp: evolves_def tame_engine_def tame_refl split: sum.splits prod.splits)
    (metis snd_conv tame_auth(4))

lemmas tame_rules = tamed.ev_rules tame_silent tame_counted

lemma tame_authorize_plan: "evolves tame_engine (authorize_plan env op ts actor ident aid)"
  unfolding authorize_plan_def
  by (auto intro!: tame_rules split: option.splits)

lemma tame_prepare_steps:
  "evolves tame_engine (prepare_steps env op comps steps actor ret_of ident aid wkf)"
  unfolding prepare_steps_def Let_def by (intro tame_rules tame_authorize_plan)

lemma tame_prepare: "evolves tame_engine (prepare env op ids actor ret_of ident aid wkf)"
  unfolding prepare_def Let_def by (intro tame_rules tame_prepare_steps)

lemma tame_submit_async: "evolves tame_engine (submit_async env op ids actor ret_of ident aid)"
  unfolding submit_async_def by (auto intro!: tame_rules tame_prepare split: prod.splits)

lemma tame_read_preflight: "evolves tame_engine (read_preflight env msg)"
  unfolding read_preflight_def by (intro tame_rules)

lemma tame_ready: "evolves tame_engine (require_action_ready env action)"
  unfolding require_action_ready_def Let_def by (intro tame_rules tame_read_preflight)

lemma tame_resume: "evolves tame_engine (resume_events env k completed steps)"
  unfolding resume_events_def by (intro tame_rules)

lemma tame_submit_lab: "evolves tame_engine (submit_lab_async env action sel actor ident aid ret_of)"
  unfolding submit_lab_async_def Let_def
  by (auto intro!: tame_rules tame_ready tame_prepare_steps tame_resume split: prod.splits option.splits)

lemma tame_retry_clean: "evolves tame_engine (retry_clean_install env k prev actor ident aid)"
  unfolding retry_clean_install_def Let_def
  by (auto intro!: tame_rules tame_read_preflight tame_prepare tame_resume split: prod.splits)

lemma tame_retry_async: "evolves tame_engine (retry_async env k actor ident aid)"
  unfolding retry_async_def Let_def
  by (intro tame_rules tame_submit_lab tame_retry_clean tame_submit_async)

lemma tame_cancel: "evolves tame_engine (cancel env k actor ident)"
  unfolding cancel_def Let_def by (intro tame_rules)

lemma tame_lab_plan: "evolves tame_engine (lab_plan env action c)"
  unfolding lab_plan_def by (auto intro!: tame_rules tame_ready split: prod.splits)

section \<open>Snapshots and their approvals\<close>

definition snapshot_ok :: "remote_env \<Rightarrow> string \<Rightarrow> string \<Rightarrow> snapshot \<Rightarrow> bool" where
  "snapshot_ok env k dg sn \<longleftrightarrow> sn_id sn = k \<and> sn_digest sn = dg
     \<and> sn_operation sn \<in> {''stop'', ''restart''}
     \<and> dg = plan_digest (ae_sha256 (re_auth env))
              \<lparr>pl_operation = sn_operation sn, pl_targets = sn_components sn, pl_state = sn_state sn\<rparr>"

definition backed :: "string \<Rightarrow> snapshot \<Rightarrow> auth_state \<Rightarrow> bool" where
  "backed k sn a \<longleftrightarrow> (\<exists>actor session source risk.
     bound k (sn_digest sn, actor, session, source, risk, sn_expires sn) a)"

definition desk_ok :: "remote_env \<Rightarrow> remote_state \<Rightarrow> bool" where
  "desk_ok env s \<longleftrightarrow> table_ok (es_auth (rm_engine s))
     \<and> (\<forall>k dg sn. rm_plans s k = Some (dg, sn) \<longrightarrow>
          snapshot_ok env k dg sn \<and> backed k sn (es_auth (rm_engine s)))"

definition tame_desk :: "remote_state \<Rightarrow> remote_state \<Rightarrow> bool" where
  "tame_desk s s' \<longleftrightarrow> rm_plans s' = rm_plans s \<and> tame_engine (rm_engine s) (rm_engine s')"

interpretation tame_desk: evolution tame_desk
  unfolding tame_desk_def by unfold_locales (auto intro: tamed.R_refl tamed.R_trans)

lemma desk_ok_tame: "desk_ok env s \<Longrightarrow> tame_desk s s' \<Longrightarrow> desk_ok env s'"
  unfolding desk_ok_def tame_desk_def tame_engine_def tame_def backed_def by metis

lemma tame_on_engine: "evolves tame_engine m \<Longrightarrow> evolves tame_desk (on_engine m)"
  by (auto simp: evolves_def tame_desk_def on_engine_def split: prod.splits) (metis snd_conv)

lemma tame_on_auth: "(\<And>a. tame a (snd (m a))) \<Longrightarrow> evolves tame_desk (on_auth m)"
  unfolding on_auth_def
  by (rule tame_on_engine) (auto simp: evolves_def tame_engine_def split: prod.splits,
      metis snd_conv)

lemma tame_desk_silent:
  "evolves tame_desk (on_port f)" "evolves tame_desk (stored_plan k)"
  "evolves tame_desk (remote_now env)" "evolves tame_desk (observe_targets env ts)"
  "evolves tame_desk (draw_token env)" "evolves tame_desk (insert_callback h row)"
  "evolves tame_desk (begin_row h idn now)"
  by (auto simp: evolves_def tame_desk_def tamed.R_refl on_port_def stored_plan_def remote_now_def
      observe_targets_def draw_token_def insert_callback_def begin_row_def
      split: option.splits prod.splits)

lemma tame_desk_finish: "tame_desk s (finish_row h again s)"
  by (auto simp: tame_desk_def tamed.R_refl finish_row_def split: option.splits)

lemma tame_settled: "evolves tame_desk m \<Longrightarrow> evolves tame_desk (settled h m)"
  unfolding evolves_def using settled_state tame_desk.R_trans tame_desk_finish by metis

lemma tame_store_approval: "tame a (snd (store_approval k a))"
  by (auto simp: store_approval_def tame_refl split: option.splits)

lemmas tame_desk_rules = tame_desk.ev_rules tame_desk_silent tame_on_engine tame_on_auth tame_auth
  tame_store_approval tame_silent

lemma tame_desk_issue: "evolves tame_desk (issue env action k idn expires)"
  unfolding issue_def by (intro tame_desk_rules)

lemma tame_labelled: "evolves tame_desk (labelled env label action k idn expires)"
  unfolding labelled_def by (intro tame_desk_rules tame_desk_issue)

lemma tame_operation_control: "evolves tame_desk (operation_control env k idn expires)"
  unfolding operation_control_def by (intro tame_desk_rules tame_labelled)

lemma tame_control_option:
  "(\<And>k. evolves tame_desk (f k)) \<Longrightarrow>
   evolves tame_desk (case x of Some (c # cs) \<Rightarrow> f (c # cs) | _ \<Rightarrow> ret [])"
  by (auto intro: tame_desk_rules split: option.splits list.splits)

lemma tame_recovery_notification: "evolves tame_desk (recovery_notification env m ev idn)"
  unfolding recovery_notification_def recovery_actions_def Let_def
  by (intro tame_desk_rules tame_labelled tame_operation_control tame_control_option)

lemma tame_run_action: "evolves tame_desk (run_action env action k idn)"
  unfolding run_action_def execute_approve_def
  by (intro tame_desk_rules tame_submit_async tame_retry_async tame_cancel)

lemma tame_execute: "evolves tame_desk (execute_action env token idn)"
  unfolding execute_action_def begin_action_def
  by (auto intro!: tame_desk_rules tame_settled tame_run_action split: prod.splits)

lemma keeps_bind_known:
  assumes "keeps_inv I m" and "\<And>x s t. I s \<Longrightarrow> m s = (Inr x, t) \<Longrightarrow> I t \<Longrightarrow> I (snd (f x t))"
  shows "keeps_inv I (bindS m f)"
proof (rule keeps_invI)
  fix s r s' assume I: "I s" and run: "bindS m f s = (r, s')"
  obtain q t where m: "m s = (q, t)" by (cases "m s")
  then have t: "I t" using keeps_invD[OF assms(1) I] by blast
  show "I s'"
  proof (cases q)
    case (Inl e)
    with m run t show ?thesis by simp
  next
    case (Inr x)
    with assms(2)[OF I _ t] m run show ?thesis by (metis bindS_Inr snd_conv)
  qed
qed

lemma keeps_tame: "evolves tame_desk m \<Longrightarrow> keeps_inv (desk_ok env) m"
  using desk_ok_tame by (auto simp: keeps_inv_def evolves_def)

lemma offer_plan_ok:
  assumes "desk_ok env s" and "snapshot_ok env (sn_id sn) (sn_digest sn) sn"
    and "backed (sn_id sn) sn (es_auth (rm_engine s))"
  shows "desk_ok env (snd (offer_plan env sn idn s))"
proof -
  have "keeps_inv (desk_ok env) (bindS (issue env ''approve'' (sn_id sn) idn (sn_expires sn)) (\<lambda>yes.
     bindS (issue env ''reject'' (sn_id sn) idn (sn_expires sn)) (\<lambda>no.
       lift (mk_message (take MAX_MESSAGE (plan_text env sn))
               [(''Approve'', yes), (''Reject'', no)] (Some (''plan:'' @ sn_id sn))))))"
    by (intro keeps keeps_tame tame_desk_issue)
  moreover have "desk_ok env (s\<lparr>rm_plans := (rm_plans s)(sn_id sn \<mapsto> (sn_digest sn, sn))\<rparr>)"
    using assms by (auto simp: desk_ok_def)
  ultimately show ?thesis
    using assms(1) by (auto simp: offer_plan_def save_plan_def bindS_def keeps_inv_def)
qed

lemma reviewable_operation:
  assumes "plan_risk plan = Inr risk" and "\<not> stronger_confirmation plan risk"
  shows "pl_operation plan \<in> {''stop'', ''restart''} \<and> risk = Disruptive"
proof -
  have "(pl_operation plan, Disruptive) \<in> set RISK_BY_OPERATION" and "risk = Disruptive"
    using assms by (auto simp: stronger_confirmation_def REMOTE_APPROVABLE_RISKS_def plan_risk_def
        dest: map_of_SomeD split: option.splits)
  then show ?thesis by (auto simp: RISK_BY_OPERATION_def)
qed

lemma on_auth_request:
  assumes "on_auth (request ae plan idn) s = (Inr ap, t)"
  shows "request ae plan idn (es_auth (rm_engine s)) = (Inr ap, es_auth (rm_engine t))"
  using assms by (auto simp: on_auth_def on_engine_def split: prod.splits)

lemma keeps_review_plan:
  assumes "pl_targets plan = pd_components resolved" and "pl_operation plan \<in> {''stop'', ''restart''}"
  shows "keeps_inv (desk_ok env) (review_plan env ts resolved plan idn)"
  unfolding review_plan_def
proof (rule keeps_bind_known)
  show "keeps_inv (desk_ok env) (on_auth (request (re_auth env) plan idn))"
    by (intro keeps_tame tame_desk_rules)
  fix ap s t
  assume req: "on_auth (request (re_auth env) plan idn) s = (Inr ap, t)" and ok: "desk_ok env t"
  let ?sn = "\<lambda>rollback. plan_snapshot (pl_operation plan) ts resolved (pl_state plan) rollback ap
         (plan_digest (ae_sha256 (re_auth env)) plan)"
  have plan: "\<lparr>pl_operation = pl_operation plan, pl_targets = pd_components resolved,
      pl_state = pl_state plan\<rparr> = plan"
    using assms(1) by simp
  have "snapshot_ok env (sn_id (?sn q)) (sn_digest (?sn q)) (?sn q)" for q
    using assms(2) plan by (simp add: snapshot_ok_def plan_snapshot_def)
  moreover have "backed (sn_id (?sn q)) (?sn q) (es_auth (rm_engine t))" for q
  proof -
    have "bound (ap_id ap) (plan_digest (ae_sha256 (re_auth env)) plan, id_actor idn, id_session idn,
        id_source idn, ap_risk ap, ap_expires ap) (es_auth (rm_engine t))"
      using request_binds[OF on_auth_request[OF req]] by (auto simp: binding_def)
    then show ?thesis unfolding backed_def plan_snapshot_def snapshot.simps by blast
  qed
  ultimately have "desk_ok env (snd (offer_plan env (?sn q) idn t))" for q
    using offer_plan_ok[OF ok] by blast
  then show "desk_ok env (snd (bindS (lift (rollback_class (pd_steps resolved)))
      (\<lambda>rollback. offer_plan env (?sn rollback) idn) t))"
    using ok by (cases "rollback_class (pd_steps resolved)") simp_all
qed

lemma keeps_lifecycle_plan: "keeps_inv (desk_ok env) (lifecycle_plan env op ts idn)"
  unfolding lifecycle_plan_def Let_def
proof (rule keeps_bindS)
  show "keeps_inv (desk_ok env) (lift (plan_request (ee_plan (re_engine env)) op ts))"
    by (rule keeps)
  fix resolved :: plan_doc
  let ?plan = "\<lambda>current. \<lparr>pl_operation = op, pl_targets = pd_components resolved, pl_state = current\<rparr>"
  let ?next = "\<lambda>current risk. if stronger_confirmation (?plan current) risk
       then fail RemoteActionError ''this operation requires stronger confirmation in the Web UI''
       else review_plan env ts resolved (?plan current) idn"
  have next_ok: "keeps_inv (desk_ok env) (?next current risk)"
    if "plan_risk (?plan current) = Inr risk" for current risk
    using reviewable_operation[OF that] keeps_review_plan[of "?plan current" resolved env ts idn]
    by (auto intro!: keeps)
  show "keeps_inv (desk_ok env) (bindS (observe_targets env (pd_components resolved)) (\<lambda>current.
      bindS (lift (plan_risk (?plan current))) (?next current)))"
  proof (rule keeps_bindS)
    show "keeps_inv (desk_ok env) (observe_targets env (pd_components resolved))"
      by (intro keeps_tame tame_desk_rules)
    show "keeps_inv (desk_ok env) (bindS (lift (plan_risk (?plan current))) (?next current))" for current
      using next_ok[of current]
      by (cases "plan_risk (?plan current)") (auto simp: keeps_inv_def bindS_def)
  qed
qed

lemma keeps_remote_lab_plan: "keeps_inv (desk_ok env) (remote_lab_plan env action c idn)"
  unfolding remote_lab_plan_def
  by (intro keeps keeps_tame tame_on_engine tame_lab_plan keeps_lifecycle_plan)

text \<open>
  Outside the service, approvals are changed by calls of an authorization service.
\<close>

definition orderly :: "remote_event \<Rightarrow> bool" where
  "orderly e \<longleftrightarrow> (case e of
     Elsewhere f \<Rightarrow> (\<forall>x. \<exists>ae cs. es_auth (f x) = run_events (run_call ae) cs (es_auth x))
   | _ \<Rightarrow> True)"

lemma desk_ok_step:
  assumes "desk_ok env s" and "orderly e"
  shows "desk_ok env (remote_step env e s)"
proof (cases e)
  case (Elsewhere f)
  then obtain ae cs where "es_auth (f (rm_engine s)) = run_events (run_call ae) cs (es_auth (rm_engine s))"
    using assms(2) by (simp only: orderly_def remote_event.case) meson
  then have "tame_desk s (remote_step env e s)"
    using Elsewhere run_calls_ok bound_run_calls
    by (auto simp: tame_desk_def tame_engine_def tame_def)
  then show ?thesis using desk_ok_tame assms(1) by blast
qed (use assms(1) keeps_lifecycle_plan keeps_remote_lab_plan
      keeps_tame[OF tame_recovery_notification] keeps_tame[OF tame_execute]
     in \<open>simp_all add: keeps_inv_def\<close>)

lemma desk_ok_run:
  "list_all orderly es \<Longrightarrow> desk_ok env s \<Longrightarrow> desk_ok env (run_events (remote_step env) es s)"
  by (induction es arbitrary: s) (auto intro: desk_ok_step)

section \<open>What an approval runs\<close>

lemma submit_async_Inr:
  assumes "submit_async env op ids actor None (Some idn) (Some aid) s = (Inr d, s')"
    and "ee_auth env = Some ae" and "map_of RISK_BY_OPERATION op = Some risk" and "approval_required risk"
  shows "\<exists>steps d0 f current doc now at. plan_steps (ee_plan env) op (fromkeys ids) = Inr steps
    \<and> es_workers s' = es_workers s @ [(d0, steps)]
    \<and> od_operation d0 = op \<and> od_components d0 = affected steps \<and> od_actor d0 = actor
    \<and> id_actor idn = actor
    \<and> ee_state env = Some f \<and> f (Suc (es_observed s)) (affected steps) = Inr current
    \<and> ae_clock ae (clock_reads (es_auth s)) = Aware now
    \<and> approvals (es_auth s) aid = Some (Approved, doc)
    \<and> consumption_reason ae doc
        \<lparr>pl_operation = op, pl_targets = affected steps, pl_state = current\<rparr> idn now = None
    \<and> approvals (es_auth s') aid = Some (Consumed, doc\<lparr>ap_state := Consumed, ap_consumed := Some at\<rparr>)"
proof -
  obtain d0 steps t where prep: "prepare env op ids actor None (Some idn) (Some aid) None s
      = (Inr (d0, steps), t)"
    and s': "s' = t\<lparr>es_workers := es_workers t @ [(d0, steps)]\<rparr>"
    using assms(1) by (auto simp: submit_async_def runs start_worker_def store_get_def modify_def
        split: prod.splits)
  then obtain steps' where plan: "plan_steps (ee_plan env) op (fromkeys ids) = Inr steps'"
    and ps: "prepare_steps env op (fromkeys ids) steps' actor None (Some idn) (Some aid) None s
      = (Inr (d0, steps), t)"
    by (auto simp: prepare_def Let_def bindS_Inr_iff split: if_splits)
  note facts = prepare_steps_Inr[OF ps]
  from facts(3) obtain u where au: "authorize_plan env op (affected steps') actor (Some idn) (Some aid) s
      = (Inr (), u)" and ua: "es_auth t = es_auth u" by blast
  from authorize_plan_Inr[OF au assms(2)] obtain f current0 where
    who: "id_actor idn = actor" and f: "ee_state env = Some f"
    and run: "authorize ae \<lparr>pl_operation = op, pl_targets = affected steps', pl_state = current0\<rparr> idn
        (Some aid) (Some (f (Suc (es_observed s)) (affected steps'))) (es_auth s) = (Inr (), es_auth u)"
    by auto
  have "plan_risk \<lparr>pl_operation = op, pl_targets = affected steps', pl_state = current0\<rparr> = Inr risk"
    using assms(3) by (simp add: plan_risk_def)
  from authorize_grant[OF run this assms(4)] obtain doc current now at where
    "approvals (es_auth s) aid = Some (Approved, doc)"
    "f (Suc (es_observed s)) (affected steps') = Inr current"
    "ae_clock ae (clock_reads (es_auth s)) = Aware now"
    "consumption_reason ae doc
       \<lparr>pl_operation = op, pl_targets = affected steps', pl_state = current\<rparr> idn now = None"
    "approvals (es_auth u) aid = Some (Consumed, doc\<lparr>ap_state := Consumed, ap_consumed := Some at\<rparr>)"
    by (auto simp: observed_def)
  moreover obtain now' k b where "d0 = new_document env k now' op (fromkeys ids) steps' b actor None None"
    using facts(4) by blast
  ultimately show ?thesis
    using plan facts(1,6) who f s' ua
    by (intro exI[of _ steps] exI[of _ d0] exI[of _ f] exI[of _ current] exI[of _ doc] exI[of _ now]
        exI[of _ at]) (simp add: new_document_def)
qed

lemma on_engine_Inr:
  assumes "on_engine m s = (Inr x, s')"
  shows "m (rm_engine s) = (Inr x, rm_engine s')"
  using assms by (auto simp: on_engine_def split: prod.splits)

lemma on_auth_Inr:
  assumes "on_auth m s = (Inr x, s')"
  shows "m (es_auth (rm_engine s)) = (Inr x, es_auth (rm_engine s'))
    \<and> es_workers (rm_engine s') = es_workers (rm_engine s) \<and> rm_plans s' = rm_plans s"
  using assms by (auto simp: on_auth_def on_engine_def split: prod.splits)

lemma approve_Inr:
  assumes "approve ae k idn conf a = (Inr doc, a')" and "table_ok a"
  shows "ap_id doc = k \<and> \<not> closed_row (approvals a) k"
proof -
  obtain col doc0 where row: "approvals a k = Some (col, doc0)"
    and run: "bindS (now_utc ae) (\<lambda>now. case decision_reason ae doc0 idn now conf of
         Some reason \<Rightarrow> thenS (audit_event ae (Some k) ''approve'' (id_actor idn) ''denied'' reason)
             (fail AuthorizationError reason)
       | None \<Rightarrow>
           (let doc' = doc0\<lparr>ap_state := Approved, ap_decided := Some now\<rparr>
            in bindS (store_transition k Pending Approved doc') (\<lambda>changed.
                 if \<not> changed
                 then thenS (audit_event ae (Some k) ''approve'' (id_actor idn) ''denied'' ''not pending'')
                        (fail AuthorizationError ''approval is no longer pending'')
                 else thenS (audit_event ae (Some k) ''approve'' (id_actor idn) ''accepted''
                               (risk_text (ap_risk doc0))) (ret doc')))) a = (Inr doc, a')"
    using assms(1) by (auto simp: approve_def bindS_Inr_iff store_approval_runs)
  have ok: "ap_id doc0 = k" "ap_state doc0 = col" using assms(2) row by (auto simp: table_ok_def row_ok_def)
  from run have "ap_id doc = ap_id doc0 \<and> ap_state doc0 = Pending"
    by (auto simp: Let_def runs decision_reason_def split: option.splits if_splits)
  with ok row show ?thesis by (auto simp: closed_row_def)
qed

text \<open>A successful approve: what was submitted, and in which state of the approvals.\<close>

lemma execute_approve_Inr:
  assumes "execute_approve env k idn s = (Inr body, s')" and "table_ok (es_auth (rm_engine s))"
  shows "\<exists>dg sn t d. rm_plans s k = Some (dg, sn) \<and> tame_desk s t
    \<and> \<not> closed_row (approvals (es_auth (rm_engine s))) k
    \<and> es_workers (rm_engine t) = es_workers (rm_engine s)
    \<and> submit_async (re_engine env) (sn_operation sn) (sn_requested sn) (id_actor idn) None (Some idn)
        (Some k) (rm_engine t) = (Inr d, rm_engine s')"
proof -
  let ?sub = "\<lambda>sn aid t. on_engine (submit_async (re_engine env) (sn_operation sn) (sn_requested sn)
      (id_actor idn) None (Some idn) (Some aid)) t"
  obtain dg sn where sn: "rm_plans s k = Some (dg, sn)"
    using assms(1) by (cases "rm_plans s k") (auto simp: execute_approve_def stored_plan_def bindS_def)
  obtain found s1 where f: "on_auth (store_approval k) s = (Inr found, s1)"
    and rest: "bindS (if ap_state found = Pending then on_auth (approve (re_auth env) k idn None)
            else if ap_state found \<noteq> Approved
            then fail RemoteActionError ''approval is no longer usable''
            else ret found) (\<lambda>ap. bindS (?sub sn (ap_id ap)) (\<lambda>d.
       ret (two_lines env (''Operation queued: '' @ od_id d) (''/operations/'' @ od_id d)))) s1
      = (Inr body, s')"
    using assms(1) sn by (auto simp: execute_approve_def stored_plan_def bindS_Inr_iff)
  have s1: "s1 = s" and row: "\<exists>col. approvals (es_auth (rm_engine s)) k = Some (col, found)"
    using f by (auto simp: on_auth_def on_engine_def store_approval_def split: option.splits)
  then have ok: "ap_id found = k" "approvals (es_auth (rm_engine s)) k = Some (ap_state found, found)"
    using assms(2) by (auto simp: table_ok_def row_ok_def)
  obtain ap t d where t: "(if ap_state found = Pending then on_auth (approve (re_auth env) k idn None)
            else if ap_state found \<noteq> Approved
            then fail RemoteActionError ''approval is no longer usable''
            else ret found) s = (Inr ap, t)"
    and sub: "?sub sn (ap_id ap) t = (Inr d, s')"
    using rest unfolding s1 by (auto simp: bindS_Inr_iff)
  have "ap_id ap = k \<and> tame_desk s t \<and> \<not> closed_row (approvals (es_auth (rm_engine s))) k
      \<and> es_workers (rm_engine t) = es_workers (rm_engine s)"
  proof (cases "ap_state found = Pending")
    case True
    then have run: "on_auth (approve (re_auth env) k idn None) s = (Inr ap, t)" using t by simp
    have "evolves tame_desk (on_auth (approve (re_auth env) k idn None))" by (intro tame_desk_rules)
    then have "tame_desk s t" using run by (rule evolvesD)
    with on_auth_Inr[OF run] approve_Inr[OF _ assms(2)] show ?thesis by blast
  next
    case False
    then have "ap_state found = Approved" "ap = found" "t = s" using t by (auto split: if_splits)
    with ok tame_desk.R_refl[of s] show ?thesis by (simp add: closed_row_def)
  qed
  with sn on_engine_Inr[OF sub] show ?thesis by auto
qed


section \<open>Refusals\<close>

lemma lab_plan_operation:
  assumes "lab_plan env action c e = (Inr plan, e')"
  shows "map_of LAB_ACTIONS action = Some (pd_operation plan)"
  using assms
  by (auto simp: lab_plan_def lab_steps_def describe_plan_def bindS_Inr_iff
      split: option.splits sum.splits prod.splits if_splits)

text \<open>
  The lab's deploy and start transitions cannot be planned remotely. Whenever the engine is ready for
  the transition and plans it, and the state is observed, the remote plan is refused with the message
  that the operation needs a stronger confirmation, although it is a routine operation, which needs no
  approval at all; no approval, snapshot or callback is made.
\<close>

theorem remote_lab_start_refused:
  assumes "action \<in> {''deploy'', ''start''}"
    and "lab_plan (re_engine env) action c (rm_engine s) = (Inr plan, e)"
    and "plan_request (ee_plan (re_engine env)) (pd_operation plan) (pd_components plan) = Inr resolved"
    and "re_state env (rm_observed s) (pd_components resolved) = Inr current"
  shows "remote_lab_plan env action c idn s =
      (raise RemoteActionError ''this operation requires stronger confirmation in the Web UI'',
       s\<lparr>rm_engine := e, rm_observed := Suc (rm_observed s)\<rparr>)
    \<and> plan_risk \<lparr>pl_operation = pd_operation plan, pl_targets = pd_components resolved,
                  pl_state = current\<rparr> = Inr Routine
    \<and> \<not> approval_required Routine"
proof -
  have op: "pd_operation plan \<in> {''install'', ''start''}"
    using lab_plan_operation[OF assms(2)] assms(1) by (auto simp: LAB_ACTIONS_def)
  then have risk: "plan_risk \<lparr>pl_operation = pd_operation plan, pl_targets = pd_components resolved,
      pl_state = current\<rparr> = Inr Routine"
    by (auto simp: plan_risk_def RISK_BY_OPERATION_def)
  have "on_engine (lab_plan (re_engine env) action c) s = (Inr plan, s\<lparr>rm_engine := e\<rparr>)"
    using assms(2) by (simp add: on_engine_def)
  moreover have "stronger_confirmation \<lparr>pl_operation = pd_operation plan,
      pl_targets = pd_components resolved, pl_state = current\<rparr> Routine"
    by (simp add: stronger_confirmation_def REMOTE_APPROVABLE_RISKS_def)
  ultimately show ?thesis
    using assms(3,4) risk
    by (simp add: remote_lab_plan_def lifecycle_plan_def observe_targets_def bindS_def Let_def
        approval_required_def)
qed

text \<open>
  A short outage burns an approve button. When the state of the targets cannot be observed while an
  approved operation is being prepared, the press has already approved the request, nothing is started,
  the failure is reported as final, and the row is consumed, so that the approval stays behind approved
  but without a button that could use it.
\<close>

theorem outage_burns_approve_button:
  assumes "token_hash env token = Inr h" and "rm_calls s h = Some row"
    and "re_clock env (rm_ticks s) = Aware now" and "usable row idn" and "now < cb_expires row"
    and "cb_action row = ''approve''" and "rm_plans s (cb_reference row) = Some (dg, sn)"
    and "approvals (es_auth (rm_engine s)) (cb_reference row) = Some (Pending, doc)"
    and "ap_state doc = Pending"
    and "approve (re_auth env) (cb_reference row) idn None (es_auth (rm_engine s)) = (Inr ap, a')"
    and "sn_operation sn \<in> set REQUEST_OPERATIONS" and "sn_requested sn \<noteq> []"
    and "list_all identifier_ok (sn_requested sn)" and "distinct (sn_requested sn)"
    and "0 < length (id_actor idn)" and "length (id_actor idn) \<le> 128"
    and "plan_steps (ee_plan (re_engine env)) (sn_operation sn) (sn_requested sn) = Inr steps"
    and "set (active_components (es_store (rm_engine s))) \<inter> set (affected steps) = {}"
    and "ee_auth (re_engine env) = Some ae" and "ee_state (re_engine env) = Some f"
    and "f (es_observed (rm_engine s)) (affected steps) = Inl e"
  shows "fst (execute_action env token idn s)
      = raise RemoteActionError ''current target state is unavailable''
    \<and> rm_calls (snd (execute_action env token idn s)) h = Some (row\<lparr>cb_state := CbConsumed\<rparr>)
    \<and> es_auth (rm_engine (snd (execute_action env token idn s))) = a'
    \<and> es_workers (rm_engine (snd (execute_action env token idn s))) = es_workers (rm_engine s)"
proof -
  let ?e = "(rm_engine s)\<lparr>es_auth := a'\<rparr>"
  have nodup: "fromkeys (sn_requested sn) = sn_requested sn"
    using assms(14) by (rule fromkeys_distinct)
  have au: "authorize_plan (re_engine env) (sn_operation sn) (affected steps) (id_actor idn) (Some idn)
      aid ?e = (Inl (Exn OperationError ''current target state is unavailable''),
                ?e\<lparr>es_observed := Suc (es_observed (rm_engine s))\<rparr>)" for aid
    using assms(19-21) by (simp add: authorize_plan_def observe_state_def handle_def bindS_def)
  have sub: "submit_async (re_engine env) (sn_operation sn) (sn_requested sn) (id_actor idn) None
      (Some idn) aid ?e = (Inl (Exn OperationError ''current target state is unavailable''),
                ?e\<lparr>es_observed := Suc (es_observed (rm_engine s))\<rparr>)" for aid
    using assms(11-13,15-18) au
    by (simp add: submit_async_def prepare_def prepare_steps_def nodup bindS_def Let_def)
  have run: "run_action env (cb_action row) (cb_reference row) idn (begun h row s) =
      (Inl (Exn OperationError ''current target state is unavailable''),
       (begun h row s)\<lparr>rm_engine := ?e\<lparr>es_observed := Suc (es_observed (rm_engine s))\<rparr>\<rparr>)"
    using assms(6-10) sub
    by (simp add: run_action_def execute_approve_def stored_plan_def begun_def on_auth_def
        on_engine_def store_approval_def bindS_def)
  have plain: "\<not> unavailable_error (Exn OperationError m)"
    "reported (Exn OperationError m) = Exn RemoteActionError m" for m
    by (simp_all add: unavailable_error_def reported_def catches_def is_subclass_def)
  show ?thesis
    using execute_usable[OF assms(1-5) run] plain
    by (simp add: finish_row_def begun_def)
qed

section \<open>A demonstration desk\<close>

definition quick_planner :: plan_env where
  "quick_planner = demo_planner\<lparr>pe_max_timeout := 5\<rparr>"

definition quick_engine :: eng_env where
  "quick_engine = demo_engine\<lparr>ee_plan := quick_planner\<rparr>"

definition quick_step :: "string \<Rightarrow> string \<Rightarrow> int \<Rightarrow> step" where
  "quick_step c op n = (demo_step c op n)\<lparr>st_timeout := 5\<rparr>"

definition demo_remote :: remote_env where
  "demo_remote = \<lparr>re_engine = quick_engine, re_auth = demo_env, re_clock = (\<lambda>n. Aware (int n)),
     re_token = (\<lambda>n. ''tok'' @ replicate n CHR ''x''), re_sha256 = (\<lambda>s. s), re_ttl = minutes 10,
     re_state = (\<lambda>n ts. Inr [(''ui'', ''running''), (''db'', ''running'')]), re_incident = None,
     re_automation = Some (\<lambda>n actor. raise PyOSError ''down''), re_web = ''https://m'',
     re_texts = \<lparr>fromiso = (\<lambda>s. None), isofmt = (\<lambda>t. ''T+00:00'')\<rparr>\<rparr>"

definition demo_desk :: remote_state where
  "demo_desk = \<lparr>rm_plans = Map.empty, rm_calls = Map.empty, rm_engine = demo_free demo_start,
     rm_ticks = 0, rm_tokens = 0, rm_observed = 0, rm_ports = 0\<rparr>"

definition remote_history :: "remote_event list" where
  "remote_history = [PlanOperation ''stop'' [''db'', ''ui''] demo_identity]"

definition demo_reviewed :: op_plan where
  "demo_reviewed = \<lparr>pl_operation = ''stop'', pl_targets = [''ui'', ''db''],
     pl_state = [(''ui'', ''running''), (''db'', ''running'')]\<rparr>"

definition demo_ticket :: approval where
  "demo_ticket = \<lparr>ap_id = ''id'', ap_state = Pending, ap_actor = ''op'', ap_source = ''web'',
     ap_session = ''s1'', ap_risk = Disruptive, ap_operation = ''stop'', ap_targets = [''ui'', ''db''],
     ap_digest = plan_digest (\<lambda>s. s) demo_reviewed, ap_created = 0, ap_expires = minutes 10,
     ap_decided = None, ap_consumed = None, ap_revoked = None\<rparr>"

definition demo_steps :: "step list" where
  "demo_steps = [quick_step ''ui'' ''stop'' 1, quick_step ''db'' ''stop'' 1]"

definition demo_snapshot :: snapshot where
  "demo_snapshot = plan_snapshot ''stop'' [''db'', ''ui'']
     (describe_plan ''stop'' [''db'', ''ui''] demo_steps) (pl_state demo_reviewed) Reversible demo_ticket
     (plan_digest (\<lambda>s. s) demo_reviewed)"

definition demo_row :: "string \<Rightarrow> remote_callback" where
  "demo_row action = \<lparr>cb_state = CbPending, cb_actor = ''op'', cb_session = ''s1'', cb_action = action,
     cb_reference = ''id'', cb_expires = minutes 10\<rparr>"

definition demo_asked :: auth_state where
  "demo_asked = snd (request demo_env demo_reviewed demo_identity demo_start)"

definition demo_planned :: remote_state where
  "demo_planned = demo_desk\<lparr>
     rm_plans := [''id'' \<mapsto> (plan_digest (\<lambda>s. s) demo_reviewed, demo_snapshot)],
     rm_calls := [''tok'' \<mapsto> demo_row ''approve'', ''tokx'' \<mapsto> demo_row ''reject''],
     rm_engine := demo_free demo_asked, rm_tokens := 2, rm_observed := 1\<rparr>"

lemma demo_request: "request demo_env demo_reviewed demo_identity demo_start = (Inr demo_ticket, demo_asked)"
  by (simp add: demo_asked_def request_def demo_env_def default_env_def now_utc_def draw_uuid_def
      plan_risk_def RISK_BY_OPERATION_def demo_reviewed_def demo_identity_def demo_start_def
      store_insert_def audit_event_def store_record_def bindS_def Let_def demo_ticket_def)

lemma demo_asked_facts:
  "approvals demo_asked = [''id'' \<mapsto> (Pending, demo_ticket)]" "clock_reads demo_asked = 2"
  by (simp_all add: demo_asked_def request_def demo_env_def default_env_def now_utc_def draw_uuid_def
      plan_risk_def RISK_BY_OPERATION_def demo_reviewed_def demo_identity_def demo_start_def
      store_insert_def audit_event_def store_record_def bindS_def Let_def demo_ticket_def)

lemma quick_plans:
  "plan_request quick_planner ''stop'' [''db'', ''ui'']
     = Inr (describe_plan ''stop'' [''db'', ''ui''] demo_steps)"
  "plan_steps quick_planner ''stop'' [''db'', ''ui''] = Inr demo_steps"
  "pd_components (describe_plan ''stop'' [''db'', ''ui''] demo_steps) = [''ui'', ''db'']"
  "rollback_class (pd_steps (describe_plan ''stop'' [''db'', ''ui''] demo_steps)) = Inr Reversible"
  "affected demo_steps = [''ui'', ''db'']" "plan_recovery_boundary demo_steps = Inr Reversible"
  by code_simp+

lemma demo_offer:
  "\<exists>m. offer_plan demo_remote demo_snapshot demo_identity
      (demo_desk\<lparr>rm_engine := demo_free demo_asked, rm_observed := 1\<rparr>) = (Inr m, demo_planned)"
proof -
  have sn: "sn_id demo_snapshot = ''id''" "sn_expires demo_snapshot = minutes 10"
      "sn_digest demo_snapshot = plan_digest (\<lambda>s. s) demo_reviewed"
    by (simp_all add: demo_snapshot_def plan_snapshot_def demo_ticket_def)
  have "\<exists>m. mk_message (take MAX_MESSAGE (plan_text demo_remote demo_snapshot))
      [(''Approve'', OpaqueAction ''tok''), (''Reject'', OpaqueAction ''tokx'')] (Some ''plan:id'') = Inr m"
    by (simp add: mk_message_def MAX_MESSAGE_def plan_text_def)
  then show ?thesis
    by (simp add: offer_plan_def save_plan_def issue_def REMOTE_ACTIONS_def draw_token_def token_hash_def
        insert_callback_def bindS_def sn demo_desk_def demo_remote_def demo_planned_def demo_row_def
        demo_identity_def)
qed

lemma demo_run: "run_events (remote_step demo_remote) remote_history demo_desk = demo_planned"
proof -
  have "demo_free a\<lparr>es_auth := b\<rparr> = demo_free b" for a b by (simp add: demo_free_def demo_idle_def)
  moreover have "es_auth (demo_free a) = a" for a by (simp add: demo_free_def demo_idle_def)
  ultimately have au: "on_auth (request demo_env demo_reviewed demo_identity)
      (demo_desk\<lparr>rm_observed := 1\<rparr>) = (Inr demo_ticket,
      demo_desk\<lparr>rm_engine := demo_free demo_asked, rm_observed := 1\<rparr>)"
    using demo_request by (simp add: on_auth_def on_engine_def demo_desk_def)
  have risk: "plan_risk demo_reviewed = Inr Disruptive"
    by (simp add: plan_risk_def demo_reviewed_def RISK_BY_OPERATION_def)
  have plan: "\<lparr>pl_operation = ''stop'', pl_targets = [''ui'', ''db''],
      pl_state = [(''ui'', ''running''), (''db'', ''running'')]\<rparr> = demo_reviewed"
    by (simp add: demo_reviewed_def)
  have "\<not> stronger_confirmation demo_reviewed Disruptive"
    by (simp add: stronger_confirmation_def demo_reviewed_def REMOTE_APPROVABLE_RISKS_def
        WEB_ONLY_OPERATIONS_def)
  moreover have "review_plan demo_remote [''db'', ''ui''] (describe_plan ''stop'' [''db'', ''ui''] demo_steps)
      demo_reviewed demo_identity (demo_desk\<lparr>rm_observed := 1\<rparr>) =
      offer_plan demo_remote demo_snapshot demo_identity
        (demo_desk\<lparr>rm_engine := demo_free demo_asked, rm_observed := 1\<rparr>)"
    using au by (simp add: review_plan_def demo_remote_def quick_plans demo_snapshot_def
        demo_env_def default_env_def) (simp add: demo_reviewed_def)
  ultimately show ?thesis
    using demo_offer risk
    by (auto simp: remote_history_def lifecycle_plan_def demo_remote_def quick_engine_def quick_plans
        observe_targets_def bindS_def Let_def plan demo_desk_def)
qed

lemma demo_hash: "token_hash env ''tok'' = Inr (re_sha256 env ''tok'')"
  by (simp add: token_hash_def)

lemma demo_facts:
  "rm_calls demo_planned ''tok'' = Some (demo_row ''approve'')"
  "rm_plans demo_planned ''id'' = Some (plan_digest (\<lambda>s. s) demo_reviewed, demo_snapshot)"
  "rm_ticks demo_planned = 0" "rm_engine demo_planned = demo_free demo_asked"
  "cb_action (demo_row a) = a" "cb_reference (demo_row a) = ''id''" "cb_expires (demo_row a) = minutes 10"
  "usable (demo_row a) demo_identity" "0 < minutes 10"
  "es_auth (demo_free a') = a'" "(demo_free a')\<lparr>es_auth := b\<rparr> = demo_free b"
  "active_components (es_store (demo_free a')) = []" "es_observed (demo_free a') = 0"
  "sn_operation demo_snapshot = ''stop''" "sn_requested demo_snapshot = [''db'', ''ui'']"
  "re_auth demo_remote = demo_env" "re_engine demo_remote = quick_engine"
  "re_sha256 demo_remote = (\<lambda>s. s)" "re_clock demo_remote n = Aware (int n)"
  "id_actor demo_identity = ''op''" "ee_plan quick_engine = quick_planner"
  "ee_auth quick_engine = Some demo_env" "ae_sha256 demo_env = (\<lambda>s. s)"
  by (simp_all add: demo_planned_def demo_desk_def demo_row_def usable_def demo_identity_def minutes_def
      seconds_def demo_free_def demo_idle_def active_components_def demo_snapshot_def plan_snapshot_def
      demo_remote_def quick_engine_def demo_engine_def demo_env_def default_env_def)

definition demo_granted :: auth_state where
  "demo_granted = snd (approve demo_env ''id'' demo_identity None demo_asked)"

definition demo_given :: approval where
  "demo_given = demo_ticket\<lparr>ap_state := Approved, ap_decided := Some 2\<rparr>"

lemma demo_approve:
  "approve demo_env ''id'' demo_identity None demo_asked = (Inr demo_given, demo_granted)
   \<and> approvals demo_granted = [''id'' \<mapsto> (Approved, demo_given)] \<and> clock_reads demo_granted = 4"
  by (simp add: demo_granted_def approve_def store_approval_def demo_asked_facts now_utc_def demo_env_def
      default_env_def decision_reason_def demo_ticket_def demo_identity_def minutes_def seconds_def
      store_transition_def cas_row_def audit_event_def store_record_def bindS_def Let_def demo_given_def)

lemma demo_authorized:
  "\<exists>a. authorize demo_env demo_reviewed demo_identity (Some ''id'')
      (Some (Inr [(''ui'', ''running''), (''db'', ''running'')])) demo_granted = (Inr (), a)"
proof -
  have "demo_reviewed\<lparr>pl_state := [(''ui'', ''running''), (''db'', ''running'')]\<rparr> = demo_reviewed"
    by (simp add: demo_reviewed_def)
  moreover have "plan_risk demo_reviewed = Inr Disruptive"
    by (simp add: plan_risk_def demo_reviewed_def RISK_BY_OPERATION_def)
  ultimately show ?thesis
    using demo_approve
    by (simp add: authorize_def approval_required_def store_approval_def observed_def
        authorize_checked_def now_utc_def demo_env_def default_env_def consumption_reason_def
        demo_given_def demo_ticket_def demo_identity_def minutes_def seconds_def authorize_commit_def
        store_transition_def cas_row_def audit_event_def store_record_def bindS_def)
qed

lemma demo_submitted:
  "\<exists>d e. submit_async quick_engine ''stop'' [''db'', ''ui''] ''op'' None (Some demo_identity)
      (Some ''id'') (demo_free demo_granted) = (Inr d, e)"
proof -
  obtain a where "authorize demo_env demo_reviewed demo_identity (Some ''id'')
      (Some (Inr [(''ui'', ''running''), (''db'', ''running'')])) demo_granted = (Inr (), a)"
    using demo_authorized by blast
  then have "\<exists>t. authorize_plan quick_engine ''stop'' (affected demo_steps) ''op'' (Some demo_identity)
      (Some ''id'') (demo_free demo_granted) = (Inr (), t) \<and> es_store t = \<lparr>os_rows = [], os_events = []\<rparr>"
    by (simp add: authorize_plan_def observe_state_def handle_def bindS_def quick_engine_def
        demo_engine_def demo_facts quick_plans demo_reviewed_def)
      (simp add: demo_free_def demo_idle_def)
  moreover have "list_all identifier_ok [''db'', ''ui'']" by code_simp
  ultimately show ?thesis
    by (auto simp: submit_async_def prepare_def REQUEST_OPERATIONS_def STOP_OPERATIONS_def
        prepare_steps_def quick_plans demo_facts tick_def new_id_def st_create_def bindS_def Let_def
        start_worker_def store_get_def st_get_def new_document_def)
qed

abbreviation demo_press :: "remote_env \<Rightarrow> (exn + message) \<times> remote_state" where
  "demo_press env \<equiv> execute_action env ''tok'' demo_identity demo_planned"

lemma demo_run_action:
  "\<exists>body t. run_action demo_remote ''approve'' ''id'' demo_identity
      (begun ''tok'' (demo_row ''approve'') demo_planned) = (Inr body, t)"
  using demo_submitted demo_approve
  by (auto simp: run_action_def execute_approve_def stored_plan_def begun_def on_auth_def on_engine_def
      store_approval_def demo_facts demo_asked_facts demo_ticket_def demo_given_def bindS_def)

lemma demo_press_succeeds: "\<exists>m. demo_press demo_remote = (Inr m, snd (demo_press demo_remote))"
proof -
  obtain body t where run: "run_action demo_remote (cb_action (demo_row ''approve''))
      (cb_reference (demo_row ''approve'')) demo_identity
      (begun ''tok'' (demo_row ''approve'') demo_planned) = (Inr body, t)"
    using demo_run_action by (auto simp: demo_facts)
  have "token_hash demo_remote ''tok'' = Inr ''tok''" by (simp add: demo_hash demo_facts)
  from execute_usable[OF this demo_facts(1) _ demo_facts(8) _ run, of 0]
  show ?thesis by (simp add: demo_facts)
qed

section \<open>Witnesses\<close>

theorem press_settles_callback_witness:
  "rm_plans (snd (demo_press demo_remote)) = rm_plans demo_planned
    \<and> (if usable (demo_row ''approve'') demo_identity \<and> 0 < cb_expires (demo_row ''approve'')
       then rm_calls (snd (demo_press demo_remote)) = (rm_calls demo_planned)
              (''tok'' \<mapsto> (demo_row ''approve'')\<lparr>cb_state :=
              (case fst (demo_press demo_remote) of Inr _ \<Rightarrow> CbConsumed
               | Inl e \<Rightarrow> if exn_cls e = RemoteActionUnavailable then CbPending else CbConsumed)\<rparr>)
       else (\<exists>m. fst (demo_press demo_remote) = raise RemoteActionError m)
          \<and> rm_engine (snd (demo_press demo_remote)) = rm_engine demo_planned
          \<and> rm_ports (snd (demo_press demo_remote)) = rm_ports demo_planned
          \<and> rm_calls (snd (demo_press demo_remote)) =
              (if usable (demo_row ''approve'') demo_identity
               then (rm_calls demo_planned)(''tok'' \<mapsto> (demo_row ''approve'')\<lparr>cb_state := CbExpired\<rparr>)
               else rm_calls demo_planned))"
  by (rule press_settles_callback[OF prod.collapse[symmetric] _ demo_facts(1)])
    (simp_all add: demo_hash demo_facts)


definition demo_outage :: remote_env where
  "demo_outage = demo_remote\<lparr>re_engine := quick_engine\<lparr>ee_state := Some (\<lambda>n ts. raise PyOSError ''down'')\<rparr>\<rparr>"

theorem outage_burns_approve_button_witness:
  "fst (demo_press demo_outage) = raise RemoteActionError ''current target state is unavailable''
    \<and> rm_calls (snd (demo_press demo_outage)) ''tok'' = Some ((demo_row ''approve'')\<lparr>cb_state := CbConsumed\<rparr>)
    \<and> es_auth (rm_engine (snd (demo_press demo_outage))) = demo_granted
    \<and> es_workers (rm_engine (snd (demo_press demo_outage))) = es_workers (rm_engine demo_planned)"
proof -
  have env: "re_auth demo_outage = demo_env" "re_sha256 demo_outage = (\<lambda>s. s)"
    "re_clock demo_outage n = Aware (int n)" "ee_plan (re_engine demo_outage) = quick_planner"
    "ee_auth (re_engine demo_outage) = Some demo_env"
    "ee_state (re_engine demo_outage) = Some (\<lambda>n ts. raise PyOSError ''down'')" for n
    by (simp_all add: demo_outage_def demo_facts)
  have ids: "list_all identifier_ok [''db'', ''ui'']" by code_simp
  show ?thesis
    by (rule outage_burns_approve_button[OF _ demo_facts(1), where now = 0 and ap = demo_given
          and dg = "plan_digest (\<lambda>s. s) demo_reviewed" and sn = demo_snapshot and doc = demo_ticket
          and steps = demo_steps and ae = demo_env and f = "\<lambda>n ts. raise PyOSError ''down''"])
      (use ids in \<open>simp_all add: demo_hash demo_facts env demo_asked_facts demo_approve quick_plans
        REQUEST_OPERATIONS_def STOP_OPERATIONS_def\<close>, simp add: demo_ticket_def)
qed

definition demo_starting :: remote_env where
  "demo_starting = demo_remote\<lparr>re_engine := quick_engine\<lparr>ee_preflight :=
     Some (\<lambda>n. Inr \<lparr>pf_ready = True, pf_actions = [(''start'', True)]\<rparr>)\<rparr>\<rparr>"

definition demo_start_plan :: "string list \<Rightarrow> plan_doc" where
  "demo_start_plan requested = describe_plan ''start'' requested
     [quick_step ''db'' ''start'' 2, quick_step ''ui'' ''start'' 2]"

theorem remote_lab_start_refused_witness:
  "remote_lab_plan demo_starting ''start'' (Some ''ui'') demo_identity demo_desk =
      (raise RemoteActionError ''this operation requires stronger confirmation in the Web UI'',
       demo_desk\<lparr>rm_engine := (demo_free demo_start)\<lparr>es_preflights := 1\<rparr>,
                 rm_observed := Suc (rm_observed demo_desk)\<rparr>)
    \<and> plan_risk \<lparr>pl_operation = pd_operation (demo_start_plan [''ui'']),
                  pl_targets = pd_components (demo_start_plan [''db'', ''ui'']),
                  pl_state = [(''ui'', ''running''), (''db'', ''running'')]\<rparr> = Inr Routine
    \<and> \<not> approval_required Routine"
proof -
  have steps: "lab_steps quick_planner ''start'' (Some ''ui'') = Inr (''start'', [''ui''],
      [quick_step ''db'' ''start'' 2, quick_step ''ui'' ''start'' 2])"
    by code_simp
  have lab: "lab_plan (re_engine demo_starting) ''start'' (Some ''ui'') (rm_engine demo_desk)
      = (Inr (demo_start_plan [''ui'']), (demo_free demo_start)\<lparr>es_preflights := 1\<rparr>)"
    by (simp add: lab_plan_def require_action_ready_def read_preflight_def handle_def bindS_def
        demo_starting_def demo_desk_def demo_start_plan_def demo_facts steps Let_def)
      (simp add: demo_free_def demo_idle_def)
  have req: "plan_request (ee_plan (re_engine demo_starting)) (pd_operation (demo_start_plan [''ui'']))
      (pd_components (demo_start_plan [''ui''])) = Inr (demo_start_plan [''db'', ''ui''])"
    by code_simp
  show ?thesis
    by (rule remote_lab_start_refused[OF _ lab req]) (simp_all add: demo_starting_def demo_remote_def)
qed

end
