(* ===== verification/Telegram.thy ===== *)
theory Telegram
  imports Remote
begin

text \<open>
  \<^verbatim>\<open>manager/telegram_observer.py\<close>: the private Telegram adapter over the read service and the remote
  actions. Updates are JSON documents; the Telegram port and the manager port may fail on every call,
  and what was sent and answered is a log.
\<close>

section \<open>State\<close>

record observer =
  ob_user :: string
  ob_chat :: string
  ob_web :: string
  ob_read :: "nat \<Rightarrow> string \<Rightarrow> int \<Rightarrow> client_error + document"
  ob_actions :: "remote_env option"
  ob_clock :: "nat \<Rightarrow> py_datetime"
  ob_send :: "nat \<Rightarrow> unit result"
  ob_answer :: "nat \<Rightarrow> unit result"

record channel =
  ch_remote :: remote_state
  ch_sent :: "(string \<times> string option) list"
  ch_answered :: "(string \<times> string) list"
  ch_reads :: nat
  ch_ticks :: nat
  ch_calls :: nat

type_synonym 'a tg = "(channel, 'a) proc"

section \<open>Sending\<close>

definition callback_data :: "action_command \<Rightarrow> string result" where
  "callback_data a = (case a of OpaqueAction token \<Rightarrow> Inr (''act:'' @ token) | Reading c \<Rightarrow> encode_callback c)"

definition keyboard_button :: "string \<times> action_command \<Rightarrow> json result" where
  "keyboard_button = (\<lambda>(label, a). case callback_data a of
     Inl e \<Rightarrow> Inl e
   | Inr d \<Rightarrow> Inr (JObj [(''text'', JStr label), (''callback_data'', JStr d)]))"

definition markup :: "(string \<times> action_command) list \<Rightarrow> string option result" where
  "markup actions =
     (if actions = [] then Inr None
      else case res_map keyboard_button actions of
        Inl e \<Rightarrow> Inl e
      | Inr buttons \<Rightarrow> Inr (Some (emit (JObj [(''inline_keyboard'', JList [JList buttons])]))))"

text \<open>A message whose delivery fails is not in the log.\<close>

definition tg_port_send :: "observer \<Rightarrow> string \<Rightarrow> string option \<Rightarrow> unit tg" where
  "tg_port_send ob body keys =
     (\<lambda>s. (ob_send ob (ch_calls s),
           s\<lparr>ch_calls := Suc (ch_calls s),
             ch_sent := (if isl (ob_send ob (ch_calls s)) then ch_sent s else ch_sent s @ [(body, keys)])\<rparr>))"

definition tg_port_answer :: "observer \<Rightarrow> string \<Rightarrow> string \<Rightarrow> unit tg" where
  "tg_port_answer ob callback_id note =
     (\<lambda>s. (ob_answer ob (ch_calls s),
           s\<lparr>ch_calls := Suc (ch_calls s),
             ch_answered := (if isl (ob_answer ob (ch_calls s)) then ch_answered s
                             else ch_answered s @ [(callback_id, note)])\<rparr>))"

definition send_message :: "observer \<Rightarrow> message \<Rightarrow> unit tg" where
  "send_message ob m =
     bindS (lift (markup (ms_actions m))) (\<lambda>keys. tg_port_send ob (ms_text m) keys)"

section \<open>Identity and services\<close>

definition obj_member :: "json option \<Rightarrow> string \<Rightarrow> json" where
  "obj_member v k = (case v of Some (JObj ms) \<Rightarrow> getd ms k JNull | _ \<Rightarrow> JNull)"

definition is_object :: "json option \<Rightarrow> bool" where
  "is_object v \<longleftrightarrow> (case v of Some (JObj _) \<Rightarrow> True | _ \<Rightarrow> False)"

definition permitted :: "observer \<Rightarrow> json option \<Rightarrow> json option \<Rightarrow> bool" where
  "permitted ob m sender \<longleftrightarrow>
     is_object m \<and> is_object sender
     \<and> (let chat = Some (obj_member m ''chat'')
        in is_object chat \<and> obj_member chat ''type'' = JStr ''private''
           \<and> str_of (obj_member chat ''id'') = ob_chat ob \<and> str_of (obj_member sender ''id'') = ob_user ob)"

definition channel_identity :: "observer \<Rightarrow> identity tg" where
  "channel_identity ob =
     (\<lambda>s. (mk_identity (''telegram:'' @ ob_user ob) ''telegram'' (''private-chat:'' @ ob_chat ob)
              (ob_clock ob (ch_ticks s)),
           s\<lparr>ch_ticks := Suc (ch_ticks s)\<rparr>))"

definition on_remote :: "'a remote \<Rightarrow> 'a tg" where
  "on_remote m = (\<lambda>s. case m (ch_remote s) of (r, t) \<Rightarrow> (r, s\<lparr>ch_remote := t\<rparr>))"

definition serve_read :: "observer \<Rightarrow> read_command \<Rightarrow> message tg" where
  "serve_read ob c =
     (\<lambda>s. (read_service (ob_web ob) (ob_read ob (ch_reads s)) c,
           s\<lparr>ch_reads := (if rc_kind c = Help then ch_reads s else Suc (ch_reads s))\<rparr>))"

section \<open>Updates\<close>

definition dispatch_callback :: "observer \<Rightarrow> string \<Rightarrow> message tg" where
  "dispatch_callback ob data =
     (case (starts_with ''act:'' data, ob_actions ob) of
        (True, Some env) \<Rightarrow>
          bindS (channel_identity ob) (\<lambda>idn. on_remote (execute_action env (drop 4 data) idn))
      | _ \<Rightarrow> bindS (lift (decode_callback data)) (serve_read ob))"

definition handle_press :: "observer \<Rightarrow> json option \<Rightarrow> bool tg" where
  "handle_press ob cb =
     (if \<not> permitted ob (Some (obj_member cb ''message'')) (Some (obj_member cb ''from'')) then ret False
      else let callback_id = (case cb of Some (JObj ms) \<Rightarrow> str_of (get_text ms ''id'' []) | _ \<Rightarrow> []);
               data = (case cb of Some (JObj ms) \<Rightarrow> str_of (get_text ms ''data'' []) | _ \<Rightarrow> [])
           in thenS (handle
                (bindS (dispatch_callback ob data) (\<lambda>m.
                   thenS (send_message ob m) (tg_port_answer ob callback_id ''Updated'')))
                (\<lambda>e. if catches [PyValueError, PyTypeError, RemoteActionError] e
                     then tg_port_answer ob callback_id ''Action is invalid or expired'' else throw e))
              (ret True))"

definition unknown_command :: "message result" where
  "unknown_command = mk_message ''Unknown read-only command. Use /help.'' [] None"

definition handle_text :: "observer \<Rightarrow> json option \<Rightarrow> bool tg" where
  "handle_text ob m =
     (if \<not> permitted ob m (Some (obj_member m ''from'')) then ret False
      else let line = (case m of Some (JObj ms) \<Rightarrow> str_of (get_text ms ''text'' []) | _ \<Rightarrow> [])
           in if \<not> starts_with ''/'' line then ret True
              else thenS (bindS (handle (bindS (lift (parse_command line)) (serve_read ob))
                            (\<lambda>e. if catches [PyValueError] e then lift unknown_command else throw e))
                          (send_message ob))
                     (ret True))"

definition observer_handle :: "observer \<Rightarrow> document \<Rightarrow> bool tg" where
  "observer_handle ob update =
     (case map_of update ''callback_query'' of
        Some (JObj cb) \<Rightarrow> handle_press ob (Some (JObj cb))
      | _ \<Rightarrow> handle_text ob (map_of update ''message''))"

section \<open>What an update does to the remote actions\<close>

definition from_operator :: "observer \<Rightarrow> document \<Rightarrow> bool" where
  "from_operator ob update \<longleftrightarrow>
     (case map_of update ''callback_query'' of
        Some (JObj cb) \<Rightarrow> permitted ob (Some (obj_member (Some (JObj cb)) ''message''))
                            (Some (obj_member (Some (JObj cb)) ''from''))
      | _ \<Rightarrow> permitted ob (map_of update ''message'') (Some (obj_member (map_of update ''message'') ''from'')))"

definition operator_identity :: "observer \<Rightarrow> identity \<Rightarrow> bool" where
  "operator_identity ob idn \<longleftrightarrow> id_actor idn = ''telegram:'' @ ob_user ob
     \<and> id_session idn = ''private-chat:'' @ ob_chat ob \<and> id_source idn = ''telegram''"

text \<open>The remote state is left alone, or one button is pressed in the operator's name.\<close>

definition press_or_rest :: "observer \<Rightarrow> channel \<Rightarrow> channel \<Rightarrow> bool" where
  "press_or_rest ob s s' \<longleftrightarrow> ch_remote s' = ch_remote s
     \<or> (\<exists>env token idn. ob_actions ob = Some env \<and> operator_identity ob idn
          \<and> ch_remote s' = remote_step env (Press token idn) (ch_remote s))"

definition remote_rests :: "channel \<Rightarrow> channel \<Rightarrow> bool" where
  "remote_rests s s' \<longleftrightarrow> ch_remote s' = ch_remote s"

interpretation rests: evolution remote_rests
  by unfold_locales (simp_all add: remote_rests_def)

lemma rests_calls:
  "evolves remote_rests (tg_port_send ob body keys)" "evolves remote_rests (tg_port_answer ob i note)"
  "evolves remote_rests (channel_identity ob)" "evolves remote_rests (serve_read ob c)"
  by (simp_all add: evolves_def remote_rests_def tg_port_send_def tg_port_answer_def
      channel_identity_def serve_read_def)

lemma rests_send: "evolves remote_rests (send_message ob m)"
  unfolding send_message_def by (intro rests.ev_rules rests_calls)

lemmas rests_rules = rests.ev_rules rests_calls rests_send

lemma press_then_rest:
  assumes "press_or_rest ob s (snd (m s))" and "\<And>x. evolves remote_rests (f x)"
  shows "press_or_rest ob s (snd (bindS m f s))"
proof -
  have "remote_rests (snd (m s)) (snd (bindS m f s))"
    using assms(2) by (auto simp: bindS_def evolves_def rests.R_refl split: prod.splits sum.splits)
  with assms(1) show ?thesis by (simp add: press_or_rest_def remote_rests_def)
qed

lemma handle_then_rest:
  assumes "press_or_rest ob s (snd (m s))" and "\<And>e. evolves remote_rests (h e)"
  shows "press_or_rest ob s (snd (handle m h s))"
proof -
  have "remote_rests (snd (m s)) (snd (handle m h s))"
    using assms(2) by (auto simp: handle_def evolves_def rests.R_refl split: prod.splits sum.splits)
  with assms(1) show ?thesis by (simp add: press_or_rest_def remote_rests_def)
qed

lemma mk_identity_operator:
  "channel_identity ob s = (Inr idn, t) \<Longrightarrow> operator_identity ob idn \<and> ch_remote t = ch_remote s"
  by (auto simp: channel_identity_def mk_identity_def operator_identity_def aware_def
      split: if_splits sum.splits py_datetime.splits)

lemma rest_press: "evolves remote_rests m \<Longrightarrow> press_or_rest ob s (snd (m s))"
  by (simp add: evolves_def remote_rests_def press_or_rest_def)

lemma dispatch_presses: "press_or_rest ob s (snd (dispatch_callback ob data s))"
proof (cases "starts_with ''act:'' data \<and> ob_actions ob \<noteq> None")
  case True
  then obtain env where env: "ob_actions ob = Some env" and st: "starts_with ''act:'' data" by blast
  have step: "dispatch_callback ob data s =
      bindS (channel_identity ob) (\<lambda>idn. on_remote (execute_action env (drop 4 data) idn)) s"
    using env st by (simp add: dispatch_callback_def)
  show ?thesis
  proof (cases "fst (channel_identity ob s)")
    case (Inl e)
    then have "channel_identity ob s = (Inl e, snd (channel_identity ob s))" by (metis prod.collapse)
    then have "snd (dispatch_callback ob data s) = snd (channel_identity ob s)" using step by simp
    then show ?thesis using rest_press[OF rests_calls(3)] by simp
  next
    case (Inr idn)
    then have run: "channel_identity ob s = (Inr idn, snd (channel_identity ob s))" by (metis prod.collapse)
    have who: "operator_identity ob idn" "ch_remote (snd (channel_identity ob s)) = ch_remote s"
      using mk_identity_operator[of ob s idn "snd (channel_identity ob s)"] run by blast+
    have "ch_remote (snd (dispatch_callback ob data s))
        = remote_step env (Press (drop 4 data) idn) (ch_remote s)"
    proof -
      obtain t where t: "channel_identity ob s = (Inr idn, t)" "ch_remote t = ch_remote s"
        using run who(2) by blast
      then show ?thesis using step by (simp add: on_remote_def split: prod.splits)
    qed
    with who env show ?thesis unfolding press_or_rest_def by blast
  qed
next
  case False
  then have "dispatch_callback ob data = bindS (lift (decode_callback data)) (serve_read ob)"
    by (auto simp: dispatch_callback_def split: option.splits bool.splits)
  moreover have "evolves remote_rests (bindS (lift (decode_callback data)) (serve_read ob))"
    by (intro rests_rules)
  ultimately show ?thesis using rest_press by metis
qed

lemma handle_press_presses: "press_or_rest ob s (snd (handle_press ob cb s))"
proof (cases "permitted ob (Some (obj_member cb ''message'')) (Some (obj_member cb ''from''))")
  case False
  then show ?thesis by (simp add: handle_press_def press_or_rest_def)
next
  case True
  have "press_or_rest ob s (snd (thenS (handle
          (bindS (dispatch_callback ob data) (\<lambda>m.
             thenS (send_message ob m) (tg_port_answer ob i ''Updated'')))
          (\<lambda>e. if catches [PyValueError, PyTypeError, RemoteActionError] e
               then tg_port_answer ob i ''Action is invalid or expired'' else throw e))
        (ret True) s))" for data i
    by (rule press_then_rest[OF handle_then_rest[OF press_then_rest[OF dispatch_presses]]])
      (intro rests_rules)+
  with True show ?thesis by (simp add: handle_press_def Let_def)
qed

lemma handle_text_rests: "evolves remote_rests (handle_text ob m)"
  unfolding handle_text_def Let_def by (intro rests_rules)

lemma update_presses: "press_or_rest ob s (snd (observer_handle ob update s))"
  unfolding observer_handle_def
  using handle_press_presses rest_press[OF handle_text_rests]
  by (auto split: option.splits json.splits)

lemma stranger_rests: "\<not> from_operator ob update \<Longrightarrow> observer_handle ob update s = (Inr False, s)"
  by (auto simp: from_operator_def observer_handle_def handle_press_def handle_text_def
      split: option.splits json.splits)

fun run_updates :: "observer \<Rightarrow> document list \<Rightarrow> channel \<Rightarrow> channel" where
  "run_updates ob [] s = s"
| "run_updates ob (u # us) s = run_updates ob us (snd (observer_handle ob u s))"

definition operator_press :: "observer \<Rightarrow> remote_event \<Rightarrow> bool" where
  "operator_press ob e \<longleftrightarrow> (case e of Press token idn \<Rightarrow> operator_identity ob idn | _ \<Rightarrow> False)"


lemma unavailable_press_usable:
  assumes "execute_action env token idn s = (Inl e, s')" and "exn_cls e = RemoteActionUnavailable"
    and "token_hash env token = Inr h" and "rm_calls s h = Some row"
  shows "rm_calls s' = rm_calls s \<and> cb_state row = CbPending"
proof -
  obtain now where now: "re_clock env (rm_ticks s) = Aware now"
    using assms(1,2) by (cases "re_clock env (rm_ticks s)")
      (auto simp: execute_action_def remote_now_def aware_def)
  have ok: "usable row idn \<and> now < cb_expires row"
  proof (rule ccontr)
    assume "\<not> (usable row idn \<and> now < cb_expires row)"
    from execute_refused[OF assms(3,4) now this] assms(1) have "\<exists>m. e = Exn RemoteActionError m" by auto
    with assms(2) show False by auto
  qed
  then have pending: "row\<lparr>cb_state := CbPending\<rparr> = row" by (simp add: usable_def)
  have "rm_calls s' = (rm_calls s)(h \<mapsto> row\<lparr>cb_state := CbPending\<rparr>)"
    using execute_callbacks[OF assms(3,4) now _ _ assms(1)] ok assms(2) by simp
  with pending assms(4) ok show ?thesis by (auto simp: usable_def)
qed

text \<open>
  An outage is shown as an expiry. When the operator presses a button and the action fails because
  the manager is unavailable, the callback is kept usable for another press, but what the operator is
  answered is that the action is invalid or expired.
\<close>

theorem outage_answered_as_expired:
  assumes "map_of update ''callback_query'' = Some (JObj cb)" and "from_operator ob update"
    and "map_of cb ''id'' = Some (JStr i)" and "map_of cb ''data'' = Some (JStr (''act:'' @ token))"
    and "ob_actions ob = Some env" and "channel_identity ob s = (Inr idn, t)"
    and "execute_action env token idn (ch_remote s) = (Inl e, r)"
    and "exn_cls e = RemoteActionUnavailable"
    and "token_hash env token = Inr h" and "rm_calls (ch_remote s) h = Some row"
    and "ob_answer ob (ch_calls s) = Inr ()"
  shows "fst (observer_handle ob update s) = Inr True
    \<and> ch_answered (snd (observer_handle ob update s))
        = ch_answered s @ [(i, ''Action is invalid or expired'')]
    \<and> ch_sent (snd (observer_handle ob update s)) = ch_sent s
    \<and> rm_calls (ch_remote (snd (observer_handle ob update s))) h = Some row
    \<and> cb_state row = CbPending"
proof -
  have t: "t = s\<lparr>ch_ticks := Suc (ch_ticks s)\<rparr>" using assms(6) by (simp add: channel_identity_def)
  have act: "starts_with ''act:'' (''act:'' @ token)" by (simp add: starts_with_def)
  have run: "dispatch_callback ob (''act:'' @ token) s = (Inl e, t\<lparr>ch_remote := r\<rparr>)"
    using assms(5-7) act t by (simp add: dispatch_callback_def on_remote_def)
  have "catches [PyValueError, PyTypeError, RemoteActionError] e"
    using assms(8) by (cases e) (simp add: catches_def is_subclass_def)
  then have "observer_handle ob update s = (Inr True, t\<lparr>ch_remote := r, ch_calls := Suc (ch_calls s),
      ch_answered := ch_answered s @ [(i, ''Action is invalid or expired'')]\<rparr>)"
    using assms(1-4,11) run t
    by (simp add: observer_handle_def handle_press_def from_operator_def getd_def str_of_def
        tg_port_answer_def bindS_def handle_def)
  with unavailable_press_usable[OF assms(7-10)] assms(10) t show ?thesis by simp
qed

section \<open>Witnesses\<close>

definition demo_observer :: observer where
  "demo_observer = \<lparr>ob_user = ''7'', ob_chat = ''11'', ob_web = ''https://m'',
     ob_read = (\<lambda>n. demo_reading), ob_actions = Some demo_remote, ob_clock = (\<lambda>n. Aware 0),
     ob_send = (\<lambda>n. Inr ()), ob_answer = (\<lambda>n. Inr ())\<rparr>"

definition demo_channel :: channel where
  "demo_channel = \<lparr>ch_remote = demo_desk\<lparr>rm_calls := [''tok'' \<mapsto> \<lparr>cb_state = CbPending,
       cb_actor = ''telegram:7'', cb_session = ''private-chat:11'', cb_action = ''pause'',
       cb_reference = ''automation'', cb_expires = minutes 10\<rparr>]\<rparr>,
     ch_sent = [], ch_answered = [], ch_reads = 0, ch_ticks = 0, ch_calls = 0\<rparr>"

definition demo_pressing :: document where
  "demo_pressing = [(''id'', JStr ''cb''), (''data'', JStr ''act:tok''), (''from'', JObj [(''id'', JInt 7)]),
     (''message'', JObj [(''chat'', JObj [(''type'', JStr ''private''), (''id'', JInt 11)])])]"

definition demo_updates :: "document list" where
  "demo_updates = [[(''callback_query'', JObj demo_pressing)],
     [(''message'', JObj [(''from'', JObj [(''id'', JInt 99)]), (''text'', JStr ''/lab'')])]]"


theorem outage_answered_as_expired_witness:
  "fst (observer_handle demo_observer (hd demo_updates) demo_channel) = Inr True
    \<and> ch_answered (snd (observer_handle demo_observer (hd demo_updates) demo_channel))
        = ch_answered demo_channel @ [(''cb'', ''Action is invalid or expired'')]
    \<and> ch_sent (snd (observer_handle demo_observer (hd demo_updates) demo_channel)) = ch_sent demo_channel
    \<and> rm_calls (ch_remote (snd (observer_handle demo_observer (hd demo_updates) demo_channel))) ''tok''
        = Some \<lparr>cb_state = CbPending, cb_actor = ''telegram:7'', cb_session = ''private-chat:11'',
                cb_action = ''pause'', cb_reference = ''automation'', cb_expires = minutes 10\<rparr>
    \<and> cb_state \<lparr>cb_state = CbPending, cb_actor = ''telegram:7'', cb_session = ''private-chat:11'',
                 cb_action = ''pause'', cb_reference = ''automation'', cb_expires = minutes 10\<rparr> = CbPending"
proof -
  let ?idn = "\<lparr>id_actor = ''telegram:7'', id_source = ''telegram'', id_session = ''private-chat:11'',
      id_authenticated = 0\<rparr>"
  let ?e = "Exn RemoteActionUnavailable ''manager is unavailable; authoritative state was not changed''"
  have who: "channel_identity demo_observer demo_channel = (Inr ?idn, demo_channel\<lparr>ch_ticks := 1\<rparr>)"
    by (simp add: channel_identity_def mk_identity_def demo_observer_def demo_channel_def)
  have hash: "token_hash demo_remote ''tok'' = Inr ''tok''" by (simp add: demo_hash demo_facts)
  have port: "re_automation demo_remote = Some (\<lambda>n actor. raise PyOSError ''down'')"
    by (simp add: demo_remote_def)
  have "fst (execute_action demo_remote ''tok'' ?idn (ch_remote demo_channel)) = Inl ?e"
    by (simp add: execute_action_def remote_now_def begin_action_def begin_row_def hash bindS_def
        demo_channel_def demo_desk_def demo_facts port minutes_def seconds_def settled_def
        run_action_def on_port_def reported_def unavailable_error_def catches_def is_subclass_def)
  then have run: "execute_action demo_remote ''tok'' ?idn (ch_remote demo_channel)
      = (Inl ?e, snd (execute_action demo_remote ''tok'' ?idn (ch_remote demo_channel)))"
    by (metis prod.collapse)
  have op: "from_operator demo_observer (hd demo_updates)" by code_simp
  show ?thesis
    by (rule outage_answered_as_expired[OF _ op _ _ _ who run _ hash, where cb = demo_pressing])
      (simp_all add: demo_updates_def demo_pressing_def demo_observer_def demo_channel_def)
qed

end
