(* ===== verification/Availability.thy ===== *)
theory Availability
  imports Complex_Main Comms IsoText
begin

text \<open>
  \<^verbatim>\<open>manager/availability.py\<close>: the approval of observed ingress routes, the probe of one host, and the
  monitor that caches due probes with backoff, jitter and a bounded history. Name resolution, the HTTP
  opener, the clocks and the route observer are parameters. Times in seconds are rationals where Python
  has floats; latencies are whole milliseconds.
\<close>

section \<open>Routes and evidence\<close>

record route =
  ro_endpoint :: string
  ro_host :: string
  ro_tls :: bool
  ro_addresses :: "string list"
  ro_ingress :: "string list"

definition STATES :: "string list" where
  "STATES = [''reachable'', ''degraded'', ''tls-warning'', ''dns-mismatch'', ''unreachable'',
             ''not-configured'', ''unknown'']"

record host_evidence =
  pe_state :: string
  pe_dns :: string
  pe_tls :: string
  pe_http :: string
  pe_latency :: int
  pe_summary :: string

definition mk_evidence ::
    "string \<Rightarrow> string \<Rightarrow> string \<Rightarrow> string \<Rightarrow> int \<Rightarrow> string \<Rightarrow> host_evidence result" where
  "mk_evidence state dns tls http latency summary =
     (if state \<notin> set STATES then raise PyValueError ''unsupported availability state''
      else Inr \<lparr>pe_state = state, pe_dns = dns, pe_tls = tls, pe_http = http, pe_latency = latency,
                pe_summary = summary\<rparr>)"

section \<open>Probing one host\<close>

text \<open>
  \<open>LookupFailed\<close> stands for the exceptions of the resolution that the probe handles (\<^verbatim>\<open>OSError\<close>,
  \<^verbatim>\<open>UnicodeError\<close>, the timeout of the future); \<open>UrlFailed\<close> says whether the reason is an \<^verbatim>\<open>SSLError\<close>.
\<close>

datatype lookup = Addresses "string list" | LookupFailed | LookupRaised exn

datatype opened = Status int | StatusError int | UrlFailed bool | OpenRaised exn

record host =
  ho_lookup :: "string \<Rightarrow> int \<Rightarrow> lookup"
  ho_open :: "string \<Rightarrow> opened"
  ho_elapsed :: int

definition host_result ::
    "host \<Rightarrow> string \<Rightarrow> string \<Rightarrow> string \<Rightarrow> string \<Rightarrow> string \<Rightarrow> host_evidence result" where
  "host_result h state dns tls http summary =
     mk_evidence state dns tls http (max 0 (ho_elapsed h)) summary"

definition refused_connection :: "host \<Rightarrow> route \<Rightarrow> host_evidence result" where
  "refused_connection h r =
     host_result h ''unreachable'' ''resolved'' (if ro_tls r then ''failed'' else ''not-configured'')
       ''unreachable'' ''The service did not accept an HTTP connection''"

definition judge_status :: "host \<Rightarrow> route \<Rightarrow> int \<Rightarrow> host_evidence result" where
  "judge_status h r status =
     (let tls = (if ro_tls r then ''valid'' else ''not-configured'')
      in if 300 \<le> status \<and> status < 400
         then host_result h ''degraded'' ''resolved'' tls (''redirect-'' @ emit_int status)
                ''The service returned a redirect; redirects are not followed''
         else if status \<ge> 500
         then host_result h ''degraded'' ''resolved'' tls (''status-'' @ emit_int status)
                ''The service returned a server error''
         else host_result h ''reachable'' ''resolved'' tls (''status-'' @ emit_int status)
                ''The service returned an HTTP response'')"

definition probe_url :: "route \<Rightarrow> string" where
  "probe_url r = (if ro_tls r then ''https'' else ''http'') @ ''://'' @ ro_host r @ ''/''"

definition open_route :: "host \<Rightarrow> route \<Rightarrow> host_evidence result" where
  "open_route h r =
     (case ho_open h (probe_url r) of
        Status n \<Rightarrow> judge_status h r n
      | StatusError n \<Rightarrow> judge_status h r n
      | UrlFailed ssl \<Rightarrow>
          if ssl then host_result h ''tls-warning'' ''resolved'' ''warning'' ''not-attempted''
                        ''TLS certificate validation failed''
          else refused_connection h r
      | OpenRaised e \<Rightarrow>
          if catches [PyOSError, PyTimeoutError] e then refused_connection h r else Inl e)"

definition host_probe :: "host \<Rightarrow> route \<Rightarrow> host_evidence result" where
  "host_probe h r =
     (case ho_lookup h (ro_host r) (if ro_tls r then 443 else 80) of
        LookupFailed \<Rightarrow> host_result h ''unreachable'' ''failed'' ''not-attempted'' ''not-attempted''
                          ''DNS resolution failed''
      | LookupRaised e \<Rightarrow> Inl e
      | Addresses found \<Rightarrow>
          if ro_addresses r \<noteq> [] \<and> set found \<noteq> set (ro_addresses r)
          then host_result h ''dns-mismatch'' ''mismatch'' ''not-attempted'' ''not-attempted''
                 ''DNS does not resolve to the configured public address''
          else open_route h r)"

definition safe_probe :: "host_evidence result \<Rightarrow> host_evidence" where
  "safe_probe r =
     (case r of
        Inr e \<Rightarrow> e
      | Inl _ \<Rightarrow> \<lparr>pe_state = ''unknown'', pe_dns = ''unknown'', pe_tls = ''unknown'', pe_http = ''unknown'',
                  pe_latency = 0, pe_summary = ''Availability evidence could not be collected''\<rparr>)"

section \<open>Endpoints and approved routes\<close>

text \<open>A component of the registry, as far as its document is read here.\<close>

record web_component =
  wc_id :: string
  wc_name :: string
  wc_label :: "string option"

record endpoint =
  en_id :: string
  en_component :: string
  en_name :: string
  en_label :: string

definition web_endpoint :: "web_component \<Rightarrow> endpoint option" where
  "web_endpoint c = map_option
     (\<lambda>l. \<lparr>en_id = wc_id c, en_component = wc_id c, en_name = wc_name c, en_label = l\<rparr>) (wc_label c)"

definition endpoints :: "web_component list \<Rightarrow> endpoint list" where
  "endpoints cs =
     \<lparr>en_id = ''manager'', en_component = ''manager'', en_name = ''Fortify Lab Manager'',
      en_label = ''lab''\<rparr> # List.map_filter web_endpoint cs"

definition alnum :: "char \<Rightarrow> bool" where
  "alnum c \<longleftrightarrow> word_char c \<and> c \<noteq> CHR ''_''"

definition upper_case :: "char \<Rightarrow> bool" where
  "upper_case c \<longleftrightarrow> 65 \<le> code c \<and> code c \<le> 90 \<or> 192 \<le> code c \<and> code c \<le> 222 \<and> code c \<noteq> 215"

definition dns_label :: "string \<Rightarrow> bool" where
  "dns_label part \<longleftrightarrow> part \<noteq> [] \<and> length part \<le> 63 \<and> alnum (hd part) \<and> alnum (last part)
     \<and> list_all (\<lambda>c. alnum c \<or> c = CHR ''-'') part"

text \<open>
  A host of lower case labels is what \<^verbatim>\<open>urlsplit\<close> returns as the hostname of its URL, so the first test
  of the source follows from the others.
\<close>

definition valid_host :: "string \<Rightarrow> string \<Rightarrow> bool" where
  "valid_host h label \<longleftrightarrow> list_all (\<lambda>c. \<not> upper_case c) h \<and> starts_with (label @ ''.'') h
     \<and> length h \<le> 253 \<and> list_all dns_label (split_on (CHR ''.'') h)"

definition host_domain :: "string \<Rightarrow> string" where
  "host_domain h = tl (dropWhile (\<lambda>c. c \<noteq> CHR ''.'') h)"

definition find_endpoint :: "web_component list \<Rightarrow> string \<Rightarrow> endpoint option" where
  "find_endpoint cs k = map_of (rev (map (\<lambda>e. (en_id e, e)) (endpoints cs))) k"

definition acceptable :: "web_component list \<Rightarrow> string \<Rightarrow> route \<Rightarrow> bool" where
  "acceptable cs domain r \<longleftrightarrow>
     (case find_endpoint cs (ro_endpoint r) of
        None \<Rightarrow> False
      | Some e \<Rightarrow> ro_tls r \<and> valid_host (ro_host r) (en_label e) \<and> host_domain (ro_host r) = domain)"

fun approve_routes ::
    "web_component list \<Rightarrow> string \<Rightarrow> route list \<Rightarrow> route list \<Rightarrow> route list" where
  "approve_routes cs domain [] acc = acc"
| "approve_routes cs domain (r # rs) acc =
     (if acceptable cs domain r \<and> ro_endpoint r \<notin> ro_endpoint ` set acc
      then approve_routes cs domain rs (acc @ [r])
      else approve_routes cs domain rs acc)"

definition approved_routes :: "web_component list \<Rightarrow> route list result \<Rightarrow> route list option" where
  "approved_routes cs observed =
     (case observed of
        Inl _ \<Rightarrow> None
      | Inr rs \<Rightarrow>
          (case find (\<lambda>r. ro_endpoint r = ''manager'' \<and> valid_host (ro_host r) ''lab'') rs of
             None \<Rightarrow> Some []
           | Some m \<Rightarrow> Some (approve_routes cs (host_domain (ro_host m)) rs [])))"

section \<open>The monitor\<close>

record monitor =
  mo_components :: "web_component list"
  mo_interval :: rat
  mo_backoff :: rat
  mo_concurrency :: nat
  mo_history :: nat

definition mk_monitor :: "web_component list \<Rightarrow> rat \<Rightarrow> rat \<Rightarrow> int \<Rightarrow> int \<Rightarrow> monitor" where
  "mk_monitor cs interval backoff concurrency history =
     (let i = min (max interval 5) 300
      in \<lparr>mo_components = cs, mo_interval = i, mo_backoff = min (max backoff i) 900,
          mo_concurrency = nat (min (max concurrency 1) 8), mo_history = nat (min (max history 1) 48)\<rparr>)"

record sample =
  sa_state :: string
  sa_checked :: string
  sa_latency :: int

record availability_item =
  ai_id :: string
  ai_component :: string
  ai_name :: string
  ai_url :: "string option"
  ai_state :: string
  ai_dns :: string
  ai_tls :: string
  ai_http :: string
  ai_latency :: "int option"
  ai_checked :: "string option"
  ai_summary :: string

record cache =
  ca_results :: "string \<rightharpoonup> availability_item"
  ca_history :: "string \<Rightarrow> sample list"
  ca_failures :: "string \<Rightarrow> nat"
  ca_due :: "string \<Rightarrow> rat"
  ca_polling :: "string list"

definition fresh_cache :: cache where
  "fresh_cache = \<lparr>ca_results = Map.empty, ca_history = (\<lambda>_. []), ca_failures = (\<lambda>_. 0),
                  ca_due = (\<lambda>_. 0), ca_polling = []\<rparr>"

definition due_routes :: "rat \<Rightarrow> route list \<Rightarrow> cache \<Rightarrow> route list" where
  "due_routes now routes s =
     filter (\<lambda>r. now \<ge> ca_due s (ro_endpoint r) \<and> ro_endpoint r \<notin> set (ca_polling s)) routes"

definition claim_routes :: "route list \<Rightarrow> cache \<Rightarrow> cache" where
  "claim_routes due s = s\<lparr>ca_polling := ca_polling s @ map ro_endpoint due\<rparr>"

definition jitter :: "string \<Rightarrow> rat" where
  "jitter k = of_nat (90 + sum_list (map code k) mod 21) / 100"

definition poll_delay :: "monitor \<Rightarrow> bool \<Rightarrow> nat \<Rightarrow> rat" where
  "poll_delay mo reachable failures =
     min (mo_backoff mo) (mo_interval mo * (if reachable then 1 else 2 ^ min failures 4))"

definition result_item :: "endpoint \<Rightarrow> route \<Rightarrow> host_evidence \<Rightarrow> string \<Rightarrow> availability_item" where
  "result_item e r ev checked =
     \<lparr>ai_id = ro_endpoint r, ai_component = en_component e, ai_name = en_name e,
      ai_url = Some (''https://'' @ ro_host r @ ''/''), ai_state = pe_state ev, ai_dns = pe_dns ev,
      ai_tls = pe_tls ev, ai_http = pe_http ev, ai_latency = Some (pe_latency ev),
      ai_checked = Some checked, ai_summary = pe_summary ev\<rparr>"

definition record_result :: "monitor \<Rightarrow> rat \<Rightarrow> string \<Rightarrow> route \<Rightarrow> host_evidence \<Rightarrow> cache \<Rightarrow> cache" where
  "record_result mo now checked r ev s =
     (case find (\<lambda>e. en_id e = ro_endpoint r) (endpoints (mo_components mo)) of
        None \<Rightarrow> s
      | Some e \<Rightarrow>
          let k = ro_endpoint r; up = (pe_state ev = ''reachable'');
              failures = (if up then 0 else Suc (ca_failures s k))
          in s\<lparr>ca_failures := (ca_failures s)(k := failures),
               ca_due := (ca_due s)(k := now + poll_delay mo up failures * jitter k),
               ca_results := (ca_results s)(k \<mapsto> result_item e r ev checked),
               ca_history := (ca_history s)(k := take (mo_history mo)
                 (\<lparr>sa_state = pe_state ev, sa_checked = checked, sa_latency = pe_latency ev\<rparr>
                  # ca_history s k))\<rparr>)"

fun record_all ::
    "monitor \<Rightarrow> rat \<Rightarrow> (route \<times> host_evidence \<times> string) list \<Rightarrow> cache \<Rightarrow> cache" where
  "record_all mo now [] s = s"
| "record_all mo now ((r, ev, checked) # rs) s =
     record_all mo now rs (record_result mo now checked r ev s)"

definition release_routes :: "route list \<Rightarrow> cache \<Rightarrow> cache" where
  "release_routes due s =
     s\<lparr>ca_polling := filter (\<lambda>k. k \<notin> ro_endpoint ` set due) (ca_polling s)\<rparr>"

definition not_configured :: "endpoint \<Rightarrow> availability_item" where
  "not_configured e =
     \<lparr>ai_id = en_id e, ai_component = en_component e, ai_name = en_name e, ai_url = None,
      ai_state = ''not-configured'', ai_dns = ''not-attempted'', ai_tls = ''not-attempted'',
      ai_http = ''not-attempted'', ai_latency = None, ai_checked = None,
      ai_summary = ''No approved observed ingress route is configured''\<rparr>"

definition unknown_item :: "endpoint \<Rightarrow> route option \<Rightarrow> availability_item" where
  "unknown_item e r = (not_configured e)
     \<lparr>ai_url := map_option (\<lambda>x. ''https://'' @ ro_host x @ ''/'') r, ai_state := ''unknown'',
      ai_summary := (if r = None then ''Ingress route evidence could not be collected''
                     else ''The approved route has not been checked'')\<rparr>"

definition shown_item :: "route list option \<Rightarrow> cache \<Rightarrow> endpoint \<Rightarrow> availability_item" where
  "shown_item routes s e =
     (case routes of
        None \<Rightarrow> unknown_item e None
      | Some rs \<Rightarrow>
          (case find (\<lambda>r. ro_endpoint r = en_id e) rs of
             None \<Rightarrow> not_configured e
           | Some r \<Rightarrow> (case ca_results s (en_id e) of
                None \<Rightarrow> unknown_item e (Some r) | Some it \<Rightarrow> it)))"

definition shown_items :: "monitor \<Rightarrow> route list option \<Rightarrow> cache \<Rightarrow> (availability_item \<times> sample list) list" where
  "shown_items mo routes s =
     map (\<lambda>e. (shown_item routes s e, ca_history s (en_id e))) (endpoints (mo_components mo))"

text \<open>
  One call of \<^verbatim>\<open>document\<close> with no other call in between: the routes are observed, due ones are claimed,
  probed (\<open>probe\<close>), recorded with the time text of their record (\<open>checked\<close>) and released.
\<close>

definition poll ::
    "monitor \<Rightarrow> rat \<Rightarrow> (route \<Rightarrow> host_evidence result) \<Rightarrow> (nat \<Rightarrow> string) \<Rightarrow> route list \<Rightarrow> cache \<Rightarrow> cache" where
  "poll mo now probe checked routes s =
     (let due = due_routes now routes s;
          found = map (\<lambda>r. safe_probe (probe r)) due
      in if due = [] then s
         else release_routes due (record_all mo now
                (zip due (zip found (map checked [0..<length due]))) (claim_routes due s)))"

definition availability_document ::
    "monitor \<Rightarrow> rat \<Rightarrow> (route \<Rightarrow> host_evidence result) \<Rightarrow> (nat \<Rightarrow> string) \<Rightarrow> route list result \<Rightarrow> cache
       \<Rightarrow> (availability_item \<times> sample list) list \<times> cache" where
  "availability_document mo now probe checked observed s =
     (let routes = approved_routes (mo_components mo) observed;
          s' = poll mo now probe checked (case routes of None \<Rightarrow> [] | Some rs \<Rightarrow> rs) s
      in (shown_items mo routes s', s'))"

section \<open>Approved routes\<close>

lemma approve_routes_ok:
  assumes "list_all (acceptable cs domain) acc" and "distinct (map ro_endpoint acc)" and "set acc \<subseteq> set all"
    and "set rs \<subseteq> set all"
  shows "list_all (acceptable cs domain) (approve_routes cs domain rs acc)
    \<and> distinct (map ro_endpoint (approve_routes cs domain rs acc))
    \<and> set (approve_routes cs domain rs acc) \<subseteq> set all"
  using assms by (induction cs domain rs acc rule: approve_routes.induct) auto

lemma approved_ok:
  assumes "approved_routes cs (Inr observed) = Some routes"
  shows "set routes \<subseteq> set observed" and "distinct (map ro_endpoint routes)"
    and "routes \<noteq> [] \<longrightarrow> (\<exists>m\<in>set observed. ro_endpoint m = ''manager'' \<and> valid_host (ro_host m) ''lab''
           \<and> list_all (acceptable cs (host_domain (ro_host m))) routes)"
proof -
  let ?anchor = "\<lambda>r. ro_endpoint r = ''manager'' \<and> valid_host (ro_host r) ''lab''"
  have "set routes \<subseteq> set observed \<and> distinct (map ro_endpoint routes)
    \<and> (routes \<noteq> [] \<longrightarrow> (\<exists>m\<in>set observed. ?anchor m
           \<and> list_all (acceptable cs (host_domain (ro_host m))) routes))"
  proof (cases "find ?anchor observed")
    case None
    with assms show ?thesis by (simp add: approved_routes_def)
  next
    case (Some m)
    then have "m \<in> set observed" "?anchor m" by (auto simp: find_Some_iff)
    moreover have "routes = approve_routes cs (host_domain (ro_host m)) observed []"
      using assms Some by (simp add: approved_routes_def)
    ultimately show ?thesis
      using approve_routes_ok[of cs "host_domain (ro_host m)" "[]" observed observed] by auto
  qed
  then show "set routes \<subseteq> set observed" "distinct (map ro_endpoint routes)"
    "routes \<noteq> [] \<longrightarrow> (\<exists>m\<in>set observed. ro_endpoint m = ''manager'' \<and> valid_host (ro_host m) ''lab''
           \<and> list_all (acceptable cs (host_domain (ro_host m))) routes)" by blast+
qed

definition registered :: "web_component list \<Rightarrow> route \<Rightarrow> bool" where
  "registered cs r \<longleftrightarrow> find (\<lambda>e. en_id e = ro_endpoint r) (endpoints cs) \<noteq> None"

lemma find_endpoint_Some: "find_endpoint cs k = Some e \<Longrightarrow> e \<in> set (endpoints cs) \<and> en_id e = k"
  by (auto simp: find_endpoint_def dest: map_of_SomeD)

lemma acceptable_registered: "acceptable cs domain r \<Longrightarrow> registered cs r"
  by (auto simp: acceptable_def registered_def find_None_iff dest: find_endpoint_Some split: option.splits)

lemma approved_registered:
  "approved_routes cs (Inr observed) = Some routes \<Longrightarrow> list_all (registered cs) routes"
  using approved_ok(3)[of cs observed routes] acceptable_registered
  by (cases "routes = []") (auto simp: list_all_iff)

section \<open>Interleaved calls\<close>

text \<open>
  \<^verbatim>\<open>document\<close> holds the lock while it claims its routes and again while it records and releases them;
  between the two, other calls may do the same. \<open>wo_jobs\<close> are the calls that have claimed and not yet
  recorded, with the time they read at their start, and \<open>wo_claims\<close> the claims, the newest first.
\<close>

record world =
  wo_cache :: cache
  wo_jobs :: "(rat \<times> route list) list"
  wo_claims :: "(string \<times> rat) list"

definition fresh_world :: world where
  "fresh_world = \<lparr>wo_cache = fresh_cache, wo_jobs = [], wo_claims = []\<rparr>"

inductive document_step :: "monitor \<Rightarrow> world \<Rightarrow> world \<Rightarrow> bool" for mo where
  claim: "approved_routes (mo_components mo) (Inr observed) = Some routes \<Longrightarrow>
    due = due_routes now routes (wo_cache w) \<Longrightarrow>
    document_step mo w \<lparr>wo_cache = claim_routes due (wo_cache w), wo_jobs = (now, due) # wo_jobs w,
      wo_claims = map (\<lambda>r. (ro_endpoint r, now)) due @ wo_claims w\<rparr>"
| answer: "(now, due) \<in> set (wo_jobs w) \<Longrightarrow> length found = length due \<Longrightarrow>
    document_step mo w (w\<lparr>wo_cache :=
        release_routes due (record_all mo now (zip due found) (wo_cache w)),
      wo_jobs := remove1 (now, due) (wo_jobs w)\<rparr>)"

definition job_keys :: "world \<Rightarrow> string list" where
  "job_keys w = concat (map (\<lambda>(now, due). map ro_endpoint due) (wo_jobs w))"

fun spaced :: "rat \<Rightarrow> rat list \<Rightarrow> bool" where
  "spaced g (x # y # zs) \<longleftrightarrow> y + g \<le> x \<and> spaced g (y # zs)"
| "spaced g _ \<longleftrightarrow> True"

text \<open>The times at which the endpoint \<open>k\<close> was claimed, the newest first.\<close>

definition stamps :: "string \<Rightarrow> (string \<times> rat) list \<Rightarrow> rat list" where
  "stamps k claims = map snd (filter (\<lambda>c. fst c = k) claims)"

definition gap :: "monitor \<Rightarrow> rat" where
  "gap mo = mo_interval mo * (9 / 10)"

definition job_ok :: "monitor \<Rightarrow> (string \<times> rat) list \<Rightarrow> rat \<times> route list \<Rightarrow> bool" where
  "job_ok mo claims j \<longleftrightarrow> list_all (registered (mo_components mo)) (snd j)
     \<and> (\<forall>k\<in>ro_endpoint ` set (snd j). \<exists>ns. stamps k claims = fst j # ns)"

definition world_ok :: "monitor \<Rightarrow> world \<Rightarrow> bool" where
  "world_ok mo w \<longleftrightarrow>
     distinct (job_keys w) \<and> set (ca_polling (wo_cache w)) = set (job_keys w)
   \<and> list_all (job_ok mo (wo_claims w)) (wo_jobs w)
   \<and> (\<forall>k. spaced (gap mo) (stamps k (wo_claims w)))
   \<and> (\<forall>k n ns. k \<notin> set (job_keys w) \<longrightarrow> stamps k (wo_claims w) = n # ns \<longrightarrow>
         n + gap mo \<le> ca_due (wo_cache w) k)
   \<and> (\<forall>k. length (ca_history (wo_cache w) k) \<le> mo_history mo)"

lemma jitter_bounds: "9 / 10 \<le> jitter k" "jitter k \<le> 11 / 10"
proof -
  have "sum_list (map code k) mod 21 \<le> 20"
    using mod_less_divisor[of 21 "sum_list (map code k)"] by linarith
  then have "(of_nat (sum_list (map code k) mod 21) :: rat) \<le> 20"
    by (metis of_nat_le_iff of_nat_numeral)
  then show "9 / 10 \<le> jitter k" "jitter k \<le> 11 / 10" by (simp_all add: jitter_def)
qed

lemma poll_delay_bounds:
  assumes "0 < mo_interval mo" and "mo_interval mo \<le> mo_backoff mo"
  shows "mo_interval mo \<le> poll_delay mo up n" and "poll_delay mo up n \<le> mo_backoff mo"
proof -
  have "(1 :: rat) \<le> 2 ^ min n 4" by simp
  then have "mo_interval mo \<le> mo_interval mo * 2 ^ min n 4"
    using assms(1) by (simp add: mult_le_cancel_left1)
  with assms(2) show "mo_interval mo \<le> poll_delay mo up n" "poll_delay mo up n \<le> mo_backoff mo"
    by (auto simp: poll_delay_def)
qed

lemma delay_gap:
  assumes "0 < mo_interval mo" and "mo_interval mo \<le> mo_backoff mo"
  shows "gap mo \<le> poll_delay mo up n * jitter k"
proof -
  have "mo_interval mo * (9 / 10) \<le> poll_delay mo up n * jitter k"
    using poll_delay_bounds(1)[OF assms, of up n] jitter_bounds(1)[of k] assms(1)
    by (intro mult_mono) auto
  then show ?thesis by (simp add: gap_def)
qed

lemma record_result_due:
  assumes "registered (mo_components mo) r" and "0 < mo_interval mo" and "mo_interval mo \<le> mo_backoff mo"
  shows "now + gap mo \<le> ca_due (record_result mo now checked r ev s) (ro_endpoint r)"
  using assms delay_gap[OF assms(2,3)]
  by (auto simp: registered_def record_result_def Let_def)

lemma record_result_frame:
  "k \<noteq> ro_endpoint r \<Longrightarrow> ca_due (record_result mo now checked r ev s) k = ca_due s k"
  "ca_polling (record_result mo now checked r ev s) = ca_polling s"
  "length (ca_history s k) \<le> mo_history mo \<Longrightarrow>
   length (ca_history (record_result mo now checked r ev s) k) \<le> mo_history mo"
  by (auto simp: record_result_def Let_def split: option.splits)

lemma record_all_frame:
  "k \<notin> ro_endpoint ` fst ` set rs \<Longrightarrow> ca_due (record_all mo now rs s) k = ca_due s k"
  "ca_polling (record_all mo now rs s) = ca_polling s"
  by (induction mo now rs s rule: record_all.induct) (auto simp: record_result_frame)

lemma record_all_history:
  "\<forall>k. length (ca_history s k) \<le> mo_history mo \<Longrightarrow>
   length (ca_history (record_all mo now rs s) k) \<le> mo_history mo"
  by (induction mo now rs s rule: record_all.induct) (auto simp: record_result_frame(3))

lemma record_all_due:
  assumes "list_all (registered (mo_components mo)) (map fst rs)"
    and "0 < mo_interval mo" and "mo_interval mo \<le> mo_backoff mo" and "k \<in> ro_endpoint ` fst ` set rs"
  shows "now + gap mo \<le> ca_due (record_all mo now rs s) k"
  using assms(1,4)
proof (induction rs arbitrary: s)
  case (Cons x rs)
  obtain r ev checked where x: "x = (r, ev, checked)" by (cases x)
  show ?case
  proof (cases "k \<in> ro_endpoint ` fst ` set rs")
    case True
    with Cons x show ?thesis by simp
  next
    case False
    then have "k = ro_endpoint r" using Cons.prems x by auto
    with False Cons.prems x record_result_due[OF _ assms(2,3)] record_all_frame(1)[OF False]
    show ?thesis by simp
  qed
qed simp

lemma spaced_Cons: "spaced g (x # ys) \<longleftrightarrow> (case ys of [] \<Rightarrow> True | y # _ \<Rightarrow> y + g \<le> x) \<and> spaced g ys"
  by (cases ys) auto

lemma stamps_claim:
  assumes "distinct (map ro_endpoint due)"
  shows "stamps k (map (\<lambda>r. (ro_endpoint r, now)) due @ claims)
    = (if k \<in> ro_endpoint ` set due then now # stamps k claims else stamps k claims)"
proof -
  have "map snd (filter (\<lambda>c. fst c = k) (map (\<lambda>r. (ro_endpoint r, now)) due))
    = (if k \<in> ro_endpoint ` set due then [now] else [])"
    using assms by (induction due) auto
  then show ?thesis by (simp add: stamps_def)
qed

lemma due_routes_ok:
  assumes "list_all (registered cs) routes" and "distinct (map ro_endpoint routes)"
  shows "list_all (registered cs) (due_routes now routes s)"
    and "distinct (map ro_endpoint (due_routes now routes s))"
    and "k \<in> ro_endpoint ` set (due_routes now routes s) \<Longrightarrow> k \<notin> set (ca_polling s) \<and> ca_due s k \<le> now"
  using assms by (auto simp: due_routes_def list_all_iff distinct_map inj_on_def)

lemma job_keysI: "j \<in> set (wo_jobs w) \<Longrightarrow> k \<in> ro_endpoint ` set (snd j) \<Longrightarrow> k \<in> set (job_keys w)"
  by (cases j) (auto simp: job_keys_def intro!: bexI[of _ j])

lemma claim_keeps:
  assumes ok: "world_ok mo w"
    and routes: "list_all (registered (mo_components mo)) routes" "distinct (map ro_endpoint routes)"
    and due: "due = due_routes now routes (wo_cache w)"
  shows "world_ok mo \<lparr>wo_cache = claim_routes due (wo_cache w), wo_jobs = (now, due) # wo_jobs w,
      wo_claims = map (\<lambda>r. (ro_endpoint r, now)) due @ wo_claims w\<rparr>" (is "world_ok mo ?w")
proof -
  note due_ok = due_routes_ok[OF routes, where now = now and s = "wo_cache w", folded due]
  have keys: "job_keys ?w = map ro_endpoint due @ job_keys w" by (simp add: job_keys_def)
  have free: "k \<notin> set (job_keys w)" if "k \<in> ro_endpoint ` set due" for k
    using due_ok(3)[of k] that ok by (simp add: world_ok_def)
  note stamps = stamps_claim[OF due_ok(2), of _ now "wo_claims w"]
  have gap: "n + gap mo \<le> now" if "k \<in> ro_endpoint ` set due" "stamps k (wo_claims w) = n # ns" for k n ns
  proof -
    have "n + gap mo \<le> ca_due (wo_cache w) k" using ok free[OF that(1)] that(2) by (simp add: world_ok_def)
    also have "\<dots> \<le> now" using due_ok(3)[OF that(1)] by simp
    finally show ?thesis .
  qed
  note old = job_keysI[of _ w]
  have new: "job_ok mo (wo_claims ?w) (now, due)" using due_ok(1) by (simp add: job_ok_def stamps)
  have kept: "job_ok mo (wo_claims ?w) j" if j: "j \<in> set (wo_jobs w)" for j
  proof -
    have "stamps k (wo_claims ?w) = stamps k (wo_claims w)" if "k \<in> ro_endpoint ` set (snd j)" for k
      using free old[OF j that] by (auto simp: stamps)
    moreover have "job_ok mo (wo_claims w) j" using ok j by (simp add: world_ok_def list_all_iff)
    ultimately show ?thesis by (simp add: job_ok_def)
  qed
  show ?thesis
    unfolding world_ok_def
  proof (intro conjI allI impI)
    show "distinct (job_keys ?w)" using ok due_ok(2) free by (auto simp: keys world_ok_def)
    show "set (ca_polling (wo_cache ?w)) = set (job_keys ?w)"
      using ok unfolding keys by (auto simp: claim_routes_def world_ok_def)
    show "list_all (job_ok mo (wo_claims ?w)) (wo_jobs ?w)"
      using new kept by (simp add: list_all_iff)
    show "spaced (gap mo) (stamps k (wo_claims ?w))" for k
      using ok gap[of k] by (auto simp: stamps spaced_Cons world_ok_def split: list.split)
    show "n + gap mo \<le> ca_due (wo_cache ?w) k"
      if "k \<notin> set (job_keys ?w)" "stamps k (wo_claims ?w) = n # ns" for k n ns
      using that(2) that(1)[unfolded keys] ok
      by (auto simp: stamps claim_routes_def world_ok_def split: if_splits)
    show "length (ca_history (wo_cache ?w) k) \<le> mo_history mo" for k
      using ok by (simp add: claim_routes_def world_ok_def)
  qed
qed

lemma job_keys_remove:
  assumes "j \<in> set (wo_jobs w)"
  shows "\<exists>xs ys. job_keys w = xs @ map ro_endpoint (snd j) @ ys
    \<and> job_keys (w\<lparr>wo_cache := s, wo_jobs := remove1 j (wo_jobs w)\<rparr>) = xs @ ys"
proof -
  obtain us vs where jobs: "wo_jobs w = us @ j # vs" and "j \<notin> set us"
    using split_list_first[OF assms] by blast
  then have "remove1 j (wo_jobs w) = us @ vs" by (simp add: remove1_append)
  moreover define f where "f = (\<lambda>(now :: rat, due :: route list). map ro_endpoint due)"
  ultimately show ?thesis
    using jobs by (intro exI[of _ "concat (map f us)"] exI[of _ "concat (map f vs)"])
      (auto simp: job_keys_def f_def split_beta)
qed

lemma answer_keeps:
  assumes ok: "world_ok mo w" and job: "(now, due) \<in> set (wo_jobs w)" and found: "length found = length due"
    and pos: "0 < mo_interval mo" "mo_interval mo \<le> mo_backoff mo"
  shows "world_ok mo (w\<lparr>wo_cache := release_routes due (record_all mo now (zip due found) (wo_cache w)),
      wo_jobs := remove1 (now, due) (wo_jobs w)\<rparr>)" (is "world_ok mo ?w")
proof -
  let ?s = "record_all mo now (zip due found) (wo_cache w)"
  obtain xs ys where keys: "job_keys w = xs @ map ro_endpoint due @ ys" and rest: "job_keys ?w = xs @ ys"
    using job_keys_remove[OF job, of "release_routes due ?s"] by auto
  have reg: "list_all (registered (mo_components mo)) due"
    and held: "\<forall>k\<in>ro_endpoint ` set due. \<exists>ns. stamps k (wo_claims w) = now # ns"
    using ok job by (auto simp: world_ok_def list_all_iff job_ok_def)
  have fst_zip: "fst ` set (zip due found) = set due"
    using found by (metis map_fst_zip list.set_map)
  have due_at: "now + gap mo \<le> ca_due ?s k" if "k \<in> ro_endpoint ` set due" for k
    using record_all_due[OF _ pos, of "zip due found" k now "wo_cache w"] reg found that
    by (simp add: fst_zip)
  show ?thesis
    unfolding world_ok_def
  proof (intro conjI allI impI)
    show "distinct (job_keys ?w)" using ok unfolding rest by (auto simp: keys world_ok_def)
    show "set (ca_polling (wo_cache ?w)) = set (job_keys ?w)"
      using ok unfolding rest by (auto simp: keys release_routes_def record_all_frame(2) world_ok_def)
    show "list_all (job_ok mo (wo_claims ?w)) (wo_jobs ?w)"
      using ok set_remove1_subset[of "(now, due)" "wo_jobs w"] by (auto simp: world_ok_def list_all_iff)
    show "spaced (gap mo) (stamps k (wo_claims ?w))" for k using ok by (simp add: world_ok_def)
    show "n + gap mo \<le> ca_due (wo_cache ?w) k"
      if free: "k \<notin> set (job_keys ?w)" and last: "stamps k (wo_claims ?w) = n # ns" for k n ns
    proof (cases "k \<in> ro_endpoint ` set due")
      case True
      then have "n = now" using held last by fastforce
      with True due_at[of k] show ?thesis by (simp add: release_routes_def)
    next
      case False
      then have "k \<notin> set (job_keys w)" using free unfolding rest by (simp add: keys)
      then have "n + gap mo \<le> ca_due (wo_cache w) k" using ok last by (simp add: world_ok_def)
      with False show ?thesis
        by (simp add: release_routes_def record_all_frame(1) fst_zip)
    qed
    show "length (ca_history (wo_cache ?w) k) \<le> mo_history mo" for k
      using ok by (simp add: release_routes_def record_all_history world_ok_def)
  qed
qed

lemma document_step_keeps:
  assumes "document_step mo w w'" and "world_ok mo w" and "0 < mo_interval mo" and "mo_interval mo \<le> mo_backoff mo"
  shows "world_ok mo w'"
  using assms(1)
proof cases
  case (claim observed routes due now)
  show ?thesis
    unfolding claim(1)
    using claim_keeps[OF assms(2) approved_registered[OF claim(2)] approved_ok(2)[OF claim(2)] claim(3)] .
next
  case (answer now due found)
  show ?thesis unfolding answer(1) using answer_keeps[OF assms(2) answer(2,3) assms(3,4)] .
qed

lemma fresh_world_ok: "world_ok mo fresh_world"
  by (simp add: world_ok_def fresh_world_def fresh_cache_def job_keys_def stamps_def)

lemma reachable_world_ok:
  assumes "(document_step mo)\<^sup>*\<^sup>* fresh_world w" and "0 < mo_interval mo" and "mo_interval mo \<le> mo_backoff mo"
  shows "world_ok mo w"
  using assms(1) by induction (auto intro: fresh_world_ok document_step_keeps[OF _ _ assms(2,3)])

lemma mk_monitor_bounds:
  "5 \<le> mo_interval (mk_monitor cs i b c h)"
  "mo_interval (mk_monitor cs i b c h) \<le> mo_backoff (mk_monitor cs i b c h)"
  "mo_backoff (mk_monitor cs i b c h) \<le> 900"
  "mo_history (mk_monitor cs i b c h) \<le> 48" "mo_concurrency (mk_monitor cs i b c h) \<le> 8"
  by (auto simp: mk_monitor_def Let_def min_def max_def)

section \<open>Properties\<close>

lemma only_of_key: "distinct (map f xs) \<Longrightarrow> x \<in> set xs \<Longrightarrow> filter (\<lambda>y. f y = f x) xs = [x]"
  by (induction xs) (auto simp: filter_empty_conv image_iff)


definition lab_route :: route where
  "lab_route = \<lparr>ro_endpoint = ''manager'', ro_host = ''lab.a.io'', ro_tls = True, ro_addresses = [],
     ro_ingress = []\<rparr>"

lemma lab_host: "valid_host ''lab.a.io'' ''lab''"
  by (simp add: valid_host_def dns_label_def alnum_def word_char_def upper_case_def starts_with_def
      is_lower_def is_num_def to_lower_def code_def)

lemma lab_route_approved: "approved_routes [] (Inr [lab_route]) = Some [lab_route]"
  by (simp add: approved_routes_def lab_host lab_route_def acceptable_def find_endpoint_def endpoints_def)

lemma lab_route_due: "due_routes 7 [lab_route] (wo_cache fresh_world) = [lab_route]"
  by (simp add: due_routes_def fresh_world_def fresh_cache_def lab_route_def)

definition claimed_world :: world where
  "claimed_world = \<lparr>wo_cache = claim_routes [lab_route] (wo_cache fresh_world),
     wo_jobs = [(7, [lab_route])], wo_claims = [(''manager'', 7)]\<rparr>"

lemma claimed_reached: "(document_step (mk_monitor [] 30 300 4 12))\<^sup>*\<^sup>* fresh_world claimed_world"
proof -
  have "document_step (mk_monitor [] 30 300 4 12) fresh_world \<lparr>wo_cache = claim_routes [lab_route] (wo_cache fresh_world),
      wo_jobs = (7, [lab_route]) # wo_jobs fresh_world,
      wo_claims = map (\<lambda>r. (ro_endpoint r, 7)) [lab_route] @ wo_claims fresh_world\<rparr>"
    by (rule document_step.claim[of _ "[lab_route]" "[lab_route]"])
      (simp_all add: lab_route_approved lab_route_due mk_monitor_def Let_def)
  then show ?thesis by (simp add: claimed_world_def fresh_world_def lab_route_def)
qed


text \<open>
  C32. A route the monitor probes was observed, ends in TLS, belongs to the endpoint of the manager or of
  a registered component, carries a well-formed host that starts with the label of its endpoint, and
  lies in the domain of an observed, well-formed manager route; no endpoint has two.
\<close>

theorem approved_routes_are_local:
  assumes "approved_routes cs (Inr observed) = Some routes" and "r \<in> set routes"
  shows "r \<in> set observed \<and> ro_tls r
    \<and> (\<exists>e\<in>set (endpoints cs). en_id e = ro_endpoint r \<and> valid_host (ro_host r) (en_label e))
    \<and> (\<exists>m\<in>set observed. ro_endpoint m = ''manager'' \<and> valid_host (ro_host m) ''lab''
         \<and> host_domain (ro_host r) = host_domain (ro_host m))
    \<and> filter (\<lambda>x. ro_endpoint x = ro_endpoint r) routes = [r]"
proof -
  from approved_ok[OF assms(1)] assms(2) obtain m where m: "m \<in> set observed" "ro_endpoint m = ''manager''"
      "valid_host (ro_host m) ''lab''" and acc: "acceptable cs (host_domain (ro_host m)) r"
    by (force simp: list_all_iff)
  then obtain e where "find_endpoint cs (ro_endpoint r) = Some e" and e: "ro_tls r"
      "valid_host (ro_host r) (en_label e)" "host_domain (ro_host r) = host_domain (ro_host m)"
    by (auto simp: acceptable_def split: option.splits)
  then have "e \<in> set (endpoints cs)" "en_id e = ro_endpoint r" by (auto dest: find_endpoint_Some)
  moreover have "filter (\<lambda>x. ro_endpoint x = ro_endpoint r) routes = [r]"
    using approved_ok(2)[OF assms(1)] assms(2) by (rule only_of_key)
  ultimately show ?thesis using m e approved_ok(1)[OF assms(1)] assms(2) by blast
qed

theorem approved_routes_are_local_witness:
  "ro_tls lab_route \<and> lab_route \<in> set [lab_route]
   \<and> filter (\<lambda>x. ro_endpoint x = ro_endpoint lab_route) [lab_route] = [lab_route]"
  using approved_routes_are_local[OF lab_route_approved, of lab_route] by simp

text \<open>
  A result is shown for its endpoint even when the approved route has another host than the one that
  was probed; the item then still carries the URL of the earlier host.
\<close>

lemma earlier_host_shown:
  assumes "find (\<lambda>r. ro_endpoint r = en_id e) routes = Some r" and "now < ca_due s (ro_endpoint r)"
    and "ca_results s (en_id e) = Some it"
  shows "r \<notin> set (due_routes now routes s) \<and> shown_item (Some routes) s e = it"
  using assms by (simp add: due_routes_def shown_item_def)

end
