(* ===== verification/Threads.thy ===== *)
theory Threads
  imports Effects
begin

text \<open>
  Code that shares its store with other threads. A \<open>script\<close> is a call cut into the pieces that the
  store's lock makes atomic: \<open>Stop\<close> is its outcome, \<open>Atom\<close> does one piece and tells what is left.
  The state of a script is a pair: the local variables of its thread and the shared state. Scripts are
  composed like the calls of \<open>Effects\<close>. \<open>rg\<close> is a logic for one thread: started here it keeps its
  guarantee in every piece and ends in the given condition, as long as the others change the shared
  state along its rely. The locale \<open>fair_share\<close> puts threads together.
\<close>

datatype ('s, 'a) script = Stop "'a result" | Atom "'s \<Rightarrow> ('s, 'a) script \<times> 's"

definition atom :: "('s, 'a) proc \<Rightarrow> ('s, 'a) script" where
  "atom m = Atom (\<lambda>s. case m s of (r, t) \<Rightarrow> (Stop r, t))"

definition on_shared :: "('s, 'a) proc \<Rightarrow> ('l \<times> 's, 'a) proc" where
  "on_shared m = (\<lambda>(l, w). case m w of (r, w') \<Rightarrow> (r, l, w'))"

definition on_local :: "('l \<Rightarrow> 'l) \<Rightarrow> ('l \<times> 's, unit) proc" where
  "on_local f = (\<lambda>(l, w). (Inr (), f l, w))"

primrec and_then :: "('s, 'a) script \<Rightarrow> ('a \<Rightarrow> ('s, 'b) script) \<Rightarrow> ('s, 'b) script" where
  "and_then (Stop r) f = (case r of Inl e \<Rightarrow> Stop (Inl e) | Inr x \<Rightarrow> f x)"
| "and_then (Atom g) f = Atom (\<lambda>s. map_prod (\<lambda>k. and_then k f) id (g s))"

abbreviation followed_by :: "('s, 'a) script \<Rightarrow> ('s, 'b) script \<Rightarrow> ('s, 'b) script" where
  "followed_by p q \<equiv> and_then p (\<lambda>_. q)"

text \<open>\<^verbatim>\<open>try: p except Exception as e: h(e)\<close> and \<^verbatim>\<open>try: p finally: q\<close>.\<close>

primrec rescue :: "('s, 'a) script \<Rightarrow> (exn \<Rightarrow> ('s, 'a) script) \<Rightarrow> ('s, 'a) script" where
  "rescue (Stop r) h = (case r of Inl e \<Rightarrow> h e | Inr x \<Rightarrow> Stop (Inr x))"
| "rescue (Atom g) h = Atom (\<lambda>s. map_prod (\<lambda>k. rescue k h) id (g s))"

primrec ensure :: "('s, 'a) script \<Rightarrow> ('s, unit) script \<Rightarrow> ('s, 'a) script" where
  "ensure (Stop r) q = and_then q (\<lambda>_. Stop r)"
| "ensure (Atom g) q = Atom (\<lambda>s. map_prod (\<lambda>k. ensure k q) id (g s))"

fun each :: "'x list \<Rightarrow> ('x \<Rightarrow> ('s, unit) script) \<Rightarrow> ('s, unit) script" where
  "each [] body = Stop (Inr ())"
| "each (x # xs) body = followed_by (body x) (each xs body)"

text \<open>A script that nothing interrupts, as a call.\<close>

primrec alone :: "('s, 'a) script \<Rightarrow> ('s, 'a) proc" where
  "alone (Stop r) = (\<lambda>s. (r, s))"
| "alone (Atom g) = (\<lambda>s. case map_prod alone id (g s) of (m, t) \<Rightarrow> m t)"

section \<open>Uninterrupted scripts\<close>

lemma script_induct [case_names Stop Atom]:
  assumes "\<And>r. P (Stop r)" and "\<And>g. (\<And>s. P (fst (g s))) \<Longrightarrow> P (Atom g)"
  shows "P p"
proof (induction p)
  case (Atom g)
  have "fst (g s) \<in> Basic_BNFs.fsts (g s)" for s
    by (metis prod.collapse prod_set_simps(1) singletonI)
  then have "P (fst (g s))" for s by (intro Atom.IH[OF rangeI])
  then show ?case by (rule assms(2))
qed (rule assms(1))

lemma alone_atom [simp]: "alone (atom m) = m"
  by (rule ext) (simp add: atom_def split: prod.split)

lemma alone_Atom: "alone (Atom g) s = alone (fst (g s)) (snd (g s))"
  by (simp add: split_beta)

lemma alone_and_then [simp]: "alone (and_then p f) = bindS (alone p) (\<lambda>x. alone (f x))"
proof (induction p rule: script_induct)
  case (Stop r)
  then show ?case by (cases r) (auto simp: bindS_def)
next
  case (Atom g)
  then show ?case by (intro ext) (simp add: bindS_def split_beta)
qed

lemma and_then_assoc: "and_then (and_then p f) g = and_then p (\<lambda>x. and_then (f x) g)"
proof (induction p rule: script_induct)
  case (Stop r)
  then show ?case by (cases r) auto
next
  case (Atom h)
  then show ?case by (auto simp: split_beta intro!: prod_eqI)
qed

lemma alone_rescue [simp]: "alone (rescue p h) = handle (alone p) (\<lambda>e. alone (h e))"
proof (induction p rule: script_induct)
  case (Stop r)
  then show ?case by (cases r) (auto simp: handle_def)
next
  case (Atom g)
  then show ?case by (intro ext) (simp add: handle_def split_beta)
qed

lemma alone_each [simp]: "alone (each xs body) = for_each xs (\<lambda>x. alone (body x))"
  by (induction xs) (auto simp: ret_def)

lemma alone_ensure: "alone (ensure p q) s =
    (case alone p s of (r, t) \<Rightarrow> (case alone q t of (Inl e, u) \<Rightarrow> (Inl e, u) | (Inr _, u) \<Rightarrow> (r, u)))"
proof (induction p arbitrary: s rule: script_induct)
  case (Stop r)
  then show ?case by (simp add: bindS_def split: prod.split sum.split)
next
  case (Atom g)
  then show ?case by (simp add: alone_Atom split_beta)
qed

section \<open>A logic for one thread\<close>

primrec rg ::
    "('s \<Rightarrow> 's \<Rightarrow> bool) \<Rightarrow> ('s \<Rightarrow> 's \<Rightarrow> bool) \<Rightarrow> ('a result \<Rightarrow> 'l \<times> 's \<Rightarrow> bool)
       \<Rightarrow> ('l \<times> 's, 'a) script \<Rightarrow> 'l \<times> 's \<Rightarrow> bool" where
  "rg R G Q (Stop r) = (\<lambda>y. \<forall>t. R (snd y) t \<longrightarrow> Q r (fst y, t))"
| "rg R G Q (Atom g) = (\<lambda>y. \<forall>t. R (snd y) t \<longrightarrow>
     (case map_prod (rg R G Q) id (g (fst y, t)) of (k, z) \<Rightarrow> G t (snd z) \<and> k z))"

lemma rg_Atom:
  "rg R G Q (Atom g) y \<longleftrightarrow> (\<forall>t. R (snd y) t \<longrightarrow>
     G t (snd (snd (g (fst y, t)))) \<and> rg R G Q (fst (g (fst y, t))) (snd (g (fst y, t))))"
  by (simp add: split_beta)

declare rg.simps(2) [simp del]

definition preorder_rely :: "('s \<Rightarrow> 's \<Rightarrow> bool) \<Rightarrow> bool" where
  "preorder_rely R \<longleftrightarrow> (\<forall>s. R s s) \<and> (\<forall>s t u. R s t \<longrightarrow> R t u \<longrightarrow> R s u)"

lemma rg_env:
  assumes "preorder_rely R" and "rg R G Q p (l, s)" and "R s t"
  shows "rg R G Q p (l, t)"
proof -
  have "R s u" if "R t u" for u using assms(1,3) that by (auto simp: preorder_rely_def)
  with assms(2) show ?thesis by (cases p) (auto simp: rg_Atom)
qed

lemma rg_step: "rg R G Q (Atom g) (l, s) \<Longrightarrow> preorder_rely R \<Longrightarrow> g (l, s) = (k, l', t) \<Longrightarrow>
    G s t \<and> rg R G Q k (l', t)"
  by (auto simp: rg_Atom preorder_rely_def)

lemma rg_atom:
  assumes "\<And>t r l' u. R s t \<Longrightarrow> m (l, t) = (r, l', u) \<Longrightarrow> G t u \<and> (\<forall>v. R u v \<longrightarrow> Q r (l', v))"
  shows "rg R G Q (atom m) (l, s)"
  using assms by (fastforce simp: atom_def rg_Atom split: prod.split)

lemma rg_weaken:
  "rg R G P p y \<Longrightarrow> (\<And>r z. P r z \<Longrightarrow> Q r z) \<Longrightarrow> rg R G Q p y"
proof (induction p arbitrary: y rule: script_induct)
  case (Atom g)
  show ?case using Atom.prems(1) Atom.IH[OF _ Atom.prems(2)] by (auto simp: rg_Atom)
qed auto

lemma rg_Stop_here: "preorder_rely R \<Longrightarrow> rg R G Q (Stop r) y \<Longrightarrow> Q r y"
  by (cases y) (auto simp: preorder_rely_def)

lemma rg_and_then:
  assumes "preorder_rely R" and "rg R G P p y"
    and "\<And>x z. (\<And>t. R (snd z) t \<Longrightarrow> P (Inr x) (fst z, t)) \<Longrightarrow> rg R G Q (f x) z"
    and "\<And>e z. P (Inl e) z \<Longrightarrow> Q (Inl e) z"
  shows "rg R G Q (and_then p f) y"
  using assms(2)
proof (induction p arbitrary: y rule: script_induct)
  case (Stop r)
  then show ?case using assms(3,4) by (cases r) auto
next
  case (Atom g)
  then show ?case by (auto simp: rg_Atom split_beta)
qed

lemma rg_rescue:
  assumes "preorder_rely R" and "rg R G P p y"
    and "\<And>x z. P (Inr x) z \<Longrightarrow> Q (Inr x) z"
    and "\<And>e z. (\<And>t. R (snd z) t \<Longrightarrow> P (Inl e) (fst z, t)) \<Longrightarrow> rg R G Q (h e) z"
  shows "rg R G Q (rescue p h) y"
  using assms(2)
proof (induction p arbitrary: y rule: script_induct)
  case (Stop r)
  then show ?case using assms(3,4) by (cases r) auto
next
  case (Atom g)
  then show ?case by (auto simp: rg_Atom split_beta)
qed

lemma rg_ensure:
  assumes "preorder_rely R" and "rg R G P p y"
    and "\<And>r z. (\<And>t. R (snd z) t \<Longrightarrow> P r (fst z, t)) \<Longrightarrow>
      rg R G (\<lambda>q z. case q of Inl e \<Rightarrow> Q (Inl e) z | Inr _ \<Rightarrow> Q r z) q z"
  shows "rg R G Q (ensure p q) y"
  using assms(2)
proof (induction p arbitrary: y rule: script_induct)
  case (Stop r)
  then show ?case
    by (auto intro!: rg_and_then[OF assms(1) assms(3)])
next
  case (Atom g)
  then show ?case by (auto simp: rg_Atom split_beta)
qed

text \<open>A loop whose invariant \<open>I\<close> speaks of what is still to do.\<close>

lemma rg_each:
  assumes "preorder_rely R" and "\<And>t. R (snd y) t \<Longrightarrow> I xs (fst y, t)"
    and "\<And>x zs z. (\<And>t. R (snd z) t \<Longrightarrow> I (x # zs) (fst z, t)) \<Longrightarrow>
       rg R G (\<lambda>r z. case r of Inl e \<Rightarrow> Q (Inl e) z | Inr _ \<Rightarrow> I zs z) (body x) z"
    and "\<And>z. I [] z \<Longrightarrow> Q (Inr ()) z"
  shows "rg R G Q (each xs body) y"
  using assms(2)
proof (induction xs arbitrary: y)
  case Nil
  then show ?case using assms(4) by simp
next
  case (Cons x xs)
  show ?case
    by (simp, rule rg_and_then[OF assms(1) assms(3)[OF Cons.prems]]) (auto intro: Cons.IH)
qed

section \<open>What a thread can end with\<close>

text \<open>
  \<open>may_end p l r l'\<close>: started with the local variables \<open>l\<close>, the script may end with the outcome \<open>r\<close> and
  the variables \<open>l'\<close>. Before every piece the shared state may be any at all: the other threads are
  not restricted.
\<close>

inductive may_end :: "('l \<times> 's, 'a) script \<Rightarrow> 'l \<Rightarrow> 'a result \<Rightarrow> 'l \<Rightarrow> bool" where
  stop: "may_end (Stop r) l r l"
| piece: "g (l, s) = (k, l', t) \<Longrightarrow> may_end k l' r l'' \<Longrightarrow> may_end (Atom g) l r l''"

inductive_simps may_end_Stop [simp]: "may_end (Stop x) l r l'"

inductive_simps may_end_Atom: "may_end (Atom g) l r l'"

lemma ends_piece: "may_end (Atom g) l r l' \<longleftrightarrow>
    (\<exists>s. may_end (fst (g (l, s))) (fst (snd (g (l, s)))) r l')"
  unfolding may_end_Atom by (metis prod.collapse fst_conv snd_conv)

lemma may_end_atom [simp]: "may_end (atom m) l r l' \<longleftrightarrow> (\<exists>s t. m (l, s) = (r, l', t))"
  by (auto simp: atom_def ends_piece split_beta) (metis prod.collapse, metis fst_conv snd_conv)

lemma ends_and_then [simp]:
  "may_end (and_then p f) l r l' \<longleftrightarrow>
     (\<exists>x m. may_end p l (Inr x) m \<and> may_end (f x) m r l')
     \<or> (\<exists>e. r = Inl e \<and> may_end p l (Inl e) l')"
proof (induction p arbitrary: l rule: script_induct)
  case (Stop x)
  then show ?case by (cases x) auto
next
  case (Atom g)
  then show ?case by (simp add: ends_piece split_beta) blast
qed

lemma ends_rescue [simp]:
  "may_end (rescue p h) l r l' \<longleftrightarrow>
     (\<exists>x. r = Inr x \<and> may_end p l (Inr x) l')
     \<or> (\<exists>e m. may_end p l (Inl e) m \<and> may_end (h e) m r l')"
proof (induction p arbitrary: l rule: script_induct)
  case (Stop x)
  then show ?case by (cases x) auto
next
  case (Atom g)
  then show ?case by (simp add: ends_piece split_beta) blast
qed

lemma ends_ensure [simp]:
  "may_end (ensure p q) l r l' \<longleftrightarrow>
     (\<exists>x m y. may_end p l x m \<and> may_end q m y l' \<and> r = (case y of Inl e \<Rightarrow> Inl e | Inr _ \<Rightarrow> x))"
proof (induction p arbitrary: l rule: script_induct)
  case (Stop x)
  have "y = Inr ()" if "\<nexists>e. y = Inl e" for y :: "unit result" using that by (cases y) auto
  then show ?case by (cases x) (auto split: sum.splits)
next
  case (Atom g)
  then show ?case by (simp add: ends_piece split_beta) blast
qed

text \<open>
  \<open>triple P p Q E\<close>: from variables in \<open>P\<close> the thread only ends with \<open>Q\<close> of its answer, or raises in \<open>E\<close>.
\<close>

definition triple ::
    "('l \<Rightarrow> bool) \<Rightarrow> ('l \<times> 's, 'a) script \<Rightarrow> ('a \<Rightarrow> 'l \<Rightarrow> bool) \<Rightarrow> ('l \<Rightarrow> bool) \<Rightarrow> bool" where
  "triple P p Q E \<longleftrightarrow> (\<forall>l r l'. P l \<longrightarrow> may_end p l r l' \<longrightarrow> (case r of Inl _ \<Rightarrow> E l' | Inr x \<Rightarrow> Q x l'))"

lemma triple_stop: "(\<And>l. P l \<Longrightarrow> case r of Inl _ \<Rightarrow> E l | Inr x \<Rightarrow> Q x l) \<Longrightarrow> triple P (Stop r) Q E"
  by (auto simp: triple_def)

lemma triple_atom:
  assumes "\<And>l s r l' t. P l \<Longrightarrow> m (l, s) = (r, l', t) \<Longrightarrow> case r of Inl _ \<Rightarrow> E l' | Inr x \<Rightarrow> Q x l'"
  shows "triple P (atom m) Q E"
  using assms unfolding triple_def may_end_atom by blast

lemma triple_and_then:
  fixes f :: "'a \<Rightarrow> ('l \<times> 's, 'b) script"
  assumes "triple P p M E" and "\<And>x. triple (M x) (f x) Q E"
  shows "triple P (and_then p f) Q E"
  unfolding triple_def ends_and_then
proof (intro allI impI, elim disjE exE conjE)
  fix l r l' x m
  assume "P l" "may_end p l (Inr x) m" "may_end (f x) m r l'"
  then show "case r of Inl _ \<Rightarrow> E l' | Inr x \<Rightarrow> Q x l'"
    using assms(1)[unfolded triple_def, rule_format, of l "Inr x" m]
      assms(2)[of x, unfolded triple_def, rule_format, of m r l'] by simp
next
  fix l l' e and r :: "'b result"
  assume "P l" "r = Inl e" "may_end p l (Inl e) l'"
  then show "case r of Inl _ \<Rightarrow> E l' | Inr x \<Rightarrow> Q x l'"
    using assms(1)[unfolded triple_def, rule_format, of l "Inl e" l'] by simp
qed

lemma triple_rescue:
  assumes "triple P p Q M" and "\<And>e. triple M (h e) Q E"
  shows "triple P (rescue p h) Q E"
  unfolding triple_def ends_rescue
proof (intro allI impI, elim disjE exE conjE)
  fix l r l' x
  assume "P l" "r = Inr x" "may_end p l (Inr x) l'"
  then show "case r of Inl _ \<Rightarrow> E l' | Inr x \<Rightarrow> Q x l'"
    using assms(1)[unfolded triple_def, rule_format, of l "Inr x" l'] by simp
next
  fix l r l' e m
  assume "P l" "may_end p l (Inl e) m" "may_end (h e) m r l'"
  then show "case r of Inl _ \<Rightarrow> E l' | Inr x \<Rightarrow> Q x l'"
    using assms(1)[unfolded triple_def, rule_format, of l "Inl e" m]
      assms(2)[of e, unfolded triple_def, rule_format, of m r l'] by simp
qed

text \<open>The final piece of \<^verbatim>\<open>finally\<close> keeps both conditions, and may raise itself.\<close>

lemma triple_ensure:
  assumes "triple P p Q E" and "\<And>x. triple (Q x) q (\<lambda>_. Q x) E" and "triple E q (\<lambda>_. E) E"
  shows "triple P (ensure p q) Q E"
  unfolding triple_def ends_ensure
proof (intro allI impI, elim exE conjE)
  fix l r l' x m y
  assume "P l" "may_end p l x m" "may_end q m y l'" and r: "r = (case y of Inl e \<Rightarrow> Inl e | Inr _ \<Rightarrow> x)"
  then show "case r of Inl _ \<Rightarrow> E l' | Inr x \<Rightarrow> Q x l'"
    using assms(1)[unfolded triple_def, rule_format, of l x m]
      assms(2)[unfolded triple_def, rule_format, of _ m y l']
      assms(3)[unfolded triple_def, rule_format, of m y l'] by (cases x; cases y) auto
qed

lemma triple_if:
  "(c \<Longrightarrow> triple P p Q E) \<Longrightarrow> (\<not> c \<Longrightarrow> triple P q Q E) \<Longrightarrow> triple P (if c then p else q) Q E"
  by simp

lemma triple_ex:
  "(\<And>v. triple (P v) p (Q v) E) \<Longrightarrow> triple (\<lambda>l. \<exists>v. P v l) p (\<lambda>x l. \<exists>v. Q v x l) E"
  unfolding triple_def by (fastforce split: sum.splits)

lemma triple_weaken:
  assumes "triple P p Q E" and "\<And>l. P' l \<Longrightarrow> P l" and "\<And>x l. Q x l \<Longrightarrow> Q' x l" and "\<And>l. E l \<Longrightarrow> E' l"
  shows "triple P' p Q' E'"
  using assms unfolding triple_def by (fastforce split: sum.splits)

lemma triple_each:
  assumes "\<And>x ys zs. xs = ys @ x # zs \<Longrightarrow> triple (I ys) (body x) (\<lambda>_. I (ys @ [x])) E"
  shows "triple (I []) (each xs body) (\<lambda>_. I xs) E"
proof -
  have "triple (I ys) (each zs body) (\<lambda>_. I (ys @ zs)) E" if "xs = ys @ zs" for ys zs
    using that
  proof (induction zs arbitrary: ys)
    case (Cons z zs)
    then show ?case using assms[of ys z zs] Cons.IH[of "ys @ [z]"] by (auto intro: triple_and_then)
  qed (auto intro: triple_stop)
  then show ?thesis by (metis append_Nil)
qed

lemma alone_ends: "alone p (l, s) = (r, l', t) \<Longrightarrow> may_end p l r l'"
proof (induction p arbitrary: l s rule: script_induct)
  case (Atom g)
  have "alone (fst (g (l, s))) (fst (snd (g (l, s))), snd (snd (g (l, s)))) = (r, l', t)"
    using Atom.prems by (simp add: split_beta)
  with Atom.IH show ?case unfolding ends_piece by blast
qed auto

section \<open>Threads side by side\<close>

text \<open>
  A task is a thread in the middle of its script: its role, its local variables and what is left.
  One piece of one task runs at a time. \<open>fits \<sigma> \<tau>\<close> says that tasks of these roles may run together.
\<close>

type_synonym ('t, 'l, 's) task = "'t \<times> 'l \<times> ('l \<times> 's, unit) script"

inductive turn :: "('t, 'l, 's) task list \<times> 's \<Rightarrow> ('t, 'l, 's) task list \<times> 's \<Rightarrow> bool" where
  turn: "i < length ts \<Longrightarrow> ts ! i = (r, l, Atom g) \<Longrightarrow> g (l, s) = (k, l', t) \<Longrightarrow>
    turn (ts, s) (ts[i := (r, l', k)], t)"

text \<open>What a thread does when nothing interrupts it is one of the runs of the threads together.\<close>

lemma alone_turns:
  assumes "alone p (l, s) = (x, l', t)"
  shows "turn\<^sup>*\<^sup>* ((r, l, p) # ts, s) ((r, l', Stop x) # ts, t)"
  using assms
proof (induction p arbitrary: l s rule: script_induct)
  case (Atom g)
  let ?k = "fst (g (l, s))" and ?y = "snd (g (l, s))"
  have "turn ((r, l, Atom g) # ts, s) ((r, fst ?y, ?k) # ts, snd ?y)"
    using turn.turn[of 0 "(r, l, Atom g) # ts" r l g s ?k "fst ?y" "snd ?y"] by simp
  moreover have "alone ?k (fst ?y, snd ?y) = (x, l', t)"
    using Atom.prems by (simp add: split_beta)
  ultimately show ?case
    using Atom.IH by (meson converse_rtranclp_into_rtranclp)
qed simp

definition together :: "('t \<Rightarrow> 't \<Rightarrow> bool) \<Rightarrow> ('t, 'l, 's) task list \<Rightarrow> bool" where
  "together fits ts \<longleftrightarrow>
     (\<forall>i<length ts. \<forall>j<length ts. i \<noteq> j \<longrightarrow> fits (fst (ts ! i)) (fst (ts ! j)))"

locale fair_share =
  fixes R G :: "'t \<Rightarrow> 's \<Rightarrow> 's \<Rightarrow> bool"
    and fits :: "'t \<Rightarrow> 't \<Rightarrow> bool"
    and Q :: "'t \<Rightarrow> unit result \<Rightarrow> 'l \<times> 's \<Rightarrow> bool"
  assumes rely: "preorder_rely (R r)"
    and respects: "G r s t \<Longrightarrow> fits r r' \<Longrightarrow> R r' s t"
begin

definition on_track :: "('t, 'l, 's) task list \<Rightarrow> 's \<Rightarrow> bool" where
  "on_track ts s \<longleftrightarrow> (\<forall>(r, l, p)\<in>set ts. rg (R r) (G r) (Q r) p (l, s))"

lemma on_track_env: "on_track ts s \<Longrightarrow> (\<And>r. r \<in> fst ` set ts \<Longrightarrow> R r s t) \<Longrightarrow> on_track ts t"
  unfolding on_track_def by (fastforce intro: rg_env[OF rely])

lemma on_track_add:
  "on_track ts s \<Longrightarrow> rg (R r) (G r) (Q r) p (l, s) \<Longrightarrow> on_track ((r, l, p) # ts) s"
  by (simp add: on_track_def)

lemma on_track_turn:
  assumes "turn (ts, s) (ts', t)" and "on_track ts s" and "together fits ts"
  shows "on_track ts' t \<and> map fst ts' = map fst ts \<and> (\<exists>r\<in>fst ` set ts. G r s t)"
  using assms(1)
proof cases
  case (turn i r l g k l')
  have "rg (R r) (G r) (Q r) (Atom g) (l, s)"
    using assms(2) turn(2,3) nth_mem by (fastforce simp: on_track_def)
  then have step: "G r s t" and rest: "rg (R r) (G r) (Q r) k (l', t)"
    using rg_step[of "R r" "G r" "Q r" g l s k l' t] rely turn(4) by auto
  have "rg (R r') (G r') (Q r') p (m, t)" if "j < length ts'" "ts' ! j = (r', m, p)" for j r' m p
  proof (cases "j = i")
    case True
    then show ?thesis using rest that turn(1,2) by simp
  next
    case False
    then have j: "ts ! j = (r', m, p)" "j < length ts" using that turn(1) by auto
    then have "rg (R r') (G r') (Q r') p (m, s)"
      using assms(2) nth_mem by (fastforce simp: on_track_def)
    moreover have "fits r r'"
      using assms(3)[unfolded together_def, rule_format, of i j] turn(2,3) j False by simp
    ultimately show ?thesis by (rule rg_env[OF rely _ respects[OF step]])
  qed
  then have "on_track ts' t" unfolding on_track_def by (auto simp: in_set_conv_nth)
  moreover have "map fst ts' = map fst ts"
    using turn(1-3) by (simp add: map_update list_update_same_conv)
  moreover have "r \<in> fst ` set ts" using turn(2,3) nth_mem by force
  ultimately show ?thesis using step by blast
qed

end

end
