(* ===== verification/Recovery.thy ===== *)
theory Recovery
  imports Comms Threads
begin

text \<open>
  \<^verbatim>\<open>manager/backup_restore.py\<close>: backups and restores of the platform. A document of an operation or of
  an artifact is a record; what is stored is the document that reading it back gives. The adapter,
  the digest, the texts of the clock and the random ids are parameters. Worker threads and \<^verbatim>\<open>cancel\<close> are
  scripts, cut where the store's lock or the service's lock is taken; \<open>recovery_step\<close> interleaves them.
\<close>

section \<open>Documents\<close>

definition BACKUP_SCOPES :: "string list" where
  "BACKUP_SCOPES = [''manager-state'', ''configuration-metadata'', ''mysql-ssc'', ''ssc-secret-key'',
                    ''postgresql-dast'']"

definition RESTORE_CONFIRMATION :: string where
  "RESTORE_CONFIRMATION = ''RESTORE VERIFIED PLATFORM BACKUP''"

datatype rec_state = RcQueued | RcRunning | RcVerifying | RcSucceeded | RcFailed | RcInterrupted | RcCancelled

definition rec_terminal :: "rec_state \<Rightarrow> bool" where
  "rec_terminal st \<longleftrightarrow> st \<in> {RcSucceeded, RcFailed, RcInterrupted, RcCancelled}"

record destination =
  de_id :: string
  de_class :: string
  de_days :: int

definition mk_destination :: "string \<Rightarrow> string \<Rightarrow> int \<Rightarrow> destination result" where
  "mk_destination i c d =
     (if i = [] \<or> 64 < length i \<or> \<not> list_all (\<lambda>x. word_char x \<and> x \<noteq> CHR ''_'' \<or> x \<in> set ''.-'') i
         \<or> c \<notin> {''local-protected'', ''removable'', ''object''} \<or> \<not> (1 \<le> d \<and> d \<le> 3650)
      then raise PyValueError ''backup destination metadata is invalid''
      else Inr \<lparr>de_id = i, de_class = c, de_days = d\<rparr>)"

definition public_destination :: "destination \<Rightarrow> json" where
  "public_destination d = JObj [(''id'', JStr (de_id d)), (''class'', JStr (de_class d)),
                                (''retentionDays'', JInt (de_days d))]"

record artifact =
  ar_id :: string
  ar_profile :: string
  ar_scope :: "string list"
  ar_destination :: destination
  ar_created :: string
  ar_checksums :: "(string \<times> string) list"
  ar_manifest :: "string option"

definition artifact_json :: "artifact \<Rightarrow> json" where
  "artifact_json a = JObj ([(''apiVersion'', JStr ''fortifylab.io/v1alpha1''), (''kind'', JStr ''PlatformBackup''),
     (''id'', JStr (ar_id a)), (''profileId'', JStr (ar_profile a)),
     (''scope'', JList (map JStr (ar_scope a))), (''destination'', public_destination (ar_destination a)),
     (''createdAt'', JStr (ar_created a)),
     (''checksums'', JObj (map (\<lambda>(k, v). (k, JStr v)) (ar_checksums a)))]
     @ (case ar_manifest a of None \<Rightarrow> [] | Some d \<Rightarrow> [(''manifestDigest'', JStr d)]))"

datatype rec_action = BackupAction | RestoreAction

record rec_op =
  ro_id :: string
  ro_action :: rec_action
  ro_backup :: string
  ro_profile :: string
  ro_actor :: string
  ro_state :: rec_state
  ro_current :: "string option"
  ro_completed :: "string list"
  ro_cancelling :: bool
  ro_created :: string
  ro_updated :: string
  ro_evidence :: "(string \<times> string) list list"
  ro_error :: "string option"

section \<open>The world\<close>

text \<open>
  \<open>rw_log\<close> records the calls of the adapter, the newest first; \<open>rw_started\<close> are workers whose thread was
  started and has not run yet.
\<close>

datatype rec_call = BackupCall string string | RestoreCall string string | VerifyCall string "string list"

record rec_world =
  rw_operations :: "string \<rightharpoonup> rec_op"
  rw_artifacts :: "string \<rightharpoonup> bool \<times> artifact"
  rw_cancelled :: "string list"
  rw_ticks :: nat
  rw_ids :: nat
  rw_log :: "rec_call list"
  rw_started :: "(rec_action \<times> string \<times> string) list"

record rec_env =
  rv_profile :: string
  rv_destination :: destination
  rv_now :: "nat \<Rightarrow> string"
  rv_uuid :: "nat \<Rightarrow> string"
  rv_sha256 :: "string \<Rightarrow> string"
  rv_backup :: "nat \<Rightarrow> string \<Rightarrow> string \<Rightarrow> document result"
  rv_restore :: "nat \<Rightarrow> string \<Rightarrow> string \<Rightarrow> unit result"
  rv_verify :: "nat \<Rightarrow> string \<Rightarrow> string list \<Rightarrow> json list result"

record rec_local =
  lo_op :: rec_op
  lo_artifact :: artifact

type_synonym 'a rec_proc = "(rec_world, 'a) proc"
type_synonym 'a rec_script = "(rec_local \<times> rec_world, 'a) script"

section \<open>The store\<close>

definition rec_now :: "rec_env \<Rightarrow> string rec_proc" where
  "rec_now env = (\<lambda>w. (Inr (rv_now env (rw_ticks w)), w\<lparr>rw_ticks := Suc (rw_ticks w)\<rparr>))"

definition next_uuid :: "rec_env \<Rightarrow> string rec_proc" where
  "next_uuid env = (\<lambda>w. (Inr (rv_uuid env (rw_ids w)), w\<lparr>rw_ids := Suc (rw_ids w)\<rparr>))"

definition put_operation :: "rec_op \<Rightarrow> unit rec_proc" where
  "put_operation d = modify (\<lambda>w. w\<lparr>rw_operations := (rw_operations w)(ro_id d \<mapsto> d)\<rparr>)"

definition find_operation :: "string \<Rightarrow> rec_op rec_proc" where
  "find_operation k = bindS (gets rw_operations) (\<lambda>t. case t k of
     None \<Rightarrow> fail RecoveryError ''recovery operation was not found'' | Some d \<Rightarrow> ret d)"

definition put_artifact :: "artifact \<Rightarrow> bool \<Rightarrow> unit rec_proc" where
  "put_artifact a whole = modify (\<lambda>w. w\<lparr>rw_artifacts := (rw_artifacts w)(ar_id a \<mapsto> (whole, a))\<rparr>)"

definition find_artifact :: "string \<Rightarrow> bool \<Rightarrow> artifact rec_proc" where
  "find_artifact k require = bindS (gets rw_artifacts) (\<lambda>t. case t k of
     None \<Rightarrow> fail IncompleteArtifact ''backup artifact is unavailable or incomplete''
   | Some (whole, a) \<Rightarrow>
       if require \<and> \<not> whole then fail IncompleteArtifact ''backup artifact is unavailable or incomplete''
       else ret a)"

definition interrupt_operation :: "string \<Rightarrow> rec_op \<Rightarrow> rec_op" where
  "interrupt_operation now d =
     (if ro_state d \<in> {RcQueued, RcRunning, RcVerifying}
      then d\<lparr>ro_state := RcInterrupted, ro_error := Some ''Manager restarted before recovery completed'',
             ro_updated := now\<rparr>
      else d)"

text \<open>A restart: the threads and the memory of the service are gone, the store is opened again.\<close>

definition reopen :: "rec_env \<Rightarrow> rec_world \<Rightarrow> rec_world" where
  "reopen env w = w\<lparr>rw_operations := map_option (interrupt_operation (rv_now env (rw_ticks w))) \<circ> rw_operations w,
     rw_ticks := Suc (rw_ticks w), rw_cancelled := [], rw_started := []\<rparr>"

definition save_document :: "rec_env \<Rightarrow> rec_op \<Rightarrow> rec_op rec_proc" where
  "save_document env d = bindS (rec_now env) (\<lambda>now.
     let d' = d\<lparr>ro_updated := now\<rparr> in thenS (put_operation d') (ret d'))"

section \<open>Requests\<close>

definition backup_plan :: "rec_env \<Rightarrow> json" where
  "backup_plan env = JObj
     [(''apiVersion'', JStr ''fortifylab.io/v1alpha1''), (''kind'', JStr ''BackupPlan''),
      (''profileId'', JStr (rv_profile env)), (''scope'', JList (map JStr BACKUP_SCOPES)),
      (''consistency'', JObj
        [(''manager-state'', JStr ''SQLite online snapshot''),
         (''configuration-metadata'', JStr ''atomic metadata snapshot''),
         (''mysql-ssc'', JStr ''application-quiesced logical database backup''),
         (''ssc-secret-key'', JStr ''preserved protected Secret entry''),
         (''postgresql-dast'', JStr ''application-quiesced logical database backup'')]),
      (''estimatedImpact'', JStr (''Fortify applications are read-only or unavailable while ''
         @ ''database snapshots are captured'')),
      (''destination'', public_destination (rv_destination env)),
      (''retention'', JObj [(''days'', JInt (de_days (rv_destination env))),
         (''independentOfUninstallAndDataDeletion'', JBool True)]),
      (''secretValuesExposed'', JBool False)]"

definition new_operation :: "rec_env \<Rightarrow> rec_action \<Rightarrow> string \<Rightarrow> string \<Rightarrow> rec_op rec_proc" where
  "new_operation env act backup actor =
     bindS (rec_now env) (\<lambda>now. bindS (next_uuid env) (\<lambda>u. ret
       \<lparr>ro_id = ''recovery-'' @ u, ro_action = act, ro_backup = backup, ro_profile = rv_profile env,
        ro_actor = take 128 actor, ro_state = RcQueued, ro_current = None, ro_completed = [],
        ro_cancelling = False, ro_created = now, ro_updated = now, ro_evidence = [], ro_error = None\<rparr>))"

definition launch_worker :: "rec_action \<Rightarrow> string \<Rightarrow> string \<Rightarrow> unit rec_proc" where
  "launch_worker act i backup = modify (\<lambda>w. w\<lparr>rw_started := (act, i, backup) # rw_started w\<rparr>)"

text \<open>The random part of a backup id is drawn here, and a request is one step: nobody else knows its ids.\<close>

definition submit_backup :: "rec_env \<Rightarrow> string \<Rightarrow> rec_op rec_proc" where
  "submit_backup env actor =
     bindS (next_uuid env) (\<lambda>u. let backup = ''backup-'' @ u in
       bindS (new_operation env BackupAction backup actor) (\<lambda>d.
         thenS (put_operation d) (thenS (launch_worker BackupAction (ro_id d) backup) (ret d))))"

record restore_plan =
  rp_backup :: string
  rp_artifact_profile :: string
  rp_current_profile :: string
  rp_compatible :: bool
  rp_blocked :: "string option"
  rp_scope :: "string list"
  rp_impact :: string
  rp_confirmation :: string

definition mk_restore_plan :: "rec_env \<Rightarrow> string \<Rightarrow> restore_plan rec_proc" where
  "mk_restore_plan env backup = bindS (find_artifact backup True) (\<lambda>a.
     let ok = (ar_profile a = rv_profile env)
     in ret \<lparr>rp_backup = backup, rp_artifact_profile = ar_profile a, rp_current_profile = rv_profile env,
             rp_compatible = ok,
             rp_blocked = (if ok then None else Some ''platform profile does not match''),
             rp_scope = ar_scope a,
             rp_impact = ''All covered applications are unavailable during restore and verification'',
             rp_confirmation = RESTORE_CONFIRMATION\<rparr>)"

definition submit_restore :: "rec_env \<Rightarrow> string \<Rightarrow> string \<Rightarrow> string option \<Rightarrow> rec_op rec_proc" where
  "submit_restore env backup actor confirmation =
     (if confirmation \<noteq> Some RESTORE_CONFIRMATION
      then fail RecoveryError ''restore requires the exact typed confirmation''
      else bindS (mk_restore_plan env backup) (\<lambda>p.
        if \<not> rp_compatible p then fail IncompatibleBackup ''backup platform profile is incompatible''
        else bindS (new_operation env RestoreAction backup actor) (\<lambda>d.
          thenS (put_operation d) (thenS (launch_worker RestoreAction (ro_id d) backup) (ret d)))))"

definition request_cancel :: "string \<Rightarrow> unit rec_proc" where
  "request_cancel k = modify (\<lambda>w. w\<lparr>rw_cancelled := k # rw_cancelled w\<rparr>)"

definition cancel_rest :: "rec_env \<Rightarrow> string \<Rightarrow> rec_op \<Rightarrow> rec_op rec_script" where
  "cancel_rest env k d =
     (if rec_terminal (ro_state d) then Stop (Inr d)
      else followed_by (atom (on_shared (request_cancel k)))
             (atom (on_shared (save_document env (d\<lparr>ro_cancelling := True\<rparr>)))))"

definition cancel_operation :: "rec_env \<Rightarrow> string \<Rightarrow> rec_op rec_script" where
  "cancel_operation env k = and_then (atom (on_shared (find_operation k))) (cancel_rest env k)"

section \<open>Workers\<close>

definition set_op :: "(rec_op \<Rightarrow> rec_op) \<Rightarrow> (rec_local \<times> rec_world, unit) proc" where
  "set_op f = on_local (\<lambda>l. l\<lparr>lo_op := f (lo_op l)\<rparr>)"

text \<open>\<^verbatim>\<open>self._save(operation)\<close>: the worker's own document gets the time and is stored.\<close>

definition save_op :: "rec_env \<Rightarrow> (rec_local \<times> rec_world, unit) proc" where
  "save_op env = (\<lambda>(l, w). case save_document env (lo_op l) w of
     (Inl e, w') \<Rightarrow> (Inl e, l, w') | (Inr d, w') \<Rightarrow> (Inr (), l\<lparr>lo_op := d\<rparr>, w'))"

definition load_op :: "string \<Rightarrow> (rec_local \<times> rec_world, unit) proc" where
  "load_op k = bindS (on_shared (find_operation k)) (\<lambda>d. set_op (\<lambda>_. d))"

definition save_with :: "rec_env \<Rightarrow> (rec_op \<Rightarrow> rec_op) \<Rightarrow> unit rec_script" where
  "save_with env f = atom (thenS (set_op f) (save_op env))"

definition check_cancelled :: "string \<Rightarrow> unit rec_script" where
  "check_cancelled k = atom (on_shared (bindS (gets rw_cancelled) (\<lambda>ks.
     if k \<in> set ks then fail RecoveryError ''operation cancelled'' else ret ())))"

definition call_adapter :: "rec_call \<Rightarrow> (nat \<Rightarrow> 'a result) \<Rightarrow> 'a rec_script" where
  "call_adapter c answer = atom (on_shared (\<lambda>w.
     (answer (length (rw_log w)), w\<lparr>rw_log := c # rw_log w\<rparr>)))"

definition safe_error :: "exn \<Rightarrow> string \<Rightarrow> string" where
  "safe_error e fallback = (if catches [RecoveryError] e then exn_msg e else fallback)"

definition note_failure :: "string \<Rightarrow> string \<Rightarrow> string \<Rightarrow> exn \<Rightarrow> unit rec_script" where
  "note_failure k cancelled failed e = atom (bindS (on_shared (gets rw_cancelled)) (\<lambda>ks.
     set_op (\<lambda>d. if k \<in> set ks then d\<lparr>ro_state := RcCancelled, ro_error := Some cancelled\<rparr>
                 else d\<lparr>ro_state := RcFailed, ro_error := Some (safe_error e failed)\<rparr>)))"

definition new_artifact :: "rec_env \<Rightarrow> string \<Rightarrow> rec_op \<Rightarrow> artifact" where
  "new_artifact env backup d =
     \<lparr>ar_id = backup, ar_profile = rv_profile env, ar_scope = BACKUP_SCOPES,
      ar_destination = rv_destination env, ar_created = ro_created d, ar_checksums = [],
      ar_manifest = None\<rparr>"

definition open_artifact :: "rec_env \<Rightarrow> string \<Rightarrow> unit rec_script" where
  "open_artifact env backup = atom (\<lambda>(l, w).
     let a = new_artifact env backup (lo_op l)
     in case put_artifact a False w of (r, w') \<Rightarrow> (r, l\<lparr>lo_artifact := a\<rparr>, w'))"

definition scope_checksum :: "document \<Rightarrow> string result" where
  "scope_checksum result =
     (case getd result ''checksum'' JNull of
        JStr digest \<Rightarrow> if starts_with ''sha256:'' digest then Inr digest
                       else raise IncompleteArtifact ''backup scope did not produce a checksum''
      | _ \<Rightarrow> raise IncompleteArtifact ''backup scope did not produce a checksum'')"

definition add_checksum :: "string \<Rightarrow> string \<Rightarrow> artifact \<Rightarrow> artifact" where
  "add_checksum scope digest a = a\<lparr>ar_checksums := AList.update scope digest (ar_checksums a)\<rparr>"

definition record_checksum :: "rec_env \<Rightarrow> string \<Rightarrow> document \<Rightarrow> unit rec_script" where
  "record_checksum env scope result =
     and_then (Stop (scope_checksum result)) (\<lambda>digest.
       followed_by (atom (on_local (\<lambda>l. l\<lparr>lo_artifact := add_checksum scope digest (lo_artifact l)\<rparr>)))
         (save_with env (\<lambda>d. d\<lparr>ro_completed := ro_completed d @ [scope]\<rparr>)))"

definition backup_scope :: "rec_env \<Rightarrow> string \<Rightarrow> string \<Rightarrow> string \<Rightarrow> unit rec_script" where
  "backup_scope env k backup scope =
     followed_by (check_cancelled k)
       (followed_by (save_with env (\<lambda>d. d\<lparr>ro_current := Some scope\<rparr>))
         (and_then (call_adapter (BackupCall backup scope) (\<lambda>n. rv_backup env n backup scope))
           (record_checksum env scope)))"

definition manifest :: "rec_env \<Rightarrow> artifact \<Rightarrow> artifact" where
  "manifest env a = a\<lparr>ar_manifest := Some (''sha256:'' @ rv_sha256 env (dumps (artifact_json a)))\<rparr>"

definition seal_artifact :: "rec_env \<Rightarrow> unit rec_script" where
  "seal_artifact env = atom (\<lambda>(l, w).
     let a = manifest env (lo_artifact l)
     in case put_artifact a True w of
          (r, w') \<Rightarrow> (r, l\<lparr>lo_artifact := a, lo_op := (lo_op l)\<lparr>ro_state := RcSucceeded\<rparr>\<rparr>, w'))"

definition run_backup :: "rec_env \<Rightarrow> string \<Rightarrow> string \<Rightarrow> unit rec_script" where
  "run_backup env k backup =
     followed_by (atom (load_op k))
       (followed_by (open_artifact env backup)
         (ensure
           (rescue
             (followed_by (save_with env (\<lambda>d. d\<lparr>ro_state := RcRunning\<rparr>))
               (followed_by (each BACKUP_SCOPES (backup_scope env k backup)) (seal_artifact env)))
             (note_failure k ''backup cancelled at a safe boundary''
                ''backup failed; incomplete artifact cannot be restored''))
           (save_with env (\<lambda>d. d\<lparr>ro_current := None\<rparr>))))"

definition RESTORE_CHECKS :: "string list" where
  "RESTORE_CHECKS = [''manager-readiness'', ''mysql-query'', ''ssc-readiness'', ''postgresql-query'',
                     ''dast-readiness'', ''ssc-secret-key-match'']"

fun all_passed :: "json list \<Rightarrow> bool result" where
  "all_passed [] = Inr True"
| "all_passed (JObj ms # js) =
     (if getd ms ''state'' JNull = JStr ''passed'' then all_passed js else Inr False)"
| "all_passed (_ # js) = raise PyAttributeError ''get''"

fun sanitize_item :: "json \<Rightarrow> (string \<times> string) list" where
  "sanitize_item (JObj ms) =
     map (\<lambda>(k, v). (k, take 128 (str_of v))) (filter (\<lambda>m. fst m \<in> {''check'', ''state'', ''code''}) ms)"
| "sanitize_item _ = []"

definition judge_evidence :: "json list \<Rightarrow> (string \<times> string) list list result" where
  "judge_evidence evidence =
     (if evidence = [] then raise RecoveryError ''application-level recovery verification failed''
      else case all_passed evidence of
             Inl e \<Rightarrow> Inl e
           | Inr ok \<Rightarrow> if ok then Inr (map sanitize_item evidence)
                       else raise RecoveryError ''application-level recovery verification failed'')"

definition restore_scope :: "rec_env \<Rightarrow> string \<Rightarrow> string \<Rightarrow> string \<Rightarrow> unit rec_script" where
  "restore_scope env k backup scope =
     followed_by (check_cancelled k)
       (followed_by (save_with env (\<lambda>d. d\<lparr>ro_current := Some scope\<rparr>))
         (followed_by (call_adapter (RestoreCall backup scope) (\<lambda>n. rv_restore env n backup scope))
           (save_with env (\<lambda>d. d\<lparr>ro_completed := ro_completed d @ [scope]\<rparr>))))"

definition require_artifact :: "rec_env \<Rightarrow> string \<Rightarrow> unit rec_script" where
  "require_artifact env backup = atom (on_shared (bindS (find_artifact backup True) (\<lambda>a.
     if ar_profile a \<noteq> rv_profile env
     then fail IncompatibleBackup ''backup platform profile is incompatible'' else ret ())))"

definition verify_restore :: "rec_env \<Rightarrow> string \<Rightarrow> unit rec_script" where
  "verify_restore env backup =
     and_then (call_adapter (VerifyCall backup RESTORE_CHECKS) (\<lambda>n. rv_verify env n backup RESTORE_CHECKS))
       (\<lambda>evidence. and_then (Stop (judge_evidence evidence)) (\<lambda>clean.
          atom (set_op (\<lambda>d. d\<lparr>ro_evidence := clean, ro_state := RcSucceeded\<rparr>))))"

definition restore_work :: "rec_env \<Rightarrow> string \<Rightarrow> string \<Rightarrow> unit rec_script" where
  "restore_work env k backup =
     followed_by (require_artifact env backup)
       (followed_by (save_with env (\<lambda>d. d\<lparr>ro_state := RcRunning\<rparr>))
         (followed_by (each (rev BACKUP_SCOPES) (restore_scope env k backup))
           (followed_by (save_with env (\<lambda>d. d\<lparr>ro_state := RcVerifying\<rparr>))
             (verify_restore env backup))))"

definition run_restore :: "rec_env \<Rightarrow> string \<Rightarrow> string \<Rightarrow> unit rec_script" where
  "run_restore env k backup =
     followed_by (atom (load_op k))
       (ensure
         (rescue (restore_work env k backup)
           (note_failure k ''restore cancelled at a safe boundary; applications require verification''
              ''restore failed; follow the recovery plan''))
         (save_with env (\<lambda>d. d\<lparr>ro_current := None\<rparr>)))"

fun worker_script :: "rec_env \<Rightarrow> rec_action \<times> string \<times> string \<Rightarrow> unit rec_script" where
  "worker_script env (BackupAction, k, backup) = run_backup env k backup"
| "worker_script env (RestoreAction, k, backup) = run_restore env k backup"

section \<open>Threads of the service\<close>

text \<open>A backup worker alone writes its artifact; restores and cancellations write none.\<close>

datatype rec_role = Writer string | Reader

fun worker_role :: "rec_action \<times> string \<times> string \<Rightarrow> rec_role" where
  "worker_role (BackupAction, k, backup) = Writer backup"
| "worker_role (RestoreAction, k, backup) = Reader"

type_synonym rec_system = "(rec_role, rec_local, rec_world) task list \<times> rec_world"

inductive recovery_step :: "rec_env \<Rightarrow> rec_system \<Rightarrow> rec_system \<Rightarrow> bool" for env where
  ask_backup: "submit_backup env actor w = (r, w') \<Longrightarrow> recovery_step env (ts, w) (ts, w')"
| ask_restore: "submit_restore env backup actor confirmation w = (r, w') \<Longrightarrow>
    recovery_step env (ts, w) (ts, w')"
| ask_cancel: "recovery_step env (ts, w)
    ((Reader, l, followed_by (cancel_operation env k) (Stop (Inr ()))) # ts, w)"
| begin_worker: "rw_started w = xs @ j # ys \<Longrightarrow>
    recovery_step env (ts, w) ((worker_role j, l, worker_script env j) # ts, w\<lparr>rw_started := xs @ ys\<rparr>)"
| run_on: "turn (ts, w) (ts', w') \<Longrightarrow> recovery_step env (ts, w) (ts', w')"
| restart: "recovery_step env (ts, w) ([], reopen env w)"

section \<open>What the pieces leave alone\<close>

definition plain :: "rec_world \<Rightarrow> rec_world \<Rightarrow> bool" where
  "plain w w' \<longleftrightarrow> rw_artifacts w' = rw_artifacts w \<and> rw_log w' = rw_log w
     \<and> rw_started w' = rw_started w \<and> rw_ids w' = rw_ids w"

definition silent :: "rec_local \<times> rec_world \<Rightarrow> rec_local \<times> rec_world \<Rightarrow> bool" where
  "silent x y \<longleftrightarrow> lo_artifact (fst y) = lo_artifact (fst x) \<and> plain (snd x) (snd y)"

interpretation silent: evolution silent
  by unfold_locales (auto simp: silent_def plain_def)

lemma quiet_set_op: "evolves silent (set_op f)"
  by (auto simp: evolves_def set_op_def on_local_def silent_def plain_def)

lemma quiet_save_op: "evolves silent (save_op env)"
  by (auto simp: evolves_def save_op_def save_document_def rec_now_def put_operation_def silent_def plain_def
      bindS_def Let_def)

lemma quiet_shared: "(\<And>w. plain w (snd (m w))) \<Longrightarrow> evolves silent (on_shared m)"
  by (auto simp: evolves_def on_shared_def silent_def split_beta)

lemma plain_reads: "plain w (snd (find_operation k w))" "plain w (snd (find_artifact k b w))"
    "plain w (snd (gets f w))" "plain w (snd (request_cancel k w))" "plain w (snd (save_document env d w))"
  by (auto simp: find_operation_def find_artifact_def request_cancel_def save_document_def rec_now_def
      put_operation_def bindS_def plain_def Let_def split: option.splits)

lemma quiet_load_op: "evolves silent (load_op k)"
  unfolding load_op_def by (intro silent.ev_bindS quiet_shared plain_reads quiet_set_op)

section \<open>Rely and guarantee\<close>

definition complete :: "rec_world \<Rightarrow> string \<Rightarrow> artifact \<Rightarrow> bool" where
  "complete w b a \<longleftrightarrow> rw_artifacts w b = Some (True, a)"

definition whole :: "rec_env \<Rightarrow> string \<Rightarrow> artifact \<Rightarrow> bool" where
  "whole env b a \<longleftrightarrow> ar_id a = b \<and> ar_scope a = BACKUP_SCOPES
     \<and> map fst (ar_checksums a) = BACKUP_SCOPES
     \<and> list_all (starts_with ''sha256:'') (map snd (ar_checksums a))
     \<and> ar_manifest a = Some (''sha256:'' @ rv_sha256 env (dumps (artifact_json (a\<lparr>ar_manifest := None\<rparr>))))"

definition archive_ok :: "rec_env \<Rightarrow> rec_world \<Rightarrow> bool" where
  "archive_ok env w \<longleftrightarrow> (\<forall>b a. complete w b a \<longrightarrow> whole env b a)
     \<and> (\<forall>b scope. RestoreCall b scope \<in> set (rw_log w) \<longrightarrow>
          (\<exists>a. complete w b a \<and> ar_profile a = rv_profile env))"

definition keeps_complete :: "rec_world \<Rightarrow> rec_world \<Rightarrow> bool" where
  "keeps_complete w w' \<longleftrightarrow> (\<forall>b a. complete w b a \<longrightarrow> complete w' b a)"

fun rec_rely :: "rec_role \<Rightarrow> rec_world \<Rightarrow> rec_world \<Rightarrow> bool" where
  "rec_rely (Writer b) w w' \<longleftrightarrow> rw_artifacts w' b = rw_artifacts w b"
| "rec_rely Reader w w' \<longleftrightarrow> keeps_complete w w'"

definition settled_parts :: "rec_world \<Rightarrow> rec_world \<Rightarrow> bool" where
  "settled_parts w w' \<longleftrightarrow> keeps_complete w w' \<and> rw_started w' = rw_started w \<and> rw_ids w' = rw_ids w"

fun rec_guarantee :: "rec_env \<Rightarrow> rec_role \<Rightarrow> rec_world \<Rightarrow> rec_world \<Rightarrow> bool" where
  "rec_guarantee env (Writer b) w w' \<longleftrightarrow> settled_parts w w'
     \<and> (\<forall>c. c \<noteq> b \<longrightarrow> rw_artifacts w' c = rw_artifacts w c) \<and> (archive_ok env w \<longrightarrow> archive_ok env w')"
| "rec_guarantee env Reader w w' \<longleftrightarrow> settled_parts w w'
     \<and> rw_artifacts w' = rw_artifacts w \<and> (archive_ok env w \<longrightarrow> archive_ok env w')"

fun rec_fits :: "rec_role \<Rightarrow> rec_role \<Rightarrow> bool" where
  "rec_fits (Writer b) (Writer c) \<longleftrightarrow> b \<noteq> c"
| "rec_fits _ _ \<longleftrightarrow> True"

interpretation service: fair_share rec_rely "rec_guarantee env" rec_fits "\<lambda>_ _ _. True" for env
proof
  show "preorder_rely (rec_rely r)" for r
    by (cases r) (auto simp: preorder_rely_def keeps_complete_def)
  show "rec_rely r' w w'" if "rec_guarantee env r w w'" "rec_fits r r'" for r r' and w w' :: rec_world
    using that by (cases r; cases r') (auto simp: settled_parts_def keeps_complete_def)
qed

lemma plain_guarantee: "plain w w' \<Longrightarrow> rec_guarantee env r w w'"
  by (cases r) (auto simp: plain_def settled_parts_def keeps_complete_def archive_ok_def complete_def)

lemma plain_rely: "plain w w' \<Longrightarrow> rec_rely r w w'"
  by (cases r) (auto simp: plain_def keeps_complete_def complete_def)

text \<open>An assertion of a thread is one that its rely and its silent pieces do not disturb.\<close>

definition own :: "rec_role \<Rightarrow> (rec_local \<times> rec_world \<Rightarrow> bool) \<Rightarrow> bool" where
  "own r I \<longleftrightarrow> (\<forall>l w w'. rec_rely r w w' \<longrightarrow> I (l, w) \<longrightarrow> I (l, w'))
     \<and> (\<forall>x y. silent x y \<longrightarrow> I x \<longrightarrow> I y)"

abbreviation thread :: "rec_env \<Rightarrow> rec_role \<Rightarrow> ('a result \<Rightarrow> rec_local \<times> rec_world \<Rightarrow> bool) \<Rightarrow> 'a rec_script
    \<Rightarrow> rec_local \<times> rec_world \<Rightarrow> bool" where
  "thread env r \<equiv> rg (rec_rely r) (rec_guarantee env r)"

lemma thread_quiet:
  assumes "own r I" and "evolves silent m" and "I z"
  shows "thread env r (\<lambda>_. I) (atom m) z"
proof -
  obtain l w where z: "z = (l, w)" by (cases z)
  show ?thesis unfolding z
  proof (rule rg_atom)
    fix t x l' u assume t: "rec_rely r w t" and run: "m (l, t) = (x, l', u)"
    have q: "silent (l, t) (l', u)" using evolvesD[OF assms(2) run] .
    then have "I (l', u)" using assms(1,3) t unfolding z own_def by blast
    then have "\<forall>v. rec_rely r u v \<longrightarrow> I (l', v)" using assms(1) unfolding own_def by blast
    moreover have "rec_guarantee env r t u" using q by (intro plain_guarantee) (simp add: silent_def)
    ultimately show "rec_guarantee env r t u \<and> (\<forall>v. rec_rely r u v \<longrightarrow> I (l', v))" by blast
  qed
qed

text \<open>\<open>ends E J\<close>: where a call raises, \<open>E\<close> holds, and where it returns, \<open>J\<close>.\<close>

definition ends :: "('x \<Rightarrow> bool) \<Rightarrow> ('x \<Rightarrow> bool) \<Rightarrow> 'a result \<Rightarrow> 'x \<Rightarrow> bool" where
  "ends E J r y = (case r of Inl e \<Rightarrow> E y | Inr v \<Rightarrow> J y)"

lemma ends_simps [simp]: "ends E J (Inl e) y = E y" "ends E J (Inr v) y = J y"
  by (simp_all add: ends_def)

lemma thread_seq:
  assumes "thread env r (ends E I) p z" and "\<And>x y. I y \<Longrightarrow> thread env r (ends E J) (f x) y"
  shows "thread env r (ends E J) (and_then p f) z"
  by (rule rg_and_then[OF service.rely assms(1)])
    (use assms(2) service.rely[of r] in \<open>auto simp: preorder_rely_def\<close>)

lemma thread_ends:
  assumes "thread env r (\<lambda>_. I) p z" and "\<And>y. I y \<Longrightarrow> E y"
  shows "thread env r (ends E I) p z"
  by (rule rg_weaken[OF assms(1)]) (use assms(2) in \<open>auto simp: ends_def split: sum.splits\<close>)

lemma thread_stop: "own r I \<Longrightarrow> I z \<Longrightarrow> thread env r (\<lambda>_. I) (Stop x) z"
  by (cases z) (auto simp: own_def)

lemma thread_raise: "own r E \<Longrightarrow> E z \<Longrightarrow> thread env r (ends E J) (Stop (Inl e)) z"
  by (cases z) (auto simp: own_def)

lemma quiet_save_with: "own r I \<Longrightarrow> I z \<Longrightarrow> thread env r (\<lambda>_. I) (save_with env f) z"
  unfolding save_with_def by (intro thread_quiet silent.ev_bindS quiet_set_op quiet_save_op)

lemma quiet_check: "own r I \<Longrightarrow> I z \<Longrightarrow> thread env r (\<lambda>_. I) (check_cancelled k) z"
  unfolding check_cancelled_def
  by (rule thread_quiet) (auto intro!: quiet_shared simp: plain_def bindS_def)

lemma quiet_failure: "own r I \<Longrightarrow> I z \<Longrightarrow> thread env r (\<lambda>_. I) (note_failure k c f e) z"
  unfolding note_failure_def
  by (intro thread_quiet silent.ev_bindS quiet_shared plain_reads quiet_set_op)

lemma quiet_load: "own r I \<Longrightarrow> I z \<Longrightarrow> thread env r (\<lambda>_. I) (atom (load_op k)) z"
  by (rule thread_quiet[OF _ quiet_load_op])

lemmas quiet_pieces = quiet_save_with quiet_check quiet_failure quiet_load

lemma thread_call:
  assumes "own r I" and "I z"
    and "\<And>l w. I (l, w) \<Longrightarrow> archive_ok env w \<Longrightarrow> archive_ok env (w\<lparr>rw_log := c # rw_log w\<rparr>)"
    and "\<And>l w. I (l, w) \<Longrightarrow> I (l, w\<lparr>rw_log := c # rw_log w\<rparr>)"
  shows "thread env r (\<lambda>_. I) (call_adapter c answer) z"
proof -
  obtain l w where z: "z = (l, w)" by (cases z)
  have stable: "I (l, v)" if "I (l, u)" "rec_rely r u v" for l u v
    using assms(1) that unfolding own_def by blast
  show ?thesis unfolding z call_adapter_def
  proof (rule rg_atom)
    fix t x l' u assume t: "rec_rely r w t"
      and "on_shared (\<lambda>w. (answer (length (rw_log w)), w\<lparr>rw_log := c # rw_log w\<rparr>)) (l, t) = (x, l', u)"
    then have u: "l' = l" "u = t\<lparr>rw_log := c # rw_log t\<rparr>" by (simp_all add: on_shared_def)
    have I: "I (l, t)" using stable[of l w t] assms(2) t z by simp
    have "rec_guarantee env r t u"
      using assms(3)[OF I] by (cases r) (auto simp: u settled_parts_def keeps_complete_def complete_def)
    then show "rec_guarantee env r t u \<and> (\<forall>v. rec_rely r u v \<longrightarrow> I (l', v))"
      using stable assms(4)[OF I] by (simp add: u)
  qed
qed

section \<open>The backup worker\<close>

definition untouched :: "string \<Rightarrow> rec_local \<times> rec_world \<Rightarrow> bool" where
  "untouched b z \<longleftrightarrow> rw_artifacts (snd z) b = None"

definition part_written :: "string \<Rightarrow> string list \<Rightarrow> artifact \<Rightarrow> bool" where
  "part_written b xs a \<longleftrightarrow> ar_id a = b \<and> ar_scope a = BACKUP_SCOPES \<and> ar_manifest a = None
     \<and> map fst (ar_checksums a) = xs \<and> list_all (starts_with ''sha256:'') (map snd (ar_checksums a))"

definition writing :: "string \<Rightarrow> string list \<Rightarrow> rec_local \<times> rec_world \<Rightarrow> bool" where
  "writing b xs z \<longleftrightarrow> (\<exists>a. rw_artifacts (snd z) b = Some (False, a)) \<and> part_written b xs (lo_artifact (fst z))"

definition begun_writing :: "string \<Rightarrow> rec_local \<times> rec_world \<Rightarrow> bool" where
  "begun_writing b z \<longleftrightarrow> (\<exists>a. rw_artifacts (snd z) b = Some (False, a))"

lemma own_untouched: "own (Writer b) (untouched b)"
  by (auto simp: own_def untouched_def silent_def plain_def)

lemma own_writing: "own (Writer b) (writing b xs)"
  by (auto simp: own_def writing_def silent_def plain_def)

lemma own_begun: "own (Writer b) (begun_writing b)"
  by (auto simp: own_def begun_writing_def silent_def plain_def)

lemma own_anything: "own r (\<lambda>_. True)"
  by (simp add: own_def)

lemma log_backup_ok: "archive_ok env w \<Longrightarrow> archive_ok env (w\<lparr>rw_log := BackupCall b s # rw_log w\<rparr>)"
  by (simp add: archive_ok_def complete_def)

lemma open_artifact_thread:
  assumes "untouched b z"
  shows "thread env (Writer b) (\<lambda>_. writing b []) (open_artifact env b) z"
proof -
  obtain l w where z: "z = (l, w)" by (cases z)
  show ?thesis unfolding z open_artifact_def
  proof (rule rg_atom)
    fix t r l' u
    assume t: "rec_rely (Writer b) w t" and "(\<lambda>(l, w). let a = new_artifact env b (lo_op l)
       in case put_artifact a False w of (r, w') \<Rightarrow> (r, l\<lparr>lo_artifact := a\<rparr>, w')) (l, t) = (r, l', u)"
    then have u: "l' = l\<lparr>lo_artifact := new_artifact env b (lo_op l)\<rparr>"
      "u = t\<lparr>rw_artifacts := (rw_artifacts t)(b \<mapsto> (False, new_artifact env b (lo_op l)))\<rparr>"
      by (auto simp: put_artifact_def new_artifact_def Let_def)
    have none: "rw_artifacts t b = None" using assms t by (simp add: z untouched_def)
    have same: "complete u c a \<longleftrightarrow> complete t c a" for c a using none by (auto simp: complete_def u)
    have "rec_guarantee env (Writer b) t u"
      using same by (auto simp: settled_parts_def keeps_complete_def archive_ok_def u(2))
    moreover have "writing b [] (l', v)" if "rec_rely (Writer b) u v" for v
      using that by (simp add: writing_def part_written_def u new_artifact_def)
    ultimately show "rec_guarantee env (Writer b) t u \<and> (\<forall>v. rec_rely (Writer b) u v \<longrightarrow> writing b [] (l', v))"
      by blast
  qed
qed

lemma scope_checksum_sha: "scope_checksum d = Inr v \<Longrightarrow> starts_with ''sha256:'' v"
  by (auto simp: scope_checksum_def split: json.splits if_splits)

lemma update_new_key: "x \<notin> fst ` set ys \<Longrightarrow> AList.update x v ys = ys @ [(x, v)]"
  by (induction ys) auto

lemma part_written_add:
  assumes "part_written b xs a" and "x \<notin> set xs" and "starts_with ''sha256:'' v"
  shows "part_written b (xs @ [x]) (add_checksum x v a)"
  using assms by (auto simp: part_written_def add_checksum_def update_new_key)

lemma writing_begun: "writing b xs z \<Longrightarrow> begun_writing b z"
  by (auto simp: writing_def begun_writing_def)

lemma add_checksum_thread:
  assumes "writing b xs z" and "x \<notin> set xs" and "starts_with ''sha256:'' v"
  shows "thread env (Writer b) (\<lambda>_. writing b (xs @ [x]))
    (atom (on_local (\<lambda>l. l\<lparr>lo_artifact := add_checksum x v (lo_artifact l)\<rparr>))) z"
proof -
  obtain l w where z: "z = (l, w)" by (cases z)
  show ?thesis unfolding z
    using assms part_written_add[OF _ assms(2,3)]
    by (intro rg_atom) (auto simp: z on_local_def writing_def plain_guarantee plain_def
        settled_parts_def keeps_complete_def)
qed

lemma backup_call_thread:
  "writing b xs z \<Longrightarrow> thread env (Writer b) (\<lambda>_. writing b xs)
     (call_adapter (BackupCall b x) (\<lambda>n. rv_backup env n b x)) z"
  by (rule thread_call[OF own_writing _ log_backup_ok]) (auto simp: writing_def)

lemmas writer_pieces = quiet_pieces[OF own_writing] backup_call_thread

lemma writing_ends:
  "thread env (Writer b) (\<lambda>_. writing b xs) p z \<Longrightarrow>
   thread env (Writer b) (ends (begun_writing b) (writing b xs)) p z"
  by (rule thread_ends[OF _ writing_begun])

lemmas writer_ends = writer_pieces[THEN writing_ends]

lemma record_checksum_thread:
  assumes "writing b xs z" and "x \<notin> set xs"
  shows "thread env (Writer b) (ends (begun_writing b) (writing b (xs @ [x]))) (record_checksum env x d) z"
proof (cases "scope_checksum d")
  case (Inl e)
  then show ?thesis
    using thread_raise[OF own_begun writing_begun[OF assms(1)]] by (simp add: record_checksum_def)
next
  case (Inr v)
  have "thread env (Writer b) (ends (begun_writing b) (writing b (xs @ [x])))
      (followed_by (atom (on_local (\<lambda>l. l\<lparr>lo_artifact := add_checksum x v (lo_artifact l)\<rparr>)))
        (save_with env (\<lambda>d. d\<lparr>ro_completed := ro_completed d @ [x]\<rparr>))) z"
    by (rule thread_seq[OF thread_ends[OF add_checksum_thread[OF assms scope_checksum_sha[OF Inr]]]])
      (auto intro: writer_ends writing_begun)
  then show ?thesis using Inr by (simp add: record_checksum_def)
qed

lemma backup_scope_thread:
  assumes "writing b xs z" and "x \<notin> set xs"
  shows "thread env (Writer b) (ends (begun_writing b) (writing b (xs @ [x]))) (backup_scope env k b x) z"
  unfolding backup_scope_def
  by (rule thread_seq, rule writer_ends, rule assms, rule thread_seq, rule writer_ends, assumption,
      rule thread_seq, rule writer_ends, assumption, rule record_checksum_thread, assumption, rule assms)

lemma seal_thread:
  assumes "writing b BACKUP_SCOPES z"
  shows "thread env (Writer b) (\<lambda>_ _. True) (seal_artifact env) z"
proof -
  obtain l w where z: "z = (l, w)" by (cases z)
  let ?a = "manifest env (lo_artifact l)"
  have part: "part_written b BACKUP_SCOPES (lo_artifact l)" using assms by (simp add: writing_def z)
  then have whole: "whole env b ?a" and id: "ar_id ?a = b"
    by (auto simp: part_written_def whole_def manifest_def)
      (metis artifact.surjective artifact.update_convs(7))
  show ?thesis unfolding z seal_artifact_def
  proof (rule rg_atom)
    fix t r l' u
    assume t: "rec_rely (Writer b) w t" and "(\<lambda>(l, w). let a = manifest env (lo_artifact l)
       in case put_artifact a True w of
            (r, w') \<Rightarrow> (r, l\<lparr>lo_artifact := a, lo_op := (lo_op l)\<lparr>ro_state := RcSucceeded\<rparr>\<rparr>, w')) (l, t) = (r, l', u)"
    then have u: "u = t\<lparr>rw_artifacts := (rw_artifacts t)(b \<mapsto> (True, ?a))\<rparr>"
      using id by (auto simp: put_artifact_def Let_def)
    obtain a where open_: "rw_artifacts t b = Some (False, a)"
      using assms t by (auto simp: z writing_def)
    have c: "complete u c x \<longleftrightarrow> (if c = b then x = ?a else complete t c x)" for c x
      by (auto simp: complete_def u)
    have not: "\<not> complete t b x" for x using open_ by (simp add: complete_def)
    have "archive_ok env u" if "archive_ok env t"
      unfolding archive_ok_def
    proof (intro conjI allI impI)
      show "whole env d x" if "complete u d x" for d x
        using that whole \<open>archive_ok env t\<close> by (auto simp: c archive_ok_def split: if_splits)
      fix d scope assume "RestoreCall d scope \<in> set (rw_log u)"
      then obtain x where "complete t d x" "ar_profile x = rv_profile env"
        using \<open>archive_ok env t\<close> by (auto simp: archive_ok_def u)
      then show "\<exists>x. complete u d x \<and> ar_profile x = rv_profile env" using not by (auto simp: c)
    qed
    then show "rec_guarantee env (Writer b) t u \<and> (\<forall>v. rec_rely (Writer b) u v \<longrightarrow> True)"
      using not c unfolding rec_guarantee.simps settled_parts_def keeps_complete_def by (auto simp: u)
  qed
qed

lemma all_scopes: "distinct BACKUP_SCOPES"
  by (simp add: BACKUP_SCOPES_def)

lemma scopes_thread:
  assumes "writing b [] z"
  shows "thread env (Writer b) (ends (begun_writing b) (writing b BACKUP_SCOPES))
    (each BACKUP_SCOPES (backup_scope env k b)) z"
proof (rule rg_each[OF service.rely, where I = "\<lambda>rest z. \<exists>xs. BACKUP_SCOPES = xs @ rest \<and> writing b xs z"])
  show "\<exists>xs. BACKUP_SCOPES = xs @ BACKUP_SCOPES \<and> writing b xs (fst z, t)" if "rec_rely (Writer b) (snd z) t" for t
    using assms that own_writing by (cases z) (auto simp: writing_def)
next
  fix x rest y
  assume *: "\<And>t. rec_rely (Writer b) (snd y) t \<Longrightarrow>
      \<exists>xs. BACKUP_SCOPES = xs @ (x # rest) \<and> writing b xs (fst y, t)"
  obtain xs where xs: "BACKUP_SCOPES = xs @ x # rest" "writing b xs y" using *[of "snd y"] by auto
  then have "x \<notin> set xs" using all_scopes by (metis distinct_append not_distinct_conv_prefix)
  show "thread env (Writer b) (\<lambda>r z. case r of Inl e \<Rightarrow> ends (begun_writing b) (writing b BACKUP_SCOPES) (Inl e) z
      | Inr _ \<Rightarrow> \<exists>xs. BACKUP_SCOPES = xs @ rest \<and> writing b xs z) (backup_scope env k b x) y"
    by (rule rg_weaken[OF backup_scope_thread[OF xs(2) \<open>x \<notin> set xs\<close>]])
      (auto simp: xs(1) ends_def split: sum.splits)
qed auto

lemma thread_free:
  "thread env r (\<lambda>_ _. True) p z \<Longrightarrow> (\<And>x y. thread env r (\<lambda>_ _. True) (f x) y) \<Longrightarrow>
   thread env r (\<lambda>_ _. True) (and_then p f) z"
  by (rule rg_and_then[OF service.rely]) auto

lemma work_thread:
  assumes "writing b [] y"
  shows "thread env (Writer b) (\<lambda>_ _. True)
    (followed_by (save_with env f) (followed_by (each BACKUP_SCOPES (backup_scope env k b)) (seal_artifact env))) y"
proof (rule rg_and_then[OF service.rely quiet_save_with[OF own_writing assms]])
  fix z assume "\<And>t. rec_rely (Writer b) (snd z) t \<Longrightarrow> writing b [] (fst z, t)"
  then have z: "writing b [] z" by (cases z) simp
  show "thread env (Writer b) (\<lambda>_ _. True) (followed_by (each BACKUP_SCOPES (backup_scope env k b)) (seal_artifact env)) z"
  proof (rule rg_and_then[OF service.rely scopes_thread[OF z]])
    fix x :: unit and z
    assume "\<And>t. rec_rely (Writer b) (snd z) t \<Longrightarrow> ends (begun_writing b) (writing b BACKUP_SCOPES) (Inr x) (fst z, t)"
    then have "writing b BACKUP_SCOPES z" by (cases z) simp
    then show "thread env (Writer b) (\<lambda>_ _. True) (seal_artifact env) z" by (rule seal_thread)
  qed simp
qed simp

lemmas free_pieces = quiet_pieces[OF own_anything TrueI]

lemma run_backup_thread:
  assumes "untouched b z"
  shows "thread env (Writer b) (\<lambda>_ _. True) (run_backup env k b) z"
  unfolding run_backup_def
proof (rule rg_and_then[OF service.rely quiet_load[OF own_untouched assms]])
  fix z assume "\<And>t. rec_rely (Writer b) (snd z) t \<Longrightarrow> untouched b (fst z, t)"
  then have "untouched b z" by (cases z) simp
  note opened = open_artifact_thread[OF this]
  show "thread env (Writer b) (\<lambda>_ _. True) (followed_by (open_artifact env b)
     (ensure (rescue (followed_by (save_with env (\<lambda>d. d\<lparr>ro_state := RcRunning\<rparr>))
               (followed_by (each BACKUP_SCOPES (backup_scope env k b)) (seal_artifact env)))
             (note_failure k ''backup cancelled at a safe boundary''
                ''backup failed; incomplete artifact cannot be restored''))
           (save_with env (\<lambda>d. d\<lparr>ro_current := None\<rparr>)))) z"
  proof (rule rg_and_then[OF service.rely opened])
    fix z assume "\<And>t. rec_rely (Writer b) (snd z) t \<Longrightarrow> writing b [] (fst z, t)"
    then have "writing b [] z" by (cases z) simp
    note work = work_thread[OF this]
    show "thread env (Writer b) (\<lambda>_ _. True)
     (ensure (rescue (followed_by (save_with env (\<lambda>d. d\<lparr>ro_state := RcRunning\<rparr>))
               (followed_by (each BACKUP_SCOPES (backup_scope env k b)) (seal_artifact env)))
             (note_failure k ''backup cancelled at a safe boundary''
                ''backup failed; incomplete artifact cannot be restored''))
           (save_with env (\<lambda>d. d\<lparr>ro_current := None\<rparr>))) z"
      by (rule rg_ensure[OF service.rely rg_rescue[OF service.rely work]])
        (auto intro: free_pieces rg_weaken[OF free_pieces(1)] split: sum.splits)
  qed simp
qed simp

section \<open>Restores and cancellations\<close>

definition restorable :: "rec_env \<Rightarrow> string \<Rightarrow> rec_local \<times> rec_world \<Rightarrow> bool" where
  "restorable env b z \<longleftrightarrow> (\<exists>a. complete (snd z) b a \<and> ar_profile a = rv_profile env)"

lemma own_restorable: "own Reader (restorable env b)"
  by (fastforce simp: own_def restorable_def silent_def plain_def keeps_complete_def complete_def)

lemma require_thread:
  "thread env Reader (ends (\<lambda>_. True) (restorable env b)) (require_artifact env b) z"
proof -
  obtain l w where z: "z = (l, w)" by (cases z)
  show ?thesis unfolding z require_artifact_def
    by (intro rg_atom) (auto simp: on_shared_def find_artifact_def bindS_def restorable_def complete_def
        keeps_complete_def settled_parts_def split: option.splits if_splits)
qed

lemma restore_call_thread:
  "restorable env b z \<Longrightarrow> thread env Reader (\<lambda>_. restorable env b)
     (call_adapter (RestoreCall b x) (\<lambda>n. rv_restore env n b x)) z"
  by (rule thread_call[OF own_restorable])
    (auto simp: restorable_def archive_ok_def complete_def)

lemma verify_call_thread:
  "thread env Reader (\<lambda>_ _. True) (call_adapter (VerifyCall b xs) (\<lambda>n. rv_verify env n b xs)) z"
  by (rule thread_call[OF own_anything]) (auto simp: archive_ok_def complete_def)

lemmas reader_pieces = quiet_pieces[OF own_restorable] restore_call_thread

lemma reader_ends:
  "thread env Reader (\<lambda>_. restorable env b) p z \<Longrightarrow>
   thread env Reader (ends (\<lambda>_. True) (restorable env b)) p z"
  by (rule thread_ends) simp_all

lemma restore_scope_thread:
  "restorable env b z \<Longrightarrow>
   thread env Reader (ends (\<lambda>_. True) (restorable env b)) (restore_scope env k b x) z"
  unfolding restore_scope_def
  by (intro thread_seq[where I = "restorable env b"] reader_pieces[THEN reader_ends])

lemma restore_scopes_thread:
  assumes "restorable env b z"
  shows "thread env Reader (ends (\<lambda>_. True) (restorable env b)) (each xs (restore_scope env k b)) z"
proof (rule rg_each[OF service.rely, where I = "\<lambda>_. restorable env b"])
  show "restorable env b (fst z, t)" if "rec_rely Reader (snd z) t" for t
    using assms that own_restorable unfolding own_def by (cases z) auto
next
  fix x rest y
  assume "\<And>t. rec_rely Reader (snd y) t \<Longrightarrow> restorable env b (fst y, t)"
  then have y: "restorable env b y" using service.rely[of Reader] by (cases y) (auto simp: preorder_rely_def)
  show "thread env Reader (\<lambda>r z. case r of Inl e \<Rightarrow> ends (\<lambda>_. True) (restorable env b) (Inl e) z
      | Inr _ \<Rightarrow> restorable env b z) (restore_scope env k b x) y"
    by (rule rg_weaken[OF restore_scope_thread[OF y]]) (auto simp: ends_def split: sum.splits)
qed auto

lemma verify_thread: "thread env Reader (\<lambda>_ _. True) (verify_restore env b) z"
proof -
  have done_: "thread env Reader (\<lambda>_ _. True) (atom (set_op f)) y" for f y
    by (rule thread_quiet[OF own_anything quiet_set_op TrueI])
  have "thread env Reader (\<lambda>_ _. True) (and_then (Stop r) (\<lambda>c. atom (set_op (f c)))) y" for r f y
    using done_ by (cases r) auto
  then show ?thesis
    unfolding verify_restore_def by (rule thread_free[OF verify_call_thread])
qed

lemma run_restore_thread: "thread env Reader (\<lambda>_ _. True) (run_restore env k b) z"
proof -
  have "thread env Reader (ends (\<lambda>_. True) (\<lambda>_. True)) (restore_work env k b) y" for y
    unfolding restore_work_def
    by (rule thread_seq[OF require_thread], rule thread_seq[OF reader_pieces(1)[THEN reader_ends]], assumption,
        rule thread_seq[OF restore_scopes_thread], assumption)
      (rule rg_weaken[OF thread_free[OF free_pieces(1) verify_thread]], simp add: ends_def split: sum.split)
  then have "thread env Reader (\<lambda>_ _. True) (restore_work env k b) y" for y
    by (rule rg_weaken) simp
  note work = this
  have "thread env Reader (\<lambda>_ _. True)
      (ensure (rescue (restore_work env k b) (note_failure k c m)) (save_with env h)) y" for c m h y
    by (rule rg_ensure[OF service.rely rg_rescue[OF service.rely work]])
      (auto intro: free_pieces rg_weaken[OF free_pieces(1)] split: sum.splits)
  then show ?thesis
    unfolding run_restore_def by (intro thread_free free_pieces(4))
qed

lemma cancel_thread:
  "thread env Reader (\<lambda>_ _. True) (followed_by (cancel_operation env k) (Stop (Inr ()))) z"
proof -
  have shared_: "thread env r (\<lambda>_ _. True) (atom (on_shared m)) y" if "\<And>w. plain w (snd (m w))" for r and m :: "'b rec_proc" and y
    by (rule thread_quiet[OF own_anything quiet_shared[OF that] TrueI])
  have "thread env Reader (\<lambda>_ _. True) (cancel_rest env k d) y" for d y
    using service.rely[of Reader]
    by (auto simp: cancel_rest_def intro!: thread_free shared_ plain_reads)
  then show ?thesis
    unfolding cancel_operation_def
    by (intro thread_free shared_ plain_reads) auto
qed

section \<open>Every history of the service\<close>

fun writers :: "rec_role list \<Rightarrow> string list" where
  "writers [] = []"
| "writers (Writer b # rs) = b # writers rs"
| "writers (Reader # rs) = writers rs"

definition pending :: "rec_world \<Rightarrow> string list" where
  "pending w = writers (map worker_role (rw_started w))"

definition owners :: "rec_system \<Rightarrow> string list" where
  "owners z = writers (map fst (fst z)) @ pending (snd z)"

definition backup_name :: "rec_env \<Rightarrow> nat \<Rightarrow> string" where
  "backup_name env n = ''backup-'' @ rv_uuid env n"

definition system_ok :: "rec_env \<Rightarrow> rec_system \<Rightarrow> bool" where
  "system_ok env z \<longleftrightarrow> service.on_track env (fst z) (snd z) \<and> archive_ok env (snd z)
     \<and> distinct (owners z) \<and> (\<forall>b\<in>set (pending (snd z)). rw_artifacts (snd z) b = None)
     \<and> (\<forall>n\<ge>rw_ids (snd z). backup_name env n \<notin> set (owners z)
          \<and> rw_artifacts (snd z) (backup_name env n) = None)"

lemma writers_append: "writers (rs @ ss) = writers rs @ writers ss"
  by (induction rs rule: writers.induct) auto

lemma in_writers: "b \<in> set (writers rs) \<longleftrightarrow> Writer b \<in> set rs"
  by (induction rs rule: writers.induct) auto

lemma distinct_writers_nth:
  "distinct (writers rs) \<Longrightarrow> i < length rs \<Longrightarrow> j < length rs \<Longrightarrow> i \<noteq> j \<Longrightarrow> rec_fits (rs ! i) (rs ! j)"
proof (induction rs arbitrary: i j rule: writers.induct)
  case (2 b rs)
  have other: "rec_fits (Writer b) (rs ! k) \<and> rec_fits (rs ! k) (Writer b)" if "k < length rs" for k
    using 2(2) that nth_mem[of k rs] by (cases "rs ! k") (auto simp: in_writers)
  show ?case
    using 2 other by (cases i; cases j) auto
next
  case (3 rs)
  have "rec_fits r Reader" for r by (cases r) auto
  with 3 show ?case by (cases i; cases j) auto
qed simp

lemma owners_together: "distinct (owners (ts, w)) \<Longrightarrow> together rec_fits ts"
  using distinct_writers_nth[of "map fst ts"] by (simp add: owners_def together_def)

lemma guarantee_parts:
  "rec_guarantee env r w w' \<Longrightarrow> settled_parts w w' \<and> (archive_ok env w \<longrightarrow> archive_ok env w')
     \<and> (\<forall>c. r \<noteq> Writer c \<longrightarrow> rw_artifacts w' c = rw_artifacts w c)"
  by (cases r) auto

lemma system_turn:
  assumes "turn (ts, w) (ts', w')" and ok: "system_ok env (ts, w)"
  shows "system_ok env (ts', w') \<and> keeps_complete w w'"
proof -
  have on: "service.on_track env ts w" and "archive_ok env w" and dist: "distinct (owners (ts, w))"
    and clean: "\<forall>b\<in>set (pending w). rw_artifacts w b = None"
    and fresh: "\<forall>n\<ge>rw_ids w. backup_name env n \<notin> set (owners (ts, w)) \<and> rw_artifacts w (backup_name env n) = None"
    using ok by (auto simp: system_ok_def)
  from service.on_track_turn[OF assms(1) on owners_together[OF dist]]
  obtain r where on': "service.on_track env ts' w'" and tags: "map fst ts' = map fst ts"
    and r: "r \<in> fst ` set ts" and g: "rec_guarantee env r w w'" by auto
  from guarantee_parts[OF g] have parts: "settled_parts w w'" and "archive_ok env w'"
    and other: "\<forall>c. r \<noteq> Writer c \<longrightarrow> rw_artifacts w' c = rw_artifacts w c"
    using \<open>archive_ok env w\<close> by auto
  have owners: "owners (ts', w') = owners (ts, w)" and pend: "pending w' = pending w" and ids: "rw_ids w' = rw_ids w"
    using parts tags by (auto simp: owners_def pending_def settled_parts_def)
  have mine: "c \<in> set (writers (map fst ts))" if "r = Writer c" for c
    using r that by (auto simp: in_writers)
  have "\<forall>b\<in>set (pending w). rw_artifacts w' b = None"
  proof
    fix b assume b: "b \<in> set (pending w)"
    then have "r \<noteq> Writer b" using mine dist by (auto simp: owners_def)
    then show "rw_artifacts w' b = None" using other clean b by auto
  qed
  moreover have "\<forall>n\<ge>rw_ids w. rw_artifacts w' (backup_name env n) = None"
  proof (intro allI impI)
    fix n assume n: "rw_ids w \<le> n"
    then have "r \<noteq> Writer (backup_name env n)" using mine fresh by (auto simp: owners_def)
    then show "rw_artifacts w' (backup_name env n) = None" using other fresh n by auto
  qed
  ultimately show ?thesis
    using on' \<open>archive_ok env w'\<close> dist fresh parts
    by (simp add: system_ok_def owners pend ids settled_parts_def)
qed

lemma rely_same: "rw_artifacts w' = rw_artifacts w \<Longrightarrow> rec_rely r w w'"
  by (cases r) (auto simp: keeps_complete_def complete_def)

lemma system_begin:
  assumes started: "rw_started w = xs @ j # ys" and ok: "system_ok env (ts, w)"
  shows "system_ok env ((worker_role j, l, worker_script env j) # ts, w\<lparr>rw_started := xs @ ys\<rparr>)"
proof -
  let ?w = "w\<lparr>rw_started := xs @ ys\<rparr>"
  obtain act k b where j: "j = (act, k, b)" by (cases j)
  have same: "rw_artifacts ?w = rw_artifacts w" "rw_log ?w = rw_log w" "rw_ids ?w = rw_ids w" by simp_all
  have "service.on_track env ts ?w"
    by (rule service.on_track_env[of env ts w])
      (use ok rely_same[of ?w w] in \<open>simp_all add: system_ok_def\<close>)
  moreover have "thread env (worker_role j) (\<lambda>_ _. True) (worker_script env j) (l, ?w)"
  proof (cases act)
    case BackupAction
    then have "rw_artifacts w b = None"
      using ok started by (auto simp: system_ok_def pending_def writers_append j)
    then show ?thesis using run_backup_thread by (simp add: j BackupAction untouched_def)
  qed (use run_restore_thread in \<open>simp add: j\<close>)
  ultimately have "service.on_track env ((worker_role j, l, worker_script env j) # ts) ?w"
    by (rule service.on_track_add)
  moreover have "set (owners ((worker_role j, l, worker_script env j) # ts, ?w)) = set (owners (ts, w))"
    and "distinct (owners ((worker_role j, l, worker_script env j) # ts, ?w))"
    and "set (pending ?w) \<subseteq> set (pending w)"
    using ok started by (cases act; auto simp: system_ok_def owners_def pending_def writers_append j)+
  moreover have "archive_ok env ?w" using ok by (simp add: system_ok_def archive_ok_def complete_def)
  ultimately show ?thesis using ok by (auto simp: system_ok_def)
qed

text \<open>A request that leaves artifacts and log alone and starts at most one worker, under a new name.\<close>

lemma system_ask:
  assumes ok: "system_ok env (ts, w)" and inj: "inj (rv_uuid env)"
    and same: "rw_artifacts w' = rw_artifacts w" "rw_log w' = rw_log w" "rw_ids w \<le> rw_ids w'"
    and names: "pending w' = pending w \<or> pending w' = backup_name env (rw_ids w) # pending w \<and> rw_ids w < rw_ids w'"
  shows "system_ok env (ts, w')"
proof -
  have fresh: "backup_name env n \<notin> set (owners (ts, w)) \<and> rw_artifacts w (backup_name env n) = None"
    if "rw_ids w \<le> n" for n using ok that by (simp add: system_ok_def)
  have other: "backup_name env n \<noteq> backup_name env (rw_ids w)" if "rw_ids w < n" for n
    using inj that by (auto simp: backup_name_def inj_def)
  have "service.on_track env ts w'"
    by (rule service.on_track_env[of env ts w]) (use ok rely_same[OF same(1)] in \<open>simp_all add: system_ok_def\<close>)
  moreover have "archive_ok env w'" using ok same by (simp add: system_ok_def archive_ok_def complete_def)
  moreover have "distinct (owners (ts, w'))" and "\<forall>b\<in>set (pending w'). rw_artifacts w' b = None"
    using ok names fresh[of "rw_ids w"] same(1) by (auto simp: system_ok_def owners_def)
  moreover have "\<forall>n\<ge>rw_ids w'. backup_name env n \<notin> set (owners (ts, w')) \<and> rw_artifacts w' (backup_name env n) = None"
  proof (intro allI impI)
    fix n assume n: "rw_ids w' \<le> n"
    then have "rw_ids w \<le> n" using same(3) by simp
    from fresh[OF this] names other[of n] n
    show "backup_name env n \<notin> set (owners (ts, w')) \<and> rw_artifacts w' (backup_name env n) = None"
      by (auto simp: owners_def same(1))
  qed
  ultimately show ?thesis by (simp add: system_ok_def)
qed

lemma submit_backup_parts:
  assumes "submit_backup env actor w = (r, w')"
  shows "rw_artifacts w' = rw_artifacts w" "rw_log w' = rw_log w" "rw_ids w < rw_ids w'"
    "pending w' = backup_name env (rw_ids w) # pending w"
  using assms by (auto simp: submit_backup_def next_uuid_def new_operation_def rec_now_def put_operation_def
      launch_worker_def bindS_def Let_def pending_def backup_name_def)

lemma submit_restore_parts:
  assumes "submit_restore env b actor confirmation w = (r, w')"
  shows "rw_artifacts w' = rw_artifacts w" "rw_log w' = rw_log w" "rw_ids w \<le> rw_ids w'"
    "pending w' = pending w"
  using assms by (auto simp: submit_restore_def mk_restore_plan_def find_artifact_def next_uuid_def
      new_operation_def rec_now_def put_operation_def launch_worker_def bindS_def Let_def pending_def
      split: if_splits option.splits)

lemma system_step:
  assumes "recovery_step env z z'" and "system_ok env z" and "inj (rv_uuid env)"
  shows "system_ok env z' \<and> keeps_complete (snd z) (snd z')"
  using assms(1)
proof cases
  case (ask_backup actor w r w' ts)
  then show ?thesis
    using assms(2,3) submit_backup_parts[OF ask_backup(3)]
    by (auto intro!: system_ask[of env ts w] simp: keeps_complete_def complete_def)
next
  case (ask_restore backup actor confirmation w r w' ts)
  then show ?thesis
    using assms(2,3) submit_restore_parts[OF ask_restore(3)]
    by (auto intro!: system_ask[of env ts w] simp: keeps_complete_def complete_def)
next
  case (ask_cancel ts w l k)
  then show ?thesis
    using assms(2) service.on_track_add[OF _ cancel_thread, of env ts w l k]
    by (auto simp: system_ok_def owners_def keeps_complete_def)
next
  case (begin_worker w xs j ys ts l)
  then show ?thesis
    using assms(2) system_begin[OF begin_worker(3)] by (auto simp: keeps_complete_def complete_def)
next
  case (run_on ts w ts' w')
  then show ?thesis using assms(2) system_turn by simp
next
  case (restart ts w)
  then show ?thesis
    using assms(2)
    by (auto simp: system_ok_def service.on_track_def owners_def pending_def reopen_def archive_ok_def
        keeps_complete_def complete_def)
qed

lemma system_history:
  assumes "(recovery_step env)\<^sup>*\<^sup>* z z'" and "system_ok env z" and "inj (rv_uuid env)"
  shows "system_ok env z' \<and> keeps_complete (snd z) (snd z')"
  using assms(1)
proof induction
  case (step y y')
  then show ?case using system_step[OF step(2) _ assms(3)] by (auto simp: keeps_complete_def)
qed (simp add: assms(2) keeps_complete_def)

text \<open>A store without restores in its log, whose complete artifacts are whole and whose names are not used up.\<close>

definition first_world :: "rec_env \<Rightarrow> rec_world \<Rightarrow> bool" where
  "first_world env w \<longleftrightarrow> rw_log w = [] \<and> rw_started w = [] \<and> (\<forall>b a. complete w b a \<longrightarrow> whole env b a)
     \<and> (\<forall>n\<ge>rw_ids w. rw_artifacts w (backup_name env n) = None)"

lemma first_world_ok: "first_world env w \<Longrightarrow> system_ok env ([], w)"
  by (simp add: first_world_def system_ok_def service.on_track_def archive_ok_def owners_def pending_def)

text \<open>
  C33. A complete backup is whole and stays as it is, and only complete backups of the own profile are
  restored. Over any history of requests, workers, cancellations and restarts, in any interleaving: an
  artifact that is marked complete has a SHA-256 checksum for every scope and the digest of exactly
  its content as its manifest, no later step changes it, and the adapter was only asked to restore
  artifacts that are complete and of the selected profile.
\<close>

theorem complete_backups_are_whole:
  assumes "inj (rv_uuid env)" and "first_world env w0"
    and "(recovery_step env)\<^sup>*\<^sup>* ([], w0) (ts, w)" and "(recovery_step env)\<^sup>*\<^sup>* (ts, w) (ts', w')"
    and "rw_artifacts w b = Some (True, a)"
  shows "ar_id a = b \<and> map fst (ar_checksums a) = BACKUP_SCOPES
    \<and> list_all (starts_with ''sha256:'') (map snd (ar_checksums a))
    \<and> ar_manifest a = Some (''sha256:'' @ rv_sha256 env (dumps (artifact_json (a\<lparr>ar_manifest := None\<rparr>))))
    \<and> rw_artifacts w' b = Some (True, a)
    \<and> {c. \<exists>scope. RestoreCall c scope \<in> set (rw_log w)}
        \<subseteq> {c. \<exists>x. rw_artifacts w c = Some (True, x) \<and> ar_profile x = rv_profile env}"
proof -
  have ok: "system_ok env (ts, w)"
    using system_history[OF assms(3) first_world_ok[OF assms(2)] assms(1)] by simp
  then have "archive_ok env w" by (simp add: system_ok_def)
  moreover have "complete w b a" using assms(5) by (simp add: complete_def)
  moreover have "keeps_complete w w'" using system_history[OF assms(4) ok assms(1)] by simp
  ultimately show ?thesis by (auto simp: archive_ok_def whole_def keeps_complete_def complete_def)
qed

definition tiny_env :: rec_env where
  "tiny_env = \<lparr>rv_profile = ''p'', rv_destination = \<lparr>de_id = ''d'', de_class = ''object'', de_days = 1\<rparr>,
     rv_now = (\<lambda>_. ''t''), rv_uuid = (\<lambda>n. replicate n (CHR ''u'')), rv_sha256 = (\<lambda>_. ''0''),
     rv_backup = (\<lambda>_ _ _. Inr [(''checksum'', JStr ''sha256:1'')]), rv_restore = (\<lambda>_ _ _. Inr ()),
     rv_verify = (\<lambda>_ _ _. Inr [JObj [(''state'', JStr ''passed'')]])\<rparr>"

definition tiny_artifact :: artifact where
  "tiny_artifact = manifest tiny_env \<lparr>ar_id = ''old'', ar_profile = ''q'', ar_scope = BACKUP_SCOPES,
     ar_destination = rv_destination tiny_env, ar_created = ''t'',
     ar_checksums = map (\<lambda>s. (s, ''sha256:1'')) BACKUP_SCOPES, ar_manifest = None\<rparr>"

definition tiny_world :: rec_world where
  "tiny_world = \<lparr>rw_operations = Map.empty, rw_artifacts = [''old'' \<mapsto> (True, tiny_artifact)],
     rw_cancelled = [], rw_ticks = 0, rw_ids = 0, rw_log = [], rw_started = []\<rparr>"

lemma tiny_inj: "inj (rv_uuid tiny_env)"
  by (auto simp: tiny_env_def inj_def dest: arg_cong[where f = length])

lemma tiny_first: "first_world tiny_env tiny_world"
  by (simp add: first_world_def tiny_world_def complete_def whole_def tiny_artifact_def manifest_def
      BACKUP_SCOPES_def starts_with_def backup_name_def)

theorem complete_backups_are_whole_witness:
  "\<exists>w. recovery_step tiny_env ([], tiny_world) ([], w) \<and> rw_artifacts w ''old'' = Some (True, tiny_artifact)"
proof -
  have "recovery_step tiny_env ([], tiny_world) ([], reopen tiny_env tiny_world)"
    by (rule recovery_step.restart)
  moreover from this have "rw_artifacts (reopen tiny_env tiny_world) ''old'' = Some (True, tiny_artifact)"
    using complete_backups_are_whole[OF tiny_inj tiny_first rtranclp.rtrancl_refl r_into_rtranclp,
        of "[]" "reopen tiny_env tiny_world" "''old''" tiny_artifact]
    by (simp add: tiny_world_def)
  ultimately show ?thesis by blast
qed

section \<open>A late cancellation\<close>

lemma turn_Cons: "turn (ts, s) (ts', t) \<Longrightarrow> turn (x # ts, s) (x # ts', t)"
proof (erule turn.cases)
  fix i vs r l g u k l' v
  assume *: "(ts, s) = (vs, u)" "(ts', t) = (vs[i := (r, l', k)], v)" "i < length vs"
    "vs ! i = (r, l, Atom g)" "g (l, u) = (k, l', v)"
  then show "turn (x # ts, s) (x # ts', t)"
    using turn.turn[of "Suc i" "x # vs" r l g u k l' v] by simp
qed

lemma run_others:
  "turn\<^sup>*\<^sup>* (ts, s) (ts', t) \<Longrightarrow> (recovery_step env)\<^sup>*\<^sup>* (x # ts, s) (x # ts', t)"
proof (induction "(ts', t)" arbitrary: ts' t rule: rtranclp_induct)
  case (step y)
  obtain us u where y: "y = (us, u)" by (cases y)
  have "recovery_step env (x # us, u) (x # ts', t)"
    using step(2) by (simp add: y recovery_step.run_on turn_Cons)
  then show ?case using step(3)[of us u] y by simp
qed simp

lemma run_first: "g (l, s) = (k, l', t) \<Longrightarrow> recovery_step env ((r, l, Atom g) # ts, s) ((r, l', k) # ts, t)"
  using turn.turn[of 0 "(r, l, Atom g) # ts" r l g s k l' t] by (auto intro: recovery_step.run_on)

definition finished :: "rec_system \<Rightarrow> bool" where
  "finished z \<longleftrightarrow> (\<forall>(r, l, p)\<in>set (fst z). \<exists>x. p = Stop x) \<and> rw_started (snd z) = []"

text \<open>
  C34. A cancellation that comes too late undoes the record of success. When an operation that is not
  over is read by \<^verbatim>\<open>cancel\<close>, and its worker finishes before \<^verbatim>\<open>cancel\<close> stores what it read, every
  thread is over and nothing is left to run, but the stored operation has its old active state again,
  although the artifact of the backup is complete; the next restart calls it interrupted.
\<close>

theorem late_cancel_reopens:
  assumes "rw_operations w0 k = Some d" and "ro_id d = k" and "ro_state d \<in> {RcQueued, RcRunning, RcVerifying}"
    and "turn\<^sup>*\<^sup>* (ts, w0) (ts', w)" and "finished (ts', w)"
  shows "\<exists>z d'. (recovery_step env)\<^sup>*\<^sup>* (ts, w0) z \<and> finished z
    \<and> rw_artifacts (snd z) = rw_artifacts w
    \<and> rw_operations (snd z) k = Some d' \<and> ro_state d' = ro_state d
    \<and> map_option ro_state (rw_operations (reopen env (snd z)) k) = Some RcInterrupted"
proof -
  fix l :: rec_local
  let ?c = "followed_by (cancel_operation env k) (Stop (Inr ()))"
  let ?rest = "followed_by (cancel_rest env k d) (Stop (Inr ())) :: unit rec_script"
  have live: "\<not> rec_terminal (ro_state d)" using assms(3) by (auto simp: rec_terminal_def)
  let ?save = "followed_by (atom (on_shared (save_document env (d\<lparr>ro_cancelling := True\<rparr>)))) (Stop (Inr ()))
    :: unit rec_script"
  let ?u = "w\<lparr>rw_cancelled := k # rw_cancelled w\<rparr>"
  let ?d = "d\<lparr>ro_cancelling := True, ro_updated := rv_now env (rw_ticks w)\<rparr>"
  let ?v = "?u\<lparr>rw_ticks := Suc (rw_ticks w), rw_operations := (rw_operations w)(k \<mapsto> ?d)\<rparr>"
  have "(recovery_step env)\<^sup>*\<^sup>* (ts, w0) ((Reader, l, ?c) # ts, w0)"
    by (rule r_into_rtranclp) (rule recovery_step.ask_cancel)
  also have "(recovery_step env)\<^sup>*\<^sup>* ((Reader, l, ?c) # ts, w0) ((Reader, l, ?rest) # ts, w0)"
    unfolding cancel_operation_def atom_def and_then.simps
    by (rule r_into_rtranclp, rule run_first) (simp add: on_shared_def find_operation_def bindS_def assms(1))
  also have "(recovery_step env)\<^sup>*\<^sup>* ((Reader, l, ?rest) # ts, w0) ((Reader, l, ?rest) # ts', w)"
    by (rule run_others[OF assms(4)])
  also have "(recovery_step env)\<^sup>*\<^sup>* ((Reader, l, ?rest) # ts', w) ((Reader, l, ?save) # ts', ?u)"
    using live unfolding cancel_rest_def atom_def
    by (simp, intro r_into_rtranclp run_first) (simp add: on_shared_def request_cancel_def)
  also have "(recovery_step env)\<^sup>*\<^sup>* ((Reader, l, ?save) # ts', ?u) ((Reader, l, Stop (Inr ())) # ts', ?v)"
    unfolding atom_def and_then.simps
    by (rule r_into_rtranclp, rule run_first) (simp add: on_shared_def save_document_def rec_now_def put_operation_def bindS_def
        Let_def assms(2))
  finally have "(recovery_step env)\<^sup>*\<^sup>* (ts, w0) ((Reader, l, Stop (Inr ())) # ts', ?v)" .
  moreover have "finished ((Reader, l, Stop (Inr ())) # ts', ?v)"
    using assms(5) by (simp add: finished_def)
  ultimately show ?thesis
    using assms(3) by (intro exI[of _ "((Reader, l, Stop (Inr ())) # ts', ?v)"] exI[of _ ?d])
      (auto simp: reopen_def interrupt_operation_def)
qed

definition late_op :: "rec_state \<Rightarrow> rec_op" where
  "late_op st = \<lparr>ro_id = ''k'', ro_action = BackupAction, ro_backup = ''old'', ro_profile = ''q'', ro_actor = ''a'',
     ro_state = st, ro_current = None, ro_completed = BACKUP_SCOPES, ro_cancelling = False, ro_created = ''t'',
     ro_updated = ''t'', ro_evidence = [], ro_error = None\<rparr>"

definition late_world :: rec_world where
  "late_world = tiny_world\<lparr>rw_operations := [''k'' \<mapsto> late_op RcRunning]\<rparr>"

definition late_local :: rec_local where
  "late_local = \<lparr>lo_op = late_op RcSucceeded, lo_artifact = tiny_artifact\<rparr>"

theorem late_cancel_reopens_witness:
  "\<exists>z. (recovery_step tiny_env)\<^sup>*\<^sup>*
      ([(Writer ''old'', late_local, save_with tiny_env (\<lambda>d. d\<lparr>ro_current := None\<rparr>))], late_world) z
    \<and> map_option ro_state (rw_operations (snd z) ''k'') = Some RcRunning
    \<and> rw_artifacts (snd z) ''old'' = Some (True, tiny_artifact)"
proof -
  let ?p = "save_with tiny_env (\<lambda>d. d\<lparr>ro_current := None\<rparr>)"
  let ?w = "late_world\<lparr>rw_operations := [''k'' \<mapsto> late_op RcSucceeded], rw_ticks := 1\<rparr>"
  obtain g where g: "?p = Atom g"
    and run: "g (late_local, late_world) = (Stop (Inr ()), late_local, ?w)"
    by (simp add: save_with_def atom_def set_op_def on_local_def save_op_def save_document_def rec_now_def
        put_operation_def bindS_def Let_def late_local_def late_op_def late_world_def tiny_world_def tiny_env_def)
  have "turn\<^sup>*\<^sup>* ([(Writer ''old'', late_local, ?p)], late_world) ([(Writer ''old'', late_local, Stop (Inr ()))], ?w)"
    using turn.turn[of 0 "[(Writer ''old'', late_local, ?p)]" "Writer ''old''" late_local g late_world
        "Stop (Inr ())" late_local ?w] g run by auto
  from late_cancel_reopens[OF _ _ _ this, of "''k''" "late_op RcRunning" tiny_env]
  obtain z d' where "(recovery_step tiny_env)\<^sup>*\<^sup>* ([(Writer ''old'', late_local, ?p)], late_world) z"
    "rw_artifacts (snd z) = rw_artifacts ?w" "rw_operations (snd z) ''k'' = Some d'" "ro_state d' = RcRunning"
    by (auto simp: late_world_def late_op_def finished_def tiny_world_def)
  then show ?thesis
    by (intro exI[of _ z]) (simp add: late_world_def tiny_world_def)
qed

section \<open>A restore that succeeds\<close>

lemma save_with_run: "alone (save_with env f) (l, w) =
    (let d = (f (lo_op l))\<lparr>ro_updated := rv_now env (rw_ticks w)\<rparr>
     in (Inr (), l\<lparr>lo_op := d\<rparr>, w\<lparr>rw_ticks := Suc (rw_ticks w),
           rw_operations := (rw_operations w)(ro_id d \<mapsto> d)\<rparr>))"
  by (simp add: save_with_def set_op_def on_local_def save_op_def save_document_def rec_now_def
      put_operation_def bindS_def Let_def)

lemma restore_scope_run:
  assumes "alone (restore_scope env k b x) (l, w) = (Inr (), l', w')"
  shows "rw_log w' = RestoreCall b x # rw_log w
    \<and> ro_completed (lo_op l') = ro_completed (lo_op l) @ [x]
    \<and> rv_restore env (length (rw_log w)) b x = Inr ()"
  using assms
  by (auto simp: restore_scope_def runs save_with_run check_cancelled_def call_adapter_def on_shared_def bindS_def
      Let_def split: if_splits sum.splits)

lemma restore_scopes_run:
  "for_each xs (\<lambda>x. alone (restore_scope env k b x)) (l, w) = (Inr (), l', w') \<Longrightarrow>
   rw_log w' = rev (map (RestoreCall b) xs) @ rw_log w
   \<and> ro_completed (lo_op l') = ro_completed (lo_op l) @ xs"
proof (induction xs arbitrary: l w)
  case (Cons x xs)
  then obtain l1 w1 where "alone (restore_scope env k b x) (l, w) = (Inr (), l1, w1)"
    and rest: "for_each xs (\<lambda>x. alone (restore_scope env k b x)) (l1, w1) = (Inr (), l', w')"
    by (auto simp: runs)
  from restore_scope_run[OF this(1)] Cons.IH[OF rest] show ?case by simp
qed simp

lemma verify_run:
  assumes "alone (verify_restore env b) (l, w) = (Inr (), l', w')"
  shows "\<exists>evidence. rv_verify env (length (rw_log w)) b RESTORE_CHECKS = Inr evidence
    \<and> rw_log w' = VerifyCall b RESTORE_CHECKS # rw_log w
    \<and> evidence \<noteq> [] \<and> all_passed evidence = Inr True
    \<and> ro_evidence (lo_op l') = map sanitize_item evidence \<and> ro_completed (lo_op l') = ro_completed (lo_op l)"
  using assms
  by (auto simp: verify_restore_def runs call_adapter_def on_shared_def judge_evidence_def set_op_def on_local_def
      bindS_def split: if_splits sum.splits)

lemma note_failure_run:
  assumes "alone (note_failure k c m e) (l, w) = (r, l', w')"
  shows "ro_state (lo_op l') \<noteq> RcSucceeded"
  using assms by (auto simp: note_failure_def on_shared_def set_op_def on_local_def bindS_def split: if_splits)

lemma all_passed_iff: "all_passed js = Inr True \<longleftrightarrow>
    list_all (\<lambda>j. case j of JObj ms \<Rightarrow> getd ms ''state'' JNull = JStr ''passed'' | _ \<Rightarrow> False) js"
  by (induction js rule: all_passed.induct) auto

lemma unit_then:
  assumes "thenS m n s = (Inr y, s')"
  obtains t where "m s = (Inr (), t)" and "n t = (Inr y, s')"
  using assms by (auto simp: bindS_Inr_iff)

lemma restore_work_run:
  assumes "alone (restore_work env k b) (l, w) = (Inr (), l', w')" and "ro_completed (lo_op l) = []"
  shows "(\<exists>a. rw_artifacts w b = Some (True, a) \<and> ar_profile a = rv_profile env)
    \<and> rw_log w' = VerifyCall b RESTORE_CHECKS # map (RestoreCall b) BACKUP_SCOPES @ rw_log w
    \<and> ro_completed (lo_op l') = rev BACKUP_SCOPES
    \<and> (\<exists>n evidence. rv_verify env n b RESTORE_CHECKS = Inr evidence \<and> evidence \<noteq> []
         \<and> all_passed evidence = Inr True \<and> ro_evidence (lo_op l') = map sanitize_item evidence)"
proof -
  let ?l1 = "l\<lparr>lo_op := (lo_op l)\<lparr>ro_state := RcRunning, ro_updated := rv_now env (rw_ticks w)\<rparr>\<rparr>"
  let ?w1 = "w\<lparr>rw_ticks := Suc (rw_ticks w), rw_operations := (rw_operations w)(ro_id (lo_op ?l1) \<mapsto> lo_op ?l1)\<rparr>"
  obtain y y1 l2 w2 y3 where found: "alone (require_artifact env b) (l, w) = (Inr (), y)"
    and y1: "alone (save_with env (\<lambda>d. d\<lparr>ro_state := RcRunning\<rparr>)) y = (Inr (), y1)"
    and scopes: "for_each (rev BACKUP_SCOPES) (\<lambda>x. alone (restore_scope env k b x)) y1 = (Inr (), l2, w2)"
    and y3: "alone (save_with env (\<lambda>d. d\<lparr>ro_state := RcVerifying\<rparr>)) (l2, w2) = (Inr (), y3)"
    and verify: "alone (verify_restore env b) y3 = (Inr (), l', w')"
    using assms(1) unfolding restore_work_def alone_and_then alone_each
    by (elim unit_then) auto
  have "y = (l, w)"
    using found by (auto simp: require_artifact_def on_shared_def find_artifact_def bindS_def
        split: option.splits if_splits)
  then have "y1 = (?l1, ?w1)" using y1 by (simp add: save_with_run Let_def)
  note scopes = scopes[unfolded this]
  let ?l3 = "l2\<lparr>lo_op := (lo_op l2)\<lparr>ro_state := RcVerifying, ro_updated := rv_now env (rw_ticks w2)\<rparr>\<rparr>"
  let ?w3 = "w2\<lparr>rw_ticks := Suc (rw_ticks w2), rw_operations := (rw_operations w2)(ro_id (lo_op ?l3) \<mapsto> lo_op ?l3)\<rparr>"
  have "y3 = (?l3, ?w3)" using y3 by (simp add: save_with_run Let_def)
  note verify = verify[unfolded this]
  have "\<exists>a. rw_artifacts w b = Some (True, a) \<and> ar_profile a = rv_profile env"
    using found by (auto simp: require_artifact_def on_shared_def find_artifact_def bindS_def
        split: option.splits if_splits)
  moreover have "rw_log w2 = map (RestoreCall b) BACKUP_SCOPES @ rw_log w" "ro_completed (lo_op l2) = rev BACKUP_SCOPES"
    using restore_scopes_run[OF scopes] assms(2) by (simp_all add: rev_map)
  ultimately show ?thesis using verify_run[OF verify] by auto
qed


definition own_env :: rec_env where
  "own_env = tiny_env\<lparr>rv_profile := ''q''\<rparr>"

definition asked_world :: rec_world where
  "asked_world = tiny_world\<lparr>rw_operations := [''k'' \<mapsto> (late_op RcQueued)\<lparr>ro_completed := []\<rparr>]\<rparr>"

lemma own_restore_scope:
  "k \<notin> set (rw_cancelled w) \<Longrightarrow> \<exists>l' w'. alone (restore_scope own_env k b x) (l, w) = (Inr (), l', w')
     \<and> rw_cancelled w' = rw_cancelled w"
  by (simp add: restore_scope_def check_cancelled_def call_adapter_def on_shared_def bindS_def save_with_run Let_def
      own_env_def tiny_env_def)

lemma own_restore_scopes:
  "k \<notin> set (rw_cancelled w) \<Longrightarrow>
   \<exists>l' w'. for_each xs (\<lambda>x. alone (restore_scope own_env k b x)) (l, w) = (Inr (), l', w')"
proof (induction xs arbitrary: l w)
  case (Cons x xs)
  from own_restore_scope[OF Cons.prems, of b x l] obtain l1 w1
    where "alone (restore_scope own_env k b x) (l, w) = (Inr (), l1, w1)" "k \<notin> set (rw_cancelled w1)"
    using Cons.prems by auto
  with Cons.IH[of w1 l1] show ?case by simp
qed simp

lemma own_restore_ends:
  "\<exists>l' w'. alone (run_restore own_env ''k'' ''old'') (late_local, asked_world) = (Inr (), l', w')
     \<and> ro_state (lo_op l') = RcSucceeded"
proof -
  let ?l = "late_local\<lparr>lo_op := (late_op RcQueued)\<lparr>ro_completed := []\<rparr>\<rparr>"
  have load: "load_op ''k'' (late_local, asked_world) = (Inr (), ?l, asked_world)"
    by (simp add: load_op_def on_shared_def find_operation_def set_op_def on_local_def bindS_def asked_world_def)
  have found: "alone (require_artifact own_env ''old'') (?l, asked_world) = (Inr (), ?l, asked_world)"
    by (simp add: require_artifact_def on_shared_def find_artifact_def bindS_def asked_world_def tiny_world_def
        own_env_def tiny_artifact_def manifest_def)
  obtain l1 w1 where first: "alone (save_with own_env (\<lambda>d. d\<lparr>ro_state := RcRunning\<rparr>)) (?l, asked_world)
      = (Inr (), l1, w1)" and "rw_cancelled w1 = []"
    by (simp add: save_with_run Let_def asked_world_def tiny_world_def)
  with own_restore_scopes[of "''k''" w1 "rev BACKUP_SCOPES" "''old''" l1] obtain l2 w2
    where scopes: "for_each (rev BACKUP_SCOPES) (\<lambda>x. alone (restore_scope own_env ''k'' ''old'' x)) (l1, w1)
      = (Inr (), l2, w2)" by auto
  have verify: "\<exists>l' w'. alone (verify_restore own_env b) (l, w) = (Inr (), l', w')
      \<and> ro_state (lo_op l') = RcSucceeded" for b l w
    by (simp add: verify_restore_def call_adapter_def on_shared_def bindS_def own_env_def tiny_env_def
        judge_evidence_def set_op_def on_local_def getd_def)
  obtain l3 w3 where "alone (save_with own_env (\<lambda>d. d\<lparr>ro_state := RcVerifying\<rparr>)) (l2, w2) = (Inr (), l3, w3)"
    by (metis save_with_run)
  moreover obtain l4 w4 where "alone (verify_restore own_env ''old'') (l3, w3) = (Inr (), l4, w4)"
      "ro_state (lo_op l4) = RcSucceeded" using verify by blast
  ultimately have "alone (restore_work own_env ''k'' ''old'') (?l, asked_world) = (Inr (), l4, w4)"
    using found first scopes by (simp add: restore_work_def)
  with load \<open>ro_state (lo_op l4) = RcSucceeded\<close> show ?thesis
    by (simp add: run_restore_def alone_ensure save_with_run Let_def)
qed


section \<open>The client of the recovery helper\<close>

text \<open>
  \<^verbatim>\<open>UnixRecoveryAdapter\<close>: the mode of the socket, the answers of \<^verbatim>\<open>recv\<close> and the JSON parser are
  parameters; a failing system call raises one of the classes that are handled here.
\<close>

record helper_socket =
  hs_mode :: "(bool \<times> bool) result"
  hs_exchange :: "string \<Rightarrow> (exn + unit)"
  hs_recv :: "nat \<Rightarrow> nat \<Rightarrow> string result"
  hs_loads :: "string \<Rightarrow> json result"

definition MAX_RESPONSE :: nat where
  "MAX_RESPONSE = 16384"

definition helper_request :: "string \<Rightarrow> string \<Rightarrow> string option \<Rightarrow> string list \<Rightarrow> json" where
  "helper_request action backup scope checks = JObj
     [(''apiVersion'', JStr ''fortifylab.io/v1alpha1''), (''kind'', JStr ''RecoveryHelperRequest''),
      (''action'', JStr action), (''backupId'', JStr backup),
      (''scope'', case scope of None \<Rightarrow> JNull | Some s \<Rightarrow> JStr s),
      (''checks'', JList (map JStr checks))]"

definition ends_line :: "string \<Rightarrow> bool" where
  "ends_line s \<longleftrightarrow> s \<noteq> [] \<and> last s = CHR 0x0A"

text \<open>Every chunk that is kept adds at least one byte and the response is bounded, so the loop ends.\<close>

function receive :: "helper_socket \<Rightarrow> nat \<Rightarrow> string \<Rightarrow> string result" where
  "receive h n response =
     (if ends_line response then Inr response
      else case hs_recv h n (MAX_RESPONSE + 1 - length response) of
             Inl e \<Rightarrow> Inl e
           | Inr chunk \<Rightarrow>
               if chunk = [] then Inr response
               else if length (response @ chunk) > MAX_RESPONSE
               then raise RecoveryError ''recovery helper response is invalid''
               else receive h (Suc n) (response @ chunk))"
  by pat_completeness auto

termination
  by (relation "measure (\<lambda>(h, n, response). MAX_RESPONSE + 1 - length response)")
    (auto simp flip: length_greater_0_conv)

declare receive.simps [simp del]

definition helper_result :: "json \<Rightarrow> document result" where
  "helper_result j =
     (case j of
        JObj ms \<Rightarrow>
          if getd ms ''apiVersion'' JNull \<noteq> JStr ''fortifylab.io/v1alpha1''
             \<or> getd ms ''kind'' JNull \<noteq> JStr ''RecoveryHelperResult''
             \<or> getd ms ''state'' JNull \<noteq> JStr ''succeeded''
          then raise RecoveryError ''recovery helper did not complete the fixed action'' else Inr ms
      | _ \<Rightarrow> raise RecoveryError ''recovery helper did not complete the fixed action'')"

definition helper_exchange ::
    "helper_socket \<Rightarrow> string \<Rightarrow> string \<Rightarrow> string option \<Rightarrow> string list \<Rightarrow> document result" where
  "helper_exchange h action backup scope checks =
     (case hs_mode h of
        Inl e \<Rightarrow> Inl e
      | Inr (is_socket, others) \<Rightarrow>
          if \<not> is_socket \<or> others then raise RecoveryError ''recovery helper socket is not protected''
          else case hs_exchange h (dumps (helper_request action backup scope checks) @ [CHR 0x0A]) of
                 Inl e \<Rightarrow> Inl e
               | Inr _ \<Rightarrow>
                   (case receive h 0 [] of
                      Inl e \<Rightarrow> Inl e
                    | Inr response \<Rightarrow>
                        (case hs_loads h response of Inl e \<Rightarrow> Inl e | Inr j \<Rightarrow> helper_result j)))"

definition helper_call ::
    "helper_socket \<Rightarrow> string \<Rightarrow> string \<Rightarrow> string option \<Rightarrow> string list \<Rightarrow> document result" where
  "helper_call h action backup scope checks =
     (case helper_exchange h action backup scope checks of
        Inr d \<Rightarrow> Inr d
      | Inl e \<Rightarrow>
          if catches [RecoveryError] e then Inl e
          else if catches [PyOSError, PyTimeoutError, PyValueError] e
          then raise RecoveryError ''recovery helper is unavailable or returned invalid data''
          else Inl e)"

definition helper_backup :: "helper_socket \<Rightarrow> string \<Rightarrow> string \<Rightarrow> document result" where
  "helper_backup h backup scope = helper_call h ''backup'' backup (Some scope) []"

definition helper_restore :: "helper_socket \<Rightarrow> string \<Rightarrow> string \<Rightarrow> document result" where
  "helper_restore h backup scope = helper_call h ''restore'' backup (Some scope) []"

definition helper_verify :: "helper_socket \<Rightarrow> string \<Rightarrow> string list \<Rightarrow> json list result" where
  "helper_verify h backup checks =
     (case helper_call h ''verify'' backup None checks of
        Inl e \<Rightarrow> Inl e
      | Inr d \<Rightarrow> (case getd d ''evidence'' JNull of
           JList evidence \<Rightarrow> Inr evidence
         | _ \<Rightarrow> raise RecoveryError ''recovery helper returned invalid verification evidence''))"

lemma receive_bounded:
  "receive h n response = Inr answer \<Longrightarrow> length response \<le> MAX_RESPONSE \<Longrightarrow> length answer \<le> MAX_RESPONSE"
proof (induction h n response rule: receive.induct)
  case (1 h n response)
  from "1.prems" show ?case
    using "1.IH" by (subst (asm) receive.simps) (auto split: if_splits sum.splits)
qed

text \<open>
  Of the helper only an answer of at most 16384 bytes to a fixed action is believed, and only when it
  says that the action succeeded; the failures a transport can have come out as one sanitized error.
\<close>

definition transport_error :: "exn \<Rightarrow> bool" where
  "transport_error e \<longleftrightarrow> catches [RecoveryError] e \<or> catches [PyOSError, PyTimeoutError, PyValueError] e"

lemma receive_error:
  "receive h n response = Inl e \<Longrightarrow> (\<And>n k e. hs_recv h n k = Inl e \<Longrightarrow> transport_error e) \<Longrightarrow>
   transport_error e"
proof (induction h n response rule: receive.induct)
  case (1 h n response)
  have refused: "transport_error (Exn RecoveryError m)" for m
    by (simp add: transport_error_def catches_def is_subclass_def)
  from "1.prems"(1) show ?case
    using "1.IH" "1.prems"(2) refused by (subst (asm) receive.simps) (auto split: if_splits sum.splits)
qed

lemma helper_call_contract:
  assumes "\<And>e. hs_mode h = Inl e \<Longrightarrow> transport_error e" and "\<And>q e. hs_exchange h q = Inl e \<Longrightarrow> transport_error e"
    and "\<And>n k e. hs_recv h n k = Inl e \<Longrightarrow> transport_error e" and "\<And>t e. hs_loads h t = Inl e \<Longrightarrow> transport_error e"
  shows "case helper_call h action backup scope checks of
      Inl e \<Rightarrow> catches [RecoveryError] e
    | Inr d \<Rightarrow> getd d ''state'' JNull = JStr ''succeeded''
        \<and> (\<exists>t. length t \<le> MAX_RESPONSE \<and> hs_loads h t = Inr (JObj d))"
proof (cases "helper_exchange h action backup scope checks")
  case (Inl e)
  have refused: "transport_error (Exn RecoveryError m)" for m
    by (simp add: transport_error_def catches_def is_subclass_def)
  have "transport_error e"
    using Inl assms receive_error[OF _ assms(3)] refused
    by (auto simp: helper_exchange_def helper_result_def split: sum.splits if_splits prod.splits json.splits)
  then show ?thesis
    using Inl by (auto simp: helper_call_def transport_error_def) (simp add: catches_def is_subclass_def)
next
  case (Inr d)
  then obtain t where "receive h 0 [] = Inr t" "hs_loads h t = Inr (JObj d)" "getd d ''state'' JNull = JStr ''succeeded''"
    by (auto simp: helper_exchange_def helper_result_def split: sum.splits if_splits prod.splits json.splits)
  with receive_bounded[OF this(1)] Inr show ?thesis by (auto simp: helper_call_def)
qed

end
