(* ===== verification/Upgrade.thy ===== *)
theory Upgrade
  imports Complex_Main Registry Authorization Comms Threads
begin

text \<open>
  \<^verbatim>\<open>manager/profile_upgrade.py\<close>: plans of upgrades between platform profiles, their confirmation, the run
  of an upgrade and its recovery. Profiles, evidence and plans are JSON documents; the parts the code
  reads are record fields, the others are JSON values. The profile loader, the observation, the adapter,
  the verifier, the clocks, random ids and the digest are parameters. A run is a script of \<open>Threads\<close>:
  \<open>may_end\<close> says what it can end with whatever other threads do.
\<close>

section \<open>Profiles and evidence\<close>

record migration =
  mi_component :: string
  mi_rollback :: string
  mi_rest :: document

definition migration_json :: "migration \<Rightarrow> json" where
  "migration_json i = JObj ([(''component'', JStr (mi_component i)), (''rollback'', JStr (mi_rollback i))] @ mi_rest i)"

record transition =
  tr_source :: string
  tr_timeout :: int
  tr_downtime :: json
  tr_backup :: bool
  tr_migrations :: "migration list"
  tr_recovery :: json

record platform =
  pf_id :: string
  pf_maturity :: string
  pf_level :: string
  pf_allowed :: "string list"
  pf_transitions :: "transition list"
  pf_capacity :: "(string \<times> int) list"
  pf_components :: "(string \<times> json \<times> json) list"

definition component_version :: "platform \<Rightarrow> string \<Rightarrow> json result" where
  "component_version p c =
     (case map_of (pf_components p) c of
        None \<Rightarrow> raise PlatformProfileError (''platform profile has no component: '' @ c)
      | Some (chart, images) \<Rightarrow> Inr (JObj [(''chart'', chart), (''images'', images)]))"

definition profile_versions :: "platform \<Rightarrow> document result" where
  "profile_versions p = res_map (\<lambda>c. case component_version p c of Inl e \<Rightarrow> Inl e | Inr v \<Rightarrow> Inr (c, v))
     (sort (map fst (pf_components p)))"

definition rollback_limit :: "migration list \<Rightarrow> string" where
  "rollback_limit ms =
     (let limits = map mi_rollback ms
      in if ''irreversible'' \<in> set limits then ''irreversible''
         else if ''restore-required'' \<in> set limits then ''restore-required''
         else if ''compensating-action'' \<in> set limits then ''compensating-action''
         else ''reversible'')"

definition find_transition :: "platform \<Rightarrow> string \<Rightarrow> transition result" where
  "find_transition target source =
     (if source \<notin> set (pf_allowed target)
      then raise UpgradeError ''target profile does not allow the source profile''
      else case filter (\<lambda>t. tr_source t = source) (pf_transitions target) of
             [t] \<Rightarrow> Inr t
           | _ \<Rightarrow> raise UpgradeError ''target profile lacks one explicit tested transition'')"

text \<open>\<^verbatim>\<open>.get(k, d)\<close> and \<^verbatim>\<open>[k]\<close> on a JSON value, the order on numbers, and the elements a set is made of.\<close>

definition jget :: "json \<Rightarrow> string \<Rightarrow> json \<Rightarrow> json result" where
  "jget j k d = (case j of JObj ms \<Rightarrow> Inr (getd ms k d) | _ \<Rightarrow> raise PyAttributeError ''get'')"

definition ditem :: "document \<Rightarrow> string \<Rightarrow> json result" where
  "ditem d k = (case map_of d k of None \<Rightarrow> raise PyKeyError k | Some v \<Rightarrow> Inr v)"

fun less_than :: "json \<Rightarrow> int \<Rightarrow> bool result" where
  "less_than (JInt n) m = Inr (n < m)"
| "less_than (JBool b) m = Inr ((if b then 1 else 0) < m)"
| "less_than _ m = raise PyTypeError ''<''"

fun short_of :: "json \<Rightarrow> (string \<times> int) list \<Rightarrow> bool result" where
  "short_of capacity [] = Inr False"
| "short_of capacity ((k, v) # kvs) =
     (case jget capacity k (JInt (- 1)) of
        Inl e \<Rightarrow> Inl e
      | Inr x \<Rightarrow> (case less_than x v of
           Inl e \<Rightarrow> Inl e | Inr b \<Rightarrow> if b then Inr True else short_of capacity kvs))"

fun hashable :: "json \<Rightarrow> bool" where
  "hashable (JList js) = False"
| "hashable (JObj ms) = False"
| "hashable _ = True"

fun elements :: "json \<Rightarrow> json list result" where
  "elements (JObj ms) = Inr (map (\<lambda>m. JStr (fst m)) ms)"
| "elements (JStr s) = Inr (map (\<lambda>c. JStr [c]) s)"
| "elements (JList js) = (if list_all hashable js then Inr js else raise PyTypeError ''unhashable type'')"
| "elements _ = raise PyTypeError ''not iterable''"

definition unready :: "json \<Rightarrow> string list \<Rightarrow> bool result" where
  "unready dependencies ids =
     (case elements dependencies of
        Inl e \<Rightarrow> Inl e
      | Inr xs \<Rightarrow>
          if set xs \<noteq> JStr ` set ids then Inr True
          else case dependencies of
                 JObj ms \<Rightarrow> Inr (list_ex (\<lambda>m. snd m \<noteq> JStr ''ready'') ms)
               | _ \<Rightarrow> raise PyAttributeError ''values'')"

definition verified_backup :: "json \<Rightarrow> string \<Rightarrow> bool" where
  "verified_backup b source =
     (case b of
        JObj ms \<Rightarrow> getd ms ''profileId'' JNull = JStr source \<and> truthy (getd ms ''complete'' JNull)
                    \<and> truthy (getd ms ''verified'' JNull)
      | _ \<Rightarrow> False)"

definition guard :: "bool \<Rightarrow> string \<Rightarrow> unit result" where
  "guard ok message = (if ok then Inr () else raise UpgradeError message)"

definition seqR :: "'a result \<Rightarrow> ('a \<Rightarrow> 'b result) \<Rightarrow> 'b result" where
  "seqR r f = (case r of Inl e \<Rightarrow> Inl e | Inr x \<Rightarrow> f x)"

text \<open>The six gates of \<^verbatim>\<open>_validated_observation\<close>, in their order.\<close>

definition validated_observation ::
    "string list \<Rightarrow> platform \<Rightarrow> platform \<Rightarrow> transition \<Rightarrow> document result \<Rightarrow> document result" where
  "validated_observation ids source target t observation =
     (case observation of
        Inl _ \<Rightarrow> raise UpgradeError ''current platform evidence is unavailable''
      | Inr d \<Rightarrow>
          seqR (guard (getd d ''profileId'' JNull = JStr (pf_id source))
                  ''observed source profile does not match'') (\<lambda>_.
          seqR (profile_versions source) (\<lambda>versions.
          seqR (guard (sort_keys (getd d ''versions'' JNull) = sort_keys (JObj versions))
                  ''observed component versions drift from the source profile'') (\<lambda>_.
          seqR (short_of (getd d ''capacity'' (JObj [])) (pf_capacity target)) (\<lambda>short.
          seqR (guard (\<not> short) ''available capacity does not satisfy the target profile'') (\<lambda>_.
          seqR (jget (getd d ''health'' (JObj [])) ''state'' JNull) (\<lambda>state.
          seqR (guard (state = JStr ''healthy'') ''current platform health is not ready for upgrade'') (\<lambda>_.
          seqR (unready (getd d ''dependencies'' (JObj [])) ids) (\<lambda>bad.
          seqR (guard (\<not> bad) ''component dependency state is incomplete or unhealthy'') (\<lambda>_.
          seqR (guard (tr_backup t \<longrightarrow> verified_backup (getd d ''backup'' JNull) (pf_id source))
                  ''a complete verified source-profile backup is required'') (\<lambda>_.
          Inr d)))))))))))"

section \<open>Plans\<close>

record upgrade_step =
  us_number :: nat
  us_component :: string
  us_changes :: bool
  us_class :: string

record plan_body =
  pb_source_id :: string
  pb_source_versions :: document
  pb_target_id :: string
  pb_target_versions :: document
  pb_components :: "string list"
  pb_impact :: "string list"
  pb_capacity :: json
  pb_health :: json
  pb_dependencies :: json
  pb_backup :: json
  pb_required :: bool
  pb_migrations :: "migration list"
  pb_rollback :: string
  pb_recovery :: json
  pb_steps :: "upgrade_step list"
  pb_downtime :: json
  pb_timeout :: int

definition step_json :: "upgrade_step \<Rightarrow> json" where
  "step_json s = JObj [(''number'', JInt (int (us_number s))), (''component'', JStr (us_component s)),
     (''changesVersion'', JBool (us_changes s)), (''recoveryClass'', JStr (us_class s))]"

definition body_json :: "plan_body \<Rightarrow> json" where
  "body_json b = JObj
     [(''sourceProfile'', JObj [(''id'', JStr (pb_source_id b)), (''versions'', JObj (pb_source_versions b))]),
      (''targetProfile'', JObj [(''id'', JStr (pb_target_id b)), (''versions'', JObj (pb_target_versions b))]),
      (''components'', JList (map JStr (pb_components b))),
      (''dependencyImpact'', JList (map JStr (pb_impact b))),
      (''capacity'', pb_capacity b), (''currentHealth'', pb_health b),
      (''dependencyState'', pb_dependencies b), (''backupEvidence'', pb_backup b),
      (''migration'', JObj [(''required'', JBool (pb_required b)),
         (''items'', JList (map migration_json (pb_migrations b))),
         (''rollback'', JStr (pb_rollback b)), (''recovery'', pb_recovery b)]),
      (''steps'', JList (map step_json (pb_steps b))),
      (''recoveryBoundary'', JStr (pb_rollback b)), (''expectedDowntime'', pb_downtime b),
      (''timeoutSeconds'', JInt (pb_timeout b))]"

definition body_digest :: "(string \<Rightarrow> string) \<Rightarrow> plan_body \<Rightarrow> string" where
  "body_digest sha256 b = ''sha256:'' @ sha256 (dumps (body_json b))"

text \<open>\<open>up_state\<close> is the column \<^verbatim>\<open>state\<close> and the member of that name: absent until the plan is consumed.\<close>

record upgrade_plan =
  up_id :: string
  up_state :: "string option"
  up_error :: "string option"
  up_body :: plan_body
  up_digest :: string
  up_created :: instant
  up_expires :: instant
  up_confirmation :: string

datatype upgrade_state =
  UgQueued | UgRunning | UgCancelling | UgSucceeded | UgFailed | UgCancelled | UgTimedOut | UgInterrupted

definition upgrade_over :: "upgrade_state \<Rightarrow> bool" where
  "upgrade_over st \<longleftrightarrow> st \<in> {UgSucceeded, UgFailed, UgCancelled, UgTimedOut, UgInterrupted}"

datatype upgrade_evidence =
    MutationCompleted string string instant
  | HealthVerified string instant
  | RecoveryNotRequired instant
  | RollbackBlocked "string list" string instant
  | RollbackVerified string instant
  | RollbackFailed "string list" instant
  | UpgradeRestarted instant

record upgrade_op =
  uo_id :: string
  uo_plan :: string
  uo_digest :: string
  uo_source :: string
  uo_target :: string
  uo_actor :: string
  uo_confirmed_by :: string
  uo_state :: upgrade_state
  uo_current :: "string option"
  uo_completed :: "string list"
  uo_error :: "string option"
  uo_created :: instant
  uo_updated :: instant
  uo_rollback :: string
  uo_required :: bool
  uo_boundary :: string
  uo_backup :: json
  uo_backup_verified :: bool
  uo_action :: "string option"
  uo_status :: string
  uo_evidence :: "upgrade_evidence list"

datatype upgrade_doc = PlanDoc upgrade_plan | OperationDoc upgrade_op

section \<open>The store\<close>

datatype upgrade_call = UpgradeCall string json | VerifyLayer string | RollbackCall string json

record upgrade_world =
  uw_rows :: "string \<rightharpoonup> upgrade_doc"
  uw_cancelled :: "string list"
  uw_ticks :: nat
  uw_reads :: nat
  uw_ids :: nat
  uw_calls :: nat
  uw_started :: "(string \<times> upgrade_plan \<times> platform) list"

record upgrade_env =
  ue_registry :: registry
  ue_hash :: hash_order
  ue_source :: platform
  ue_load :: "string \<Rightarrow> platform result"
  ue_observe :: "nat \<Rightarrow> document result"
  ue_clock :: "nat \<Rightarrow> py_datetime"
  ue_monotonic :: "nat \<Rightarrow> rat"
  ue_uuid :: "nat \<Rightarrow> string"
  ue_sha256 :: "string \<Rightarrow> string"
  ue_ttl :: int
  ue_age :: int
  ue_upgrade :: "nat \<Rightarrow> string \<Rightarrow> json \<Rightarrow> unit result"
  ue_rollback :: "(nat \<Rightarrow> string \<Rightarrow> json \<Rightarrow> unit result) option"
  ue_verify :: "nat \<Rightarrow> string \<Rightarrow> bool result"

type_synonym 'a upg = "(upgrade_world, 'a) proc"

definition upgrade_now :: "upgrade_env \<Rightarrow> instant upg" where
  "upgrade_now env = (\<lambda>w. (aware ''upgrade clock must be timezone-aware'' (ue_clock env (uw_ticks w)),
                           w\<lparr>uw_ticks := Suc (uw_ticks w)\<rparr>))"

definition upgrade_uuid :: "upgrade_env \<Rightarrow> string upg" where
  "upgrade_uuid env = (\<lambda>w. (Inr (ue_uuid env (uw_ids w)), w\<lparr>uw_ids := Suc (uw_ids w)\<rparr>))"

definition observe_platform :: "upgrade_env \<Rightarrow> document result upg" where
  "observe_platform env = (\<lambda>w. (Inr (ue_observe env (uw_reads w)), w\<lparr>uw_reads := Suc (uw_reads w)\<rparr>))"

definition read_monotonic :: "upgrade_env \<Rightarrow> rat upg" where
  "read_monotonic env = (\<lambda>w. (Inr (ue_monotonic env (uw_reads w)), w\<lparr>uw_reads := Suc (uw_reads w)\<rparr>))"

definition doc_id :: "upgrade_doc \<Rightarrow> string" where
  "doc_id d = (case d of PlanDoc p \<Rightarrow> up_id p | OperationDoc x \<Rightarrow> uo_id x)"

definition put_doc :: "upgrade_doc \<Rightarrow> unit upg" where
  "put_doc d = modify (\<lambda>w. w\<lparr>uw_rows := (uw_rows w)(doc_id d \<mapsto> d)\<rparr>)"

definition get_doc :: "string \<Rightarrow> upgrade_doc upg" where
  "get_doc k = bindS (gets uw_rows) (\<lambda>t. case t k of
     None \<Rightarrow> fail UpgradeError ''upgrade plan or operation was not found'' | Some d \<Rightarrow> ret d)"

definition consume_plan :: "string \<Rightarrow> bool upg" where
  "consume_plan k = (\<lambda>w. case uw_rows w k of
     Some (PlanDoc p) \<Rightarrow>
       if up_state p = None
       then (Inr True, w\<lparr>uw_rows := (uw_rows w)(k \<mapsto> PlanDoc (p\<lparr>up_state := Some ''consumed''\<rparr>))\<rparr>)
       else (Inr False, w)
   | _ \<Rightarrow> (Inr False, w))"

text \<open>
  Opening the store: active rows become interrupted, and then every interrupted operation, also one of
  an earlier restart, is told that recovery is needed. A row of a plan can be active too, see \<open>cancel\<close>.
\<close>

definition interrupt_upgrade :: "upgrade_op \<Rightarrow> upgrade_op" where
  "interrupt_upgrade x =
     (if uo_state x \<in> {UgQueued, UgRunning, UgCancelling}
      then x\<lparr>uo_state := UgInterrupted, uo_error := Some ''Manager restarted before profile upgrade completed''\<rparr>
      else x)"

definition flag_restart :: "instant \<Rightarrow> upgrade_op \<Rightarrow> upgrade_op" where
  "flag_restart now x =
     (if uo_state x = UgInterrupted
      then x\<lparr>uo_required := True, uo_status := ''operator-review-required'',
             uo_action := Some (''Review retained evidence and verify authoritative health; ''
               @ ''a Manager restart does not prove rollback.''),
             uo_evidence := uo_evidence x @ [UpgradeRestarted now]\<rparr>
      else x)"

definition reopen_doc :: "instant \<Rightarrow> upgrade_doc \<Rightarrow> upgrade_doc" where
  "reopen_doc now d =
     (case d of
        OperationDoc x \<Rightarrow> OperationDoc (flag_restart now (interrupt_upgrade x))
      | PlanDoc p \<Rightarrow> PlanDoc (if up_state p \<in> Some ` {''queued'', ''running'', ''cancelling''}
                             then p\<lparr>up_state := Some ''interrupted'',
                                    up_error := Some ''Manager restarted before profile upgrade completed''\<rparr>
                             else p))"

definition reopen_upgrades :: "instant \<Rightarrow> upgrade_world \<Rightarrow> upgrade_world" where
  "reopen_upgrades now w =
     w\<lparr>uw_rows := map_option (reopen_doc now) \<circ> uw_rows w, uw_cancelled := [], uw_started := []\<rparr>"

section \<open>Planning\<close>

definition upgrade_steps :: "migration list \<Rightarrow> string list \<Rightarrow> string list \<Rightarrow> upgrade_step list" where
  "upgrade_steps ms changed impact =
     map (\<lambda>(n, c). \<lparr>us_number = n, us_component = c, us_changes = c \<in> set changed,
        us_class = (case map_of (rev (map (\<lambda>i. (mi_component i, mi_rollback i)) ms)) c of
                      None \<Rightarrow> ''reversible'' | Some r \<Rightarrow> r)\<rparr>)
       (zip [1..<Suc (length impact)] impact)"

definition version_changed :: "platform \<Rightarrow> platform \<Rightarrow> string \<Rightarrow> bool result" where
  "version_changed source target c =
     seqR (component_version source c) (\<lambda>v. seqR (component_version target c) (\<lambda>v'.
       Inr (sort_keys v \<noteq> sort_keys v')))"

definition registry_order :: "upgrade_env \<Rightarrow> string list result" where
  "registry_order env = dependency_order (ue_hash env) (ue_registry env) None"

definition planned_body ::
    "platform \<Rightarrow> platform \<Rightarrow> transition \<Rightarrow> document \<Rightarrow> string list \<Rightarrow> string list \<Rightarrow> plan_body result" where
  "planned_body source target t seen changed impact =
     seqR (profile_versions source) (\<lambda>sv. seqR (profile_versions target) (\<lambda>tv.
     seqR (ditem seen ''capacity'') (\<lambda>capacity. seqR (ditem seen ''health'') (\<lambda>health.
     seqR (ditem seen ''dependencies'') (\<lambda>dependencies.
       Inr \<lparr>pb_source_id = pf_id source, pb_source_versions = sv, pb_target_id = pf_id target,
            pb_target_versions = tv, pb_components = changed, pb_impact = impact, pb_capacity = capacity,
            pb_health = health, pb_dependencies = dependencies, pb_backup = getd seen ''backup'' JNull,
            pb_required = (tr_migrations t \<noteq> []), pb_migrations = tr_migrations t,
            pb_rollback = rollback_limit (tr_migrations t), pb_recovery = tr_recovery t,
            pb_steps = upgrade_steps (tr_migrations t) changed impact, pb_downtime = tr_downtime t,
            pb_timeout = tr_timeout t\<rparr>)))))"

definition allowed_target :: "platform \<Rightarrow> platform \<Rightarrow> unit result" where
  "allowed_target source target =
     seqR (guard (pf_id target \<noteq> pf_id source \<and> pf_maturity target \<noteq> ''unsupported'')
             ''source and target platform profiles are not an allowed transition'') (\<lambda>_.
     guard (pf_maturity target \<in> {''validated'', ''recommended''} \<and> pf_level target = ''licensed-live'')
       ''target profile transition lacks licensed-live validation'')"

definition load_target :: "upgrade_env \<Rightarrow> string \<Rightarrow> platform result" where
  "load_target env i =
     (case ue_load env i of
        Inr p \<Rightarrow> Inr p
      | Inl e \<Rightarrow> if catches [PlatformProfileError] e
                 then raise UpgradeError ''target platform profile is unavailable or invalid'' else Inl e)"

definition plan_upgrade :: "upgrade_env \<Rightarrow> string \<Rightarrow> upgrade_plan upg" where
  "plan_upgrade env i =
     bindS (lift (load_target env i)) (\<lambda>target. let source = ue_source env in
     bindS (lift (allowed_target source target)) (\<lambda>_.
     bindS (lift (find_transition target (pf_id source))) (\<lambda>t.
     bindS (observe_platform env) (\<lambda>observation.
     bindS (lift (validated_observation (component_ids (ue_registry env)) source target t observation)) (\<lambda>seen.
     bindS (lift (registry_order env)) (\<lambda>impact.
     bindS (lift (res_filter (version_changed source target) impact)) (\<lambda>changed.
     bindS (lift (guard (changed \<noteq> []) ''target platform profile has no component version changes'')) (\<lambda>_.
     bindS (upgrade_now env) (\<lambda>now.
     bindS (lift (planned_body source target t seen changed impact)) (\<lambda>body.
     bindS (upgrade_uuid env) (\<lambda>u.
       let digest = body_digest (ue_sha256 env) body;
           p = \<lparr>up_id = ''upgrade-plan-'' @ u, up_state = None, up_error = None, up_body = body,
                up_digest = digest, up_created = now, up_expires = now + ue_ttl env,
                up_confirmation = ''UPGRADE '' @ pf_id source @ '' TO '' @ pf_id target @ '' '' @ digest\<rparr>
       in thenS (put_doc (PlanDoc p)) (ret p))))))))))))"

section \<open>Submitting a plan\<close>

definition STRONG_SOURCES :: "string list" where
  "STRONG_SOURCES = [''web'', ''local-cli'']"

definition confirmed :: "upgrade_env \<Rightarrow> instant \<Rightarrow> identity \<Rightarrow> string option \<Rightarrow> upgrade_plan \<Rightarrow> unit result" where
  "confirmed env now idn confirmation p =
     seqR (guard (id_source idn \<in> set STRONG_SOURCES)
             ''profile upgrades require Web UI or local CLI confirmation'') (\<lambda>_.
     seqR (guard (now - id_authenticated idn \<le> ue_age env)
             ''profile upgrade requires fresh authentication'') (\<lambda>_.
     seqR (guard (confirmation = Some (up_confirmation p))
             ''profile upgrade confirmation did not match'') (\<lambda>_.
     if now \<ge> up_expires p then raise StaleUpgradePlan ''upgrade plan has expired'' else Inr ())))"

definition fresh_body ::
    "upgrade_env \<Rightarrow> upgrade_plan \<Rightarrow> platform \<Rightarrow> transition \<Rightarrow> document \<Rightarrow> plan_body result" where
  "fresh_body env p target t seen =
     (let b = up_body p; source = ue_source env in
      seqR (profile_versions source) (\<lambda>sv. seqR (profile_versions target) (\<lambda>tv.
      seqR (registry_order env) (\<lambda>impact.
      seqR (ditem seen ''capacity'') (\<lambda>capacity. seqR (ditem seen ''health'') (\<lambda>health.
      seqR (ditem seen ''dependencies'') (\<lambda>dependencies.
        Inr (b\<lparr>pb_source_id := pf_id source, pb_source_versions := sv, pb_target_id := pf_id target,
               pb_target_versions := tv, pb_impact := impact, pb_capacity := capacity, pb_health := health,
               pb_dependencies := dependencies, pb_backup := getd seen ''backup'' JNull,
               pb_downtime := tr_downtime t, pb_timeout := tr_timeout t\<rparr>))))))))"

definition unchanged_plan :: "upgrade_env \<Rightarrow> upgrade_plan \<Rightarrow> platform upg" where
  "unchanged_plan env p =
     bindS (lift (ue_load env (pb_target_id (up_body p)))) (\<lambda>target.
     bindS (lift (find_transition target (pf_id (ue_source env)))) (\<lambda>t.
     bindS (observe_platform env) (\<lambda>observation.
     bindS (lift (validated_observation (component_ids (ue_registry env)) (ue_source env) target t observation))
       (\<lambda>seen.
     bindS (lift (fresh_body env p target t seen)) (\<lambda>body.
       if body_digest (ue_sha256 env) body \<noteq> up_digest p
       then fail StaleUpgradePlan (''profile versions, state, capacity, health, dependencies, ''
              @ ''or backup evidence changed'')
       else ret target)))))"

definition backup_member :: "json \<Rightarrow> string \<Rightarrow> json" where
  "backup_member b k = (case b of JObj ms \<Rightarrow> getd ms k JNull | _ \<Rightarrow> JNull)"

definition queued_upgrade :: "string \<Rightarrow> upgrade_plan \<Rightarrow> identity \<Rightarrow> instant \<Rightarrow> upgrade_op" where
  "queued_upgrade i p idn now = (let b = up_body p in
     \<lparr>uo_id = i, uo_plan = up_id p, uo_digest = up_digest p, uo_source = pb_source_id b,
      uo_target = pb_target_id b, uo_actor = id_actor idn, uo_confirmed_by = id_source idn,
      uo_state = UgQueued, uo_current = None, uo_completed = [], uo_error = None, uo_created = now,
      uo_updated = now, uo_rollback = pb_rollback b, uo_required = False, uo_boundary = pb_rollback b,
      uo_backup = backup_member (pb_backup b) ''id'',
      uo_backup_verified = truthy (backup_member (pb_backup b) ''verified''),
      uo_action = None, uo_status = ''not-required'', uo_evidence = []\<rparr>)"

definition admit_plan :: "upgrade_env \<Rightarrow> string \<Rightarrow> identity \<Rightarrow> string option \<Rightarrow> upgrade_doc
    \<Rightarrow> (upgrade_plan \<times> platform \<times> instant) upg" where
  "admit_plan env k idn confirmation d =
     bindS (upgrade_now env) (\<lambda>now.
       case d of
         OperationDoc _ \<Rightarrow> fail UpgradeError ''upgrade plan is invalid''
       | PlanDoc p \<Rightarrow>
           bindS (lift (confirmed env now idn confirmation p)) (\<lambda>_.
             bindS (unchanged_plan env p) (\<lambda>target. ret (p, target, now))))"

definition launch_upgrade ::
    "upgrade_env \<Rightarrow> identity \<Rightarrow> upgrade_plan \<times> platform \<times> instant \<Rightarrow> upgrade_op upg" where
  "launch_upgrade env idn = (\<lambda>(p, target, now).
     bindS (upgrade_uuid env) (\<lambda>u. let x = queued_upgrade (''upgrade-'' @ u) p idn now in
       thenS (put_doc (OperationDoc x))
         (thenS (modify (\<lambda>w. w\<lparr>uw_started := (uo_id x, p, target) # uw_started w\<rparr>)) (ret x))))"

text \<open>Reading the plan, judging it, consuming it and starting the worker are pieces of their own.\<close>

definition submit_upgrade ::
    "upgrade_env \<Rightarrow> string \<Rightarrow> identity \<Rightarrow> string option \<Rightarrow> (unit \<times> upgrade_world, upgrade_op) script" where
  "submit_upgrade env k idn confirmation =
     and_then (atom (on_shared (get_doc k))) (\<lambda>d.
     and_then (atom (on_shared (admit_plan env k idn confirmation d))) (\<lambda>admitted.
     and_then (atom (on_shared (consume_plan k))) (\<lambda>ok.
       if \<not> ok then Stop (raise StaleUpgradePlan ''upgrade plan was already consumed or changed'')
       else atom (on_shared (launch_upgrade env idn admitted)))))"

text \<open>
  \<^verbatim>\<open>cancel\<close> takes the id of any document: an unconsumed plan has no member \<^verbatim>\<open>state\<close>, and a consumed plan
  is treated like an active operation.
\<close>

definition cancelling_doc :: "upgrade_doc \<Rightarrow> instant \<Rightarrow> upgrade_doc" where
  "cancelling_doc d now =
     (case d of
        OperationDoc x \<Rightarrow> OperationDoc (x\<lparr>uo_state := UgCancelling, uo_updated := now\<rparr>)
      | PlanDoc p \<Rightarrow> PlanDoc (p\<lparr>up_state := Some ''cancelling''\<rparr>))"

definition cancellable_doc :: "upgrade_doc \<Rightarrow> bool result" where
  "cancellable_doc d =
     (case d of
        OperationDoc x \<Rightarrow> Inr (\<not> upgrade_over (uo_state x))
      | PlanDoc p \<Rightarrow> (case up_state p of
           None \<Rightarrow> raise PyKeyError ''state'' | Some st \<Rightarrow> Inr (st \<noteq> ''interrupted'')))"

definition cancel_upgrade :: "upgrade_env \<Rightarrow> string \<Rightarrow> (unit \<times> upgrade_world, upgrade_doc) script" where
  "cancel_upgrade env k =
     and_then (atom (on_shared (get_doc k))) (\<lambda>d.
     and_then (Stop (cancellable_doc d)) (\<lambda>live.
       if \<not> live then Stop (Inr d)
       else followed_by (atom (on_shared (modify (\<lambda>w. w\<lparr>uw_cancelled := k # uw_cancelled w\<rparr>))))
         (atom (on_shared (bindS (upgrade_now env) (\<lambda>now. let d' = cancelling_doc d now in
            thenS (put_doc d') (ret d')))))))"

section \<open>Running an upgrade\<close>

text \<open>\<open>ul_log\<close> records the calls this run made of the adapter and the verifier, the newest first.\<close>

record upgrade_local =
  ul_op :: upgrade_op
  ul_mutated :: "string list"
  ul_log :: "upgrade_call list"
  ul_restored :: "string list"
  ul_deadline :: rat

type_synonym 'a upgrade_script = "(upgrade_local \<times> upgrade_world, 'a) script"

definition change_op :: "(upgrade_op \<Rightarrow> upgrade_op) \<Rightarrow> (upgrade_local \<times> upgrade_world, unit) proc" where
  "change_op f = on_local (\<lambda>l. l\<lparr>ul_op := f (ul_op l)\<rparr>)"

definition store_op :: "upgrade_env \<Rightarrow> (upgrade_local \<times> upgrade_world, unit) proc" where
  "store_op env = bindS (on_shared (upgrade_now env)) (\<lambda>now. \<lambda>(l, w).
     let x = (ul_op l)\<lparr>uo_updated := now\<rparr>
     in on_shared (put_doc (OperationDoc x)) (l\<lparr>ul_op := x\<rparr>, w))"

definition saving :: "upgrade_env \<Rightarrow> (upgrade_op \<Rightarrow> upgrade_op) \<Rightarrow> unit upgrade_script" where
  "saving env f = atom (thenS (change_op f) (store_op env))"

definition changing :: "(upgrade_op \<Rightarrow> upgrade_op) \<Rightarrow> unit upgrade_script" where
  "changing f = atom (change_op f)"

definition add_evidence :: "upgrade_env \<Rightarrow> (instant \<Rightarrow> upgrade_evidence) \<Rightarrow> unit upgrade_script" where
  "add_evidence env ev = atom (bindS (on_shared (upgrade_now env)) (\<lambda>now.
     change_op (\<lambda>x. x\<lparr>uo_evidence := uo_evidence x @ [ev now]\<rparr>)))"

definition call_out :: "upgrade_call \<Rightarrow> (nat \<Rightarrow> 'a result) \<Rightarrow> 'a upgrade_script" where
  "call_out c answer = atom (\<lambda>(l, w). (answer (uw_calls w), l\<lparr>ul_log := c # ul_log l\<rparr>,
     w\<lparr>uw_calls := Suc (uw_calls w)\<rparr>))"

definition class_of :: "plan_body \<Rightarrow> string \<Rightarrow> string result" where
  "class_of b c = (case map_of (rev (map (\<lambda>s. (us_component s, us_class s)) (pb_steps b))) c of
     None \<Rightarrow> raise PyKeyError c | Some k \<Rightarrow> Inr k)"

definition restore_only :: "plan_body \<Rightarrow> string \<Rightarrow> bool result" where
  "restore_only b c = seqR (class_of b c) (\<lambda>k. Inr (k \<in> {''restore-required'', ''irreversible''}))"

definition uncertain :: "plan_body \<Rightarrow> upgrade_op \<Rightarrow> string list \<Rightarrow> string list" where
  "uncertain b x mutated =
     (case uo_current x of
        None \<Rightarrow> mutated
      | Some c \<Rightarrow> if c \<in> set (pb_components b) \<and> c \<notin> set mutated then mutated @ [c] else mutated)"

definition roll_back_one :: "upgrade_env \<Rightarrow> (nat \<Rightarrow> string \<Rightarrow> json \<Rightarrow> unit result) \<Rightarrow> plan_body \<Rightarrow> string \<Rightarrow> unit upgrade_script" where
  "roll_back_one env rollback b c =
     and_then (Stop (ditem (pb_source_versions b) c)) (\<lambda>v.
     followed_by (call_out (RollbackCall c v) (\<lambda>n. rollback n c v))
       (and_then (call_out (VerifyLayer c) (\<lambda>n. ue_verify env n c)) (\<lambda>healthy.
          if \<not> healthy then Stop (raise UpgradeExecutionError ''post-rollback health verification failed'')
          else followed_by (atom (on_local (\<lambda>l. l\<lparr>ul_restored := ul_restored l @ [c]\<rparr>)))
                 (add_evidence env (RollbackVerified c)))))"

definition needs_hand :: "string \<Rightarrow> upgrade_op \<Rightarrow> upgrade_op" where
  "needs_hand action x = x\<lparr>uo_status := ''compensating-action-required'', uo_action := Some action\<rparr>"

definition roll_back :: "upgrade_env \<Rightarrow> (nat \<Rightarrow> string \<Rightarrow> json \<Rightarrow> unit result) \<Rightarrow> plan_body \<Rightarrow> string list \<Rightarrow> unit upgrade_script" where
  "roll_back env rollback b mutated =
     followed_by (atom (on_local (\<lambda>l. l\<lparr>ul_restored := []\<rparr>)))
     (rescue
       (followed_by (each (rev mutated) (roll_back_one env rollback b))
         (changing (\<lambda>x. x\<lparr>uo_status := ''rolled-back'',
            uo_action := Some ''Review rollback health evidence before creating a fresh plan.''\<rparr>)))
       (\<lambda>_. followed_by (changing (needs_hand (''Automatic rollback did not verify; stop automation and ''
                             @ ''review retained evidence.'')))
         (atom (bindS (on_shared (upgrade_now env)) (\<lambda>now.
            on_local (\<lambda>l. l\<lparr>ul_op := (ul_op l)\<lparr>uo_evidence :=
              uo_evidence (ul_op l) @ [RollbackFailed (ul_restored l) now]\<rparr>\<rparr>))))))"

definition block_rollback :: "upgrade_env \<Rightarrow> plan_body \<Rightarrow> string list \<Rightarrow> unit upgrade_script" where
  "block_rollback env b blocked =
     followed_by (changing (\<lambda>x. x\<lparr>uo_status := ''restore-required'',
         uo_action := Some (if uo_backup_verified x
           then ''Restore and verify the bound backup before retrying.''
           else ''Stop: no verified bound backup is available for recovery.'')\<rparr>))
       (and_then (Stop (class_of b (hd blocked))) (\<lambda>k. add_evidence env (RollbackBlocked blocked k)))"

definition recover_with :: "upgrade_env \<Rightarrow> plan_body \<Rightarrow> string list \<Rightarrow> unit upgrade_script" where
  "recover_with env b mutated =
     (if mutated = [] then
        followed_by (changing (\<lambda>x. x\<lparr>uo_required := False, uo_status := ''not-required'',
            uo_action := Some ''No mutation was recorded; review authoritative health before replanning.''\<rparr>))
          (add_evidence env RecoveryNotRequired)
      else and_then (Stop (res_filter (restore_only b) mutated)) (\<lambda>blocked.
        followed_by (changing (\<lambda>x. x\<lparr>uo_required := True\<rparr>))
          (if blocked \<noteq> [] then block_rollback env b blocked
           else case ue_rollback env of
                  None \<Rightarrow> changing (needs_hand
                    ''Review retained evidence and apply the documented compensating action.'')
                | Some rollback \<Rightarrow> roll_back env rollback b mutated)))"

definition recover_upgrade :: "upgrade_env \<Rightarrow> plan_body \<Rightarrow> unit upgrade_script" where
  "recover_upgrade env b =
     and_then (atom (\<lambda>(l, w). (Inr (uncertain b (ul_op l) (ul_mutated l)), l, w))) (recover_with env b)"

definition mutate_step :: "upgrade_env \<Rightarrow> platform \<Rightarrow> upgrade_step \<Rightarrow> unit upgrade_script" where
  "mutate_step env target s = (let c = us_component s in
     and_then (Stop (component_version target c)) (\<lambda>v.
     followed_by (call_out (UpgradeCall c v) (\<lambda>n. ue_upgrade env n c v))
       (followed_by (atom (on_local (\<lambda>l. l\<lparr>ul_mutated := ul_mutated l @ [c]\<rparr>)))
         (followed_by (add_evidence env (MutationCompleted c (us_class s))) (saving env (\<lambda>x. x))))))"

definition over_deadline :: "upgrade_env \<Rightarrow> bool upgrade_script" where
  "over_deadline env = atom (\<lambda>(l, w). case read_monotonic env w of
     (Inl e, w') \<Rightarrow> (Inl e, l, w') | (Inr t, w') \<Rightarrow> (Inr (t \<ge> ul_deadline l), l, w'))"

definition verify_step :: "upgrade_env \<Rightarrow> upgrade_step \<Rightarrow> unit upgrade_script" where
  "verify_step env s = (let c = us_component s in
     and_then (call_out (VerifyLayer c) (\<lambda>n. ue_verify env n c)) (\<lambda>healthy.
       if \<not> healthy then Stop (raise UpgradeExecutionError (''health verification failed for '' @ c))
       else followed_by (changing (\<lambda>x. x\<lparr>uo_completed := uo_completed x @ [c]\<rparr>))
              (followed_by (add_evidence env (HealthVerified c)) (saving env (\<lambda>x. x)))))"

text \<open>One turn of the loop; the answer tells whether the loop goes on.\<close>

definition upgrade_turn :: "upgrade_env \<Rightarrow> string \<Rightarrow> plan_body \<Rightarrow> platform \<Rightarrow> upgrade_step \<Rightarrow> bool upgrade_script" where
  "upgrade_turn env k b target s =
     and_then (atom (on_shared (gets uw_cancelled))) (\<lambda>cancelled.
       if k \<in> set cancelled
       then followed_by (changing (\<lambda>x. x\<lparr>uo_state := UgCancelled\<rparr>))
              (followed_by (recover_upgrade env b) (Stop (Inr False)))
       else followed_by (saving env (\<lambda>x. x\<lparr>uo_current := Some (us_component s)\<rparr>))
         (followed_by (if us_component s \<in> set (pb_components b) then mutate_step env target s else Stop (Inr ()))
           (and_then (over_deadline env) (\<lambda>late.
              if late
              then followed_by (changing (\<lambda>x. x\<lparr>uo_state := UgTimedOut,
                       uo_error := Some ''profile upgrade exceeded its bounded timeout''\<rparr>))
                     (followed_by (recover_upgrade env b) (Stop (Inr False)))
              else followed_by (verify_step env s) (Stop (Inr True))))))"

fun upgrade_loop :: "upgrade_env \<Rightarrow> string \<Rightarrow> plan_body \<Rightarrow> platform \<Rightarrow> upgrade_step list \<Rightarrow> bool upgrade_script" where
  "upgrade_loop env k b target [] = Stop (Inr True)"
| "upgrade_loop env k b target (s # ss) =
     and_then (upgrade_turn env k b target s) (\<lambda>go.
       if go then upgrade_loop env k b target ss else Stop (Inr False))"

text \<open>The id of an operation begins with another word than that of a plan, so \<open>load_upgrade\<close> never meets a plan.\<close>

definition conclude :: "bool \<Rightarrow> unit upgrade_script" where
  "conclude through = (if through then changing (\<lambda>x. x\<lparr>uo_state := UgSucceeded, uo_current := None\<rparr>)
                       else Stop (Inr ()))"

definition fail_upgrade :: "upgrade_env \<Rightarrow> plan_body \<Rightarrow> unit upgrade_script" where
  "fail_upgrade env b =
     followed_by (changing (\<lambda>x. x\<lparr>uo_state := UgFailed,
         uo_error := Some ''upgrade failed; inspect component health and follow the plan recovery boundary''\<rparr>))
       (recover_upgrade env b)"

definition load_upgrade :: "string \<Rightarrow> unit upgrade_script" where
  "load_upgrade k = atom (bindS (on_shared (get_doc k)) (\<lambda>d. case d of
     OperationDoc x \<Rightarrow> change_op (\<lambda>_. x)
   | PlanDoc p \<Rightarrow> fail PyKeyError ''state''))"

definition set_deadline :: "upgrade_env \<Rightarrow> int \<Rightarrow> unit upgrade_script" where
  "set_deadline env timeout = atom (\<lambda>(l, w). case read_monotonic env w of
     (Inl e, w') \<Rightarrow> (Inl e, l, w')
   | (Inr t, w') \<Rightarrow> (Inr (), l\<lparr>ul_deadline := t + of_int timeout, ul_mutated := [], ul_log := []\<rparr>, w'))"

definition run_upgrade :: "upgrade_env \<Rightarrow> string \<Rightarrow> upgrade_plan \<Rightarrow> platform \<Rightarrow> unit upgrade_script" where
  "run_upgrade env k p target = (let b = up_body p in
     followed_by (load_upgrade k)
       (followed_by (saving env (\<lambda>x. x\<lparr>uo_state := UgRunning\<rparr>))
         (followed_by (set_deadline env (pb_timeout b))
           (ensure
             (rescue (and_then (upgrade_loop env k b target (pb_steps b)) conclude) (\<lambda>_. fail_upgrade env b))
             (followed_by (atom (on_shared (modify (\<lambda>w. w\<lparr>uw_cancelled := removeAll k (uw_cancelled w)\<rparr>))))
               (saving env (\<lambda>x. x)))))))"

section \<open>What a submission admits\<close>

lemmas result_steps = seqR_def guard_def

lemma guard_ok [simp]: "guard ok m = Inr u \<longleftrightarrow> ok"
  by (simp add: guard_def)

lemma seqR_Inr [simp]: "seqR r f = Inr y \<longleftrightarrow> (\<exists>x. r = Inr x \<and> f x = Inr y)"
  by (cases r) (auto simp: seqR_def)

lemma confirmed_ok: "confirmed env now idn confirmation p = Inr u \<longleftrightarrow>
    id_source idn \<in> set STRONG_SOURCES \<and> now - id_authenticated idn \<le> ue_age env
    \<and> confirmation = Some (up_confirmation p) \<and> now < up_expires p"
  by (auto simp: confirmed_def)

lemma unchanged_plan_ok:
  assumes "unchanged_plan env p w = (Inr target, w')"
  shows "ue_load env (pb_target_id (up_body p)) = Inr target
    \<and> (\<exists>t seen body. find_transition target (pf_id (ue_source env)) = Inr t
         \<and> validated_observation (component_ids (ue_registry env)) (ue_source env) target t
             (ue_observe env (uw_reads w)) = Inr seen
         \<and> fresh_body env p target t seen = Inr body \<and> body_digest (ue_sha256 env) body = up_digest p)
    \<and> w' = w\<lparr>uw_reads := Suc (uw_reads w)\<rparr>"
  using assms by (auto simp: unchanged_plan_def observe_platform_def runs split: if_splits)

lemma admit_plan_ok:
  assumes "admit_plan env k idn confirmation d w = (Inr (p, target, now), w')"
  shows "d = PlanDoc p \<and> confirmed env now idn confirmation p = Inr ()
    \<and> aware ''upgrade clock must be timezone-aware'' (ue_clock env (uw_ticks w)) = Inr now
    \<and> unchanged_plan env p (w\<lparr>uw_ticks := Suc (uw_ticks w)\<rparr>) = (Inr target, w')"
  using assms by (cases d) (auto simp: admit_plan_def upgrade_now_def runs)

text \<open>The digest collides for no two of the plans in question.\<close>

definition digests_apart :: "upgrade_env \<Rightarrow> plan_body \<Rightarrow> plan_body \<Rightarrow> bool" where
  "digests_apart env a b \<longleftrightarrow> inj_on (ue_sha256 env) {dumps (body_json a), dumps (body_json b)}"

lemma body_digest_inj:
  assumes "digests_apart env a b" and "body_digest (ue_sha256 env) a = body_digest (ue_sha256 env) b"
  shows "sort_keys (body_json a) = sort_keys (body_json b)"
  using assms dumps_inj[of "body_json a" "body_json b"]
  by (auto simp: body_digest_def digests_apart_def)


lemma plan_upgrade_ok:
  assumes "plan_upgrade env i w = (Inr p, w1)"
  obtains target t seen impact changed now where "ue_load env i = Inr target"
    and "find_transition target (pf_id (ue_source env)) = Inr t"
    and "validated_observation (component_ids (ue_registry env)) (ue_source env) target t
          (ue_observe env (uw_reads w)) = Inr seen"
    and "registry_order env = Inr impact"
    and "planned_body (ue_source env) target t seen changed impact = Inr (up_body p)"
    and "up_digest p = body_digest (ue_sha256 env) (up_body p)" and "up_state p = None"
    and "up_expires p = now + ue_ttl env" and "uw_rows w1 = (uw_rows w)(up_id p \<mapsto> PlanDoc p)"
    and "up_confirmation p = ''UPGRADE '' @ pf_id (ue_source env) @ '' TO '' @ pf_id target @ '' '' @ up_digest p"
proof -
  note unfold = plan_upgrade_def Let_def observe_platform_def upgrade_now_def upgrade_uuid_def put_doc_def doc_id_def
  show thesis
    using assms by (auto simp: unfold runs load_target_def split: sum.splits if_splits intro!: that)
qed

lemma planned_body_ok:
  "planned_body source target t seen changed impact = Inr b \<Longrightarrow> pb_target_id b = pf_id target"
  by (auto simp: planned_body_def)

lemma fresh_body_of_plan:
  assumes "planned_body (ue_source env) target t seen changed impact = Inr (up_body p)"
    and "registry_order env = Inr impact"
  shows "fresh_body env p target t seen = Inr (up_body p)"
  using assms by (auto simp: planned_body_def fresh_body_def Let_def dest!: sym[of _ "up_body p"])

lemma plan_accepted:
  assumes "plan_upgrade env i w0 = (Inr p, w1)" and "uw_rows w (up_id p) = Some (PlanDoc p)"
    and "ue_observe env (uw_reads w) = ue_observe env (uw_reads w0)"
    and "\<And>target. ue_load env i = Inr target \<Longrightarrow> pf_id target = i"
    and "aware ''upgrade clock must be timezone-aware'' (ue_clock env (uw_ticks w)) = Inr now"
    and "id_source idn \<in> set STRONG_SOURCES" and "now - id_authenticated idn \<le> ue_age env" and "now < up_expires p"
  shows "\<exists>x w' target. alone (submit_upgrade env (up_id p) idn (Some (up_confirmation p))) ((), w) = (Inr x, (), w')
    \<and> ue_load env i = Inr target \<and> uw_started w' = (uo_id x, p, target) # uw_started w"
proof -
  obtain target t seen impact changed where plan: "ue_load env i = Inr target"
      "find_transition target (pf_id (ue_source env)) = Inr t"
      "validated_observation (component_ids (ue_registry env)) (ue_source env) target t
          (ue_observe env (uw_reads w0)) = Inr seen"
      "registry_order env = Inr impact"
      "planned_body (ue_source env) target t seen changed impact = Inr (up_body p)"
      "up_digest p = body_digest (ue_sha256 env) (up_body p)" "up_state p = None"
    by (rule plan_upgrade_ok[OF assms(1)])
  have "pb_target_id (up_body p) = i" using planned_body_ok[OF plan(5)] assms(4)[OF plan(1)] by simp
  let ?w = "w\<lparr>uw_ticks := Suc (uw_ticks w), uw_reads := Suc (uw_reads w)\<rparr>"
  have "unchanged_plan env p (w\<lparr>uw_ticks := Suc (uw_ticks w)\<rparr>) = (Inr target, ?w)"
    using plan fresh_body_of_plan[OF plan(5,4)] assms(3) \<open>pb_target_id (up_body p) = i\<close>
    by (simp add: unchanged_plan_def observe_platform_def bindS_def)
  then have "admit_plan env (up_id p) idn (Some (up_confirmation p)) (PlanDoc p) w = (Inr (p, target, now), ?w)"
    using assms(5-8) confirmed_ok[of env now idn "Some (up_confirmation p)" p "()"]
    by (simp add: admit_plan_def upgrade_now_def bindS_def)
  then show ?thesis
    using assms(2) plan(1,7)
    by (simp add: submit_upgrade_def on_shared_def bindS_def get_doc_def consume_plan_def launch_upgrade_def
        upgrade_uuid_def put_doc_def Let_def)
qed

text \<open>
  C37. A plan stays good as long as nothing changed. A plan that was made and is still stored is accepted
  when the platform gives the same observation and the loader the same target profile as at planning
  time, and a fresh identity confirms it before it expires: \<^verbatim>\<open>submit\<close> answers with an operation and
  starts exactly one worker, for this plan and this target.
\<close>

theorem unchanged_plan_is_accepted:
  assumes "plan_upgrade env i w0 = (Inr p, w1)" and "uw_rows w (up_id p) = Some (PlanDoc p)"
    and "ue_observe env (uw_reads w) = ue_observe env (uw_reads w0)"
    and "\<And>target. ue_load env i = Inr target \<Longrightarrow> pf_id target = i"
    and "aware ''upgrade clock must be timezone-aware'' (ue_clock env (uw_ticks w)) = Inr now"
    and "id_source idn \<in> set STRONG_SOURCES" and "now - id_authenticated idn \<le> ue_age env" and "now < up_expires p"
  shows "\<exists>x w' target. alone (submit_upgrade env (up_id p) idn (Some (up_confirmation p))) ((), w) = (Inr x, (), w')
    \<and> ue_load env i = Inr target \<and> uw_started w' = (uo_id x, p, target) # uw_started w"
  using assms by (rule plan_accepted)

section \<open>How a run ends\<close>

text \<open>The pieces of a run, for any condition on its variables.\<close>

lemma triple_changing:
  "(\<And>l. P l \<Longrightarrow> Q () (l\<lparr>ul_op := f (ul_op l)\<rparr>)) \<Longrightarrow> triple P (changing f) Q E"
  unfolding changing_def change_op_def on_local_def by (rule triple_atom) auto

lemma triple_saving:
  assumes "\<And>l now. P l \<Longrightarrow> Q () (l\<lparr>ul_op := (f (ul_op l))\<lparr>uo_updated := now\<rparr>\<rparr>)"
    and "\<And>l. P l \<Longrightarrow> E (l\<lparr>ul_op := f (ul_op l)\<rparr>)"
  shows "triple P (saving env f) Q E"
  unfolding saving_def
  by (rule triple_atom)
    (auto simp: change_op_def on_local_def store_op_def on_shared_def upgrade_now_def put_doc_def Let_def assms
      bindS_def split: sum.splits prod.splits)

lemma triple_evidence:
  assumes "\<And>l now. P l \<Longrightarrow> Q () (l\<lparr>ul_op := (ul_op l)\<lparr>uo_evidence := uo_evidence (ul_op l) @ [ev now]\<rparr>\<rparr>)"
    and "\<And>l. P l \<Longrightarrow> E l"
  shows "triple P (add_evidence env ev) Q E"
  unfolding add_evidence_def
  by (rule triple_atom)
    (auto simp: change_op_def on_local_def on_shared_def upgrade_now_def assms bindS_def
      split: sum.splits prod.splits)

lemma triple_call:
  assumes "\<And>l n. P l \<Longrightarrow> case answer n of Inl _ \<Rightarrow> E (l\<lparr>ul_log := c # ul_log l\<rparr>) | Inr x \<Rightarrow> Q x (l\<lparr>ul_log := c # ul_log l\<rparr>)"
  shows "triple P (call_out c answer) Q E"
  unfolding call_out_def by (rule triple_atom) (auto simp: assms)

lemmas upgrade_pieces = triple_changing triple_saving triple_evidence triple_call

text \<open>
  What the calls so far may have changed; a run that has not gone wrong, one that is going wrong, and one
  whose recovery is under way or over.
\<close>

definition touched :: "plan_body \<Rightarrow> upgrade_local \<Rightarrow> string list" where
  "touched b l = uncertain b (ul_op l) (ul_mutated l)"

definition accounted :: "plan_body \<Rightarrow> upgrade_local \<Rightarrow> bool" where
  "accounted b l \<longleftrightarrow> set (ul_mutated l) \<subseteq> set (pb_components b)
     \<and> (\<forall>c v. UpgradeCall c v \<in> set (ul_log l) \<longrightarrow> c \<in> set (touched b l))"

definition step_calls :: "platform \<Rightarrow> plan_body \<Rightarrow> upgrade_step \<Rightarrow> upgrade_call list" where
  "step_calls target b s = (let c = us_component s in
     (if c \<in> set (pb_components b)
      then (case component_version target c of Inr v \<Rightarrow> [UpgradeCall c v] | Inl _ \<Rightarrow> []) else []) @ [VerifyLayer c])"

definition step_passed :: "upgrade_env \<Rightarrow> platform \<Rightarrow> plan_body \<Rightarrow> upgrade_step \<Rightarrow> bool" where
  "step_passed env target b s \<longleftrightarrow> (let c = us_component s in
     (c \<in> set (pb_components b) \<longrightarrow> (\<exists>v n. component_version target c = Inr v \<and> ue_upgrade env n c v = Inr ()))
     \<and> (\<exists>n. ue_verify env n c = Inr True))"

definition advanced ::
    "upgrade_env \<Rightarrow> platform \<Rightarrow> plan_body \<Rightarrow> string list \<Rightarrow> upgrade_step list \<Rightarrow> upgrade_local \<Rightarrow> bool" where
  "advanced env target b prior ss l \<longleftrightarrow>
     ul_log l = rev (concat (map (step_calls target b) ss))
     \<and> ul_mutated l = filter (\<lambda>c. c \<in> set (pb_components b)) (map us_component ss)
     \<and> uo_completed (ul_op l) = prior @ map us_component ss
     \<and> list_all (step_passed env target b) ss"

definition disturbed :: "plan_body \<Rightarrow> upgrade_local \<Rightarrow> bool" where
  "disturbed b l \<longleftrightarrow> accounted b l \<and> (\<forall>c v. RollbackCall c v \<in> set (ul_log l) \<longrightarrow>
     c \<in> set (touched b l) \<and> map_of (pb_source_versions b) c = Some v
     \<and> (\<forall>c'\<in>set (touched b l). restore_only b c' = Inr False))"

definition rollback_calls :: "plan_body \<Rightarrow> string list \<Rightarrow> upgrade_call list" where
  "rollback_calls b cs =
     concat (map (\<lambda>c. [RollbackCall c (the (map_of (pb_source_versions b) c)), VerifyLayer c]) cs)"

text \<open>The classes that only a restore recovers, as the plan states them.\<close>

definition restore_class :: "plan_body \<Rightarrow> string \<Rightarrow> bool" where
  "restore_class b c \<longleftrightarrow> class_of b c = Inr ''restore-required'' \<or> class_of b c = Inr ''irreversible''"

lemma restore_class_only [simp]: "restore_class b c \<longleftrightarrow> restore_only b c = Inr True"
  by (auto simp: restore_class_def restore_only_def)

definition recovery_told :: "upgrade_env \<Rightarrow> plan_body \<Rightarrow> string list \<Rightarrow> upgrade_local \<Rightarrow> bool" where
  "recovery_told env b cs l \<longleftrightarrow> (let x = ul_op l in
     (if cs = [] then uo_status x = ''not-required'' \<and> \<not> uo_required x
      else uo_required x \<and>
        (if \<exists>c\<in>set cs. restore_class b c then uo_status x = ''restore-required''
         else uo_status x = ''compensating-action-required''
            \<or> uo_status x = ''rolled-back''
              \<and> (\<exists>front. ul_log l = rev (rollback_calls b (rev cs)) @ front)
              \<and> (\<forall>c\<in>set cs. \<exists>n. ue_verify env n c = Inr True))))"

definition stuck :: "upgrade_state \<Rightarrow> plan_body \<Rightarrow> string list \<Rightarrow> upgrade_local \<Rightarrow> bool" where
  "stuck st b cs l \<longleftrightarrow> disturbed b l \<and> uo_state (ul_op l) = st \<and> touched b l = cs"

definition reversing ::
    "upgrade_env \<Rightarrow> upgrade_state \<Rightarrow> plan_body \<Rightarrow> string list \<Rightarrow> upgrade_call list \<Rightarrow> string list \<Rightarrow> upgrade_local \<Rightarrow> bool" where
  "reversing env st b cs front ys l \<longleftrightarrow> stuck st b cs l \<and> uo_required (ul_op l)
     \<and> ul_log l = rev (rollback_calls b ys) @ front \<and> (\<forall>c\<in>set ys. \<exists>n. ue_verify env n c = Inr True)"

text \<open>What may have been changed depends on no other field of the operation.\<close>

lemma uncertain_fields [simp]:
  "uncertain b (x\<lparr>uo_state := st\<rparr>) cs = uncertain b x cs" "uncertain b (x\<lparr>uo_status := t\<rparr>) cs = uncertain b x cs"
  "uncertain b (x\<lparr>uo_action := a\<rparr>) cs = uncertain b x cs" "uncertain b (x\<lparr>uo_required := r\<rparr>) cs = uncertain b x cs"
  "uncertain b (x\<lparr>uo_error := a\<rparr>) cs = uncertain b x cs" "uncertain b (x\<lparr>uo_evidence := es\<rparr>) cs = uncertain b x cs"
  "uncertain b (x\<lparr>uo_updated := n\<rparr>) cs = uncertain b x cs" "uncertain b (x\<lparr>uo_completed := xs\<rparr>) cs = uncertain b x cs"
  by (simp_all add: uncertain_def)

lemmas stuck_simps = stuck_def disturbed_def accounted_def touched_def

lemma triple_fixing: "(\<And>v. triple (\<lambda>l. P l \<and> f l = v) p Q E) \<Longrightarrow> triple P p Q E"
  unfolding triple_def by blast

lemma triple_side: "(D \<Longrightarrow> triple P p Q E) \<Longrightarrow> triple (\<lambda>l. D \<and> P l) p Q E"
  unfolding triple_def by blast

lemma rollback_calls_snoc [simp]: "rollback_calls b (ys @ [c]) =
    rollback_calls b ys @ [RollbackCall c (the (map_of (pb_source_versions b) c)), VerifyLayer c]"
  by (simp add: rollback_calls_def)

lemma stuck_call: "stuck st b cs l \<Longrightarrow> ul_log l = xs \<Longrightarrow> (\<And>c v. call \<noteq> UpgradeCall c v) \<Longrightarrow>
    (\<And>c v. call = RollbackCall c v \<Longrightarrow> c \<in> set cs \<and> map_of (pb_source_versions b) c = Some v
       \<and> (\<forall>c'\<in>set cs. restore_only b c' = Inr False)) \<Longrightarrow>
    stuck st b cs (l\<lparr>ul_log := call # xs\<rparr>)"
  by (auto simp: stuck_simps)

lemma stuck_fields [simp]:
  "stuck st b cs (l\<lparr>ul_op := x\<lparr>uo_status := t\<rparr>\<rparr>) = stuck st b cs (l\<lparr>ul_op := x\<rparr>)"
  "stuck st b cs (l\<lparr>ul_op := x\<lparr>uo_action := a\<rparr>\<rparr>) = stuck st b cs (l\<lparr>ul_op := x\<rparr>)"
  "stuck st b cs (l\<lparr>ul_op := x\<lparr>uo_required := r\<rparr>\<rparr>) = stuck st b cs (l\<lparr>ul_op := x\<rparr>)"
  "stuck st b cs (l\<lparr>ul_op := x\<lparr>uo_evidence := es\<rparr>\<rparr>) = stuck st b cs (l\<lparr>ul_op := x\<rparr>)"
  "stuck st b cs (l\<lparr>ul_restored := rs\<rparr>) = stuck st b cs l"
  by (simp_all add: stuck_simps)

lemma stuck_same [simp]: "stuck st b cs (l\<lparr>ul_op := ul_op l\<rparr>) = stuck st b cs l"
  by (simp add: stuck_simps)

lemma roll_back_one_triple:
  assumes "c \<in> set cs" and "\<And>c'. c' \<in> set cs \<Longrightarrow> restore_only b c' = Inr False"
  shows "triple (reversing env st b cs front ys) (roll_back_one env rollback b c)
    (\<lambda>_. reversing env st b cs front (ys @ [c])) (\<lambda>l. stuck st b cs l \<and> uo_required (ul_op l))"
proof (cases "map_of (pb_source_versions b) c")
  case None
  then show ?thesis
    by (auto simp: roll_back_one_def ditem_def reversing_def intro!: triple_stop)
next
  case (Some v)
  have call: "triple (reversing env st b cs front ys) (call_out (RollbackCall c v) (\<lambda>n. rollback n c v))
      (\<lambda>_ l. stuck st b cs l \<and> uo_required (ul_op l) \<and> ul_log l = RollbackCall c v # rev (rollback_calls b ys) @ front
         \<and> (\<forall>c\<in>set ys. \<exists>n. ue_verify env n c = Inr True)) (\<lambda>l. stuck st b cs l \<and> uo_required (ul_op l))"
    by (rule triple_call)
      (use assms Some in \<open>auto simp: reversing_def intro!: stuck_call split: sum.splits\<close>)
  have look: "triple (\<lambda>l. stuck st b cs l \<and> uo_required (ul_op l) \<and> ul_log l = RollbackCall c v # rev (rollback_calls b ys) @ front
         \<and> (\<forall>c\<in>set ys. \<exists>n. ue_verify env n c = Inr True)) (call_out (VerifyLayer c) (\<lambda>n. ue_verify env n c))
      (\<lambda>healthy l. if healthy then reversing env st b cs front (ys @ [c]) l
                   else stuck st b cs l \<and> uo_required (ul_op l)) (\<lambda>l. stuck st b cs l \<and> uo_required (ul_op l))"
    by (rule triple_call) (use Some in \<open>auto simp: reversing_def intro!: stuck_call split: sum.splits\<close>)
  have note_it: "triple (reversing env st b cs front (ys @ [c]))
      (followed_by (atom (on_local (\<lambda>l. l\<lparr>ul_restored := ul_restored l @ [c]\<rparr>))) (add_evidence env (RollbackVerified c)))
      (\<lambda>_. reversing env st b cs front (ys @ [c])) (\<lambda>l. stuck st b cs l \<and> uo_required (ul_op l))"
    by (rule triple_and_then[where M = "\<lambda>_. reversing env st b cs front (ys @ [c])"], rule triple_atom)
      (auto simp: on_local_def reversing_def intro!: triple_evidence)
  show ?thesis
    unfolding roll_back_one_def using Some
    by (auto simp: ditem_def intro!: triple_and_then[OF call] triple_and_then[OF look] triple_stop
        triple_weaken[OF note_it] split: if_splits)
qed

definition recovered :: "upgrade_env \<Rightarrow> upgrade_state \<Rightarrow> plan_body \<Rightarrow> upgrade_local \<Rightarrow> bool" where
  "recovered env st b l \<longleftrightarrow> disturbed b l \<and> uo_state (ul_op l) = st \<and> recovery_told env b (touched b l) l"

lemma stuck_part: "stuck st b cs l \<Longrightarrow> disturbed b l \<and> uo_state (ul_op l) = st"
  by (simp add: stuck_def)

lemma stuck_recovered: "stuck st b cs l \<Longrightarrow> recovery_told env b cs l \<Longrightarrow> recovered env st b l"
  by (auto simp: recovered_def stuck_def)

lemma roll_back_triple:
  assumes "\<And>c. c \<in> set cs \<Longrightarrow> restore_only b c = Inr False" and "cs \<noteq> []"
  shows "triple (\<lambda>l. stuck st b cs l \<and> uo_required (ul_op l)) (roll_back env rollback b cs)
    (\<lambda>_. recovered env st b) (\<lambda>l. disturbed b l \<and> uo_state (ul_op l) = st)"
proof (rule triple_fixing[where f = ul_log])
  fix front
  let ?P = "\<lambda>l. (stuck st b cs l \<and> uo_required (ul_op l)) \<and> ul_log l = front"
  let ?S = "\<lambda>l. stuck st b cs l \<and> uo_required (ul_op l)"
  have start: "triple ?P (atom (on_local (\<lambda>l. l\<lparr>ul_restored := []\<rparr>))) (\<lambda>_. reversing env st b cs front []) ?S"
    by (rule triple_atom) (auto simp: on_local_def reversing_def rollback_calls_def)
  have loop: "triple (reversing env st b cs front []) (each (rev cs) (roll_back_one env rollback b))
      (\<lambda>_. reversing env st b cs front (rev cs)) ?S"
  proof (rule triple_each)
    fix x ys zs
    assume "rev cs = ys @ x # zs"
    then have "x \<in> set cs" by (metis in_set_conv_decomp set_rev)
    then show "triple (reversing env st b cs front ys) (roll_back_one env rollback b x)
        (\<lambda>_. reversing env st b cs front (ys @ [x])) ?S"
      using assms(1) by (rule roll_back_one_triple)
  qed
  note defs = recovery_told_def reversing_def Let_def
  have done_it: "triple (reversing env st b cs front (rev cs)) (changing (\<lambda>x. x\<lparr>uo_status := ''rolled-back'',
      uo_action := Some ''Review rollback health evidence before creating a fresh plan.''\<rparr>)) (\<lambda>_. recovered env st b) ?S"
    by (rule triple_changing) (rule stuck_recovered, use assms in \<open>auto simp: defs\<close>)
  have told: "recovered env st b (l\<lparr>ul_op := (ul_op l)\<lparr>uo_evidence := es\<rparr>\<rparr>)"
    if "stuck st b cs l" "uo_required (ul_op l)" "uo_status (ul_op l) = ''compensating-action-required''" for l es
    by (rule stuck_recovered) (use that assms in \<open>auto simp: defs\<close>)
  have by_hand: "triple ?S (followed_by (changing (needs_hand (''Automatic rollback did not verify; stop automation and ''
        @ ''review retained evidence.'')))
      (atom (bindS (on_shared (upgrade_now env)) (\<lambda>now. on_local (\<lambda>l. l\<lparr>ul_op := (ul_op l)\<lparr>uo_evidence :=
         uo_evidence (ul_op l) @ [RollbackFailed (ul_restored l) now]\<rparr>\<rparr>)))))
      (\<lambda>_. recovered env st b) (\<lambda>l. disturbed b l \<and> uo_state (ul_op l) = st)"
    by (rule triple_and_then[where M = "\<lambda>_ l. stuck st b cs l \<and> uo_required (ul_op l)
            \<and> uo_status (ul_op l) = ''compensating-action-required''"], rule triple_changing,
        simp add: needs_hand_def, rule triple_atom)
      (auto simp: on_shared_def on_local_def upgrade_now_def bindS_def told dest: stuck_part split: sum.splits prod.splits)
  show "triple ?P (roll_back env rollback b cs) (\<lambda>_. recovered env st b)
      (\<lambda>l. disturbed b l \<and> uo_state (ul_op l) = st)"
    unfolding roll_back_def
    by (rule triple_and_then[OF triple_weaken[OF start] triple_rescue[OF triple_and_then[OF loop done_it] by_hand]])
      (auto simp: stuck_def)
qed

lemma restore_only_filter:
  assumes "res_filter (restore_only b) cs = Inr blocked"
  shows "(blocked \<noteq> [] \<longleftrightarrow> (\<exists>c\<in>set cs. restore_only b c = Inr True))
    \<and> (blocked = [] \<longrightarrow> (\<forall>c\<in>set cs. restore_only b c = Inr False))"
  using assms by (induction cs arbitrary: blocked) (auto split: sum.splits if_splits)

lemma block_triple:
  assumes "\<exists>c\<in>set cs. restore_only b c = Inr True"
  shows "triple (\<lambda>l. stuck st b cs l \<and> uo_required (ul_op l)) (block_rollback env b blocked)
    (\<lambda>_. recovered env st b) (\<lambda>l. disturbed b l \<and> uo_state (ul_op l) = st)"
proof -
  let ?M = "\<lambda>l. stuck st b cs l \<and> uo_required (ul_op l) \<and> uo_status (ul_op l) = ''restore-required''"
  have told: "recovered env st b (l\<lparr>ul_op := (ul_op l)\<lparr>uo_evidence := es\<rparr>\<rparr>)" if "?M l" for l es
    by (rule stuck_recovered) (use that assms in \<open>auto simp: recovery_told_def\<close>)
  have mark: "triple (\<lambda>l. stuck st b cs l \<and> uo_required (ul_op l)) (changing (\<lambda>x. x\<lparr>uo_status := ''restore-required'',
         uo_action := Some (if uo_backup_verified x
           then ''Restore and verify the bound backup before retrying.''
           else ''Stop: no verified bound backup is available for recovery.'')\<rparr>)) (\<lambda>_. ?M) E" for E
    by (rule triple_changing) auto
  show ?thesis
    unfolding block_rollback_def
    by (rule triple_and_then[OF mark], rule triple_and_then[where M = "\<lambda>_. ?M"], rule triple_stop)
      (auto split: sum.splits dest: stuck_part intro!: triple_evidence told)
qed

lemma recover_nothing_triple:
  "triple (stuck st b []) (recover_with env b []) (\<lambda>_. recovered env st b)
     (\<lambda>l. disturbed b l \<and> uo_state (ul_op l) = st)"
  unfolding recover_with_def if_P[OF refl]
  by (rule triple_and_then[where M = "\<lambda>_ l. stuck st b [] l \<and> \<not> uo_required (ul_op l) \<and> uo_status (ul_op l) = ''not-required''"],
      rule triple_changing, simp, rule triple_evidence)
    (auto dest: stuck_part intro!: stuck_recovered[where cs = "[]"] simp: recovery_told_def)

lemma recover_triple:
  "triple (\<lambda>l. disturbed b l \<and> uo_state (ul_op l) = st) (recover_upgrade env b)
     (\<lambda>_. recovered env st b) (\<lambda>l. disturbed b l \<and> uo_state (ul_op l) = st)"
proof -
  have look: "triple (\<lambda>l. disturbed b l \<and> uo_state (ul_op l) = st)
      (atom (\<lambda>(l, w). (Inr (uncertain b (ul_op l) (ul_mutated l)), l, w))) (\<lambda>cs. stuck st b cs) E" for E
    by (rule triple_atom) (auto simp: stuck_def touched_def)
  have by_hand: "triple (\<lambda>l. stuck st b cs l \<and> uo_required (ul_op l)) (changing (needs_hand action))
      (\<lambda>_. recovered env st b) E" if "cs \<noteq> []" "\<forall>c\<in>set cs. restore_only b c = Inr False" for cs action E
    by (rule triple_changing) (rule stuck_recovered, use that in \<open>auto simp: needs_hand_def recovery_told_def\<close>)
  have act: "triple (stuck st b cs) (recover_with env b cs) (\<lambda>_. recovered env st b)
      (\<lambda>l. disturbed b l \<and> uo_state (ul_op l) = st)" for cs
  proof (cases "cs = []")
    case False
    show ?thesis
    proof (cases "res_filter (restore_only b) cs")
      case (Inl e)
      then show ?thesis using False by (auto simp: recover_with_def dest: stuck_part intro!: triple_stop)
    next
      case (Inr blocked)
      note split = restore_only_filter[OF Inr]
      have mark: "triple (stuck st b cs) (changing (\<lambda>x. x\<lparr>uo_required := True\<rparr>))
          (\<lambda>_ l. stuck st b cs l \<and> uo_required (ul_op l)) E" for E
        by (rule triple_changing) auto
      have "triple (\<lambda>l. stuck st b cs l \<and> uo_required (ul_op l)) (if blocked \<noteq> [] then block_rollback env b blocked
           else case ue_rollback env of None \<Rightarrow> changing (needs_hand
                    ''Review retained evidence and apply the documented compensating action.'')
                | Some rollback \<Rightarrow> roll_back env rollback b cs)
          (\<lambda>_. recovered env st b) (\<lambda>l. disturbed b l \<and> uo_state (ul_op l) = st)"
        using False split by (auto intro!: block_triple by_hand roll_back_triple split: option.split)
      from triple_and_then[OF mark this] show ?thesis
        using False Inr by (simp add: recover_with_def)
    qed
  next
    case True
    show ?thesis unfolding True by (rule recover_nothing_triple)
  qed
  show ?thesis unfolding recover_upgrade_def by (rule triple_and_then[OF look act])
qed

lemma step_calls_mem: "call \<in> set (step_calls target b s) \<Longrightarrow>
    call = VerifyLayer (us_component s)
    \<or> (\<exists>v. call = UpgradeCall (us_component s) v) \<and> us_component s \<in> set (pb_components b)"
  by (cases "component_version target (us_component s)"; cases "us_component s \<in> set (pb_components b)")
    (auto simp: step_calls_def Let_def)

lemma touched_mem:
  "c \<in> set (ul_mutated l) \<Longrightarrow> c \<in> set (touched b l)"
  "uo_current (ul_op l) = Some c \<Longrightarrow> c \<in> set (pb_components b) \<Longrightarrow> c \<in> set (touched b l)"
  by (auto simp: touched_def uncertain_def split: option.split)

lemma advanced_disturbed:
  assumes "advanced env target b prior ss l"
  shows "disturbed b l"
  using assms unfolding disturbed_def accounted_def advanced_def
  by (auto dest!: step_calls_mem intro!: touched_mem(1))

lemma advanced_fields [simp]:
  "advanced env target b prior ss (l\<lparr>ul_op := x\<lparr>uo_updated := n\<rparr>\<rparr>) = advanced env target b prior ss (l\<lparr>ul_op := x\<rparr>)"
  "advanced env target b prior ss (l\<lparr>ul_op := x\<lparr>uo_current := c\<rparr>\<rparr>) = advanced env target b prior ss (l\<lparr>ul_op := x\<rparr>)"
  "advanced env target b prior ss (l\<lparr>ul_op := x\<lparr>uo_state := st\<rparr>\<rparr>) = advanced env target b prior ss (l\<lparr>ul_op := x\<rparr>)"
  "advanced env target b prior ss (l\<lparr>ul_op := x\<lparr>uo_error := e\<rparr>\<rparr>) = advanced env target b prior ss (l\<lparr>ul_op := x\<rparr>)"
  "advanced env target b prior ss (l\<lparr>ul_op := x\<lparr>uo_evidence := es\<rparr>\<rparr>) = advanced env target b prior ss (l\<lparr>ul_op := x\<rparr>)"
  "advanced env target b prior ss (l\<lparr>ul_op := ul_op l\<rparr>) = advanced env target b prior ss l"
  by (simp_all add: advanced_def)

text \<open>Inside a step: \<open>cs\<close> are the calls of the step so far, \<open>ms\<close> what it has changed.\<close>

definition inside ::
    "upgrade_env \<Rightarrow> platform \<Rightarrow> plan_body \<Rightarrow> string list \<Rightarrow> upgrade_step list \<Rightarrow> string \<Rightarrow> upgrade_call list
      \<Rightarrow> string list \<Rightarrow> upgrade_local \<Rightarrow> bool" where
  "inside env target b prior ss c calls ms l \<longleftrightarrow>
     uo_current (ul_op l) = Some c
     \<and> ul_log l = calls @ rev (concat (map (step_calls target b) ss))
     \<and> ul_mutated l = filter (\<lambda>c. c \<in> set (pb_components b)) (map us_component ss) @ ms
     \<and> uo_completed (ul_op l) = prior @ map us_component ss
     \<and> list_all (step_passed env target b) ss"

lemma inside_disturbed:
  assumes "inside env target b prior ss c calls ms l" and "set ms \<subseteq> {c}"
    and "\<And>call. call \<in> set calls \<Longrightarrow> call = VerifyLayer c \<or> (\<exists>v. call = UpgradeCall c v)"
    and "c \<in> set (pb_components b) \<or> calls = [VerifyLayer c] \<and> ms = [] \<or> calls = [] \<and> ms = []"
  shows "disturbed b l"
proof -
  have "call = VerifyLayer c' \<or> (\<exists>v. call = UpgradeCall c' v) \<and> c' \<in> set (touched b l)"
    if mem: "call \<in> set (ul_log l)" and kind: "call \<in> {VerifyLayer c', UpgradeCall c' v, RollbackCall c' v}" for call c' v
  proof (cases "call \<in> set calls")
    case True
    then show ?thesis
      using kind assms(3)[OF True] assms(1,4) touched_mem(2)[of l c b] by (auto simp: inside_def)
  next
    case False
    then obtain s where "s \<in> set ss" "call \<in> set (step_calls target b s)"
      using assms(1) mem by (auto simp: inside_def)
    moreover from this have "us_component s \<in> set (pb_components b) \<Longrightarrow> us_component s \<in> set (touched b l)"
      using assms(1) by (auto simp: inside_def intro!: touched_mem(1))
    ultimately show ?thesis using step_calls_mem[of call target b s] kind by auto
  qed
  moreover have "set (ul_mutated l) \<subseteq> set (pb_components b)" using assms by (auto simp: inside_def)
  ultimately show ?thesis unfolding disturbed_def accounted_def by blast
qed

lemma mutate_step_triple:
  assumes "us_component s \<in> set (pb_components b)"
  shows "triple (inside env target b prior ss (us_component s) [] []) (mutate_step env target s)
    (\<lambda>_ l. \<exists>v n. component_version target (us_component s) = Inr v \<and> ue_upgrade env n (us_component s) v = Inr ()
       \<and> inside env target b prior ss (us_component s) [UpgradeCall (us_component s) v] [us_component s] l)
    (disturbed b)"
proof (cases "component_version target (us_component s)")
  case (Inl e)
  then show ?thesis
    by (auto simp: mutate_step_def Let_def intro!: triple_stop inside_disturbed)
next
  case (Inr v)
  let ?c = "us_component s"
  let ?in = "\<lambda>ms l. (\<exists>n. ue_upgrade env n ?c v = Inr ()) \<and> inside env target b prior ss ?c [UpgradeCall ?c v] ms l"
  have bad: "?in [?c] l \<Longrightarrow> disturbed b l" for l
    using assms by (auto intro!: inside_disturbed)
  have call: "triple (inside env target b prior ss ?c [] []) (call_out (UpgradeCall ?c v) (\<lambda>n. ue_upgrade env n ?c v))
      (\<lambda>_. ?in []) (disturbed b)"
  proof (rule triple_call)
    fix l n
    assume "inside env target b prior ss ?c [] [] l"
    then have "inside env target b prior ss ?c [UpgradeCall ?c v] [] (l\<lparr>ul_log := UpgradeCall ?c v # ul_log l\<rparr>)"
      by (simp add: inside_def)
    moreover from inside_disturbed[OF this] have "disturbed b (l\<lparr>ul_log := UpgradeCall ?c v # ul_log l\<rparr>)"
      using assms by simp
    ultimately show "case ue_upgrade env n ?c v of Inl _ \<Rightarrow> disturbed b (l\<lparr>ul_log := UpgradeCall ?c v # ul_log l\<rparr>)
        | Inr x \<Rightarrow> ?in [] (l\<lparr>ul_log := UpgradeCall ?c v # ul_log l\<rparr>)"
      by (auto split: sum.splits)
  qed
  have grow: "triple (?in []) (atom (on_local (\<lambda>l. l\<lparr>ul_mutated := ul_mutated l @ [?c]\<rparr>))) (\<lambda>_. ?in [?c]) (disturbed b)"
    by (rule triple_atom) (auto simp: on_local_def inside_def)
  have note_it: "triple (?in [?c]) (followed_by (add_evidence env (MutationCompleted ?c (us_class s))) (saving env (\<lambda>x. x)))
      (\<lambda>_. ?in [?c]) (disturbed b)"
    by (rule triple_and_then[where M = "\<lambda>_. ?in [?c]"], rule triple_evidence, simp add: inside_def, erule bad,
        rule triple_saving, simp add: inside_def, rule bad, simp add: inside_def)
  have "triple (inside env target b prior ss ?c [] []) (mutate_step env target s) (\<lambda>_. ?in [?c]) (disturbed b)"
    using triple_and_then[OF call triple_and_then[OF grow note_it]] Inr by (simp add: mutate_step_def Let_def)
  then show ?thesis using Inr by (auto intro: triple_weaken)
qed

lemma verify_step_triple:
  assumes "if us_component s \<in> set (pb_components b)
      then \<exists>v n. component_version target (us_component s) = Inr v \<and> ue_upgrade env n (us_component s) v = Inr ()
        \<and> calls = [UpgradeCall (us_component s) v] \<and> ms = [us_component s]
      else calls = [] \<and> ms = []"
  shows "triple (inside env target b prior ss (us_component s) calls ms) (verify_step env s)
    (\<lambda>_. advanced env target b prior (ss @ [s])) (disturbed b)"
proof -
  let ?c = "us_component s"
  let ?in = "\<lambda>l. (\<exists>n. ue_verify env n ?c = Inr True) \<and> inside env target b prior ss ?c (VerifyLayer ?c # calls) ms l"
  have bad: "disturbed b l" if "inside env target b prior ss ?c (VerifyLayer ?c # calls) ms l" for l
    by (rule inside_disturbed[OF that]) (use assms in \<open>auto split: if_splits\<close>)
  have call: "triple (inside env target b prior ss ?c calls ms) (call_out (VerifyLayer ?c) (\<lambda>n. ue_verify env n ?c))
      (\<lambda>healthy l. if healthy then ?in l else disturbed b l) (disturbed b)"
  proof (rule triple_call)
    fix l n
    assume "inside env target b prior ss ?c calls ms l"
    then have "inside env target b prior ss ?c (VerifyLayer ?c # calls) ms (l\<lparr>ul_log := VerifyLayer ?c # ul_log l\<rparr>)"
      by (simp add: inside_def)
    with bad[OF this] show "case ue_verify env n ?c of Inl _ \<Rightarrow> disturbed b (l\<lparr>ul_log := VerifyLayer ?c # ul_log l\<rparr>)
        | Inr healthy \<Rightarrow> if healthy then ?in (l\<lparr>ul_log := VerifyLayer ?c # ul_log l\<rparr>)
            else disturbed b (l\<lparr>ul_log := VerifyLayer ?c # ul_log l\<rparr>)"
      by (auto split: sum.splits)
  qed
  have on: "advanced env target b prior (ss @ [s]) (l\<lparr>ul_op := (ul_op l)\<lparr>uo_completed := uo_completed (ul_op l) @ [?c]\<rparr>\<rparr>)"
    if "?in l" for l
    using that assms by (auto simp: inside_def advanced_def step_calls_def step_passed_def Let_def split: if_splits)
  have note_it: "triple ?in (followed_by (changing (\<lambda>x. x\<lparr>uo_completed := uo_completed x @ [?c]\<rparr>))
      (followed_by (add_evidence env (HealthVerified ?c)) (saving env (\<lambda>x. x))))
      (\<lambda>_. advanced env target b prior (ss @ [s])) (disturbed b)"
    by (rule triple_and_then[where M = "\<lambda>_. advanced env target b prior (ss @ [s])"], rule triple_changing, erule on,
        rule triple_and_then[where M = "\<lambda>_. advanced env target b prior (ss @ [s])"], rule triple_evidence)
      (auto intro!: triple_saving dest: advanced_disturbed)
  show ?thesis
    unfolding verify_step_def Let_def
    by (rule triple_and_then[OF call]) (auto intro!: triple_stop triple_weaken[OF note_it] split: if_splits)
qed

definition half_way ::
    "upgrade_env \<Rightarrow> platform \<Rightarrow> plan_body \<Rightarrow> upgrade_step \<Rightarrow> upgrade_call list \<Rightarrow> string list \<Rightarrow> bool" where
  "half_way env target b s calls ms \<longleftrightarrow> (if us_component s \<in> set (pb_components b)
      then \<exists>v n. component_version target (us_component s) = Inr v \<and> ue_upgrade env n (us_component s) v = Inr ()
        \<and> calls = [UpgradeCall (us_component s) v] \<and> ms = [us_component s]
      else calls = [] \<and> ms = [])"

lemma half_way_disturbed:
  "half_way env target b s calls ms \<Longrightarrow> inside env target b prior ss (us_component s) calls ms l \<Longrightarrow> disturbed b l"
  by (rule inside_disturbed) (auto simp: half_way_def split: if_splits)

lemma disturbed_fields [simp]:
  "disturbed b (l\<lparr>ul_op := x\<lparr>uo_state := st\<rparr>\<rparr>) = disturbed b (l\<lparr>ul_op := x\<rparr>)"
  "disturbed b (l\<lparr>ul_op := x\<lparr>uo_error := e\<rparr>\<rparr>) = disturbed b (l\<lparr>ul_op := x\<rparr>)"
  "disturbed b (l\<lparr>ul_op := x\<lparr>uo_updated := n\<rparr>\<rparr>) = disturbed b (l\<lparr>ul_op := x\<rparr>)"
  "disturbed b (l\<lparr>ul_op := ul_op l\<rparr>) = disturbed b l"
  by (simp_all add: disturbed_def accounted_def touched_def)

lemma give_up_triple:
  assumes "\<And>l. P l \<Longrightarrow> disturbed b l" and "\<And>x. uo_state (f x) = st" and "\<And>l. disturbed b (l\<lparr>ul_op := f (ul_op l)\<rparr>) = disturbed b l"
  shows "triple P (followed_by (changing f) (recover_upgrade env b)) (\<lambda>_. recovered env st b) (disturbed b)"
  by (rule triple_and_then[where M = "\<lambda>_ l. disturbed b l \<and> uo_state (ul_op l) = st"], rule triple_changing)
    (use assms in \<open>auto intro: triple_weaken[OF recover_triple]\<close>)

lemma upgrade_turn_triple:
  "triple (advanced env target b prior ss) (upgrade_turn env k b target s)
     (\<lambda>go l. if go then advanced env target b prior (ss @ [s]) l
             else recovered env UgCancelled b l \<or> recovered env UgTimedOut b l) (disturbed b)"
proof -
  let ?c = "us_component s"
  let ?out = "\<lambda>go l. if go then advanced env target b prior (ss @ [s]) l
             else recovered env UgCancelled b l \<or> recovered env UgTimedOut b l"
  let ?half = "\<lambda>l. \<exists>calls ms. half_way env target b s calls ms \<and> inside env target b prior ss ?c calls ms l"
  have half: "?half l \<Longrightarrow> disturbed b l" for l using half_way_disturbed by blast
  have stop: "triple P (followed_by p (Stop (Inr go))) ?out (disturbed b)"
    if "triple P p (\<lambda>_. ?out go) (disturbed b)" for P p go
    by (rule triple_and_then[OF that]) (auto intro: triple_stop)
  have start: "triple (advanced env target b prior ss) (saving env (\<lambda>x. x\<lparr>uo_current := Some ?c\<rparr>))
      (\<lambda>_. inside env target b prior ss ?c [] []) (disturbed b)"
  proof (rule triple_saving)
    fix l
    assume "advanced env target b prior ss l"
    then have "inside env target b prior ss ?c [] [] (l\<lparr>ul_op := ul_op l\<lparr>uo_current := Some ?c\<rparr>\<rparr>)"
      by (simp add: advanced_def inside_def)
    then show "disturbed b (l\<lparr>ul_op := ul_op l\<lparr>uo_current := Some ?c\<rparr>\<rparr>)" by (rule inside_disturbed) auto
  qed (simp add: advanced_def inside_def)
  have mutate: "triple (inside env target b prior ss ?c [] [])
      (if ?c \<in> set (pb_components b) then mutate_step env target s else Stop (Inr ())) (\<lambda>_. ?half) (disturbed b)"
  proof (cases "?c \<in> set (pb_components b)")
    case True
    then show ?thesis
      by (simp, intro triple_weaken[OF mutate_step_triple[OF True]]) (auto simp: half_way_def)
  qed (auto simp: half_way_def intro!: triple_stop)
  have look: "triple ?half (over_deadline env) (\<lambda>_. ?half) (disturbed b)"
    unfolding over_deadline_def by (rule triple_atom) (simp add: read_monotonic_def split: sum.splits, blast)
  have verify: "triple ?half (verify_step env s) (\<lambda>_. advanced env target b prior (ss @ [s])) (disturbed b)"
    unfolding triple_def
    using verify_step_triple[of s b target env, folded half_way_def, unfolded triple_def] by blast
  have give_up: "triple P (followed_by (changing f) (followed_by (recover_upgrade env b) (Stop (Inr False)))) ?out (disturbed b)"
    if "\<And>l. P l \<Longrightarrow> disturbed b l" "\<And>x. uo_state (f x) = st" "\<And>l. disturbed b (l\<lparr>ul_op := f (ul_op l)\<rparr>) = disturbed b l"
      "st \<in> {UgCancelled, UgTimedOut}" for P f st
    by (rule stop[OF triple_weaken[where P' = P, OF give_up_triple[where P = P, OF that(1-3)]], unfolded and_then_assoc]) (use that(4) in auto)
  have ask: "triple (advanced env target b prior ss) (atom (on_shared (gets uw_cancelled)))
      (\<lambda>_. advanced env target b prior ss) (disturbed b)"
    by (rule triple_atom) (auto simp: on_shared_def)
  have go: "triple (inside env target b prior ss ?c [] []) (followed_by
         (if ?c \<in> set (pb_components b) then mutate_step env target s else Stop (Inr ()))
         (and_then (over_deadline env) (\<lambda>late.
            if late
            then followed_by (changing (\<lambda>x. x\<lparr>uo_state := UgTimedOut,
                   uo_error := Some ''profile upgrade exceeded its bounded timeout''\<rparr>))
                 (followed_by (recover_upgrade env b) (Stop (Inr False)))
            else followed_by (verify_step env s) (Stop (Inr True))))) ?out (disturbed b)"
    by (rule triple_and_then[OF mutate], rule triple_and_then[OF look], rule triple_if,
        rule give_up[of _ _ UgTimedOut], erule half, simp, simp, simp, rule stop, rule triple_weaken[OF verify],
        simp_all)
  show ?thesis
    unfolding upgrade_turn_def
    by (rule triple_and_then[OF ask], rule triple_if, rule give_up[of _ _ UgCancelled],
        erule advanced_disturbed, simp, simp, simp, rule triple_and_then[OF start go])
qed

lemma upgrade_loop_triple:
  "triple (advanced env target b prior ss) (upgrade_loop env k b target todo)
     (\<lambda>go l. if go then advanced env target b prior (ss @ todo) l
             else recovered env UgCancelled b l \<or> recovered env UgTimedOut b l) (disturbed b)"
proof (induction todo arbitrary: ss)
  case Nil
  then show ?case by (auto intro: triple_stop)
next
  case (Cons s todo)
  show ?case
    by (simp only: upgrade_loop.simps, rule triple_and_then[OF upgrade_turn_triple], rule triple_if,
        rule triple_weaken[OF Cons.IH[of "ss @ [s]"]])
      (auto split: if_splits intro!: triple_stop)
qed

definition fresh_local :: "upgrade_local \<Rightarrow> bool" where
  "fresh_local l \<longleftrightarrow> ul_log l = [] \<and> ul_mutated l = []"

definition run_outcome :: "upgrade_env \<Rightarrow> platform \<Rightarrow> plan_body \<Rightarrow> string list \<Rightarrow> upgrade_local \<Rightarrow> bool" where
  "run_outcome env target b prior l \<longleftrightarrow>
     uo_state (ul_op l) = UgSucceeded \<and> advanced env target b prior (pb_steps b) l
     \<or> (\<exists>st\<in>{UgFailed, UgCancelled, UgTimedOut}. recovered env st b l)"

definition gone_wrong :: "plan_body \<Rightarrow> upgrade_local \<Rightarrow> bool" where
  "gone_wrong b l \<longleftrightarrow> disturbed b l \<and> uo_state (ul_op l) = UgFailed"

lemma guarded_triple:
  "triple (advanced env target b prior [])
     (rescue (and_then (upgrade_loop env k b target (pb_steps b)) conclude) (\<lambda>_. fail_upgrade env b))
     (\<lambda>_. run_outcome env target b prior) (disturbed b)"
proof (rule triple_rescue[where M = "disturbed b"])
  show "triple (advanced env target b prior []) (and_then (upgrade_loop env k b target (pb_steps b)) conclude)
      (\<lambda>_. run_outcome env target b prior) (disturbed b)"
  proof (rule triple_and_then[OF upgrade_loop_triple])
    fix through
    show "triple (\<lambda>l. if through then advanced env target b prior ([] @ pb_steps b) l
          else recovered env UgCancelled b l \<or> recovered env UgTimedOut b l) (conclude through)
        (\<lambda>_. run_outcome env target b prior) (disturbed b)"
      by (cases through) (auto simp: conclude_def run_outcome_def advanced_def intro!: triple_changing triple_stop)
  qed
next
  show "triple (disturbed b) (fail_upgrade env b) (\<lambda>_. run_outcome env target b prior) (disturbed b)"
    unfolding fail_upgrade_def
    by (rule triple_weaken[OF give_up_triple[of "disturbed b" b _ UgFailed]]) (auto simp: run_outcome_def)
qed

lemma recovered_updated [simp]:
  "recovered env st b (l\<lparr>ul_op := (ul_op l)\<lparr>uo_updated := n\<rparr>\<rparr>) = recovered env st b l"
  by (simp add: recovered_def recovery_told_def touched_def Let_def)

lemma run_triple:
  "triple fresh_local (run_upgrade env k p target)
     (\<lambda>_ l. \<exists>prior. run_outcome env target (up_body p) prior l) (disturbed (up_body p))"
proof -
  let ?b = "up_body p"
  have start: "fresh_local l \<Longrightarrow> disturbed ?b l" for l
    by (simp add: fresh_local_def disturbed_def accounted_def)
  have load: "triple fresh_local (load_upgrade k) (\<lambda>_. fresh_local) (disturbed ?b)"
    unfolding load_upgrade_def
    by (rule triple_atom)
      (auto simp: on_shared_def get_doc_def change_op_def on_local_def bindS_def fresh_local_def start
        split: option.splits upgrade_doc.splits)
  have save: "triple fresh_local (saving env (\<lambda>x. x\<lparr>uo_state := UgRunning\<rparr>)) (\<lambda>_. fresh_local) (disturbed ?b)"
    by (rule triple_saving) (auto simp: fresh_local_def intro!: start)
  have deadline: "triple fresh_local (set_deadline env n)
      (\<lambda>_ l. \<exists>prior. advanced env target ?b prior [] l) (disturbed ?b)" for n
    unfolding set_deadline_def by (rule triple_atom) (auto simp: read_monotonic_def advanced_def)
  have final: "triple P (followed_by (atom (on_shared (modify (\<lambda>w. w\<lparr>uw_cancelled := removeAll k (uw_cancelled w)\<rparr>))))
      (saving env (\<lambda>x. x))) (\<lambda>_. P) (disturbed ?b)"
    if "\<And>l. P l \<Longrightarrow> disturbed ?b l" "\<And>l n. P l \<Longrightarrow> P (l\<lparr>ul_op := (ul_op l)\<lparr>uo_updated := n\<rparr>\<rparr>)" for P
    by (rule triple_and_then[where M = "\<lambda>_. P"], rule triple_atom)
      (use that in \<open>auto simp: on_shared_def intro!: triple_saving\<close>)
  have work: "triple (advanced env target ?b prior [])
      (ensure (rescue (and_then (upgrade_loop env k ?b target (pb_steps ?b)) conclude) (\<lambda>_. fail_upgrade env ?b))
        (followed_by (atom (on_shared (modify (\<lambda>w. w\<lparr>uw_cancelled := removeAll k (uw_cancelled w)\<rparr>))))
          (saving env (\<lambda>x. x)))) (\<lambda>_. run_outcome env target ?b prior) (disturbed ?b)" for prior
    by (rule triple_ensure[OF guarded_triple final final])
      (auto simp: run_outcome_def recovered_def[of _ _ ?b] dest: advanced_disturbed)
  show ?thesis
    unfolding run_upgrade_def Let_def
    by (rule triple_and_then[OF load triple_and_then[OF save triple_and_then[OF deadline]]], rule triple_ex, rule work)
qed

text \<open>
  C38. A run that is recorded as succeeded did every step. Whatever other threads do to the store, the
  calls it made are exactly those of the plan's steps in their order: the upgrade of the component when
  its version changes, then its verification; every upgrade came back, every verification was healthy,
  every component is recorded as completed, and nothing was rolled back.
\<close>

theorem succeeded_upgrade_is_verified:
  assumes "fresh_local l" and "may_end (run_upgrade env k p target) l (Inr ()) l'"
    and "uo_state (ul_op l') = UgSucceeded"
  shows "ul_log l' = rev (concat (map (step_calls target (up_body p)) (pb_steps (up_body p))))
    \<and> list_all (step_passed env target (up_body p)) (pb_steps (up_body p))
    \<and> (\<exists>prior. uo_completed (ul_op l') = prior @ map us_component (pb_steps (up_body p)))"
proof -
  obtain prior where "run_outcome env target (up_body p) prior l'"
    using run_triple[of env k p target] assms(1,2) by (fastforce simp: triple_def)
  then show ?thesis using assms(3) by (auto simp: run_outcome_def advanced_def recovered_def)
qed



text \<open>
  Restarts are not counted once: an operation that an earlier restart interrupted is marked again by every
  later one, so its evidence grows with each.
\<close>

lemma every_restart_is_noted:
  assumes "uw_rows w k = Some (OperationDoc x)" and "uo_state x = UgInterrupted"
  shows "\<exists>y. uw_rows (reopen_upgrades now w) k = Some (OperationDoc y) \<and> uo_state y = UgInterrupted
    \<and> uo_evidence y = uo_evidence x @ [UpgradeRestarted now]"
  using assms by (simp add: reopen_upgrades_def reopen_doc_def flag_restart_def interrupt_upgrade_def)

section \<open>A small upgrade\<close>

definition small_versions :: "int \<Rightarrow> (string \<times> json \<times> json) list" where
  "small_versions n = [(''db'', JInt n, JObj [])]"

definition small_profile :: "string \<Rightarrow> int \<Rightarrow> transition list \<Rightarrow> platform" where
  "small_profile i n ts = \<lparr>pf_id = i, pf_maturity = ''validated'', pf_level = ''licensed-live'',
     pf_allowed = map tr_source ts, pf_transitions = ts, pf_capacity = [(''cpu'', 4)],
     pf_components = small_versions n\<rparr>"

definition small_transition :: transition where
  "small_transition = \<lparr>tr_source = ''a'', tr_timeout = 60, tr_downtime = JInt 5, tr_backup = True,
     tr_migrations = [\<lparr>mi_component = ''db'', mi_rollback = ''reversible'', mi_rest = []\<rparr>], tr_recovery = JStr ''x''\<rparr>"

definition small_observation :: document where
  "small_observation = [(''profileId'', JStr ''a''),
     (''versions'', JObj [(''db'', JObj [(''chart'', JInt 1), (''images'', JObj [])])]),
     (''capacity'', JObj [(''cpu'', JInt 8)]), (''health'', JObj [(''state'', JStr ''healthy'')]),
     (''dependencies'', JObj [(''db'', JStr ''ready'')]),
     (''backup'', JObj [(''id'', JStr ''b1''), (''profileId'', JStr ''a''), (''complete'', JBool True), (''verified'', JBool True)])]"

definition small_component :: component where
  "small_component = \<lparr>comp_id = ''db'', comp_name = ''D'', comp_web = None, comp_deps = [],
     comp_operations = [], comp_checks = []\<rparr>"

definition small_env :: "(nat \<Rightarrow> string \<Rightarrow> bool result) \<Rightarrow> upgrade_env" where
  "small_env verify = \<lparr>ue_registry = [(''db'', small_component)], ue_hash = insertion_order,
     ue_source = small_profile ''a'' 1 [],
     ue_load = (\<lambda>i. if i = ''b'' then Inr (small_profile ''b'' 2 [small_transition]) else raise PlatformProfileError i),
     ue_observe = (\<lambda>n. Inr small_observation), ue_clock = (\<lambda>n. Aware (int n)), ue_monotonic = (\<lambda>n. 0),
     ue_uuid = (\<lambda>n. if n = 0 then ''0'' else ''1''), ue_sha256 = (\<lambda>s. s), ue_ttl = 600, ue_age = 300,
     ue_upgrade = (\<lambda>n c v. Inr ()), ue_rollback = Some (\<lambda>n c v. Inr ()), ue_verify = verify\<rparr>"

definition small_world :: upgrade_world where
  "small_world = \<lparr>uw_rows = (\<lambda>k. None), uw_cancelled = [], uw_ticks = 0, uw_reads = 0, uw_ids = 0, uw_calls = 0,
     uw_started = []\<rparr>"

lemma small_order: "registry_order (small_env verify) = Inr [''db'']"
  by (simp add: registry_order_def small_env_def dependency_order_def component_ids_def order_eval
      small_component_def reg_component_def edges_def)

definition small_body :: plan_body where
  "small_body = \<lparr>pb_source_id = ''a'', pb_source_versions = [(''db'', JObj [(''chart'', JInt 1), (''images'', JObj [])])],
     pb_target_id = ''b'', pb_target_versions = [(''db'', JObj [(''chart'', JInt 2), (''images'', JObj [])])],
     pb_components = [''db''], pb_impact = [''db''], pb_capacity = JObj [(''cpu'', JInt 8)],
     pb_health = JObj [(''state'', JStr ''healthy'')], pb_dependencies = JObj [(''db'', JStr ''ready'')],
     pb_backup = JObj [(''id'', JStr ''b1''), (''profileId'', JStr ''a''), (''complete'', JBool True), (''verified'', JBool True)],
     pb_required = True, pb_migrations = tr_migrations small_transition, pb_rollback = ''reversible'',
     pb_recovery = JStr ''x'', pb_steps = [\<lparr>us_number = 1, us_component = ''db'', us_changes = True, us_class = ''reversible''\<rparr>],
     pb_downtime = JInt 5, pb_timeout = 60\<rparr>"

definition small_plan :: upgrade_plan where
  "small_plan = (let digest = body_digest (\<lambda>s. s) small_body in
     \<lparr>up_id = ''upgrade-plan-0'', up_state = None, up_error = None, up_body = small_body, up_digest = digest,
      up_created = 0, up_expires = 600, up_confirmation = ''UPGRADE a TO b '' @ digest\<rparr>)"

definition planned_world :: upgrade_world where
  "planned_world = small_world\<lparr>uw_rows := [''upgrade-plan-0'' \<mapsto> PlanDoc small_plan], uw_ticks := 1, uw_reads := 1, uw_ids := 1\<rparr>"

lemma small_versions:
  "profile_versions (small_profile i n ts) = Inr [(''db'', JObj [(''chart'', JInt n), (''images'', JObj [])])]"
  by (simp add: profile_versions_def small_profile_def small_versions_def component_version_def)

lemma small_validated: "validated_observation [''db''] (small_profile ''a'' 1 []) (small_profile ''b'' 2 [small_transition])
    small_transition (Inr small_observation) = Inr small_observation"
  unfolding validated_observation_def small_versions sum.case
  by code_simp

lemma small_target: "find_transition (small_profile ''b'' 2 [small_transition]) ''a'' = Inr small_transition"
  by code_simp

lemma small_planned_body: "planned_body (small_profile ''a'' 1 []) (small_profile ''b'' 2 [small_transition])
    small_transition small_observation [''db''] [''db''] = Inr small_body"
  by (simp add: planned_body_def small_versions small_body_def seqR_def) code_simp

lemma small_changed: "version_changed (small_profile ''a'' 1 []) (small_profile ''b'' 2 [small_transition]) ''db'' = Inr True"
  by code_simp

lemma small_ids: "component_ids (ue_registry (small_env verify)) = [''db'']"
  by (simp add: small_env_def component_ids_def)

lemma small_planning: "plan_upgrade (small_env verify) ''b'' small_world = (Inr small_plan, planned_world)"
proof -
  have env: "ue_source (small_env verify) = small_profile ''a'' 1 []" "ue_observe (small_env verify) n = Inr small_observation"
    "ue_load (small_env verify) ''b'' = Inr (small_profile ''b'' 2 [small_transition])" "ue_clock (small_env verify) n = Aware (int n)"
    "ue_uuid (small_env verify) 0 = ''0''" "ue_sha256 (small_env verify) = (\<lambda>s. s)" "ue_ttl (small_env verify) = 600" for n
    by (simp_all add: small_env_def)
  have ids: "pf_id (small_profile i n ts) = i" for i n ts by (simp add: small_profile_def)
  have ok: "allowed_target (small_profile ''a'' 1 []) (small_profile ''b'' 2 [small_transition]) = Inr ()" by code_simp
  show ?thesis
    by (simp add: plan_upgrade_def load_target_def env ids ok small_target small_ids small_validated small_order
        small_changed small_planned_body bindS_def Let_def observe_platform_def upgrade_now_def upgrade_uuid_def
        put_doc_def doc_id_def aware_def guard_def small_world_def planned_world_def small_plan_def)
qed

theorem unchanged_plan_is_accepted_witness:
  "\<exists>x w' target. alone (submit_upgrade (small_env (\<lambda>n c. Inr True)) (up_id small_plan)
       \<lparr>id_actor = ''ana'', id_source = ''web'', id_session = ''s'', id_authenticated = 0\<rparr>
       (Some (up_confirmation small_plan))) ((), planned_world) = (Inr x, (), w')
    \<and> ue_load (small_env (\<lambda>n c. Inr True)) ''b'' = Inr target
    \<and> uw_started w' = (uo_id x, small_plan, target) # uw_started planned_world"
  by (rule unchanged_plan_is_accepted[OF small_planning, where now = 1])
    (auto simp: planned_world_def small_plan_def small_env_def small_profile_def aware_def STRONG_SOURCES_def
      Let_def split: if_splits)


definition run_plan :: upgrade_plan where
  "run_plan = \<lparr>up_id = ''p'', up_state = Some ''consumed'', up_error = None, up_body = small_body, up_digest = ''d'',
     up_created = 0, up_expires = 600, up_confirmation = ''c''\<rparr>"

definition small_local :: upgrade_local where
  "small_local = \<lparr>ul_op = queued_upgrade ''u'' run_plan
       \<lparr>id_actor = ''ana'', id_source = ''web'', id_session = ''s'', id_authenticated = 0\<rparr> 1,
     ul_mutated = [], ul_log = [], ul_restored = [], ul_deadline = 0\<rparr>"

definition running_world :: upgrade_world where
  "running_world = small_world\<lparr>uw_rows := [''u'' \<mapsto> OperationDoc (ul_op small_local)]\<rparr>"

definition small_target :: platform where
  "small_target = small_profile ''b'' 2 [small_transition]"

definition small_run :: "(nat \<Rightarrow> string \<Rightarrow> bool result) \<Rightarrow> unit result \<times> upgrade_local \<times> upgrade_world" where
  "small_run verify = alone (run_upgrade (small_env verify) ''u'' run_plan small_target) (small_local, running_world)"

text \<open>Once the layer is healthy, once it is not until it was rolled back.\<close>

definition healthy_later :: "nat \<Rightarrow> string \<Rightarrow> bool result" where
  "healthy_later n c = Inr (1 < n)"

lemma small_run_ends:
  "may_end (run_upgrade (small_env verify) ''u'' run_plan small_target) small_local
     (fst (small_run verify)) (fst (snd (small_run verify)))"
  by (rule alone_ends[where s = running_world and t = "snd (snd (small_run verify))"]) (simp add: small_run_def)

lemma small_fresh: "fresh_local small_local"
  by (simp add: fresh_local_def small_local_def)

lemma small_success:
  "(case small_run (\<lambda>n c. Inr True) of (r, l, w) \<Rightarrow> (r, uo_state (ul_op l))) = (Inr (), UgSucceeded)"
  by code_simp

lemma small_failure:
  "(case small_run healthy_later of (r, l, w) \<Rightarrow> (r, uo_state (ul_op l), uo_status (ul_op l), ul_log l))
     = (Inr (), UgFailed, ''rolled-back'',
        [VerifyLayer ''db'', RollbackCall ''db'' (JObj [(''chart'', JInt 1), (''images'', JObj [])]), VerifyLayer ''db'',
         UpgradeCall ''db'' (JObj [(''chart'', JInt 2), (''images'', JObj [])])])"
  by code_simp

theorem succeeded_upgrade_is_verified_witness:
  "ul_log (fst (snd (small_run (\<lambda>n c. Inr True)))) = rev (concat (map (step_calls small_target small_body) (pb_steps small_body)))"
proof -
  have "fst (small_run (\<lambda>n c. Inr True)) = Inr ()" "uo_state (ul_op (fst (snd (small_run (\<lambda>n c. Inr True))))) = UgSucceeded"
    using small_success by (auto split: prod.splits)
  then show ?thesis
    using succeeded_upgrade_is_verified[OF small_fresh, of "small_env (\<lambda>n c. Inr True)" "''u''" run_plan small_target]
      small_run_ends[of "\<lambda>n c. Inr True"] by (simp add: run_plan_def)
qed



end
