(* ===== verification/Spec2Isabelle.thy ===== *)
theory Spec2Isabelle
  imports EngineRace Health Autonomy Heartbeat SupSafety RegistryValidation Telegram Availability Recovery Upgrade
begin

text \<open>
  A verification development of the Fortify Lab manager (\<^verbatim>\<open>manager/\<close>) and of the supervisor of its
  issue workflow (\<^verbatim>\<open>supervisor/\<close>). File names below are relative to the repository.

  \<^bold>\<open>The program and its parts.\<close> The manager keeps a read-only registry of the components of a Fortify
  lab. A lifecycle request names an operation and some components. It is planned over the registry's
  dependency graph, where its risk asks for it it is approved once and for exactly that plan, and it is
  run step by step by adapters and verifiers, with every state written to a durable store; a health
  engine evaluates the same components. The supervisor watches one pull request at a time: it reads an
  autonomy policy from a protected file, keeps its settings, approvals, events, callback tokens and
  notifications in an SQLite database that several processes share, merges through GitHub and selects
  the next issue; the runner it starts reports by heartbeat files.

  \<^bold>\<open>Theories.\<close>
  \<^item> \<open>Prelude\<close>, \<open>Effects\<close>: exceptions as a datatype with their subclass order, calls that may raise
    (\<open>exn + 'a\<close>) and that change a state (\<open>('s, 'a) proc\<close>: what was written before a raise stays), the
    collections \<open>keeps\<close> and \<open>runs\<close>, and the locale \<open>evolution\<close> for preorders that composed calls follow.
  \<^item> \<open>Json\<close>, \<open>IsoText\<close>: canonical \<^verbatim>\<open>json.dumps\<close> with its injectivity, and ISO time texts by their laws.
  \<^item> \<open>Ledger\<close>: the locale \<open>single_use_ledger\<close>, the contract of every table of single-use authority.
  \<^item> \<open>Registry\<close>: \<^verbatim>\<open>manager/component_registry.py\<close>, Kahn's algorithm over the dependency closure.
  \<^item> \<open>RegistryValidation\<close>: \<^verbatim>\<open>manager/registry_validation.py\<close> on the JSON document, and \<^verbatim>\<open>load\<close>.
  \<^item> \<open>Authorization\<close>: \<^verbatim>\<open>manager/authorization.py\<close>, identities, plan digests, \<^verbatim>\<open>ApprovalStore\<close> and the
    service; its store interprets \<open>single_use_ledger\<close>.
  \<^item> \<open>Planner\<close>, \<open>OpStore\<close>, \<open>Engine\<close>, \<open>EngineRace\<close>: \<^verbatim>\<open>manager/operation_engine.py\<close>; plans, the operation
    store and its restart, prepare, run, cancel and retry, and the interleaving of the engine's threads.
  \<^item> \<open>Sanitize\<close>: the redaction of \<^verbatim>\<open>manager/record_store.py\<close> on a matcher for its patterns.
  \<^item> \<open>Health\<close>: \<^verbatim>\<open>manager/health.py\<close>, the layered health document over arbitrary probes.
  \<^item> \<open>Autonomy\<close>: \<^verbatim>\<open>supervisor/autonomy_policy.py\<close>, validation, digest, and the atomic replacement of the
    policy file where each system call may fail.
  \<^item> \<open>Heartbeat\<close>: \<^verbatim>\<open>manager/runner_heartbeat.py\<close>, leases, phases, retention.
  \<^item> \<open>SupStore\<close>, \<open>SupPolicy\<close>, \<open>SupMerge\<close>: \<^verbatim>\<open>supervisor/fortify_supervisor.py\<close>; the class \<^verbatim>\<open>Store\<close> with the
    write lock of its transactions, policy reload and delivery, and the GitHub side with the merge gates.
  \<^item> \<open>SupStatus\<close>, \<open>SupMonitor\<close>, \<open>SupControl\<close>: \<^verbatim>\<open>supervisor/workflow_status.py\<close> and the status message, one pass
    of \<^verbatim>\<open>monitor_once\<close>, and the Telegram channel with its callbacks, commands, loop and processes.
  \<^item> \<open>SupFrame\<close>, \<open>SupAuthority\<close>, \<open>SupSafety\<close>: the locales \<open>sup_frame\<close> and \<open>sup_frame_acts\<close> carry any relation
    that the supervisor's primitive steps respect through all of its calls; the relations for the pause,
    the recorded error, spent tokens and paid authority interpret them, and the properties follow.

  \<^item> \<open>Comms\<close>, \<open>Remote\<close>, \<open>Telegram\<close>: \<^verbatim>\<open>manager/communications.py\<close>, the command language, the client and the
    renderers; \<^verbatim>\<open>manager/remote_actions.py\<close>, plans and their buttons over the authorization service and
    the engine, where the callback table interprets \<open>single_use_ledger\<close>; \<^verbatim>\<open>manager/telegram_observer.py\<close>.
  \<^item> \<open>Availability\<close>: \<^verbatim>\<open>manager/availability.py\<close>, approved routes, the probe of a host and the monitor.
  \<^item> \<open>Threads\<close>: calls cut into the pieces that a lock makes atomic (\<open>script\<close>), a rely-guarantee logic for one
    thread, the triples of what a thread may end with whatever the others do, and the locale \<open>fair_share\<close>
    that puts threads together.
  \<^item> \<open>Recovery\<close>, \<open>Upgrade\<close>: \<^verbatim>\<open>manager/backup_restore.py\<close>, backups, restores, their workers, cancellation and the
    client of the privileged helper, where the service interprets \<open>fair_share\<close>; \<^verbatim>\<open>manager/profile_upgrade.py\<close>,
    plans of upgrades, their confirmation, the run and its recovery, with the versions of a profile from
    \<^verbatim>\<open>manager/platform_profiles.py\<close>.

  \<^bold>\<open>State and correspondence.\<close> A class becomes a record of its tables and a definition per method, under
  the method's name (prefixed where two classes share it). The engine's state is \<open>engine_state\<close>, the
  supervisor's \<open>sup_state\<close>: database, policy, policy directory, number of external calls so far, log of
  what was done on GitHub. What the code reads from outside (clocks, hashes, random tokens, probes,
  adapters, answers of \<^verbatim>\<open>gh\<close>, failing system calls) is a function in an environment record, indexed by
  the number of the call where answers may differ; the theorems hold for all of them. Strings are
  ASCII; pictographs at the head of a message are left out.

  \<^bold>\<open>What is shown.\<close> Orders and plans: exactly the closure, dependencies first, bounded steps, recovery
  class (\<open>Registry\<close>, \<open>Planner\<close>). A registry that validation accepts is well typed and can be ordered, and the
  health engine answers over it (\<open>RegistryValidation\<close> and below). Authority: an approval is accepted once, for its own plan, whatever the
  interleaving (\<open>Authorization\<close>), and the engine starts nothing it should not (\<open>Engine\<close>). Runs end and say
  what was done; active operations stay disjoint (\<open>Engine\<close>, \<open>EngineRace\<close>, \<open>OpStore\<close>). Health is total, healthy
  is observed, root causes are real. Policies are safe when accepted and survive a failing write; no
  process acts on an expired or superseded one. Heartbeats refine an abstract progress machine. In the
  supervisor's database tokens and queue slots are spent once, and a pull request is merged only on its
  own approval, after a fresh look, within the policy; over whole histories of its processes every merge
  and every stop of a runner is paid for once, a paused monitor does nothing, a button works once and a
  recorded error outlives everything but a rollover. A remote button is carried out at most once and starts
  only the plan that was reviewed; answers fit the bounds of a message and only the configured operator
  gets one (\<open>Remote\<close>, \<open>Comms\<close>, \<open>Telegram\<close>). Probes of an endpoint keep their distance whatever the
  interleaving (\<open>Availability\<close>). A complete backup is whole and only such backups are restored, whatever the threads
  do (\<open>Recovery\<close>); an upgrade starts only what was confirmed and is still current, succeeds only when every
  step was verified, and rolls back only what may be rolled back (\<open>Upgrade\<close>). Where the code departs from what it means to do,
  a theorem shows the departure (a decision lost in a race, a lock held by a repeated event, a stranded
  cancellation, a refused rollover reported as done, a message that ends the listener).

  \<^bold>\<open>Bounds and fuel.\<close> Kahn's loop is a \<open>while_option\<close> with a decreasing measure, and it is total. Retry
  counts, timeouts and retention limits are those of the code and are proved as bounds. The only bounded
  recursion is issue selection in \<open>SupMerge\<close>, which calls itself after a rollover; its depth is an argument
  and depth 0 raises, as Python's recursion limit does; the theorems hold for every depth. The endless
  Telegram loop is cut after an arbitrary number of rounds.

  The loop that reads the helper's answer ends because the answer is bounded (a measure), and the
  monotonic clock of an upgrade is a rational number.

  \<^bold>\<open>Not modelled.\<close> Transports, renderers of web pages and command lines. The observers of Kubernetes,
  MicroK8s, Helm, sockets and files, the functional probes and the host preflight read the environment;
  they enter as parameters. The secret workflow and the configuration migration act on a cluster and on
  file trees between short checks; inventory, capabilities and evaluations project recorded documents;
  scripts package the repository. SQLite itself, of which statements are atomic and a transaction holds
  the write lock; of the record store only the redaction. The HTTP side of Telegram, and the buttons of
  its messages. Waiting for idle workers (\<^verbatim>\<open>wait_for_idle\<close>) only reads. Histories of the supervisor's
  processes interleave whole commands; their store calls interleave in \<open>SupStore\<close>.
\<close>

section \<open>From a valid registry to a health document\<close>


definition https_health :: health_env where
  "https_health = (demo_health ''none'')\<lparr>he_components := [\<lparr>comp_id = ''db'', comp_name = ''D'',
     comp_web = None, comp_deps = [], comp_operations = [],
     comp_checks = [\<lparr>chk_id = ''c'', chk_type = ''https'', chk_target = ''w'', chk_timeout = 5,
        chk_required = True\<rparr>]\<rparr>]\<rparr>"


text \<open>
  Validation does not look at the type of a health check. The registry of one component whose
  required check has the type \<^verbatim>\<open>smoke\<close> is accepted, although no probe layer has that name, and every
  health document over it ends in the \<^verbatim>\<open>KeyError\<close> of \<^verbatim>\<open>_component_layer\<close> instead of an answer.
\<close>

definition smoke_component :: component where
  "smoke_component = \<lparr>comp_id = ''db'', comp_name = ''D'', comp_web = None, comp_deps = [],
     comp_operations = [\<lparr>op_id = ''start'', op_adapter = ''apps/a.sh'', op_timeout = 60,
        op_verify = [''c''], op_idempotent = True\<rparr>],
     comp_checks = [\<lparr>chk_id = ''c'', chk_type = ''smoke'', chk_target = ''w'', chk_timeout = 5,
        chk_required = True\<rparr>]\<rparr>"

theorem accepted_check_breaks_health:
  assumes "he_components env = [smoke_component]"
  shows "validate_registry insertion_order (\<lambda>_. RegularFile) (Some demo_profile) (demo_document ''smoke'') = Inr []
    \<and> health_document env = raise PyKeyError ''smoke''"
proof
  show valid: "validate_registry insertion_order (\<lambda>_. RegularFile) (Some demo_profile) (demo_document ''smoke'') = Inr []"
    by (rule demo_document_valid(2))
  have view: "list_all2 (\<lambda>j c. graph_component j = Inr (graph_node (comp_id c, comp_deps c)))
      [demo_component ''smoke''] [smoke_component]"
    by (simp add: graph_component_def graph_id_def demo_component_def smoke_component_def json_get_def
        bindR_def iterate_def graph_node_def)
  have "map_of (demo_document ''smoke'') ''components'' = Some (JList [demo_component ''smoke''])"
    by (simp add: demo_document_def)
  from valid_document_orderable[OF valid this view]
  obtain order where order: "dependency_order (he_hash env) (he_registry env) None = Inr order"
    and closure: "ordered_closure (he_registry env) (set (component_ids (he_registry env))) order"
    using dependency_order_cases[where h = "he_hash env" and cs = "he_components env" and sel = None] assms
    by (auto simp: selection_def split: sum.splits)
  have reg: "he_registry env = [(''db'', smoke_component)]"
    by (simp add: assms mk_registry_def smoke_component_def)
  have "dep_rel (he_registry env) = {}"
    by (auto simp: dep_rel_def deps_of_def reg smoke_component_def)
  then have "distinct order" and "set order = {''db''}"
    using closure by (simp_all add: ordered_closure_def reg component_ids_def reach_def)
  then have "order = [''db'']"
    by (cases order; cases "tl order") auto
  then show "health_document env = raise PyKeyError ''smoke''"
    using order by (simp add: health_document_def subjects_def component_subject_def reg_component_def reg
        smoke_component_def component_check_def component_layer_def PROBE_LAYERS_def)
qed

theorem accepted_check_breaks_health_witness:
  "he_components ((demo_health ''none'')\<lparr>he_components := [smoke_component]\<rparr>) = [smoke_component]
   \<and> health_document ((demo_health ''none'')\<lparr>he_components := [smoke_component]\<rparr>) = raise PyKeyError ''smoke''"
  using accepted_check_breaks_health[of "(demo_health ''none'')\<lparr>he_components := [smoke_component]\<rparr>"] by simp

end
